(* ===== verification/Prelude.thy ===== *)
theory Prelude
  imports Complex_Main "HOL-Library.Char_ord" "HOL-Library.List_Lexorder" "HOL-Library.Product_Lexorder"
begin

text \<open>
  Shared vocabulary of the development.

  \<^item> Python dictionaries keep insertion order: a \<open>dict\<close> is an association list, assignment to an
    existing key keeps its position and a new key goes to the end. The laws every client uses are
    the locale \<open>py_dict\<close>, interpreted on these functions at the end of their section.
  \<^item> Readings of a clock and durations are rational numbers of seconds (\<open>secs\<close>): Python's floats
    without rounding.
  \<^item> An operation that can raise returns the state it leaves together with a sum: \<open>Inl\<close> is the
    exception, \<open>Inr\<close> the value.
  \<^item> \<open>invariant_run\<close> and \<open>progress_run\<close> lift a fact about one step to a whole run.
\<close>

type_synonym secs = rat
type_synonym ('k, 'v) dict = "('k \<times> 'v) list"

section \<open>Python dictionaries\<close>

definition dict_get :: "('k, 'v) dict \<Rightarrow> 'k \<Rightarrow> 'v option" where
  "dict_get d k = map_of d k"

fun dict_set :: "('k, 'v) dict \<Rightarrow> 'k \<Rightarrow> 'v \<Rightarrow> ('k, 'v) dict" where
  "dict_set [] k v = [(k, v)]"
| "dict_set ((k', v') # d) k v = (if k' = k then (k, v) # d else (k', v') # dict_set d k v)"

definition dict_pop :: "('k, 'v) dict \<Rightarrow> 'k \<Rightarrow> ('k, 'v) dict" where
  "dict_pop d k = filter (\<lambda>p. fst p \<noteq> k) d"

definition dict_keys :: "('k, 'v) dict \<Rightarrow> 'k list" where
  "dict_keys d = map fst d"

definition dict_values :: "('k, 'v) dict \<Rightarrow> 'v list" where
  "dict_values d = map snd d"

definition dict_has :: "('k, 'v) dict \<Rightarrow> 'k \<Rightarrow> bool" where
  "dict_has d k \<longleftrightarrow> dict_get d k \<noteq> None"

text \<open>Keys occur once in every dictionary a program can build.\<close>

definition dict_ok :: "('k, 'v) dict \<Rightarrow> bool" where
  "dict_ok d \<longleftrightarrow> distinct (dict_keys d)"

lemma dict_get_Nil [simp]: "dict_get [] k = None"
  by (simp add: dict_get_def)

lemma dict_get_Cons [simp]: "dict_get ((k', v) # d) k = (if k' = k then Some v else dict_get d k)"
  by (simp add: dict_get_def)

lemma dict_get_set [simp]: "dict_get (dict_set d k v) k' = (if k' = k then Some v else dict_get d k')"
  by (induction d k v rule: dict_set.induct) auto

lemma dict_get_pop [simp]: "dict_get (dict_pop d k) k' = (if k' = k then None else dict_get d k')"
  by (induction d) (auto simp: dict_pop_def)

lemma dict_keys_simps [simp]:
  "dict_keys [] = []" "dict_keys ((k, v) # d) = k # dict_keys d"
  by (simp_all add: dict_keys_def)

lemma dict_values_simps [simp]:
  "dict_values [] = []" "dict_values ((k, v) # d) = v # dict_values d"
  by (simp_all add: dict_values_def)

lemma set_dict_keys_iff: "k \<in> set (dict_keys d) \<longleftrightarrow> dict_get d k \<noteq> None"
  by (induction d) auto

lemma dict_get_None_iff: "dict_get d k = None \<longleftrightarrow> k \<notin> set (dict_keys d)"
  by (simp add: set_dict_keys_iff)

lemma dict_get_SomeD: "dict_get d k = Some v \<Longrightarrow> (k, v) \<in> set d"
  by (induction d) (auto split: if_splits)

lemma dict_get_values: "dict_get d k = Some v \<Longrightarrow> v \<in> set (dict_values d)"
  by (force simp: dict_values_def dest: dict_get_SomeD)

lemma dict_ok_in_iff: "dict_ok d \<Longrightarrow> (k, v) \<in> set d \<longleftrightarrow> dict_get d k = Some v"
  by (simp add: dict_ok_def dict_keys_def dict_get_def map_of_eq_Some_iff)

lemma dict_ok_values: "dict_ok d \<Longrightarrow> v \<in> set (dict_values d) \<longleftrightarrow> (\<exists>k. dict_get d k = Some v)"
  by (force simp: dict_values_def dict_ok_in_iff [symmetric])

lemma set_dict_keys_set: "set (dict_keys (dict_set d k v)) = insert k (set (dict_keys d))"
  by (auto simp: set_dict_keys_iff split: if_splits)

lemma dict_keys_set_same: "k \<in> set (dict_keys d) \<Longrightarrow> dict_keys (dict_set d k v) = dict_keys d"
  by (induction d k v rule: dict_set.induct) auto

lemma dict_keys_set_new: "k \<notin> set (dict_keys d) \<Longrightarrow> dict_set d k v = d @ [(k, v)]"
  by (induction d k v rule: dict_set.induct) auto

lemma dict_ok_Nil [simp]: "dict_ok []"
  by (simp add: dict_ok_def)

lemma dict_ok_set [simp]: "dict_ok d \<Longrightarrow> dict_ok (dict_set d k v)"
  by (induction d k v rule: dict_set.induct) (auto simp: dict_ok_def set_dict_keys_set)

lemma dict_ok_filter [simp]: "dict_ok d \<Longrightarrow> dict_ok (filter P d)"
  by (simp add: dict_ok_def dict_keys_def distinct_map_filter)

lemma dict_ok_pop [simp]: "dict_ok d \<Longrightarrow> dict_ok (dict_pop d k)"
  by (simp add: dict_pop_def)

lemma dict_get_filter:
  "dict_ok d \<Longrightarrow> dict_get (filter P d) k =
    (case dict_get d k of None \<Rightarrow> None | Some v \<Rightarrow> if P (k, v) then Some v else None)"
proof (induction d)
  case Nil
  then show ?case by simp
next
  case (Cons p d)
  obtain k' v' where p: "p = (k', v')" by (cases p)
  from Cons.prems p have "dict_ok d" and fresh: "k' \<notin> set (dict_keys d)"
    by (auto simp: dict_ok_def)
  have "dict_get d k' = None" using fresh by (simp add: dict_get_None_iff)
  then have "dict_get (filter P d) k' = None" using Cons.IH \<open>dict_ok d\<close> fresh
    by (simp add: dict_get_None_iff dict_keys_def image_iff)
  with Cons.IH \<open>dict_ok d\<close> \<open>dict_get d k' = None\<close> p show ?case by auto
qed

lemma dict_set_present:
  "dict_get d k = Some v \<Longrightarrow> dict_ok d \<Longrightarrow>
    dict_set d k v' = map (\<lambda>p. if fst p = k then (k, v') else p) d"
proof (induction d k v' rule: dict_set.induct)
  case (2 k' w d k v')
  then show ?case
    by (auto simp: dict_ok_def dict_keys_def image_iff intro!: map_idI [symmetric] split: if_splits)
qed simp

lemma dict_set_same: "dict_get d k = Some v \<Longrightarrow> dict_set d k v = d"
  by (induction d k v rule: dict_set.induct) (auto split: if_splits)

text \<open>What a client of a dictionary may rely on.\<close>

locale py_dict =
  fixes get :: "'d \<Rightarrow> 'k \<Rightarrow> 'v option"
    and put :: "'d \<Rightarrow> 'k \<Rightarrow> 'v \<Rightarrow> 'd"
    and del :: "'d \<Rightarrow> 'k \<Rightarrow> 'd"
  assumes get_put: "get (put d k v) k' = (if k' = k then Some v else get d k')"
    and get_del: "get (del d k) k' = (if k' = k then None else get d k')"
begin

lemma get_del_all: "get (foldl del d ks) k = (if k \<in> set ks then None else get d k)"
  by (induction ks arbitrary: d) (auto simp: get_del)

lemma get_put_all: "get (foldl (\<lambda>d k. put d k v) d ks) k = (if k \<in> set ks then Some v else get d k)"
  by (induction ks arbitrary: d) (auto simp: get_put)

lemma get_adjust_all:
  assumes "\<And>d k. adj d k = (case get d k of None \<Rightarrow> d | Some v \<Rightarrow> put d k (f v))"
    and "\<And>v. f (f v) = f v"
  shows "get (foldl adj d ks) k = (if k \<in> set ks then map_option f (get d k) else get d k)"
  using assms(2) by (induction ks arbitrary: d) (auto simp: assms(1) get_put split: option.splits)

end

interpretation pd: py_dict dict_get dict_set dict_pop
  by unfold_locales simp_all

section \<open>Sums over the values of a dictionary\<close>

text \<open>Counting and summing over \<open>d.values()\<close>: the bounds of the components are bounds of such
  sums, and each step changes one key.\<close>

definition dict_sum :: "('v \<Rightarrow> int) \<Rightarrow> ('k, 'v) dict \<Rightarrow> int" where
  "dict_sum w d = sum_list (map w (dict_values d))"

lemma dict_sum_simps [simp]: "dict_sum w [] = 0" "dict_sum w ((k, v) # d) = w v + dict_sum w d"
  by (simp_all add: dict_sum_def)

lemma length_filter_dict_sum:
  "int (length (filter P (dict_values d))) = dict_sum (\<lambda>v. of_bool (P v)) d"
  by (induction d) auto

lemma sum_filter_dict_sum:
  "sum_list (map f (filter P (dict_values d))) = dict_sum (\<lambda>v. if P v then f v else 0) d"
  by (induction d) auto

lemma dict_sum_keys:
  "dict_ok d \<Longrightarrow> dict_sum w d = (\<Sum>k \<in> set (dict_keys d). w (the (dict_get d k)))"
proof (induction d)
  case Nil
  then show ?case by simp
next
  case (Cons p d)
  obtain k v where p: "p = (k, v)" by (cases p)
  with Cons.prems have "dict_ok d" and "k \<notin> set (dict_keys d)" by (auto simp: dict_ok_def)
  moreover from this have "(\<Sum>x \<in> set (dict_keys d). w (the (if k = x then Some v else dict_get d x))) =
      (\<Sum>x \<in> set (dict_keys d). w (the (dict_get d x)))"
    by (intro sum.cong) auto
  ultimately show ?case using Cons.IH p by simp
qed

lemma dict_sum_le:
  assumes "dict_ok d" "dict_ok d'"
    and step: "\<And>k v'. dict_get d' k = Some v' \<Longrightarrow> \<exists>v. dict_get d k = Some v \<and> w' v' \<le> w v"
    and pos: "\<And>k v. dict_get d k = Some v \<Longrightarrow> 0 \<le> w v"
  shows "dict_sum w' d' \<le> dict_sum w d"
proof -
  have sub: "set (dict_keys d') \<subseteq> set (dict_keys d)"
    using step by (fastforce simp: set_dict_keys_iff)
  have "dict_sum w' d' = (\<Sum>k \<in> set (dict_keys d'). w' (the (dict_get d' k)))"
    using assms(2) by (rule dict_sum_keys)
  also have "\<dots> \<le> (\<Sum>k \<in> set (dict_keys d'). w (the (dict_get d k)))"
    using step by (intro sum_mono) (fastforce simp: set_dict_keys_iff)
  also have "\<dots> \<le> (\<Sum>k \<in> set (dict_keys d). w (the (dict_get d k)))"
    using sub pos by (intro sum_mono2) (auto simp: set_dict_keys_iff)
  also have "\<dots> = dict_sum w d" using assms(1) by (rule dict_sum_keys [symmetric])
  finally show ?thesis .
qed

lemma dict_sum_set_present:
  "dict_get d k = Some v \<Longrightarrow> dict_sum w (dict_set d k v') = dict_sum w d - w v + w v'"
  by (induction d k v' rule: dict_set.induct) (auto split: if_splits)

lemma dict_sum_set_new:
  "dict_get d k = None \<Longrightarrow> dict_sum w (dict_set d k v') = dict_sum w d + w v'"
  by (induction d k v' rule: dict_set.induct) (auto split: if_splits)

lemma dict_sum_set_le:
  assumes "\<And>k v. dict_get d k = Some v \<Longrightarrow> 0 \<le> w v"
  shows "dict_sum w (dict_set d k v') \<le> dict_sum w d + w v'"
  using assms by (cases "dict_get d k") (auto simp: dict_sum_set_present dict_sum_set_new)

lemma dict_sum_pop:
  "dict_ok d \<Longrightarrow> dict_get d k = Some v \<Longrightarrow> dict_sum w (dict_pop d k) = dict_sum w d - w v"
proof (induction d)
  case Nil
  then show ?case by simp
next
  case (Cons p d)
  obtain k' v' where p: "p = (k', v')" by (cases p)
  show ?case
  proof (cases "k' = k")
    case True
    with Cons.prems p have "dict_pop d k = d"
      by (force simp: dict_pop_def dict_ok_def dict_keys_def filter_id_conv)
    with True Cons.prems p show ?thesis by (simp add: dict_pop_def)
  next
    case False
    with Cons p show ?thesis by (auto simp: dict_pop_def dict_ok_def)
  qed
qed

lemma dict_sum_cong:
  "dict_ok d \<Longrightarrow> (\<And>k v. dict_get d k = Some v \<Longrightarrow> w v = w' v) \<Longrightarrow> dict_sum w d = dict_sum w' d"
  by (auto simp: dict_sum_keys set_dict_keys_iff intro!: sum.cong)

lemma dict_sum_nonneg: "(\<And>v. v \<in> set (dict_values d) \<Longrightarrow> 0 \<le> w v) \<Longrightarrow> 0 \<le> dict_sum w d"
  by (auto simp: dict_sum_def intro!: sum_list_nonneg)

section \<open>Runs\<close>

text \<open>A step that keeps an invariant keeps it over every run.\<close>

locale invariant_run =
  fixes step :: "'s \<Rightarrow> 'e \<Rightarrow> 's"
    and invar :: "'s \<Rightarrow> bool"
  assumes step_invar: "invar s \<Longrightarrow> invar (step s e)"
begin

lemma run_invar: "invar s \<Longrightarrow> invar (foldl step s es)"
  by (induction es arbitrary: s) (auto intro: step_invar)

lemma run_split_invar: "invar s \<Longrightarrow> foldl step s (es @ fs) = t \<Longrightarrow> invar (foldl step s es) \<and> invar t"
  by (auto intro: run_invar)

end

text \<open>Under that invariant, every step relates its two states by a preorder: so does a run.\<close>

locale progress_run = invariant_run step invar
  for step :: "'s \<Rightarrow> 'e \<Rightarrow> 's" and invar :: "'s \<Rightarrow> bool" +
  fixes rel :: "'s \<Rightarrow> 's \<Rightarrow> bool"
  assumes rel_refl: "rel s s"
    and rel_trans: "rel s t \<Longrightarrow> rel t u \<Longrightarrow> rel s u"
    and step_rel: "invar s \<Longrightarrow> rel s (step s e)"
begin

lemma run_rel: "invar s \<Longrightarrow> rel s (foldl step s es)"
proof (induction es arbitrary: s)
  case Nil
  show ?case by (simp add: rel_refl)
next
  case (Cons e es)
  from Cons.prems have "invar (step s e)" by (rule step_invar)
  then have "rel (step s e) (foldl step (step s e) es)" by (rule Cons.IH)
  with step_rel [OF Cons.prems, of e] show ?case by (auto intro: rel_trans)
qed

end

section \<open>Decimal text of an integer\<close>

definition digit_char :: "nat \<Rightarrow> char" where
  "digit_char n = char_of (48 + n)"

fun show_nat :: "nat \<Rightarrow> string" where
  "show_nat n = (if n < 10 then [digit_char n] else show_nat (n div 10) @ [digit_char (n mod 10)])"

declare show_nat.simps [simp del]

definition show_int :: "int \<Rightarrow> string" where
  "show_int i = (if i < 0 then CHR ''-'' # show_nat (nat (- i)) else show_nat (nat i))"

definition is_digit :: "char \<Rightarrow> bool" where
  "is_digit c \<longleftrightarrow> (48 :: nat) \<le> of_char c \<and> of_char c \<le> (57 :: nat)"

lemma is_digit_char: "n < 10 \<Longrightarrow> is_digit (digit_char n)"
  by (simp add: is_digit_def digit_char_def)

lemma digit_char_inj: "m < 10 \<Longrightarrow> n < 10 \<Longrightarrow> digit_char m = digit_char n \<longleftrightarrow> m = n"
  by (simp add: digit_char_def char_of_eq_iff take_bit_eq_mod)

lemma show_nat_digits: "c \<in> set (show_nat n) \<Longrightarrow> is_digit c"
proof (induction n rule: show_nat.induct)
  case (1 n)
  then show ?case
    by (subst (asm) (2) show_nat.simps) (auto simp: is_digit_char split: if_splits)
qed

lemma show_nat_neq_Nil: "show_nat n \<noteq> []"
  by (subst show_nat.simps) simp

lemma show_nat_inj: "show_nat m = show_nat n \<Longrightarrow> m = n"
proof (induction m arbitrary: n rule: show_nat.induct)
  case (1 m)
  show ?case
  proof (cases "m < 10 \<or> n < 10")
    case True
    with "1.prems" show ?thesis
      by (subst (asm) (1 2) show_nat.simps)
        (auto simp: digit_char_inj show_nat_neq_Nil append_eq_Cons_conv Cons_eq_append_conv split: if_splits)
  next
    case False
    from "1.prems" False have "show_nat (m div 10) = show_nat (n div 10)"
      and "digit_char (m mod 10) = digit_char (n mod 10)"
      by (subst (asm) (1 2) show_nat.simps, simp)+
    with "1.IH" False have "m div 10 = n div 10" and "m mod 10 = n mod 10"
      by (auto simp: digit_char_inj)
    then show ?thesis by (metis div_mult_mod_eq)
  qed
qed

lemma show_int_inj: "show_int i = show_int j \<longleftrightarrow> i = j"
proof -
  have minus: "CHR ''-'' \<notin> set (show_nat n)" for n
    by (auto simp: is_digit_def dest!: show_nat_digits)
  have "show_int i = show_int j \<Longrightarrow> i = j"
    using minus [of "nat i"] minus [of "nat j"] show_nat_neq_Nil [of "nat i"] show_nat_neq_Nil [of "nat j"]
    by (auto simp: show_int_def dest!: show_nat_inj split: if_splits)
      (metis list.set_intros(1))+
  then show ?thesis by auto
qed

lemma colon_not_in_show_int: "CHR '':'' \<notin> set (show_int i)"
  by (auto simp: show_int_def is_digit_def dest!: show_nat_digits)

text \<open>A prefix without the separator makes the pair recoverable.\<close>

lemma sep_append_eq_iff:
  "c \<notin> set xs \<Longrightarrow> c \<notin> set xs' \<Longrightarrow> xs @ c # ys = xs' @ c # ys' \<longleftrightarrow> xs = xs' \<and> ys = ys'"
proof (induction xs arbitrary: xs')
  case Nil
  then show ?case by (cases xs') auto
next
  case (Cons x xs)
  then show ?case by (cases xs') auto
qed

section \<open>Parsing an integer\<close>

text \<open>\<open>int(text)\<close> on ASCII text: surrounding white space, a sign, digits with single underscores
  between them. \<open>None\<close> is \<open>ValueError\<close>.\<close>

definition is_space :: "char \<Rightarrow> bool" where
  "is_space c \<longleftrightarrow> (let n = (of_char c :: nat) in n = 32 \<or> (9 \<le> n \<and> n \<le> 13) \<or> (28 \<le> n \<and> n \<le> 31))"

definition strip :: "string \<Rightarrow> string" where
  "strip t = rev (dropWhile is_space (rev (dropWhile is_space t)))"

fun parse_digits :: "nat \<Rightarrow> bool \<Rightarrow> string \<Rightarrow> nat option" where
  "parse_digits acc after_digit [] = (if after_digit then Some acc else None)"
| "parse_digits acc after_digit (c # cs) =
    (if is_digit c then parse_digits (10 * acc + (of_char c - 48)) True cs
     else if c = CHR ''_'' \<and> after_digit then parse_digits acc False cs
     else None)"

definition py_int :: "string \<Rightarrow> int option" where
  "py_int t =
    (case strip t of
       [] \<Rightarrow> None
     | c # cs \<Rightarrow>
        (if c = CHR ''-'' then map_option (\<lambda>n. - int n) (parse_digits 0 False cs)
         else if c = CHR ''+'' then map_option int (parse_digits 0 False cs)
         else map_option int (parse_digits 0 False (c # cs))))"

lemma of_digit_char: "n < 10 \<Longrightarrow> of_char (digit_char n) = 48 + n"
  by (simp add: digit_char_def)

lemma parse_digits_append:
  "list_all is_digit xs \<Longrightarrow>
    parse_digits acc b (xs @ ys) =
    parse_digits (foldl (\<lambda>a c. 10 * a + (of_char c - 48)) acc xs) (b \<or> xs \<noteq> []) ys"
  by (induction xs arbitrary: acc b) auto

lemma foldl_show_nat: "foldl (\<lambda>a c. 10 * a + (of_char c - 48)) 0 (show_nat n) = n"
proof (induction n rule: show_nat.induct)
  case (1 n)
  show ?case
  proof (cases "n < 10")
    case True
    then show ?thesis by (subst show_nat.simps) (simp add: of_digit_char)
  next
    case False
    with 1 have "foldl (\<lambda>a c. 10 * a + (of_char c - 48)) 0 (show_nat (n div 10)) = n div 10" by simp
    with False show ?thesis by (subst show_nat.simps) (simp add: of_digit_char)
  qed
qed

lemma parse_show_nat: "parse_digits 0 b (show_nat n) = Some n"
  using parse_digits_append [of "show_nat n" 0 b "[]"]
  by (simp add: list_all_iff show_nat_digits show_nat_neq_Nil foldl_show_nat)

lemma is_digit_not_space: "is_digit c \<Longrightarrow> \<not> is_space c"
  by (auto simp: is_digit_def is_space_def Let_def)

lemma strip_id: "t \<noteq> [] \<Longrightarrow> \<not> is_space (hd t) \<Longrightarrow> \<not> is_space (last t) \<Longrightarrow> strip t = t"
  by (cases t rule: rev_cases) (auto simp: strip_def hd_append neq_Nil_conv split: if_splits)

lemma py_int_show_int: "py_int (show_int i) = Some i"
proof -
  have last: "\<not> is_space (last (show_nat n))" for n
    by (rule is_digit_not_space, rule show_nat_digits) (rule last_in_set, rule show_nat_neq_Nil)
  have hd: "is_digit (hd (show_nat n))" for n
    by (rule show_nat_digits) (rule list.set_sel(1), rule show_nat_neq_Nil)
  have minus: "\<not> is_space CHR ''-''" by (simp add: is_space_def)
  show ?thesis
  proof (cases "i < 0")
    case True
    then have "strip (show_int i) = CHR ''-'' # show_nat (nat (- i))"
      by (auto simp: show_int_def last minus show_nat_neq_Nil intro!: strip_id)
    with True show ?thesis by (simp add: py_int_def parse_show_nat)
  next
    case False
    define t where "t = show_nat (nat i)"
    have "strip t = t"
      unfolding t_def by (rule strip_id) (auto simp: last show_nat_neq_Nil hd is_digit_not_space)
    moreover obtain c cs where t: "t = c # cs" using show_nat_neq_Nil t_def by (metis neq_Nil_conv)
    moreover have "is_digit c" using hd [of "nat i"] t t_def by simp
    then have "c \<noteq> CHR ''-''" "c \<noteq> CHR ''+''" by (auto simp: is_digit_def)
    ultimately have "py_int t = map_option int (parse_digits 0 False t)"
      by (simp add: py_int_def)
    with False show ?thesis by (simp add: show_int_def t_def parse_show_nat)
  qed
qed

end
