(* ===== verification/Queue_Contracts.thy ===== *)
theory Queue_Contracts
  imports Prelude
begin

text \<open>
  \<^verbatim>\<open>app/queue_contracts.py\<close>: the outcomes, states, policies and errors shared by the job queue,
  the screening of public summaries and the normalisation of what a job handler returned.

  A text value is the list of its UTF-8 bytes. \<open>SOther\<close> stands for a value whose Python type is
  none of \<open>int\<close>, \<open>str\<close>, \<open>bool\<close>.
\<close>

section \<open>Outcomes, states and errors\<close>

datatype job_outcome = SUCCEEDED_outcome | RETRYABLE_FAILURE | PERMANENT_FAILURE | UNKNOWN_DELIVERY_outcome

datatype admission_state = ACCEPTED | EXISTING | REJECTED | UNKNOWN

datatype job_state =
  QUEUED | DELAYED | RUNNING | CANCEL_REQUESTED
  | SUCCEEDED | FAILED | CANCELLED | EXPIRED | UNKNOWN_DELIVERY

definition TERMINAL_STATES :: "job_state list" where
  "TERMINAL_STATES = [SUCCEEDED, FAILED, CANCELLED, EXPIRED, UNKNOWN_DELIVERY]"

datatype queue_error =
  QueueConflict string
  | QueueUnavailable string
  | KeyError string
  | ValueError string

section \<open>Queue policies\<close>

record queue_policy =
  max_jobs :: int
  max_payload_bytes :: int
  max_total_payload_bytes :: int
  max_age_seconds :: int
  max_attempts_allowed :: int

definition policy_limits :: "queue_policy \<Rightarrow> int list" where
  "policy_limits p =
    [max_jobs p, max_payload_bytes p, max_total_payload_bytes p, max_age_seconds p, max_attempts_allowed p]"

definition queue_policy_init :: "queue_policy \<Rightarrow> queue_error + queue_policy" where
  "queue_policy_init p =
    (if \<exists>v \<in> set (policy_limits p). v < 1 then Inl (ValueError ''Queue policy limits must be positive integers'')
     else Inr p)"

definition DEFAULT_QUEUE_POLICY :: queue_policy where
  "DEFAULT_QUEUE_POLICY =
    \<lparr>max_jobs = 100, max_payload_bytes = 256 * 1024, max_total_payload_bytes = 8 * 1024 * 1024,
     max_age_seconds = 900, max_attempts_allowed = 3\<rparr>"

definition DAILY_QUEUE_POLICY :: queue_policy where
  "DAILY_QUEUE_POLICY = DEFAULT_QUEUE_POLICY\<lparr>max_jobs := 32, max_age_seconds := 1800\<rparr>"

definition BROADCAST_QUEUE_POLICY :: queue_policy where
  "BROADCAST_QUEUE_POLICY = DEFAULT_QUEUE_POLICY\<lparr>max_jobs := 10\<rparr>"

text \<open>The component-wise minimum that both admission layers take of two policies.\<close>

definition policy_min :: "queue_policy \<Rightarrow> queue_policy \<Rightarrow> queue_policy" where
  "policy_min p q =
    \<lparr>max_jobs = min (max_jobs p) (max_jobs q),
     max_payload_bytes = min (max_payload_bytes p) (max_payload_bytes q),
     max_total_payload_bytes = min (max_total_payload_bytes p) (max_total_payload_bytes q),
     max_age_seconds = min (max_age_seconds p) (max_age_seconds q),
     max_attempts_allowed = min (max_attempts_allowed p) (max_attempts_allowed q)\<rparr>"

definition policy_ok :: "queue_policy \<Rightarrow> bool" where
  "policy_ok p \<longleftrightarrow> list_all (\<lambda>v. 1 \<le> v) (policy_limits p)"

section \<open>Public summaries\<close>

datatype summary_value = SInt int | SStr string | SBool bool | SOther

type_synonym summary = "(string, summary_value) dict"

definition PUBLIC_SUMMARY_FIELDS :: "string list" where
  "PUBLIC_SUMMARY_FIELDS =
    [''phase'', ''total'', ''completed'', ''processed'', ''remaining'', ''failed'', ''skipped'',
     ''generated'', ''prepared'', ''updated'', ''partial'', ''ready'', ''date'', ''game'',
     ''language'', ''difficulty'', ''mode'', ''actual_model'', ''model'', ''settings_revision'',
     ''pages'', ''text_length'', ''paragraphs'', ''tables'', ''images_generated'',
     ''images_failed'', ''items_ready'', ''items_failed'', ''items_total'', ''error_count'',
     ''artifacts_prepared'', ''artifacts_failed'', ''tasks_completed'', ''tasks_total'', ''ok'',
     ''status'', ''effective_revision'', ''effective_models'', ''part'', ''model_plan'',
     ''puzzle_revision'']"

definition is_alnum :: "char \<Rightarrow> bool" where
  "is_alnum c \<longleftrightarrow>
    (CHR ''A'' \<le> c \<and> c \<le> CHR ''Z'') \<or> (CHR ''a'' \<le> c \<and> c \<le> CHR ''z'') \<or>
    (CHR ''0'' \<le> c \<and> c \<le> CHR ''9'')"

text \<open>The two regular expressions, both anchored at the ends by \<open>re.fullmatch\<close>.\<close>

definition summary_text_ok :: "string \<Rightarrow> string \<Rightarrow> bool" where
  "summary_text_ok key item =
    (if key \<in> {''effective_models'', ''model_plan''}
     then list_all (\<lambda>c. is_alnum c \<or> c \<in> set ''_./:+,; -'') item \<and> length item \<le> 512
     else list_all (\<lambda>c. is_alnum c \<or> c \<in> set ''_./:+-'') item \<and> 1 \<le> length item \<and> length item \<le> 128)"

definition summary_item_ok :: "string \<Rightarrow> summary_value \<Rightarrow> bool" where
  "summary_item_ok key item \<longleftrightarrow>
    key \<in> set PUBLIC_SUMMARY_FIELDS \<and>
    (case item of
       SStr t \<Rightarrow> summary_text_ok key t
     | SInt i \<Rightarrow> 0 \<le> i \<and> i \<le> 2 ^ 53 - 1
     | SBool b \<Rightarrow> True
     | SOther \<Rightarrow> False)"

fun public_summary_loop :: "summary \<Rightarrow> summary \<Rightarrow> queue_error + summary" where
  "public_summary_loop clean [] = Inr clean"
| "public_summary_loop clean ((key, item) # rest) =
    (if summary_item_ok key item then public_summary_loop (dict_set clean key item) rest
     else Inl (QueueConflict ''invalid_public_summary''))"

definition public_summary :: "summary \<Rightarrow> queue_error + summary" where
  "public_summary value = public_summary_loop [] value"

section \<open>Results of handlers\<close>

record job_result =
  outcome :: job_outcome
  result_reason :: "string option"
  summary_of :: summary
  retry_after :: "secs option"

definition mk_result :: "job_outcome \<Rightarrow> string option \<Rightarrow> summary \<Rightarrow> job_result" where
  "mk_result out reason summ = \<lparr>outcome = out, result_reason = reason, summary_of = summ, retry_after = None\<rparr>"

datatype handler_value = HResult job_result | HDict summary | HOther

definition is_SInt :: "summary_value \<Rightarrow> bool" where
  "is_SInt v = (case v of SInt _ \<Rightarrow> True | _ \<Rightarrow> False)"

definition normalize_job_result :: "handler_value \<Rightarrow> job_result" where
  "normalize_job_result v =
    (case v of
       HResult r \<Rightarrow> r
     | HDict d \<Rightarrow>
        (if dict_get d ''status'' = Some (SStr ''completed'') then
           mk_result SUCCEEDED_outcome None
             (filter (\<lambda>(key, item). key \<in> {''pages'', ''text_length'', ''paragraphs'', ''tables''} \<and> is_SInt item) d)
         else if dict_get d ''status'' = Some (SStr ''failed'') then
           mk_result PERMANENT_FAILURE (Some ''legacy_handler_failed'') []
         else mk_result PERMANENT_FAILURE (Some ''invalid_handler_result'') [])
     | HOther \<Rightarrow> mk_result PERMANENT_FAILURE (Some ''invalid_handler_result'') [])"

section \<open>Facts the store's proofs use\<close>

lemma policy_min_ok: "policy_ok p \<Longrightarrow> policy_ok q \<Longrightarrow> policy_ok (policy_min p q)"
  by (simp add: policy_ok_def policy_limits_def policy_min_def)

lemma policy_min_le:
  "max_jobs (policy_min p q) \<le> max_jobs q"
  "max_total_payload_bytes (policy_min p q) \<le> max_total_payload_bytes q"
  "max_payload_bytes (policy_min p q) \<le> max_payload_bytes q"
  "max_age_seconds (policy_min p q) \<le> max_age_seconds q"
  "max_attempts_allowed (policy_min p q) \<le> max_attempts_allowed q"
  by (simp_all add: policy_min_def)

lemma policy_init_iff: "queue_policy_init p = Inr q \<longleftrightarrow> policy_ok p \<and> q = p"
  by (auto simp: queue_policy_init_def policy_ok_def policy_limits_def)

lemma lane_policies_ok [simp]:
  "policy_ok DEFAULT_QUEUE_POLICY" "policy_ok DAILY_QUEUE_POLICY" "policy_ok BROADCAST_QUEUE_POLICY"
  by (simp_all add: policy_ok_def policy_limits_def DEFAULT_QUEUE_POLICY_def DAILY_QUEUE_POLICY_def
      BROADCAST_QUEUE_POLICY_def)

lemma public_summary_loop_ok:
  "public_summary_loop clean d = Inr r \<Longrightarrow>
    list_all (\<lambda>(k, v). summary_item_ok k v) d \<and> r = foldl (\<lambda>c (k, v). dict_set c k v) clean d"
  by (induction clean d rule: public_summary_loop.induct) (auto split: if_splits)

lemma public_summary_loop_get:
  "public_summary_loop clean d = Inr r \<Longrightarrow> dict_ok d \<Longrightarrow>
    dict_get r k = (case dict_get d k of None \<Rightarrow> dict_get clean k | Some v \<Rightarrow> Some v)"
proof (induction clean d rule: public_summary_loop.induct)
  case (1 clean)
  then show ?case by simp
next
  case (2 clean key item rest)
  then have "dict_ok rest" and "dict_get rest key = None"
    by (auto simp: dict_ok_def dict_get_None_iff)
  with 2 show ?case by (auto split: if_splits option.splits)
qed

lemma public_summary_total:
  "list_all (\<lambda>(k, v). summary_item_ok k v) d \<Longrightarrow> \<exists>r. public_summary_loop clean d = Inr r"
  by (induction clean d rule: public_summary_loop.induct) auto

lemma public_summary_error:
  "public_summary d = Inl e \<longleftrightarrow>
    (\<exists>(k, v) \<in> set d. \<not> summary_item_ok k v) \<and> e = QueueConflict ''invalid_public_summary''"
proof -
  have "public_summary_loop clean d = Inl e \<longleftrightarrow>
      (\<exists>(k, v) \<in> set d. \<not> summary_item_ok k v) \<and> e = QueueConflict ''invalid_public_summary''" for clean
    by (induction clean d rule: public_summary_loop.induct) auto
  then show ?thesis by (simp add: public_summary_def)
qed

end
