(* ===== verification/Queue_Store.thy ===== *)
theory Queue_Store
  imports Queue_Contracts
begin

text \<open>
  \<^verbatim>\<open>app/queue_store.py\<close>: the job queue's local adapter, class \<open>MemoryQueueStore\<close>, with its
  envelopes, identities and snapshots. Every method is one definition on an explicit \<open>store\<close>; a
  method that can raise returns the store it leaves with a sum. A record read from \<open>self.jobs\<close> is a
  shared reference in Python: here a method works on the record and writes it back with \<open>put_job\<close>.

  \<^item> \<open>now\<close> is the reading of \<open>self.clock()\<close>; the methods never await, and one reading stands for
    all readings of one call.
  \<^item> \<open>queue_env\<close> collects what the module calls outside itself: the SHA-256 hex digest, the JSON
    text of an envelope, the \<open>data\<close> member of a JSON payload, and UUID version 5.
  \<^item> A command fingerprint is the JSON text of a list of strings, numbers and booleans; the model
    keeps the list itself (\<open>command\<close>), which the text determines and which determines the text.
\<close>

section \<open>Constants\<close>

definition METADATA_RETENTION :: secs where
  "METADATA_RETENTION = 24 * 3600"

definition RETRY_PAYLOAD_RETENTION :: secs where
  "RETRY_PAYLOAD_RETENTION = 900"

definition OWNER_LEASE_SECONDS :: secs where
  "OWNER_LEASE_SECONDS = 60"

definition EXECUTION_SETTLEMENT_GRACE_SECONDS :: secs where
  "EXECUTION_SETTLEMENT_GRACE_SECONDS = 10"

definition LANE_WORKERS :: "(string, int) dict" where
  "LANE_WORKERS = [(''deferred'', 3), (''maintenance'', 1), (''daily'', 2), (''broadcast'', 1)]"

definition LANE_POLICIES :: "(string, queue_policy) dict" where
  "LANE_POLICIES =
    [(''deferred'', DEFAULT_QUEUE_POLICY), (''maintenance'', DEFAULT_QUEUE_POLICY),
     (''daily'', DAILY_QUEUE_POLICY), (''broadcast'', BROADCAST_QUEUE_POLICY)]"

definition active_state :: "job_state \<Rightarrow> bool" where
  "active_state st \<longleftrightarrow> st \<in> {QUEUED, DELAYED, RUNNING, CANCEL_REQUESTED}"

definition held_state :: "job_state \<Rightarrow> bool" where
  "held_state st \<longleftrightarrow> st \<in> {RUNNING, CANCEL_REQUESTED}"

section \<open>Envelopes and records\<close>

text \<open>The fields an envelope and a stored record have in common.\<close>

record job_core =
  task_id :: string
  kind :: string
  lane :: string
  user_id :: int
  privacy_epoch :: "int option"
  priority :: int
  delay_seconds :: secs
  effectful :: bool
  image_work :: bool
  parent_task_id :: "string option"
  retry_grants :: int
  conflict_keys :: "string list"
  execution_timeout_seconds :: "int option"

record envelope = job_core +
  payload :: string
  idempotency_key :: string
  envelope_summary :: summary

record job = job_core +
  state :: job_state
  revision :: int
  attempts_started :: int
  max_attempts :: int
  submitted_at :: secs
  started_at :: "secs option"
  finished_at :: "secs option"
  not_before :: secs
  deadline_at :: secs
  queue_deadline_at :: secs
  heartbeat_at :: "secs option"
  reason_code :: "string option"
  retry_eligible :: bool
  retry_payload_available :: bool
  result_summary :: summary
  payload_bytes :: int
  sequence :: int
  identity :: string
  identity_aliases :: "string list"
  fingerprint :: string
  owner_token :: "string option"
  metadata_expires_at :: "secs option"
  payload_expires_at :: secs
  finish_token :: "string option"

definition normalized_conflicts :: "string list \<Rightarrow> queue_error + string list" where
  "normalized_conflicts keys =
    (if length keys > 8 \<or> (\<exists>k \<in> set keys. k = [] \<or> length k > 128)
     then Inl (QueueConflict ''invalid_conflict_keys'') else Inr (sort (remdups keys)))"

definition envelope_init :: "envelope \<Rightarrow> queue_error + envelope" where
  "envelope_init e =
    (if (case execution_timeout_seconds e of None \<Rightarrow> False | Some b \<Rightarrow> \<not> (1 \<le> b \<and> b \<le> 1800))
     then Inl (QueueConflict ''invalid_execution_budget'')
     else case normalized_conflicts (conflict_keys e) of
       Inl err \<Rightarrow> Inl err
     | Inr keys \<Rightarrow> (case public_summary (envelope_summary e) of
         Inl err \<Rightarrow> Inl err
       | Inr summ \<Rightarrow> Inr (e\<lparr>conflict_keys := keys, envelope_summary := summ\<rparr>)))"

datatype body_payload = RawPayload string | DataPayload string

record queue_env =
  sha256_hex :: "string \<Rightarrow> string"
  json_dumps :: "envelope \<Rightarrow> body_payload \<Rightarrow> string"
  json_data :: "string \<Rightarrow> string option"
  uuid5_url :: "string \<Rightarrow> string"

definition identity_of :: "queue_env \<Rightarrow> int \<Rightarrow> string \<Rightarrow> string" where
  "identity_of env uid key = sha256_hex env (show_int uid @ '':'' @ key)"

definition job_identity :: "queue_env \<Rightarrow> envelope \<Rightarrow> string" where
  "job_identity env e = identity_of env (user_id e) (idempotency_key e)"

text \<open>\<open>task_id\<close> and \<open>public_summary\<close> are popped from the fingerprinted body; the payload is given
  apart, as its \<open>data\<close> member when the text is a JSON object with \<open>data\<close> and \<open>context\<close>.\<close>

definition job_fingerprint :: "queue_env \<Rightarrow> envelope \<Rightarrow> string" where
  "job_fingerprint env e =
    sha256_hex env
      (json_dumps env (e\<lparr>task_id := [], envelope_summary := [], payload := []\<rparr>)
        (case json_data env (payload e) of Some d \<Rightarrow> DataPayload d | None \<Rightarrow> RawPayload (payload e)))"

section \<open>The store\<close>

record lane_state =
  lane_revision :: int
  admission_paused :: bool
  claim_paused :: bool
  lane_policy :: queue_policy

datatype command =
  CmdCancel string int
  | CmdRetry string int
  | CmdLane string int bool bool

record store =
  jobs :: "(string, job) dict"
  payloads :: "(string, string) dict"
  identities :: "(string, string \<times> string \<times> secs) dict"
  seq_no :: int
  lanes :: "(string, lane_state) dict"
  operations :: "(string, command \<times> string \<times> secs) dict"
  conflicts :: "(string \<times> int \<times> string, string) dict"

definition empty_store :: store where
  "empty_store =
    \<lparr>jobs = [], payloads = [], identities = [], seq_no = 0, lanes = [], operations = [], conflicts = []\<rparr>"

definition put_job :: "job \<Rightarrow> store \<Rightarrow> store" where
  "put_job m s = s\<lparr>jobs := dict_set (jobs s) (task_id m) m\<rparr>"

record queue_admission =
  adm_state :: admission_state
  adm_task_id :: "string option"
  adm_reason :: "string option"

abbreviation admission :: "admission_state \<Rightarrow> string option \<Rightarrow> string option \<Rightarrow> queue_admission" where
  "admission st tid reason \<equiv> \<lparr>adm_state = st, adm_task_id = tid, adm_reason = reason\<rparr>"

record job_snapshot =
  snap_task_id :: string
  snap_kind :: string
  snap_lane :: string
  snap_state :: job_state
  snap_revision :: int
  snap_attempts_started :: int
  snap_max_attempts :: int
  snap_submitted_at :: secs
  snap_started_at :: "secs option"
  snap_finished_at :: "secs option"
  snap_not_before :: secs
  snap_deadline_at :: secs
  snap_heartbeat_at :: "secs option"
  snap_reason_code :: "string option"
  snap_retry_eligible :: bool
  snap_retry_payload_available :: bool
  snap_parent_task_id :: "string option"
  snap_result_summary :: summary

definition snapshot :: "job \<Rightarrow> job_snapshot" where
  "snapshot m =
    \<lparr>snap_task_id = task_id m, snap_kind = kind m, snap_lane = lane m, snap_state = state m,
     snap_revision = revision m, snap_attempts_started = attempts_started m,
     snap_max_attempts = max_attempts m, snap_submitted_at = submitted_at m,
     snap_started_at = started_at m, snap_finished_at = finished_at m,
     snap_not_before = not_before m, snap_deadline_at = deadline_at m,
     snap_heartbeat_at = heartbeat_at m, snap_reason_code = reason_code m,
     snap_retry_eligible = retry_eligible m, snap_retry_payload_available = retry_payload_available m,
     snap_parent_task_id = parent_task_id m, snap_result_summary = result_summary m\<rparr>"

record job_claim =
  claim_snapshot :: job_snapshot
  claim_user_id :: int
  claim_privacy_epoch :: "int option"
  claim_owner_token :: string
  claim_effectful :: bool
  claim_image_work :: bool

section \<open>Dropping payloads, terminal transitions, sweeping\<close>

definition drop_payload :: "job \<Rightarrow> store \<Rightarrow> job \<times> store" where
  "drop_payload m s =
    (m\<lparr>retry_payload_available := False, retry_eligible := False\<rparr>,
     s\<lparr>payloads := dict_pop (payloads s) (task_id m)\<rparr>)"

definition extend_identity :: "secs \<Rightarrow> (string, string \<times> string \<times> secs) dict \<Rightarrow> string \<Rightarrow>
    (string, string \<times> string \<times> secs) dict" where
  "extend_identity now d ident =
    (case dict_get d ident of
       None \<Rightarrow> d
     | Some prev \<Rightarrow> dict_set d ident (fst prev, fst (snd prev), now + METADATA_RETENTION))"

definition release_conflict :: "job \<Rightarrow> (string \<times> int \<times> string, string) dict \<Rightarrow> string \<Rightarrow>
    (string \<times> int \<times> string, string) dict" where
  "release_conflict m d key =
    (if dict_get d (lane m, user_id m, key) = Some (task_id m) then dict_pop d (lane m, user_id m, key) else d)"

definition release_conflicts :: "job \<Rightarrow> store \<Rightarrow> store" where
  "release_conflicts m s = s\<lparr>conflicts := foldl (release_conflict m) (conflicts s) (conflict_keys m)\<rparr>"

definition terminal :: "secs \<Rightarrow> job_state \<Rightarrow> string option \<Rightarrow> bool \<Rightarrow> job \<Rightarrow> store \<Rightarrow> job \<times> store" where
  "terminal now st reason safe_retry m s =
    (let m1 = m\<lparr>state := st, reason_code := reason, finished_at := Some now, owner_token := None,
                metadata_expires_at := Some (now + METADATA_RETENTION), revision := revision m + 1\<rparr>;
         s1 = s\<lparr>identities := foldl (extend_identity now) (identities s) (identity_aliases m1)\<rparr>;
         s2 = release_conflicts m1 s1
     in if safe_retry \<and> retry_grants m1 > 0 \<and> dict_has (payloads s2) (task_id m1)
        then (m1\<lparr>retry_eligible := True, retry_payload_available := True,
                 payload_expires_at := now + RETRY_PAYLOAD_RETENTION\<rparr>, s2)
        else drop_payload m1 s2)"

definition uncertain :: "job \<Rightarrow> bool" where
  "uncertain m \<longleftrightarrow> held_state (state m) \<and> effectful m"

definition metadata_due :: "secs \<Rightarrow> job \<Rightarrow> bool" where
  "metadata_due now m = (case metadata_expires_at m of None \<Rightarrow> False | Some t \<Rightarrow> t \<noteq> 0 \<and> t \<le> now)"

definition lease_over :: "secs \<Rightarrow> job \<Rightarrow> bool" where
  "lease_over now m = (case heartbeat_at m of None \<Rightarrow> False | Some t \<Rightarrow> t + OWNER_LEASE_SECONDS \<le> now)"

text \<open>The three parts of one pass of the sweep over a record: expiry of its payload; then its
  deadline, its lease or the end of its delay.\<close>

definition sweep_payload :: "secs \<Rightarrow> job \<Rightarrow> store \<Rightarrow> job \<times> store" where
  "sweep_payload now m s =
    (if payload_expires_at m \<le> now then
       (case drop_payload m s of (m1, s1) \<Rightarrow>
          if active_state (state m1)
          then terminal now (if uncertain m1 then UNKNOWN_DELIVERY else EXPIRED) (Some ''payload_expired'') False m1 s1
          else (m1, s1))
     else (m, s))"

definition sweep_lease :: "secs \<Rightarrow> job \<Rightarrow> store \<Rightarrow> job \<times> store" where
  "sweep_lease now m s =
    (if effectful m then
       terminal now UNKNOWN_DELIVERY
         (Some (if kind m = ''document_processing'' then ''document_storage_unconfirmed'' else ''interrupted_delivery''))
         False m s
     else if state m = CANCEL_REQUESTED then terminal now CANCELLED (Some ''cancel_requested'') False m s
     else if attempts_started m \<ge> max_attempts m then terminal now FAILED (Some ''attempts_exhausted'') True m s
     else if now \<ge> queue_deadline_at m then terminal now EXPIRED (Some ''deadline_exceeded'') True m s
     else (m\<lparr>state := QUEUED, owner_token := None, revision := revision m + 1,
             deadline_at := queue_deadline_at m\<rparr>, s))"

definition sweep_timers :: "secs \<Rightarrow> job \<Rightarrow> store \<Rightarrow> job \<times> store" where
  "sweep_timers now m s =
    (if active_state (state m) \<and> deadline_at m \<le> now then
       terminal now (if uncertain m then UNKNOWN_DELIVERY else EXPIRED) (Some ''deadline_exceeded'') False m s
     else if held_state (state m) \<and> lease_over now m then sweep_lease now m s
     else if state m = DELAYED \<and> not_before m \<le> now then
       (m\<lparr>state := QUEUED, revision := revision m + 1\<rparr>, s)
     else (m, s))"

definition sweep_job :: "secs \<Rightarrow> store \<Rightarrow> string \<Rightarrow> store" where
  "sweep_job now s tid =
    (case dict_get (jobs s) tid of
       None \<Rightarrow> s
     | Some m \<Rightarrow>
        (if metadata_due now m then
           (case drop_payload m s of (m1, s1) \<Rightarrow> s1\<lparr>jobs := dict_pop (jobs s1) tid\<rparr>)
         else
           (case sweep_payload now m s of (m1, s1) \<Rightarrow>
             (case sweep_timers now m1 s1 of (m2, s2) \<Rightarrow> put_job m2 s2))))"

definition sweep :: "secs \<Rightarrow> store \<Rightarrow> store" where
  "sweep now s =
    (let s1 = s\<lparr>identities := filter (\<lambda>p. \<not> snd (snd (snd p)) \<le> now) (identities s),
               operations := filter (\<lambda>p. \<not> snd (snd (snd p)) \<le> now) (operations s)\<rparr>
     in foldl (sweep_job now) s1 (dict_keys (jobs s1)))"

section \<open>Admission\<close>

definition lane_default :: "queue_policy \<Rightarrow> lane_state" where
  "lane_default p = \<lparr>lane_revision = 0, admission_paused = False, claim_paused = False, lane_policy = p\<rparr>"

text \<open>\<open>self.lanes.setdefault(lane, ...)\<close>: the entry read, and the store that has it.\<close>

definition lane_setdefault :: "string \<Rightarrow> queue_policy \<Rightarrow> store \<Rightarrow> lane_state \<times> store" where
  "lane_setdefault nm p s =
    (case dict_get (lanes s) nm of
       Some l \<Rightarrow> (l, s)
     | None \<Rightarrow> (lane_default p, s\<lparr>lanes := dict_set (lanes s) nm (lane_default p)\<rparr>))"

definition active_owner :: "store \<Rightarrow> string \<Rightarrow> int \<Rightarrow> string \<Rightarrow> job option" where
  "active_owner s nm uid key =
    (case dict_get (conflicts s) (nm, uid, key) of
       None \<Rightarrow> None
     | Some owner \<Rightarrow>
        (if owner = [] then None
         else case dict_get (jobs s) owner of
           None \<Rightarrow> None
         | Some m \<Rightarrow> if active_state (state m) then Some m else None))"

fun first_conflict :: "store \<Rightarrow> string \<Rightarrow> int \<Rightarrow> string list \<Rightarrow> job option" where
  "first_conflict s nm uid [] = None"
| "first_conflict s nm uid (key # keys) =
    (case active_owner s nm uid key of Some m \<Rightarrow> Some m | None \<Rightarrow> first_conflict s nm uid keys)"

definition lane_active :: "store \<Rightarrow> string \<Rightarrow> job list" where
  "lane_active s nm = filter (\<lambda>m. lane m = nm \<and> active_state (state m)) (dict_values (jobs s))"

definition lane_payload_bytes :: "store \<Rightarrow> string \<Rightarrow> int" where
  "lane_payload_bytes s nm =
    sum_list (map payload_bytes
      (filter (\<lambda>m. lane m = nm \<and> dict_has (payloads s) (task_id m)) (dict_values (jobs s))))"

definition new_record :: "queue_env \<Rightarrow> secs \<Rightarrow> queue_policy \<Rightarrow> int \<Rightarrow> envelope \<Rightarrow> job" where
  "new_record env now p sq e =
    \<lparr>task_id = task_id e, kind = kind e, lane = lane e, user_id = user_id e,
     privacy_epoch = privacy_epoch e, priority = priority e, delay_seconds = delay_seconds e,
     effectful = effectful e, image_work = image_work e, parent_task_id = parent_task_id e,
     retry_grants = retry_grants e, conflict_keys = conflict_keys e,
     execution_timeout_seconds = execution_timeout_seconds e,
     state = (if delay_seconds e > 0 then DELAYED else QUEUED),
     revision = 1, attempts_started = 0, max_attempts = max_attempts_allowed p,
     submitted_at = now, started_at = None, finished_at = None,
     not_before = now + max 0 (delay_seconds e),
     deadline_at = now + of_int (max_age_seconds p),
     queue_deadline_at = now + of_int (max_age_seconds p),
     heartbeat_at = None, reason_code = None, retry_eligible = False,
     retry_payload_available = False, result_summary = envelope_summary e,
     payload_bytes = int (length (payload e)), sequence = sq,
     identity = job_identity env e, identity_aliases = [job_identity env e],
     fingerprint = job_fingerprint env e, owner_token = None, metadata_expires_at = None,
     payload_expires_at =
       now + of_int (if user_id e > 0 then min 900 (max_age_seconds p) else max_age_seconds p),
     finish_token = None\<rparr>"

definition insert_record :: "queue_env \<Rightarrow> secs \<Rightarrow> queue_policy \<Rightarrow> envelope \<Rightarrow> store \<Rightarrow> store" where
  "insert_record env now p e s =
    (let sq = seq_no s + 1 in
     s\<lparr>seq_no := sq,
       jobs := dict_set (jobs s) (task_id e) (new_record env now p sq e),
       payloads := dict_set (payloads s) (task_id e) (payload e),
       identities := dict_set (identities s) (job_identity env e)
         (task_id e, job_fingerprint env e, now + METADATA_RETENTION),
       conflicts := foldl (\<lambda>d key. dict_set d (lane e, user_id e, key) (task_id e)) (conflicts s) (conflict_keys e)\<rparr>)"

definition join_conflict :: "queue_env \<Rightarrow> secs \<Rightarrow> envelope \<Rightarrow> job \<Rightarrow> store \<Rightarrow> store \<times> queue_admission" where
  "join_conflict env now e m s =
    (if length (identity_aliases m) \<ge> 256 then (s, admission REJECTED None (Some ''idempotency_capacity''))
     else
       (let s1 = put_job (m\<lparr>identity_aliases := identity_aliases m @ [job_identity env e]\<rparr>) s in
        (s1\<lparr>identities := dict_set (identities s1) (job_identity env e)
              (task_id m, job_fingerprint env e, now + METADATA_RETENTION)\<rparr>,
         admission EXISTING (Some (task_id m)) (Some ''conflict_existing''))))"

definition refuse_reason :: "store \<Rightarrow> lane_state \<Rightarrow> queue_policy \<Rightarrow> int \<Rightarrow> envelope \<Rightarrow> string option" where
  "refuse_reason s l p credit e =
    (if admission_paused l then Some ''admission_paused''
     else if int (length (payload e)) > max_payload_bytes p then Some ''payload_too_large''
     else if int (length (lane_active s (lane e))) \<ge> max_jobs p then Some ''job_capacity''
     else if lane_payload_bytes s (lane e) + int (length (payload e)) - credit > max_total_payload_bytes p
     then Some ''byte_capacity''
     else None)"

definition admit_fresh ::
    "queue_env \<Rightarrow> secs \<Rightarrow> envelope \<Rightarrow> queue_policy \<Rightarrow> int \<Rightarrow> store \<Rightarrow> store \<times> queue_admission" where
  "admit_fresh env now e p credit s =
    (case first_conflict s (lane e) (user_id e) (conflict_keys e) of
       Some m \<Rightarrow> join_conflict env now e m s
     | None \<Rightarrow>
        (case lane_setdefault (lane e) p s of (l, s1) \<Rightarrow>
          (let p1 = policy_min p (lane_policy l) in
           case refuse_reason s1 l p1 credit e of
             Some reason \<Rightarrow> (s1, admission REJECTED None (Some reason))
           | None \<Rightarrow> (insert_record env now p1 e s1, admission ACCEPTED (Some (task_id e)) None))))"

definition admit_internal ::
    "queue_env \<Rightarrow> secs \<Rightarrow> envelope \<Rightarrow> queue_policy \<Rightarrow> int \<Rightarrow> store \<Rightarrow> store \<times> queue_admission" where
  "admit_internal env now e policy credit s =
    (case dict_get LANE_POLICIES (lane e) of
       None \<Rightarrow> (s, admission REJECTED None (Some ''unknown_lane''))
     | Some cap \<Rightarrow>
        (let p = policy_min policy cap in
         case dict_get (identities s) (job_identity env e) of
           Some (tid, fp, until) \<Rightarrow>
             (if until > now then
                (s, if fp = job_fingerprint env e then admission EXISTING (Some tid) None
                    else admission REJECTED (Some tid) (Some ''idempotency_conflict''))
              else admit_fresh env now e p credit s)
         | None \<Rightarrow> admit_fresh env now e p credit s))"

definition admit :: "queue_env \<Rightarrow> secs \<Rightarrow> envelope \<Rightarrow> queue_policy \<Rightarrow> store \<Rightarrow> store \<times> queue_admission" where
  "admit env now e policy s = admit_internal env now e policy 0 (sweep now s)"

section \<open>Claiming work\<close>

definition start_run :: "secs \<Rightarrow> string \<Rightarrow> job \<Rightarrow> job" where
  "start_run now owner m =
    (let m1 =
       (if lane m = ''daily'' \<and> user_id m = 0 then
          (let budget =
             (case execution_timeout_seconds m of
                Some b \<Rightarrow> if b \<noteq> 0 then b else if take 6 (kind m) = ''tarot.'' then 1800 else 600
              | None \<Rightarrow> if take 6 (kind m) = ''tarot.'' then 1800 else 600);
               dl = now + of_int budget + EXECUTION_SETTLEMENT_GRACE_SECONDS
           in m\<lparr>deadline_at := dl, payload_expires_at := dl\<rparr>)
        else m)
     in m1\<lparr>state := RUNNING, owner_token := Some owner, started_at := Some now, heartbeat_at := Some now,
           attempts_started := attempts_started m1 + 1, revision := revision m1 + 1, finish_token := None\<rparr>)"

definition mk_claim :: "string \<Rightarrow> job \<Rightarrow> job_claim" where
  "mk_claim owner m =
    \<lparr>claim_snapshot = snapshot m, claim_user_id = user_id m, claim_privacy_epoch = privacy_epoch m,
     claim_owner_token = owner, claim_effectful = effectful m, claim_image_work = image_work m\<rparr>"

text \<open>\<open>busy_image\<close> is \<open>any(active["image_work"] for active in running)\<close>, read before the loop.\<close>

fun claim_loop :: "secs \<Rightarrow> string \<Rightarrow> bool \<Rightarrow> job list \<Rightarrow> store \<Rightarrow> store \<times> job_claim option" where
  "claim_loop now owner busy_image [] s = (s, None)"
| "claim_loop now owner busy_image (m # ms) s =
    (if attempts_started m \<ge> max_attempts m then
       (case terminal now FAILED (Some ''attempts_exhausted'') True m s of (m1, s1) \<Rightarrow>
          claim_loop now owner busy_image ms (put_job m1 s1))
     else if image_work m \<and> busy_image then claim_loop now owner busy_image ms s
     else if \<not> dict_has (payloads s) (task_id m) then
       (case terminal now EXPIRED (Some ''payload_expired'') False m s of (m1, s1) \<Rightarrow>
          claim_loop now owner busy_image ms (put_job m1 s1))
     else (put_job (start_run now owner m) s, Some (mk_claim owner (start_run now owner m))))"

definition held_jobs :: "store \<Rightarrow> job list" where
  "held_jobs s = filter (\<lambda>m. held_state (state m)) (dict_values (jobs s))"

definition lane_held :: "store \<Rightarrow> string \<Rightarrow> int" where
  "lane_held s nm = int (length (filter (\<lambda>m. lane m = nm) (held_jobs s)))"

definition claim_order :: "job list \<Rightarrow> job list" where
  "claim_order ms = sort_key (\<lambda>m. (- priority m, sequence m)) ms"

definition lane_queued :: "store \<Rightarrow> string \<Rightarrow> job list" where
  "lane_queued s nm = filter (\<lambda>m. lane m = nm \<and> state m = QUEUED) (dict_values (jobs s))"

definition claim :: "secs \<Rightarrow> string \<Rightarrow> string \<Rightarrow> store \<Rightarrow> store \<times> (queue_error + job_claim option)" where
  "claim now nm owner s0 =
    (let s = sweep now s0 in
     if (case dict_get (lanes s) nm of None \<Rightarrow> False | Some l \<Rightarrow> claim_paused l) then (s, Inr None)
     else case dict_get LANE_WORKERS nm of
       None \<Rightarrow> (s, Inl (KeyError nm))
     | Some workers \<Rightarrow>
        (if lane_held s nm \<ge> workers then (s, Inr None)
         else case claim_loop now owner (\<exists>m \<in> set (held_jobs s). image_work m)
                     (claim_order (lane_queued s nm)) s of
           (s1, r) \<Rightarrow> (s1, Inr r)))"

definition load_payload :: "secs \<Rightarrow> string \<Rightarrow> string \<Rightarrow> store \<Rightarrow> store \<times> (queue_error + string)" where
  "load_payload now tid owner s0 =
    (let s = sweep now s0 in
     (s, case dict_get (jobs s) tid of
           None \<Rightarrow> Inl (QueueConflict ''payload_not_available'')
         | Some m \<Rightarrow>
            (if state m \<noteq> RUNNING \<or> owner_token m \<noteq> Some owner then Inl (QueueConflict ''payload_not_available'')
             else case dict_get (payloads s) tid of
               None \<Rightarrow> Inl (QueueConflict ''payload_not_available'')
             | Some pl \<Rightarrow> Inr pl)))"

section \<open>Operations of the owner\<close>

definition owned :: "secs \<Rightarrow> string \<Rightarrow> string \<Rightarrow> int \<Rightarrow> store \<Rightarrow> store \<times> (queue_error + job)" where
  "owned now tid owner rv s0 =
    (let s = sweep now s0 in
     (s, case dict_get (jobs s) tid of
           None \<Rightarrow> Inl (QueueConflict ''owner_or_revision_conflict'')
         | Some m \<Rightarrow>
            (if held_state (state m) \<and> owner_token m = Some owner \<and> revision m = rv then Inr m
             else Inl (QueueConflict ''owner_or_revision_conflict''))))"

definition heartbeat :: "secs \<Rightarrow> string \<Rightarrow> string \<Rightarrow> int \<Rightarrow> store \<Rightarrow> store \<times> (queue_error + job_snapshot)" where
  "heartbeat now tid owner rv s0 =
    (case owned now tid owner rv (sweep now s0) of
       (s, Inl err) \<Rightarrow> (s, Inl err)
     | (s, Inr m) \<Rightarrow> (let m1 = m\<lparr>heartbeat_at := Some now\<rparr> in (put_job m1 s, Inr (snapshot m1))))"

text \<open>\<open>{**a, **b}\<close>: the second dictionary wins.\<close>

definition summary_merge :: "summary \<Rightarrow> summary \<Rightarrow> summary" where
  "summary_merge a b = foldl (\<lambda>d (k, v). dict_set d k v) a b"

definition finish_retryable :: "secs \<Rightarrow> secs \<Rightarrow> string option \<Rightarrow> job \<Rightarrow> store \<Rightarrow> job \<times> store" where
  "finish_retryable now delay reason m s =
    (if attempts_started m \<ge> max_attempts m then
       terminal now FAILED
         (case reason of Some r \<Rightarrow> if r \<noteq> [] then Some r else Some ''attempts_exhausted''
          | None \<Rightarrow> Some ''attempts_exhausted'') True m s
     else if now + delay \<ge> queue_deadline_at m then terminal now EXPIRED (Some ''retry_after_deadline'') True m s
     else
       (m\<lparr>state := (if delay > 0 then DELAYED else QUEUED), not_before := now + delay,
          reason_code := reason, owner_token := None, revision := revision m + 1,
          deadline_at := queue_deadline_at m,
          payload_expires_at :=
            (if user_id m > 0 then min (queue_deadline_at m) (submitted_at m + 900) else queue_deadline_at m)\<rparr>, s))"

definition outcome_state :: "job_outcome \<Rightarrow> job_state" where
  "outcome_state out =
    (case out of
       SUCCEEDED_outcome \<Rightarrow> SUCCEEDED
     | UNKNOWN_DELIVERY_outcome \<Rightarrow> UNKNOWN_DELIVERY
     | _ \<Rightarrow> FAILED)"

definition finish_transition :: "secs \<Rightarrow> secs \<Rightarrow> job_result \<Rightarrow> job \<Rightarrow> store \<Rightarrow> job \<times> store" where
  "finish_transition now delay r m s =
    (if outcome r = UNKNOWN_DELIVERY_outcome then terminal now UNKNOWN_DELIVERY (result_reason r) False m s
     else if state m = CANCEL_REQUESTED then terminal now CANCELLED (Some ''cancel_requested'') False m s
     else if outcome r = RETRYABLE_FAILURE then finish_retryable now delay (result_reason r) m s
     else terminal now (outcome_state (outcome r)) (result_reason r) False m s)"

definition finish_owned :: "secs \<Rightarrow> string \<Rightarrow> string \<Rightarrow> int \<Rightarrow> job_result \<Rightarrow> secs \<Rightarrow> store \<Rightarrow>
    store \<times> (queue_error + job_snapshot)" where
  "finish_owned now tid owner rv r delay s0 =
    (case owned now tid owner rv s0 of
       (s, Inl err) \<Rightarrow> (s, Inl err)
     | (s, Inr m) \<Rightarrow>
        (case public_summary (summary_of r) of
           Inl err \<Rightarrow> (s, Inl err)
         | Inr clean \<Rightarrow>
            (case finish_transition now delay r
                    (m\<lparr>result_summary := summary_merge (result_summary m) clean\<rparr>) s of
               (m1, s1) \<Rightarrow>
                 (let m2 = m1\<lparr>finish_token := Some owner\<rparr> in (put_job m2 s1, Inr (snapshot m2))))))"

definition finish :: "secs \<Rightarrow> string \<Rightarrow> string \<Rightarrow> int \<Rightarrow> job_result \<Rightarrow> secs \<Rightarrow> store \<Rightarrow>
    store \<times> (queue_error + job_snapshot)" where
  "finish now tid owner rv r delay s0 =
    (let s = sweep now s0 in
     case dict_get (jobs s) tid of
       Some m \<Rightarrow>
         (if finish_token m = Some owner then (s, Inr (snapshot m))
          else finish_owned now tid owner rv r delay s)
     | None \<Rightarrow> finish_owned now tid owner rv r delay s)"

definition update_progress :: "secs \<Rightarrow> string \<Rightarrow> string \<Rightarrow> int \<Rightarrow> summary \<Rightarrow> store \<Rightarrow>
    store \<times> (queue_error + job_snapshot)" where
  "update_progress now tid owner rv summ s0 =
    (case owned now tid owner rv s0 of
       (s, Inl err) \<Rightarrow> (s, Inl err)
     | (s, Inr m) \<Rightarrow>
        (if state m \<noteq> RUNNING then (s, Inl (QueueConflict ''cancel_requested''))
         else case public_summary summ of
           Inl err \<Rightarrow> (s, Inl err)
         | Inr clean \<Rightarrow>
            (let m1 = m\<lparr>result_summary := summary_merge (result_summary m) clean\<rparr>
             in (put_job m1 s, Inr (snapshot m1)))))"

section \<open>Commands with an operation identity\<close>

definition command_key :: "queue_env \<Rightarrow> string \<Rightarrow> string \<Rightarrow> string" where
  "command_key env actor op_id = sha256_hex env (actor @ '':'' @ op_id)"

definition command_previous :: "string \<Rightarrow> command \<Rightarrow> store \<Rightarrow> queue_error + string option" where
  "command_previous key body s =
    (case dict_get (operations s) key of
       None \<Rightarrow> Inr None
     | Some (fp, target, until) \<Rightarrow>
        (if fp \<noteq> body then Inl (QueueConflict ''operation_id_conflict'')
         else if target = [] then Inr None else Inr (Some target)))"

definition put_operation :: "string \<Rightarrow> command \<Rightarrow> string \<Rightarrow> secs \<Rightarrow> store \<Rightarrow> store" where
  "put_operation key body target now s =
    s\<lparr>operations := dict_set (operations s) key (body, target, now + METADATA_RETENTION)\<rparr>"

definition cancel_transition :: "secs \<Rightarrow> job \<Rightarrow> store \<Rightarrow> job \<times> store" where
  "cancel_transition now m s =
    (if held_state (state m) then
       (m\<lparr>state := CANCEL_REQUESTED, revision := revision m + 1, reason_code := Some ''cancel_requested''\<rparr>, s)
     else if active_state (state m) then terminal now CANCELLED (Some ''cancel_requested'') False m s
     else (m, s))"

definition request_cancel :: "queue_env \<Rightarrow> secs \<Rightarrow> string \<Rightarrow> int \<Rightarrow> string \<Rightarrow> string \<Rightarrow> store \<Rightarrow>
    store \<times> (queue_error + job_snapshot)" where
  "request_cancel env now tid rv actor op_id s0 =
    (let s = sweep now s0; key = command_key env actor op_id; body = CmdCancel tid rv in
     case command_previous key body s of
       Inl err \<Rightarrow> (s, Inl err)
     | Inr (Some previous) \<Rightarrow>
        (s, case dict_get (jobs s) tid of None \<Rightarrow> Inl (KeyError tid) | Some m \<Rightarrow> Inr (snapshot m))
     | Inr None \<Rightarrow>
        (case dict_get (jobs s) tid of
           None \<Rightarrow> (s, Inl (QueueConflict ''revision_conflict''))
         | Some m \<Rightarrow>
            (if revision m \<noteq> rv then (s, Inl (QueueConflict ''revision_conflict''))
             else case cancel_transition now m s of (m1, s1) \<Rightarrow>
               (put_operation key body tid now (put_job m1 s1), Inr (snapshot m1)))))"

definition retry_allowed :: "string \<Rightarrow> int \<Rightarrow> int option \<Rightarrow> store \<Rightarrow> job \<Rightarrow> bool" where
  "retry_allowed tid rv epoch s m \<longleftrightarrow>
    revision m = rv \<and> retry_eligible m \<and> state m \<in> {FAILED, EXPIRED} \<and>
    dict_has (payloads s) tid \<and> privacy_epoch m = epoch"

definition retry_child :: "string \<Rightarrow> string \<Rightarrow> int option \<Rightarrow> string \<Rightarrow> job \<Rightarrow> envelope" where
  "retry_child key child_id epoch pl m =
    \<lparr>task_id = child_id, kind = kind m, lane = lane m, user_id = user_id m, privacy_epoch = epoch,
     priority = priority m, delay_seconds = 0, effectful = effectful m, image_work = image_work m,
     parent_task_id = Some (task_id m), retry_grants = 0, conflict_keys = conflict_keys m,
     execution_timeout_seconds = execution_timeout_seconds m, payload = pl,
     idempotency_key = ''retry:'' @ key, envelope_summary = result_summary m\<rparr>"

text \<open>\<open>m\<close> is the record object, whose \<open>task_id\<close> is the parameter \<open>task_id\<close> of the method. An accepted
  child that happened to have the same identifier would have replaced it in \<open>self.jobs\<close>: the
  assignments to \<open>m\<close> then no longer show there, while its payload is still popped.\<close>

definition retry_settle :: "secs \<Rightarrow> string \<Rightarrow> command \<Rightarrow> string \<Rightarrow> job \<Rightarrow> store \<times> queue_admission \<Rightarrow>
    store \<times> queue_admission" where
  "retry_settle now key body child_id m res =
    (case res of (s, adm) \<Rightarrow>
       if adm_state adm \<in> {ACCEPTED, EXISTING} then
         (if adm_task_id adm \<noteq> Some child_id then
            (put_operation key body (case adm_task_id adm of Some t \<Rightarrow> t | None \<Rightarrow> []) now s, adm)
          else
            (case drop_payload (m\<lparr>retry_grants := 0\<rparr>) s of (m1, s1) \<Rightarrow>
               (put_operation key body child_id now (if adm_state adm = ACCEPTED \<and> child_id = task_id m then s1 else put_job m1 s1), adm)))
       else (s, adm))"

definition retry_job :: "queue_env \<Rightarrow> secs \<Rightarrow> string \<Rightarrow> int \<Rightarrow> string \<Rightarrow> string \<Rightarrow> int option \<Rightarrow> store \<Rightarrow>
    store \<times> (queue_error + queue_admission)" where
  "retry_job env now tid rv actor op_id epoch s0 =
    (let s = sweep now s0; key = command_key env actor op_id; body = CmdRetry tid rv;
         child_id = uuid5_url env key in
     case command_previous key body s of
       Inl err \<Rightarrow> (s, Inl err)
     | Inr (Some previous) \<Rightarrow> (s, Inr (admission EXISTING (Some previous) None))
     | Inr None \<Rightarrow>
        (case dict_get (jobs s) tid of
           None \<Rightarrow> (s, Inl (QueueConflict ''retry_not_available''))
         | Some m \<Rightarrow>
            (if \<not> retry_allowed tid rv epoch s m then (s, Inl (QueueConflict ''retry_not_available''))
             else case dict_get (payloads s) tid of
               None \<Rightarrow> (s, Inl (QueueConflict ''retry_not_available''))
             | Some pl \<Rightarrow>
                (case envelope_init (retry_child key child_id epoch pl m) of
                   Inl err \<Rightarrow> (s, Inl err)
                 | Inr child \<Rightarrow>
                    (case dict_get (lanes s) (lane m) of
                       None \<Rightarrow> (s, Inl (KeyError (lane m)))
                     | Some l \<Rightarrow>
                        (case retry_settle now key body child_id m
                                (admit_internal env now child (lane_policy l) (payload_bytes m) s) of
                           (s1, adm) \<Rightarrow> (s1, Inr adm)))))))"

section \<open>Erasure of a user\<close>

definition erase_job :: "store \<Rightarrow> string \<Rightarrow> store" where
  "erase_job s tid =
    (case dict_get (jobs s) tid of
       None \<Rightarrow> s
     | Some m \<Rightarrow>
        (case drop_payload m (s\<lparr>jobs := dict_pop (jobs s) tid\<rparr>) of (m1, s1) \<Rightarrow>
           (let s2 = release_conflicts m1 s1 in
            s2\<lparr>identities := foldl dict_pop (identities s2) (identity_aliases m1)\<rparr>)))"

definition user_tasks :: "int \<Rightarrow> store \<Rightarrow> string list" where
  "user_tasks uid s = map fst (filter (\<lambda>(tid, m). user_id m = uid) (jobs s))"

definition erase_user :: "int \<Rightarrow> store \<Rightarrow> store" where
  "erase_user uid s =
    (let ids = user_tasks uid s; s1 = foldl erase_job s ids in
     s1\<lparr>operations := filter (\<lambda>(key, fp, target, until). target \<notin> set ids) (operations s1)\<rparr>)"

section \<open>Lanes\<close>

record lane_snapshot =
  ls_lane :: string
  ls_state :: lane_state
  ls_workers :: int

definition read_lane :: "string \<Rightarrow> store \<Rightarrow> store \<times> (queue_error + lane_snapshot)" where
  "read_lane nm s =
    (case (dict_get LANE_WORKERS nm, dict_get LANE_POLICIES nm) of
       (Some w, Some p) \<Rightarrow>
         (case lane_setdefault nm p s of (l, s1) \<Rightarrow> (s1, Inr \<lparr>ls_lane = nm, ls_state = l, ls_workers = w\<rparr>))
     | _ \<Rightarrow> (s, Inl (QueueConflict ''unknown_lane'')))"

definition set_lane_state :: "queue_env \<Rightarrow> secs \<Rightarrow> string \<Rightarrow> int \<Rightarrow> bool \<Rightarrow> bool \<Rightarrow> string \<Rightarrow> string \<Rightarrow> store \<Rightarrow>
    store \<times> (queue_error + lane_snapshot)" where
  "set_lane_state env now nm rv ap cp actor op_id s =
    (let key = command_key env actor op_id; body = CmdLane nm rv ap cp in
     case command_previous key body s of
       Inl err \<Rightarrow> (s, Inl err)
     | Inr old \<Rightarrow>
        (case read_lane nm s of
           (s1, Inl err) \<Rightarrow> (s1, Inl err)
         | (s1, Inr snap) \<Rightarrow>
            (if old \<noteq> None then (s1, Inr snap)
             else if lane_revision (ls_state snap) \<noteq> rv then (s1, Inl (QueueConflict ''revision_conflict''))
             else
               read_lane nm
                 (put_operation key body nm now
                   (s1\<lparr>lanes := dict_set (lanes s1) nm
                       ((ls_state snap)\<lparr>lane_revision := rv + 1, admission_paused := ap, claim_paused := cp\<rparr>)\<rparr>)))))"

section \<open>Reading\<close>

definition read_job :: "secs \<Rightarrow> string \<Rightarrow> store \<Rightarrow> store \<times> job_snapshot option" where
  "read_job now tid s0 = (let s = sweep now s0 in (s, map_option snapshot (dict_get (jobs s) tid)))"

definition private_record :: "secs \<Rightarrow> string \<Rightarrow> store \<Rightarrow> store \<times> job option" where
  "private_record now tid s0 = (let s = sweep now s0 in (s, dict_get (jobs s) tid))"

definition read_job_by_operation :: "queue_env \<Rightarrow> secs \<Rightarrow> int \<Rightarrow> string \<Rightarrow> store \<Rightarrow> job_snapshot option" where
  "read_job_by_operation env now uid key s =
    (case dict_get (identities s) (identity_of env uid key) of
       None \<Rightarrow> None
     | Some (tid, fp, until) \<Rightarrow>
        (if until \<le> now then None
         else case dict_get (jobs s) tid of
           None \<Rightarrow> None
         | Some m \<Rightarrow>
            (if metadata_due now m then None
             else if payload_expires_at m \<le> now \<or> \<not> dict_has (payloads s) tid
             then Some (snapshot (m\<lparr>retry_eligible := False, retry_payload_available := False\<rparr>))
             else Some (snapshot m))))"

definition conflict_snapshots :: "store \<Rightarrow> int \<Rightarrow> string \<Rightarrow> string list \<Rightarrow> (string, job_snapshot) dict" where
  "conflict_snapshots s uid nm keys =
    foldl (\<lambda>d key.
      case dict_get (conflicts s) (nm, uid, key) of
        None \<Rightarrow> d
      | Some tid \<Rightarrow>
         (case dict_get (jobs s) tid of
            None \<Rightarrow> d
          | Some m \<Rightarrow> if active_state (state m) then dict_set d tid (snapshot m) else d)) [] keys"

definition read_jobs_by_conflicts :: "int \<Rightarrow> string \<Rightarrow> string list \<Rightarrow> store \<Rightarrow> queue_error + job_snapshot list" where
  "read_jobs_by_conflicts uid nm keys s =
    (if dict_get LANE_POLICIES nm = None then Inl (QueueConflict ''unknown_lane'')
     else case normalized_conflicts keys of
       Inl err \<Rightarrow> Inl err
     | Inr ks \<Rightarrow> Inr (dict_values (conflict_snapshots s uid nm ks)))"

record queue_stats =
  st_nonterminal :: nat
  st_payload_bytes :: int
  st_retrying :: nat
  st_malformed :: nat
  st_by_state :: "job_state \<Rightarrow> nat"
  st_oldest_age :: secs
  st_observed_at :: secs
  st_healthy_owners :: nat

definition stats :: "secs \<Rightarrow> string \<Rightarrow> store \<Rightarrow> store \<times> queue_stats" where
  "stats now nm s0 =
    (let s = sweep now s0; records = filter (\<lambda>m. lane m = nm) (dict_values (jobs s)) in
     (s, \<lparr>st_nonterminal = length (filter (\<lambda>m. active_state (state m)) records),
          st_payload_bytes = sum_list (map payload_bytes (filter (\<lambda>m. dict_has (payloads s) (task_id m)) records)),
          st_retrying = length (filter (\<lambda>m. state m \<in> {QUEUED, DELAYED} \<and> attempts_started m > 0) records),
          st_malformed = length (filter (\<lambda>m. reason_code m = Some ''invalid_job_payload'') records),
          st_by_state = (\<lambda>st. length (filter (\<lambda>m. state m = st) records)),
          st_oldest_age =
            (case map (\<lambda>m. now - submitted_at m) (filter (\<lambda>m. active_state (state m)) records) of
               [] \<Rightarrow> 0 | a # as \<Rightarrow> foldl max a as),
          st_observed_at = now,
          st_healthy_owners = length (filter (\<lambda>m. held_state (state m) \<and> \<not> lease_over now m) records)\<rparr>))"

definition list_records :: "string option \<Rightarrow> job_state option \<Rightarrow> store \<Rightarrow> job list" where
  "list_records nm st s =
    sort_key sequence
      (filter (\<lambda>m. (case nm of None \<Rightarrow> True | Some l \<Rightarrow> lane m = l) \<and>
                   (case st of None \<Rightarrow> True | Some x \<Rightarrow> state m = x)) (dict_values (jobs s)))"

definition cursor_offset :: "string option \<Rightarrow> int option" where
  "cursor_offset c =
    (case c of
       None \<Rightarrow> Some 0
     | Some t \<Rightarrow> (if t = [] then Some 0 else
         (case py_int t of None \<Rightarrow> None | Some i \<Rightarrow> if i < 0 then None else Some i)))"

definition list_jobs :: "secs \<Rightarrow> string option \<Rightarrow> job_state option \<Rightarrow> string option \<Rightarrow> int \<Rightarrow> store \<Rightarrow>
    store \<times> (queue_error + job_snapshot list \<times> string option)" where
  "list_jobs now nm st cursor limit s0 =
    (let s = sweep now s0 in
     (s,
      if \<not> (1 \<le> limit \<and> limit \<le> 100) then Inl (QueueConflict ''invalid_page_size'')
      else case cursor_offset cursor of
        None \<Rightarrow> Inl (QueueConflict ''invalid_cursor'')
      | Some offset \<Rightarrow>
         (let records = list_records nm st s;
              selected = take (nat limit) (drop (nat offset) records)
          in Inr (map snapshot selected,
                  if int (length records) > offset + limit then Some (show_int (offset + limit)) else None))))"

end
