(* ===== verification/Queue_Invariants.thy ===== *)
theory Queue_Invariants
  imports Queue_Store
begin

text \<open>
  What the local queue store keeps true. A job's life is the step relation \<open>lifecycle\<close> on states;
  \<open>evolves\<close> says how a record may change while nobody claims it, \<open>evolved\<close> lifts this to stores,
  and every method is an evolution except the claim of one job and the insertion of one record.
\<close>

section \<open>The abstract life of a job\<close>

inductive lifecycle :: "job_state \<Rightarrow> job_state \<Rightarrow> bool" where
  wake: "lifecycle DELAYED QUEUED"
| start: "lifecycle QUEUED RUNNING"
| cancel_request: "lifecycle RUNNING CANCEL_REQUESTED"
| give_back: "lifecycle RUNNING QUEUED"
| postpone: "lifecycle RUNNING DELAYED"
| settle_held: "held_state st \<Longrightarrow> \<not> active_state st' \<Longrightarrow> lifecycle st st'"
| settle_waiting: "st \<in> {QUEUED, DELAYED} \<Longrightarrow> st' \<in> {FAILED, CANCELLED, EXPIRED} \<Longrightarrow> lifecycle st st'"

inductive_cases lifecycle_fromE: "lifecycle st st'"

lemma held_active: "held_state st \<Longrightarrow> active_state st"
  by (auto simp: held_state_def active_state_def)

lemma lifecycle_from_active: "lifecycle st st' \<Longrightarrow> active_state st"
  by (erule lifecycle_fromE) (auto simp: active_state_def held_state_def)

lemma lifecycle_terminal_absorbing: "lifecycle\<^sup>*\<^sup>* st st' \<Longrightarrow> \<not> active_state st \<Longrightarrow> st' = st"
  by (induction rule: rtranclp_induct) (auto dest: lifecycle_from_active)

lemma active_or_terminal: "active_state st \<longleftrightarrow> st \<notin> set TERMINAL_STATES"
  by (cases st) (auto simp: active_state_def TERMINAL_STATES_def)

section \<open>How a record changes outside a claim\<close>

text \<open>The fields no method ever writes after admission.\<close>

definition same_core :: "job \<Rightarrow> job \<Rightarrow> bool" where
  "same_core m m' \<longleftrightarrow>
    task_id m' = task_id m \<and> kind m' = kind m \<and> lane m' = lane m \<and> user_id m' = user_id m \<and>
    priority m' = priority m \<and> effectful m' = effectful m \<and> image_work m' = image_work m \<and>
    max_attempts m' = max_attempts m \<and> submitted_at m' = submitted_at m \<and>
    queue_deadline_at m' = queue_deadline_at m \<and> payload_bytes m' = payload_bytes m \<and>
    sequence m' = sequence m \<and> identity m' = identity m \<and> fingerprint m' = fingerprint m"

definition evolves :: "job \<Rightarrow> job \<Rightarrow> bool" where
  "evolves m m' \<longleftrightarrow>
    same_core m m' \<and> attempts_started m' = attempts_started m \<and> revision m \<le> revision m' \<and>
    (revision m' = revision m \<longrightarrow> state m' = state m) \<and> (0 < retry_grants m' \<longrightarrow> 0 < retry_grants m) \<and>
    lifecycle\<^sup>*\<^sup>* (state m) (state m') \<and> (held_state (state m') \<longrightarrow> held_state (state m))"

lemma same_core_refl [simp]: "same_core m m"
  by (simp add: same_core_def)

lemma same_core_trans: "same_core m m' \<Longrightarrow> same_core m' m'' \<Longrightarrow> same_core m m''"
  by (simp add: same_core_def)

lemma evolves_refl [simp]: "evolves m m"
  by (simp add: evolves_def)

lemma evolves_trans: "evolves m m' \<Longrightarrow> evolves m' m'' \<Longrightarrow> evolves m m''"
  by (auto simp: evolves_def intro: same_core_trans rtranclp_trans)

lemma evolves_active: "evolves m m' \<Longrightarrow> active_state (state m') \<Longrightarrow> active_state (state m)"
  by (auto simp: evolves_def dest: lifecycle_terminal_absorbing)

section \<open>Well-formed records and stores\<close>

definition job_ok :: "job \<Rightarrow> bool" where
  "job_ok m \<longleftrightarrow>
    (held_state (state m) \<longrightarrow> owner_token m \<noteq> None \<and> heartbeat_at m \<noteq> None \<and> 1 \<le> attempts_started m) \<and>
    (\<not> held_state (state m) \<longrightarrow> owner_token m = None) \<and>
    (active_state (state m) \<longrightarrow> metadata_expires_at m = None \<and> finished_at m = None \<and> \<not> retry_eligible m) \<and>
    (\<not> active_state (state m) \<longrightarrow> metadata_expires_at m \<noteq> None \<and> finished_at m \<noteq> None) \<and>
    (retry_eligible m \<longrightarrow> 0 < retry_grants m \<and> state m \<in> {FAILED, EXPIRED}) \<and>
    0 \<le> attempts_started m \<and> attempts_started m \<le> max_attempts m \<and> max_attempts m \<le> 3 \<and>
    0 \<le> payload_bytes m \<and> dict_get LANE_POLICIES (lane m) \<noteq> None"

definition jobs_ok :: "store \<Rightarrow> bool" where
  "jobs_ok s \<longleftrightarrow>
    dict_ok (jobs s) \<and> dict_ok (payloads s) \<and> dict_ok (identities s) \<and> dict_ok (operations s) \<and>
    (\<forall>tid m. dict_get (jobs s) tid = Some m \<longrightarrow>
      task_id m = tid \<and> job_ok m \<and> sequence m \<le> seq_no s \<and>
      (retry_eligible m \<longrightarrow> dict_has (payloads s) tid)) \<and>
    (\<forall>tid pl. dict_get (payloads s) tid = Some pl \<longrightarrow>
      (\<exists>m. dict_get (jobs s) tid = Some m \<and> payload_bytes m = int (length pl) \<and>
           (active_state (state m) \<or> retry_eligible m))) \<and>
    (\<forall>tid tid' m m'. dict_get (jobs s) tid = Some m \<longrightarrow> dict_get (jobs s) tid' = Some m' \<longrightarrow>
      sequence m = sequence m' \<longrightarrow> tid = tid')"

definition lanes_ok :: "(string, lane_state) dict \<Rightarrow> bool" where
  "lanes_ok d \<longleftrightarrow> (\<forall>nm l. dict_get d nm = Some l \<longrightarrow> policy_ok (lane_policy l))"

definition evolved :: "store \<Rightarrow> store \<Rightarrow> bool" where
  "evolved s s' \<longleftrightarrow>
    seq_no s' = seq_no s \<and> (lanes_ok (lanes s) \<longrightarrow> lanes_ok (lanes s')) \<and>
    (\<forall>tid m'. dict_get (jobs s') tid = Some m' \<longrightarrow>
      (\<exists>m. dict_get (jobs s) tid = Some m \<and> evolves m m')) \<and>
    (\<forall>tid pl. dict_get (payloads s') tid = Some pl \<longrightarrow> dict_get (payloads s) tid = Some pl)"

lemma evolved_refl [simp]: "evolved s s"
  by (auto simp: evolved_def)

lemma evolvedE:
  assumes "evolved s s'" and "dict_get (jobs s') tid = Some m'"
  obtains m where "dict_get (jobs s) tid = Some m" "evolves m m'"
  using assms unfolding evolved_def by blast

lemma evolved_trans:
  assumes "evolved s s'" and "evolved s' s''"
  shows "evolved s s''"
proof -
  have "\<exists>m. dict_get (jobs s) tid = Some m \<and> evolves m m''" if "dict_get (jobs s'') tid = Some m''" for tid m''
  proof -
    from assms(2) that obtain m' where m': "dict_get (jobs s') tid = Some m'" "evolves m' m''"
      by (rule evolvedE)
    from assms(1) m'(1) obtain m where "dict_get (jobs s) tid = Some m" "evolves m m'"
      by (rule evolvedE)
    with m'(2) show ?thesis by (blast intro: evolves_trans)
  qed
  with assms show ?thesis by (simp add: evolved_def)
qed

lemma jobs_okD:
  assumes "jobs_ok s" and "dict_get (jobs s) tid = Some m"
  shows "task_id m = tid" "job_ok m" "sequence m \<le> seq_no s" "retry_eligible m \<Longrightarrow> dict_has (payloads s) tid"
  using assms by (auto simp: jobs_ok_def)

section \<open>What a terminal transition does\<close>

lemma terminal_frame:
  assumes "terminal now st reason safe m s = (m', s')"
  shows "jobs s' = jobs s" "seq_no s' = seq_no s" "lanes s' = lanes s" "operations s' = operations s"
    and "payloads s' = (if retry_eligible m' then payloads s else dict_pop (payloads s) (task_id m))"
    and "identities s' = foldl (extend_identity now) (identities s) (identity_aliases m)"
  using assms
  by (auto simp: terminal_def Let_def release_conflicts_def drop_payload_def split: if_splits)

lemma terminal_job:
  assumes "terminal now st reason safe m s = (m', s')"
  shows "same_core m m'" "attempts_started m' = attempts_started m" "revision m' = revision m + 1"
    and "state m' = st" "owner_token m' = None" "finished_at m' = Some now"
    and "metadata_expires_at m' = Some (now + METADATA_RETENTION)" "retry_grants m' = retry_grants m"
    and "retry_eligible m' \<longleftrightarrow> safe \<and> retry_grants m > 0 \<and> dict_has (payloads s) (task_id m)"
    and "reason_code m' = reason" "identity_aliases m' = identity_aliases m" "conflict_keys m' = conflict_keys m"
    and "payload_expires_at m' = (if retry_eligible m' then now + RETRY_PAYLOAD_RETENTION else payload_expires_at m)"
  using assms
  by (auto simp: terminal_def Let_def release_conflicts_def drop_payload_def same_core_def split: if_splits)

lemma terminal_evolves:
  assumes "terminal now st reason safe m s = (m', s')" and "lifecycle (state m) st" and "\<not> active_state st"
  shows "evolves m m'"
  using terminal_job [OF assms(1)] assms(2,3) by (auto simp: evolves_def dest: held_active)

lemma terminal_job_ok:
  assumes "terminal now st reason safe m s = (m', s')" and "job_ok m" and "\<not> active_state st"
    and "safe \<Longrightarrow> st \<in> {FAILED, EXPIRED}"
  shows "job_ok m'"
proof -
  note t = terminal_job [OF assms(1)]
  from t(1) have "lane m' = lane m" "payload_bytes m' = payload_bytes m" "max_attempts m' = max_attempts m"
    by (auto simp: same_core_def)
  with t assms(2-4) show ?thesis by (auto simp: job_ok_def dest: held_active)
qed

lemma dict_ok_extend_identity: "dict_ok d \<Longrightarrow> dict_ok (foldl (extend_identity now) d ks)"
  by (induction ks arbitrary: d) (auto simp: extend_identity_def split: option.splits)

section \<open>A method's work on one record\<close>

definition payload_fit :: "store \<Rightarrow> job \<Rightarrow> bool" where
  "payload_fit s m \<longleftrightarrow>
    (retry_eligible m \<longrightarrow> dict_has (payloads s) (task_id m)) \<and>
    (dict_has (payloads s) (task_id m) \<longrightarrow> active_state (state m) \<or> retry_eligible m)"

definition frame_step :: "store \<Rightarrow> job \<Rightarrow> store \<Rightarrow> job \<Rightarrow> bool" where
  "frame_step s m s' m' \<longleftrightarrow>
    jobs s' = jobs s \<and> seq_no s' = seq_no s \<and> lanes s' = lanes s \<and> operations s' = operations s \<and>
    (dict_ok (identities s) \<longrightarrow> dict_ok (identities s')) \<and>
    (payloads s' = payloads s \<or> payloads s' = dict_pop (payloads s) (task_id m)) \<and>
    same_core m m' \<and> job_ok m' \<and> payload_fit s' m'"

definition local_step :: "store \<Rightarrow> job \<Rightarrow> store \<Rightarrow> job \<Rightarrow> bool" where
  "local_step s m s' m' \<longleftrightarrow>
    jobs s' = jobs s \<and> seq_no s' = seq_no s \<and> lanes s' = lanes s \<and> operations s' = operations s \<and>
    (dict_ok (identities s) \<longrightarrow> dict_ok (identities s')) \<and>
    (payloads s' = payloads s \<or> payloads s' = dict_pop (payloads s) (task_id m)) \<and>
    evolves m m' \<and> job_ok m' \<and> payload_fit s' m'"

lemma local_frame_step: "local_step s m s' m' \<Longrightarrow> frame_step s m s' m'"
  by (simp add: local_step_def frame_step_def evolves_def)

lemma dict_pop_twice [simp]: "dict_pop (dict_pop d k) k = dict_pop d k"
  by (simp add: dict_pop_def)

lemma evolves_task_id: "evolves m m' \<Longrightarrow> task_id m' = task_id m"
  by (simp add: evolves_def same_core_def)

lemma local_step_refl: "job_ok m \<Longrightarrow> payload_fit s m \<Longrightarrow> local_step s m s m"
  by (simp add: local_step_def)

lemma local_step_trans:
  "local_step s m s' m' \<Longrightarrow> local_step s' m' s'' m'' \<Longrightarrow> local_step s m s'' m''"
  by (auto simp: local_step_def evolves_task_id intro: evolves_trans)

lemma terminal_local_step:
  assumes "terminal now st reason safe m s = (m', s')" and "job_ok m" and "lifecycle (state m) st"
    and "\<not> active_state st" and "safe \<Longrightarrow> st \<in> {FAILED, EXPIRED}"
  shows "local_step s m s' m'"
proof -
  have "payload_fit s' m'"
    using terminal_frame(5) [OF assms(1)] terminal_job(1,9) [OF assms(1)]
    by (auto simp: payload_fit_def dict_has_def same_core_def)
  with terminal_frame [OF assms(1)] terminal_evolves [OF assms(1,3,4)] terminal_job_ok [OF assms(1,2,4,5)]
  show ?thesis by (simp add: local_step_def dict_ok_extend_identity)
qed

lemma drop_terminal_local_step:
  assumes "drop_payload m s = (m1, s1)" and "terminal now st reason False m1 s1 = (m', s')"
    and "job_ok m" and "active_state (state m)" and "lifecycle (state m) st" and "\<not> active_state st"
  shows "local_step s m s' m'"
proof -
  from assms(1) have m1: "m1 = m\<lparr>retry_payload_available := False, retry_eligible := False\<rparr>"
    and s1: "s1 = s\<lparr>payloads := dict_pop (payloads s) (task_id m)\<rparr>"
    by (simp_all add: drop_payload_def)
  have "job_ok m1" using assms(3,4) by (simp add: m1 job_ok_def)
  from terminal_local_step [OF assms(2) this] assms(5,6) have "local_step s1 m1 s' m'" by (simp add: m1)
  moreover have "evolves m m1" by (simp add: m1 evolves_def same_core_def)
  ultimately show ?thesis
    by (auto simp: local_step_def s1 evolves_task_id intro: evolves_trans)
qed

lemma put_job_evolved:
  assumes "dict_get (jobs s) (task_id m) = Some m" and "local_step s m s' m'"
  shows "evolved s (put_job m' s')"
  using assms by (auto simp: evolved_def put_job_def local_step_def evolves_task_id split: if_splits)

lemma put_job_ok:
  assumes ok: "jobs_ok s" and m: "dict_get (jobs s) (task_id m) = Some m" and st: "frame_step s m s' m'"
  shows "jobs_ok (put_job m' s')"
proof -
  let ?s = "put_job m' s'"
  from st have tid: "task_id m' = task_id m" and seq: "sequence m' = sequence m"
    and pb: "payload_bytes m' = payload_bytes m" and js: "jobs ?s = dict_set (jobs s) (task_id m) m'"
    and sn: "seq_no ?s = seq_no s" and pl: "payloads ?s = payloads s'" and mok: "job_ok m'"
    and fit: "payload_fit s' m'"
    by (auto simp: frame_step_def same_core_def put_job_def)
  have sub: "dict_get (payloads s') k = Some x \<Longrightarrow> dict_get (payloads s) k = Some x" for k x
    using st by (auto simp: frame_step_def split: if_splits)
  have keep: "dict_get (payloads s') k = dict_get (payloads s) k" if "k \<noteq> task_id m" for k
    using st that by (auto simp: frame_step_def)
  have "dict_ok (jobs ?s)" "dict_ok (payloads ?s)" "dict_ok (identities ?s)" "dict_ok (operations ?s)"
    using ok st by (auto simp: jobs_ok_def frame_step_def put_job_def)
  moreover have "task_id x = t \<and> job_ok x \<and> sequence x \<le> seq_no ?s \<and> (retry_eligible x \<longrightarrow> dict_has (payloads ?s) t)"
    if "dict_get (jobs ?s) t = Some x" for t x
  proof (cases "t = task_id m")
    case True
    with that js have "x = m'" by simp
    with True tid mok seq sn fit pl jobs_okD(3) [OF ok m] show ?thesis by (simp add: payload_fit_def)
  next
    case False
    with that js have "dict_get (jobs s) t = Some x" by simp
    from jobs_okD [OF ok this] False keep sn pl show ?thesis by (simp add: dict_has_def)
  qed
  moreover have "\<exists>x. dict_get (jobs ?s) t = Some x \<and> payload_bytes x = int (length y) \<and>
      (active_state (state x) \<or> retry_eligible x)"
    if "dict_get (payloads ?s) t = Some y" for t y
  proof -
    from that sub pl have "dict_get (payloads s) t = Some y" by simp
    with ok obtain x where x: "dict_get (jobs s) t = Some x" "payload_bytes x = int (length y)"
      "active_state (state x) \<or> retry_eligible x"
      unfolding jobs_ok_def by blast
    show ?thesis
    proof (cases "t = task_id m")
      case True
      with that fit tid pl have "active_state (state m') \<or> retry_eligible m'"
        by (auto simp: payload_fit_def dict_has_def)
      with True x m pb js show ?thesis by simp
    next
      case False
      with x js show ?thesis by simp
    qed
  qed
  moreover have "t = t'" if a: "dict_get (jobs ?s) t = Some x" "dict_get (jobs ?s) t' = Some x'"
    "sequence x = sequence x'" for t t' x x'
  proof -
    obtain y y' where "dict_get (jobs s) t = Some y" "sequence y = sequence x"
      "dict_get (jobs s) t' = Some y'" "sequence y' = sequence x'"
      using a(1,2) js m seq by (cases "t = task_id m"; cases "t' = task_id m") auto
    with a(3) ok show ?thesis unfolding jobs_ok_def by metis
  qed
  ultimately show ?thesis unfolding jobs_ok_def by blast
qed

section \<open>The sweep\<close>

lemma lifecycle_expire:
  "active_state (state m) \<Longrightarrow> lifecycle (state m) (if uncertain m then UNKNOWN_DELIVERY else EXPIRED)"
  by (cases "held_state (state m)")
    (auto simp: uncertain_def active_state_def held_state_def intro: settle_held settle_waiting)

lemma not_active_settled [simp]:
  "\<not> active_state UNKNOWN_DELIVERY" "\<not> active_state EXPIRED" "\<not> active_state FAILED"
  "\<not> active_state CANCELLED" "\<not> active_state SUCCEEDED"
  by (simp_all add: active_state_def)

lemma state_simps [simp]:
  "active_state QUEUED" "active_state DELAYED" "active_state RUNNING" "active_state CANCEL_REQUESTED"
  "\<not> held_state QUEUED" "\<not> held_state DELAYED" "held_state RUNNING" "held_state CANCEL_REQUESTED"
  by (simp_all add: active_state_def held_state_def)

lemma sweep_payload_step:
  assumes "job_ok m" and "payload_fit s m" and "sweep_payload now m s = (m', s')"
  shows "local_step s m s' m'"
proof (cases "payload_expires_at m \<le> now")
  case False
  with assms show ?thesis by (simp add: sweep_payload_def local_step_refl)
next
  case True
  obtain m1 s1 where d: "drop_payload m s = (m1, s1)" by fastforce
  then have m1: "m1 = m\<lparr>retry_payload_available := False, retry_eligible := False\<rparr>"
    and s1: "s1 = s\<lparr>payloads := dict_pop (payloads s) (task_id m)\<rparr>"
    by (simp_all add: drop_payload_def)
  have unc: "uncertain m1 = uncertain m" by (simp add: uncertain_def m1)
  show ?thesis
  proof (cases "active_state (state m)")
    case act: True
    with True d assms(3) unc
    have "terminal now (if uncertain m then UNKNOWN_DELIVERY else EXPIRED) (Some ''payload_expired'') False m1 s1 = (m', s')"
      by (simp add: sweep_payload_def m1)
    from drop_terminal_local_step [OF d this assms(1) act lifecycle_expire [OF act]] show ?thesis by simp
  next
    case False
    with True d assms(3) m1 have "m' = m1" "s' = s1" by (simp_all add: sweep_payload_def)
    with assms(1) False show ?thesis
      by (auto simp: local_step_def m1 s1 evolves_def same_core_def job_ok_def payload_fit_def dict_has_def)
  qed
qed

lemma requeue_local_step:
  assumes "job_ok m" and "payload_fit s m" and "lifecycle (state m) st" and "st \<in> {QUEUED, DELAYED}"
    and "m' = m\<lparr>state := st, not_before := nb, reason_code := rc, owner_token := None,
                revision := revision m + 1, deadline_at := dl, payload_expires_at := pe\<rparr>"
  shows "local_step s m s m'"
proof -
  from assms(3) have "active_state (state m)" by (rule lifecycle_from_active)
  with assms show ?thesis
    by (auto simp: local_step_def evolves_def same_core_def job_ok_def payload_fit_def)
qed

lemma sweep_lease_step:
  assumes ok: "job_ok m" "payload_fit s m" and held: "held_state (state m)"
    and eq: "sweep_lease now m s = (m', s')"
  shows "local_step s m s' m'"
proof -
  have settle: "local_step s m s' m'"
    if "terminal now st reason safe m s = (m', s')" "\<not> active_state st" "safe \<Longrightarrow> st \<in> {FAILED, EXPIRED}"
    for st reason safe
    using terminal_local_step [OF that(1) ok(1) settle_held [OF held that(2)] that(2)] that(3) by simp
  show ?thesis
  proof (cases "effectful m \<or> state m = CANCEL_REQUESTED \<or> attempts_started m \<ge> max_attempts m \<or> now \<ge> queue_deadline_at m")
    case True
    with eq settle show ?thesis by (auto simp: sweep_lease_def split: if_splits)
  next
    case False
    with eq have m': "m' = m\<lparr>state := QUEUED, owner_token := None, revision := revision m + 1,
        deadline_at := queue_deadline_at m\<rparr>" and [simp]: "s' = s"
      by (auto simp: sweep_lease_def)
    from held False have "state m = RUNNING" by (auto simp: held_state_def)
    then show ?thesis
      using requeue_local_step [OF ok, where st = QUEUED and m' = m' and nb = "not_before m"
          and rc = "reason_code m" and dl = "queue_deadline_at m" and pe = "payload_expires_at m"]
      by (simp add: m' lifecycle.give_back)
  qed
qed

lemma sweep_timers_step:
  assumes ok: "job_ok m" "payload_fit s m" and eq: "sweep_timers now m s = (m', s')"
  shows "local_step s m s' m'"
proof -
  consider (dl) "active_state (state m)" "deadline_at m \<le> now"
    | (lease) "\<not> (active_state (state m) \<and> deadline_at m \<le> now)" "held_state (state m)" "lease_over now m"
    | (wake) "\<not> (active_state (state m) \<and> deadline_at m \<le> now)" "\<not> (held_state (state m) \<and> lease_over now m)"
        "state m = DELAYED" "not_before m \<le> now"
    | (none) "\<not> (active_state (state m) \<and> deadline_at m \<le> now)" "\<not> (held_state (state m) \<and> lease_over now m)"
        "\<not> (state m = DELAYED \<and> not_before m \<le> now)"
    by blast
  then show ?thesis
  proof cases
    case dl
    with eq have "terminal now (if uncertain m then UNKNOWN_DELIVERY else EXPIRED) (Some ''deadline_exceeded'') False m s = (m', s')"
      by (simp add: sweep_timers_def)
    from terminal_local_step [OF this ok(1) lifecycle_expire [OF dl(1)]] show ?thesis by simp
  next
    case lease
    then have "sweep_timers now m s = sweep_lease now m s" by (simp only: sweep_timers_def if_not_P if_P simp_thms)
    with eq have "sweep_lease now m s = (m', s')" by simp
    with ok lease(2) show ?thesis by (rule sweep_lease_step)
  next
    case wake
    then have "sweep_timers now m s = (m\<lparr>state := QUEUED, revision := revision m + 1\<rparr>, s)"
      by (simp only: sweep_timers_def if_not_P if_P simp_thms)
    with eq have m': "m' = m\<lparr>state := QUEUED, revision := revision m + 1\<rparr>" and [simp]: "s' = s"
      by simp_all
    have "owner_token m = None" using ok(1) wake(3) by (simp add: job_ok_def)
    with wake(3) show ?thesis
      using requeue_local_step [OF ok, where st = QUEUED and m' = m' and nb = "not_before m"
          and rc = "reason_code m" and dl = "deadline_at m" and pe = "payload_expires_at m"]
      by (simp add: m' lifecycle.wake)
  next
    case none
    then have "sweep_timers now m s = (m, s)" by (simp only: sweep_timers_def if_not_P if_P simp_thms)
    with eq ok show ?thesis by (simp add: local_step_refl)
  qed
qed

lemma jobs_ok_fit:
  assumes "jobs_ok s" and "dict_get (jobs s) tid = Some m"
  shows "job_ok m" "payload_fit s m" "dict_get (jobs s) (task_id m) = Some m"
proof -
  note D = jobs_okD [OF assms]
  from D(1) assms(2) show "dict_get (jobs s) (task_id m) = Some m" by simp
  show "job_ok m" by (rule D(2))
  have "active_state (state m) \<or> retry_eligible m" if "dict_get (payloads s) tid = Some pl" for pl
    using assms that unfolding jobs_ok_def by (metis option.inject)
  with D(1,4) show "payload_fit s m" by (auto simp: payload_fit_def dict_has_def)
qed

lemma remove_job:
  assumes "jobs_ok s"
  shows "jobs_ok (s\<lparr>payloads := dict_pop (payloads s) tid, jobs := dict_pop (jobs s) tid\<rparr>)"
    and "evolved s (s\<lparr>payloads := dict_pop (payloads s) tid, jobs := dict_pop (jobs s) tid\<rparr>)"
proof -
  show "jobs_ok (s\<lparr>payloads := dict_pop (payloads s) tid, jobs := dict_pop (jobs s) tid\<rparr>)"
    using assms unfolding jobs_ok_def by (simp add: dict_has_def)
  show "evolved s (s\<lparr>payloads := dict_pop (payloads s) tid, jobs := dict_pop (jobs s) tid\<rparr>)"
    by (simp add: evolved_def)
qed

lemma sweep_job_ok:
  assumes ok: "jobs_ok s"
  shows "jobs_ok (sweep_job now s tid) \<and> evolved s (sweep_job now s tid)"
proof (cases "dict_get (jobs s) tid")
  case None
  with ok show ?thesis by (simp add: sweep_job_def)
next
  case (Some m)
  note F = jobs_ok_fit [OF ok Some]
  have tid: "task_id m = tid" using jobs_okD(1) [OF ok Some] .
  show ?thesis
  proof (cases "metadata_due now m")
    case True
    with Some tid remove_job [OF ok, of tid] show ?thesis by (simp add: sweep_job_def drop_payload_def)
  next
    case False
    obtain m1 s1 m2 s2 where a: "sweep_payload now m s = (m1, s1)" and b: "sweep_timers now m1 s1 = (m2, s2)"
      by fastforce
    have l1: "local_step s m s1 m1" using F(1,2) a by (rule sweep_payload_step)
    then have "local_step s1 m1 s2 m2" using b by (intro sweep_timers_step) (auto simp: local_step_def)
    with l1 have "local_step s m s2 m2" by (rule local_step_trans)
    with put_job_ok [OF ok F(3) local_frame_step] put_job_evolved [OF F(3)] False Some a b show ?thesis
      by (simp add: sweep_job_def)
  qed
qed

lemma sweep_jobs_ok:
  "jobs_ok s \<Longrightarrow> jobs_ok (foldl (sweep_job now) s ks) \<and> evolved s (foldl (sweep_job now) s ks)"
proof (induction ks arbitrary: s)
  case (Cons k ks)
  from sweep_job_ok [OF Cons.prems] have a: "jobs_ok (sweep_job now s k)" "evolved s (sweep_job now s k)"
    by auto
  from Cons.IH [OF a(1)] a(2) show ?case by (auto intro: evolved_trans)
qed simp

lemma sweep_ok:
  assumes "jobs_ok s"
  shows "jobs_ok (sweep now s)" and "evolved s (sweep now s)"
proof -
  let ?s1 = "s\<lparr>identities := filter (\<lambda>p. \<not> snd (snd (snd p)) \<le> now) (identities s),
               operations := filter (\<lambda>p. \<not> snd (snd (snd p)) \<le> now) (operations s)\<rparr>"
  have "jobs_ok ?s1" using assms by (simp add: jobs_ok_def)
  from sweep_jobs_ok [OF this, of now "dict_keys (jobs s)"]
  show "jobs_ok (sweep now s)" and "evolved s (sweep now s)"
    by (simp_all add: sweep_def evolved_def)
qed

section \<open>Operations of the owner, cancellation, erasure\<close>

text \<open>What a step of the store owes: it keeps well-formed records and only evolves them.\<close>

definition quiet_step :: "store \<Rightarrow> store \<Rightarrow> bool" where
  "quiet_step s s' \<longleftrightarrow> jobs_ok s' \<and> evolved s s'"

lemma quiet_refl: "jobs_ok s \<Longrightarrow> quiet_step s s"
  by (simp add: quiet_step_def)

lemma quiet_trans: "quiet_step s s' \<Longrightarrow> quiet_step s' s'' \<Longrightarrow> quiet_step s s''"
  by (auto simp: quiet_step_def intro: evolved_trans)

lemma quiet_sweep: "jobs_ok s \<Longrightarrow> quiet_step s (sweep now s)"
  by (simp add: quiet_step_def sweep_ok)

lemma quiet_put:
  assumes "jobs_ok s" and "dict_get (jobs s) tid = Some m" and "local_step s m s' m'"
  shows "quiet_step s (put_job m' s')"
  using put_job_ok [OF assms(1) jobs_ok_fit(3) [OF assms(1,2)] local_frame_step [OF assms(3)]]
    put_job_evolved [OF jobs_ok_fit(3) [OF assms(1,2)] assms(3)]
  by (simp add: quiet_step_def)

lemma jobs_ok_operations: "jobs_ok s \<Longrightarrow> dict_ok ops \<Longrightarrow> jobs_ok (s\<lparr>operations := ops\<rparr>)"
  by (simp add: jobs_ok_def)

lemma evolved_frame [simp]:
  "evolved s (s'\<lparr>operations := ops\<rparr>) = evolved s s'"
  "evolved s (s'\<lparr>identities := ids\<rparr>) = evolved s s'"
  "evolved s (s'\<lparr>conflicts := cs\<rparr>) = evolved s s'"
  by (simp_all add: evolved_def)

lemma quiet_operations: "quiet_step s s' \<Longrightarrow> dict_ok ops \<Longrightarrow> quiet_step s (s'\<lparr>operations := ops\<rparr>)"
  by (simp add: quiet_step_def jobs_ok_operations)

lemma jobs_ok_dicts: "jobs_ok s \<Longrightarrow> dict_ok (operations s) \<and> dict_ok (identities s) \<and> dict_ok (jobs s) \<and> dict_ok (payloads s)"
  by (simp add: jobs_ok_def)

lemma quiet_put_operation: "quiet_step s s' \<Longrightarrow> quiet_step s (put_operation key body target now s')"
  unfolding put_operation_def by (rule quiet_operations) (simp_all add: quiet_step_def jobs_ok_dicts)

lemma evolves_tags [simp]:
  "evolves m (m'\<lparr>finish_token := tok\<rparr>) = evolves m m'"
  "evolves m (m'\<lparr>result_summary := sm\<rparr>) = evolves m m'"
  "evolves m (m'\<lparr>identity_aliases := al\<rparr>) = evolves m m'"
  "evolves m (m'\<lparr>heartbeat_at := Some t\<rparr>) = evolves m m'"
  by (simp_all add: evolves_def same_core_def)

lemma payload_fit_tags [simp]:
  "payload_fit s (m\<lparr>finish_token := tok\<rparr>) = payload_fit s m"
  "payload_fit s (m\<lparr>result_summary := sm\<rparr>) = payload_fit s m"
  "payload_fit s (m\<lparr>identity_aliases := al\<rparr>) = payload_fit s m"
  "payload_fit s (m\<lparr>heartbeat_at := Some t\<rparr>) = payload_fit s m"
  by (simp_all add: payload_fit_def)

lemma job_ok_tags [simp]:
  "job_ok (m\<lparr>finish_token := tok\<rparr>) = job_ok m"
  "job_ok (m\<lparr>result_summary := sm\<rparr>) = job_ok m"
  "job_ok (m\<lparr>identity_aliases := al\<rparr>) = job_ok m"
  "job_ok m \<Longrightarrow> job_ok (m\<lparr>heartbeat_at := Some t\<rparr>)"
  by (simp_all add: job_ok_def)

lemma local_step_tags:
  assumes "local_step s m s' m'"
  shows "local_step s m s' (m'\<lparr>finish_token := tok\<rparr>)"
    "local_step s m s' (m'\<lparr>result_summary := sm\<rparr>)"
    "local_step s m s' (m'\<lparr>identity_aliases := al\<rparr>)"
    "local_step s m s' (m'\<lparr>heartbeat_at := Some t\<rparr>)"
  using assms by (simp_all add: local_step_def)

lemma owned_spec:
  "owned now tid owner rv s = (s', r) \<Longrightarrow>
    s' = sweep now s \<and>
    (\<forall>m. r = Inr m \<longrightarrow> dict_get (jobs s') tid = Some m \<and> held_state (state m) \<and>
       owner_token m = Some owner \<and> revision m = rv) \<and>
    (\<forall>e. r = Inl e \<longrightarrow> e = QueueConflict ''owner_or_revision_conflict'')"
  by (auto simp: owned_def Let_def split: option.splits if_splits)

lemma heartbeat_quiet:
  assumes ok: "jobs_ok s"
  shows "quiet_step s (fst (heartbeat now tid owner rv s))"
proof -
  let ?s = "sweep now (sweep now s)"
  have q: "quiet_step s ?s"
    using quiet_trans [OF quiet_sweep [OF ok] quiet_sweep [OF sweep_ok(1) [OF ok]]] .
  have ok': "jobs_ok ?s" using ok by (simp add: sweep_ok)
  obtain r where o: "owned now tid owner rv (sweep now s) = (?s, r)"
    by (simp add: owned_def Let_def)
  show ?thesis
  proof (cases r)
    case (Inl e)
    with o q show ?thesis by (simp add: heartbeat_def)
  next
    case (Inr m)
    with owned_spec [OF o] have m: "dict_get (jobs ?s) tid = Some m" by simp
    have "local_step ?s m ?s (m\<lparr>heartbeat_at := Some now\<rparr>)"
      using jobs_ok_fit(1,2) [OF ok' m] by (intro local_step_tags local_step_refl)
    from quiet_put [OF ok' m this] q have "quiet_step s (put_job (m\<lparr>heartbeat_at := Some now\<rparr>) ?s)"
      by (blast intro: quiet_trans)
    with o Inr show ?thesis by (simp add: heartbeat_def Let_def)
  qed
qed

lemma finish_retryable_step:
  assumes ok: "job_ok m" "payload_fit s m" and run: "state m = RUNNING"
    and eq: "finish_retryable now delay reason m s = (m', s')"
  shows "local_step s m s' m'"
proof -
  have held: "held_state (state m)" using run by simp
  have settle: "local_step s m s' m'"
    if "terminal now st rc True m s = (m', s')" "st \<in> {FAILED, EXPIRED}" for st rc
    using terminal_local_step [OF that(1) ok(1) settle_held [OF held]] that(2) by auto
  show ?thesis
  proof (cases "attempts_started m \<ge> max_attempts m \<or> now + delay \<ge> queue_deadline_at m")
    case True
    with eq settle show ?thesis by (auto simp: finish_retryable_def split: if_splits)
  next
    case False
    let ?st = "if delay > 0 then DELAYED else QUEUED"
    from eq False have "s' = s"
      and "m' = m\<lparr>state := ?st, not_before := now + delay, reason_code := reason, owner_token := None,
        revision := revision m + 1, deadline_at := queue_deadline_at m,
        payload_expires_at := (if user_id m > 0 then min (queue_deadline_at m) (submitted_at m + 900) else queue_deadline_at m)\<rparr>"
      by (auto simp: finish_retryable_def)
    moreover have "lifecycle (state m) ?st" "?st \<in> {QUEUED, DELAYED}"
      using run by (simp_all add: lifecycle.give_back lifecycle.postpone)
    ultimately show ?thesis using requeue_local_step [OF ok] by blast
  qed
qed

lemma finish_transition_step:
  assumes ok: "job_ok m" "payload_fit s m" and held: "held_state (state m)"
    and eq: "finish_transition now delay r m s = (m', s')"
  shows "local_step s m s' m'"
proof -
  have settle: "local_step s m s' m'" if "terminal now st reason False m s = (m', s')" "\<not> active_state st" for st reason
    using terminal_local_step [OF that(1) ok(1) settle_held [OF held that(2)] that(2)] by simp
  show ?thesis
  proof (cases "outcome r = RETRYABLE_FAILURE \<and> state m \<noteq> CANCEL_REQUESTED")
    case True
    with held have "state m = RUNNING" by (auto simp: held_state_def)
    with True eq ok show ?thesis
      by (intro finish_retryable_step) (auto simp: finish_transition_def)
  next
    case False
    with eq settle show ?thesis
      by (cases "outcome r") (auto simp: finish_transition_def outcome_state_def split: if_splits)
  qed
qed

lemma finish_owned_quiet:
  assumes ok: "jobs_ok s"
  shows "quiet_step s (fst (finish_owned now tid owner rv r delay s))"
proof -
  let ?s = "sweep now s"
  have q: "quiet_step s ?s" and ok': "jobs_ok ?s" using ok by (auto simp: sweep_ok quiet_sweep)
  obtain x where o: "owned now tid owner rv s = (?s, x)" by (simp add: owned_def Let_def)
  show ?thesis
  proof (cases "\<exists>m clean. x = Inr m \<and> public_summary (summary_of r) = Inr clean")
    case False
    with o q show ?thesis by (cases x; cases "public_summary (summary_of r)") (auto simp: finish_owned_def)
  next
    case True
    then obtain m clean where x: "x = Inr m" and c: "public_summary (summary_of r) = Inr clean" by auto
    let ?m = "m\<lparr>result_summary := summary_merge (result_summary m) clean\<rparr>"
    from owned_spec [OF o] x have m: "dict_get (jobs ?s) tid = Some m" and held: "held_state (state m)" by auto
    obtain m1 s1 where t: "finish_transition now delay r ?m ?s = (m1, s1)" by fastforce
    have a: "local_step ?s m ?s ?m" using jobs_ok_fit(1,2) [OF ok' m] by (intro local_step_tags local_step_refl)
    then have "local_step ?s ?m s1 m1" using held t
      by (intro finish_transition_step) (auto simp: local_step_def)
    with a have "local_step ?s m s1 (m1\<lparr>finish_token := Some owner\<rparr>)"
      by (blast intro: local_step_tags local_step_trans)
    from quiet_put [OF ok' m this] q have "quiet_step s (put_job (m1\<lparr>finish_token := Some owner\<rparr>) s1)"
      by (blast intro: quiet_trans)
    with o x c t show ?thesis by (simp add: finish_owned_def Let_def)
  qed
qed

lemma finish_quiet:
  assumes "jobs_ok s"
  shows "quiet_step s (fst (finish now tid owner rv r delay s))"
proof -
  have q: "quiet_step s (sweep now s)" and "jobs_ok (sweep now s)" using assms by (auto simp: sweep_ok quiet_sweep)
  from q finish_owned_quiet [OF this(2)] have "quiet_step s (fst (finish_owned now tid owner rv r delay (sweep now s)))"
    by (blast intro: quiet_trans)
  with q show ?thesis by (auto simp: finish_def Let_def split: option.splits)
qed

lemma update_progress_quiet:
  assumes ok: "jobs_ok s"
  shows "quiet_step s (fst (update_progress now tid owner rv sm s))"
proof -
  let ?s = "sweep now s"
  have q: "quiet_step s ?s" and ok': "jobs_ok ?s" using ok by (auto simp: sweep_ok quiet_sweep)
  obtain x where o: "owned now tid owner rv s = (?s, x)" by (simp add: owned_def Let_def)
  show ?thesis
  proof (cases "\<exists>m clean. x = Inr m \<and> state m = RUNNING \<and> public_summary sm = Inr clean")
    case False
    with o q show ?thesis
      by (cases x; cases "public_summary sm") (auto simp: update_progress_def)
  next
    case True
    then obtain m clean where x: "x = Inr m" "state m = RUNNING" and c: "public_summary sm = Inr clean" by auto
    from owned_spec [OF o] x have m: "dict_get (jobs ?s) tid = Some m" by auto
    have "local_step ?s m ?s (m\<lparr>result_summary := summary_merge (result_summary m) clean\<rparr>)"
      using jobs_ok_fit(1,2) [OF ok' m] by (intro local_step_tags local_step_refl)
    from quiet_put [OF ok' m this] q
    have "quiet_step s (put_job (m\<lparr>result_summary := summary_merge (result_summary m) clean\<rparr>) ?s)"
      by (blast intro: quiet_trans)
    with o x c show ?thesis by (simp add: update_progress_def Let_def)
  qed
qed

lemma cancel_transition_step:
  assumes ok: "job_ok m" "payload_fit s m" and eq: "cancel_transition now m s = (m', s')"
  shows "local_step s m s' m'"
proof -
  consider (held) "held_state (state m)" | (waiting) "state m \<in> {QUEUED, DELAYED}" | (over) "\<not> active_state (state m)"
    by (auto simp: held_state_def active_state_def)
  then show ?thesis
  proof cases
    case held
    have "lifecycle\<^sup>*\<^sup>* RUNNING CANCEL_REQUESTED" by (rule r_into_rtranclp) (rule lifecycle.cancel_request)
    with held have "lifecycle\<^sup>*\<^sup>* (state m) CANCEL_REQUESTED" by (auto simp: held_state_def)
    note star = this
    from held eq have [simp]: "s' = s" and m': "m' = m\<lparr>state := CANCEL_REQUESTED, revision := revision m + 1,
        reason_code := Some ''cancel_requested''\<rparr>"
      by (simp_all add: cancel_transition_def)
    have act: "active_state (state m)" using held by (rule held_active)
    have "evolves m m'" using held star by (simp add: m' evolves_def same_core_def)
    moreover have "job_ok m'" using held act ok(1) by (simp add: m' job_ok_def)
    moreover have "payload_fit s m'" using act ok(1,2) by (simp add: m' payload_fit_def job_ok_def)
    ultimately show ?thesis by (simp add: local_step_def)
  next
    case waiting
    then have "terminal now CANCELLED (Some ''cancel_requested'') False m s = (m', s')"
      using eq by (auto simp: cancel_transition_def)
    from terminal_local_step [OF this ok(1) settle_waiting [OF waiting]] show ?thesis by simp
  next
    case over
    then have "\<not> held_state (state m)" by (auto dest: held_active)
    with over eq ok show ?thesis by (simp add: cancel_transition_def local_step_refl)
  qed
qed

lemma request_cancel_quiet:
  assumes ok: "jobs_ok s"
  shows "quiet_step s (fst (request_cancel env now tid rv actor op_id s))"
proof -
  let ?s = "sweep now s" and ?key = "command_key env actor op_id" and ?body = "CmdCancel tid rv"
  have q: "quiet_step s ?s" and ok': "jobs_ok ?s" using ok by (auto simp: sweep_ok quiet_sweep)
  show ?thesis
  proof (cases "command_previous ?key ?body ?s = Inr None \<and> (\<exists>m. dict_get (jobs ?s) tid = Some m \<and> revision m = rv)")
    case False
    with q show ?thesis
      by (auto simp: request_cancel_def Let_def split: sum.splits option.splits)
  next
    case True
    then obtain m where m: "dict_get (jobs ?s) tid = Some m" "revision m = rv" by auto
    obtain m1 s1 where c: "cancel_transition now m ?s = (m1, s1)" by fastforce
    from jobs_ok_fit(1,2) [OF ok' m(1)] c have "local_step ?s m s1 m1" by (rule cancel_transition_step)
    from quiet_put [OF ok' m(1) this] q
    have "quiet_step s (put_operation ?key ?body tid now (put_job m1 s1))"
      by (blast intro: quiet_put_operation quiet_trans)
    with True m c show ?thesis by (simp add: request_cancel_def Let_def)
  qed
qed

lemma jobs_ok_identities: "jobs_ok s \<Longrightarrow> dict_ok ids \<Longrightarrow> jobs_ok (s\<lparr>identities := ids\<rparr>)"
  by (simp add: jobs_ok_def)

lemma jobs_ok_conflicts [simp]: "jobs_ok (s\<lparr>conflicts := cs\<rparr>) = jobs_ok s"
  by (simp add: jobs_ok_def)

lemma dict_ok_pops: "dict_ok d \<Longrightarrow> dict_ok (foldl dict_pop d ks)"
  by (induction ks arbitrary: d) auto

lemma erase_job_quiet:
  assumes ok: "jobs_ok s"
  shows "quiet_step s (erase_job s tid)"
proof (cases "dict_get (jobs s) tid")
  case None
  with ok show ?thesis by (simp add: erase_job_def quiet_refl)
next
  case (Some m)
  let ?s = "s\<lparr>payloads := dict_pop (payloads s) tid, jobs := dict_pop (jobs s) tid\<rparr>"
  have tid: "task_id m = tid" using jobs_okD(1) [OF ok Some] .
  have e: "evolved s ?s" and o: "jobs_ok ?s" using remove_job [OF ok] by auto
  let ?t = "?s\<lparr>identities := foldl dict_pop (identities s) (identity_aliases m),
      conflicts := foldl (release_conflict (m\<lparr>retry_payload_available := False, retry_eligible := False\<rparr>))
        (conflicts s) (conflict_keys m)\<rparr>"
  have "erase_job s tid = ?t"
    using Some tid by (simp add: erase_job_def drop_payload_def release_conflicts_def)
  moreover have "jobs_ok ?t"
    unfolding jobs_ok_conflicts using o jobs_ok_dicts [OF ok] by (intro jobs_ok_identities) (auto simp: dict_ok_pops)
  moreover have "evolved s ?t" using e by (simp only: evolved_frame)
  ultimately show ?thesis by (simp only: quiet_step_def)
qed

lemma erase_jobs_quiet: "jobs_ok s \<Longrightarrow> quiet_step s (foldl erase_job s ids)"
proof (induction ids arbitrary: s)
  case (Cons t ids)
  from erase_job_quiet [OF Cons.prems] have "quiet_step s (erase_job s t)" .
  moreover from this Cons.IH have "quiet_step (erase_job s t) (foldl erase_job (erase_job s t) ids)"
    by (simp add: quiet_step_def)
  ultimately show ?case by (auto intro: quiet_trans)
qed (simp add: quiet_refl)

lemma erase_user_quiet:
  assumes "jobs_ok s"
  shows "quiet_step s (erase_user uid s)"
proof -
  have q: "quiet_step s (foldl erase_job s (user_tasks uid s))" using assms by (rule erase_jobs_quiet)
  then have "dict_ok (operations (foldl erase_job s (user_tasks uid s)))"
    by (simp add: quiet_step_def jobs_ok_dicts)
  with q show ?thesis unfolding erase_user_def Let_def by (intro quiet_operations) simp_all
qed

section \<open>Claims\<close>

lemma start_run_core: "same_core m (start_run now owner m)"
  by (simp add: start_run_def same_core_def Let_def)

lemma start_run_fields [simp]:
  "state (start_run now owner m) = RUNNING" "owner_token (start_run now owner m) = Some owner"
  "attempts_started (start_run now owner m) = attempts_started m + 1"
  "revision (start_run now owner m) = revision m + 1" "task_id (start_run now owner m) = task_id m"
  "lane (start_run now owner m) = lane m" "image_work (start_run now owner m) = image_work m"
  "heartbeat_at (start_run now owner m) = Some now" "retry_eligible (start_run now owner m) = retry_eligible m"
  "max_attempts (start_run now owner m) = max_attempts m" "finish_token (start_run now owner m) = None"
  "metadata_expires_at (start_run now owner m) = metadata_expires_at m"
  "finished_at (start_run now owner m) = finished_at m" "payload_bytes (start_run now owner m) = payload_bytes m"
  by (simp_all add: start_run_def Let_def)

definition claimable :: "store \<Rightarrow> bool \<Rightarrow> job \<Rightarrow> bool" where
  "claimable s busy m \<longleftrightarrow>
    state m = QUEUED \<and> attempts_started m < max_attempts m \<and> \<not> (image_work m \<and> busy) \<and>
    dict_has (payloads s) (task_id m)"

lemma start_run_frame:
  assumes "job_ok m" and "payload_fit s m" and "claimable s busy m"
  shows "frame_step s m s (start_run now owner m)"
proof -
  have "job_ok (start_run now owner m)" using assms(1,3) by (simp add: job_ok_def claimable_def)
  moreover have "payload_fit s (start_run now owner m)" using assms(2) by (simp add: payload_fit_def)
  ultimately show ?thesis by (simp add: frame_step_def start_run_core)
qed

lemma terminal_other_jobs:
  assumes "terminal now st reason safe m s = (m1, s1)" and "t \<noteq> task_id m"
  shows "dict_get (jobs (put_job m1 s1)) t = dict_get (jobs s) t"
    and "dict_get (payloads (put_job m1 s1)) t = dict_get (payloads s) t"
  using terminal_frame(1,5) [OF assms(1)] terminal_job(1) [OF assms(1)] assms(2)
  by (auto simp: put_job_def same_core_def)

definition waiting_jobs :: "store \<Rightarrow> job list \<Rightarrow> bool" where
  "waiting_jobs s ms \<longleftrightarrow> distinct (map task_id ms) \<and>
    (\<forall>m \<in> set ms. dict_get (jobs s) (task_id m) = Some m \<and> state m = QUEUED)"

text \<open>The loop settles the records it cannot run, then starts the first claimable one: \<open>s'\<close> is the
  store before that start.\<close>

definition claim_outcome :: "secs \<Rightarrow> string \<Rightarrow> bool \<Rightarrow> job list \<Rightarrow> store \<Rightarrow> store \<Rightarrow> store \<Rightarrow> job_claim option \<Rightarrow> bool" where
  "claim_outcome now owner busy ms s s' s1 r \<longleftrightarrow>
    quiet_step s s' \<and>
    (case r of
       None \<Rightarrow> s1 = s' \<and> (\<forall>m \<in> set ms. \<not> claimable s busy m)
     | Some c \<Rightarrow> \<exists>pre m post. ms = pre @ m # post \<and> (\<forall>x \<in> set pre. \<not> claimable s busy x) \<and>
         claimable s busy m \<and> claimable s' busy m \<and> dict_get (jobs s') (task_id m) = Some m \<and>
         s1 = put_job (start_run now owner m) s' \<and> c = mk_claim owner (start_run now owner m))"

lemma claim_outcome_start:
  assumes "claim_outcome now owner busy ms s s' s1 (Some c)"
  obtains pre m post where "ms = pre @ m # post" "\<forall>x \<in> set pre. \<not> claimable s busy x" "claimable s busy m"
    "claimable s' busy m" "dict_get (jobs s') (task_id m) = Some m"
    "s1 = put_job (start_run now owner m) s'" "c = mk_claim owner (start_run now owner m)"
  using assms by (simp add: claim_outcome_def) blast

lemma claim_outcome_skip:
  assumes q: "quiet_step s s2" and rest: "claim_outcome now owner busy ms s2 s' s1 r"
    and no: "\<not> claimable s busy m" and same: "\<And>x. x \<in> set ms \<Longrightarrow> claimable s2 busy x = claimable s busy x"
  shows "claim_outcome now owner busy (m # ms) s s' s1 r"
proof (cases r)
  case None
  with rest no same show ?thesis by (auto simp: claim_outcome_def intro: quiet_trans [OF q])
next
  case (Some c)
  from rest [unfolded Some] obtain pre x post where *: "ms = pre @ x # post"
    "\<forall>y \<in> set pre. \<not> claimable s2 busy y" "claimable s2 busy x"
    "claimable s' busy x" "dict_get (jobs s') (task_id x) = Some x"
    "s1 = put_job (start_run now owner x) s'" "c = mk_claim owner (start_run now owner x)"
    by (rule claim_outcome_start)
  then have "m # ms = (m # pre) @ x # post" "\<forall>y \<in> set (m # pre). \<not> claimable s busy y" "claimable s busy x"
    using no same by auto
  moreover have "quiet_step s s'" using rest by (auto simp: claim_outcome_def intro: quiet_trans [OF q])
  ultimately show ?thesis unfolding claim_outcome_def Some option.case using *(4-) by blast
qed

lemma claim_settle_outcome:
  assumes ok: "jobs_ok s" and w: "waiting_jobs s (m # ms)"
    and t: "terminal now st reason safe m s = (m1, s2)" and lc: "st \<in> {FAILED, EXPIRED}"
    and no: "\<not> claimable s busy m"
    and rest: "jobs_ok (put_job m1 s2) \<Longrightarrow> waiting_jobs (put_job m1 s2) ms \<Longrightarrow>
      \<exists>s'. claim_outcome now owner busy ms (put_job m1 s2) s' s1 r"
  shows "\<exists>s'. claim_outcome now owner busy (m # ms) s s' s1 r"
proof -
  have m: "dict_get (jobs s) (task_id m) = Some m" "state m = QUEUED" and w': "waiting_jobs s ms"
    using w by (auto simp: waiting_jobs_def)
  from w have "task_id m \<notin> task_id ` set ms" by (simp add: waiting_jobs_def)
  then have fresh: "task_id x \<noteq> task_id m" if "x \<in> set ms" for x
    using that by (metis imageI)
  have "lifecycle (state m) st" using m lc by (auto intro: settle_waiting)
  moreover have "\<not> active_state st" using lc by auto
  ultimately have "local_step s m s2 m1"
    using terminal_local_step [OF t jobs_ok_fit(1) [OF ok m(1)]] lc by blast
  from quiet_put [OF ok m(1) this] have q: "quiet_step s (put_job m1 s2)" .
  have same: "dict_get (jobs (put_job m1 s2)) (task_id x) = dict_get (jobs s) (task_id x)"
    "dict_get (payloads (put_job m1 s2)) (task_id x) = dict_get (payloads s) (task_id x)" if "x \<in> set ms" for x
    using terminal_other_jobs [OF t fresh [OF that]] by auto
  have "waiting_jobs (put_job m1 s2) ms" using w' same by (auto simp: waiting_jobs_def)
  with rest q obtain s' where "claim_outcome now owner busy ms (put_job m1 s2) s' s1 r"
    by (auto simp: quiet_step_def)
  from claim_outcome_skip [OF q this no] same(2) show ?thesis by (auto simp: claimable_def dict_has_def)
qed

lemma claim_loop_spec:
  assumes "jobs_ok s" and "waiting_jobs s ms" and "claim_loop now owner busy ms s = (s1, r)"
  shows "\<exists>s'. claim_outcome now owner busy ms s s' s1 r"
  using assms
proof (induction ms arbitrary: s)
  case Nil
  then show ?case by (auto simp: claim_outcome_def intro: quiet_refl)
next
  case (Cons m ms)
  note ok = Cons.prems(1) and w = Cons.prems(2) and eq = Cons.prems(3)
  have m: "dict_get (jobs s) (task_id m) = Some m" "state m = QUEUED" and w': "waiting_jobs s ms"
    using w by (auto simp: waiting_jobs_def)
  consider (tired) "attempts_started m \<ge> max_attempts m"
    | (image) "attempts_started m < max_attempts m" "image_work m \<and> busy"
    | (gone) "attempts_started m < max_attempts m" "\<not> (image_work m \<and> busy)" "\<not> dict_has (payloads s) (task_id m)"
    | (run) "claimable s busy m"
    using m(2) le_less_linear [of "max_attempts m" "attempts_started m"] unfolding claimable_def by blast
  then show ?case
  proof cases
    case tired
    obtain m1 s2 where t: "terminal now FAILED (Some ''attempts_exhausted'') True m s = (m1, s2)" by fastforce
    with tired eq have "claim_loop now owner busy ms (put_job m1 s2) = (s1, r)" by simp
    then show ?thesis using claim_settle_outcome [OF ok w t] Cons.IH tired by (simp add: claimable_def)
  next
    case gone
    obtain m1 s2 where t: "terminal now EXPIRED (Some ''payload_expired'') False m s = (m1, s2)" by fastforce
    with gone eq have "claim_loop now owner busy ms (put_job m1 s2) = (s1, r)" by auto
    then show ?thesis using claim_settle_outcome [OF ok w t] Cons.IH gone by (simp add: claimable_def)
  next
    case image
    with eq have "claim_loop now owner busy ms s = (s1, r)" by auto
    from Cons.IH [OF ok w' this] obtain s' where "claim_outcome now owner busy ms s s' s1 r" by blast
    from claim_outcome_skip [OF quiet_refl [OF ok] this] image show ?thesis by (auto simp: claimable_def)
  next
    case run
    with eq have "s1 = put_job (start_run now owner m) s" "r = Some (mk_claim owner (start_run now owner m))"
      by (auto simp: claimable_def)
    then have "claim_outcome now owner busy (m # ms) s s s1 r"
      using run m quiet_refl [OF ok] by (auto simp: claim_outcome_def intro!: exI [of _ "[]"])
    then show ?thesis by blast
  qed
qed

end
