(* ===== verification/Queue_Bounds.thy ===== *)
theory Queue_Bounds
  imports Queue_Invariants
begin

text \<open>
  The capacity invariant of the local queue store: workers per lane, the single image slot, jobs and
  payload bytes per lane. \<open>store_inv\<close> joins it to the record invariant, \<open>queue_step\<close> runs one
  method call, and the interpretation of \<open>invariant_run\<close> gives both for every sequence of calls.
\<close>

section \<open>Capacity\<close>

definition capacity_ok :: "store \<Rightarrow> bool" where
  "capacity_ok s \<longleftrightarrow>
    (\<forall>nm w. dict_get LANE_WORKERS nm = Some w \<longrightarrow> lane_held s nm \<le> w) \<and>
    length (filter image_work (held_jobs s)) \<le> 1 \<and>
    (\<forall>nm p. dict_get LANE_POLICIES nm = Some p \<longrightarrow>
      int (length (lane_active s nm)) \<le> max_jobs p \<and> lane_payload_bytes s nm \<le> max_total_payload_bytes p)"

definition store_inv :: "store \<Rightarrow> bool" where
  "store_inv s \<longleftrightarrow> jobs_ok s \<and> lanes_ok (lanes s) \<and> capacity_ok s"

lemma capacity_laneD:
  assumes "capacity_ok s" and "dict_get LANE_POLICIES nm = Some p"
  shows "int (length (lane_active s nm)) \<le> max_jobs p \<and> lane_payload_bytes s nm \<le> max_total_payload_bytes p"
proof -
  from assms(1) have "\<forall>nm p. dict_get LANE_POLICIES nm = Some p \<longrightarrow>
      int (length (lane_active s nm)) \<le> max_jobs p \<and> lane_payload_bytes s nm \<le> max_total_payload_bytes p"
    unfolding capacity_ok_def by (elim conjE)
  from this [rule_format, OF assms(2)] show ?thesis .
qed

lemma capacity_workersD: "capacity_ok s \<Longrightarrow> dict_get LANE_WORKERS nm = Some w \<Longrightarrow> lane_held s nm \<le> w"
  by (simp add: capacity_ok_def)

lemma lane_held_sum: "lane_held s nm = dict_sum (\<lambda>m. of_bool (lane m = nm \<and> held_state (state m))) (jobs s)"
  by (simp add: lane_held_def held_jobs_def length_filter_dict_sum conj_commute)

lemma image_held_sum:
  "int (length (filter image_work (held_jobs s))) = dict_sum (\<lambda>m. of_bool (image_work m \<and> held_state (state m))) (jobs s)"
  by (simp add: held_jobs_def length_filter_dict_sum conj_commute)

lemma lane_active_sum:
  "int (length (lane_active s nm)) = dict_sum (\<lambda>m. of_bool (lane m = nm \<and> active_state (state m))) (jobs s)"
  by (simp add: lane_active_def length_filter_dict_sum)

lemma lane_bytes_sum:
  "lane_payload_bytes s nm =
    dict_sum (\<lambda>m. if lane m = nm \<and> dict_has (payloads s) (task_id m) then payload_bytes m else 0) (jobs s)"
  by (simp add: lane_payload_bytes_def sum_filter_dict_sum)

lemmas capacity_sums = lane_held_sum image_held_sum lane_active_sum lane_bytes_sum

lemma job_ok_bytes: "jobs_ok s \<Longrightarrow> dict_get (jobs s) tid = Some m \<Longrightarrow> 0 \<le> payload_bytes m"
  using jobs_okD(2) [of s tid m] by (simp add: job_ok_def)

text \<open>An evolution frees capacity, never takes it.\<close>

lemma evolved_capacity:
  assumes ok: "jobs_ok s" "jobs_ok s'" and ev: "evolved s s'"
  shows "lane_held s' nm \<le> lane_held s nm"
    and "length (filter image_work (held_jobs s')) \<le> length (filter image_work (held_jobs s))"
    and "length (lane_active s' nm) \<le> length (lane_active s nm)"
    and "lane_payload_bytes s' nm \<le> lane_payload_bytes s nm"
proof -
  have d: "dict_ok (jobs s)" "dict_ok (jobs s')" using ok by (simp_all add: jobs_ok_dicts)
  have mono: "dict_sum w' (jobs s') \<le> dict_sum w (jobs s)"
    if "\<And>m m'. dict_get (jobs s) (task_id m) = Some m \<Longrightarrow> evolves m m' \<Longrightarrow> w' m' \<le> w m"
      "\<And>tid m. dict_get (jobs s) tid = Some m \<Longrightarrow> 0 \<le> w m" for w w'
    using d
  proof (rule dict_sum_le)
    fix tid m' assume "dict_get (jobs s') tid = Some m'"
    with ev obtain m where m: "dict_get (jobs s) tid = Some m" "evolves m m'" by (rule evolvedE)
    with that(1) jobs_ok_fit(3) [OF ok(1) m(1)]
    show "\<exists>m. dict_get (jobs s) tid = Some m \<and> w' m' \<le> w m" by blast
  qed (rule that(2))
  show "lane_held s' nm \<le> lane_held s nm" unfolding lane_held_sum
    by (rule mono) (auto simp: evolves_def same_core_def)
  have "int (length (filter image_work (held_jobs s'))) \<le> int (length (filter image_work (held_jobs s)))"
    unfolding image_held_sum by (rule mono) (auto simp: evolves_def same_core_def)
  then show "length (filter image_work (held_jobs s')) \<le> length (filter image_work (held_jobs s))" by simp
  have "int (length (lane_active s' nm)) \<le> int (length (lane_active s nm))"
    unfolding lane_active_sum by (rule mono) (auto simp: evolves_active, simp add: evolves_def same_core_def)
  then show "length (lane_active s' nm) \<le> length (lane_active s nm)" by simp
  have sub: "dict_has (payloads s') t \<Longrightarrow> dict_has (payloads s) t" for t
    using ev by (auto simp: evolved_def dict_has_def)
  show "lane_payload_bytes s' nm \<le> lane_payload_bytes s nm" unfolding lane_bytes_sum
    by (rule mono) (auto simp: evolves_def same_core_def job_ok_bytes [OF ok(1)] dest: sub)
qed

lemma quiet_capacity: "jobs_ok s \<Longrightarrow> quiet_step s s' \<Longrightarrow> capacity_ok s \<Longrightarrow> capacity_ok s'"
  unfolding quiet_step_def capacity_ok_def
  using evolved_capacity [of s s'] by (meson le_trans of_nat_le_iff order_trans)

lemma quiet_inv: "store_inv s \<Longrightarrow> quiet_step s s' \<Longrightarrow> store_inv s'"
  using quiet_capacity [of s s'] by (simp add: store_inv_def quiet_step_def evolved_def)

section \<open>Claims\<close>

lemma waiting_lane_queued:
  assumes "jobs_ok s"
  shows "waiting_jobs s (claim_order (lane_queued s nm))"
proof -
  have ok: "dict_ok (jobs s)" using assms by (simp add: jobs_ok_dicts)
  have *: "map task_id (dict_values (jobs s)) = dict_keys (jobs s)"
  proof -
    have "task_id (snd p) = fst p" if "p \<in> set (jobs s)" for p
      using jobs_okD(1) [OF assms, of "fst p" "snd p"] that ok by (simp add: dict_ok_in_iff [symmetric])
    then show ?thesis by (simp add: dict_keys_def dict_values_def)
  qed
  then have "distinct (map task_id (dict_values (jobs s)))" using ok by (simp add: dict_ok_def)
  then have "distinct (map task_id (lane_queued s nm))" by (simp add: lane_queued_def distinct_map_filter)
  then have "distinct (map task_id (claim_order (lane_queued s nm)))"
    by (simp add: claim_order_def distinct_map)
  moreover have "dict_get (jobs s) (task_id m) = Some m \<and> state m = QUEUED"
    if "m \<in> set (claim_order (lane_queued s nm))" for m
  proof -
    from that have m: "m \<in> set (dict_values (jobs s))" "state m = QUEUED"
      by (auto simp: claim_order_def lane_queued_def)
    then obtain tid where "dict_get (jobs s) tid = Some m" using ok by (auto simp: dict_ok_values)
    with jobs_ok_fit(3) [OF assms this] m show ?thesis by simp
  qed
  ultimately show ?thesis by (simp add: waiting_jobs_def)
qed

text \<open>What one call of \<open>claim\<close> does, in one statement.\<close>

lemma claim_cases:
  assumes ok: "jobs_ok s" and eq: "claim now nm owner s = (s1, r)"
  shows "(\<exists>s'. quiet_step s s' \<and> s1 = s' \<and> (\<forall>c. r \<noteq> Inr (Some c))) \<or>
    (\<exists>w s' c. dict_get LANE_WORKERS nm = Some w \<and> lane_held (sweep now s) nm < w \<and> r = Inr (Some c) \<and>
      claim_outcome now owner (\<exists>m \<in> set (held_jobs (sweep now s)). image_work m)
        (claim_order (lane_queued (sweep now s) nm)) (sweep now s) s' s1 (Some c))"
proof -
  let ?s = "sweep now s" and ?busy = "\<exists>m \<in> set (held_jobs (sweep now s)). image_work m"
  have q: "quiet_step s ?s" and ok': "jobs_ok ?s" using ok by (auto simp: quiet_sweep sweep_ok)
  obtain s2 c where l: "claim_loop now owner ?busy (claim_order (lane_queued ?s nm)) ?s = (s2, c)" by fastforce
  from claim_loop_spec [OF ok' waiting_lane_queued [OF ok'] l] obtain s' where
    o: "claim_outcome now owner ?busy (claim_order (lane_queued ?s nm)) ?s s' s2 c" ..
  from eq consider "s1 = ?s" "\<forall>c. r \<noteq> Inr (Some c)"
    | w where "dict_get LANE_WORKERS nm = Some w" "lane_held ?s nm < w" "s1 = s2" "r = Inr c"
    using l by (auto simp: claim_def Let_def not_le split: option.splits if_splits)
  then show ?thesis
  proof cases
    case 1
    with q show ?thesis by blast
  next
    case (2 w)
    show ?thesis
    proof (cases c)
      case None
      with o 2 have "s1 = s'" "quiet_step ?s s'" by (simp_all add: claim_outcome_def)
      with q 2 None show ?thesis by (auto intro: quiet_trans)
    next
      case (Some k)
      with 2 o show ?thesis by blast
    qed
  qed
qed

lemma start_capacity:
  assumes ok: "jobs_ok s" and m: "dict_get (jobs s) (task_id m) = Some m" and st: "state m = QUEUED"
    and cap: "capacity_ok s" and room: "dict_get LANE_WORKERS (lane m) = Some w" "lane_held s (lane m) < w"
    and img: "image_work m \<Longrightarrow> filter image_work (held_jobs s) = []"
  shows "capacity_ok (put_job (start_run now owner m) s)"
proof -
  let ?t = "put_job (start_run now owner m) s"
  have js: "jobs ?t = dict_set (jobs s) (task_id m) (start_run now owner m)" and ps: "payloads ?t = payloads s"
    by (simp_all add: put_job_def)
  have "lane_held ?t nm = lane_held s nm + of_bool (lane m = nm)" for nm
    unfolding lane_held_sum js using dict_sum_set_present [OF m] st by simp
  moreover have im: "int (length (filter image_work (held_jobs ?t))) =
      int (length (filter image_work (held_jobs s))) + of_bool (image_work m)"
    unfolding image_held_sum js using dict_sum_set_present [OF m] st by simp
  moreover have "int (length (lane_active ?t nm)) = int (length (lane_active s nm))" for nm
    unfolding lane_active_sum js using dict_sum_set_present [OF m] st by simp
  moreover have "lane_payload_bytes ?t nm = lane_payload_bytes s nm" for nm
    unfolding lane_bytes_sum js ps using dict_sum_set_present [OF m] by simp
  moreover from im have "length (filter image_work (held_jobs ?t)) \<le> 1"
    using img cap by (cases "image_work m") (auto simp: capacity_ok_def)
  ultimately show ?thesis using cap room by (auto simp: capacity_ok_def)
qed

lemma claim_inv:
  assumes inv: "store_inv s"
  shows "store_inv (fst (claim now nm owner s))"
proof -
  have ok: "jobs_ok s" using inv by (simp add: store_inv_def)
  obtain s1 r where eq: "claim now nm owner s = (s1, r)" by fastforce
  from claim_cases [OF ok eq] show ?thesis
  proof (elim disjE exE conjE)
    fix s' assume "quiet_step s s'" "s1 = s'"
    with eq inv show ?thesis by (auto intro: quiet_inv)
  next
    fix w s' c
    let ?s = "sweep now s" and ?busy = "\<exists>m \<in> set (held_jobs (sweep now s)). image_work m"
    assume w: "dict_get LANE_WORKERS nm = Some w" "lane_held ?s nm < w"
      and o: "claim_outcome now owner ?busy (claim_order (lane_queued ?s nm)) ?s s' s1 (Some c)"
    from o obtain pre m post where ms: "claim_order (lane_queued ?s nm) = pre @ m # post"
      and cl: "claimable s' ?busy m" and m: "dict_get (jobs s') (task_id m) = Some m"
      and s1: "s1 = put_job (start_run now owner m) s'"
      by (rule claim_outcome_start)
    have q: "quiet_step ?s s'" using o by (simp add: claim_outcome_def)
    have inv0: "store_inv ?s" using inv quiet_sweep [OF ok] by (rule quiet_inv)
    then have inv': "store_inv s'" using q by (rule quiet_inv)
    then have ok': "jobs_ok s'" by (simp add: store_inv_def)
    have ev: "lane_held s' nm \<le> lane_held ?s nm"
      "length (filter image_work (held_jobs s')) \<le> length (filter image_work (held_jobs ?s))"
      using evolved_capacity [of ?s s'] inv0 q by (simp_all add: store_inv_def quiet_step_def)
    have "m \<in> set (claim_order (lane_queued ?s nm))" using ms by simp
    then have lm: "lane m = nm" by (simp add: claim_order_def lane_queued_def)
    have img: "filter image_work (held_jobs s') = []" if "image_work m"
    proof -
      from cl that have "filter image_work (held_jobs ?s) = []" by (auto simp: claimable_def filter_empty_conv)
      with ev(2) show ?thesis by simp
    qed
    have "capacity_ok s1" unfolding s1
      using ok' m _ _ _ _ img
    proof (rule start_capacity)
      show "state m = QUEUED" using cl by (simp add: claimable_def)
      show "capacity_ok s'" using inv' by (simp add: store_inv_def)
      show "dict_get LANE_WORKERS (lane m) = Some w" "lane_held s' (lane m) < w" using w ev lm by auto
    qed
    moreover have "jobs_ok s1" unfolding s1
      by (rule put_job_ok [OF ok' m start_run_frame [OF jobs_ok_fit(1,2) [OF ok' m] cl]])
    moreover have "lanes_ok (lanes s1)" using inv' by (simp add: s1 put_job_def store_inv_def)
    ultimately show ?thesis using eq by (simp add: store_inv_def)
  qed
qed

section \<open>Admission\<close>

lemma jobs_ok_lanes [simp]: "jobs_ok (s\<lparr>lanes := ls\<rparr>) = jobs_ok s"
  by (simp add: jobs_ok_def)

lemma capacity_lanes [simp]: "capacity_ok (s\<lparr>lanes := ls\<rparr>) = capacity_ok s"
  by (simp add: capacity_ok_def lane_held_def held_jobs_def lane_active_def lane_payload_bytes_def)

lemma lane_setdefault_quiet:
  assumes "jobs_ok s" and "policy_ok p" and "lane_setdefault nm p s = (l, s1)"
  shows "quiet_step s s1" and "lanes_ok (lanes s) \<Longrightarrow> policy_ok (lane_policy l)"
    and "jobs s1 = jobs s" "payloads s1 = payloads s"
  using assms by (auto simp: lane_setdefault_def lane_default_def quiet_step_def evolved_def lanes_ok_def split: option.splits if_splits)

lemma active_owner_spec:
  assumes "jobs_ok s" and "active_owner s nm uid key = Some m"
  shows "dict_get (jobs s) (task_id m) = Some m" "active_state (state m)"
  using assms jobs_ok_fit(3) [OF assms(1)] by (auto simp: active_owner_def split: option.splits if_splits)

lemma first_conflict_spec:
  assumes "jobs_ok s" and "first_conflict s nm uid keys = Some m"
  shows "dict_get (jobs s) (task_id m) = Some m" "active_state (state m)"
  using assms(2) by (induction keys) (auto dest: active_owner_spec [OF assms(1)] split: option.splits)

lemma join_conflict_quiet:
  assumes ok: "jobs_ok s" and m: "dict_get (jobs s) (task_id m) = Some m"
  shows "quiet_step s (fst (join_conflict env now e m s))"
proof (cases "length (identity_aliases m) \<ge> 256")
  case True
  with ok show ?thesis by (simp add: join_conflict_def quiet_refl)
next
  case False
  let ?m = "m\<lparr>identity_aliases := identity_aliases m @ [job_identity env e]\<rparr>"
  have "local_step s m s ?m" using jobs_ok_fit(1,2) [OF ok m] by (intro local_step_tags local_step_refl)
  from quiet_put [OF ok m this] have q: "quiet_step s (put_job ?m s)" .
  then have "dict_ok (identities (put_job ?m s))" by (simp add: quiet_step_def jobs_ok_dicts)
  with q False show ?thesis
    by (simp add: join_conflict_def Let_def quiet_step_def jobs_ok_identities)
qed

lemma new_record_fields [simp]:
  "task_id (new_record env now p sq e) = task_id e" "lane (new_record env now p sq e) = lane e"
  "state (new_record env now p sq e) = (if delay_seconds e > 0 then DELAYED else QUEUED)"
  "sequence (new_record env now p sq e) = sq" "payload_bytes (new_record env now p sq e) = int (length (payload e))"
  "retry_eligible (new_record env now p sq e) = False" "image_work (new_record env now p sq e) = image_work e"
  "attempts_started (new_record env now p sq e) = 0" "max_attempts (new_record env now p sq e) = max_attempts_allowed p"
  by (simp_all add: new_record_def)

lemma insert_record_fields [simp]:
  "jobs (insert_record env now p e s) = dict_set (jobs s) (task_id e) (new_record env now p (seq_no s + 1) e)"
  "payloads (insert_record env now p e s) = dict_set (payloads s) (task_id e) (payload e)"
  "seq_no (insert_record env now p e s) = seq_no s + 1" "lanes (insert_record env now p e s) = lanes s"
  "operations (insert_record env now p e s) = operations s"
  by (simp_all add: insert_record_def Let_def)

lemma insert_record_ok:
  assumes ok: "jobs_ok s" and p: "0 \<le> max_attempts_allowed p" "max_attempts_allowed p \<le> 3"
    and ln: "dict_get LANE_POLICIES (lane e) \<noteq> None"
  shows "jobs_ok (insert_record env now p e s)"
proof -
  let ?s = "insert_record env now p e s" and ?m = "new_record env now p (seq_no s + 1) e"
  have mok: "job_ok ?m" using p ln by (simp add: job_ok_def new_record_def)
  have "dict_ok (jobs ?s)" "dict_ok (payloads ?s)" "dict_ok (operations ?s)" "dict_ok (identities ?s)"
    using jobs_ok_dicts [OF ok] by (simp_all add: insert_record_def Let_def)
  moreover have "task_id x = t \<and> job_ok x \<and> sequence x \<le> seq_no ?s \<and> (retry_eligible x \<longrightarrow> dict_has (payloads ?s) t)"
    if "dict_get (jobs ?s) t = Some x" for t x
    using that mok jobs_okD [OF ok, of t x] by (cases "t = task_id e") (auto simp: dict_has_def)
  moreover have "\<exists>x. dict_get (jobs ?s) t = Some x \<and> payload_bytes x = int (length y) \<and>
      (active_state (state x) \<or> retry_eligible x)" if "dict_get (payloads ?s) t = Some y" for t y
    using that ok by (cases "t = task_id e") (auto simp: jobs_ok_def)
  moreover have "t = t'" if a: "dict_get (jobs ?s) t = Some x" "dict_get (jobs ?s) t' = Some x'"
    "sequence x = sequence x'" for t t' x x'
  proof -
    have old: "sequence y \<noteq> seq_no s + 1" if "dict_get (jobs s) u = Some y" for u y
      using jobs_okD(3) [OF ok that] by simp
    show ?thesis
    proof (cases "t = task_id e \<or> t' = task_id e")
      case True
      with a old [of t x] old [of t' x'] show ?thesis by (auto split: if_splits)
    next
      case False
      with a ok show ?thesis unfolding jobs_ok_def by auto
    qed
  qed
  ultimately show ?thesis unfolding jobs_ok_def by blast
qed

text \<open>What an insertion costs. \<open>credit\<close> is the payload a retry is about to release.\<close>

lemma insert_costs:
  assumes ok: "jobs_ok s"
  shows "lane_held (insert_record env now p e s) nm \<le> lane_held s nm"
    and "length (filter image_work (held_jobs (insert_record env now p e s))) \<le> length (filter image_work (held_jobs s))"
    and "length (lane_active (insert_record env now p e s) nm) \<le> length (lane_active s nm) + of_bool (lane e = nm)"
    and "lane_payload_bytes (insert_record env now p e s) nm \<le>
      lane_payload_bytes s nm + of_bool (lane e = nm) * int (length (payload e))"
proof -
  let ?s = "insert_record env now p e s" and ?m = "new_record env now p (seq_no s + 1) e"
  have d: "dict_ok (jobs s)" using ok by (simp add: jobs_ok_dicts)
  have pos: "0 \<le> (of_bool (P m) :: int)" for P :: "job \<Rightarrow> bool" and m by simp
  have st: "\<not> held_state (state ?m)" "active_state (state ?m)" by auto
  show "lane_held ?s nm \<le> lane_held s nm"
    unfolding lane_held_sum insert_record_fields using st by (intro order_trans [OF dict_sum_set_le]) simp_all
  have "int (length (filter image_work (held_jobs ?s))) \<le> int (length (filter image_work (held_jobs s)))"
    unfolding image_held_sum insert_record_fields using st by (intro order_trans [OF dict_sum_set_le]) simp_all
  then show "length (filter image_work (held_jobs ?s)) \<le> length (filter image_work (held_jobs s))" by simp
  have "int (length (lane_active ?s nm)) \<le> int (length (lane_active s nm)) + of_bool (lane e = nm)"
    unfolding lane_active_sum insert_record_fields using st by (intro order_trans [OF dict_sum_set_le]) simp_all
  then show "length (lane_active ?s nm) \<le> length (lane_active s nm) + of_bool (lane e = nm)"
    by (cases "lane e = nm") auto
  let ?w = "\<lambda>pl m. if lane m = nm \<and> dict_has pl (task_id m) then payload_bytes m else 0"
  have rest: "dict_sum (?w (payloads ?s)) (dict_pop (jobs s) (task_id e)) \<le> dict_sum (?w (payloads s)) (jobs s)"
    by (rule dict_sum_le) (use d in \<open>auto simp: dict_has_def job_ok_bytes [OF ok] jobs_okD(1) [OF ok] split: if_splits\<close>)
  have "dict_sum (?w (payloads ?s)) (jobs ?s) = dict_sum (?w (payloads ?s)) (dict_pop (jobs s) (task_id e)) + ?w (payloads ?s) ?m"
  proof (cases "dict_get (jobs s) (task_id e)")
    case None
    then have "dict_pop (jobs s) (task_id e) = jobs s"
      by (force simp: dict_pop_def filter_id_conv dict_get_None_iff dict_keys_def)
    with None show ?thesis by (simp add: dict_sum_set_new)
  next
    case (Some x)
    with d show ?thesis by (simp add: dict_sum_set_present dict_sum_pop)
  qed
  with rest show "lane_payload_bytes ?s nm \<le> lane_payload_bytes s nm + of_bool (lane e = nm) * int (length (payload e))"
    unfolding lane_bytes_sum by (simp add: dict_has_def split: if_splits)
qed

definition admit_bound :: "int \<Rightarrow> envelope \<Rightarrow> store \<Rightarrow> store \<Rightarrow> bool" where
  "admit_bound credit e s s' \<longleftrightarrow>
    (\<forall>nm w. dict_get LANE_WORKERS nm = Some w \<longrightarrow> lane_held s' nm \<le> w) \<and>
    length (filter image_work (held_jobs s')) \<le> 1 \<and>
    (\<forall>nm p. dict_get LANE_POLICIES nm = Some p \<longrightarrow>
      int (length (lane_active s' nm)) \<le> max_jobs p \<and>
      lane_payload_bytes s' nm \<le> max_total_payload_bytes p + of_bool (lane e = nm) * credit)"

lemma admit_boundD:
  assumes "admit_bound credit e s s'"
  shows "dict_get LANE_WORKERS nm = Some w \<Longrightarrow> lane_held s' nm \<le> w"
    and "length (filter image_work (held_jobs s')) \<le> 1"
    and "dict_get LANE_POLICIES nm = Some p \<Longrightarrow> int (length (lane_active s' nm)) \<le> max_jobs p \<and>
      lane_payload_bytes s' nm \<le> max_total_payload_bytes p + of_bool (lane e = nm) * credit"
  using assms unfolding admit_bound_def by simp_all

lemma capacity_okI:
  assumes "\<And>nm w. dict_get LANE_WORKERS nm = Some w \<Longrightarrow> lane_held s nm \<le> w"
    and "length (filter image_work (held_jobs s)) \<le> 1"
    and "\<And>nm p. dict_get LANE_POLICIES nm = Some p \<Longrightarrow> int (length (lane_active s nm)) \<le> max_jobs p"
    and "\<And>nm p. dict_get LANE_POLICIES nm = Some p \<Longrightarrow> lane_payload_bytes s nm \<le> max_total_payload_bytes p"
  shows "capacity_ok s"
  unfolding capacity_ok_def using assms by simp

lemma admit_bound_capacity:
  assumes "admit_bound credit e s t"
    and "\<And>nm. lane_held t' nm \<le> lane_held t nm"
    and "length (filter image_work (held_jobs t')) \<le> length (filter image_work (held_jobs t))"
    and "\<And>nm. length (lane_active t' nm) \<le> length (lane_active t nm)"
    and bytes: "\<And>nm p. dict_get LANE_POLICIES nm = Some p \<Longrightarrow> lane_payload_bytes t' nm \<le> max_total_payload_bytes p"
  shows "capacity_ok t'"
proof (rule capacity_okI [OF _ _ _ bytes])
  note b = admit_boundD [OF assms(1)]
  show "lane_held t' nm \<le> w" if "dict_get LANE_WORKERS nm = Some w" for nm w
    using assms(2) [of nm] b(1) [OF that] by simp
  show "length (filter image_work (held_jobs t')) \<le> 1" using assms(3) b(2) by simp
  show "int (length (lane_active t' nm)) \<le> max_jobs p" if "dict_get LANE_POLICIES nm = Some p" for nm p
    using assms(4) [of nm] b(3) [OF that] by simp
qed

lemma admit_bound_zero: "admit_bound 0 e s s' = capacity_ok s'"
  by (simp add: admit_bound_def capacity_ok_def)

lemma insert_bound:
  assumes ok: "jobs_ok s" and cap: "capacity_ok s" and none: "refuse_reason s l p credit e = None"
    and cp: "dict_get LANE_POLICIES (lane e) = Some lpol"
    and p: "max_jobs p \<le> max_jobs lpol" "max_total_payload_bytes p \<le> max_total_payload_bytes lpol"
  shows "admit_bound credit e s (insert_record env now p' e s)"
proof -
  let ?t = "insert_record env now p' e s"
  from none have room: "int (length (lane_active s (lane e))) < max_jobs p"
    "lane_payload_bytes s (lane e) + int (length (payload e)) - credit \<le> max_total_payload_bytes p"
    by (auto simp: refuse_reason_def split: if_splits)
  note c = insert_costs [OF ok, of env now p' e]
  have "lane_held ?t nm \<le> w" if "dict_get LANE_WORKERS nm = Some w" for nm w
    using cap that c(1) [of nm] by (auto simp: capacity_ok_def intro: order_trans)
  moreover have "length (filter image_work (held_jobs ?t)) \<le> 1"
    using cap c(2) by (simp add: capacity_ok_def)
  moreover have "int (length (lane_active ?t nm)) \<le> max_jobs q \<and>
      lane_payload_bytes ?t nm \<le> max_total_payload_bytes q + of_bool (lane e = nm) * credit"
    if q: "dict_get LANE_POLICIES nm = Some q" for nm q
  proof (cases "lane e = nm")
    case True
    with cp q have "q = lpol" by simp
    with True room p c(3) [of nm] c(4) [of nm] show ?thesis by auto
  next
    case False
    from cap q have "int (length (lane_active s nm)) \<le> max_jobs q" "lane_payload_bytes s nm \<le> max_total_payload_bytes q"
      using capacity_laneD by simp_all
    with False c(3) [of nm] c(4) [of nm] show ?thesis by simp
  qed
  ultimately show ?thesis by (simp add: admit_bound_def)
qed

lemma LANE_POLICIES_range:
  assumes "dict_get LANE_POLICIES nm = Some p"
  shows "p \<in> {DEFAULT_QUEUE_POLICY, DAILY_QUEUE_POLICY, BROADCAST_QUEUE_POLICY}"
proof -
  have "p \<in> snd ` set LANE_POLICIES" using dict_get_SomeD [OF assms] by force
  then show ?thesis by (simp add: LANE_POLICIES_def)
qed

lemma LANE_POLICIES_facts:
  assumes "dict_get LANE_POLICIES nm = Some p"
  shows "policy_ok p \<and> max_attempts_allowed p = 3"
proof -
  have "max_attempts_allowed DEFAULT_QUEUE_POLICY = 3" "max_attempts_allowed DAILY_QUEUE_POLICY = 3"
    "max_attempts_allowed BROADCAST_QUEUE_POLICY = 3"
    by (simp_all add: DEFAULT_QUEUE_POLICY_def DAILY_QUEUE_POLICY_def BROADCAST_QUEUE_POLICY_def)
  with LANE_POLICIES_range [OF assms] show ?thesis by auto
qed

lemma policy_ok_attempts: "policy_ok p \<Longrightarrow> 1 \<le> max_attempts_allowed p"
  by (simp add: policy_ok_def policy_limits_def)

text \<open>The three ways an admission can end.\<close>

lemma admit_fresh_cases:
  assumes inv: "store_inv s" and p: "policy_ok p" and cp: "dict_get LANE_POLICIES (lane e) = Some lpol"
    and le: "max_jobs p \<le> max_jobs lpol" "max_total_payload_bytes p \<le> max_total_payload_bytes lpol"
      "max_attempts_allowed p \<le> 3"
    and eq: "admit_fresh env now e p credit s = (s', adm)"
  shows "(adm_state adm \<noteq> ACCEPTED \<and> quiet_step s s') \<or>
    (adm = admission ACCEPTED (Some (task_id e)) None \<and>
     (\<exists>s1 p1. quiet_step s s1 \<and> jobs s1 = jobs s \<and> payloads s1 = payloads s \<and>
       s' = insert_record env now p1 e s1 \<and> jobs_ok s' \<and> lanes_ok (lanes s') \<and> admit_bound credit e s s'))"
proof -
  have ok: "jobs_ok s" using inv by (simp add: store_inv_def)
  show ?thesis
  proof (cases "first_conflict s (lane e) (user_id e) (conflict_keys e)")
    case (Some m)
    with eq have "join_conflict env now e m s = (s', adm)" by (simp add: admit_fresh_def)
    with join_conflict_quiet [OF ok first_conflict_spec(1) [OF ok Some], of env now e]
    show ?thesis by (auto simp: join_conflict_def Let_def split: if_splits)
  next
    case None
    obtain l s1 where l: "lane_setdefault (lane e) p s = (l, s1)" by fastforce
    note L = lane_setdefault_quiet [OF ok p l]
    let ?p1 = "policy_min p (lane_policy l)"
    have inv1: "store_inv s1" using inv L(1) by (rule quiet_inv)
    have pl: "policy_ok ?p1" using p L(2) inv by (intro policy_min_ok) (auto simp: store_inv_def)
    show ?thesis
    proof (cases "refuse_reason s1 l ?p1 credit e")
      case (Some r)
      with None l eq L(1) show ?thesis by (auto simp: admit_fresh_def Let_def)
    next
      case none: None
      with None l eq have s': "s' = insert_record env now ?p1 e s1"
        and adm: "adm = admission ACCEPTED (Some (task_id e)) None"
        by (auto simp: admit_fresh_def Let_def)
      have b: "max_jobs ?p1 \<le> max_jobs lpol" "max_total_payload_bytes ?p1 \<le> max_total_payload_bytes lpol"
        "max_attempts_allowed ?p1 \<le> 3"
        using le by (simp_all add: policy_min_def)
      have "jobs_ok s'" unfolding s' using inv1 b(3) policy_ok_attempts [OF pl] cp
        by (intro insert_record_ok) (auto simp: store_inv_def)
      moreover have "admit_bound credit e s1 s'" unfolding s'
        using inv1 none cp b by (intro insert_bound) (auto simp: store_inv_def)
      moreover have "lanes_ok (lanes s')" using inv1 by (simp add: s' store_inv_def)
      ultimately show ?thesis using adm L s' by (auto simp: admit_bound_def)
    qed
  qed
qed

lemma admit_internal_cases:
  assumes inv: "store_inv s" and p: "policy_ok p" and eq: "admit_internal env now e p credit s = (s', adm)"
  shows "(adm_state adm \<noteq> ACCEPTED \<and> quiet_step s s') \<or>
    (adm = admission ACCEPTED (Some (task_id e)) None \<and>
     (\<exists>s1 p1. quiet_step s s1 \<and> jobs s1 = jobs s \<and> payloads s1 = payloads s \<and>
       s' = insert_record env now p1 e s1 \<and> jobs_ok s' \<and> lanes_ok (lanes s') \<and> admit_bound credit e s s'))"
proof (cases "dict_get LANE_POLICIES (lane e)")
  case None
  with eq inv show ?thesis by (auto simp: admit_internal_def store_inv_def quiet_refl)
next
  case (Some lpol)
  let ?p = "policy_min p lpol"
  have f: "policy_ok ?p" "max_jobs ?p \<le> max_jobs lpol" "max_total_payload_bytes ?p \<le> max_total_payload_bytes lpol"
    "max_attempts_allowed ?p \<le> 3"
    using p LANE_POLICIES_facts [OF Some] policy_min_le(5) [of p lpol] by (simp_all add: policy_min_ok policy_min_le)
  have fresh: "admit_fresh env now e ?p credit s = (s', adm)
    \<or> (adm_state adm \<noteq> ACCEPTED \<and> s' = s)"
    using eq Some by (auto simp: admit_internal_def Let_def split: option.splits if_splits prod.splits)
  then show ?thesis
  proof
    assume "admit_fresh env now e ?p credit s = (s', adm)"
    from admit_fresh_cases [OF inv f(1) Some f(2-) this] show ?thesis .
  next
    assume "adm_state adm \<noteq> ACCEPTED \<and> s' = s"
    with inv show ?thesis by (auto simp: store_inv_def quiet_refl)
  qed
qed

lemma admit_inv:
  assumes "store_inv s" and "policy_ok p"
  shows "store_inv (fst (admit env now e p s))"
proof -
  have inv: "store_inv (sweep now s)"
    using assms(1) by (rule quiet_inv) (use assms(1) in \<open>simp add: store_inv_def quiet_sweep\<close>)
  obtain s' adm where eq: "admit_internal env now e p 0 (sweep now s) = (s', adm)" by fastforce
  from admit_internal_cases [OF inv assms(2) eq] have "quiet_step (sweep now s) s' \<or> store_inv s'"
    by (auto simp: admit_bound_zero store_inv_def)
  with quiet_inv [OF inv] have "store_inv s'" by blast
  with eq show ?thesis by (simp add: admit_def)
qed

section \<open>Retries\<close>

lemma put_drop_bytes:
  assumes ok: "jobs_ok s" and m: "dict_get (jobs s) (task_id m) = Some m" and has: "dict_has (payloads s) (task_id m)"
    and core: "same_core m m1"
  shows "lane_payload_bytes (put_job m1 (s\<lparr>payloads := dict_pop (payloads s) (task_id m)\<rparr>)) nm =
    lane_payload_bytes s nm - of_bool (lane m = nm) * payload_bytes m"
proof -
  have t: "task_id m1 = task_id m" and l: "lane m1 = lane m" using core by (auto simp: same_core_def)
  let ?w = "\<lambda>pl m. if lane m = nm \<and> dict_has pl (task_id m) then payload_bytes m else 0"
  let ?pl = "dict_pop (payloads s) (task_id m)"
  have d: "dict_ok (jobs s)" using ok by (simp add: jobs_ok_dicts)
  have other: "dict_sum (?w ?pl) (dict_pop (jobs s) (task_id m)) = dict_sum (?w (payloads s)) (dict_pop (jobs s) (task_id m))"
    by (rule dict_sum_cong) (use d in \<open>auto simp: dict_has_def jobs_okD(1) [OF ok] split: if_splits\<close>)
  have "dict_sum (?w ?pl) (dict_set (jobs s) (task_id m) m1) = dict_sum (?w ?pl) (dict_pop (jobs s) (task_id m))"
    using d m by (simp add: dict_sum_set_present dict_sum_pop t dict_has_def)
  with other d m has show ?thesis
    by (simp add: lane_bytes_sum put_job_def t dict_sum_pop)
qed

lemma spent_job_step:
  assumes "job_ok m" "payload_fit s m" and "\<not> active_state (state m)"
  shows "local_step s m (s\<lparr>payloads := dict_pop (payloads s) (task_id m)\<rparr>)
    (m\<lparr>retry_grants := 0, retry_payload_available := False, retry_eligible := False\<rparr>)"
  using assms
  by (auto simp: local_step_def evolves_def same_core_def job_ok_def payload_fit_def dict_has_def)

lemma jobs_ok_drop:
  assumes "jobs_ok s" and "\<And>m. dict_get (jobs s) tid = Some m \<Longrightarrow> \<not> retry_eligible m"
  shows "jobs_ok (s\<lparr>payloads := dict_pop (payloads s) tid\<rparr>)"
  using assms unfolding jobs_ok_def by (auto simp: dict_has_def)

text \<open>A record replaced by one without a payload only frees bytes.\<close>

lemma insert_drop_bytes:
  assumes ok: "jobs_ok s" and m: "dict_get (jobs s) (task_id e) = Some m"
    and s1: "jobs s1 = jobs s" "payloads s1 = payloads s"
    and t: "t = (insert_record env now p e s1)\<lparr>payloads := dict_pop (payloads (insert_record env now p e s1)) (task_id e)\<rparr>"
    and tok: "dict_ok (jobs t)"
  shows "lane_payload_bytes t nm \<le> lane_payload_bytes s nm"
  unfolding lane_bytes_sum
proof (rule dict_sum_le [OF _ tok])
  show "dict_ok (jobs s)" using ok by (simp add: jobs_ok_dicts)
  fix k v' assume v': "dict_get (jobs t) k = Some v'"
  have pt: "dict_get (payloads t) x = (if x = task_id e then None else dict_get (payloads s) x)" for x
    using s1 t by simp
  show "\<exists>v. dict_get (jobs s) k = Some v \<and>
      (if lane v' = nm \<and> dict_has (payloads t) (task_id v') then payload_bytes v' else 0)
      \<le> (if lane v = nm \<and> dict_has (payloads s) (task_id v) then payload_bytes v else 0)"
  proof (cases "k = task_id e")
    case True
    with v' t have "v' = new_record env now p (seq_no s1 + 1) e" by simp
    then have "\<not> dict_has (payloads t) (task_id v')" by (simp add: dict_has_def pt)
    with m True job_ok_bytes [OF ok m] show ?thesis by auto
  next
    case False
    with v' t s1 have v: "dict_get (jobs s) k = Some v'" by simp
    with False jobs_okD(1) [OF ok v] pt [of k] show ?thesis by (simp add: dict_has_def)
  qed
qed (auto simp: job_ok_bytes [OF ok])

text \<open>The settlement of an accepted retry: the child takes the byte credit of its parent.\<close>

lemma retry_accept_inv:
  assumes inv: "store_inv s" and m: "dict_get (jobs s) (task_id m) = Some m"
    and over: "\<not> active_state (state m)" and has: "dict_has (payloads s) (task_id m)"
    and ch: "lane e = lane m" "task_id e = cid"
    and q: "quiet_step s s1" "jobs s1 = jobs s" "payloads s1 = payloads s"
    and ins: "t = insert_record env now p1 e s1" "jobs_ok t" "lanes_ok (lanes t)"
      "admit_bound (payload_bytes m) e s t"
    and res: "t' = (if cid = task_id m then t\<lparr>payloads := dict_pop (payloads t) (task_id m)\<rparr>
       else put_job (m\<lparr>retry_grants := 0, retry_payload_available := False, retry_eligible := False\<rparr>)
              (t\<lparr>payloads := dict_pop (payloads t) (task_id m)\<rparr>))"
  shows "store_inv t'"
proof (cases "cid = task_id m")
  case False
  let ?m = "m\<lparr>retry_grants := 0, retry_payload_available := False, retry_eligible := False\<rparr>"
  have mt: "dict_get (jobs t) (task_id m) = Some m" using False m ch(2) q(2) ins(1) by simp
  have "dict_has (payloads t) (task_id m)" using has q(3) ins(1) by (simp add: dict_has_def)
  moreover have "same_core m ?m" by (simp add: same_core_def)
  ultimately have bytes: "lane_payload_bytes t' nm = lane_payload_bytes t nm - of_bool (lane m = nm) * payload_bytes m" for nm
    using put_drop_bytes [OF ins(2) mt] False res by simp
  have "quiet_step t t'" unfolding res
    using quiet_put [OF ins(2) mt spent_job_step [OF jobs_ok_fit(1,2) [OF ins(2) mt] over]] False by simp
  then have ok': "jobs_ok t'" and ev: "evolved t t'" by (simp_all add: quiet_step_def)
  note c = evolved_capacity [OF ins(2) ok' ev]
  have "capacity_ok t'"
    using ins(4) c(1-3)
  proof (rule admit_bound_capacity)
    show "lane_payload_bytes t' nm \<le> max_total_payload_bytes p" if "dict_get LANE_POLICIES nm = Some p" for nm p
      using bytes [of nm] admit_boundD(3) [OF ins(4) that] ch(1) by simp
  qed
  with ok' ev ins(3) show ?thesis by (simp add: store_inv_def evolved_def)
next
  case True
  let ?t = "t\<lparr>payloads := dict_pop (payloads t) (task_id m)\<rparr>"
  have t': "t' = ?t" using True res by simp
  have ok: "jobs_ok s" and cap: "capacity_ok s" using inv by (simp_all add: store_inv_def)
  have "jobs_ok ?t" using ins(2) by (rule jobs_ok_drop) (use True ins(1) ch(2) in simp)
  have less: "lane_payload_bytes ?t nm \<le> lane_payload_bytes s nm" for nm
    using insert_drop_bytes [OF ok _ q(2,3), of e m ?t env now p1 nm] True m ch(2) ins(1)
      jobs_ok_dicts [OF ins(2)]
    by simp
  have same: "lane_held ?t nm = lane_held t nm" "held_jobs ?t = held_jobs t" "lane_active ?t nm = lane_active t nm" for nm
    by (simp_all add: lane_held_def held_jobs_def lane_active_def)
  have "lane_payload_bytes ?t nm \<le> max_total_payload_bytes p" if "dict_get LANE_POLICIES nm = Some p" for nm p
    using order_trans [OF less, of nm] capacity_laneD [OF cap that] by simp
  then have "capacity_ok ?t"
    by (intro admit_bound_capacity [OF ins(4)]) (simp_all add: same)
  with \<open>jobs_ok ?t\<close> ins(3) show ?thesis by (simp add: t' store_inv_def)
qed

lemma envelope_init_lane:
  "envelope_init e = Inr e' \<Longrightarrow> lane e' = lane e \<and> task_id e' = task_id e \<and> user_id e' = user_id e \<and>
    payload e' = payload e \<and> retry_grants e' = retry_grants e"
  by (auto simp: envelope_init_def split: if_splits sum.splits option.splits)

lemma put_operation_inv [simp]: "store_inv (put_operation key body t now s) \<longleftrightarrow> store_inv s"
  if "jobs_ok s" for s
  using that by (auto simp: store_inv_def put_operation_def jobs_ok_def capacity_ok_def lane_held_def held_jobs_def
      lane_active_def lane_payload_bytes_def)

lemma retry_settle_inv:
  assumes inv: "store_inv s" and m: "dict_get (jobs s) (task_id m) = Some m" and over: "\<not> active_state (state m)"
    and has: "dict_has (payloads s) (task_id m)" and ch: "lane e = lane m" "task_id e = cid"
    and pol: "policy_ok p"
    and eq: "admit_internal env now e p (payload_bytes m) s = (t, adm)"
    and kept: "adm_state adm \<noteq> ACCEPTED \<Longrightarrow> dict_get (jobs t) (task_id m) = Some m"
  shows "store_inv (fst (retry_settle now key body cid m (t, adm)))"
proof -
  let ?m = "m\<lparr>retry_grants := 0, retry_payload_available := False, retry_eligible := False\<rparr>"
  from admit_internal_cases [OF inv pol eq] show ?thesis
  proof (elim disjE conjE exE)
    assume na: "adm_state adm \<noteq> ACCEPTED" and q: "quiet_step s t"
    have it: "store_inv t" using inv q by (rule quiet_inv)
    then have ok: "jobs_ok t" by (simp add: store_inv_def)
    note mt = kept [OF na]
    from quiet_put [OF ok mt spent_job_step [OF jobs_ok_fit(1,2) [OF ok mt] over]]
    have "quiet_step t (put_job ?m (t\<lparr>payloads := dict_pop (payloads t) (task_id m)\<rparr>))" .
    moreover from quiet_inv [OF it this] have "store_inv (put_job ?m (t\<lparr>payloads := dict_pop (payloads t) (task_id m)\<rparr>))" .
    ultimately show ?thesis using it ok na
      by (auto simp: retry_settle_def drop_payload_def quiet_step_def)
  next
    fix s1 p1
    assume adm: "adm = admission ACCEPTED (Some (task_id e)) None" and q: "quiet_step s s1" "jobs s1 = jobs s" "payloads s1 = payloads s"
      and ins: "t = insert_record env now p1 e s1" "jobs_ok t" "lanes_ok (lanes t)" "admit_bound (payload_bytes m) e s t"
    let ?t' = "if cid = task_id m then t\<lparr>payloads := dict_pop (payloads t) (task_id m)\<rparr>
       else put_job ?m (t\<lparr>payloads := dict_pop (payloads t) (task_id m)\<rparr>)"
    have fin: "store_inv ?t'" by (rule retry_accept_inv [OF inv m over has ch q ins refl])
    then have "jobs_ok ?t'" by (simp add: store_inv_def)
    with fin show ?thesis using adm ch(2)
      by (auto simp: retry_settle_def drop_payload_def split: if_splits)
  qed
qed

lemma admit_internal_keeps:
  assumes ok: "jobs_ok s" and m: "dict_get (jobs s) (task_id m) = Some m" and over: "\<not> active_state (state m)"
    and eq: "admit_internal env now e p credit s = (t, adm)" and na: "adm_state adm \<noteq> ACCEPTED"
  shows "dict_get (jobs t) (task_id m) = Some m"
proof -
  have fresh: "dict_get (jobs t) (task_id m) = Some m" if f: "admit_fresh env now e q credit s = (t, adm)" for q
  proof (cases "first_conflict s (lane e) (user_id e) (conflict_keys e)")
    case None
    with f na m show ?thesis
      by (auto simp: admit_fresh_def lane_setdefault_def Let_def split: option.splits)
  next
    case (Some x)
    have "task_id x \<noteq> task_id m"
    proof
      assume "task_id x = task_id m"
      then have "x = m" using first_conflict_spec(1) [OF ok Some] m by (metis option.inject)
      then show False using first_conflict_spec(2) [OF ok Some] over by simp
    qed
    with f Some m show ?thesis
      by (auto simp: admit_fresh_def join_conflict_def put_job_def Let_def split: if_splits)
  qed
  show ?thesis using eq na m fresh
    by (auto simp: admit_internal_def Let_def split: option.splits if_splits prod.splits)
qed

lemma retry_inv:
  assumes inv0: "store_inv s0"
  shows "store_inv (fst (retry_job env now tid rv actor op_id epoch s0))"
proof -
  let ?s = "sweep now s0" and ?key = "command_key env actor op_id" and ?body = "CmdRetry tid rv"
  let ?cid = "uuid5_url env ?key"
  have inv: "store_inv ?s" using inv0 by (rule quiet_inv) (use inv0 in \<open>simp add: store_inv_def quiet_sweep\<close>)
  then have ok: "jobs_ok ?s" by (simp add: store_inv_def)
  show ?thesis
  proof (cases "\<exists>m pl e l. command_previous ?key ?body ?s = Inr None \<and> dict_get (jobs ?s) tid = Some m \<and>
      retry_allowed tid rv epoch ?s m \<and> dict_get (payloads ?s) tid = Some pl \<and>
      envelope_init (retry_child ?key ?cid epoch pl m) = Inr e \<and> dict_get (lanes ?s) (lane m) = Some l")
    case False
    with inv show ?thesis
      by (auto simp: retry_job_def Let_def split: sum.splits option.splits)
  next
    case True
    then obtain m pl e l where c: "command_previous ?key ?body ?s = Inr None" and m: "dict_get (jobs ?s) tid = Some m"
      and ra: "retry_allowed tid rv epoch ?s m" and pl: "dict_get (payloads ?s) tid = Some pl"
      and e: "envelope_init (retry_child ?key ?cid epoch pl m) = Inr e" and l: "dict_get (lanes ?s) (lane m) = Some l"
      by blast
    obtain t adm where a: "admit_internal env now e (lane_policy l) (payload_bytes m) ?s = (t, adm)" by fastforce
    have m': "dict_get (jobs ?s) (task_id m) = Some m" and tm: "task_id m = tid"
      using jobs_ok_fit(3) [OF ok m] jobs_okD(1) [OF ok m] by auto
    have over: "\<not> active_state (state m)" using ra by (auto simp: retry_allowed_def)
    have pol: "policy_ok (lane_policy l)" using inv l by (auto simp: store_inv_def lanes_ok_def)
    have ch: "lane e = lane m" "task_id e = ?cid" using envelope_init_lane [OF e] by (simp_all add: retry_child_def)
    have "store_inv (fst (retry_settle now ?key ?body ?cid m (t, adm)))"
      by (rule retry_settle_inv [OF inv m' over _ ch pol a])
        (use pl tm admit_internal_keeps [OF ok m' over a] in \<open>auto simp: dict_has_def\<close>)
    with c m ra pl e l a show ?thesis
      by (auto simp: retry_job_def Let_def split: prod.splits)
  qed
qed

end
