(* ===== verification/Queue_Run.thy ===== *)
theory Queue_Run
  imports Queue_Bounds
begin

text \<open>
  Runs of the job queue: every method of \<open>MemoryQueueStore\<close> as one step on the store, the
  invariant of \<open>Queue_Bounds\<close> kept by every step, and the relation between a record and what
  a later run makes of it. Both contracts (\<open>invariant_run\<close>, \<open>progress_run\<close>) are interpreted on
  the steps of the model.
\<close>

section \<open>Steps\<close>

datatype queue_op =
  OpAdmit queue_env secs envelope queue_policy
  | OpClaim secs string string
  | OpLoadPayload secs string string
  | OpHeartbeat secs string string int
  | OpFinish secs string string int job_result secs
  | OpProgress secs string string int summary
  | OpCancel queue_env secs string int string string
  | OpRetry queue_env secs string int string string "int option"
  | OpEraseUser int
  | OpReadLane string
  | OpSetLane queue_env secs string int bool bool string string
  | OpReadJob secs string
  | OpPrivateRecord secs string
  | OpStats secs string
  | OpListJobs secs "string option" "job_state option" "string option" int

text \<open>An admission is the client's: the policy and the envelope are constructed first, and their
  constructors raise before the store is called.\<close>

definition submit :: "queue_env \<Rightarrow> secs \<Rightarrow> envelope \<Rightarrow> queue_policy \<Rightarrow> store \<Rightarrow> store \<times> (queue_error + queue_admission)" where
  "submit env now e p s =
    (case queue_policy_init p of
       Inl err \<Rightarrow> (s, Inl err)
     | Inr pol \<Rightarrow>
        (case envelope_init e of
           Inl err \<Rightarrow> (s, Inl err)
         | Inr env_e \<Rightarrow> (case admit env now env_e pol s of (s1, adm) \<Rightarrow> (s1, Inr adm))))"

fun queue_step :: "store \<Rightarrow> queue_op \<Rightarrow> store" where
  "queue_step s (OpAdmit env now e p) = fst (submit env now e p s)"
| "queue_step s (OpClaim now nm owner) = fst (claim now nm owner s)"
| "queue_step s (OpLoadPayload now tid owner) = fst (load_payload now tid owner s)"
| "queue_step s (OpHeartbeat now tid owner rv) = fst (heartbeat now tid owner rv s)"
| "queue_step s (OpFinish now tid owner rv r delay) = fst (finish now tid owner rv r delay s)"
| "queue_step s (OpProgress now tid owner rv summ) = fst (update_progress now tid owner rv summ s)"
| "queue_step s (OpCancel env now tid rv actor op_id) = fst (request_cancel env now tid rv actor op_id s)"
| "queue_step s (OpRetry env now tid rv actor op_id epoch) = fst (retry_job env now tid rv actor op_id epoch s)"
| "queue_step s (OpEraseUser uid) = erase_user uid s"
| "queue_step s (OpReadLane nm) = fst (read_lane nm s)"
| "queue_step s (OpSetLane env now nm rv ap cp actor op_id) = fst (set_lane_state env now nm rv ap cp actor op_id s)"
| "queue_step s (OpReadJob now tid) = fst (read_job now tid s)"
| "queue_step s (OpPrivateRecord now tid) = fst (private_record now tid s)"
| "queue_step s (OpStats now nm) = fst (stats now nm s)"
| "queue_step s (OpListJobs now nm st cursor limit) = fst (list_jobs now nm st cursor limit s)"

definition queue_run :: "store \<Rightarrow> queue_op list \<Rightarrow> store" where
  "queue_run s ops = foldl queue_step s ops"

section \<open>Lane operations\<close>

lemma read_lane_quiet:
  assumes "jobs_ok s"
  shows "quiet_step s (fst (read_lane nm s))"
proof (cases "dict_get LANE_WORKERS nm = None \<or> dict_get LANE_POLICIES nm = None")
  case True
  with assms show ?thesis by (auto simp: read_lane_def quiet_refl split: option.splits)
next
  case False
  then obtain w p where wp: "dict_get LANE_WORKERS nm = Some w" "dict_get LANE_POLICIES nm = Some p" by auto
  obtain l s1 where l: "lane_setdefault nm p s = (l, s1)" by fastforce
  have "quiet_step s s1" using lane_setdefault_quiet(1) [OF assms _ l] LANE_POLICIES_facts [OF wp(2)] by simp
  with wp l show ?thesis by (simp add: read_lane_def)
qed

lemma read_lane_policy:
  assumes "read_lane nm s = (s1, Inr snap)" and "lanes_ok (lanes s)"
  shows "policy_ok (lane_policy (ls_state snap))"
proof -
  from assms(1) obtain w p where wp: "dict_get LANE_WORKERS nm = Some w" "dict_get LANE_POLICIES nm = Some p"
    by (auto simp: read_lane_def split: option.splits)
  have "policy_ok p" using LANE_POLICIES_facts [OF wp(2)] by simp
  with wp assms show ?thesis
    by (auto simp: read_lane_def lane_setdefault_def lane_default_def lanes_ok_def split: option.splits)
qed

lemma quiet_lanes:
  assumes "jobs_ok s" and "lanes_ok (lanes s) \<Longrightarrow> policy_ok (lane_policy l)"
  shows "quiet_step s (s\<lparr>lanes := dict_set (lanes s) nm l\<rparr>)"
  using assms by (auto simp: quiet_step_def evolved_def lanes_ok_def)

lemma set_lane_quiet:
  assumes ok: "jobs_ok s"
  shows "quiet_step s (fst (set_lane_state env now nm rv ap cp actor op_id s))"
proof -
  let ?key = "command_key env actor op_id" and ?body = "CmdLane nm rv ap cp"
  obtain s1 r where rl: "read_lane nm s = (s1, r)" by fastforce
  have q1: "quiet_step s s1" using read_lane_quiet [OF ok, of nm] rl by simp
  then have ok1: "jobs_ok s1" by (simp add: quiet_step_def)
  show ?thesis
  proof (cases "\<exists>snap. command_previous ?key ?body s = Inr None \<and> r = Inr snap \<and> lane_revision (ls_state snap) = rv")
    case False
    with rl q1 ok show ?thesis
      by (auto simp: set_lane_state_def Let_def quiet_refl split: sum.splits)
  next
    case True
    then obtain snap where c: "command_previous ?key ?body s = Inr None" "r = Inr snap" "lane_revision (ls_state snap) = rv"
      by blast
    let ?l = "(ls_state snap)\<lparr>lane_revision := rv + 1, admission_paused := ap, claim_paused := cp\<rparr>"
    let ?s2 = "put_operation ?key ?body nm now (s1\<lparr>lanes := dict_set (lanes s1) nm ?l\<rparr>)"
    have "lane_policy ?l = lane_policy (ls_state snap)" by simp
    moreover have "dict_get (lanes s1) nm = Some (ls_state snap)"
      using rl c(2) by (auto simp: read_lane_def lane_setdefault_def split: option.splits)
    ultimately have "quiet_step s1 (s1\<lparr>lanes := dict_set (lanes s1) nm ?l\<rparr>)"
      using ok1 by (intro quiet_lanes) (auto simp: lanes_ok_def)
    then have q2: "quiet_step s1 ?s2" by (rule quiet_put_operation)
    then have "quiet_step ?s2 (fst (read_lane nm ?s2))" by (intro read_lane_quiet) (simp add: quiet_step_def)
    with q1 q2 have "quiet_step s (fst (read_lane nm ?s2))" by (blast intro: quiet_trans)
    with c rl show ?thesis by (simp add: set_lane_state_def Let_def)
  qed
qed

section \<open>What a later run makes of a record\<close>

definition job_progress :: "job \<Rightarrow> job \<Rightarrow> bool" where
  "job_progress m m' \<longleftrightarrow>
    same_core m m' \<and> attempts_started m \<le> attempts_started m' \<and> revision m \<le> revision m' \<and>
    (revision m' = revision m \<longrightarrow> state m' = state m \<and> attempts_started m' = attempts_started m) \<and>
    (0 < retry_grants m' \<longrightarrow> 0 < retry_grants m) \<and>
    lifecycle\<^sup>*\<^sup>* (state m) (state m')"

definition progressed :: "store \<Rightarrow> store \<Rightarrow> bool" where
  "progressed s s' \<longleftrightarrow>
    seq_no s \<le> seq_no s' \<and>
    (\<forall>tid m'. dict_get (jobs s') tid = Some m' \<longrightarrow>
      seq_no s < sequence m' \<or> (\<exists>m. dict_get (jobs s) tid = Some m \<and> job_progress m m'))"

lemma job_progress_refl [simp]: "job_progress m m"
  by (simp add: job_progress_def)

lemma job_progress_trans: "job_progress m m' \<Longrightarrow> job_progress m' m'' \<Longrightarrow> job_progress m m''"
  by (auto simp: job_progress_def intro: same_core_trans rtranclp_trans)

lemma evolves_progress: "evolves m m' \<Longrightarrow> job_progress m m'"
  by (simp add: evolves_def job_progress_def)

lemma progressedE:
  assumes "progressed s s'" and "dict_get (jobs s') tid = Some m'"
  obtains (new) "seq_no s < sequence m'" | (old) m where "dict_get (jobs s) tid = Some m" "job_progress m m'"
  using assms unfolding progressed_def by blast

lemma progressed_refl [simp]: "progressed s s"
  by (auto simp: progressed_def)

lemma progressed_trans:
  assumes a: "progressed s s'" and b: "progressed s' s''"
  shows "progressed s s''"
proof -
  have le: "seq_no s \<le> seq_no s'" "seq_no s' \<le> seq_no s''" using a b by (simp_all add: progressed_def)
  have "seq_no s < sequence m'' \<or> (\<exists>m. dict_get (jobs s) tid = Some m \<and> job_progress m m'')"
    if "dict_get (jobs s'') tid = Some m''" for tid m''
    using b that
  proof (cases rule: progressedE)
    case new
    with le show ?thesis by simp
  next
    case (old m')
    from a old(1) show ?thesis
    proof (cases rule: progressedE)
      case new
      moreover have "sequence m'' = sequence m'" using old(2) by (simp add: job_progress_def same_core_def)
      ultimately show ?thesis by simp
    next
      case (old m)
      then show ?thesis using job_progress_trans [OF _ \<open>job_progress m' m''\<close>] by blast
    qed
  qed
  with le show ?thesis by (simp add: progressed_def)
qed

lemma evolved_progressed: "evolved s s' \<Longrightarrow> progressed s s'"
  unfolding progressed_def evolved_def using evolves_progress by fastforce

lemma quiet_progressed: "quiet_step s s' \<Longrightarrow> progressed s s'"
  by (simp add: quiet_step_def evolved_progressed)

lemma insert_progressed: "progressed s (insert_record env now p e s)"
  by (auto simp: progressed_def)

lemma start_progressed:
  assumes "dict_get (jobs s) (task_id m) = Some m" and "state m = QUEUED"
  shows "progressed s (put_job (start_run now owner m) s)"
proof -
  have "job_progress m (start_run now owner m)"
    using assms(2) start_run_core [of m now owner]
    by (simp add: job_progress_def r_into_rtranclp lifecycle.start) (simp add: start_run_def Let_def)
  with assms(1) show ?thesis by (auto simp: progressed_def put_job_def)
qed

lemma progressed_payloads [simp]:
  "progressed s (s'\<lparr>payloads := pl\<rparr>) = progressed s s'"
  "progressed s (put_operation key body t now s') = progressed s s'"
  by (simp_all add: progressed_def put_operation_def)

lemma claim_progressed:
  assumes ok: "jobs_ok s"
  shows "progressed s (fst (claim now nm owner s))"
proof -
  obtain s1 r where eq: "claim now nm owner s = (s1, r)" by fastforce
  from claim_cases [OF ok eq] have "progressed s s1"
  proof (elim disjE exE conjE)
    fix s' assume "quiet_step s s'" "s1 = s'"
    then show ?thesis by (simp add: quiet_progressed)
  next
    fix w s' c
    assume c: "claim_outcome now owner (\<exists>m \<in> set (held_jobs (sweep now s)). image_work m)
        (claim_order (lane_queued (sweep now s) nm)) (sweep now s) s' s1 (Some c)"
    then obtain pre m post where "claimable s' (\<exists>m \<in> set (held_jobs (sweep now s)). image_work m) m"
      "dict_get (jobs s') (task_id m) = Some m" "s1 = put_job (start_run now owner m) s'"
      by (rule claim_outcome_start)
    then have "progressed s' s1" by (auto simp: claimable_def intro: start_progressed)
    moreover have "quiet_step (sweep now s) s'" using c by (simp add: claim_outcome_def)
    ultimately show ?thesis using quiet_sweep [OF ok, of now] by (blast intro: progressed_trans quiet_progressed)
  qed
  with eq show ?thesis by simp
qed

lemma admit_internal_progressed:
  assumes "store_inv s" and "policy_ok p" and "admit_internal env now e p credit s = (s', adm)"
  shows "progressed s s'"
  using admit_internal_cases [OF assms]
  by (auto dest: quiet_progressed intro: progressed_trans insert_progressed)

lemma sweep_inv: "store_inv s \<Longrightarrow> store_inv (sweep now s)"
  using quiet_inv [OF _ quiet_sweep] by (simp add: store_inv_def)

lemma submit_step:
  assumes inv: "store_inv s"
  shows "store_inv (fst (submit env now e p s))" and "progressed s (fst (submit env now e p s))"
proof -
  have "store_inv (fst (submit env now e p s)) \<and> progressed s (fst (submit env now e p s))"
  proof (cases "\<exists>pol e'. queue_policy_init p = Inr pol \<and> envelope_init e = Inr e'")
    case False
    with inv show ?thesis by (auto simp: submit_def split: sum.splits)
  next
    case True
    then obtain e' where p: "queue_policy_init p = Inr p" "policy_ok p" and e: "envelope_init e = Inr e'"
      by (auto simp: policy_init_iff)
    obtain s1 adm where a: "admit_internal env now e' p 0 (sweep now s) = (s1, adm)" by fastforce
    have "progressed s s1"
      using admit_internal_progressed [OF sweep_inv [OF inv] p(2) a] quiet_progressed [OF quiet_sweep, of s now] inv
      by (auto simp: store_inv_def intro: progressed_trans)
    with admit_inv [OF inv p(2), of env now e'] p(1) e a show ?thesis
      by (simp add: submit_def admit_def)
  qed
  then show "store_inv (fst (submit env now e p s))" and "progressed s (fst (submit env now e p s))" by simp_all
qed

lemma retry_settle_progressed:
  assumes ok: "jobs_ok t" and over: "\<not> active_state (state m)"
    and kept: "adm_state adm \<in> {ACCEPTED, EXISTING} \<Longrightarrow> \<not> (adm_state adm = ACCEPTED \<and> cid = task_id m) \<Longrightarrow>
      dict_get (jobs t) (task_id m) = Some m"
  shows "progressed t (fst (retry_settle now key body cid m (t, adm)))"
proof (cases "adm_state adm \<in> {ACCEPTED, EXISTING} \<and> adm_task_id adm = Some cid \<and>
    \<not> (adm_state adm = ACCEPTED \<and> cid = task_id m)")
  case True
  then have mt: "dict_get (jobs t) (task_id m) = Some m" using kept by simp
  let ?m = "m\<lparr>retry_grants := 0, retry_payload_available := False, retry_eligible := False\<rparr>"
  have "quiet_step t (put_job ?m (t\<lparr>payloads := dict_pop (payloads t) (task_id m)\<rparr>))"
    by (rule quiet_put [OF ok mt spent_job_step [OF jobs_ok_fit(1,2) [OF ok mt] over]])
  with True show ?thesis by (auto simp: retry_settle_def drop_payload_def dest: quiet_progressed)
next
  case False
  then show ?thesis by (auto simp: retry_settle_def drop_payload_def)
qed

lemma retry_kept:
  assumes inv: "store_inv s" and pol: "policy_ok p" and eq: "admit_internal env now e p credit s = (t, adm)"
    and m: "dict_get (jobs s) (task_id m) = Some m" and over: "\<not> active_state (state m)"
  shows "jobs_ok t" and "\<not> (adm_state adm = ACCEPTED \<and> task_id e = task_id m) \<Longrightarrow> dict_get (jobs t) (task_id m) = Some m"
proof -
  have ok: "jobs_ok s" using inv by (simp add: store_inv_def)
  note cs = admit_internal_cases [OF inv pol eq]
  from cs show "jobs_ok t" by (auto simp: quiet_step_def)
  assume na: "\<not> (adm_state adm = ACCEPTED \<and> task_id e = task_id m)"
  show "dict_get (jobs t) (task_id m) = Some m"
  proof (cases "adm_state adm = ACCEPTED")
    case False
    then show ?thesis by (rule admit_internal_keeps [OF ok m over eq])
  next
    case True
    with cs obtain s1 p1 where "t = insert_record env now p1 e s1" "jobs s1 = jobs s" by blast
    with na True m show ?thesis by simp
  qed
qed

lemma retry_progressed:
  assumes inv0: "store_inv s0"
  shows "progressed s0 (fst (retry_job env now tid rv actor op_id epoch s0))"
proof -
  let ?s = "sweep now s0" and ?key = "command_key env actor op_id" and ?body = "CmdRetry tid rv"
  let ?cid = "uuid5_url env ?key"
  have inv: "store_inv ?s" using inv0 by (rule sweep_inv)
  then have ok: "jobs_ok ?s" by (simp add: store_inv_def)
  have q: "progressed s0 ?s" using inv0 quiet_progressed [OF quiet_sweep] by (simp add: store_inv_def)
  show ?thesis
  proof (cases "\<exists>m pl e l. command_previous ?key ?body ?s = Inr None \<and> dict_get (jobs ?s) tid = Some m \<and>
      retry_allowed tid rv epoch ?s m \<and> dict_get (payloads ?s) tid = Some pl \<and>
      envelope_init (retry_child ?key ?cid epoch pl m) = Inr e \<and> dict_get (lanes ?s) (lane m) = Some l")
    case False
    with q show ?thesis by (auto simp: retry_job_def Let_def split: sum.splits option.splits)
  next
    case True
    then obtain m pl e l where c: "command_previous ?key ?body ?s = Inr None" and m: "dict_get (jobs ?s) tid = Some m"
      and ra: "retry_allowed tid rv epoch ?s m" and pl: "dict_get (payloads ?s) tid = Some pl"
      and e: "envelope_init (retry_child ?key ?cid epoch pl m) = Inr e" and l: "dict_get (lanes ?s) (lane m) = Some l"
      by blast
    obtain t adm where a: "admit_internal env now e (lane_policy l) (payload_bytes m) ?s = (t, adm)" by fastforce
    have m': "dict_get (jobs ?s) (task_id m) = Some m" using jobs_ok_fit(3) [OF ok m] .
    have over: "\<not> active_state (state m)" using ra by (auto simp: retry_allowed_def)
    have pol: "policy_ok (lane_policy l)" using inv l by (auto simp: store_inv_def lanes_ok_def)
    have cid: "task_id e = ?cid" using envelope_init_lane [OF e] by (simp add: retry_child_def)
    have st: "progressed t (fst (retry_settle now ?key ?body ?cid m (t, adm)))"
      using retry_kept [OF inv pol a m' over] cid by (intro retry_settle_progressed [OF _ over]) auto
    have "progressed ?s t" using inv pol a by (rule admit_internal_progressed)
    with q st have "progressed s0 (fst (retry_settle now ?key ?body ?cid m (t, adm)))" by (blast intro: progressed_trans)
    with c m ra pl e l a show ?thesis by (auto simp: retry_job_def Let_def split: prod.splits)
  qed
qed

section \<open>Every run keeps the invariant and makes progress\<close>

lemma queue_step_cases:
  assumes "store_inv s"
  shows "store_inv (queue_step s op) \<and> progressed s (queue_step s op)"
proof -
  have ok: "jobs_ok s" using assms by (simp add: store_inv_def)
  have quiet: "store_inv t \<and> progressed s t" if "quiet_step s t" for t
    using quiet_inv [OF assms that] quiet_progressed [OF that] by simp
  note q = heartbeat_quiet finish_quiet update_progress_quiet request_cancel_quiet erase_user_quiet
    read_lane_quiet set_lane_quiet quiet_sweep
  show ?thesis
    by (cases op)
      (simp_all add: quiet [OF q(1) [OF ok]] quiet [OF q(2) [OF ok]] quiet [OF q(3) [OF ok]] quiet [OF q(4) [OF ok]]
        quiet [OF q(5) [OF ok]] quiet [OF q(6) [OF ok]] quiet [OF q(7) [OF ok]] quiet [OF q(8) [OF ok]]
        submit_step [OF assms] claim_inv [OF assms] claim_progressed [OF ok] retry_inv [OF assms] retry_progressed [OF assms]
        load_payload_def read_job_def private_record_def stats_def list_jobs_def Let_def)
qed

interpretation qs: progress_run queue_step store_inv progressed
  by unfold_locales (auto simp: queue_step_cases intro: progressed_trans)

lemma lane_limits_nonneg: "dict_get LANE_POLICIES nm = Some p \<Longrightarrow> 0 \<le> max_jobs p \<and> 0 \<le> max_total_payload_bytes p"
  using LANE_POLICIES_facts [of nm p] by (auto simp: policy_ok_def policy_limits_def)

lemma store_inv_empty [simp]: "store_inv empty_store"
  by (auto simp: store_inv_def jobs_ok_def lanes_ok_def capacity_ok_def empty_store_def lane_held_def held_jobs_def
      lane_active_def lane_payload_bytes_def dict_values_def LANE_WORKERS_def dict_ok_def
      dest: lane_limits_nonneg split: if_splits)

lemma run_inv: "store_inv (queue_run empty_store ops)"
  unfolding queue_run_def by (rule qs.run_invar) simp

lemma run_from_inv: "store_inv s \<Longrightarrow> store_inv (queue_run s ops)"
  unfolding queue_run_def by (rule qs.run_invar)

lemma run_progressed: "store_inv s \<Longrightarrow> progressed s (queue_run s ops)"
  unfolding queue_run_def by (rule qs.run_rel)

end
