(* ===== verification/Queue_Sweep.thy ===== *)
theory Queue_Sweep
  imports Queue_Run
begin

text \<open>
  The sweep of \<open>MemoryQueueStore\<close>, record by record: what one pass makes of a record depends on that
  record and on whether its payload is there (\<open>swept\<close>), so the pass over all records is the
  simultaneous application of \<open>swept\<close>. A second pass at the same time changes nothing.
\<close>

section \<open>One record\<close>

lemma dict_pop_absent: "dict_get d k = None \<Longrightarrow> dict_pop d k = d"
  by (auto simp: dict_pop_def dict_get_None_iff dict_keys_def intro!: filter_True)

definition sweep_record :: "secs \<Rightarrow> job \<Rightarrow> store \<Rightarrow> job \<times> store" where
  "sweep_record now m s = (case sweep_payload now m s of (m1, s1) \<Rightarrow> sweep_timers now m1 s1)"

definition swept :: "secs \<Rightarrow> store \<Rightarrow> job \<Rightarrow> job" where
  "swept now s m = fst (sweep_record now m s)"

lemma sweep_job_record:
  "sweep_job now s tid =
    (case dict_get (jobs s) tid of
       None \<Rightarrow> s
     | Some m \<Rightarrow>
        (if metadata_due now m
         then s\<lparr>payloads := dict_pop (payloads s) (task_id m), jobs := dict_pop (jobs s) tid\<rparr>
         else put_job (swept now s m) (snd (sweep_record now m s))))"
  by (simp add: sweep_job_def drop_payload_def sweep_record_def swept_def split: option.splits prod.splits)

lemma terminal_local:
  "dict_has (payloads s) (task_id m) = dict_has (payloads t) (task_id m) \<Longrightarrow>
    fst (terminal now st reason safe m s) = fst (terminal now st reason safe m t)"
  by (simp add: terminal_def Let_def release_conflicts_def drop_payload_def)

lemma sweep_timers_local:
  assumes "dict_has (payloads s) (task_id m) = dict_has (payloads t) (task_id m)"
  shows "fst (sweep_timers now m s) = fst (sweep_timers now m t)"
  using terminal_local [OF assms] by (simp add: sweep_timers_def sweep_lease_def)

lemma sweep_payload_local:
  assumes "dict_has (payloads s) (task_id m) = dict_has (payloads t) (task_id m)"
  shows "fst (sweep_payload now m s) = fst (sweep_payload now m t) \<and>
    task_id (fst (sweep_payload now m s)) = task_id m \<and>
    dict_has (payloads (snd (sweep_payload now m s))) (task_id m) =
    dict_has (payloads (snd (sweep_payload now m t))) (task_id m)"
  using assms
  by (auto simp: sweep_payload_def drop_payload_def terminal_def Let_def release_conflicts_def dict_has_def)

lemma swept_local:
  assumes "dict_has (payloads s) (task_id m) = dict_has (payloads t) (task_id m)"
  shows "swept now s m = swept now t m"
proof -
  obtain m1 s1 n1 t1 where p: "sweep_payload now m s = (m1, s1)" "sweep_payload now m t = (n1, t1)"
    by fastforce
  from sweep_payload_local [OF assms, of now] p have *: "m1 = n1" "task_id m1 = task_id m"
    "dict_has (payloads s1) (task_id m1) = dict_has (payloads t1) (task_id m1)"
    by auto
  from sweep_timers_local [OF *(3)] *(1) p show ?thesis by (simp add: swept_def sweep_record_def)
qed

lemma sweep_record_step:
  assumes "job_ok m" and "payload_fit s m"
  shows "local_step s m (snd (sweep_record now m s)) (swept now s m)"
proof -
  obtain m1 s1 where p: "sweep_payload now m s = (m1, s1)" by fastforce
  obtain m2 s2 where t: "sweep_timers now m1 s1 = (m2, s2)" by fastforce
  have a: "local_step s m s1 m1" by (rule sweep_payload_step [OF assms p])
  then have "job_ok m1" "payload_fit s1 m1" by (simp_all add: local_step_def)
  from sweep_timers_step [OF this t] a show ?thesis
    using p t by (auto simp: swept_def sweep_record_def intro: local_step_trans)
qed

section \<open>The pass over all records\<close>

lemma sweep_job_other:
  assumes ok: "jobs_ok s" and "tid \<noteq> k"
  shows "dict_get (jobs (sweep_job now s k)) tid = dict_get (jobs s) tid \<and>
    dict_get (payloads (sweep_job now s k)) tid = dict_get (payloads s) tid"
proof (cases "dict_get (jobs s) k")
  case None
  then show ?thesis by (simp add: sweep_job_def)
next
  case (Some m)
  have k: "task_id m = k" using jobs_okD(1) [OF ok Some] .
  from sweep_record_step [OF jobs_ok_fit(1,2) [OF ok Some], of now]
  have l: "jobs (snd (sweep_record now m s)) = jobs s" "task_id (swept now s m) = k"
    "payloads (snd (sweep_record now m s)) \<in> {payloads s, dict_pop (payloads s) k}"
    using k by (auto simp: local_step_def evolves_def same_core_def)
  with assms(2) Some k show ?thesis by (auto simp: sweep_job_record put_job_def)
qed

lemma sweep_job_self:
  assumes ok: "jobs_ok s" and m: "dict_get (jobs s) tid = Some m"
  shows "dict_get (jobs (sweep_job now s tid)) tid = (if metadata_due now m then None else Some (swept now s m))"
proof -
  from sweep_record_step [OF jobs_ok_fit(1,2) [OF ok m], of now] jobs_okD(1) [OF ok m]
  have "jobs (snd (sweep_record now m s)) = jobs s" "task_id (swept now s m) = tid"
    by (auto simp: local_step_def evolves_def same_core_def)
  with m show ?thesis by (simp add: sweep_job_record put_job_def)
qed

lemma sweep_jobs_pointwise:
  assumes "jobs_ok s" and "distinct ks"
  shows "dict_get (jobs (foldl (sweep_job now) s ks)) tid =
    (if tid \<in> set ks
     then (case dict_get (jobs s) tid of None \<Rightarrow> None | Some m \<Rightarrow> if metadata_due now m then None else Some (swept now s m))
     else dict_get (jobs s) tid)"
  using assms
proof (induction ks arbitrary: s)
  case Nil
  then show ?case by simp
next
  case (Cons k ks)
  let ?s = "sweep_job now s k"
  have ok: "jobs_ok ?s" using sweep_job_ok [OF Cons.prems(1)] by blast
  have IH: "dict_get (jobs (foldl (sweep_job now) ?s ks)) tid =
    (if tid \<in> set ks
     then (case dict_get (jobs ?s) tid of None \<Rightarrow> None | Some m \<Rightarrow> if metadata_due now m then None else Some (swept now ?s m))
     else dict_get (jobs ?s) tid)"
    using Cons.IH [OF ok] Cons.prems(2) by simp
  show ?case
  proof (cases "tid = k")
    case True
    then have "tid \<notin> set ks" using Cons.prems(2) by simp
    moreover have "dict_get (jobs ?s) tid =
      (case dict_get (jobs s) tid of None \<Rightarrow> None | Some m \<Rightarrow> if metadata_due now m then None else Some (swept now s m))"
    proof (cases "dict_get (jobs s) k")
      case None
      with True show ?thesis by (simp add: sweep_job_def)
    next
      case (Some m)
      with True sweep_job_self [OF Cons.prems(1) Some, of now] show ?thesis by simp
    qed
    ultimately show ?thesis using IH True by simp
  next
    case False
    have o: "dict_get (jobs ?s) tid = dict_get (jobs s) tid" "dict_get (payloads ?s) tid = dict_get (payloads s) tid"
      using sweep_job_other [OF Cons.prems(1) False] by auto
    have "swept now ?s m = swept now s m" if "dict_get (jobs s) tid = Some m" for m
      using jobs_okD(1) [OF Cons.prems(1) that] o(2) by (intro swept_local) (simp add: dict_has_def)
    then show ?thesis using IH o(1) False by (simp split: option.splits)
  qed
qed

lemma sweep_pointwise:
  assumes ok: "jobs_ok s"
  shows "dict_get (jobs (sweep now s)) tid =
    (case dict_get (jobs s) tid of None \<Rightarrow> None | Some m \<Rightarrow> if metadata_due now m then None else Some (swept now s m))"
proof -
  let ?s1 = "s\<lparr>identities := filter (\<lambda>p. \<not> snd (snd (snd p)) \<le> now) (identities s),
               operations := filter (\<lambda>p. \<not> snd (snd (snd p)) \<le> now) (operations s)\<rparr>"
  have ok1: "jobs_ok ?s1" using ok by (simp add: jobs_ok_def)
  have d: "distinct (dict_keys (jobs ?s1))" using jobs_ok_dicts [OF ok1] by (simp add: dict_ok_def)
  have "swept now ?s1 m = swept now s m" for m by (rule swept_local) simp
  with sweep_jobs_pointwise [OF ok1 d, of now tid] show ?thesis
    by (simp add: sweep_def Let_def set_dict_keys_iff split: option.splits)
qed

lemma sweep_jobE:
  assumes "jobs_ok s" and "dict_get (jobs (sweep now s)) tid = Some m'"
  obtains m where "dict_get (jobs s) tid = Some m" "\<not> metadata_due now m" "m' = swept now s m"
  using assms(2) unfolding sweep_pointwise [OF assms(1)] by (auto split: option.splits if_splits)

section \<open>A second pass\<close>

definition settled :: "secs \<Rightarrow> job \<Rightarrow> bool" where
  "settled now m \<longleftrightarrow>
    \<not> metadata_due now m \<and>
    (payload_expires_at m \<le> now \<longrightarrow> \<not> active_state (state m) \<and> \<not> retry_eligible m \<and> \<not> retry_payload_available m) \<and>
    (active_state (state m) \<longrightarrow> now < deadline_at m) \<and>
    (held_state (state m) \<longrightarrow> \<not> lease_over now m) \<and>
    (state m = DELAYED \<longrightarrow> now < not_before m)"

lemma terminal_settled:
  assumes "\<not> active_state st"
  shows "settled now (fst (terminal now st reason safe m s))"
  using assms held_active [of st]
  by (auto simp: terminal_def Let_def release_conflicts_def drop_payload_def settled_def metadata_due_def
      METADATA_RETENTION_def RETRY_PAYLOAD_RETENTION_def)

lemma sweep_timers_settled:
  assumes "\<not> metadata_due now m"
    and "payload_expires_at m \<le> now \<Longrightarrow> \<not> active_state (state m) \<and> \<not> retry_eligible m \<and> \<not> retry_payload_available m"
  shows "settled now (fst (sweep_timers now m s))"
proof -
  consider (dl) "active_state (state m)" "deadline_at m \<le> now"
    | (lease) "\<not> (active_state (state m) \<and> deadline_at m \<le> now)" "held_state (state m)" "lease_over now m"
    | (rest) "\<not> (active_state (state m) \<and> deadline_at m \<le> now)" "\<not> (held_state (state m) \<and> lease_over now m)"
    by blast
  then show ?thesis
  proof cases
    case dl
    then show ?thesis by (simp add: sweep_timers_def terminal_settled)
  next
    case lease
    then have "active_state (state m)" by (simp add: held_active)
    with lease assms show ?thesis
      by (auto simp: sweep_timers_def sweep_lease_def terminal_settled)
        (auto simp: settled_def metadata_due_def)
  next
    case rest
    then show ?thesis using assms by (auto simp: sweep_timers_def settled_def metadata_due_def)
  qed
qed

lemma swept_settled:
  assumes "\<not> metadata_due now m"
  shows "settled now (swept now s m)"
proof -
  obtain m1 s1 where p: "sweep_payload now m s = (m1, s1)" by fastforce
  have "\<not> metadata_due now m1 \<and>
    (payload_expires_at m1 \<le> now \<longrightarrow> \<not> active_state (state m1) \<and> \<not> retry_eligible m1 \<and> \<not> retry_payload_available m1)"
  proof (cases "payload_expires_at m \<le> now \<and> active_state (state m)")
    case True
    obtain m0 s0 where d: "drop_payload m s = (m0, s0)" by fastforce
    then have "active_state (state m0)" using True by (auto simp: drop_payload_def)
    with True p d have "m1 = fst (terminal now (if uncertain m0 then UNKNOWN_DELIVERY else EXPIRED) (Some ''payload_expired'') False m0 s0)"
      by (simp add: sweep_payload_def)
    then have "settled now m1" by (simp add: terminal_settled)
    then show ?thesis by (simp add: settled_def)
  next
    case False
    with p assms show ?thesis
      by (auto simp: sweep_payload_def drop_payload_def metadata_due_def split: if_splits)
  qed
  then show ?thesis using sweep_timers_settled [of now m1 s1] p by (simp add: swept_def sweep_record_def)
qed

lemma drop_payload_idle:
  assumes "\<not> retry_eligible m" "\<not> retry_payload_available m" "dict_get (payloads s) (task_id m) = None"
  shows "drop_payload m s = (m, s)"
  using assms by (cases m, cases s) (simp add: drop_payload_def dict_pop_absent)

lemma settled_sweep_record:
  assumes st: "settled now m" and gone: "payload_expires_at m \<le> now \<Longrightarrow> dict_get (payloads s) (task_id m) = None"
  shows "sweep_record now m s = (m, s)"
proof -
  have "sweep_payload now m s = (m, s)"
  proof (cases "payload_expires_at m \<le> now")
    case True
    with st gone have "drop_payload m s = (m, s)" "\<not> active_state (state m)"
      by (simp_all add: settled_def drop_payload_idle)
    then show ?thesis by (simp add: sweep_payload_def)
  qed (simp add: sweep_payload_def)
  moreover have "\<not> (active_state (state m) \<and> deadline_at m \<le> now)" "\<not> (held_state (state m) \<and> lease_over now m)"
      "\<not> (state m = DELAYED \<and> not_before m \<le> now)"
    using st by (auto simp: settled_def)
  then have "sweep_timers now m s = (m, s)" by (simp only: sweep_timers_def if_False)
  ultimately show ?thesis by (simp add: sweep_record_def)
qed

lemma foldl_fixed: "(\<And>k. k \<in> set ks \<Longrightarrow> f s k = s) \<Longrightarrow> foldl f s ks = s"
  by (induction ks) auto

lemma extend_identity_until:
  assumes "list_all (\<lambda>p. now < snd (snd (snd p))) d"
  shows "list_all (\<lambda>p. now < snd (snd (snd p))) (foldl (extend_identity now) d ids)"
  using assms
proof (induction ids arbitrary: d)
  case (Cons i ids)
  have "list_all (\<lambda>p. now < snd (snd (snd p))) (dict_set d i v)" if "now < snd (snd v)" for v
    using Cons.prems that by (induction d i v rule: dict_set.induct) auto
  then have "list_all (\<lambda>p. now < snd (snd (snd p))) (extend_identity now d i)"
    using Cons.prems by (auto simp: extend_identity_def METADATA_RETENTION_def split: option.splits)
  then show ?case using Cons.IH by simp
qed simp

lemma terminal_fst_snd:
  "state (fst (terminal now st reason safe m s)) = st"
  "finish_token (fst (terminal now st reason safe m s)) = finish_token m"
  "identities (snd (terminal now st reason safe m s)) = foldl (extend_identity now) (identities s) (identity_aliases m)"
  "operations (snd (terminal now st reason safe m s)) = operations s"
  by (simp_all add: terminal_def Let_def release_conflicts_def drop_payload_def)

lemma sweep_payload_identities:
  "list_all (\<lambda>p. now < snd (snd (snd p))) (identities s) \<Longrightarrow>
    list_all (\<lambda>p. now < snd (snd (snd p))) (identities (snd (sweep_payload now m s))) \<and>
    operations (snd (sweep_payload now m s)) = operations s"
  by (simp add: sweep_payload_def drop_payload_def terminal_fst_snd extend_identity_until)

lemma sweep_timers_identities:
  "list_all (\<lambda>p. now < snd (snd (snd p))) (identities s) \<Longrightarrow>
    list_all (\<lambda>p. now < snd (snd (snd p))) (identities (snd (sweep_timers now m s))) \<and>
    operations (snd (sweep_timers now m s)) = operations s"
  by (simp add: sweep_timers_def sweep_lease_def terminal_fst_snd extend_identity_until)

lemma sweep_record_identities:
  assumes "list_all (\<lambda>p. now < snd (snd (snd p))) (identities s)"
  shows "list_all (\<lambda>p. now < snd (snd (snd p))) (identities (snd (sweep_record now m s))) \<and>
    operations (snd (sweep_record now m s)) = operations s"
  using sweep_payload_identities [OF assms, of m] sweep_timers_identities
  by (simp add: sweep_record_def case_prod_beta)

lemma sweep_jobs_identities:
  "list_all (\<lambda>p. now < snd (snd (snd p))) (identities s) \<Longrightarrow>
    list_all (\<lambda>p. now < snd (snd (snd p))) (identities (foldl (sweep_job now) s ks)) \<and>
    operations (foldl (sweep_job now) s ks) = operations s"
proof (induction ks arbitrary: s)
  case (Cons k ks)
  have "list_all (\<lambda>p. now < snd (snd (snd p))) (identities (sweep_job now s k)) \<and>
    operations (sweep_job now s k) = operations s"
    using Cons.prems sweep_record_identities [OF Cons.prems]
    by (auto simp: sweep_job_record put_job_def split: option.splits)
  with Cons.IH [of "sweep_job now s k"] show ?case by simp
qed simp

lemma sweep_alive:
  "list_all (\<lambda>p. now < snd (snd (snd p))) (identities (sweep now s))"
  "list_all (\<lambda>p. now < snd (snd (snd p))) (operations (sweep now s))"
proof -
  let ?s1 = "s\<lparr>identities := filter (\<lambda>p. \<not> snd (snd (snd p)) \<le> now) (identities s),
               operations := filter (\<lambda>p. \<not> snd (snd (snd p)) \<le> now) (operations s)\<rparr>"
  have "list_all (\<lambda>p. now < snd (snd (snd p))) (identities ?s1)" by (simp add: list_all_iff)
  from sweep_jobs_identities [OF this, of "dict_keys (jobs s)"]
  show "list_all (\<lambda>p. now < snd (snd (snd p))) (identities (sweep now s))"
    "list_all (\<lambda>p. now < snd (snd (snd p))) (operations (sweep now s))"
    by (auto simp: sweep_def Let_def list_all_iff)
qed

lemma sweep_twice:
  assumes ok: "jobs_ok s"
  shows "sweep now (sweep now s) = sweep now s"
proof -
  let ?t = "sweep now s"
  have ok': "jobs_ok ?t" using ok by (rule sweep_ok)
  have fixed: "sweep_job now ?t k = ?t" for k
  proof (cases "dict_get (jobs ?t) k")
    case None
    then show ?thesis by (simp add: sweep_job_def)
  next
    case (Some m')
    then have st: "settled now m'" using swept_settled by (auto elim: sweep_jobE [OF ok])
    have k: "task_id m' = k" using jobs_okD(1) [OF ok' Some] .
    have "dict_get (payloads ?t) (task_id m') = None" if "payload_expires_at m' \<le> now"
      using st that jobs_ok_fit(2) [OF ok' Some] by (auto simp: settled_def payload_fit_def dict_has_def)
    from settled_sweep_record [OF st this] have "sweep_record now m' ?t = (m', ?t)" .
    moreover have "put_job m' ?t = ?t" using Some k by (simp add: put_job_def dict_set_same)
    ultimately show ?thesis using Some st by (simp add: sweep_job_record swept_def settled_def)
  qed
  have keep: "filter (\<lambda>p. \<not> snd (snd (snd p)) \<le> now) (identities ?t) = identities ?t"
    "filter (\<lambda>p. \<not> snd (snd (snd p)) \<le> now) (operations ?t) = operations ?t"
    using sweep_alive [of now s] by (auto simp: list_all_iff not_le intro!: filter_True)
  have "sweep now ?t = foldl (sweep_job now) ?t (dict_keys (jobs ?t))"
    unfolding sweep_def [of now ?t] by (simp add: Let_def keep)
  also have "\<dots> = ?t" by (rule foldl_fixed) (rule fixed)
  finally show ?thesis .
qed

section \<open>What a sweep decides\<close>

lemma sweep_timers_over: "\<not> active_state (state m) \<Longrightarrow> sweep_timers now m s = (m, s)"
  by (auto simp: sweep_timers_def active_state_def held_state_def)

lemma swept_token: "finish_token (swept now s m) = finish_token m"
proof -
  have p: "finish_token (fst (sweep_payload now n t)) = finish_token n" for n t
    by (simp add: sweep_payload_def drop_payload_def terminal_fst_snd)
  have "finish_token (fst (sweep_timers now n t)) = finish_token n" for n t
    by (simp add: sweep_timers_def sweep_lease_def terminal_fst_snd)
  with p [of m s] show ?thesis by (simp add: swept_def sweep_record_def case_prod_beta)
qed

lemma swept_effectful:
  assumes held: "held_state (state m)" and eff: "effectful m"
  shows "state (swept now s m) =
    (if payload_expires_at m \<le> now \<or> deadline_at m \<le> now \<or> lease_over now m then UNKNOWN_DELIVERY else state m)"
proof (cases "payload_expires_at m \<le> now")
  case True
  obtain m1 s1 where p: "sweep_payload now m s = (m1, s1)" by fastforce
  then have "state m1 = UNKNOWN_DELIVERY" using True held eff held_active [OF held]
    terminal_fst_snd(1) [of now UNKNOWN_DELIVERY "Some ''payload_expired''" False
      "m\<lparr>retry_payload_available := False, retry_eligible := False\<rparr>" "s\<lparr>payloads := dict_pop (payloads s) (task_id m)\<rparr>"]
    by (simp add: sweep_payload_def drop_payload_def uncertain_def)
  with p True show ?thesis by (simp add: swept_def sweep_record_def sweep_timers_over)
next
  case False
  then have "swept now s m = fst (sweep_timers now m s)" by (simp add: swept_def sweep_record_def sweep_payload_def)
  with False held eff held_active [OF held] show ?thesis
    by (auto simp: sweep_timers_def sweep_lease_def terminal_fst_snd uncertain_def held_state_def)
qed

end
