(* ===== verification/Queue_Identity.thy ===== *)
theory Queue_Identity
  imports Queue_Sweep
begin

text \<open>
  The idempotency index of the store: an entry that is still valid when a call begins keeps its
  task and its fingerprint through the call, and is valid at least as long as before or for a full
  retention from the time of the call. Only the erasure of a user removes valid entries.
\<close>

section \<open>One call\<close>

definition ids_step :: "secs \<Rightarrow> store \<Rightarrow> store \<Rightarrow> bool" where
  "ids_step now s s' \<longleftrightarrow>
    (\<forall>i tid fp u. dict_get (identities s) i = Some (tid, fp, u) \<and> now < u \<longrightarrow>
      (\<exists>u'. dict_get (identities s') i = Some (tid, fp, u') \<and> (u \<le> u' \<or> now + METADATA_RETENTION \<le> u')))"

lemma retention_pos [simp]: "0 < METADATA_RETENTION"
  by (simp add: METADATA_RETENTION_def)

lemma ids_stepD:
  assumes "ids_step now s s'" and "dict_get (identities s) i = Some (tid, fp, u)" and "now < u"
  obtains u' where "dict_get (identities s') i = Some (tid, fp, u')" "u \<le> u' \<or> now + METADATA_RETENTION \<le> u'" "now < u'"
proof -
  from assms obtain u' where "dict_get (identities s') i = Some (tid, fp, u')" "u \<le> u' \<or> now + METADATA_RETENTION \<le> u'"
    unfolding ids_step_def by blast
  moreover from this(2) have "now < u'" using assms(3) retention_pos by linarith
  ultimately show ?thesis by (rule that)
qed

lemma ids_same: "identities s' = identities s \<Longrightarrow> ids_step now s s'"
  by (simp add: ids_step_def)

lemma ids_trans:
  assumes a: "ids_step now s s'" and b: "ids_step now s' s''"
  shows "ids_step now s s''"
  unfolding ids_step_def
proof (intro allI impI, elim conjE)
  fix i tid fp u
  assume e: "dict_get (identities s) i = Some (tid, fp, u)" "now < u"
  from a e obtain u' where 1: "dict_get (identities s') i = Some (tid, fp, u')" "u \<le> u' \<or> now + METADATA_RETENTION \<le> u'" "now < u'"
    by (rule ids_stepD)
  from b 1(1,3) obtain u'' where 2: "dict_get (identities s'') i = Some (tid, fp, u'')" "u' \<le> u'' \<or> now + METADATA_RETENTION \<le> u''"
    by (rule ids_stepD)
  from 1 2 show "\<exists>v. dict_get (identities s'') i = Some (tid, fp, v) \<and> (u \<le> v \<or> now + METADATA_RETENTION \<le> v)"
    by (intro exI [of _ u'']) auto
qed

lemma extend_identity_get:
  "dict_get (foldl (extend_identity now) d ids) i =
    (case dict_get d i of
       None \<Rightarrow> None
     | Some (tid, fp, u) \<Rightarrow> Some (tid, fp, if i \<in> set ids then now + METADATA_RETENTION else u))"
proof -
  let ?f = "\<lambda>v :: string \<times> string \<times> secs. (fst v, fst (snd v), now + METADATA_RETENTION)"
  have "dict_get (foldl (extend_identity now) d ids) i = (if i \<in> set ids then map_option ?f (dict_get d i) else dict_get d i)"
    by (rule pd.get_adjust_all) (simp_all add: extend_identity_def split: option.splits)
  then show ?thesis by (auto split: option.splits)
qed

lemma ids_extend: "identities s' = foldl (extend_identity now) (identities s) ids \<Longrightarrow> ids_step now s s'"
  by (auto simp: ids_step_def extend_identity_get)

lemma ids_terminal: "ids_step now s (snd (terminal now st reason safe m s))"
  by (rule ids_extend) (rule terminal_fst_snd(3))

lemma ids_put [simp]: "identities (put_job m s) = identities s"
  by (simp add: put_job_def)

lemma ids_put_right [simp]: "ids_step now s (put_job m s') = ids_step now s s'"
  by (simp add: ids_step_def)

lemma ids_record: "ids_step now s (snd (sweep_record now m s))"
proof -
  have p: "ids_step now s (snd (sweep_payload now m s))"
  proof (cases "payload_expires_at m \<le> now \<and> active_state (state m)")
    case True
    have "ids_step now s (snd (drop_payload m s))" by (rule ids_same) (simp add: drop_payload_def)
    then show ?thesis using True ids_trans [OF _ ids_terminal]
      by (auto simp: sweep_payload_def drop_payload_def)
  next
    case False
    then show ?thesis by (intro ids_same) (auto simp: sweep_payload_def drop_payload_def)
  qed
  have "ids_step now t (snd (sweep_timers now n t))" for n t
    by (auto simp: sweep_timers_def sweep_lease_def ids_terminal ids_same)
  with p show ?thesis by (auto simp: sweep_record_def case_prod_beta intro: ids_trans)
qed

lemma ids_sweep_job: "ids_step now s (sweep_job now s k)"
  by (auto simp: sweep_job_record ids_record ids_same split: option.splits)

lemma ids_sweep:
  assumes "dict_ok (identities s)"
  shows "ids_step now s (sweep now s)"
proof -
  let ?s1 = "s\<lparr>identities := filter (\<lambda>p. \<not> snd (snd (snd p)) \<le> now) (identities s),
               operations := filter (\<lambda>p. \<not> snd (snd (snd p)) \<le> now) (operations s)\<rparr>"
  have "ids_step now t (foldl (sweep_job now) t ks)" for t ks
    by (induction ks arbitrary: t) (auto simp: ids_same intro: ids_trans [OF ids_sweep_job])
  moreover have "ids_step now s ?s1" using assms by (auto simp: ids_step_def dict_get_filter)
  ultimately show ?thesis by (auto simp: sweep_def Let_def intro: ids_trans)
qed

section \<open>Every call but the erasure\<close>

lemma ids_finish_owned:
  assumes "dict_ok (identities s)"
  shows "ids_step now s (fst (finish_owned now tid owner rv r delay s))"
proof -
  have t: "ids_step now t (snd (finish_transition now delay r n t))" for n t
    by (auto simp: finish_transition_def finish_retryable_def ids_terminal ids_same)
  obtain x where o: "owned now tid owner rv s = (sweep now s, x)" by (simp add: owned_def Let_def)
  show ?thesis
    using ids_sweep [OF assms, of now] o t
    by (auto simp: finish_owned_def case_prod_beta Let_def intro: ids_trans split: sum.splits)
qed

lemma ids_claim_loop: "ids_step now s (fst (claim_loop now owner busy ms s))"
proof (induction ms arbitrary: s)
  case (Cons m ms)
  have t: "ids_step now s (fst (claim_loop now owner busy ms (put_job (fst r) (snd r))))"
    if "ids_step now s (snd r)" for r
    using ids_trans [OF _ Cons.IH, of s "put_job (fst r) (snd r)"] that by simp
  show ?case using Cons.IH t [OF ids_terminal]
    by (auto simp: case_prod_beta ids_same)
qed (simp add: ids_same)

lemma ids_admit_internal: "ids_step now s (fst (admit_internal env now e p credit s))"
proof -
  have fresh: "ids_step now s (fst (admit_fresh env now e q credit s))"
    if "\<And>tid fp u. dict_get (identities s) (job_identity env e) = Some (tid, fp, u) \<Longrightarrow> \<not> now < u" for q
  proof -
    have set_id: "ids_step now s t" if "identities t = dict_set (identities s) (job_identity env e) v" for t v
      using \<open>\<And>tid fp u. dict_get (identities s) (job_identity env e) = Some (tid, fp, u) \<Longrightarrow> \<not> now < u\<close> that
      by (auto simp: ids_step_def)
    obtain l s1 where l: "lane_setdefault (lane e) q s = (l, s1)" by fastforce
    then have "identities s1 = identities s" by (auto simp: lane_setdefault_def split: option.splits)
    then show ?thesis using l
      by (auto simp: admit_fresh_def join_conflict_def insert_record_def Let_def ids_same set_id split: option.splits)
  qed
  then show ?thesis by (auto simp: admit_internal_def Let_def ids_same split: option.splits)
qed

lemma ids_retry_settle: "ids_step now s t \<Longrightarrow> ids_step now s (fst (retry_settle now2 key body cid m (t, adm)))"
  by (auto simp: retry_settle_def drop_payload_def put_operation_def ids_step_def)

text \<open>The reading of the clock in a call, and the calls of a time window that erase nothing.\<close>

fun op_time :: "queue_op \<Rightarrow> secs option" where
  "op_time (OpAdmit env now e p) = Some now"
| "op_time (OpClaim now nm owner) = Some now"
| "op_time (OpLoadPayload now tid owner) = Some now"
| "op_time (OpHeartbeat now tid owner rv) = Some now"
| "op_time (OpFinish now tid owner rv r delay) = Some now"
| "op_time (OpProgress now tid owner rv summ) = Some now"
| "op_time (OpCancel env now tid rv actor op_id) = Some now"
| "op_time (OpRetry env now tid rv actor op_id epoch) = Some now"
| "op_time (OpEraseUser uid) = None"
| "op_time (OpReadLane nm) = None"
| "op_time (OpSetLane env now nm rv ap cp actor op_id) = Some now"
| "op_time (OpReadJob now tid) = Some now"
| "op_time (OpPrivateRecord now tid) = Some now"
| "op_time (OpStats now nm) = Some now"
| "op_time (OpListJobs now nm st cursor limit) = Some now"

fun in_window :: "secs \<Rightarrow> secs \<Rightarrow> queue_op \<Rightarrow> bool" where
  "in_window lo hi (OpEraseUser uid) = False"
| "in_window lo hi op = (case op_time op of None \<Rightarrow> True | Some t \<Rightarrow> lo \<le> t \<and> t < hi)"

lemma ids_request_cancel:
  assumes "dict_ok (identities s)"
  shows "ids_step now s (fst (request_cancel env now tid rv actor op_id s))"
proof -
  have t: "ids_step now u (put_operation key body tid now (put_job (fst (cancel_transition now n u)) (snd (cancel_transition now n u))))"
    for n u key body
  proof -
    have "ids_step now u (snd (cancel_transition now n u))" by (auto simp: cancel_transition_def ids_terminal ids_same)
    then show ?thesis by (simp add: ids_step_def put_operation_def)
  qed
  show ?thesis
    using ids_sweep [OF assms, of now] t
    by (auto simp: request_cancel_def case_prod_beta Let_def intro: ids_trans split: sum.splits option.splits)
qed

lemma ids_retry:
  assumes "dict_ok (identities s)"
  shows "ids_step now s (fst (retry_job env now tid rv actor op_id epoch s))"
proof -
  have "ids_step now s (fst (admit_internal env now e p credit (sweep now s)))" for e p credit
    using ids_sweep [OF assms] ids_admit_internal by (rule ids_trans)
  then have "ids_step now s (fst (retry_settle now key body cid m (admit_internal env now e p credit (sweep now s))))"
    for key body cid m e p credit
    using ids_retry_settle [of now s "fst (admit_internal env now e p credit (sweep now s))" now key body cid m
        "snd (admit_internal env now e p credit (sweep now s))"] by simp
  then show ?thesis using ids_sweep [OF assms, of now]
    by (auto simp: retry_job_def case_prod_beta Let_def split: sum.splits option.splits)
qed

lemma ids_submit:
  assumes "dict_ok (identities s)"
  shows "ids_step now s (fst (submit env now e p s))"
proof -
  have "ids_step now s (fst (admit env now e' p' s))" for e' p'
    unfolding admit_def using ids_sweep [OF assms] ids_admit_internal by (rule ids_trans)
  then show ?thesis by (auto simp: submit_def case_prod_beta ids_same split: sum.splits)
qed

lemma ids_owner_calls:
  assumes ok: "jobs_ok s"
  shows "ids_step now s (fst (claim now nm owner s))" "ids_step now s (fst (heartbeat now tid owner rv s))"
    "ids_step now s (fst (finish now tid owner rv r delay s))" "ids_step now s (fst (update_progress now tid owner rv summ s))"
proof -
  have d: "dict_ok (identities s)" "dict_ok (identities (sweep now s))"
    using jobs_ok_dicts [OF ok] jobs_ok_dicts [OF sweep_ok(1) [OF ok]] by auto
  note sw = ids_sweep [OF d(1), of now]
  show "ids_step now s (fst (claim now nm owner s))"
    using sw ids_trans [OF sw ids_claim_loop] by (auto simp: claim_def Let_def case_prod_beta split: option.splits)
  obtain x where x: "owned now tid owner rv (sweep now s) = (sweep now s, x)" by (simp add: owned_def Let_def sweep_twice [OF ok])
  obtain y where y: "owned now tid owner rv s = (sweep now s, y)" by (simp add: owned_def Let_def)
  show "ids_step now s (fst (heartbeat now tid owner rv s))"
    using sw by (auto simp: heartbeat_def x Let_def split: sum.splits)
  show "ids_step now s (fst (update_progress now tid owner rv summ s))"
    using sw by (auto simp: update_progress_def y Let_def split: sum.splits)
  show "ids_step now s (fst (finish now tid owner rv r delay s))"
    using sw ids_trans [OF sw ids_finish_owned [OF d(2)]] by (auto simp: finish_def Let_def split: option.splits)
qed

lemma ids_lane_calls:
  "identities (fst (read_lane nm s)) = identities s"
  "identities (fst (set_lane_state env now nm rv ap cp actor op_id s)) = identities s"
proof -
  show r: "identities (fst (read_lane nm s)) = identities s" for s
    by (auto simp: read_lane_def lane_setdefault_def split: option.splits)
  obtain s1 x where l: "read_lane nm s = (s1, x)" by fastforce
  with r [of s] have "identities s1 = identities s" by simp
  then show "identities (fst (set_lane_state env now nm rv ap cp actor op_id s)) = identities s"
    using l r by (auto simp: set_lane_state_def Let_def put_operation_def split: sum.splits)
qed

lemma ids_queue_step:
  assumes inv: "store_inv s" and w: "in_window lo hi op"
  shows "\<exists>t. lo \<le> t \<and> t < hi \<and> ids_step t s (queue_step s op) \<or> identities (queue_step s op) = identities s"
proof -
  have ok: "jobs_ok s" and d: "dict_ok (identities s)" using inv jobs_ok_dicts by (auto simp: store_inv_def)
  show ?thesis
    using w
    by (cases op)
      (auto simp: ids_lane_calls load_payload_def read_job_def private_record_def stats_def list_jobs_def Let_def
        intro: ids_submit [OF d] ids_owner_calls [OF ok] ids_request_cancel [OF d] ids_retry [OF d] ids_sweep [OF d])
qed

text \<open>Within one retention of its making, an entry survives every run without an erasure.\<close>

lemma identity_survives:
  assumes "store_inv s" and "dict_get (identities s) i = Some (tid, fp, u)" and "lo + METADATA_RETENTION \<le> u"
    and "list_all (in_window lo (lo + METADATA_RETENTION)) ops"
  shows "\<exists>u'. dict_get (identities (queue_run s ops)) i = Some (tid, fp, u') \<and> lo + METADATA_RETENTION \<le> u'"
  using assms
proof (induction ops arbitrary: s u)
  case Nil
  then show ?case by (auto simp: queue_run_def)
next
  case (Cons op ops)
  from Cons.prems(4) have w: "in_window lo (lo + METADATA_RETENTION) op" and
    ws: "list_all (in_window lo (lo + METADATA_RETENTION)) ops" by simp_all
  have "\<exists>u'. dict_get (identities (queue_step s op)) i = Some (tid, fp, u') \<and> lo + METADATA_RETENTION \<le> u'"
    using ids_queue_step [OF Cons.prems(1) w]
  proof (elim exE disjE conjE)
    fix t assume t: "lo \<le> t" "t < lo + METADATA_RETENTION" "ids_step t s (queue_step s op)"
    with Cons.prems(3) have "t < u" by simp
    from t(3) Cons.prems(2) this obtain u' where "dict_get (identities (queue_step s op)) i = Some (tid, fp, u')"
      "u \<le> u' \<or> t + METADATA_RETENTION \<le> u'" by (rule ids_stepD)
    with t(1) Cons.prems(3) show ?thesis by (intro exI [of _ u']) auto
  next
    assume "identities (queue_step s op) = identities s"
    with Cons.prems(2,3) show ?thesis by auto
  qed
  then obtain u' where u': "dict_get (identities (queue_step s op)) i = Some (tid, fp, u')" "lo + METADATA_RETENTION \<le> u'"
    by blast
  from Cons.IH [OF qs.step_invar [OF Cons.prems(1)] u' ws] show ?case by (simp add: queue_run_def)
qed

end
