(* ===== verification/Queue_Commands.thy ===== *)
theory Queue_Commands
  imports Queue_Identity
begin

text \<open>
  Facts about single calls of the store: the claim's choice, the replay of \<open>finish\<close>, the erasure
  of a user, the manual retry and the pages of \<open>list_jobs\<close>.
\<close>

section \<open>The choice of a claim\<close>

abbreviation busy_image :: "store \<Rightarrow> bool" where
  "busy_image s \<equiv> \<exists>m \<in> set (held_jobs s). image_work m"

lemma claim_order_first:
  assumes "claim_order ms = pre @ m # post" and "x \<in> set ms" and "x \<notin> set pre"
  shows "(- priority m, sequence m) \<le> (- priority x, sequence x)"
proof -
  have "sorted (map (\<lambda>m. (- priority m, sequence m)) (claim_order ms))" by (simp add: claim_order_def)
  moreover have "x \<in> set (claim_order ms)" using assms(2) by (simp add: claim_order_def)
  ultimately show ?thesis using assms(1,3) by (auto simp: sorted_append)
qed

lemma claim_best:
  assumes ok: "jobs_ok s" and eq: "claim now nm owner s = (s1, Inr (Some c))"
  obtains m where "m \<in> set (lane_queued (sweep now s) nm)" "claimable (sweep now s) (busy_image (sweep now s)) m"
    "c = mk_claim owner (start_run now owner m)" "dict_get (jobs s1) (task_id m) = Some (start_run now owner m)"
    "\<And>x. x \<in> set (lane_queued (sweep now s) nm) \<Longrightarrow> claimable (sweep now s) (busy_image (sweep now s)) x \<Longrightarrow>
      (- priority m, sequence m) \<le> (- priority x, sequence x)"
proof -
  from claim_cases [OF ok eq] obtain s' where
    "claim_outcome now owner (busy_image (sweep now s)) (claim_order (lane_queued (sweep now s) nm)) (sweep now s) s' s1 (Some c)"
    by auto
  then obtain pre m post where o: "claim_order (lane_queued (sweep now s) nm) = pre @ m # post"
    "\<forall>x \<in> set pre. \<not> claimable (sweep now s) (busy_image (sweep now s)) x"
    "claimable (sweep now s) (busy_image (sweep now s)) m"
    "s1 = put_job (start_run now owner m) s'" "c = mk_claim owner (start_run now owner m)"
    by (rule claim_outcome_start)
  have "set (claim_order (lane_queued (sweep now s) nm)) = set (lane_queued (sweep now s) nm)"
    by (simp add: claim_order_def)
  with o(1) have "m \<in> set (lane_queued (sweep now s) nm)" by auto
  moreover have "(- priority m, sequence m) \<le> (- priority x, sequence x)"
    if "x \<in> set (lane_queued (sweep now s) nm)" "claimable (sweep now s) (busy_image (sweep now s)) x" for x
    using claim_order_first [OF o(1) that(1)] o(2) that(2) by blast
  ultimately show ?thesis using o(3-5) by (intro that [of m]) (simp_all add: put_job_def)
qed

lemma claim_idle:
  assumes ok: "jobs_ok s" and eq: "claim now nm owner s = (s1, Inr None)"
    and open_lane: "\<And>l. dict_get (lanes (sweep now s)) nm = Some l \<Longrightarrow> \<not> claim_paused l"
    and room: "dict_get LANE_WORKERS nm = Some w" "lane_held (sweep now s) nm < w"
  shows "m \<in> set (lane_queued (sweep now s) nm) \<Longrightarrow> \<not> claimable (sweep now s) (busy_image (sweep now s)) m"
proof -
  let ?s = "sweep now s"
  assume m: "m \<in> set (lane_queued ?s nm)"
  obtain s2 r where l: "claim_loop now owner (busy_image ?s) (claim_order (lane_queued ?s nm)) ?s = (s2, r)" by fastforce
  have "r = None" using eq l room open_lane by (auto simp: claim_def Let_def split: option.splits)
  have ok': "jobs_ok ?s" using ok by (rule sweep_ok)
  from claim_loop_spec [OF ok' waiting_lane_queued [OF ok'] l] \<open>r = None\<close>
  have "\<forall>m \<in> set (claim_order (lane_queued ?s nm)). \<not> claimable ?s (busy_image ?s) m"
    by (auto simp: claim_outcome_def)
  with m show ?thesis by (simp add: claim_order_def)
qed

section \<open>Replay of a settlement\<close>

lemma finish_token_set:
  assumes ok: "jobs_ok s" and eq: "finish now tid owner rv r d s = (s1, Inr snap)"
  shows "\<exists>m. dict_get (jobs s1) tid = Some m \<and> finish_token m = Some owner"
proof -
  let ?s = "sweep now s"
  have owned: ?thesis if f: "finish_owned now tid owner rv r d ?s = (s1, Inr snap)"
  proof -
    obtain x where x: "owned now tid owner rv ?s = (?s, x)" by (simp add: owned_def Let_def sweep_twice [OF ok])
    with f obtain m where xm: "x = Inr m" by (auto simp: finish_owned_def split: sum.splits)
    have m: "dict_get (jobs ?s) tid = Some m" "held_state (state m)" using owned_spec [OF x] xm by auto
    from f x xm obtain clean where c: "public_summary (summary_of r) = Inr clean" by (auto simp: finish_owned_def split: sum.splits)
    obtain m1 t where t: "finish_transition now d r (m\<lparr>result_summary := summary_merge (result_summary m) clean\<rparr>) ?s = (m1, t)"
      by fastforce
    have ok': "jobs_ok ?s" using ok by (rule sweep_ok)
    have "local_step ?s (m\<lparr>result_summary := summary_merge (result_summary m) clean\<rparr>) t m1"
      by (rule finish_transition_step [OF _ _ _ t]) (use jobs_ok_fit(1,2) [OF ok' m(1)] m(2) in simp_all)
    then have "task_id m1 = tid" using jobs_okD(1) [OF ok' m(1)] by (simp add: local_step_def evolves_def same_core_def)
    with f x xm c t show ?thesis by (auto simp: finish_owned_def Let_def put_job_def)
  qed
  show ?thesis
  proof (cases "\<exists>m. dict_get (jobs ?s) tid = Some m \<and> finish_token m = Some owner")
    case True
    with eq show ?thesis by (auto simp: finish_def Let_def)
  next
    case False
    with eq owned show ?thesis by (auto simp: finish_def Let_def split: option.splits if_splits)
  qed
qed

section \<open>Erasure\<close>

lemma erase_job_get:
  assumes ok: "jobs_ok s"
  shows "dict_get (jobs (erase_job s k)) tid = (if tid = k then None else dict_get (jobs s) tid)"
    and "dict_get (jobs s) k = Some m \<Longrightarrow>
      dict_get (payloads (erase_job s k)) tid = (if tid = k then None else dict_get (payloads s) tid) \<and>
      dict_get (identities (erase_job s k)) i = (if i \<in> set (identity_aliases m) then None else dict_get (identities s) i)"
    and "dict_get (jobs s) k = None \<Longrightarrow> erase_job s k = s"
  using jobs_okD(1) [OF ok]
  by (auto simp: erase_job_def drop_payload_def release_conflicts_def Let_def pd.get_del_all split: option.splits)

lemma erase_jobs_get:
  assumes "jobs_ok s"
  shows "dict_get (jobs (foldl erase_job s ks)) tid = (if tid \<in> set ks then None else dict_get (jobs s) tid)"
  using assms
proof (induction ks arbitrary: s)
  case (Cons k ks)
  have "jobs_ok (erase_job s k)" using erase_job_quiet [OF Cons.prems] by (simp add: quiet_step_def)
  from Cons.IH [OF this] erase_job_get(1) [OF Cons.prems] show ?case by auto
qed simp

lemma erase_jobs_gone:
  assumes "jobs_ok s" and "dict_get (identities s) i = None"
  shows "dict_get (identities (foldl erase_job s ks)) i = None"
  using assms
proof (induction ks arbitrary: s)
  case (Cons k ks)
  have ok: "jobs_ok (erase_job s k)" using erase_job_quiet [OF Cons.prems(1)] by (simp add: quiet_step_def)
  have "dict_get (identities (erase_job s k)) i = None"
    using Cons.prems(2) erase_job_get(2) [OF Cons.prems(1), of k] erase_job_get(3) [OF Cons.prems(1), of k]
    by (cases "dict_get (jobs s) k") auto
  from Cons.IH [OF ok this] show ?case by simp
qed simp

lemma erase_jobs_payloads:
  assumes "jobs_ok s" and "dict_get (jobs s) tid = Some m"
  shows "dict_get (payloads (foldl erase_job s ks)) tid = (if tid \<in> set ks then None else dict_get (payloads s) tid) \<and>
    (tid \<in> set ks \<longrightarrow> (\<forall>i \<in> set (identity_aliases m). dict_get (identities (foldl erase_job s ks)) i = None))"
  using assms
proof (induction ks arbitrary: s)
  case (Cons k ks)
  have q: "quiet_step s (erase_job s k)" using erase_job_quiet [OF Cons.prems(1)] .
  then have ok: "jobs_ok (erase_job s k)" by (simp add: quiet_step_def)
  show ?case
  proof (cases "tid = k")
    case False
    then have "dict_get (jobs (erase_job s k)) tid = Some m" using erase_job_get(1) [OF Cons.prems(1)] Cons.prems(2) by simp
    moreover have "dict_get (payloads (erase_job s k)) tid = dict_get (payloads s) tid"
      using erase_job_get(2) [OF Cons.prems(1), of k] erase_job_get(3) [OF Cons.prems(1), of k] False
      by (cases "dict_get (jobs s) k") auto
    ultimately show ?thesis using Cons.IH [OF ok] False by simp
  next
    case True
    with erase_job_get(2) [OF Cons.prems(1), of k m] Cons.prems(2)
    have p: "dict_get (payloads (erase_job s k)) tid = None"
      and i: "\<And>i. i \<in> set (identity_aliases m) \<Longrightarrow> dict_get (identities (erase_job s k)) i = None" by auto
    have "quiet_step (erase_job s k) (foldl erase_job (erase_job s k) ks)" using ok by (rule erase_jobs_quiet)
    then have "dict_get (payloads (foldl erase_job (erase_job s k) ks)) tid = None"
      using p unfolding quiet_step_def evolved_def by (metis option.exhaust option.distinct(1))
    with True i erase_jobs_gone [OF ok] show ?thesis by simp
  qed
qed simp

text \<open>What an erasure of some jobs leaves, key by key.\<close>

lemma erase_jobs_frame:
  "operations (foldl erase_job s ks) = operations s" "lanes (foldl erase_job s ks) = lanes s" "seq_no (foldl erase_job s ks) = seq_no s"
  by (induction ks arbitrary: s) (simp_all add: erase_job_def drop_payload_def release_conflicts_def Let_def split: option.splits)

lemma release_conflicts_get:
  "dict_get (foldl (release_conflict m) d keys) (nm, u, key) =
    (if dict_get d (nm, u, key) = Some (task_id m) \<and> nm = lane m \<and> u = user_id m \<and> key \<in> set keys then None else dict_get d (nm, u, key))"
  by (induction keys arbitrary: d) (auto simp: release_conflict_def)

lemma erase_job_conflicts:
  assumes ok: "jobs_ok s" and k: "dict_get (jobs s) k = Some m"
  shows "dict_get (conflicts (erase_job s k)) (nm, u, key) =
    (if dict_get (conflicts s) (nm, u, key) = Some k \<and> nm = lane m \<and> u = user_id m \<and> key \<in> set (conflict_keys m) then None
     else dict_get (conflicts s) (nm, u, key))"
  using jobs_okD(1) [OF ok k] k by (simp add: erase_job_def drop_payload_def release_conflicts_def Let_def release_conflicts_get)

lemma erase_jobs_payload:
  assumes "jobs_ok s"
  shows "dict_get (payloads (foldl erase_job s ks)) tid = (if tid \<in> set ks \<and> dict_get (jobs s) tid \<noteq> None then None else dict_get (payloads s) tid)"
  using assms
proof (induction ks arbitrary: s)
  case (Cons k ks)
  have ok: "jobs_ok (erase_job s k)" using erase_job_quiet [OF Cons.prems] by (simp add: quiet_step_def)
  show ?case
  proof (cases "dict_get (jobs s) k")
    case None
    then show ?thesis using Cons.IH [OF Cons.prems] erase_job_get(3) [OF Cons.prems None] by auto
  next
    case (Some m)
    have "dict_get (payloads (erase_job s k)) tid = (if tid = k then None else dict_get (payloads s) tid)"
      using erase_job_get(2) [OF Cons.prems Some] by blast
    then show ?thesis using Cons.IH [OF ok] erase_job_get(1) [OF Cons.prems, of k] Some by (cases "tid = k") auto
  qed
qed simp

definition listed_identity :: "store \<Rightarrow> string list \<Rightarrow> string \<Rightarrow> bool" where
  "listed_identity s ks i \<longleftrightarrow> (\<exists>k m. k \<in> set ks \<and> dict_get (jobs s) k = Some m \<and> i \<in> set (identity_aliases m))"

lemma erase_jobs_identity:
  assumes "jobs_ok s"
  shows "dict_get (identities (foldl erase_job s ks)) i = (if listed_identity s ks i then None else dict_get (identities s) i)"
  using assms
proof (induction ks arbitrary: s)
  case (Cons k ks)
  have ok: "jobs_ok (erase_job s k)" using erase_job_quiet [OF Cons.prems] by (simp add: quiet_step_def)
  show ?case
  proof (cases "dict_get (jobs s) k")
    case None
    then have "listed_identity s (k # ks) i \<longleftrightarrow> listed_identity s ks i" by (auto simp: listed_identity_def)
    then show ?thesis using Cons.IH [OF Cons.prems] erase_job_get(3) [OF Cons.prems None] by simp
  next
    case (Some m)
    have "listed_identity s (k # ks) i \<longleftrightarrow> i \<in> set (identity_aliases m) \<or> listed_identity (erase_job s k) ks i"
    proof
      assume "listed_identity s (k # ks) i"
      then obtain x n where x: "x \<in> set (k # ks)" "dict_get (jobs s) x = Some n" "i \<in> set (identity_aliases n)" unfolding listed_identity_def by blast
      show "i \<in> set (identity_aliases m) \<or> listed_identity (erase_job s k) ks i"
        using x Some erase_job_get(1) [OF Cons.prems, of k] by (cases "x = k") (auto simp: listed_identity_def)
    qed (use Some erase_job_get(1) [OF Cons.prems, of k] in \<open>auto simp: listed_identity_def split: if_splits\<close>)
    moreover have "dict_get (identities (erase_job s k)) i = (if i \<in> set (identity_aliases m) then None else dict_get (identities s) i)"
      using erase_job_get(2) [OF Cons.prems Some] by blast
    ultimately show ?thesis using Cons.IH [OF ok] by simp
  qed
qed (simp add: listed_identity_def)

abbreviation conflict_of :: "store \<Rightarrow> string \<Rightarrow> string \<Rightarrow> int \<Rightarrow> string \<Rightarrow> bool" where
  "conflict_of s t nm u key \<equiv> (case dict_get (jobs s) t of None \<Rightarrow> False | Some m \<Rightarrow> nm = lane m \<and> u = user_id m \<and> key \<in> set (conflict_keys m))"

lemma erase_jobs_conflict:
  assumes "jobs_ok s"
  shows "dict_get (conflicts (foldl erase_job s ks)) (nm, u, key) =
    (case dict_get (conflicts s) (nm, u, key) of None \<Rightarrow> None | Some t \<Rightarrow> if t \<in> set ks \<and> conflict_of s t nm u key then None else Some t)"
  using assms
proof (induction ks arbitrary: s)
  case Nil
  show ?case by (simp split: option.split)
next
  case (Cons k ks)
  have ok: "jobs_ok (erase_job s k)" using erase_job_quiet [OF Cons.prems] by (simp add: quiet_step_def)
  show ?case
  proof (cases "dict_get (jobs s) k")
    case None
    then show ?thesis using Cons.IH [OF Cons.prems] erase_job_get(3) [OF Cons.prems None] by (cases "dict_get (conflicts s) (nm, u, key)") auto
  next
    case (Some m)
    note con = erase_job_conflicts [OF Cons.prems Some, of nm u key] and get = erase_job_get(1) [OF Cons.prems, of k]
    show ?thesis
    proof (cases "dict_get (conflicts s) (nm, u, key)")
      case None
      then show ?thesis using Cons.IH [OF ok] con by simp
    next
      case (Some t)
      then show ?thesis using Cons.IH [OF ok] con get \<open>dict_get (jobs s) k = Some m\<close> by (cases "t = k") simp_all
    qed
  qed
qed

section \<open>Manual retries\<close>

lemma retry_acceptedE:
  assumes "retry_job env now tid rv actor op_id epoch s = (s1, Inr adm)" and "adm_state adm = ACCEPTED"
  obtains m pl e l t where "dict_get (jobs (sweep now s)) tid = Some m" "retry_allowed tid rv epoch (sweep now s) m"
    "envelope_init (retry_child (command_key env actor op_id) (uuid5_url env (command_key env actor op_id)) epoch pl m) = Inr e"
    "dict_get (lanes (sweep now s)) (lane m) = Some l"
    "admit_internal env now e (lane_policy l) (payload_bytes m) (sweep now s) = (t, adm)"
    "s1 = fst (retry_settle now (command_key env actor op_id) (CmdRetry tid rv)
       (uuid5_url env (command_key env actor op_id)) m (t, adm))"
proof -
  let ?key = "command_key env actor op_id"
  have settle: "snd (retry_settle now key body cid m r) = snd r" for key body cid m r
    by (auto simp: retry_settle_def drop_payload_def split: prod.splits)
  have "\<exists>m pl e l. dict_get (jobs (sweep now s)) tid = Some m \<and> retry_allowed tid rv epoch (sweep now s) m \<and>
    envelope_init (retry_child ?key (uuid5_url env ?key) epoch pl m) = Inr e \<and>
    dict_get (lanes (sweep now s)) (lane m) = Some l \<and>
    (s1, adm) = retry_settle now ?key (CmdRetry tid rv) (uuid5_url env ?key) m
      (admit_internal env now e (lane_policy l) (payload_bytes m) (sweep now s))"
    using assms
    by (auto simp: retry_job_def Let_def case_prod_beta split: sum.splits option.splits if_splits) blast
  then obtain m pl e l where *: "dict_get (jobs (sweep now s)) tid = Some m" "retry_allowed tid rv epoch (sweep now s) m"
    "envelope_init (retry_child ?key (uuid5_url env ?key) epoch pl m) = Inr e"
    "dict_get (lanes (sweep now s)) (lane m) = Some l"
    "(s1, adm) = retry_settle now ?key (CmdRetry tid rv) (uuid5_url env ?key) m
      (admit_internal env now e (lane_policy l) (payload_bytes m) (sweep now s))" by blast
  obtain t a where ta: "admit_internal env now e (lane_policy l) (payload_bytes m) (sweep now s) = (t, a)" by fastforce
  from *(5) settle ta have "adm = a" by (metis snd_conv)
  with * ta show ?thesis by (intro that [of m pl e l t]) (simp_all, metis fst_conv)
qed

lemma retry_spent:
  assumes inv: "store_inv s" and eq: "retry_job env now tid rv actor op_id epoch s = (s1, Inr adm)"
    and acc: "adm_state adm = ACCEPTED" and fresh: "uuid5_url env (command_key env actor op_id) \<noteq> tid"
  shows "\<exists>m c. dict_get (jobs s1) tid = Some m \<and> retry_grants m = 0 \<and> dict_get (payloads s1) tid = None \<and>
    adm_task_id adm = Some (task_id c) \<and> dict_get (jobs s1) (task_id c) = Some c \<and> retry_grants c = 0 \<and>
    parent_task_id c = Some tid"
proof -
  let ?cid = "uuid5_url env (command_key env actor op_id)" and ?key = "command_key env actor op_id"
  have inv': "store_inv (sweep now s)" using inv by (rule sweep_inv)
  from retry_acceptedE [OF eq acc] obtain m pl e l t where m: "dict_get (jobs (sweep now s)) tid = Some m"
    and e: "envelope_init (retry_child ?key ?cid epoch pl m) = Inr e" and l: "dict_get (lanes (sweep now s)) (lane m) = Some l"
    and a: "admit_internal env now e (lane_policy l) (payload_bytes m) (sweep now s) = (t, adm)"
    and s1: "s1 = fst (retry_settle now ?key (CmdRetry tid rv) ?cid m (t, adm))" by metis
  have tm: "task_id m = tid" using jobs_okD(1) [OF _ m] inv' by (simp add: store_inv_def)
  have pol: "policy_ok (lane_policy l)" using inv' l by (auto simp: store_inv_def lanes_ok_def)
  have ei: "task_id e = ?cid" "retry_grants e = 0" "parent_task_id e = Some tid"
    using e tm by (auto simp: envelope_init_def retry_child_def split: if_splits sum.splits option.splits)
  from admit_internal_cases [OF inv' pol a] acc obtain u p1 where adm: "adm = admission ACCEPTED (Some ?cid) None"
    and t: "t = insert_record env now p1 e u" using ei(1) by auto
  let ?m = "m\<lparr>retry_grants := 0, retry_payload_available := False, retry_eligible := False\<rparr>"
  let ?c = "new_record env now p1 (seq_no u + 1) e"
  have "jobs s1 = dict_set (dict_set (jobs u) ?cid ?c) tid ?m" "payloads s1 = dict_pop (payloads t) tid"
    using fresh tm t ei(1) by (simp_all add: s1 adm retry_settle_def drop_payload_def put_job_def put_operation_def)
  with adm ei fresh show ?thesis
    by (intro exI [of _ ?m] exI [of _ ?c]) (simp add: new_record_def)
qed

section \<open>Pages\<close>

text \<open>A client that follows the cursors, at most \<open>n\<close> pages.\<close>

fun follow_pages :: "nat \<Rightarrow> secs \<Rightarrow> string option \<Rightarrow> job_state option \<Rightarrow> string option \<Rightarrow> int \<Rightarrow> store \<Rightarrow>
    queue_error + job_snapshot list" where
  "follow_pages 0 now nm st cursor limit s = Inr []"
| "follow_pages (Suc n) now nm st cursor limit s =
    (case list_jobs now nm st cursor limit s of
       (s1, Inl err) \<Rightarrow> Inl err
     | (s1, Inr (items, None)) \<Rightarrow> Inr items
     | (s1, Inr (items, Some c)) \<Rightarrow>
        (case follow_pages n now nm st (Some c) limit s1 of
           Inl err \<Rightarrow> Inl err
         | Inr rest \<Rightarrow> Inr (items @ rest)))"

lemma show_int_nonempty: "show_int i \<noteq> []"
  using py_int_show_int [of i] by (auto simp: py_int_def strip_def)

lemma cursor_offset_show: "0 \<le> i \<Longrightarrow> cursor_offset (Some (show_int i)) = Some i"
  by (simp add: cursor_offset_def show_int_nonempty py_int_show_int)

lemma follow_pages_drop:
  assumes ok: "jobs_ok s" and lim: "1 \<le> limit" "limit \<le> 100"
    and off: "cursor_offset cursor = Some off" "0 \<le> off"
    and fuel: "length (list_records nm st (sweep now s)) \<le> nat off + n"
  shows "follow_pages n now nm st cursor limit s = Inr (map snapshot (drop (nat off) (list_records nm st (sweep now s))))"
  using ok off fuel
proof (induction n arbitrary: s cursor off)
  case 0
  then show ?case by simp
next
  case (Suc n)
  let ?t = "sweep now s" and ?rs = "list_records nm st (sweep now s)"
  have t: "jobs_ok ?t" "sweep now ?t = ?t" using Suc.prems(1) by (simp_all add: sweep_ok sweep_twice)
  have page: "list_jobs now nm st cursor limit s =
    (?t, Inr (map snapshot (take (nat limit) (drop (nat off) ?rs)),
              if int (length ?rs) > off + limit then Some (show_int (off + limit)) else None))"
    using lim Suc.prems(2) by (simp add: list_jobs_def Let_def)
  show ?case
  proof (cases "int (length ?rs) > off + limit")
    case False
    then have "length (drop (nat off) ?rs) \<le> nat limit" using Suc.prems(3) lim by simp
    with page False show ?thesis by simp
  next
    case True
    have "follow_pages n now nm st (Some (show_int (off + limit))) limit ?t =
      Inr (map snapshot (drop (nat (off + limit)) ?rs))"
      using Suc.IH [OF t(1), of "Some (show_int (off + limit))" "off + limit"] t(2) lim Suc.prems(3,4)
      by (simp add: cursor_offset_show)
    moreover have "drop (nat off) ?rs = take (nat limit) (drop (nat off) ?rs) @ drop (nat (off + limit)) ?rs"
      using lim Suc.prems(3) by (simp add: nat_add_distrib add.commute flip: drop_drop)
    ultimately show ?thesis using page True by (simp flip: map_append)
  qed
qed

end
