(* ===== verification/Queue_Properties.thy ===== *)
theory Queue_Properties
  imports Queue_Commands
begin

text \<open>
  The properties of the job queue, over all runs of its operations or over one call on a reachable
  store, with their witnesses. A witness runs the model on the small trace \<open>demo_ops\<close>.
\<close>

section \<open>A concrete trace\<close>

definition demo_env :: queue_env where
  "demo_env = \<lparr>sha256_hex = (\<lambda>t. t), json_dumps = (\<lambda>e b. kind e), json_data = (\<lambda>t. None), uuid5_url = (\<lambda>t. t)\<rparr>"

definition demo_envelope :: "string \<Rightarrow> string \<Rightarrow> envelope" where
  "demo_envelope tid key =
    \<lparr>task_id = tid, kind = ''k'', lane = ''deferred'', user_id = 7, privacy_epoch = None, priority = 0,
     delay_seconds = 0, effectful = True, image_work = False, parent_task_id = None, retry_grants = 1,
     conflict_keys = [], execution_timeout_seconds = None, payload = ''p'', idempotency_key = key,
     envelope_summary = []\<rparr>"

definition demo_ops :: "queue_op list" where
  "demo_ops =
    [OpAdmit demo_env 1 (demo_envelope ''a'' ''x'') DEFAULT_QUEUE_POLICY,
     OpClaim 2 ''deferred'' ''w'']"

definition demo_store :: store where
  "demo_store = queue_run empty_store demo_ops"

lemma demo_job:
  "map_option (\<lambda>m. (state m, revision m, attempts_started m, owner_token m)) (dict_get (jobs demo_store) ''a'')
    = Some (RUNNING, 2, 1, Some ''w'')"
  by code_simp

section \<open>Bounds over every run\<close>

lemma reachable_job:
  assumes "dict_get (jobs (queue_run empty_store ops)) tid = Some m"
  shows "task_id m = tid" "job_ok m" "sequence m \<le> seq_no (queue_run empty_store ops)"
    "retry_eligible m \<Longrightarrow> dict_has (payloads (queue_run empty_store ops)) tid"
  using jobs_okD [OF _ assms] run_inv [of ops] by (simp_all add: store_inv_def)

text \<open>Property C3. Whatever sequence of calls the store has served from empty, no lane has more running
  or cancel-requested jobs than its number of workers, at most one of them over all lanes does image
  work, and in every lane the active jobs and the retained payload bytes stay within its policy.\<close>

theorem queue_capacity:
  "list_all (\<lambda>(nm, w). lane_held (queue_run empty_store ops) nm \<le> w) LANE_WORKERS \<and>
   length (filter image_work (held_jobs (queue_run empty_store ops))) \<le> 1 \<and>
   list_all (\<lambda>(nm, p). int (length (lane_active (queue_run empty_store ops) nm)) \<le> max_jobs p \<and>
     lane_payload_bytes (queue_run empty_store ops) nm \<le> max_total_payload_bytes p) LANE_POLICIES"
proof -
  have cap: "capacity_ok (queue_run empty_store ops)" using run_inv by (simp add: store_inv_def)
  have "dict_ok LANE_WORKERS" "dict_ok LANE_POLICIES" by code_simp+
  then have "dict_get LANE_WORKERS nm = Some w" if "(nm, w) \<in> set LANE_WORKERS" for nm w
    using that by (simp add: dict_ok_in_iff)
  moreover have "dict_get LANE_POLICIES nm = Some p" if "(nm, p) \<in> set LANE_POLICIES" for nm p
    using that \<open>dict_ok LANE_POLICIES\<close> by (simp add: dict_ok_in_iff)
  ultimately show ?thesis
    using capacity_workersD [OF cap] capacity_laneD [OF cap] cap
    by (auto simp: list_all_iff capacity_ok_def)
qed

text \<open>Property C4. In every reachable store a record is stored under its own task identifier, has an
  owner exactly while it is running or being cancelled, has a finish time exactly when its state
  is terminal, has started at most \<open>max_attempts\<close> of at most three attempts, and is offered for a
  manual retry only in state FAILED or EXPIRED, with a grant left and its payload still there.\<close>

theorem queue_records:
  assumes "dict_get (jobs (queue_run empty_store ops)) tid = Some m"
  shows "task_id m = tid \<and> (owner_token m \<noteq> None \<longleftrightarrow> held_state (state m)) \<and>
    (finished_at m \<noteq> None \<longleftrightarrow> state m \<in> set TERMINAL_STATES) \<and>
    attempts_started m \<le> max_attempts m \<and> max_attempts m \<le> 3 \<and>
    (retry_eligible m \<longrightarrow> state m \<in> {FAILED, EXPIRED} \<and> 0 < retry_grants m \<and>
       dict_has (payloads (queue_run empty_store ops)) tid)"
  using reachable_job [OF assms] active_or_terminal [of "state m"] by (auto simp: job_ok_def)

theorem queue_records_witness:
  "task_id (the (dict_get (jobs demo_store) ''a'')) = ''a''"
proof -
  have "dict_get (jobs demo_store) ''a'' \<noteq> None" by code_simp
  then obtain m where m: "dict_get (jobs demo_store) ''a'' = Some m" by blast
  from queue_records [OF m [unfolded demo_store_def]] m show ?thesis by simp
qed

text \<open>In every reachable store a payload belongs to a stored record whose byte count is its
  length, and that record is active or offered for a manual retry: the payload of a settled job
  that cannot be retried is gone.\<close>

lemma queue_payloads:
  assumes "dict_get (payloads (queue_run empty_store ops)) tid = Some pl"
  shows "\<exists>m. dict_get (jobs (queue_run empty_store ops)) tid = Some m \<and> payload_bytes m = int (length pl) \<and>
    (active_state (state m) \<or> retry_eligible m)"
proof -
  have "jobs_ok (queue_run empty_store ops)" using run_inv by (simp add: store_inv_def)
  with assms show ?thesis unfolding jobs_ok_def by simp
qed

section \<open>The life of a record\<close>

text \<open>Property C5. Between two moments of a run the record of a task (the same submission, told by its
  sequence number) moves only along the edges of the lifecycle, keeps the fields of its submission,
  never loses an attempt or a revision, keeps its state as long as its revision is the same, and
  once its state is terminal it never changes state again.\<close>

theorem queue_lifecycle:
  assumes "dict_get (jobs (queue_run empty_store ops)) tid = Some m"
    and "dict_get (jobs (queue_run (queue_run empty_store ops) later)) tid = Some m'"
    and "sequence m' \<le> seq_no (queue_run empty_store ops)"
  shows "lifecycle\<^sup>*\<^sup>* (state m) (state m') \<and> same_core m m' \<and> attempts_started m \<le> attempts_started m' \<and>
    revision m \<le> revision m' \<and> (revision m' = revision m \<longrightarrow> state m' = state m) \<and>
    (state m \<in> set TERMINAL_STATES \<longrightarrow> state m' = state m)"
  using run_progressed [OF run_inv [of ops], of later] assms(2)
proof (cases rule: progressedE)
  case new
  with assms(3) show ?thesis by simp
next
  case (old n)
  then have "job_progress m m'" using assms(1) by simp
  then show ?thesis
    using active_or_terminal [of "state m"] lifecycle_terminal_absorbing [of "state m" "state m'"]
    by (auto simp: job_progress_def)
qed

theorem queue_lifecycle_witness:
  "\<exists>m m'. dict_get (jobs demo_store) ''a'' = Some m \<and> state m = RUNNING \<and>
    dict_get (jobs (queue_run demo_store [OpReadJob 3000 ''a''])) ''a'' = Some m' \<and> state m' = UNKNOWN_DELIVERY \<and>
    lifecycle\<^sup>*\<^sup>* (state m) (state m') \<and> revision m \<le> revision m'"
proof -
  have 1: "map_option state (dict_get (jobs demo_store) ''a'') = Some RUNNING" by code_simp
  have 2: "map_option state (dict_get (jobs (queue_run demo_store [OpReadJob 3000 ''a''])) ''a'') = Some UNKNOWN_DELIVERY"
    by code_simp
  have 3: "map_option (\<lambda>m. sequence m \<le> seq_no demo_store) (dict_get (jobs (queue_run demo_store [OpReadJob 3000 ''a''])) ''a'')
    = Some True" by code_simp
  from 1 2 obtain m m' where m: "dict_get (jobs demo_store) ''a'' = Some m" "state m = RUNNING"
    and m': "dict_get (jobs (queue_run demo_store [OpReadJob 3000 ''a''])) ''a'' = Some m'" "state m' = UNKNOWN_DELIVERY"
    by auto
  from 3 m' have "sequence m' \<le> seq_no demo_store" by simp
  from queue_lifecycle [OF m(1) [unfolded demo_store_def] m'(1) [unfolded demo_store_def] this [unfolded demo_store_def]] m m'
  show ?thesis by auto
qed

section \<open>Sweeping\<close>

lemma reachable_ok: "jobs_ok (queue_run empty_store ops)"
  using run_inv by (simp add: store_inv_def)

text \<open>A sweep of a reachable store is complete: a second sweep at the same time changes
  nothing.\<close>

lemma sweep_idempotent:
  "sweep now (sweep now (queue_run empty_store ops)) = sweep now (queue_run empty_store ops)"
  by (rule sweep_twice [OF reachable_ok])

text \<open>Property C6. A job that had begun an external effect is never handed out again by a sweep: when its
  payload, its deadline or its owner's lease has run out it becomes UNKNOWN_DELIVERY, and otherwise
  the sweep leaves its state alone.\<close>

theorem effectful_not_requeued:
  assumes "dict_get (jobs (queue_run empty_store ops)) tid = Some m" and "held_state (state m)" and "effectful m"
  shows "\<exists>m'. dict_get (jobs (sweep now (queue_run empty_store ops))) tid = Some m' \<and>
    state m' = (if payload_expires_at m \<le> now \<or> deadline_at m \<le> now \<or> lease_over now m
      then UNKNOWN_DELIVERY else state m)"
proof -
  have "metadata_expires_at m = None"
    using reachable_job(2) [OF assms(1)] held_active [OF assms(2)] by (simp add: job_ok_def)
  then have "\<not> metadata_due now m" by (simp add: metadata_due_def)
  with sweep_pointwise [OF reachable_ok, of now ops tid] assms swept_effectful [OF assms(2,3)] show ?thesis by simp
qed

theorem effectful_not_requeued_witness:
  "\<exists>m'. dict_get (jobs (sweep 3000 demo_store)) ''a'' = Some m' \<and> state m' = UNKNOWN_DELIVERY"
proof -
  have "map_option (\<lambda>m. held_state (state m) \<and> effectful m \<and> payload_expires_at m \<le> 3000) (dict_get (jobs demo_store) ''a'') = Some True"
    by code_simp
  then obtain m where "dict_get (jobs demo_store) ''a'' = Some m" "held_state (state m)" "effectful m" "payload_expires_at m \<le> 3000"
    by auto
  with effectful_not_requeued [of demo_ops "''a''" m 3000] show ?thesis by (simp add: demo_store_def)
qed

section \<open>Claims\<close>

text \<open>A claim on a reachable store returns a waiting job of its lane that can run (attempts
  left, payload there, and no image work while another image job is held), the first of those by
  priority and then by submission order; it is stored as RUNNING with the claimant as its owner.\<close>

lemma claim_takes_first:
  assumes "claim now nm owner (queue_run empty_store ops) = (s1, Inr (Some c))"
  shows "\<exists>m \<in> set (lane_queued (sweep now (queue_run empty_store ops)) nm).
    attempts_started m < max_attempts m \<and> dict_has (payloads (sweep now (queue_run empty_store ops))) (task_id m) \<and>
    \<not> (image_work m \<and> busy_image (sweep now (queue_run empty_store ops))) \<and>
    c = mk_claim owner (start_run now owner m) \<and> dict_get (jobs s1) (task_id m) = Some (start_run now owner m) \<and>
    (\<forall>x \<in> set (lane_queued (sweep now (queue_run empty_store ops)) nm).
      claimable (sweep now (queue_run empty_store ops)) (busy_image (sweep now (queue_run empty_store ops))) x \<longrightarrow>
      (- priority m, sequence m) \<le> (- priority x, sequence x))"
  using reachable_ok assms by (rule claim_best) (auto simp: claimable_def)

text \<open>Property C7. A claim comes back empty-handed only when it must: on a lane that is not paused and has
  a free worker, nothing that waits in it could have run.\<close>

theorem claim_never_idles:
  assumes "claim now nm owner (queue_run empty_store ops) = (s1, Inr None)"
    and "case dict_get (lanes (sweep now (queue_run empty_store ops))) nm of None \<Rightarrow> True | Some l \<Rightarrow> \<not> claim_paused l"
    and "dict_get LANE_WORKERS nm = Some w" and "lane_held (sweep now (queue_run empty_store ops)) nm < w"
  shows "\<forall>m \<in> set (lane_queued (sweep now (queue_run empty_store ops)) nm).
    \<not> claimable (sweep now (queue_run empty_store ops)) (busy_image (sweep now (queue_run empty_store ops))) m"
proof -
  have "\<not> claim_paused l" if "dict_get (lanes (sweep now (queue_run empty_store ops))) nm = Some l" for l
    using assms(2) that by simp
  from claim_idle [OF reachable_ok assms(1) this assms(3,4)] show ?thesis by blast
qed

theorem claim_never_idles_witness:
  "list_all (\<lambda>m. \<not> claimable (sweep 5 demo_store) (busy_image (sweep 5 demo_store)) m)
    (lane_queued (sweep 5 demo_store) ''deferred'')"
proof -
  have "(case snd (claim 5 ''deferred'' ''v'' demo_store) of Inr None \<Rightarrow> True | _ \<Rightarrow> False)" by code_simp
  then have "snd (claim 5 ''deferred'' ''v'' demo_store) = Inr None" by (auto split: sum.splits option.splits)
  then have 1: "claim 5 ''deferred'' ''v'' demo_store = (fst (claim 5 ''deferred'' ''v'' demo_store), Inr None)"
    by (metis prod.collapse)
  have 2: "case dict_get (lanes (sweep 5 demo_store)) ''deferred'' of None \<Rightarrow> True | Some l \<Rightarrow> \<not> claim_paused l" by code_simp
  have 3: "dict_get LANE_WORKERS ''deferred'' = Some 3" by code_simp
  have 4: "lane_held (sweep 5 demo_store) ''deferred'' < 3" by code_simp
  show ?thesis unfolding demo_store_def list_all_iff
    by (rule claim_never_idles [OF 1 [unfolded demo_store_def] 2 [unfolded demo_store_def] 3 4 [unfolded demo_store_def]])
qed

section \<open>Idempotent admission\<close>

lemma accepted_identity:
  assumes inv: "store_inv s" and pol: "policy_ok p" and eq: "admit env now e p s = (s1, adm)" and acc: "adm_state adm = ACCEPTED"
  shows "store_inv s1" and "adm_task_id adm = Some (task_id e)"
    and "dict_get (identities s1) (job_identity env e) = Some (task_id e, job_fingerprint env e, now + METADATA_RETENTION)"
proof -
  show "store_inv s1" using admit_inv [OF inv pol, of env now e] eq by simp
  have "admit_internal env now e p 0 (sweep now s) = (s1, adm)" using eq by (simp add: admit_def)
  from admit_internal_cases [OF sweep_inv [OF inv] pol this] acc
  show "adm_task_id adm = Some (task_id e)"
    and "dict_get (identities s1) (job_identity env e) = Some (task_id e, job_fingerprint env e, now + METADATA_RETENTION)"
    by (auto simp: insert_record_def Let_def)
qed

text \<open>Property C8. Admission happens once: when a submission was accepted, then for a full retention (24
  hours), whatever the store does meanwhile short of erasing a user, a submission with the same
  user and idempotency key is answered with the identifier of the first job, as EXISTING if it is the
  same request and as a conflict if it is another, and it adds nothing to the store.\<close>

theorem admit_once:
  assumes "admit env now e p (queue_run empty_store ops) = (s1, adm)" and "adm_state adm = ACCEPTED"
    and "policy_ok p" and "list_all (in_window now (now + METADATA_RETENTION)) later"
    and "now \<le> now2" and "now2 < now + METADATA_RETENTION"
    and "user_id e2 = user_id e" and "idempotency_key e2 = idempotency_key e"
    and "dict_get LANE_POLICIES (lane e2) = Some lpol"
  shows "admit env now2 e2 p2 (queue_run s1 later) =
    (sweep now2 (queue_run s1 later),
     if job_fingerprint env e2 = job_fingerprint env e then admission EXISTING (adm_task_id adm) None
     else admission REJECTED (adm_task_id adm) (Some ''idempotency_conflict''))"
proof -
  note a = accepted_identity [OF run_inv assms(3,1,2)]
  let ?i = "job_identity env e" and ?t = "queue_run s1 later"
  from identity_survives [OF a(1,3) order_refl assms(4)] obtain u where
    u: "dict_get (identities ?t) ?i = Some (task_id e, job_fingerprint env e, u)" "now + METADATA_RETENTION \<le> u" by blast
  have d: "dict_ok (identities ?t)" using run_from_inv [OF a(1)] jobs_ok_dicts by (auto simp: store_inv_def)
  have "now2 < u" using u(2) assms(6) by simp
  from ids_sweep [OF d, of now2] u(1) this obtain u' where
    "dict_get (identities (sweep now2 ?t)) ?i = Some (task_id e, job_fingerprint env e, u')" "now2 < u'"
    by (rule ids_stepD)
  moreover have "job_identity env e2 = ?i" using assms(7,8) by (simp add: job_identity_def)
  ultimately show ?thesis using a(2) assms(9) by (auto simp: admit_def admit_internal_def Let_def)
qed

theorem admit_once_witness:
  "snd (admit demo_env 50 (demo_envelope ''b'' ''x'') DEFAULT_QUEUE_POLICY
     (queue_run (fst (admit demo_env 1 (demo_envelope ''a'' ''x'') DEFAULT_QUEUE_POLICY empty_store)) [OpClaim 2 ''deferred'' ''w'']))
   = admission EXISTING (Some ''a'') None"
proof -
  let ?r = "admit demo_env 1 (demo_envelope ''a'' ''x'') DEFAULT_QUEUE_POLICY (queue_run empty_store [])"
  have r: "snd ?r = admission ACCEPTED (Some ''a'') None" by code_simp
  have p: "policy_ok DEFAULT_QUEUE_POLICY" by simp
  have w: "list_all (in_window 1 (1 + METADATA_RETENTION)) [OpClaim 2 ''deferred'' ''w'']" by code_simp
  have t: "50 < 1 + METADATA_RETENTION" by (simp add: METADATA_RETENTION_def)
  have l: "dict_get LANE_POLICIES (lane (demo_envelope ''b'' ''x'')) = Some DEFAULT_QUEUE_POLICY" by code_simp
  have f: "job_fingerprint demo_env (demo_envelope ''b'' ''x'') = job_fingerprint demo_env (demo_envelope ''a'' ''x'')" by code_simp
  have e: "user_id (demo_envelope ''b'' ''x'') = user_id (demo_envelope ''a'' ''x'')"
    "idempotency_key (demo_envelope ''b'' ''x'') = idempotency_key (demo_envelope ''a'' ''x'')"
    by (simp_all add: demo_envelope_def)
  have acc: "adm_state (snd ?r) = ACCEPTED" using r by simp
  show ?thesis
    using admit_once [OF prod.collapse [symmetric] acc p w _ t e l, of DEFAULT_QUEUE_POLICY] f r
    by (simp add: queue_run_def)
qed

section \<open>Ownership\<close>

text \<open>Settling a job is idempotent for its owner: once \<open>finish\<close> has succeeded, repeating it
  with the same owner token, whatever the result it carries, only sweeps and reports the record.\<close>

theorem finish_replayed:
  assumes "finish now tid owner rv r d (queue_run empty_store ops) = (s1, Inr snap)"
    and "dict_get (jobs (sweep now2 s1)) tid = Some m"
  shows "finish now2 tid owner rv2 r2 d2 s1 = (sweep now2 s1, Inr (snapshot m))"
proof -
  have ok: "jobs_ok s1" using finish_quiet [OF reachable_ok [of ops], of now tid owner rv r d] assms(1) by (simp add: quiet_step_def)
  from finish_token_set [OF reachable_ok assms(1)] obtain n where n: "dict_get (jobs s1) tid = Some n" "finish_token n = Some owner"
    by blast
  from sweep_jobE [OF ok assms(2)] n have "finish_token m = Some owner" by (metis option.inject swept_token)
  with assms(2) show ?thesis by (simp add: finish_def Let_def)
qed

definition demo_result :: job_result where
  "demo_result = mk_result SUCCEEDED_outcome None []"

theorem finish_replayed_witness:
  "\<exists>m. finish 4 ''a'' ''w'' 9 demo_result 0 (fst (finish 3 ''a'' ''w'' 2 demo_result 0 demo_store)) =
    (sweep 4 (fst (finish 3 ''a'' ''w'' 2 demo_result 0 demo_store)), Inr (snapshot m)) \<and> state m = SUCCEEDED"
proof -
  let ?r = "finish 3 ''a'' ''w'' 2 demo_result 0 demo_store"
  have "(case snd ?r of Inr snap \<Rightarrow> True | Inl e \<Rightarrow> False)" by code_simp
  then obtain snap where "snd ?r = Inr snap" by (auto split: sum.splits)
  then have 1: "?r = (fst ?r, Inr snap)" by (metis prod.collapse)
  have "map_option state (dict_get (jobs (sweep 4 (fst ?r))) ''a'') = Some SUCCEEDED" by code_simp
  then obtain m where m: "dict_get (jobs (sweep 4 (fst ?r))) ''a'' = Some m" "state m = SUCCEEDED" by auto
  from finish_replayed [OF 1 [unfolded demo_store_def] m(1) [unfolded demo_store_def]] m(2) show ?thesis
    unfolding demo_store_def by blast
qed

text \<open>A caller that is not the current owner, or that holds a stale revision, cannot touch a
  job: heartbeat, progress and settlement are refused with the same conflict, and the call leaves
  exactly the swept store behind.\<close>

lemma stale_owner_refused:
  assumes "dict_get (jobs (sweep now (queue_run empty_store ops))) tid = Some m"
    and "owner_token m \<noteq> Some owner \<or> revision m \<noteq> rv" and "finish_token m \<noteq> Some owner"
  shows "heartbeat now tid owner rv (queue_run empty_store ops) =
      (sweep now (queue_run empty_store ops), Inl (QueueConflict ''owner_or_revision_conflict'')) \<and>
    update_progress now tid owner rv summ (queue_run empty_store ops) =
      (sweep now (queue_run empty_store ops), Inl (QueueConflict ''owner_or_revision_conflict'')) \<and>
    finish now tid owner rv r d (queue_run empty_store ops) =
      (sweep now (queue_run empty_store ops), Inl (QueueConflict ''owner_or_revision_conflict''))"
  using assms sweep_twice [OF reachable_ok, of now ops]
  by (auto simp: heartbeat_def update_progress_def finish_def finish_owned_def owned_def Let_def)

theorem stale_owner_refused_witness:
  "snd (heartbeat 3 ''a'' ''thief'' 2 demo_store) = Inl (QueueConflict ''owner_or_revision_conflict'')"
proof -
  have "map_option (\<lambda>m. (owner_token m, finish_token m)) (dict_get (jobs (sweep 3 demo_store)) ''a'') = Some (Some ''w'', None)"
    by code_simp
  then obtain m where "dict_get (jobs (sweep 3 demo_store)) ''a'' = Some m" "owner_token m = Some ''w''" "finish_token m = None"
    by auto
  with stale_owner_refused [of 3 demo_ops "''a''" m "''thief''" 2] show ?thesis by (simp add: demo_store_def)
qed

section \<open>Erasure, retries and pages\<close>

definition user_task :: "int \<Rightarrow> store \<Rightarrow> string \<Rightarrow> bool" where
  "user_task uid s tid = (case dict_get (jobs s) tid of None \<Rightarrow> False | Some m \<Rightarrow> user_id m = uid)"

lemma user_tasks_mem: "dict_ok (jobs s) \<Longrightarrow> tid \<in> set (user_tasks uid s) \<longleftrightarrow> user_task uid s tid"
  by (force simp: user_tasks_def user_task_def dict_ok_in_iff split: option.splits)

lemma erase_user_fields:
  "jobs (erase_user uid s) = jobs (foldl erase_job s (user_tasks uid s))"
  "payloads (erase_user uid s) = payloads (foldl erase_job s (user_tasks uid s))"
  "identities (erase_user uid s) = identities (foldl erase_job s (user_tasks uid s))"
  "conflicts (erase_user uid s) = conflicts (foldl erase_job s (user_tasks uid s))"
  by (simp_all add: erase_user_def Let_def)

text \<open>Property C17. Erasing a user removes exactly what is the user's: of every reachable store the records of the user's jobs,
  their payloads, the idempotency entries those records list, the conflict keys those jobs hold and the operations that name them
  are gone, and every other record, payload, idempotency entry, conflict key and operation is what it was.\<close>

theorem erase_user_complete:
  "let s = queue_run empty_store ops; e = erase_user uid s in
    dict_get (jobs e) tid = (if user_task uid s tid then None else dict_get (jobs s) tid) \<and>
    dict_get (payloads e) tid = (if user_task uid s tid then None else dict_get (payloads s) tid) \<and>
    dict_get (identities e) i =
      (if list_ex (\<lambda>m. user_id m = uid \<and> i \<in> set (identity_aliases m)) (dict_values (jobs s)) then None else dict_get (identities s) i) \<and>
    dict_get (conflicts e) (nm, u, key) =
      (case dict_get (conflicts s) (nm, u, key) of None \<Rightarrow> None | Some t \<Rightarrow>
         if (case dict_get (jobs s) t of None \<Rightarrow> False | Some m \<Rightarrow> user_id m = uid \<and> nm = lane m \<and> u = uid \<and> key \<in> set (conflict_keys m))
         then None else Some t) \<and>
    operations e = filter (\<lambda>(op, body, target, until). \<not> user_task uid s target) (operations s) \<and>
    lanes e = lanes s \<and> seq_no e = seq_no s"
proof -
  let ?s = "queue_run empty_store ops" and ?ids = "user_tasks uid (queue_run empty_store ops)"
  have ok: "jobs_ok ?s" by (rule reachable_ok)
  have d: "dict_ok (jobs ?s)" using ok by (simp add: jobs_ok_dicts)
  note mem = user_tasks_mem [OF d]
  have ops: "operations (erase_user uid ?s) = filter (\<lambda>(op, body, target, until). \<not> user_task uid ?s target) (operations ?s)"
    by (simp add: erase_user_def Let_def mem erase_jobs_frame)
  have vals: "list_ex (\<lambda>m. user_id m = uid \<and> i \<in> set (identity_aliases m)) (dict_values (jobs ?s)) \<longleftrightarrow>
      listed_identity ?s ?ids i"
  proof -
    have "list_ex (\<lambda>m. user_id m = uid \<and> i \<in> set (identity_aliases m)) (dict_values (jobs ?s)) \<longleftrightarrow>
        (\<exists>k m. dict_get (jobs ?s) k = Some m \<and> user_id m = uid \<and> i \<in> set (identity_aliases m))"
      unfolding list_ex_iff Bex_def dict_ok_values [OF d] by blast
    also have "\<dots> \<longleftrightarrow> listed_identity ?s ?ids i" unfolding listed_identity_def mem by (intro ex_cong1) (auto simp: user_task_def)
    finally show ?thesis .
  qed
  show ?thesis unfolding Let_def
  proof (intro conjI)
    show "dict_get (jobs (erase_user uid ?s)) tid = (if user_task uid ?s tid then None else dict_get (jobs ?s) tid)"
      using erase_jobs_get [OF ok] mem by (simp add: erase_user_fields)
    show "dict_get (payloads (erase_user uid ?s)) tid = (if user_task uid ?s tid then None else dict_get (payloads ?s) tid)"
      using erase_jobs_payload [OF ok, of ?ids tid] mem by (auto simp: erase_user_fields user_task_def split: option.splits)
    show "dict_get (identities (erase_user uid ?s)) i =
        (if list_ex (\<lambda>m. user_id m = uid \<and> i \<in> set (identity_aliases m)) (dict_values (jobs ?s)) then None else dict_get (identities ?s) i)"
      unfolding vals using erase_jobs_identity [OF ok, of ?ids i] by (simp add: erase_user_fields)
    show "dict_get (conflicts (erase_user uid ?s)) (nm, u, key) =
      (case dict_get (conflicts ?s) (nm, u, key) of None \<Rightarrow> None | Some t \<Rightarrow>
         if (case dict_get (jobs ?s) t of None \<Rightarrow> False | Some m \<Rightarrow> user_id m = uid \<and> nm = lane m \<and> u = uid \<and> key \<in> set (conflict_keys m))
         then None else Some t)"
      using erase_jobs_conflict [OF ok, of ?ids nm u key] mem by (auto simp: erase_user_fields user_task_def split: option.splits)
  qed (simp_all add: ops, simp_all add: erase_user_def Let_def erase_jobs_frame)
qed

text \<open>Property C18. A failed job can be retried by hand at most once: after an accepted retry, in every
  later store neither the record of the retried job nor that of its child is offered for a retry
  again, and the payload has left the parent.\<close>

theorem retry_once:
  assumes "retry_job env now tid rv actor op_id epoch (queue_run empty_store ops) = (s1, Inr adm)"
    and "adm_state adm = ACCEPTED" and "uuid5_url env (command_key env actor op_id) \<noteq> tid"
    and "t = tid \<or> adm_task_id adm = Some t"
    and "dict_get (jobs (queue_run s1 later)) t = Some m" and "sequence m \<le> seq_no s1"
  shows "\<not> retry_eligible m \<and> dict_get (payloads s1) tid = None"
proof -
  from retry_spent [OF run_inv assms(1-3)] obtain p c where p: "dict_get (jobs s1) tid = Some p" "retry_grants p = 0"
      "dict_get (payloads s1) tid = None"
    and c: "adm_task_id adm = Some (task_id c)" "dict_get (jobs s1) (task_id c) = Some c" "retry_grants c = 0" by blast
  obtain n where n: "dict_get (jobs s1) t = Some n" "retry_grants n = 0" using assms(4) p c by auto
  have inv: "store_inv s1" using retry_inv [OF run_inv, of env now tid rv actor op_id epoch ops] assms(1) by simp
  have "job_progress n m"
    using run_progressed [OF inv] assms(5) by (rule progressedE) (use assms(6) n(1) in auto)
  then have "\<not> 0 < retry_grants m" using n(2) by (simp add: job_progress_def)
  moreover have "job_ok m" using jobs_okD(2) [OF _ assms(5)] run_from_inv [OF inv] by (simp add: store_inv_def)
  ultimately show ?thesis using p(3) by (auto simp: job_ok_def)
qed

definition demo_failed :: job_result where
  "demo_failed = mk_result RETRYABLE_FAILURE None []"

text \<open>A job with a single attempt that fails and may be retried by hand.\<close>

definition retry_ops :: "queue_op list" where
  "retry_ops =
    [OpAdmit demo_env 1 (demo_envelope ''a'' ''x'') (DEFAULT_QUEUE_POLICY\<lparr>max_attempts_allowed := 1\<rparr>),
     OpClaim 2 ''deferred'' ''w'', OpFinish 3 ''a'' ''w'' 2 demo_failed 0]"

theorem retry_once_witness:
  "\<exists>m. dict_get (jobs (fst (retry_job demo_env 4 ''a'' 3 ''me'' ''op'' None (queue_run empty_store retry_ops)))) ''a'' = Some m \<and>
    state m = FAILED \<and> \<not> retry_eligible m"
proof -
  let ?r = "retry_job demo_env 4 ''a'' 3 ''me'' ''op'' None (queue_run empty_store retry_ops)"
  have "snd ?r = Inr (admission ACCEPTED (Some ''me:op'') None)" by code_simp
  then have 1: "?r = (fst ?r, Inr (admission ACCEPTED (Some ''me:op'') None))" by (metis prod.collapse)
  have 2: "uuid5_url demo_env (command_key demo_env ''me'' ''op'') \<noteq> ''a''" by code_simp
  have "map_option (\<lambda>m. (state m, sequence m \<le> seq_no (fst ?r))) (dict_get (jobs (queue_run (fst ?r) [])) ''a'') = Some (FAILED, True)"
    by code_simp
  then obtain m where m: "dict_get (jobs (queue_run (fst ?r) [])) ''a'' = Some m" "state m = FAILED" "sequence m \<le> seq_no (fst ?r)"
    by auto
  from retry_once [OF 1 _ 2 _ m(1) m(3)] m(1,2) show ?thesis by (auto simp: queue_run_def)
qed

text \<open>Property C19. Following the cursors of \<open>list_jobs\<close> from the first page gives every matching record of
  the store exactly once, in submission order, whatever the page size.\<close>

theorem list_jobs_pages:
  assumes "1 \<le> limit" and "limit \<le> 100"
    and "length (list_records nm st (sweep now (queue_run empty_store ops))) \<le> n"
  shows "follow_pages n now nm st None limit (queue_run empty_store ops) =
    Inr (map snapshot (list_records nm st (sweep now (queue_run empty_store ops))))"
  using follow_pages_drop [OF reachable_ok assms(1,2), of None 0] assms(3) by (simp add: cursor_offset_def)

theorem list_jobs_pages_witness:
  "follow_pages 2 2 None None None 1 (queue_run empty_store
      [OpAdmit demo_env 1 (demo_envelope ''a'' ''x'') DEFAULT_QUEUE_POLICY, OpAdmit demo_env 1 (demo_envelope ''b'' ''y'') DEFAULT_QUEUE_POLICY])
   = Inr (map snapshot (list_records None None (sweep 2 (queue_run empty_store
      [OpAdmit demo_env 1 (demo_envelope ''a'' ''x'') DEFAULT_QUEUE_POLICY, OpAdmit demo_env 1 (demo_envelope ''b'' ''y'') DEFAULT_QUEUE_POLICY]))))"
proof -
  let ?ops = "[OpAdmit demo_env 1 (demo_envelope ''a'' ''x'') DEFAULT_QUEUE_POLICY, OpAdmit demo_env 1 (demo_envelope ''b'' ''y'') DEFAULT_QUEUE_POLICY]"
  have "length (list_records None None (sweep 2 (queue_run empty_store ?ops))) = 2" by code_simp
  then show ?thesis by (intro list_jobs_pages) simp_all
qed

lemma sweep_operations: "operations (sweep now s) = filter (\<lambda>p. \<not> snd (snd (snd p)) \<le> now) (operations s)"
proof -
  let ?s1 = "s\<lparr>identities := filter (\<lambda>p. \<not> snd (snd (snd p)) \<le> now) (identities s),
               operations := filter (\<lambda>p. \<not> snd (snd (snd p)) \<le> now) (operations s)\<rparr>"
  have "list_all (\<lambda>p. now < snd (snd (snd p))) (identities ?s1)" by (simp add: list_all_iff)
  from sweep_jobs_identities [OF this, of "dict_keys (jobs s)"] show ?thesis by (simp add: sweep_def Let_def)
qed

text \<open>Property C20. Replaying a cancellation is not idempotent once the record's metadata has expired. A cancellation of a settled
  job changes nothing and is answered with its snapshot; it is remembered for a day, the record only for the rest of the day after
  the job finished, and at every time in between the replay of that cancellation raises \<open>KeyError\<close> from the dictionary access
  instead of answering with a snapshot or a queue conflict.\<close>

theorem cancel_replay_key_error:
  assumes "dict_get (jobs (sweep now (queue_run empty_store ops))) tid = Some m" and "\<not> active_state (state m)" and "tid \<noteq> []"
    and "dict_get (operations (sweep now (queue_run empty_store ops))) (command_key env actor op_id) = None"
    and "metadata_due later m" and "later < now + METADATA_RETENTION"
  shows "snd (request_cancel env now tid (revision m) actor op_id (queue_run empty_store ops)) = Inr (snapshot m) \<and>
    snd (request_cancel env later tid (revision m) actor op_id
      (fst (request_cancel env now tid (revision m) actor op_id (queue_run empty_store ops)))) = Inl (KeyError tid)"
proof -
  let ?s = "sweep now (queue_run empty_store ops)" and ?key = "command_key env actor op_id"
  let ?t = "put_operation ?key (CmdCancel tid (revision m)) tid now ?s"
  have ok: "jobs_ok ?s" using sweep_ok(1) [OF reachable_ok] .
  have t: "task_id m = tid" using jobs_okD(1) [OF ok assms(1)] .
  have "\<not> held_state (state m)" using assms(2) by (auto simp: held_state_def active_state_def)
  moreover have "put_job m ?s = ?s" using assms(1) t by (simp add: put_job_def dict_set_same)
  ultimately have first: "request_cancel env now tid (revision m) actor op_id (queue_run empty_store ops) = (?t, Inr (snapshot m))"
    using assms(1,2,4) by (simp add: request_cancel_def command_previous_def cancel_transition_def Let_def)
  have okt: "jobs_ok ?t" using jobs_ok_operations [OF ok] jobs_ok_dicts [OF ok] by (simp add: put_operation_def)
  then have gone: "dict_get (jobs (sweep later ?t)) tid = None"
    using assms(1,5) unfolding sweep_pointwise [OF okt] by (simp add: put_operation_def)
  have "dict_get (operations ?t) ?key = Some (CmdCancel tid (revision m), tid, now + METADATA_RETENTION)" by (simp add: put_operation_def)
  then have "dict_get (operations (sweep later ?t)) ?key = Some (CmdCancel tid (revision m), tid, now + METADATA_RETENTION)"
    unfolding sweep_operations using assms(6) jobs_ok_dicts [OF okt] by (simp add: dict_get_filter)
  then show ?thesis using gone assms(3) by (simp add: first request_cancel_def [of env later] command_previous_def Let_def)
qed

abbreviation (input) replay_ops :: "queue_op list" where
  "replay_ops \<equiv> [OpAdmit demo_env 1 (demo_envelope ''a'' ''x'') DEFAULT_QUEUE_POLICY, OpClaim 2 ''deferred'' ''w'', OpFinish 3 ''a'' ''w'' 2 demo_result 0]"

theorem cancel_replay_key_error_witness:
  "snd (request_cancel demo_env 86450 ''a'' 3 ''me'' ''op'' (fst (request_cancel demo_env 100 ''a'' 3 ''me'' ''op'' (queue_run empty_store replay_ops)))) =
    Inl (KeyError ''a'')"
proof -
  have "map_option (\<lambda>m. (state m, revision m, metadata_expires_at m)) (dict_get (jobs (sweep 100 (queue_run empty_store replay_ops))) ''a'') =
    Some (SUCCEEDED, 3, Some 86403)" by code_simp
  then obtain m where m: "dict_get (jobs (sweep 100 (queue_run empty_store replay_ops))) ''a'' = Some m" "state m = SUCCEEDED" "revision m = 3"
      "metadata_expires_at m = Some 86403" by auto
  have "dict_get (operations (sweep 100 (queue_run empty_store replay_ops))) (command_key demo_env ''me'' ''op'') = None" by code_simp
  with cancel_replay_key_error [OF m(1), of demo_env "''me''" "''op''" 86450] m(2-4) show ?thesis
    by (simp add: active_state_def metadata_due_def METADATA_RETENTION_def)
qed

end
