(* ===== verification/Queue_Ownership.thy ===== *)
theory Queue_Ownership
  imports Queue_Run
begin

text \<open>
  Who holds a job. Apart from claims and settlements, no call of the store gives a job to somebody else, and none puts a
  held effectful job back into the queue: \<open>kept\<close> says so of two stores, and every other operation satisfies it.
\<close>

definition waiting_state :: "job_state \<Rightarrow> bool" where
  "waiting_state st \<longleftrightarrow> st \<in> {QUEUED, DELAYED}"

definition firm :: "job \<Rightarrow> job \<Rightarrow> bool" where
  "firm m m' \<longleftrightarrow>
    sequence m' = sequence m \<and> effectful m' = effectful m \<and>
    (held_state (state m') \<longrightarrow>
      held_state (state m) \<and> owner_token m' = owner_token m \<and> finish_token m' = finish_token m) \<and>
    (effectful m \<and> waiting_state (state m') \<longrightarrow> waiting_state (state m))"

definition kept :: "store \<Rightarrow> store \<Rightarrow> bool" where
  "kept s s' \<longleftrightarrow>
    seq_no s \<le> seq_no s' \<and>
    (\<forall>tid m'. dict_get (jobs s') tid = Some m' \<longrightarrow>
      seq_no s < sequence m' \<and> owner_token m' = None \<or> (\<exists>m. dict_get (jobs s) tid = Some m \<and> firm m m'))"

lemma firm_refl [simp]: "firm m m"
  by (simp add: firm_def)

lemma firm_trans: "firm m m' \<Longrightarrow> firm m' m'' \<Longrightarrow> firm m m''"
  by (auto simp: firm_def)

lemma kept_refl [simp]: "kept s s"
  by (auto simp: kept_def)

lemma kept_frame: "jobs s' = jobs s \<Longrightarrow> seq_no s' = seq_no s \<Longrightarrow> kept s s'"
  by (auto simp: kept_def)

lemma kept_cong: "jobs s'' = jobs s' \<Longrightarrow> seq_no s'' = seq_no s' \<Longrightarrow> kept s s'' = kept s s'"
  by (simp add: kept_def)

lemma kept_sub:
  "(\<And>tid m. dict_get (jobs s') tid = Some m \<Longrightarrow> dict_get (jobs s) tid = Some m) \<Longrightarrow> seq_no s' = seq_no s \<Longrightarrow> kept s s'"
  by (auto simp: kept_def)

lemma keptE:
  assumes "kept s s'" and "dict_get (jobs s') tid = Some m'"
  obtains (new) "seq_no s < sequence m'" "owner_token m' = None" | (old) m where "dict_get (jobs s) tid = Some m" "firm m m'"
proof -
  from assms have "seq_no s < sequence m' \<and> owner_token m' = None \<or> (\<exists>m. dict_get (jobs s) tid = Some m \<and> firm m m')"
    by (simp add: kept_def)
  then show thesis using new old by (elim disjE exE conjE)
qed

lemma kept_trans:
  assumes a: "kept s s'" and b: "kept s' s''" and ok: "jobs_ok s'" "jobs_ok s''"
  shows "kept s s''"
proof -
  have le: "seq_no s \<le> seq_no s'" "seq_no s' \<le> seq_no s''" using a b by (simp_all add: kept_def)
  have "seq_no s < sequence m'' \<and> owner_token m'' = None \<or> (\<exists>m. dict_get (jobs s) tid = Some m \<and> firm m m'')"
    if g: "dict_get (jobs s'') tid = Some m''" for tid m''
  proof -
    from b g show ?thesis
    proof (cases rule: keptE)
      case (old m')
      from a old(1) show ?thesis
      proof (cases rule: keptE)
        case fresh: new
        have "\<not> held_state (state m')" using jobs_okD(2) [OF ok(1) old(1)] fresh(2) by (auto simp: job_ok_def)
        with old(2) have "\<not> held_state (state m'')" by (auto simp: firm_def)
        then have "owner_token m'' = None" using jobs_okD(2) [OF ok(2) g] by (simp add: job_ok_def)
        with fresh old(2) show ?thesis by (simp add: firm_def)
      next
        case same: (old m)
        with \<open>firm m' m''\<close> show ?thesis using firm_trans by blast
      qed
    qed (use le in simp)
  qed
  with le show ?thesis by (simp add: kept_def)
qed

lemma kept_put:
  assumes "dict_get (jobs s) (task_id m') = Some m" and "firm m m'" and "jobs s' = jobs s" and "seq_no s' = seq_no s"
  shows "kept s (put_job m' s')"
  using assms by (auto simp: kept_def put_job_def split: if_splits)

lemma firm_terminal:
  assumes "terminal now st reason safe m s = (m', s')" and "\<not> active_state st"
  shows "firm m m'"
  using terminal_job(1,4) [OF assms(1)] assms(2) by (auto simp: firm_def same_core_def waiting_state_def active_state_def held_state_def)

lemma firm_tags [simp]:
  "firm m (m'\<lparr>result_summary := sm\<rparr>) = firm m m'" "firm m (m'\<lparr>heartbeat_at := t\<rparr>) = firm m m'"
  "firm m (m'\<lparr>identity_aliases := al\<rparr>) = firm m m'"
  by (simp_all add: firm_def)

section \<open>The sweep\<close>

lemma firm_sweep_payload:
  assumes "sweep_payload now m s = (m', s')"
  shows "firm m m' \<and> jobs s' = jobs s \<and> seq_no s' = seq_no s"
proof (cases "payload_expires_at m \<le> now \<and> active_state (state m)")
  case True
  let ?m = "m\<lparr>retry_payload_available := False, retry_eligible := False\<rparr>" and ?s = "s\<lparr>payloads := dict_pop (payloads s) (task_id m)\<rparr>"
  have t: "terminal now (if uncertain ?m then UNKNOWN_DELIVERY else EXPIRED) (Some ''payload_expired'') False ?m ?s = (m', s')"
    using assms True by (simp add: sweep_payload_def drop_payload_def)
  have "firm m ?m" by (simp add: firm_def)
  with firm_terminal [OF t] terminal_frame(1,2) [OF t] show ?thesis by (auto intro: firm_trans split: if_splits)
next
  case False
  with assms show ?thesis by (auto simp: sweep_payload_def drop_payload_def firm_def split: if_splits)
qed

lemma firm_sweep_timers:
  assumes "sweep_timers now m s = (m', s')"
  shows "firm m m' \<and> jobs s' = jobs s \<and> seq_no s' = seq_no s"
proof -
  have settled: "firm m m' \<and> jobs s' = jobs s \<and> seq_no s' = seq_no s"
    if "terminal now st reason safe m s = (m', s')" "\<not> active_state st" for st reason safe
    using firm_terminal [OF that] terminal_frame(1,2) [OF that(1)] by simp
  consider (dl) "active_state (state m)" "deadline_at m \<le> now"
    | (lease) "\<not> (active_state (state m) \<and> deadline_at m \<le> now)" "held_state (state m)" "lease_over now m"
    | (other) "\<not> (active_state (state m) \<and> deadline_at m \<le> now)" "\<not> (held_state (state m) \<and> lease_over now m)"
    by blast
  then show ?thesis
  proof cases
    case dl
    with assms show ?thesis by (intro settled) (auto simp: sweep_timers_def split: if_splits)
  next
    case lease
    then have "sweep_lease now m s = (m', s')" using assms by (simp add: sweep_timers_def if_not_P)
    then show ?thesis
    proof (cases "effectful m \<or> state m = CANCEL_REQUESTED \<or> attempts_started m \<ge> max_attempts m \<or> now \<ge> queue_deadline_at m")
      case True
      with \<open>sweep_lease now m s = (m', s')\<close> settled show ?thesis by (auto simp: sweep_lease_def split: if_splits)
    next
      case False
      with \<open>sweep_lease now m s = (m', s')\<close> show ?thesis by (auto simp: sweep_lease_def firm_def)
    qed
  next
    case other
    with assms show ?thesis by (auto simp: sweep_timers_def firm_def waiting_state_def split: if_splits)
  qed
qed

lemma kept_sweep_job:
  assumes ok: "jobs_ok s"
  shows "kept s (sweep_job now s tid)"
proof (cases "dict_get (jobs s) tid")
  case None
  then show ?thesis by (simp add: sweep_job_def)
next
  case (Some m)
  have tid: "task_id m = tid" using jobs_okD(1) [OF ok Some] .
  show ?thesis
  proof (cases "metadata_due now m")
    case True
    with Some show ?thesis by (intro kept_sub) (auto simp: sweep_job_def drop_payload_def split: if_splits)
  next
    case False
    obtain m1 s1 m2 s2 where a: "sweep_payload now m s = (m1, s1)" and b: "sweep_timers now m1 s1 = (m2, s2)" by fastforce
    have l1: "local_step s m s1 m1" using jobs_ok_fit(1,2) [OF ok Some] a by (rule sweep_payload_step)
    then have "local_step s1 m1 s2 m2" using b by (intro sweep_timers_step) (auto simp: local_step_def)
    with l1 have "task_id m2 = tid" using tid by (auto simp: local_step_def evolves_task_id)
    with firm_sweep_payload [OF a] firm_sweep_timers [OF b] Some
    have "kept s (put_job m2 s2)" by (intro kept_put) (auto intro: firm_trans)
    with Some False a b show ?thesis by (simp add: sweep_job_def)
  qed
qed

lemma kept_sweep:
  assumes ok: "jobs_ok s"
  shows "kept s (sweep now s)"
proof -
  let ?s1 = "s\<lparr>identities := filter (\<lambda>p. \<not> snd (snd (snd p)) \<le> now) (identities s),
               operations := filter (\<lambda>p. \<not> snd (snd (snd p)) \<le> now) (operations s)\<rparr>"
  have fold: "jobs_ok t \<Longrightarrow> kept t (foldl (sweep_job now) t ks)" for t ks
  proof (induction ks arbitrary: t)
    case (Cons k ks)
    have j: "jobs_ok (sweep_job now t k)" using sweep_job_ok [OF Cons.prems] by simp
    show ?case
      using kept_trans [OF kept_sweep_job [OF Cons.prems] Cons.IH [OF j] j] sweep_jobs_ok [OF j] by simp
  qed simp
  have "jobs_ok ?s1" using ok by (simp add: jobs_ok_def)
  then have "kept ?s1 (sweep now s)" using fold by (simp add: sweep_def)
  then show ?thesis by (simp add: kept_def)
qed

section \<open>The other calls\<close>

lemma kept_after_sweep:
  assumes "jobs_ok s" and "kept (sweep now s) s'" and "jobs_ok s'"
  shows "kept s s'"
  using kept_trans [OF kept_sweep [OF assms(1)] assms(2) sweep_ok(1) [OF assms(1)] assms(3)] .

lemma kept_owner_calls:
  assumes ok: "jobs_ok s"
  shows "kept s (fst (heartbeat now tid owner rv s))" and "kept s (fst (update_progress now tid owner rv sm s))"
proof -
  let ?s = "sweep now s" and ?t = "sweep now (sweep now s)"
  have oks: "jobs_ok ?s" "jobs_ok ?t" using ok by (simp_all add: sweep_ok)
  have t: "kept s ?t" using kept_after_sweep [OF ok kept_sweep [OF oks(1)] oks(2)] .
  have put: "kept v (put_job m' v)" if "jobs_ok v" "dict_get (jobs v) tid = Some m" "firm m m'" "task_id m' = task_id m" for v m m'
    using that jobs_okD(1) [OF that(1,2)] by (intro kept_put) auto
  have hb: "jobs_ok (fst (heartbeat now tid owner rv s))" and up: "jobs_ok (fst (update_progress now tid owner rv sm s))"
    using heartbeat_quiet [OF ok] update_progress_quiet [OF ok] by (auto simp: quiet_step_def)
  show "kept s (fst (heartbeat now tid owner rv s))"
  proof (rule kept_trans [OF t _ oks(2) hb])
    show "kept ?t (fst (heartbeat now tid owner rv s))"
      using put [OF oks(2)] by (auto simp: heartbeat_def owned_def Let_def split: option.split)
  qed
  show "kept s (fst (update_progress now tid owner rv sm s))"
  proof (rule kept_after_sweep [OF ok _ up])
    show "kept ?s (fst (update_progress now tid owner rv sm s))"
      using put [OF oks(1)] by (auto simp: update_progress_def owned_def Let_def split: option.split sum.split)
  qed
qed

lemma firm_cancel:
  assumes "cancel_transition now m s = (m', s')"
  shows "firm m m' \<and> jobs s' = jobs s \<and> seq_no s' = seq_no s"
proof (cases "\<not> held_state (state m) \<and> active_state (state m)")
  case True
  with assms have t: "terminal now CANCELLED (Some ''cancel_requested'') False m s = (m', s')" by (simp add: cancel_transition_def)
  from firm_terminal [OF t] terminal_frame(1,2) [OF t] show ?thesis by simp
next
  case False
  with assms show ?thesis by (auto simp: cancel_transition_def firm_def waiting_state_def split: if_splits)
qed

lemma kept_cancel:
  assumes ok: "jobs_ok s"
  shows "kept s (fst (request_cancel env now tid rv actor op_id s))"
proof (rule kept_after_sweep [OF ok])
  show "jobs_ok (fst (request_cancel env now tid rv actor op_id s))" using request_cancel_quiet [OF ok] by (simp add: quiet_step_def)
  let ?s = "sweep now s"
  have oks: "jobs_ok ?s" using ok by (simp add: sweep_ok)
  have put: "kept ?s (put_operation key body t now (put_job m' s'))" if m: "dict_get (jobs ?s) tid = Some m" and c: "cancel_transition now m ?s = (m', s')"
    for m m' s' key body t
  proof -
    have "task_id m' = tid" using cancel_transition_step [OF jobs_ok_fit(1,2) [OF oks m] c] jobs_okD(1) [OF oks m]
      by (auto simp: local_step_def dest: evolves_task_id)
    then have "kept ?s (put_job m' s')" using firm_cancel [OF c] m by (intro kept_put) auto
    then show ?thesis by (simp add: put_operation_def kept_def)
  qed
  show "kept ?s (fst (request_cancel env now tid rv actor op_id s))"
    using put by (auto simp: request_cancel_def Let_def split: sum.split option.split prod.split)
qed

lemma kept_lane_calls:
  shows "kept s (fst (read_lane nm s))" and "kept s (fst (set_lane_state env now nm rv ap cp actor op_id s))"
proof -
  have rl: "jobs (fst (read_lane nm t)) = jobs t \<and> seq_no (fst (read_lane nm t)) = seq_no t" for t
    by (auto simp: read_lane_def lane_setdefault_def split: option.split prod.split)
  then show "kept s (fst (read_lane nm s))" by (intro kept_frame) auto
  obtain s1 r where r: "read_lane nm s = (s1, r)" by fastforce
  have "jobs s1 = jobs s" "seq_no s1 = seq_no s" using rl [of s] r by simp_all
  then show "kept s (fst (set_lane_state env now nm rv ap cp actor op_id s))"
    using rl r by (intro kept_frame) (simp_all add: set_lane_state_def Let_def put_operation_def split: sum.split)
qed

lemma kept_erase: "kept s (erase_user uid s)"
proof -
  have one: "(\<forall>k m. dict_get (jobs (erase_job t tid)) k = Some m \<longrightarrow> dict_get (jobs t) k = Some m) \<and> seq_no (erase_job t tid) = seq_no t" for t tid
    by (auto simp: erase_job_def drop_payload_def release_conflicts_def Let_def split: option.split if_splits)
  have "(\<forall>k m. dict_get (jobs (foldl erase_job t ids)) k = Some m \<longrightarrow> dict_get (jobs t) k = Some m) \<and> seq_no (foldl erase_job t ids) = seq_no t" for t ids
  proof (induction ids arbitrary: t)
    case (Cons k ids)
    from one [of t k] Cons.IH [of "erase_job t k"] show ?case by simp
  qed simp
  from this [of s "user_tasks uid s"] show ?thesis by (intro kept_sub) (simp_all add: erase_user_def Let_def)
qed

lemma kept_admit_internal:
  assumes ok: "jobs_ok s"
  shows "kept s (fst (admit_internal env now e p credit s))"
proof -
  have join: "kept s (fst (join_conflict env now e m s))" if m: "dict_get (jobs s) (task_id m) = Some m" for m
  proof -
    have "kept s (put_job (m\<lparr>identity_aliases := identity_aliases m @ [job_identity env e]\<rparr>) s)" by (rule kept_put [where m = m]) (simp_all add: m)
    then show ?thesis by (auto simp: join_conflict_def Let_def kept_def)
  qed
  have first: "dict_get (jobs s) (task_id m) = Some m" if "first_conflict s nm uid ks = Some m" for nm uid ks m
    using that
  proof (induction ks)
    case (Cons k ks)
    then show ?case using jobs_ok_fit(3) [OF ok] by (auto simp: active_owner_def split: option.splits if_splits)
  qed simp
  have insert: "kept s (insert_record env now q e t)" if "jobs t = jobs s" "seq_no t = seq_no s" for q t
    using that by (auto simp: kept_def new_record_def Let_def split: if_splits)
  have lane: "jobs t = jobs s \<and> seq_no t = seq_no s" if "lane_setdefault nm q s = (l, t)" for nm q l t
    using that by (auto simp: lane_setdefault_def split: option.splits)
  have "kept s (fst (admit_fresh env now e q credit s))" for q
    using join first insert lane by (auto simp: admit_fresh_def Let_def kept_frame split: option.split prod.split)
  then show ?thesis by (auto simp: admit_internal_def Let_def split: option.split prod.split)
qed

lemma kept_submit:
  assumes inv: "store_inv s"
  shows "kept s (fst (submit env now e p s))"
proof -
  have ok: "jobs_ok s" using inv by (simp add: store_inv_def)
  have "kept s (fst (admit env now e' p' s))" if "policy_ok p'" for e' p'
  proof (rule kept_after_sweep [OF ok])
    show "kept (sweep now s) (fst (admit env now e' p' s))" using kept_admit_internal [OF sweep_ok(1) [OF ok]] by (simp add: admit_def)
    show "jobs_ok (fst (admit env now e' p' s))" using admit_inv [OF inv that] by (simp add: store_inv_def)
  qed
  then show ?thesis by (auto simp: submit_def policy_init_iff case_prod_beta split: sum.split)
qed

lemma kept_retry_settle:
  assumes ok: "jobs_ok t" and over: "\<not> active_state (state m)"
    and kept_m: "adm_state adm \<in> {ACCEPTED, EXISTING} \<Longrightarrow> \<not> (adm_state adm = ACCEPTED \<and> cid = task_id m) \<Longrightarrow> dict_get (jobs t) (task_id m) = Some m"
  shows "kept t (fst (retry_settle now key body cid m (t, adm)))"
proof -
  let ?m = "m\<lparr>retry_grants := 0, retry_payload_available := False, retry_eligible := False\<rparr>"
  have "kept t (put_job ?m (t\<lparr>payloads := dict_pop (payloads t) (task_id m)\<rparr>))"
    if "dict_get (jobs t) (task_id m) = Some m"
    by (rule kept_put [where m = m]) (use that in \<open>simp_all add: firm_def\<close>)
  then show ?thesis using kept_m by (auto simp: retry_settle_def drop_payload_def put_operation_def kept_def)
qed

lemma kept_retry:
  assumes inv0: "store_inv s0"
  shows "kept s0 (fst (retry_job env now tid rv actor op_id epoch s0))"
proof -
  let ?s = "sweep now s0" and ?key = "command_key env actor op_id" and ?body = "CmdRetry tid rv"
  let ?cid = "uuid5_url env ?key"
  have inv: "store_inv ?s" using inv0 by (rule sweep_inv)
  then have ok: "jobs_ok ?s" by (simp add: store_inv_def)
  have q: "kept s0 ?s" using inv0 kept_sweep by (simp add: store_inv_def)
  show ?thesis
  proof (cases "\<exists>m pl e l. command_previous ?key ?body ?s = Inr None \<and> dict_get (jobs ?s) tid = Some m \<and>
      retry_allowed tid rv epoch ?s m \<and> dict_get (payloads ?s) tid = Some pl \<and>
      envelope_init (retry_child ?key ?cid epoch pl m) = Inr e \<and> dict_get (lanes ?s) (lane m) = Some l")
    case False
    with q show ?thesis by (auto simp: retry_job_def Let_def split: sum.splits option.splits)
  next
    case True
    then obtain m pl e l where c: "command_previous ?key ?body ?s = Inr None" and m: "dict_get (jobs ?s) tid = Some m"
      and ra: "retry_allowed tid rv epoch ?s m" and pl: "dict_get (payloads ?s) tid = Some pl"
      and e: "envelope_init (retry_child ?key ?cid epoch pl m) = Inr e" and l: "dict_get (lanes ?s) (lane m) = Some l"
      by blast
    obtain t adm where a: "admit_internal env now e (lane_policy l) (payload_bytes m) ?s = (t, adm)" by fastforce
    have m': "dict_get (jobs ?s) (task_id m) = Some m" using jobs_ok_fit(3) [OF ok m] .
    have over: "\<not> active_state (state m)" using ra by (auto simp: retry_allowed_def)
    have pol: "policy_ok (lane_policy l)" using inv l by (auto simp: store_inv_def lanes_ok_def)
    have cid: "task_id e = ?cid" using envelope_init_lane [OF e] by (simp add: retry_child_def)
    note rk = retry_kept [OF inv pol a m' over]
    have st: "kept t (fst (retry_settle now ?key ?body ?cid m (t, adm)))"
      by (rule kept_retry_settle [OF rk(1) over]) (use rk(2) cid in auto)
    have r: "retry_job env now tid rv actor op_id epoch s0 =
        (fst (retry_settle now ?key ?body ?cid m (t, adm)), Inr (snd (retry_settle now ?key ?body ?cid m (t, adm))))"
      using c m ra pl e l a by (simp add: retry_job_def Let_def split: prod.splits)
    have okr: "jobs_ok (fst (retry_settle now ?key ?body ?cid m (t, adm)))"
      using retry_inv [OF inv0, of env now tid rv actor op_id epoch] r by (simp add: store_inv_def)
    have "kept s0 t" using kept_trans [OF q _ ok rk(1)] kept_admit_internal [OF ok, of env now e "lane_policy l" "payload_bytes m"] a by simp
    from kept_trans [OF this st rk(1) okr] r show ?thesis by simp
  qed
qed

text \<open>Everything but a claim and a settlement.\<close>

fun plain_op :: "queue_op \<Rightarrow> bool" where
  "plain_op (OpClaim now nm owner) = False"
| "plain_op (OpFinish now tid owner rv r delay) = False"
| "plain_op op = True"

lemma kept_plain:
  assumes inv: "store_inv s" and op: "plain_op op"
  shows "kept s (queue_step s op)"
proof -
  have ok: "jobs_ok s" using inv by (simp add: store_inv_def)
  note k = kept_sweep [OF ok] kept_owner_calls [OF ok] kept_cancel [OF ok] kept_lane_calls kept_erase kept_submit [OF inv] kept_retry [OF inv]
  show ?thesis
    using op by (cases op) (simp_all add: k load_payload_def read_job_def private_record_def stats_def list_jobs_def Let_def)
qed

section \<open>Claims\<close>

lemma settle_waiting_kept:
  assumes ok: "jobs_ok s" and w: "waiting_jobs s (m # ms)"
    and t: "terminal now st reason safe m s = (m1, s2)" and st: "st \<in> {FAILED, EXPIRED}"
  shows "jobs_ok (put_job m1 s2)" and "waiting_jobs (put_job m1 s2) ms" and "kept s (put_job m1 s2)"
proof -
  have m: "dict_get (jobs s) (task_id m) = Some m" "state m = QUEUED" using w by (auto simp: waiting_jobs_def)
  have "local_step s m s2 m1"
    by (rule terminal_local_step [OF t jobs_ok_fit(1) [OF ok m(1)]]) (use m(2) st in \<open>auto intro: settle_waiting\<close>)
  from quiet_put [OF ok m(1) this] show "jobs_ok (put_job m1 s2)" by (simp add: quiet_step_def)
  have "dict_get (jobs (put_job m1 s2)) (task_id x) = dict_get (jobs s) (task_id x)" if "x \<in> set ms" for x
  proof (rule terminal_other_jobs(1) [OF t])
    show "task_id x \<noteq> task_id m" using w that by (auto simp: waiting_jobs_def image_iff)
  qed
  with w show "waiting_jobs (put_job m1 s2) ms" by (simp add: waiting_jobs_def)
  have "task_id m1 = task_id m" using terminal_job(1) [OF t] by (simp add: same_core_def)
  then show "kept s (put_job m1 s2)"
    using m(1) firm_terminal [OF t] terminal_frame(1,2) [OF t] st by (intro kept_put [where m = m]) auto
qed

text \<open>A claim gives away one job that was waiting.\<close>

definition started :: "secs \<Rightarrow> string \<Rightarrow> store \<Rightarrow> store \<Rightarrow> job_claim option \<Rightarrow> bool" where
  "started now owner s s1 r \<longleftrightarrow>
    (case r of
       None \<Rightarrow> kept s s1
     | Some c \<Rightarrow> \<exists>s' m. kept s s' \<and> jobs_ok s' \<and> dict_get (jobs s') (task_id m) = Some m \<and> state m = QUEUED \<and>
         s1 = put_job (start_run now owner m) s' \<and> c = mk_claim owner (start_run now owner m))"

lemma started_after:
  assumes "kept s s'" and "jobs_ok s'" and "started now owner s' s1 r" and "jobs_ok s1"
  shows "started now owner s s1 r"
proof (cases r)
  case None
  with assms show ?thesis by (auto simp: started_def intro: kept_trans)
next
  case (Some c)
  with assms obtain t m where t: "kept s' t" "jobs_ok t" and m: "dict_get (jobs t) (task_id m) = Some m" "state m = QUEUED"
    "s1 = put_job (start_run now owner m) t" "c = mk_claim owner (start_run now owner m)"
    unfolding started_def by auto
  from kept_trans [OF assms(1) t(1) assms(2) t(2)] t(2) m Some show ?thesis unfolding started_def by auto
qed

lemma claim_loop_started:
  assumes "jobs_ok s" and "waiting_jobs s ms" and "claim_loop now owner busy ms s = (s1, r)" and "jobs_ok s1"
  shows "started now owner s s1 r"
  using assms
proof (induction ms arbitrary: s)
  case Nil
  then show ?case by (auto simp: started_def)
next
  case (Cons m ms)
  note ok = Cons.prems(1) and w = Cons.prems(2) and eq = Cons.prems(3) and ok1 = Cons.prems(4)
  have m: "dict_get (jobs s) (task_id m) = Some m" "state m = QUEUED" and w': "waiting_jobs s ms"
    using w by (auto simp: waiting_jobs_def)
  have settle: "started now owner s s1 r"
    if t: "terminal now st reason safe m s = (m1, s2)" and st: "st \<in> {FAILED, EXPIRED}"
      and loop: "claim_loop now owner busy ms (put_job m1 s2) = (s1, r)" for st reason safe m1 s2
  proof -
    note k = settle_waiting_kept [OF ok w t st]
    from started_after [OF k(3,1) Cons.IH [OF k(1,2) loop ok1] ok1] show ?thesis .
  qed
  show ?case
  proof (cases "attempts_started m \<ge> max_attempts m")
    case True
    obtain m1 s2 where t: "terminal now FAILED (Some ''attempts_exhausted'') True m s = (m1, s2)" by fastforce
    with True eq show ?thesis by (intro settle [OF t]) simp_all
  next
    case fresh: False
    show ?thesis
    proof (cases "image_work m \<and> busy")
      case True
      with fresh eq Cons.IH [OF ok w' _ ok1] show ?thesis by simp
    next
      case free: False
      show ?thesis
      proof (cases "dict_has (payloads s) (task_id m)")
        case False
        obtain m1 s2 where t: "terminal now EXPIRED (Some ''payload_expired'') False m s = (m1, s2)" by fastforce
        from False free fresh eq t have "claim_loop now owner busy ms (put_job m1 s2) = (s1, r)" by auto
        from settle [OF t _ this] show ?thesis by simp
      next
        case True
        then have "s1 = put_job (start_run now owner m) s" "r = Some (mk_claim owner (start_run now owner m))"
          using eq fresh free by auto
        with m ok show ?thesis by (auto simp: started_def intro!: exI [of _ s] exI [of _ m])
      qed
    qed
  qed
qed

lemma claim_started:
  assumes inv: "store_inv s" and eq: "claim now nm owner s = (s1, res)"
  shows "case res of Inr r \<Rightarrow> started now owner s s1 r | Inl e \<Rightarrow> kept s s1"
proof -
  let ?s = "sweep now s" and ?busy = "\<exists>m \<in> set (held_jobs (sweep now s)). image_work m"
  have ok: "jobs_ok s" using inv by (simp add: store_inv_def)
  have ok': "jobs_ok ?s" and k: "kept s ?s" using ok by (simp_all add: sweep_ok kept_sweep)
  have ok1: "jobs_ok s1" using claim_inv [OF inv, of now nm owner] eq by (simp add: store_inv_def)
  obtain s2 c where l: "claim_loop now owner ?busy (claim_order (lane_queued ?s nm)) ?s = (s2, c)" by fastforce
  have loop: "started now owner s s1 c" if same: "s1 = s2"
  proof -
    have l1: "claim_loop now owner ?busy (claim_order (lane_queued ?s nm)) ?s = (s1, c)" using l same by simp
    from started_after [OF k ok' claim_loop_started [OF ok' waiting_lane_queued [OF ok'] l1 ok1] ok1] show ?thesis .
  qed
  from eq l show ?thesis
    using k loop by (auto simp: claim_def Let_def started_def [of now owner s "sweep now s" None] split: option.splits if_splits)
qed

section \<open>Settlements\<close>

text \<open>A settlement puts back only a job of the caller, and only with a retryable failure.\<close>

definition put_back :: "string \<Rightarrow> bool \<Rightarrow> job \<Rightarrow> job \<Rightarrow> bool" where
  "put_back owner retryable m m' \<longleftrightarrow>
    firm m m' \<or>
    retryable \<and> owner_token m = Some owner \<and> sequence m' = sequence m \<and> effectful m' = effectful m \<and> \<not> held_state (state m')"

definition settled_by :: "string \<Rightarrow> bool \<Rightarrow> store \<Rightarrow> store \<Rightarrow> bool" where
  "settled_by owner retryable s s' \<longleftrightarrow>
    seq_no s \<le> seq_no s' \<and>
    (\<forall>tid m'. dict_get (jobs s') tid = Some m' \<longrightarrow>
      seq_no s < sequence m' \<and> owner_token m' = None \<or>
      (\<exists>m. dict_get (jobs s) tid = Some m \<and> put_back owner retryable m m'))"

lemma settled_kept: "kept s s' \<Longrightarrow> settled_by owner retryable s s'"
  unfolding kept_def settled_by_def put_back_def by blast

lemma settled_put:
  assumes k: "kept s t" and ok: "jobs_ok t" and m: "dict_get (jobs t) tid = Some m" "owner_token m = Some owner"
    and p: "put_back owner retryable m m'" and same: "task_id m' = tid" "jobs t' = jobs t" "seq_no t' = seq_no t"
  shows "settled_by owner retryable s (put_job m' t')"
proof -
  have held: "held_state (state m)" using jobs_okD(2) [OF ok m(1)] m(2) by (auto simp: job_ok_def)
  from k m(1) obtain m0 where m0: "dict_get (jobs s) tid = Some m0" "firm m0 m" using m(2) by (auto elim: keptE)
  with held m(2) p have "put_back owner retryable m0 m'" by (auto simp: put_back_def firm_def)
  with k m0(1) same show ?thesis
    unfolding settled_by_def kept_def put_job_def by (auto simp: put_back_def)
qed

lemma finish_transition_put_back:
  assumes "finish_transition now delay r m s = (m', s')" and "owner_token m = Some owner"
  shows "put_back owner (outcome r = RETRYABLE_FAILURE) m m' \<and> \<not> held_state (state m') \<and> jobs s' = jobs s \<and> seq_no s' = seq_no s"
proof -
  have settled: "firm m m' \<and> \<not> held_state (state m') \<and> jobs s' = jobs s \<and> seq_no s' = seq_no s"
    if "terminal now st reason safe m s = (m', s')" "\<not> active_state st" for st reason safe
    using firm_terminal [OF that] terminal_frame(1,2) [OF that(1)] terminal_job(4) [OF that(1)] that(2)
    by (auto simp: active_state_def held_state_def)
  show ?thesis
  proof (cases "outcome r = RETRYABLE_FAILURE \<and> state m \<noteq> CANCEL_REQUESTED")
    case True
    with assms have "finish_retryable now delay (result_reason r) m s = (m', s')" by (simp add: finish_transition_def)
    then show ?thesis using True assms(2) settled by (auto simp: finish_retryable_def put_back_def split: if_splits)
  next
    case False
    with assms(1) settled show ?thesis
      by (cases "outcome r") (auto simp: finish_transition_def outcome_state_def put_back_def split: if_splits)
  qed
qed

lemma put_back_tags [simp]:
  "put_back owner b (m\<lparr>result_summary := sm\<rparr>) m' = put_back owner b m m'"
  "\<not> held_state (state m') \<Longrightarrow> put_back owner b m (m'\<lparr>finish_token := tok\<rparr>) = put_back owner b m m'"
  by (simp_all add: put_back_def firm_def)

lemma finish_owned_settled:
  assumes ok: "jobs_ok s" and k: "kept s0 s" and ok0: "jobs_ok s0"
  shows "settled_by owner (outcome r = RETRYABLE_FAILURE) s0 (fst (finish_owned now tid owner rv r delay s))"
proof -
  let ?s = "sweep now s"
  have ok': "jobs_ok ?s" using ok by (simp add: sweep_ok)
  have k': "kept s0 ?s" using kept_trans [OF k kept_sweep [OF ok] ok ok'] .
  obtain x where o: "owned now tid owner rv s = (?s, x)" by (simp add: owned_def Let_def)
  show ?thesis
  proof (cases "\<exists>m clean. x = Inr m \<and> public_summary (summary_of r) = Inr clean")
    case False
    with o settled_kept [OF k'] show ?thesis by (cases x; cases "public_summary (summary_of r)") (auto simp: finish_owned_def)
  next
    case True
    then obtain m clean where x: "x = Inr m" and c: "public_summary (summary_of r) = Inr clean" by auto
    let ?m = "m\<lparr>result_summary := summary_merge (result_summary m) clean\<rparr>"
    from owned_spec [OF o] x have m: "dict_get (jobs ?s) tid = Some m" "held_state (state m)" "owner_token m = Some owner" by auto
    obtain m1 s1 where t: "finish_transition now delay r ?m ?s = (m1, s1)" by fastforce
    have fit: "job_ok ?m" "payload_fit ?s ?m" "task_id ?m = tid"
      using local_step_tags [OF local_step_refl [OF jobs_ok_fit(1,2) [OF ok' m(1)]]] jobs_okD(1) [OF ok' m(1)] by (auto simp: local_step_def)
    have "task_id m1 = tid" using finish_transition_step [OF fit(1,2) _ t] fit(3) m(2) by (auto simp: local_step_def dest: evolves_task_id)
    then have "settled_by owner (outcome r = RETRYABLE_FAILURE) s0 (put_job (m1\<lparr>finish_token := Some owner\<rparr>) s1)"
      using finish_transition_put_back [OF t, of owner] m(3) by (intro settled_put [OF k' ok' m(1,3)]) simp_all
    with o x c t show ?thesis by (simp add: finish_owned_def Let_def)
  qed
qed

lemma finish_settled:
  assumes ok: "jobs_ok s"
  shows "settled_by owner (outcome r = RETRYABLE_FAILURE) s (fst (finish now tid owner rv r delay s))"
  using finish_owned_settled [OF sweep_ok(1) [OF ok] kept_sweep [OF ok] ok] settled_kept [OF kept_sweep [OF ok]]
  by (auto simp: finish_def Let_def split: option.split)

end
