(* ===== verification/Queue_Runtime.thy ===== *)
theory Queue_Runtime
  imports Queue_Ownership
begin

text \<open>
  The workers of the job queue (\<open>queue_runtime.py\<close>) over the store of \<open>Queue_Store\<close>, and its timing policy
  (\<open>queue_scheduling.py\<close>). A worker claims a job, executes it under a guard that checks the ownership before the handler
  and every two seconds, and settles what came out of it. Every stretch between two awaits is one step; a call of the store
  is one step of its own, so steps of other workers, of other clients and of the scheduler come between any two of them.
  The log of handlers entered and of retryable results is only observed, never read by a step.
\<close>

section \<open>Timing policy\<close>

definition next_attempt_at :: "int \<Rightarrow> secs \<Rightarrow> secs option \<Rightarrow> secs \<Rightarrow> queue_error + secs" where
  "next_attempt_at attempts now after random_value =
    (if \<not> (0 \<le> random_value \<and> random_value \<le> 1) then Inl (ValueError ''Invalid queue clock or jitter'')
     else
       (let base = min 60 (15 * 2 ^ nat (min 2 (max 0 (attempts - 1))));
            delay = base * (1 + random_value / 5);
            delay1 = (case after of None \<Rightarrow> delay | Some ra \<Rightarrow> max delay ra)
        in Inr (now + delay1)))"

section \<open>The cache of snapshots\<close>

datatype task_status =
  PENDING | RUNNING_status | COMPLETED | FAILED_status | CANCELLED_status | UNKNOWN_DELIVERY_status | DISPOSITION_UNCONFIRMED

definition status_of :: "job_state \<Rightarrow> task_status" where
  "status_of st =
    (case st of
       QUEUED \<Rightarrow> PENDING | DELAYED \<Rightarrow> PENDING
     | RUNNING \<Rightarrow> RUNNING_status | CANCEL_REQUESTED \<Rightarrow> RUNNING_status
     | SUCCEEDED \<Rightarrow> COMPLETED
     | FAILED \<Rightarrow> FAILED_status | EXPIRED \<Rightarrow> FAILED_status
     | CANCELLED \<Rightarrow> CANCELLED_status
     | UNKNOWN_DELIVERY \<Rightarrow> UNKNOWN_DELIVERY_status)"

record cached_task =
  ct_user_id :: int
  ct_kind :: string
  ct_status :: task_status
  ct_created_at :: secs
  ct_started_at :: "secs option"
  ct_completed_at :: "secs option"
  ct_outcome :: job_state
  ct_summary :: summary
  ct_error :: "string option"
  ct_attempts :: int
  ct_max_retries :: int
  ct_revision :: int

definition nonzero_time :: "secs option \<Rightarrow> secs option" where
  "nonzero_time t = (case t of None \<Rightarrow> None | Some x \<Rightarrow> if x = 0 then None else Some x)"

definition task_of :: "job_snapshot \<Rightarrow> int \<Rightarrow> cached_task" where
  "task_of snap uid =
    \<lparr>ct_user_id = uid, ct_kind = snap_kind snap, ct_status = status_of (snap_state snap),
     ct_created_at = snap_submitted_at snap, ct_started_at = nonzero_time (snap_started_at snap),
     ct_completed_at = nonzero_time (snap_finished_at snap), ct_outcome = snap_state snap,
     ct_summary = snap_result_summary snap, ct_error = snap_reason_code snap,
     ct_attempts = snap_attempts_started snap, ct_max_retries = snap_max_attempts snap,
     ct_revision = snap_revision snap\<rparr>"

text \<open>\<open>_cache\<close>: a snapshot older than the cached one is dropped; the entry written becomes the youngest, and the
  oldest ones go until 256 are left.\<close>

definition cache_snapshot :: "job_snapshot \<Rightarrow> int \<Rightarrow> (string, cached_task) dict \<Rightarrow> (string, cached_task) dict" where
  "cache_snapshot snap uid tasks =
    (let cached = dict_get tasks (snap_task_id snap) in
     if (case cached of None \<Rightarrow> False | Some t \<Rightarrow> ct_revision t > snap_revision snap) then tasks
     else
       (let owner = (if uid \<noteq> 0 then uid else case cached of Some t \<Rightarrow> ct_user_id t | None \<Rightarrow> 0);
            tasks1 = dict_pop tasks (snap_task_id snap) @ [(snap_task_id snap, task_of snap owner)]
        in drop (length tasks1 - 256) tasks1))"

section \<open>State\<close>

datatype exec_end = Done job_result | CancelRaised string | OwnershipLost | Interrupted | Crashed

datatype exec_phase =
  Starting | Checking | Loading | Handling
  | Ended exec_end
  | Settling job_result bool
  | Finishing job_result int secs bool

text \<open>The guard's lock: free, or held by a checkpoint that has read a revision and is about to send its heartbeat, or by a
  progress report about to be written.\<close>

datatype checker = Body "summary option" | Heart

datatype guard_lock = Free | Beating checker int | Reporting int summary

record execution =
  ex_claim :: job_claim
  ex_phase :: exec_phase
  ex_guard :: guard_lock
  ex_report :: "summary option"
  ex_snapshot :: job_snapshot
  ex_heart :: bool
  ex_cancelled :: bool

datatype worker_place = Top | Asking nat | Waiting nat | Running execution | Gone

record worker =
  wk_lane :: string
  wk_idle :: secs
  wk_cancelling :: bool
  wk_place :: worker_place

datatype run_note = HandlerEntered string int string bool | RetryableReturned string

record runtime =
  rt_store :: store
  rt_tasks :: "(string, cached_task) dict"
  rt_workers :: "worker list"
  rt_executions :: "(string, nat) dict"
  rt_claims :: "(string, job_claim) dict"
  rt_wake :: "(string, nat) dict"
  rt_tokens :: "string list"
  rt_log :: "run_note list"

text \<open>A handler is known by the number of the callable.\<close>

record handler_registration =
  reg_handler :: nat
  reg_lane :: string
  reg_effectful :: bool
  reg_image_work :: bool
  reg_timeout :: "int option"

text \<open>\<open>payload_data\<close> tells whether a payload is JSON with an object \<open>data\<close>; \<open>registrations\<close> are closed while workers run.\<close>

record rt_config =
  registrations :: "(string, handler_registration) dict"
  payload_data :: "string \<Rightarrow> bool"

abbreviation (input) "MIN_IDLE_POLL_SECONDS \<equiv> 1 / 2 :: secs"
abbreviation (input) "MAX_IDLE_POLL_SECONDS \<equiv> 5 :: secs"

definition worker_at :: "runtime \<Rightarrow> nat \<Rightarrow> worker option" where
  "worker_at rt i = (if i < length (rt_workers rt) then Some (rt_workers rt ! i) else None)"

definition run_of :: "runtime \<Rightarrow> nat \<Rightarrow> execution option" where
  "run_of rt i = (case worker_at rt i of None \<Rightarrow> None | Some w \<Rightarrow> (case wk_place w of Running g \<Rightarrow> Some g | _ \<Rightarrow> None))"

definition put_worker :: "nat \<Rightarrow> worker \<Rightarrow> runtime \<Rightarrow> runtime" where
  "put_worker i w rt = rt\<lparr>rt_workers := (rt_workers rt)[i := w]\<rparr>"

definition put_run :: "nat \<Rightarrow> execution \<Rightarrow> runtime \<Rightarrow> runtime" where
  "put_run i g rt = put_worker i ((rt_workers rt ! i)\<lparr>wk_place := Running g\<rparr>) rt"

abbreviation claim_task :: "job_claim \<Rightarrow> string" where
  "claim_task c \<equiv> snap_task_id (claim_snapshot c)"

definition wake_generation :: "string \<Rightarrow> runtime \<Rightarrow> nat" where
  "wake_generation nm rt = (case dict_get (rt_wake rt) nm of None \<Rightarrow> 0 | Some n \<Rightarrow> n)"

section \<open>The worker's loop\<close>

text \<open>The event of the lane is taken before the claim: its generation is remembered.\<close>

definition worker_look :: "nat \<Rightarrow> runtime \<Rightarrow> runtime option" where
  "worker_look i rt =
    (case worker_at rt i of
       Some w \<Rightarrow> if wk_place w = Top then Some (put_worker i (w\<lparr>wk_place := Asking (wake_generation (wk_lane w) rt)\<rparr>) rt) else None
     | None \<Rightarrow> None)"

definition new_execution :: "job_claim \<Rightarrow> execution" where
  "new_execution c =
    \<lparr>ex_claim = c, ex_phase = Starting, ex_guard = Free, ex_report = None, ex_snapshot = claim_snapshot c,
     ex_heart = True, ex_cancelled = False\<rparr>"

text \<open>\<open>claim(lane, uuid.uuid4().hex)\<close>; the token is new.\<close>

definition worker_claim :: "nat \<Rightarrow> secs \<Rightarrow> string \<Rightarrow> runtime \<Rightarrow> runtime option" where
  "worker_claim i now owner rt =
    (case worker_at rt i of
       None \<Rightarrow> None
     | Some w \<Rightarrow>
        (case wk_place w of
           Asking g \<Rightarrow>
             (if owner \<in> set (rt_tokens rt) then None
              else
                (case claim now (wk_lane w) owner (rt_store rt) of
                   (s, Inr (Some c)) \<Rightarrow>
                     Some (put_worker i (w\<lparr>wk_idle := MIN_IDLE_POLL_SECONDS, wk_place := Running (new_execution c)\<rparr>)
                       (rt\<lparr>rt_store := s, rt_tokens := owner # rt_tokens rt,
                           rt_tasks := cache_snapshot (claim_snapshot c) (claim_user_id c) (rt_tasks rt),
                           rt_claims := dict_set (rt_claims rt) (claim_task c) c,
                           rt_executions := dict_set (rt_executions rt) (claim_task c) i\<rparr>))
                 | (s, _) \<Rightarrow>
                     Some (put_worker i (w\<lparr>wk_place := Waiting g\<rparr>) (rt\<lparr>rt_store := s, rt_tokens := owner # rt_tokens rt\<rparr>))))
         | _ \<Rightarrow> None))"

text \<open>\<open>_wait_for_work\<close> ends with the event or with the timeout.\<close>

definition worker_wake :: "nat \<Rightarrow> bool \<Rightarrow> runtime \<Rightarrow> runtime option" where
  "worker_wake i timed_out rt =
    (case worker_at rt i of
       None \<Rightarrow> None
     | Some w \<Rightarrow>
        (case wk_place w of
           Waiting g \<Rightarrow>
             (if timed_out then Some (put_worker i (w\<lparr>wk_idle := min (wk_idle w * 2) MAX_IDLE_POLL_SECONDS, wk_place := Top\<rparr>) rt)
              else if g < wake_generation (wk_lane w) rt
              then Some (put_worker i (w\<lparr>wk_idle := MIN_IDLE_POLL_SECONDS, wk_place := Top\<rparr>) rt)
              else None)
         | _ \<Rightarrow> None))"

definition notify_work :: "string \<Rightarrow> runtime \<Rightarrow> runtime" where
  "notify_work nm rt = rt\<lparr>rt_wake := dict_set (rt_wake rt) nm (wake_generation nm rt + 1)\<rparr>"

text \<open>The \<open>finally\<close> of the loop: the entries of the claim go.\<close>

definition worker_leave :: "nat \<Rightarrow> execution \<Rightarrow> worker_place \<Rightarrow> runtime \<Rightarrow> runtime" where
  "worker_leave i g p rt =
    put_worker i ((rt_workers rt ! i)\<lparr>wk_place := p\<rparr>)
      (rt\<lparr>rt_executions := dict_pop (rt_executions rt) (claim_task (ex_claim g)),
          rt_claims := dict_pop (rt_claims rt) (claim_task (ex_claim g))\<rparr>)"

section \<open>The execution of a claim\<close>

definition live_phase :: "exec_phase \<Rightarrow> bool" where
  "live_phase p \<longleftrightarrow> p \<in> {Starting, Checking, Loading, Handling}"

text \<open>The execution's task is over: whatever part of the guard's lock it held is released.\<close>

definition end_execution :: "exec_end \<Rightarrow> execution \<Rightarrow> execution" where
  "end_execution e g =
    g\<lparr>ex_phase := Ended e, ex_report := None,
      ex_guard := (case ex_guard g of Beating Heart rv \<Rightarrow> Beating Heart rv | _ \<Rightarrow> Free)\<rparr>"

definition permanent :: "string \<Rightarrow> exec_end" where
  "permanent reason = Done (mk_result PERMANENT_FAILURE (Some reason) [])"

text \<open>\<open>_run_claim\<close> up to its checkpoint; \<open>permitted\<close> is what the privacy lease of a real user answers.\<close>

definition run_begin :: "rt_config \<Rightarrow> bool \<Rightarrow> execution \<Rightarrow> execution option" where
  "run_begin cfg permitted g =
    (if ex_phase g \<noteq> Starting then None
     else
       Some (case dict_get (registrations cfg) (snap_kind (claim_snapshot (ex_claim g))) of
          None \<Rightarrow> end_execution (permanent ''unknown_task_type'') g
        | Some reg \<Rightarrow>
           (if reg_lane reg \<noteq> snap_lane (claim_snapshot (ex_claim g)) then end_execution (permanent ''unknown_task_type'') g
            else if claim_user_id (ex_claim g) > 0 \<and> \<not> permitted then end_execution (permanent ''privacy_revoked'') g
            else g\<lparr>ex_phase := Checking\<rparr>)))"

text \<open>A checkpoint that raises: before the handler it ends the execution; in the handler the exception is the handler's;
  the heartbeat task cancels the execution and returns.\<close>

definition guard_failed :: "checker \<Rightarrow> exec_end \<Rightarrow> execution \<Rightarrow> execution" where
  "guard_failed who e g =
    (case who of
       Body _ \<Rightarrow> if ex_phase g = Checking then end_execution e g else g
     | Heart \<Rightarrow> g\<lparr>ex_heart := False, ex_cancelled := True\<rparr>)"

definition guard_verdict :: "job_claim \<Rightarrow> bool \<Rightarrow> job option \<Rightarrow> exec_end + int" where
  "guard_verdict c privacy_current r =
    (case r of
       None \<Rightarrow> Inl OwnershipLost
     | Some m \<Rightarrow>
        (if owner_token m \<noteq> Some (claim_owner_token c) \<or> \<not> held_state (state m) then Inl OwnershipLost
         else if state m = CANCEL_REQUESTED then Inl (CancelRaised ''cancel_requested'')
         else if claim_user_id c > 0 \<and> \<not> privacy_current then Inl (CancelRaised ''privacy_revoked'')
         else Inr (revision m)))"

definition may_check :: "checker \<Rightarrow> execution \<Rightarrow> bool" where
  "may_check who g \<longleftrightarrow>
    ex_guard g = Free \<and>
    (case who of Heart \<Rightarrow> ex_heart g | Body None \<Rightarrow> ex_phase g \<in> {Checking, Handling} | Body (Some _) \<Rightarrow> ex_phase g = Handling)"

definition guard_read :: "checker \<Rightarrow> secs \<Rightarrow> bool \<Rightarrow> execution \<Rightarrow> store \<Rightarrow> (execution \<times> store) option" where
  "guard_read who now privacy_current g s0 =
    (if \<not> may_check who g then None
     else
       (case private_record now (claim_task (ex_claim g)) s0 of
          (s, r) \<Rightarrow>
            (case guard_verdict (ex_claim g) privacy_current r of
               Inl e \<Rightarrow> Some (guard_failed who e g, s)
             | Inr rv \<Rightarrow> Some (g\<lparr>ex_guard := Beating who rv\<rparr>, s))))"

definition guard_passed :: "checker \<Rightarrow> job_snapshot \<Rightarrow> execution \<Rightarrow> execution" where
  "guard_passed who snap g =
    g\<lparr>ex_snapshot := snap,
      ex_report := (case who of Body (Some sm) \<Rightarrow> Some sm | _ \<Rightarrow> ex_report g),
      ex_phase := (case who of Body _ \<Rightarrow> if ex_phase g = Checking then Loading else ex_phase g | Heart \<Rightarrow> ex_phase g)\<rparr>"

definition guard_beat :: "secs \<Rightarrow> execution \<Rightarrow> store \<Rightarrow> (execution \<times> store) option" where
  "guard_beat now g s0 =
    (case ex_guard g of
       Beating who rv \<Rightarrow>
         (case heartbeat now (claim_task (ex_claim g)) (claim_owner_token (ex_claim g)) rv s0 of
            (s, Inl err) \<Rightarrow> Some (guard_failed who Crashed (g\<lparr>ex_guard := Free\<rparr>), s)
          | (s, Inr snap) \<Rightarrow> Some (guard_passed who snap (g\<lparr>ex_guard := Free\<rparr>), s))
     | _ \<Rightarrow> None)"

text \<open>The second half of \<open>JobExecutionGuard.update_progress\<close>, after its checkpoint.\<close>

definition report_read :: "secs \<Rightarrow> execution \<Rightarrow> store \<Rightarrow> (execution \<times> store) option" where
  "report_read now g s0 =
    (case ex_report g of
       None \<Rightarrow> None
     | Some sm \<Rightarrow>
        (if ex_guard g \<noteq> Free \<or> ex_phase g \<noteq> Handling then None
         else
           (case private_record now (claim_task (ex_claim g)) s0 of
              (s, None) \<Rightarrow> Some (g\<lparr>ex_report := None\<rparr>, s)
            | (s, Some m) \<Rightarrow>
                (if owner_token m \<noteq> Some (claim_owner_token (ex_claim g)) \<or> state m = CANCEL_REQUESTED
                 then Some (g\<lparr>ex_report := None\<rparr>, s)
                 else Some (g\<lparr>ex_report := None, ex_guard := Reporting (revision m) sm\<rparr>, s)))))"

definition report_write :: "secs \<Rightarrow> execution \<Rightarrow> store \<Rightarrow> (execution \<times> store \<times> job_snapshot option) option" where
  "report_write now g s0 =
    (case ex_guard g of
       Reporting rv sm \<Rightarrow>
         (case update_progress now (claim_task (ex_claim g)) (claim_owner_token (ex_claim g)) rv sm s0 of
            (s, Inl err) \<Rightarrow> Some (g\<lparr>ex_guard := Free\<rparr>, s, None)
          | (s, Inr snap) \<Rightarrow> Some (g\<lparr>ex_guard := Free, ex_snapshot := snap\<rparr>, s, Some snap))
     | _ \<Rightarrow> None)"

text \<open>Loading the payload: a conflict of the store is no \<open>ValueError\<close>, so it leaves \<open>_run_claim\<close>; a payload that does not
  decode is a permanent failure; otherwise the handler is entered.\<close>

definition run_load :: "rt_config \<Rightarrow> secs \<Rightarrow> execution \<Rightarrow> store \<Rightarrow> (execution \<times> store \<times> run_note list) option" where
  "run_load cfg now g s0 =
    (if ex_phase g \<noteq> Loading then None
     else
       (case load_payload now (claim_task (ex_claim g)) (claim_owner_token (ex_claim g)) s0 of
          (s, Inl err) \<Rightarrow> Some (end_execution Crashed g, s, [])
        | (s, Inr pl) \<Rightarrow>
            (if \<not> payload_data cfg pl then Some (end_execution (permanent ''invalid_job_payload'') g, s, [])
             else
               Some (g\<lparr>ex_phase := Handling\<rparr>, s,
                 (case dict_get (jobs s) (claim_task (ex_claim g)) of
                    None \<Rightarrow> []
                  | Some m \<Rightarrow>
                      [HandlerEntered (task_id m) (sequence m) (claim_owner_token (ex_claim g)) (claim_effectful (ex_claim g))])))))"

definition run_return :: "handler_value \<Rightarrow> execution \<Rightarrow> (execution \<times> run_note list) option" where
  "run_return v g =
    (if ex_phase g \<noteq> Handling then None
     else
       (let r = normalize_job_result v in
        Some (end_execution (Done r) g,
          if outcome r = RETRYABLE_FAILURE then [RetryableReturned (claim_owner_token (ex_claim g))] else [])))"

text \<open>An exception out of the execution: of the handler, of the privacy lease, of a cancellation that was asked for.\<close>

definition run_raise :: "exec_end \<Rightarrow> execution \<Rightarrow> execution option" where
  "run_raise e g =
    (case e of
       Done _ \<Rightarrow> None
     | Interrupted \<Rightarrow>
         if live_phase (ex_phase g) \<and> (ex_cancelled g \<or> ex_phase g = Handling) then Some (end_execution e g) else None
     | _ \<Rightarrow> if live_phase (ex_phase g) then Some (end_execution e g) else None)"

section \<open>Settling\<close>

text \<open>What the worker makes of the execution's end; \<open>None\<close> is the \<open>continue\<close> after a lost ownership.\<close>

definition unsure :: "job_claim \<Rightarrow> string \<Rightarrow> job_result" where
  "unsure c reason = mk_result (if claim_effectful c then UNKNOWN_DELIVERY_outcome else RETRYABLE_FAILURE) (Some reason) []"

definition execution_result :: "job_claim \<Rightarrow> bool \<Rightarrow> exec_end \<Rightarrow> job_result option" where
  "execution_result c cancelling e =
    (case e of
       Done r \<Rightarrow> Some r
     | CancelRaised reason \<Rightarrow> Some (mk_result PERMANENT_FAILURE (Some reason) [])
     | OwnershipLost \<Rightarrow> None
     | Interrupted \<Rightarrow> Some (unsure c (if cancelling then ''worker_interrupted'' else ''execution_interrupted''))
     | Crashed \<Rightarrow>
         Some (unsure c (if snap_kind (claim_snapshot c) = ''document_processing'' then ''document_storage_unconfirmed''
           else if claim_effectful c then ''delivery_unconfirmed'' else ''handler_failed'')))"

definition worker_settle :: "nat \<Rightarrow> runtime \<Rightarrow> runtime option" where
  "worker_settle i rt =
    (case (worker_at rt i, run_of rt i) of
       (Some w, Some g) \<Rightarrow>
         (case ex_phase g of
            Ended e \<Rightarrow>
              Some (case execution_result (ex_claim g) (wk_cancelling w) e of
                 None \<Rightarrow> worker_leave i g Top rt
               | Some r \<Rightarrow>
                  put_run i (g\<lparr>ex_phase := Settling r (e = Interrupted \<and> wk_cancelling w), ex_heart := False, ex_guard := Free\<rparr>) rt)
          | _ \<Rightarrow> None)
     | _ \<Rightarrow> None)"

text \<open>The cached task of a settlement that could not be confirmed.\<close>

definition unconfirmed :: "secs \<Rightarrow> job_claim \<Rightarrow> (string, cached_task) dict \<Rightarrow> (string, cached_task) dict" where
  "unconfirmed now c tasks =
    (case dict_get tasks (claim_task c) of
       None \<Rightarrow> tasks
     | Some t \<Rightarrow>
        (if ct_revision t \<le> snap_revision (claim_snapshot c) then
           dict_set tasks (claim_task c)
             (t\<lparr>ct_status := (if claim_effectful c then UNKNOWN_DELIVERY_status else DISPOSITION_UNCONFIRMED),
                ct_error := Some ''disposition_unconfirmed'', ct_completed_at := Some now\<rparr>)
         else tasks))"

definition leaving_place :: "bool \<Rightarrow> worker_place" where
  "leaving_place leaving = (if leaving then Gone else Top)"

definition finish_read :: "nat \<Rightarrow> secs \<Rightarrow> secs \<Rightarrow> runtime \<Rightarrow> runtime option" where
  "finish_read i now random_value rt =
    (case run_of rt i of
       None \<Rightarrow> None
     | Some g \<Rightarrow>
        (case ex_phase g of
           Settling r leaving \<Rightarrow>
             (case (if outcome r = RETRYABLE_FAILURE
                    then next_attempt_at (snap_attempts_started (claim_snapshot (ex_claim g))) 0 (retry_after r) random_value
                    else Inr 0) of
                Inl err \<Rightarrow> None
              | Inr delay \<Rightarrow>
                 (case private_record now (claim_task (ex_claim g)) (rt_store rt) of
                    (s, cur) \<Rightarrow>
                      (case cur of
                         Some m \<Rightarrow>
                           (if owner_token m = Some (claim_owner_token (ex_claim g))
                            then Some (put_run i (g\<lparr>ex_phase := Finishing r (revision m) delay leaving\<rparr>) (rt\<lparr>rt_store := s\<rparr>))
                            else Some (worker_leave i g (leaving_place leaving)
                              (rt\<lparr>rt_store := s, rt_tasks := unconfirmed now (ex_claim g) (rt_tasks rt)\<rparr>)))
                       | None \<Rightarrow> Some (worker_leave i g (leaving_place leaving)
                           (rt\<lparr>rt_store := s, rt_tasks := unconfirmed now (ex_claim g) (rt_tasks rt)\<rparr>)))))
         | _ \<Rightarrow> None))"

definition finish_write :: "nat \<Rightarrow> secs \<Rightarrow> runtime \<Rightarrow> runtime option" where
  "finish_write i now rt =
    (case run_of rt i of
       None \<Rightarrow> None
     | Some g \<Rightarrow>
        (case ex_phase g of
           Finishing r rv delay leaving \<Rightarrow>
             (case finish now (claim_task (ex_claim g)) (claim_owner_token (ex_claim g)) rv r delay (rt_store rt) of
                (s, res) \<Rightarrow>
                  Some (worker_leave i g (leaving_place leaving)
                    (rt\<lparr>rt_store := s,
                        rt_tasks := (case res of
                            Inr snap \<Rightarrow> cache_snapshot snap (claim_user_id (ex_claim g)) (rt_tasks rt)
                          | Inl err \<Rightarrow> unconfirmed now (ex_claim g) (rt_tasks rt))\<rparr>)))
         | _ \<Rightarrow> None))"

section \<open>Stopping and purging\<close>

text \<open>\<open>stop\<close> cancels every worker. A worker that awaits its execution passes the cancellation on; one whose execution has
  just ended, or that is settling, is thrown out of its await.\<close>

definition worker_cancel :: "nat \<Rightarrow> runtime \<Rightarrow> runtime option" where
  "worker_cancel i rt =
    (case worker_at rt i of
       None \<Rightarrow> None
     | Some w \<Rightarrow>
        (case wk_place w of
           Gone \<Rightarrow> None
         | Running g \<Rightarrow>
            (case ex_phase g of
               Ended e \<Rightarrow> Some (put_worker i (w\<lparr>wk_cancelling := True, wk_place := Running (g\<lparr>ex_phase := Ended Interrupted\<rparr>)\<rparr>) rt)
             | Settling r b \<Rightarrow> Some (worker_leave i g Gone rt)
             | Finishing r rv d b \<Rightarrow> Some (worker_leave i g Gone rt)
             | _ \<Rightarrow> Some (put_worker i (w\<lparr>wk_cancelling := True, wk_place := Running (g\<lparr>ex_cancelled := True\<rparr>)\<rparr>) rt))
         | _ \<Rightarrow> Some (put_worker i (w\<lparr>wk_cancelling := True, wk_place := Gone\<rparr>) rt)))"

definition cancel_execution :: "runtime \<Rightarrow> nat \<Rightarrow> runtime" where
  "cancel_execution rt i = (case run_of rt i of None \<Rightarrow> rt | Some g \<Rightarrow> put_run i (g\<lparr>ex_cancelled := True\<rparr>) rt)"

definition user_executions :: "int \<Rightarrow> runtime \<Rightarrow> nat list" where
  "user_executions uid rt =
    map snd (filter (\<lambda>(tid, i). case dict_get (rt_claims rt) tid of None \<Rightarrow> False | Some c \<Rightarrow> claim_user_id c = uid) (rt_executions rt))"

definition purge_cancel :: "int \<Rightarrow> runtime \<Rightarrow> runtime" where
  "purge_cancel uid rt = foldl cancel_execution rt (user_executions uid rt)"

text \<open>Then the store's \<open>erase_user\<close>, and at last the cached tasks.\<close>

definition purge_tasks :: "int \<Rightarrow> runtime \<Rightarrow> runtime" where
  "purge_tasks uid rt = rt\<lparr>rt_tasks := filter (\<lambda>e. ct_user_id (snd e) \<noteq> uid) (rt_tasks rt)\<rparr>"

section \<open>Steps of the runtime\<close>

datatype runtime_event =
  EvLook nat
  | EvClaim nat secs string
  | EvWake nat bool
  | EvBegin nat bool
  | EvCheck nat checker secs bool
  | EvBeat nat secs
  | EvReport nat secs
  | EvReported nat secs
  | EvLoad nat secs
  | EvReturn nat handler_value
  | EvRaise nat exec_end
  | EvSettle nat
  | EvFinishRead nat secs secs
  | EvFinish nat secs
  | EvCancel nat
  | EvPurgeCancel int
  | EvPurgeTasks int
  | EvStore queue_op "string option"

definition note_store :: "nat \<Rightarrow> runtime \<Rightarrow> execution \<times> store \<times> run_note list \<Rightarrow> runtime" where
  "note_store i rt res = (case res of (g, s, notes) \<Rightarrow> put_run i g (rt\<lparr>rt_store := s, rt_log := rev notes @ rt_log rt\<rparr>))"

definition on_run :: "nat \<Rightarrow> runtime \<Rightarrow> (execution \<Rightarrow> (execution \<times> store \<times> run_note list) option) \<Rightarrow> runtime option" where
  "on_run i rt f = (case run_of rt i of None \<Rightarrow> None | Some g \<Rightarrow> map_option (note_store i rt) (f g))"

text \<open>A client's own call of the store is any but a claim and a settlement; commands that may make work wake the lane.\<close>

fun runtime_act :: "rt_config \<Rightarrow> runtime_event \<Rightarrow> runtime \<Rightarrow> runtime option" where
  "runtime_act cfg (EvLook i) rt = worker_look i rt"
| "runtime_act cfg (EvClaim i now owner) rt = worker_claim i now owner rt"
| "runtime_act cfg (EvWake i timed_out) rt = worker_wake i timed_out rt"
| "runtime_act cfg (EvBegin i permitted) rt =
    on_run i rt (\<lambda>g. map_option (\<lambda>g'. (g', rt_store rt, [])) (run_begin cfg permitted g))"
| "runtime_act cfg (EvCheck i who now current) rt =
    on_run i rt (\<lambda>g. map_option (\<lambda>(g', s). (g', s, [])) (guard_read who now current g (rt_store rt)))"
| "runtime_act cfg (EvBeat i now) rt =
    on_run i rt (\<lambda>g. map_option (\<lambda>(g', s). (g', s, [])) (guard_beat now g (rt_store rt)))"
| "runtime_act cfg (EvReport i now) rt =
    on_run i rt (\<lambda>g. map_option (\<lambda>(g', s). (g', s, [])) (report_read now g (rt_store rt)))"
| "runtime_act cfg (EvReported i now) rt =
    (case run_of rt i of
       None \<Rightarrow> None
     | Some g \<Rightarrow>
        map_option (\<lambda>(g', s, snap).
            put_run i g' (rt\<lparr>rt_store := s,
              rt_tasks := (case snap of None \<Rightarrow> rt_tasks rt | Some sn \<Rightarrow> cache_snapshot sn (claim_user_id (ex_claim g)) (rt_tasks rt))\<rparr>))
          (report_write now g (rt_store rt)))"
| "runtime_act cfg (EvLoad i now) rt = on_run i rt (\<lambda>g. run_load cfg now g (rt_store rt))"
| "runtime_act cfg (EvReturn i v) rt = on_run i rt (\<lambda>g. map_option (\<lambda>(g', notes). (g', rt_store rt, notes)) (run_return v g))"
| "runtime_act cfg (EvRaise i e) rt = on_run i rt (\<lambda>g. map_option (\<lambda>g'. (g', rt_store rt, [])) (run_raise e g))"
| "runtime_act cfg (EvSettle i) rt = worker_settle i rt"
| "runtime_act cfg (EvFinishRead i now rnd) rt = finish_read i now rnd rt"
| "runtime_act cfg (EvFinish i now) rt = finish_write i now rt"
| "runtime_act cfg (EvCancel i) rt = worker_cancel i rt"
| "runtime_act cfg (EvPurgeCancel uid) rt = Some (purge_cancel uid rt)"
| "runtime_act cfg (EvPurgeTasks uid) rt = Some (purge_tasks uid rt)"
| "runtime_act cfg (EvStore op wake) rt =
    (if plain_op op then
       (let rt1 = rt\<lparr>rt_store := queue_step (rt_store rt) op\<rparr>
        in Some (case wake of None \<Rightarrow> rt1 | Some nm \<Rightarrow> notify_work nm rt1))
     else None)"

text \<open>\<open>start\<close>: the pools of the lanes, \<open>max_workers\<close> for the deferred one.\<close>

definition runtime_init :: "nat \<Rightarrow> store \<Rightarrow> runtime" where
  "runtime_init max_workers s =
    \<lparr>rt_store = s, rt_tasks = [],
     rt_workers = concat (map (\<lambda>(nm, n). replicate (if nm = ''deferred'' then max_workers else nat n)
         \<lparr>wk_lane = nm, wk_idle = MIN_IDLE_POLL_SECONDS, wk_cancelling = False, wk_place = Top\<rparr>) LANE_WORKERS),
     rt_executions = [], rt_claims = [], rt_wake = [], rt_tokens = [], rt_log = []\<rparr>"

inductive reach :: "rt_config \<Rightarrow> nat \<Rightarrow> runtime \<Rightarrow> bool" for cfg k where
  init: "reach cfg k (runtime_init k empty_store)"
| step: "reach cfg k rt \<Longrightarrow> runtime_act cfg ev rt = Some rt' \<Longrightarrow> reach cfg k rt'"

end
