(* ===== verification/Queue_Workers.thy ===== *)
theory Queue_Workers
  imports Queue_Runtime
begin

text \<open>
  An effectful job is executed again only after its handler itself returned a retryable failure. The invariant reads four
  things of a state: the store, what every worker executes, the tokens drawn so far and the log.
\<close>

section \<open>The invariant\<close>

definition token_of :: "execution \<Rightarrow> string" where
  "token_of g = claim_owner_token (ex_claim g)"

definition unentered :: "exec_phase \<Rightarrow> bool" where
  "unentered p \<longleftrightarrow> p \<in> {Starting, Checking, Loading}"

fun result_in :: "exec_phase \<Rightarrow> job_result option" where
  "result_in (Ended (Done r)) = Some r"
| "result_in (Settling r b) = Some r"
| "result_in (Finishing r rv d b) = Some r"
| "result_in p = None"

definition run_fine :: "run_note list \<Rightarrow> execution \<Rightarrow> bool" where
  "run_fine L g \<longleftrightarrow>
    (unentered (ex_phase g) \<longrightarrow> (\<forall>tid q b. HandlerEntered tid q (token_of g) b \<notin> set L)) \<and>
    (claim_effectful (ex_claim g) \<longrightarrow>
      (\<forall>r. result_in (ex_phase g) = Some r \<and> outcome r = RETRYABLE_FAILURE \<longrightarrow> RetryableReturned (token_of g) \<in> set L))"

fun note_token :: "run_note \<Rightarrow> string" where
  "note_token (HandlerEntered tid q tok b) = tok"
| "note_token (RetryableReturned tok) = tok"

text \<open>An entered effectful job is either with the execution that entered it, or over, or that execution said it may be retried.\<close>

definition entered_ok :: "store \<Rightarrow> run_note list \<Rightarrow> string \<Rightarrow> int \<Rightarrow> string \<Rightarrow> bool" where
  "entered_ok s L tid q tok \<longleftrightarrow>
    q \<le> seq_no s \<and>
    (\<forall>m. dict_get (jobs s) tid = Some m \<and> sequence m = q \<longrightarrow>
      effectful m \<and>
      (RetryableReturned tok \<in> set L \<or> \<not> active_state (state m) \<or> held_state (state m) \<and> owner_token m = Some tok))"

definition owned_by :: "job_claim \<Rightarrow> string \<Rightarrow> job \<Rightarrow> bool" where
  "owned_by c tid m \<longleftrightarrow>
    (owner_token m = Some (claim_owner_token c) \<longrightarrow> tid = claim_task c \<and> effectful m = claim_effectful c)"

fun log_ok :: "run_note list \<Rightarrow> bool" where
  "log_ok [] = True"
| "log_ok (HandlerEntered tid q tok True # ns) =
    (log_ok ns \<and> (\<forall>old. HandlerEntered tid q old True \<in> set ns \<longrightarrow> RetryableReturned old \<in> set ns))"
| "log_ok (n # ns) = log_ok ns"

definition runs_apart :: "(nat \<Rightarrow> execution option) \<Rightarrow> bool" where
  "runs_apart R \<longleftrightarrow> (\<forall>i j g h. R i = Some g \<and> R j = Some h \<and> token_of g = token_of h \<longrightarrow> i = j)"

definition tokens_ok :: "store \<Rightarrow> (nat \<Rightarrow> execution option) \<Rightarrow> string set \<Rightarrow> run_note list \<Rightarrow> bool" where
  "tokens_ok s R T L \<longleftrightarrow>
    (\<forall>tid m tok. dict_get (jobs s) tid = Some m \<and> owner_token m = Some tok \<longrightarrow> tok \<in> T) \<and>
    (\<forall>i g. R i = Some g \<longrightarrow> token_of g \<in> T) \<and>
    runs_apart R \<and>
    (\<forall>n \<in> set L. note_token n \<in> T)"

definition unfinished :: "store \<Rightarrow> bool" where
  "unfinished s \<longleftrightarrow> (\<forall>tid m. dict_get (jobs s) tid = Some m \<and> held_state (state m) \<longrightarrow> finish_token m = None)"

definition view_ok :: "store \<Rightarrow> (nat \<Rightarrow> execution option) \<Rightarrow> string set \<Rightarrow> run_note list \<Rightarrow> bool" where
  "view_ok s R T L \<longleftrightarrow>
    jobs_ok s \<and> unfinished s \<and> tokens_ok s R T L \<and> log_ok L \<and>
    (\<forall>i g. R i = Some g \<longrightarrow> run_fine L g) \<and>
    (\<forall>i g tid m. R i = Some g \<and> dict_get (jobs s) tid = Some m \<longrightarrow> owned_by (ex_claim g) tid m) \<and>
    (\<forall>tid q tok. HandlerEntered tid q tok True \<in> set L \<longrightarrow> entered_ok s L tid q tok)"

lemma view_okD:
  assumes "view_ok s R T L"
  shows "jobs_ok s" "tokens_ok s R T L" "log_ok L"
    and "R i = Some g \<Longrightarrow> run_fine L g"
    and "R i = Some g \<Longrightarrow> dict_get (jobs s) tid = Some m \<Longrightarrow> owned_by (ex_claim g) tid m"
    and "HandlerEntered tid q tok True \<in> set L \<Longrightarrow> entered_ok s L tid q tok"
  using assms by (auto simp: view_ok_def)

section \<open>Changes of the store\<close>

lemma owner_held:
  assumes "jobs_ok s" and "dict_get (jobs s) tid = Some m"
  shows "owner_token m = Some tok \<Longrightarrow> held_state (state m)"
  using jobs_okD(2) [OF assms] by (auto simp: job_ok_def)

lemma view_store:
  assumes v: "view_ok s R T L" and inv: "jobs_ok s'"
    and un: "unfinished s'"
    and tok: "\<And>tid m' tok. dict_get (jobs s') tid = Some m' \<Longrightarrow> owner_token m' = Some tok \<Longrightarrow> tok \<in> T"
    and own: "\<And>i g tid m'. R i = Some g \<Longrightarrow> dict_get (jobs s') tid = Some m' \<Longrightarrow> owned_by (ex_claim g) tid m'"
    and ent: "\<And>tid q tok. HandlerEntered tid q tok True \<in> set L \<Longrightarrow> entered_ok s' L tid q tok"
  shows "view_ok s' R T L"
proof -
  have "tokens_ok s' R T L" using view_okD(2) [OF v] tok unfolding tokens_ok_def by blast
  with assms show ?thesis unfolding view_ok_def by blast
qed

lemma view_settled:
  assumes v: "view_ok s R T L" and inv: "jobs_ok s'" and st: "settled_by tok b s s'"
    and due: "\<And>tid m. dict_get (jobs s) tid = Some m \<Longrightarrow> b \<Longrightarrow> owner_token m = Some tok \<Longrightarrow> effectful m \<Longrightarrow> RetryableReturned tok \<in> set L"
  shows "view_ok s' R T L"
proof (rule view_store [OF v inv])
  have ok: "jobs_ok s" and ok': "jobs_ok s'" using v inv by (simp_all add: view_okD)
  have cases: "seq_no s < sequence m' \<and> owner_token m' = None \<or> (\<exists>m. dict_get (jobs s) tid = Some m \<and> put_back tok b m m')"
    if "dict_get (jobs s') tid = Some m'" for tid m'
    using st that by (simp add: settled_by_def)
  have old: "\<exists>m. dict_get (jobs s) tid = Some m \<and> owner_token m = Some x \<and> effectful m' = effectful m"
    if m': "dict_get (jobs s') tid = Some m'" and o: "owner_token m' = Some x" for tid m' x
    using cases [OF m'] owner_held [OF ok' m' o] o by (auto simp: put_back_def firm_def)
  have "finish_token m' = None" if m': "dict_get (jobs s') tid = Some m'" and h: "held_state (state m')" for tid m'
  proof -
    have "owner_token m' \<noteq> None" using jobs_okD(2) [OF ok' m'] h by (simp add: job_ok_def)
    with cases [OF m'] h obtain m where "dict_get (jobs s) tid = Some m" "firm m m'" by (auto simp: put_back_def)
    with h v show ?thesis by (auto simp: firm_def view_ok_def unfinished_def)
  qed
  then show "unfinished s'" by (auto simp: unfinished_def)
  show "x \<in> T" if "dict_get (jobs s') tid = Some m'" "owner_token m' = Some x" for tid m' x
    using old [OF that] view_okD(2) [OF v] by (auto simp: tokens_ok_def)
  show "owned_by (ex_claim g) tid m'" if "R i = Some g" "dict_get (jobs s') tid = Some m'" for i g tid m'
    using old [OF that(2)] view_okD(5) [OF v that(1)] by (fastforce simp: owned_by_def)
  show "entered_ok s' L tid q x" if e: "HandlerEntered tid q x True \<in> set L" for tid q x
  proof -
    have eo: "entered_ok s L tid q x" using view_okD(6) [OF v e] .
    have "effectful m' \<and> (RetryableReturned x \<in> set L \<or> \<not> active_state (state m') \<or> held_state (state m') \<and> owner_token m' = Some x)"
      if m': "dict_get (jobs s') tid = Some m'" and q: "sequence m' = q" for m'
    proof -
      from cases [OF m'] eo q obtain m where m: "dict_get (jobs s) tid = Some m" "put_back tok b m m'" by (auto simp: entered_ok_def)
      then have "sequence m = q" using q by (auto simp: put_back_def firm_def)
      with eo m(1) have e2: "effectful m" "RetryableReturned x \<in> set L \<or> \<not> active_state (state m) \<or> held_state (state m) \<and> owner_token m = Some x"
        by (auto simp: entered_ok_def)
      have act: "active_state st = (waiting_state st \<or> held_state st)" "\<not> (waiting_state st \<and> held_state st)" for st
        by (cases st; simp add: active_state_def waiting_state_def held_state_def)+
      show ?thesis
      proof (cases "firm m m'")
        case True
        then show ?thesis using e2 act(2) [of "state m"] by (auto simp: firm_def act(1))
      next
        case False
        with m(2) have pb: "b" "owner_token m = Some tok" "effectful m' = effectful m" by (auto simp: put_back_def)
        have "x = tok \<or> RetryableReturned x \<in> set L" using e2(2) owner_held [OF ok m(1) pb(2)] pb(2) by (auto simp: act(1))
        with due [OF m(1) pb(1,2) e2(1)] pb(3) e2(1) show ?thesis by auto
      qed
    qed
    moreover have "q \<le> seq_no s'" using eo st by (auto simp: entered_ok_def settled_by_def)
    ultimately show ?thesis by (simp add: entered_ok_def)
  qed
qed

lemma view_kept:
  assumes "view_ok s R T L" and "jobs_ok s'" and "kept s s'"
  shows "view_ok s' R T L"
  by (rule view_settled [OF assms(1,2) settled_kept [OF assms(3)], where tok = "[]" and b = False]) simp

section \<open>Changes of what the workers do\<close>

lemma tokens_ok_run:
  assumes "tokens_ok s R T L" and "R i = Some g" and "ex_claim g' = ex_claim g"
  shows "tokens_ok s (R(i := Some g')) T L"
proof -
  have tok: "token_of g' = token_of g" using assms(3) by (simp add: token_of_def)
  have "i' = j" if "(R(i := Some g')) i' = Some a" "(R(i := Some g')) j = Some b" "token_of a = token_of b" for i' j a b
  proof -
    have same: "\<exists>h0. R k = Some h0 \<and> token_of h0 = token_of h" if "(R(i := Some g')) k = Some h" for k h
      using that assms(2) tok by (auto split: if_splits)
    from same [OF that(1)] same [OF that(2)] show ?thesis using assms(1) that(3) unfolding tokens_ok_def runs_apart_def by metis
  qed
  then have "runs_apart (R(i := Some g'))" unfolding runs_apart_def by blast
  moreover have "token_of h \<in> T" if "(R(i := Some g')) j = Some h" for j h
    using that assms(1,2) tok unfolding tokens_ok_def by (auto split: if_splits)
  ultimately show ?thesis using assms(1) unfolding tokens_ok_def by blast
qed

lemma view_run:
  assumes v: "view_ok s R T L" and i: "R i = Some g" and c: "ex_claim g' = ex_claim g" and fine: "run_fine L g'"
  shows "view_ok s (R(i := Some g')) T L"
proof -
  have "owned_by (ex_claim a) tid m" if "(R(i := Some g')) j = Some a" "dict_get (jobs s) tid = Some m" for j a tid m
    using that view_okD(5) [OF v i] view_okD(5) [OF v, of j a] c by (auto split: if_splits)
  moreover have "run_fine L a" if "(R(i := Some g')) j = Some a" for j a using that view_okD(4) [OF v] fine by (auto split: if_splits)
  ultimately show ?thesis using v tokens_ok_run [OF view_okD(2) [OF v] i c] unfolding view_ok_def by blast
qed

lemma view_drop:
  assumes "view_ok s R T L"
  shows "view_ok s (R(i := None)) T L"
  using assms unfolding view_ok_def tokens_ok_def runs_apart_def by (auto split: if_splits)

lemma view_token: "view_ok s R T L \<Longrightarrow> view_ok s R (insert tok T) L"
  unfolding view_ok_def tokens_ok_def by blast

lemma entered_ok_log: "entered_ok s L tid q tok \<Longrightarrow> set L \<subseteq> set L' \<Longrightarrow> entered_ok s L' tid q tok"
  unfolding entered_ok_def by blast

text \<open>The handler returns a retryable failure.\<close>

lemma view_retryable:
  assumes v: "view_ok s R T L" and i: "R i = Some g"
  shows "view_ok s R T (RetryableReturned (token_of g) # L)"
proof -
  have "run_fine (RetryableReturned x # L) h" if "run_fine L h" for x h using that by (auto simp: run_fine_def)
  moreover have "entered_ok s (RetryableReturned x # L) tid q tok" if "entered_ok s L tid q tok" for x tid q tok
    by (rule entered_ok_log [OF that]) auto
  moreover have "tokens_ok s R T (RetryableReturned (token_of g) # L)" using view_okD(2) [OF v] i by (auto simp: tokens_ok_def)
  ultimately show ?thesis using v by (auto simp: view_ok_def)
qed

text \<open>The handler is entered.\<close>

lemma view_enter:
  assumes v: "view_ok s R T L" and i: "R i = Some g" and ph: "unentered (ex_phase g)"
    and m: "dict_get (jobs s) (claim_task (ex_claim g)) = Some m" "state m = RUNNING" "owner_token m = Some (token_of g)"
    and L': "L' = HandlerEntered (task_id m) (sequence m) (token_of g) (claim_effectful (ex_claim g)) # L"
  shows "view_ok s (R(i := Some (g\<lparr>ex_phase := Handling\<rparr>))) T L'"
proof -
  let ?R = "R(i := Some (g\<lparr>ex_phase := Handling\<rparr>))"
  have ok: "jobs_ok s" using v by (rule view_okD)
  have tid: "task_id m = claim_task (ex_claim g)" using jobs_okD(1) [OF ok m(1)] .
  have eff: "effectful m = claim_effectful (ex_claim g)" using view_okD(5) [OF v i m(1)] m(3) by (simp add: owned_by_def token_of_def)
  have seq: "sequence m \<le> seq_no s" using jobs_okD(3) [OF ok m(1)] by simp
  have fresh: "HandlerEntered t q (token_of g) b \<notin> set L" for t q b using view_okD(4) [OF v i] ph by (simp add: run_fine_def)
  have "tokens_ok s ?R T L" using tokens_ok_run [OF view_okD(2) [OF v] i, of "g\<lparr>ex_phase := Handling\<rparr>"] by simp
  moreover have "token_of g \<in> T" using view_okD(2) [OF v] i unfolding tokens_ok_def by blast
  ultimately have toks: "tokens_ok s ?R T L'" unfolding tokens_ok_def L' by simp
  have old: "RetryableReturned old \<in> set L"
    if e: "HandlerEntered (task_id m) (sequence m) old True \<in> set L" for old
  proof -
    have "old \<noteq> token_of g" using fresh e by auto
    moreover have "entered_ok s L (task_id m) (sequence m) old" using view_okD(6) [OF v e] .
    ultimately show ?thesis using m tid by (auto simp: entered_ok_def)
  qed
  then have lg: "log_ok L'" using view_okD(3) [OF v] by (cases "claim_effectful (ex_claim g)") (simp_all add: L')
  have fine: "run_fine L' h" if h: "?R j = Some h" for j h
  proof (cases "j = i")
    case True
    with h show ?thesis by (auto simp: run_fine_def unentered_def)
  next
    case False
    with h have hj: "R j = Some h" by simp
    with False i view_okD(2) [OF v] have "token_of h \<noteq> token_of g" unfolding tokens_ok_def runs_apart_def by blast
    with view_okD(4) [OF v hj] show ?thesis by (auto simp: run_fine_def L')
  qed
  have own: "owned_by (ex_claim h) t k" if "?R j = Some h" "dict_get (jobs s) t = Some k" for j h t k
    using that view_okD(5) [OF v i that(2)] view_okD(5) [OF v _ that(2), of j h] by (auto split: if_splits)
  have "entered_ok s L' t q x" if "HandlerEntered t q x True \<in> set L'" for t q x
  proof (cases "HandlerEntered t q x True \<in> set L")
    case True
    show ?thesis by (rule entered_ok_log [OF view_okD(6) [OF v True]]) (auto simp: L')
  next
    case False
    with that have "t = task_id m" "q = sequence m" "x = token_of g" "claim_effectful (ex_claim g)" by (auto simp: L')
    with m tid eff seq show ?thesis by (simp add: entered_ok_def)
  qed
  moreover have "unfinished s" using v by (simp add: view_ok_def)
  ultimately show ?thesis using toks lg fine own view_okD(1) [OF v] unfolding view_ok_def by blast
qed

text \<open>A claim.\<close>

lemma view_claim:
  assumes v: "view_ok s R T L" and st: "started now tok s s' (Some c)" and inv: "jobs_ok s'" and new: "tok \<notin> T"
  shows "view_ok s' (R(i := Some (new_execution c))) (insert tok T) L"
proof -
  from st obtain t m where k: "kept s t" "jobs_ok t" and m: "dict_get (jobs t) (task_id m) = Some m" "state m = QUEUED"
    and s': "s' = put_job (start_run now tok m) t" and c: "c = mk_claim tok (start_run now tok m)"
    unfolding started_def by auto
  let ?m = "start_run now tok m"
  have run: "task_id ?m = task_id m" "sequence ?m = sequence m" "effectful ?m = effectful m" "state ?m = RUNNING" "owner_token ?m = Some tok"
    by (simp_all add: start_run_def Let_def)
  have ok': "jobs_ok s'" by fact
  have v1: "view_ok t R T L" using view_kept [OF v k(2,1)] .
  have get: "dict_get (jobs s') tid = (if tid = task_id m then Some ?m else dict_get (jobs t) tid)" for tid
    using run(1) by (simp add: s' put_job_def)
  have c': "claim_task c = task_id m" "claim_owner_token c = tok" "claim_effectful c = effectful m"
    using run by (simp_all add: c mk_claim_def snapshot_def)
  have used: "x \<noteq> tok" if "dict_get (jobs t) tid = Some k" "owner_token k = Some x" for tid k x
    using that view_okD(2) [OF v1] new unfolding tokens_ok_def by blast
  have runs: "token_of h \<in> T" if "R j = Some h" for j h using that view_okD(2) [OF v1] unfolding tokens_ok_def by blast
  have unused: "HandlerEntered x q tok b \<notin> set L" for x q b using view_okD(2) [OF v1] new by (force simp: tokens_ok_def)
  have toks: "tokens_ok s' (R(i := Some (new_execution c))) (insert tok T) L"
  proof -
    have "token_of (new_execution c) = tok" using c'(2) by (simp add: token_of_def new_execution_def)
    moreover have "token_of h \<noteq> tok" if "R j = Some h" for j h using runs [OF that] new by auto
    moreover have "runs_apart R" using view_okD(2) [OF v1] by (simp add: tokens_ok_def)
    ultimately have "runs_apart (R(i := Some (new_execution c)))" unfolding runs_apart_def by (metis fun_upd_apply option.inject)
    with \<open>token_of (new_execution c) = tok\<close> show ?thesis
      using view_okD(2) [OF v1] run(5) unfolding tokens_ok_def get by (auto split: if_splits)
  qed
  have fine: "run_fine L h" if "(R(i := Some (new_execution c))) j = Some h" for j h
    using that view_okD(4) [OF v1] unused c'(2) by (auto simp: run_fine_def new_execution_def token_of_def split: if_splits)
  have own: "owned_by (ex_claim h) tid k" if "(R(i := Some (new_execution c))) j = Some h" "dict_get (jobs s') tid = Some k" for j h tid k
    using that view_okD(5) [OF v1, of j h tid k] used [of tid k] runs [of j h] run(3,5) c' new
    by (auto simp: owned_by_def get new_execution_def token_of_def split: if_splits)
  have "entered_ok s' L tid q x" if "HandlerEntered tid q x True \<in> set L" for tid q x
    using view_okD(6) [OF v1 that] m run by (auto simp: entered_ok_def get s' put_job_def active_state_def split: if_splits)
  moreover have "unfinished s'" using v1 by (auto simp: unfinished_def get view_ok_def start_run_def Let_def split: if_splits)
  ultimately show ?thesis using toks fine own ok' view_okD(3) [OF v1] unfolding view_ok_def by blast
qed

section \<open>Every step keeps the invariant\<close>

definition runtime_inv :: "runtime \<Rightarrow> bool" where
  "runtime_inv rt \<longleftrightarrow> store_inv (rt_store rt) \<and> view_ok (rt_store rt) (run_of rt) (set (rt_tokens rt)) (rt_log rt)"

lemma run_of_less: "run_of rt i = Some g \<Longrightarrow> i < length (rt_workers rt)"
  by (auto simp: run_of_def worker_at_def split: if_splits)

lemma worker_at_less: "worker_at rt i = Some w \<Longrightarrow> i < length (rt_workers rt) \<and> rt_workers rt ! i = w"
  by (auto simp: worker_at_def split: if_splits)

lemma run_of_put_worker [simp]:
  "i < length (rt_workers rt) \<Longrightarrow>
    run_of (put_worker i w rt) = (run_of rt)(i := (case wk_place w of Running g \<Rightarrow> Some g | _ \<Rightarrow> None))"
  by (rule ext) (auto simp: run_of_def worker_at_def put_worker_def nth_list_update)

lemma run_of_frame: "rt_workers rt' = rt_workers rt \<Longrightarrow> run_of rt' = run_of rt"
  by (rule ext) (simp add: run_of_def worker_at_def)

lemma put_worker_frame [simp]:
  "rt_store (put_worker i w rt) = rt_store rt" "rt_tokens (put_worker i w rt) = rt_tokens rt" "rt_log (put_worker i w rt) = rt_log rt"
  by (simp_all add: put_worker_def)

lemma runtime_inv_frame:
  assumes "runtime_inv rt" and "rt_store rt' = rt_store rt" and w: "rt_workers rt' = rt_workers rt"
    and "rt_tokens rt' = rt_tokens rt" and "rt_log rt' = rt_log rt"
  shows "runtime_inv rt'"
  using assms unfolding runtime_inv_def run_of_frame [OF w] by simp

text \<open>A worker that executes nothing, before and after.\<close>

lemma inv_idle:
  assumes "runtime_inv rt" and "i < length (rt_workers rt)" and "\<And>g. wk_place w \<noteq> Running g"
  shows "runtime_inv (put_worker i w rt)"
proof -
  have "(case wk_place w of Running g \<Rightarrow> Some g | _ \<Rightarrow> None) = None" using assms(3) by (cases "wk_place w") auto
  with assms(1,2) show ?thesis by (simp add: runtime_inv_def view_drop)
qed

lemma inv_leave:
  assumes "runtime_inv rt" and "run_of rt i = Some g" and "p \<in> {Top, Gone}"
  shows "runtime_inv (worker_leave i g p rt)"
proof -
  have "runtime_inv (rt\<lparr>rt_executions := x, rt_claims := y\<rparr>)" for x y using assms(1) by (rule runtime_inv_frame) simp_all
  then show ?thesis unfolding worker_leave_def using run_of_less [OF assms(2)] assms(3) by (intro inv_idle) auto
qed

lemma inv_store:
  assumes "runtime_inv rt" and "store_inv s" and "kept (rt_store rt) s"
  shows "runtime_inv (rt\<lparr>rt_store := s\<rparr>)"
proof -
  have "run_of (rt\<lparr>rt_store := s\<rparr>) = run_of rt" by (rule run_of_frame) simp
  with assms view_kept [of "rt_store rt" "run_of rt" _ _ s] show ?thesis by (simp add: runtime_inv_def store_inv_def)
qed

lemma inv_put_run:
  assumes inv: "runtime_inv rt" and i: "run_of rt i = Some g" and c: "ex_claim g' = ex_claim g" and fine: "run_fine (rt_log rt) g'"
    and w: "wk_place w = Running g'"
  shows "runtime_inv (put_worker i w rt)"
  using view_run [of "rt_store rt" "run_of rt" _ _ i g g'] assms run_of_less [OF i] by (simp add: runtime_inv_def)

lemma inv_fine: "runtime_inv rt \<Longrightarrow> run_of rt i = Some g \<Longrightarrow> run_fine (rt_log rt) g"
  by (auto simp: runtime_inv_def view_ok_def)

text \<open>The end of an execution without a retryable result, and changes of the guard, keep \<open>run_fine\<close>.\<close>

lemma run_fine_end:
  assumes "run_fine L g" and "\<And>r. e = Done r \<Longrightarrow> outcome r \<noteq> RETRYABLE_FAILURE"
  shows "run_fine L (end_execution e g)"
  using assms by (cases e) (auto simp: run_fine_def end_execution_def unentered_def)

lemma run_fine_same:
  assumes "run_fine L g" and "ex_claim g' = ex_claim g" and "ex_phase g' = ex_phase g"
  shows "run_fine L g'"
  using assms by (simp add: run_fine_def token_of_def)

lemma run_fine_early:
  assumes "run_fine L g" and "ex_claim g' = ex_claim g" and "unentered (ex_phase g)" and "unentered (ex_phase g')"
  shows "run_fine L g'"
proof -
  have "result_in (ex_phase g') = None" using assms(4) by (auto simp: unentered_def)
  with assms show ?thesis by (simp add: run_fine_def token_of_def)
qed

lemma end_execution_claim [simp]: "ex_claim (end_execution e g) = ex_claim g"
  by (simp add: end_execution_def)

lemma store_ops_kept:
  assumes "store_inv s"
  shows "store_inv (fst (private_record now tid s)) \<and> kept s (fst (private_record now tid s))"
    and "store_inv (fst (heartbeat now tid tok rv s)) \<and> kept s (fst (heartbeat now tid tok rv s))"
    and "store_inv (fst (update_progress now tid tok rv sm s)) \<and> kept s (fst (update_progress now tid tok rv sm s))"
    and "store_inv (fst (load_payload now tid tok s)) \<and> kept s (fst (load_payload now tid tok s))"
  using kept_plain [OF assms, of "OpPrivateRecord now tid"] qs.step_invar [OF assms, of "OpPrivateRecord now tid"]
    kept_plain [OF assms, of "OpHeartbeat now tid tok rv"] qs.step_invar [OF assms, of "OpHeartbeat now tid tok rv"]
    kept_plain [OF assms, of "OpProgress now tid tok rv sm"] qs.step_invar [OF assms, of "OpProgress now tid tok rv sm"]
    kept_plain [OF assms, of "OpLoadPayload now tid tok"] qs.step_invar [OF assms, of "OpLoadPayload now tid tok"]
  by simp_all

lemma inv_run_store:
  assumes "runtime_inv rt" and "run_of rt i = Some g" and "ex_claim g' = ex_claim g" and "run_fine (rt_log rt) g'"
    and "store_inv s" and "kept (rt_store rt) s"
  shows "runtime_inv (put_run i g' (rt\<lparr>rt_store := s\<rparr>))"
proof -
  have "run_of (rt\<lparr>rt_store := s\<rparr>) i = Some g" using assms(2) run_of_frame [of "rt\<lparr>rt_store := s\<rparr>" rt] by simp
  then show ?thesis unfolding put_run_def using assms by (intro inv_put_run [OF inv_store]) simp_all
qed

lemma inv_on_run:
  assumes inv: "runtime_inv rt" and act: "on_run i rt f = Some rt'"
    and f: "\<And>g g' s notes. run_of rt i = Some g \<Longrightarrow> f g = Some (g', s, notes) \<Longrightarrow>
      notes = [] \<and> ex_claim g' = ex_claim g \<and> run_fine (rt_log rt) g' \<and> store_inv s \<and> kept (rt_store rt) s"
  shows "runtime_inv rt'"
proof -
  from act obtain g where g: "run_of rt i = Some g" by (auto simp: on_run_def split: option.splits)
  with act obtain g' s ns where r: "f g = Some (g', s, ns)" "rt' = note_store i rt (g', s, ns)" by (auto simp: on_run_def)
  note fs = f [OF g r(1)]
  then have "runtime_inv (put_run i g' (rt\<lparr>rt_store := s\<rparr>))" using inv g by (intro inv_run_store) auto
  moreover have "rt' = put_run i g' (rt\<lparr>rt_store := s\<rparr>)" using fs by (simp add: r(2) note_store_def)
  ultimately show ?thesis by simp
qed

section \<open>The execution's steps\<close>

lemma begin_fine:
  assumes "run_begin cfg permitted g = Some g'" and "run_fine L g"
  shows "ex_claim g' = ex_claim g \<and> run_fine L g'"
proof -
  from assms(1) have st: "ex_phase g = Starting" by (auto simp: run_begin_def split: if_splits)
  have "run_fine L (g\<lparr>ex_phase := Checking\<rparr>)" using assms(2) st by (intro run_fine_early [OF assms(2)]) (simp_all add: unentered_def)
  moreover have "run_fine L (end_execution (permanent reason) g)" for reason
    using assms(2) by (rule run_fine_end) (auto simp: permanent_def mk_result_def)
  ultimately show ?thesis using assms(1) by (auto simp: run_begin_def split: if_splits option.splits)
qed

lemma guard_failed_fine:
  assumes "run_fine L g" and "\<And>r. e \<noteq> Done r"
  shows "ex_claim (guard_failed who e g) = ex_claim g \<and> run_fine L (guard_failed who e g)"
proof -
  have "run_fine L (g\<lparr>ex_heart := False, ex_cancelled := True\<rparr>)" using assms(1) by (rule run_fine_same) simp_all
  with assms run_fine_end [OF assms(1), of e] show ?thesis by (auto simp: guard_failed_def split: checker.split)
qed

lemma guard_passed_fine:
  assumes "run_fine L g"
  shows "ex_claim (guard_passed who snap g) = ex_claim g \<and> run_fine L (guard_passed who snap g)"
proof -
  have c: "ex_claim (guard_passed who snap g) = ex_claim g" by (simp add: guard_passed_def)
  show ?thesis
  proof (cases "ex_phase (guard_passed who snap g) = ex_phase g")
    case True
    with c run_fine_same [OF assms c] show ?thesis by simp
  next
    case False
    then have "ex_phase g = Checking" "ex_phase (guard_passed who snap g) = Loading"
      by (auto simp: guard_passed_def split: checker.splits if_splits)
    with c show ?thesis by (intro conjI run_fine_early [OF assms c]) (simp_all add: unentered_def)
  qed
qed

lemma guard_verdict_end: "guard_verdict c b r = Inl e \<Longrightarrow> e \<noteq> Done x"
  by (auto simp: guard_verdict_def split: option.splits if_splits)

lemma guard_read_fine:
  assumes "guard_read who now b g s0 = Some (g', s)" and "run_fine L g" and "store_inv s0"
  shows "ex_claim g' = ex_claim g \<and> run_fine L g' \<and> store_inv s \<and> kept s0 s"
proof -
  have s: "s = fst (private_record now (claim_task (ex_claim g)) s0)"
    using assms(1) by (auto simp: guard_read_def split: if_splits prod.splits sum.splits)
  have "run_fine L (g\<lparr>ex_guard := Beating who rv\<rparr>)" for rv using assms(2) by (rule run_fine_same) simp_all
  then have "ex_claim g' = ex_claim g \<and> run_fine L g'"
    using assms(1) guard_failed_fine [OF assms(2) guard_verdict_end] by (auto simp: guard_read_def split: if_splits prod.splits sum.splits)
  with store_ops_kept(1) [OF assms(3)] show ?thesis by (simp add: s)
qed

lemma guard_beat_fine:
  assumes "guard_beat now g s0 = Some (g', s)" and "run_fine L g" and "store_inv s0"
  shows "ex_claim g' = ex_claim g \<and> run_fine L g' \<and> store_inv s \<and> kept s0 s"
proof -
  obtain who rv where b: "ex_guard g = Beating who rv" using assms(1) by (auto simp: guard_beat_def split: guard_lock.splits)
  obtain s1 r where h: "heartbeat now (claim_task (ex_claim g)) (claim_owner_token (ex_claim g)) rv s0 = (s1, r)" by fastforce
  have fine: "run_fine L (g\<lparr>ex_guard := Free\<rparr>)" using assms(2) by (rule run_fine_same) simp_all
  have "s = s1" using assms(1) b h by (auto simp: guard_beat_def split: sum.splits)
  moreover have "ex_claim g' = ex_claim g \<and> run_fine L g'"
    using assms(1) b h guard_failed_fine [OF fine, of Crashed] guard_passed_fine [OF fine]
    by (auto simp: guard_beat_def split: sum.splits)
  ultimately show ?thesis using store_ops_kept(2) [OF assms(3)] h by (metis fst_conv)
qed

lemma report_read_fine:
  assumes "report_read now g s0 = Some (g', s)" and "run_fine L g" and "store_inv s0"
  shows "ex_claim g' = ex_claim g \<and> run_fine L g' \<and> store_inv s \<and> kept s0 s"
proof -
  have s: "s = fst (private_record now (claim_task (ex_claim g)) s0)"
    using assms(1) by (auto simp: report_read_def split: if_splits prod.splits option.splits)
  have g: "ex_claim g' = ex_claim g \<and> ex_phase g' = ex_phase g"
    using assms(1) by (auto simp: report_read_def split: if_splits prod.splits option.splits)
  with run_fine_same [OF assms(2), of g'] store_ops_kept(1) [OF assms(3)] show ?thesis by (simp add: s)
qed

lemma report_write_fine:
  assumes "report_write now g s0 = Some (g', s, snap)" and "run_fine L g" and "store_inv s0"
  shows "ex_claim g' = ex_claim g \<and> run_fine L g' \<and> store_inv s \<and> kept s0 s"
proof -
  obtain rv sm where b: "ex_guard g = Reporting rv sm" using assms(1) by (auto simp: report_write_def split: guard_lock.splits)
  obtain s1 r where u: "update_progress now (claim_task (ex_claim g)) (claim_owner_token (ex_claim g)) rv sm s0 = (s1, r)" by fastforce
  have "s = s1" "ex_claim g' = ex_claim g \<and> ex_phase g' = ex_phase g"
    using assms(1) b u by (auto simp: report_write_def split: sum.splits)
  with run_fine_same [OF assms(2), of g'] store_ops_kept(3) [OF assms(3)] u show ?thesis by (metis fst_conv)
qed

lemma raise_fine:
  assumes "run_raise e g = Some g'" and "run_fine L g"
  shows "ex_claim g' = ex_claim g \<and> run_fine L g'"
proof -
  have "\<And>r. e \<noteq> Done r" and "g' = end_execution e g" using assms(1) by (auto simp: run_raise_def split: exec_end.splits if_splits)
  with run_fine_end [OF assms(2), of e] show ?thesis by auto
qed

lemma load_payload_owner:
  assumes "load_payload now tid tok s0 = (s, Inr pl)"
  shows "\<exists>m. dict_get (jobs s) tid = Some m \<and> state m = RUNNING \<and> owner_token m = Some tok"
  using assms by (auto simp: load_payload_def Let_def split: option.splits if_splits)

lemma inv_load:
  assumes inv: "runtime_inv rt" and g: "run_of rt i = Some g" and l: "run_load cfg now g (rt_store rt) = Some (g', s, ns)"
  shows "runtime_inv (note_store i rt (g', s, ns))"
proof -
  obtain r where lp: "load_payload now (claim_task (ex_claim g)) (claim_owner_token (ex_claim g)) (rt_store rt) = (s, r)"
    using l by (auto simp: run_load_def split: if_splits prod.splits sum.splits)
  have si: "store_inv (rt_store rt)" and fine: "run_fine (rt_log rt) g" using inv g by (auto simp: runtime_inv_def inv_fine)
  have s: "store_inv s" "kept (rt_store rt) s" using store_ops_kept(4) [OF si] lp by (metis fst_conv)+
  have ended: "runtime_inv (note_store i rt (end_execution e g, s, []))"
    if "\<And>x. e = Done x \<Longrightarrow> outcome x \<noteq> RETRYABLE_FAILURE" for e
    using inv_run_store [OF inv g _ run_fine_end [OF fine that] s] by (simp add: note_store_def)
  show ?thesis
  proof (cases "\<exists>pl. r = Inr pl \<and> payload_data cfg pl")
    case False
    then obtain e where e: "g' = end_execution e g" "ns = []" "e = Crashed \<or> e = permanent ''invalid_job_payload''"
      using l lp by (auto simp: run_load_def split: if_splits sum.splits)
    then have "outcome x \<noteq> RETRYABLE_FAILURE" if "e = Done x" for x using that by (auto simp: permanent_def mk_result_def)
    from ended [OF this] e(1,2) show ?thesis by simp
  next
    case True
    then obtain pl where pl: "r = Inr pl" "payload_data cfg pl" by blast
    obtain m where m: "dict_get (jobs s) (claim_task (ex_claim g)) = Some m" "state m = RUNNING" "owner_token m = Some (token_of g)"
      using load_payload_owner [OF lp [unfolded pl(1)]] by (auto simp: token_of_def)
    have ph: "ex_phase g = Loading" using l by (auto simp: run_load_def split: if_splits)
    have r: "g' = g\<lparr>ex_phase := Handling\<rparr>" "ns = [HandlerEntered (task_id m) (sequence m) (token_of g) (claim_effectful (ex_claim g))]"
      using l lp pl m(1) ph by (simp_all add: run_load_def token_of_def)
    let ?rt = "rt\<lparr>rt_store := s, rt_log := ns @ rt_log rt\<rparr>"
    have ro: "run_of ?rt = run_of rt" by (rule run_of_frame) simp
    have "view_ok s (run_of rt) (set (rt_tokens rt)) (rt_log rt)"
      using inv view_kept [OF _ _ s(2)] s(1) by (auto simp: runtime_inv_def store_inv_def)
    from view_enter [OF this g _ m refl] have "view_ok s ((run_of rt)(i := Some g')) (set (rt_tokens rt)) (ns @ rt_log rt)"
      using ph by (simp add: r unentered_def)
    then have "runtime_inv (put_run i g' ?rt)" using s(1) run_of_less [OF g] by (simp add: runtime_inv_def put_run_def ro)
    then show ?thesis by (simp add: note_store_def r(2))
  qed
qed

lemma inv_return:
  assumes inv: "runtime_inv rt" and g: "run_of rt i = Some g" and l: "run_return v g = Some (g', ns)"
  shows "runtime_inv (note_store i rt (g', rt_store rt, ns))"
proof -
  let ?r = "normalize_job_result v"
  have r: "g' = end_execution (Done ?r) g" "ns = (if outcome ?r = RETRYABLE_FAILURE then [RetryableReturned (token_of g)] else [])"
    using l by (auto simp: run_return_def Let_def token_of_def split: if_splits)
  have fine: "run_fine (rt_log rt) g" using inv g by (rule inv_fine)
  have si: "store_inv (rt_store rt)" using inv by (simp add: runtime_inv_def)
  show ?thesis
  proof (cases "outcome ?r = RETRYABLE_FAILURE")
    case False
    then have "run_fine (rt_log rt) g'" unfolding r by (intro run_fine_end [OF fine]) auto
    then show ?thesis using inv_run_store [OF inv g _ _ si kept_refl, of g'] False by (simp add: r note_store_def)
  next
    case True
    let ?L = "RetryableReturned (token_of g) # rt_log rt" and ?rt = "rt\<lparr>rt_log := RetryableReturned (token_of g) # rt_log rt\<rparr>"
    have ro: "run_of ?rt = run_of rt" by (rule run_of_frame) simp
    have "view_ok (rt_store rt) (run_of rt) (set (rt_tokens rt)) ?L"
      using inv by (intro view_retryable [where i = i] g) (simp add: runtime_inv_def)
    then have "runtime_inv ?rt" using si by (simp add: runtime_inv_def ro)
    moreover have "run_fine ?L g'"
      unfolding r by (auto simp: run_fine_def end_execution_def unentered_def token_of_def)
    ultimately have "runtime_inv (put_run i g' (?rt\<lparr>rt_store := rt_store rt\<rparr>))"
      using g si ro by (intro inv_run_store [where g = g]) (simp_all add: r)
    then show ?thesis using True by (simp add: note_store_def r(2))
  qed
qed

section \<open>The worker's steps\<close>

lemma inv_claim:
  assumes inv: "runtime_inv rt" and c: "worker_claim i now tok rt = Some rt'"
  shows "runtime_inv rt'"
proof -
  obtain w gen where w: "worker_at rt i = Some w" "wk_place w = Asking gen" "tok \<notin> set (rt_tokens rt)"
    using c by (auto simp: worker_claim_def split: option.splits worker_place.splits if_splits)
  obtain s res where cl: "claim now (wk_lane w) tok (rt_store rt) = (s, res)" by fastforce
  have si: "store_inv (rt_store rt)" and v: "view_ok (rt_store rt) (run_of rt) (set (rt_tokens rt)) (rt_log rt)"
    using inv by (simp_all add: runtime_inv_def)
  have si': "store_inv s" using qs.step_invar [OF si, of "OpClaim now (wk_lane w) tok"] cl by simp
  have ok': "jobs_ok s" using si' by (simp add: store_inv_def)
  have len: "i < length (rt_workers rt)" using worker_at_less [OF w(1)] by simp
  note st = claim_started [OF si cl]
  show ?thesis
  proof (cases "\<exists>k. res = Inr (Some k)")
    case True
    then obtain k where k: "res = Inr (Some k)" by blast
    with st have "started now tok (rt_store rt) s (Some k)" by simp
    from view_claim [OF v this ok' w(3)] show ?thesis
      using c w cl k si' len run_of_frame [of "rt\<lparr>rt_store := s, rt_tokens := a, rt_tasks := b, rt_claims := d, rt_executions := e\<rparr>" rt for a b d e]
      by (auto simp: worker_claim_def runtime_inv_def)
  next
    case False
    then have "kept (rt_store rt) s" using st by (auto simp: started_def split: sum.splits option.splits)
    then have "view_ok s (run_of rt) (insert tok (set (rt_tokens rt))) (rt_log rt)" using view_token [OF view_kept [OF v ok']] by simp
    then have "runtime_inv (rt\<lparr>rt_store := s, rt_tokens := tok # rt_tokens rt\<rparr>)"
      using si' run_of_frame [of "rt\<lparr>rt_store := s, rt_tokens := tok # rt_tokens rt\<rparr>" rt] by (simp add: runtime_inv_def)
    then have "runtime_inv (put_worker i (w\<lparr>wk_place := Waiting gen\<rparr>) (rt\<lparr>rt_store := s, rt_tokens := tok # rt_tokens rt\<rparr>))"
      using len by (intro inv_idle) simp_all
    moreover have "rt' = put_worker i (w\<lparr>wk_place := Waiting gen\<rparr>) (rt\<lparr>rt_store := s, rt_tokens := tok # rt_tokens rt\<rparr>)"
      using c w cl False by (auto simp: worker_claim_def split: sum.splits option.splits)
    ultimately show ?thesis by simp
  qed
qed

lemma execution_result_owed:
  assumes "execution_result c b e = Some r" and "claim_effectful c" and "outcome r = RETRYABLE_FAILURE"
  shows "e = Done r"
  using assms by (cases e) (auto simp: execution_result_def unsure_def mk_result_def)

lemma inv_settle:
  assumes inv: "runtime_inv rt" and c: "worker_settle i rt = Some rt'"
  shows "runtime_inv rt'"
proof -
  from c obtain w g e where w: "worker_at rt i = Some w" and g: "run_of rt i = Some g" and e: "ex_phase g = Ended e"
    by (auto simp: worker_settle_def split: option.splits exec_phase.splits)
  have fine: "run_fine (rt_log rt) g" using inv g by (rule inv_fine)
  show ?thesis
  proof (cases "execution_result (ex_claim g) (wk_cancelling w) e")
    case None
    with c w g e have "rt' = worker_leave i g Top rt" by (simp add: worker_settle_def)
    then show ?thesis using inv_leave [OF inv g] by simp
  next
    case (Some r)
    let ?g = "g\<lparr>ex_phase := Settling r (e = Interrupted \<and> wk_cancelling w), ex_heart := False, ex_guard := Free\<rparr>"
    have "run_fine (rt_log rt) ?g"
      using fine e execution_result_owed [OF Some] by (auto simp: run_fine_def unentered_def token_of_def)
    then have "runtime_inv (put_run i ?g rt)" unfolding put_run_def by (intro inv_put_run [OF inv g]) simp_all
    with c w g e Some show ?thesis by (simp add: worker_settle_def)
  qed
qed

lemma inv_finish_read:
  assumes inv: "runtime_inv rt" and c: "finish_read i now rnd rt = Some rt'"
  shows "runtime_inv rt'"
proof -
  obtain g where g: "run_of rt i = Some g" using c by (cases "run_of rt i") (simp_all add: finish_read_def)
  obtain r leaving where ph: "ex_phase g = Settling r leaving" using c g by (cases "ex_phase g") (simp_all add: finish_read_def)
  obtain s cur where p: "private_record now (claim_task (ex_claim g)) (rt_store rt) = (s, cur)" by fastforce
  have si: "store_inv (rt_store rt)" using inv by (simp add: runtime_inv_def)
  have s: "store_inv s" "kept (rt_store rt) s" using store_ops_kept(1) [OF si] p by (metis fst_conv)+
  have "run_fine (rt_log rt) (g\<lparr>ex_phase := Finishing r rv delay leaving\<rparr>)" for rv delay
    using inv_fine [OF inv g] ph by (simp add: run_fine_def unentered_def token_of_def)
  then have on: "runtime_inv (put_run i (g\<lparr>ex_phase := Finishing r rv delay leaving\<rparr>) (rt\<lparr>rt_store := s\<rparr>))" for rv delay
    by (intro inv_run_store [OF inv g _ _ s]) simp_all
  have "runtime_inv (rt\<lparr>rt_store := s, rt_tasks := x\<rparr>)" for x by (rule runtime_inv_frame [OF inv_store [OF inv s]]) simp_all
  moreover have "run_of (rt\<lparr>rt_store := s, rt_tasks := x\<rparr>) i = Some g" for x
    using g run_of_frame [of "rt\<lparr>rt_store := s, rt_tasks := x\<rparr>" rt] by simp
  ultimately have off: "runtime_inv (worker_leave i g (leaving_place leaving) (rt\<lparr>rt_store := s, rt_tasks := x\<rparr>))" for x
    by (rule inv_leave) (simp add: leaving_place_def)
  show ?thesis
  proof (cases "\<exists>m. cur = Some m \<and> owner_token m = Some (claim_owner_token (ex_claim g))")
    case True
    then obtain m where m: "cur = Some m" "owner_token m = Some (claim_owner_token (ex_claim g))" by blast
    have "\<exists>delay. rt' = put_run i (g\<lparr>ex_phase := Finishing r (revision m) delay leaving\<rparr>) (rt\<lparr>rt_store := s\<rparr>)"
      using c by (auto simp: finish_read_def g ph p m split: sum.splits)
    then show ?thesis using on by blast
  next
    case False
    then have "\<exists>x. rt' = worker_leave i g (leaving_place leaving) (rt\<lparr>rt_store := s, rt_tasks := x\<rparr>)"
      using c by (cases cur) (auto simp: finish_read_def g ph p split: sum.splits if_splits)
    then show ?thesis using off by blast
  qed
qed

lemma inv_finish:
  assumes inv: "runtime_inv rt" and c: "finish_write i now rt = Some rt'"
  shows "runtime_inv rt'"
proof -
  obtain g where g: "run_of rt i = Some g" using c by (cases "run_of rt i") (simp_all add: finish_write_def)
  obtain r rv delay leaving where ph: "ex_phase g = Finishing r rv delay leaving"
    using c g by (cases "ex_phase g") (simp_all add: finish_write_def)
  obtain s res where f: "finish now (claim_task (ex_claim g)) (token_of g) rv r delay (rt_store rt) = (s, res)" by fastforce
  have si: "store_inv (rt_store rt)" and v: "view_ok (rt_store rt) (run_of rt) (set (rt_tokens rt)) (rt_log rt)"
    using inv by (simp_all add: runtime_inv_def)
  have s: "store_inv s" using qs.step_invar [OF si, of "OpFinish now (claim_task (ex_claim g)) (token_of g) rv r delay"] f by simp
  have st: "settled_by (token_of g) (outcome r = RETRYABLE_FAILURE) (rt_store rt) s"
    using finish_settled [of "rt_store rt" "token_of g" r now "claim_task (ex_claim g)" rv delay] si f by (simp add: store_inv_def)
  have due: "RetryableReturned (token_of g) \<in> set (rt_log rt)"
    if "dict_get (jobs (rt_store rt)) tid = Some m" "outcome r = RETRYABLE_FAILURE" "owner_token m = Some (token_of g)" "effectful m" for tid m
    using that view_okD(5) [OF v g that(1)] inv_fine [OF inv g] ph by (simp add: owned_by_def token_of_def run_fine_def)
  have "jobs_ok s" using s by (simp add: store_inv_def)
  then have "view_ok s (run_of rt) (set (rt_tokens rt)) (rt_log rt)" by (rule view_settled [OF v _ st]) (rule due)
  moreover have ro: "run_of (rt\<lparr>rt_store := s, rt_tasks := x\<rparr>) = run_of rt" for x by (rule run_of_frame) simp
  ultimately have "runtime_inv (rt\<lparr>rt_store := s, rt_tasks := x\<rparr>)" for x using s by (simp add: runtime_inv_def)
  then have "runtime_inv (worker_leave i g (leaving_place leaving) (rt\<lparr>rt_store := s, rt_tasks := x\<rparr>))" for x
    using g ro by (intro inv_leave) (simp_all add: leaving_place_def)
  with c g ph f show ?thesis by (auto simp: finish_write_def token_of_def)
qed

lemma inv_cancel:
  assumes inv: "runtime_inv rt" and c: "worker_cancel i rt = Some rt'"
  shows "runtime_inv rt'"
proof -
  from c obtain w where w: "worker_at rt i = Some w" by (auto simp: worker_cancel_def split: option.splits)
  have len: "i < length (rt_workers rt)" using worker_at_less [OF w] by simp
  show ?thesis
  proof (cases "\<exists>g. wk_place w = Running g")
    case False
    then have "rt' = put_worker i (w\<lparr>wk_cancelling := True, wk_place := Gone\<rparr>) rt"
      using c w by (auto simp: worker_cancel_def split: worker_place.splits)
    then show ?thesis using inv_idle [OF inv len] by simp
  next
    case True
    then obtain g where g: "wk_place w = Running g" by blast
    have ro: "run_of rt i = Some g" using w g by (simp add: run_of_def)
    have fine: "run_fine (rt_log rt) g" using inv ro by (rule inv_fine)
    have put: "runtime_inv (put_worker i (w\<lparr>wk_cancelling := True, wk_place := Running h\<rparr>) rt)" if "ex_claim h = ex_claim g" "run_fine (rt_log rt) h" for h
      using that by (intro inv_put_run [OF inv ro]) simp_all
    have "run_fine (rt_log rt) (g\<lparr>ex_cancelled := True\<rparr>)" using fine by (rule run_fine_same) simp_all
    moreover have "run_fine (rt_log rt) (g\<lparr>ex_phase := Ended Interrupted\<rparr>)" by (simp add: run_fine_def unentered_def)
    ultimately show ?thesis
      using c w g put inv_leave [OF inv ro] by (auto simp: worker_cancel_def split: exec_phase.splits)
  qed
qed

lemma inv_purge_cancel:
  assumes "runtime_inv rt"
  shows "runtime_inv (purge_cancel uid rt)"
proof -
  have one: "runtime_inv (cancel_execution x i)" if inv: "runtime_inv x" for x i
  proof (cases "run_of x i")
    case (Some g)
    have "run_fine (rt_log x) (g\<lparr>ex_cancelled := True\<rparr>)" using inv_fine [OF inv Some] by (rule run_fine_same) simp_all
    then have "runtime_inv (put_run i (g\<lparr>ex_cancelled := True\<rparr>) x)" unfolding put_run_def by (intro inv_put_run [OF inv Some]) simp_all
    with Some show ?thesis by (simp add: cancel_execution_def)
  qed (use inv in \<open>simp add: cancel_execution_def\<close>)
  have "runtime_inv x \<Longrightarrow> runtime_inv (foldl cancel_execution x is)" for x "is"
    by (induction "is" arbitrary: x) (auto intro: one)
  with assms show ?thesis by (simp add: purge_cancel_def)
qed

lemma inv_reported:
  assumes inv: "runtime_inv rt" and c: "runtime_act cfg (EvReported i now) rt = Some rt'"
  shows "runtime_inv rt'"
proof -
  obtain g where g: "run_of rt i = Some g" using c by (cases "run_of rt i") simp_all
  obtain g' s sn x where w: "report_write now g (rt_store rt) = Some (g', s, sn)"
    and rt': "rt' = put_run i g' (rt\<lparr>rt_store := s, rt_tasks := x\<rparr>)"
    using c g by auto
  have si: "store_inv (rt_store rt)" using inv by (simp add: runtime_inv_def)
  have "ex_claim g' = ex_claim g" "run_fine (rt_log rt) g'" "store_inv s" "kept (rt_store rt) s"
    using report_write_fine [OF w inv_fine [OF inv g] si] by simp_all
  from inv_run_store [OF inv g this] have "runtime_inv (put_run i g' (rt\<lparr>rt_store := s\<rparr>))" .
  then show ?thesis unfolding rt' by (rule runtime_inv_frame) (simp_all add: put_run_def put_worker_def)
qed

lemma inv_client_call:
  assumes inv: "runtime_inv rt" and op: "plain_op op"
  shows "runtime_inv (rt\<lparr>rt_store := queue_step (rt_store rt) op\<rparr>)"
proof -
  have "store_inv (rt_store rt)" using inv by (simp add: runtime_inv_def)
  then show ?thesis using inv_store [OF inv qs.step_invar kept_plain] op by simp
qed

text \<open>The loop outside executions.\<close>

lemma inv_look:
  assumes inv: "runtime_inv rt" and act: "worker_look i rt = Some rt' \<or> worker_wake i b rt = Some rt'"
  shows "runtime_inv rt'"
proof -
  obtain w where w: "worker_at rt i = Some w" using act by (cases "worker_at rt i") (auto simp: worker_look_def worker_wake_def)
  have "i < length (rt_workers rt)" using worker_at_less [OF w] by simp
  note idle = inv_idle [OF inv this]
  show ?thesis
    using act w by (cases "wk_place w") (auto simp: worker_look_def worker_wake_def intro!: idle split: if_splits)
qed

lemma runtime_act_inv:
  assumes inv: "runtime_inv rt" and act: "runtime_act cfg ev rt = Some rt'"
  shows "runtime_inv rt'"
proof -
  have si: "store_inv (rt_store rt)" using inv by (simp add: runtime_inv_def)
  note fine = inv_fine [OF inv]
  show ?thesis
  proof (cases ev)
    case (EvLook i) with act inv_look [OF inv] show ?thesis by auto
  next
    case (EvClaim i now owner) with act inv_claim [OF inv] show ?thesis by simp
  next
    case (EvWake i b) with act inv_look [OF inv] show ?thesis by auto
  next
    case (EvBegin i permitted)
    show ?thesis by (rule inv_on_run [OF inv act [unfolded EvBegin runtime_act.simps]]) (use si in \<open>auto dest: begin_fine [OF _ fine]\<close>)
  next
    case (EvCheck i who now current)
    show ?thesis by (rule inv_on_run [OF inv act [unfolded EvCheck runtime_act.simps]]) (use si in \<open>auto dest: guard_read_fine [OF _ fine]\<close>)
  next
    case (EvBeat i now)
    show ?thesis by (rule inv_on_run [OF inv act [unfolded EvBeat runtime_act.simps]]) (use si in \<open>auto dest: guard_beat_fine [OF _ fine]\<close>)
  next
    case (EvReport i now)
    show ?thesis by (rule inv_on_run [OF inv act [unfolded EvReport runtime_act.simps]]) (use si in \<open>auto dest: report_read_fine [OF _ fine]\<close>)
  next
    case (EvReported i now) with act inv_reported [OF inv] show ?thesis by blast
  next
    case (EvLoad i now)
    with act show ?thesis using inv_load [OF inv] by (fastforce simp: on_run_def split: option.splits)
  next
    case (EvReturn i v)
    with act show ?thesis using inv_return [OF inv] by (fastforce simp: on_run_def split: option.splits)
  next
    case (EvRaise i e)
    show ?thesis by (rule inv_on_run [OF inv act [unfolded EvRaise runtime_act.simps]]) (use si in \<open>auto dest: raise_fine [OF _ fine]\<close>)
  next
    case (EvSettle i) with act inv_settle [OF inv] show ?thesis by simp
  next
    case (EvFinishRead i now rnd) with act inv_finish_read [OF inv] show ?thesis by simp
  next
    case (EvFinish i now) with act inv_finish [OF inv] show ?thesis by simp
  next
    case (EvCancel i) with act inv_cancel [OF inv] show ?thesis by simp
  next
    case (EvPurgeCancel uid) with act inv_purge_cancel [OF inv] show ?thesis by auto
  next
    case (EvPurgeTasks uid)
    with act have "rt' = purge_tasks uid rt" by simp
    then show ?thesis using runtime_inv_frame [OF inv, of rt'] by (simp add: purge_tasks_def)
  next
    case (EvStore op wake)
    with act have op: "plain_op op" and rt': "rt' = (case wake of None \<Rightarrow> rt\<lparr>rt_store := queue_step (rt_store rt) op\<rparr>
        | Some nm \<Rightarrow> notify_work nm (rt\<lparr>rt_store := queue_step (rt_store rt) op\<rparr>))"
      by (auto simp: Let_def split: if_splits)
    show ?thesis unfolding rt'
      using inv_client_call [OF inv op] runtime_inv_frame [OF inv_client_call [OF inv op]] by (auto simp: notify_work_def split: option.split)
  qed
qed

lemma runtime_init_inv: "runtime_inv (runtime_init k empty_store)"
proof -
  have "wk_place w = Top" if "w \<in> set (rt_workers (runtime_init k empty_store))" for w
    using that by (auto simp: runtime_init_def LANE_WORKERS_def split: if_splits)
  then have "run_of (runtime_init k empty_store) i = None" for i by (auto simp: run_of_def worker_at_def)
  moreover have "jobs_ok empty_store" using store_inv_empty by (simp add: store_inv_def)
  moreover have "rt_store (runtime_init k empty_store) = empty_store" "rt_log (runtime_init k empty_store) = []"
    by (simp_all add: runtime_init_def)
  moreover have "jobs empty_store = []" by (simp add: empty_store_def)
  ultimately show ?thesis by (simp add: runtime_inv_def view_ok_def tokens_ok_def runs_apart_def unfinished_def)
qed

lemma reach_inv: "reach cfg k rt \<Longrightarrow> runtime_inv rt"
  by (induction rule: reach.induct) (auto intro: runtime_init_inv runtime_act_inv)

lemma log_ok_split:
  "log_ok (ys @ HandlerEntered tid q tok True # xs) \<Longrightarrow> HandlerEntered tid q old True \<in> set xs \<Longrightarrow> RetryableReturned old \<in> set xs"
proof (induction ys)
  case (Cons y ys)
  then show ?case by (cases "(y # ys @ HandlerEntered tid q tok True # xs)" rule: log_ok.cases) auto
qed simp

end
