(* ===== verification/Queue_Client.thy ===== *)
theory Queue_Client
  imports Queue_Workers Queue_Sweep
begin

text \<open>
  The public commands of \<open>TaskQueue\<close> (\<open>queue_runtime.py\<close>): registration of handlers, submission, cancellation and manual
  retry by a user, each with its checks before the store is called; and the properties of the whole runtime.
\<close>

section \<open>Registration of handlers\<close>

definition default_timeout :: "string \<Rightarrow> string \<Rightarrow> int option \<Rightarrow> int option" where
  "default_timeout knd nm timeout =
    (if timeout = None \<and> nm = ''daily'' then Some (if take 6 knd = ''tarot.'' then 1800 else 600) else timeout)"

text \<open>The registration given carries the handler and the timeout of the call; whether the handler is callable comes apart. An
  earlier registration of the kind must have the same lane, flags and budget; its handler is replaced.\<close>

definition register_handler ::
    "bool \<Rightarrow> string \<Rightarrow> bool \<Rightarrow> handler_registration \<Rightarrow> (string, handler_registration) dict \<Rightarrow>
      queue_error + (string, handler_registration) dict" where
  "register_handler running knd callable reg regs =
    (if running then Inl (QueueConflict ''registration_closed'')
     else if \<not> dict_has LANE_WORKERS (reg_lane reg) \<or> knd = [] \<or> length knd > 80 \<or> \<not> callable
     then Inl (QueueConflict ''invalid_handler_registration'')
     else
       (let r = reg\<lparr>reg_timeout := default_timeout knd (reg_lane reg) (reg_timeout reg)\<rparr> in
        if (case reg_timeout r of None \<Rightarrow> False | Some b \<Rightarrow> \<not> (1 \<le> b \<and> b \<le> 1800))
        then Inl (QueueConflict ''invalid_execution_budget'')
        else if (case dict_get regs knd of None \<Rightarrow> False | Some prev \<Rightarrow>
            reg_lane prev \<noteq> reg_lane r \<or> reg_effectful prev \<noteq> reg_effectful r \<or> reg_image_work prev \<noteq> reg_image_work r \<or>
            reg_timeout prev \<noteq> reg_timeout r)
        then Inl (QueueConflict ''handler_registration_conflict'')
        else Inr (dict_set regs knd r)))"

definition registration_ok :: "string \<Rightarrow> handler_registration \<Rightarrow> bool" where
  "registration_ok knd r \<longleftrightarrow>
    knd \<noteq> [] \<and> length knd \<le> 80 \<and> dict_has LANE_WORKERS (reg_lane r) \<and>
    (case reg_timeout r of None \<Rightarrow> reg_lane r \<noteq> ''daily'' | Some b \<Rightarrow> 1 \<le> b \<and> b \<le> 1800)"

text \<open>The registrations a queue has after a number of attempts to register.\<close>

fun register_all :: "(string, handler_registration) dict \<Rightarrow> (string \<times> bool \<times> handler_registration) list \<Rightarrow> (string, handler_registration) dict" where
  "register_all regs [] = regs"
| "register_all regs ((knd, callable, reg) # calls) =
    register_all (case register_handler False knd callable reg regs of Inl err \<Rightarrow> regs | Inr regs' \<Rightarrow> regs') calls"

section \<open>Submission\<close>

record enqueue_request =
  rq_user_id :: int
  rq_kind :: string
  rq_payload :: "string option"
  rq_key :: string
  rq_lane :: string
  rq_policy :: "queue_policy option"
  rq_priority :: int
  rq_not_before :: "secs option"
  rq_delay :: secs
  rq_epoch :: "int option"
  rq_conflicts :: "string list"
  rq_summary :: summary

definition job_task_id :: "queue_env \<Rightarrow> int \<Rightarrow> string \<Rightarrow> string" where
  "job_task_id env uid key = uuid5_url env (''queue:v2:'' @ show_int uid @ '':'' @ key)"

definition requested_delay :: "secs \<Rightarrow> enqueue_request \<Rightarrow> secs" where
  "requested_delay now rq = max (rq_delay rq) (case rq_not_before rq of None \<Rightarrow> 0 | Some t \<Rightarrow> max 0 (t - now))"

definition enqueue_envelope :: "queue_env \<Rightarrow> secs \<Rightarrow> handler_registration \<Rightarrow> string \<Rightarrow> summary \<Rightarrow> enqueue_request \<Rightarrow> envelope" where
  "enqueue_envelope env now reg pl clean rq =
    \<lparr>task_id = job_task_id env (rq_user_id rq) (rq_key rq), kind = rq_kind rq, lane = rq_lane rq, user_id = rq_user_id rq,
     privacy_epoch = (if rq_user_id rq > 0 then rq_epoch rq else None), priority = rq_priority rq,
     delay_seconds = requested_delay now rq, effectful = reg_effectful reg, image_work = reg_image_work reg,
     parent_task_id = None, retry_grants = 1, conflict_keys = rq_conflicts rq, execution_timeout_seconds = reg_timeout reg,
     payload = pl, idempotency_key = rq_key rq, envelope_summary = clean\<rparr>"

text \<open>The checks in their order; \<open>None\<close> is none failed. \<open>current\<close> is the user's epoch the consent repository answers.\<close>

definition enqueue_refused ::
    "queue_env \<Rightarrow> (string, handler_registration) dict \<Rightarrow> int option \<Rightarrow> enqueue_request \<Rightarrow> queue_admission option" where
  "enqueue_refused env regs current rq =
    (let tid = job_task_id env (rq_user_id rq) (rq_key rq) in
     if (case dict_get regs (rq_kind rq) of None \<Rightarrow> True | Some reg \<Rightarrow> reg_lane reg \<noteq> rq_lane rq)
     then Some (admission REJECTED None (Some ''unknown_kind_or_lane''))
     else if strip (rq_key rq) = [] \<or> length (rq_key rq) > 256 then Some (admission REJECTED None (Some ''invalid_operation_id''))
     else if rq_priority rq \<notin> {1, 2, 3, 4} then Some (admission REJECTED None (Some ''invalid_priority''))
     else if rq_delay rq < 0 then Some (admission REJECTED None (Some ''invalid_schedule''))
     else if rq_payload rq = None then Some (admission REJECTED (Some tid) (Some ''invalid_job_payload''))
     else if rq_user_id rq > 0 \<and> rq_epoch rq = None then Some (admission REJECTED (Some tid) (Some ''privacy_epoch_missing''))
     else if rq_user_id rq > 0 \<and> (current = None \<or> current \<noteq> rq_epoch rq)
     then Some (admission REJECTED (Some tid) (Some ''privacy_unavailable''))
     else None)"

definition enqueue_job ::
    "queue_env \<Rightarrow> (string, handler_registration) dict \<Rightarrow> secs \<Rightarrow> int option \<Rightarrow> bool \<Rightarrow> enqueue_request \<Rightarrow> store \<Rightarrow>
      store \<times> (queue_error + queue_admission)" where
  "enqueue_job env regs now current permitted rq s =
    (case enqueue_refused env regs current rq of
       Some adm \<Rightarrow> (s, Inr adm)
     | None \<Rightarrow>
        (case (dict_get regs (rq_kind rq), rq_payload rq) of
           (Some reg, Some pl) \<Rightarrow>
             (case public_summary (rq_summary rq) of
                Inl err \<Rightarrow> (s, Inl err)
              | Inr clean \<Rightarrow>
                 (case envelope_init (enqueue_envelope env now reg pl clean rq) of
                    Inl err \<Rightarrow> (s, Inl err)
                  | Inr e \<Rightarrow>
                     (if rq_user_id rq > 0 \<and> \<not> permitted
                      then (s, Inr (admission REJECTED (Some (task_id e)) (Some ''privacy_revoked'')))
                      else
                        (case (case rq_policy rq of Some p \<Rightarrow> Some p | None \<Rightarrow> dict_get LANE_POLICIES (rq_lane rq)) of
                           None \<Rightarrow> (s, Inl (KeyError (rq_lane rq)))
                         | Some p \<Rightarrow> (case admit env now e p s of (s1, adm) \<Rightarrow> (s1, Inr adm))))))
         | _ \<Rightarrow> (s, Inr (admission REJECTED None (Some ''unknown_kind_or_lane'')))))"

section \<open>Commands of a user\<close>

definition cancel_task :: "queue_env \<Rightarrow> secs \<Rightarrow> string \<Rightarrow> int \<Rightarrow> store \<Rightarrow> store \<times> (queue_error + bool)" where
  "cancel_task env now tid uid s0 =
    (case private_record now tid s0 of
       (s, None) \<Rightarrow> (s, Inr False)
     | (s, Some m) \<Rightarrow>
        (if user_id m \<noteq> uid \<or> \<not> active_state (state m) then (s, Inr False)
         else
           (case request_cancel env now tid (revision m) (''user:'' @ show_int uid) (''cancel:'' @ tid) s of
              (s1, Inl err) \<Rightarrow> (s1, Inl err)
            | (s1, Inr snap) \<Rightarrow> (s1, Inr True))))"

definition retry_command :: "queue_env \<Rightarrow> secs \<Rightarrow> int option \<Rightarrow> bool \<Rightarrow> string \<Rightarrow> int \<Rightarrow> string \<Rightarrow> string \<Rightarrow> store \<Rightarrow>
    store \<times> (queue_error + queue_admission)" where
  "retry_command env now current permitted tid rv actor op_id s0 =
    (case private_record now tid s0 of
       (s, None) \<Rightarrow> (s, Inl (QueueConflict ''retry_not_available''))
     | (s, Some m) \<Rightarrow>
        (if user_id m > 0 \<and> (current = None \<or> current \<noteq> privacy_epoch m \<or> \<not> permitted)
         then (s, Inl (QueueConflict ''privacy_revoked''))
         else retry_job env now tid rv actor op_id (if user_id m > 0 then current else None) s))"

section \<open>Registrations and submissions\<close>

lemma register_handler_ok:
  assumes "register_handler running knd callable reg regs = Inr regs'"
  shows "\<exists>r. regs' = dict_set regs knd r \<and> registration_ok knd r \<and> callable \<and> reg_handler r = reg_handler reg \<and>
    (case dict_get regs knd of None \<Rightarrow> True | Some prev \<Rightarrow> r = prev\<lparr>reg_handler := reg_handler reg\<rparr>)"
  using assms
  by (auto simp: register_handler_def registration_ok_def default_timeout_def Let_def split: if_splits option.splits)

text \<open>The handlers a list of calls offers for a kind.\<close>

definition offered_handlers :: "string \<Rightarrow> (string \<times> bool \<times> handler_registration) list \<Rightarrow> nat list" where
  "offered_handlers k calls = map (\<lambda>(knd, callable, reg). reg_handler reg) (filter (\<lambda>(knd, callable, reg). knd = k \<and> callable) calls)"

lemma register_step:
  assumes "regs' = (case register_handler False knd callable reg regs of Inl err \<Rightarrow> regs | Inr rs \<Rightarrow> rs)"
  shows "dict_get regs k = Some r \<Longrightarrow>
      \<exists>h. dict_get regs' k = Some (r\<lparr>reg_handler := h\<rparr>) \<and> h \<in> set (reg_handler r # offered_handlers k [(knd, callable, reg)])"
    and "dict_get regs' k = Some r \<Longrightarrow> dict_get regs k = Some r \<or> registration_ok k r"
proof -
  assume r: "dict_get regs k = Some r"
  show "\<exists>h. dict_get regs' k = Some (r\<lparr>reg_handler := h\<rparr>) \<and> h \<in> set (reg_handler r # offered_handlers k [(knd, callable, reg)])"
  proof (cases "register_handler False knd callable reg regs")
    case (Inl err)
    with assms r show ?thesis by (intro exI [of _ "reg_handler r"]) simp
  next
    case (Inr rs)
    show ?thesis
    proof (cases "k = knd")
      case True
      with register_handler_ok [OF Inr] r assms Inr show ?thesis
        by (intro exI [of _ "reg_handler reg"]) (auto simp: offered_handlers_def)
    next
      case False
      with register_handler_ok [OF Inr] r assms Inr show ?thesis by (intro exI [of _ "reg_handler r"]) auto
    qed
  qed
next
  show "dict_get regs' k = Some r \<Longrightarrow> dict_get regs k = Some r \<or> registration_ok k r"
    using assms register_handler_ok [of False knd callable reg regs] by (auto split: sum.splits if_splits)
qed

lemma register_all_keeps:
  "dict_get regs k = Some r \<Longrightarrow>
    \<exists>h. dict_get (register_all regs calls) k = Some (r\<lparr>reg_handler := h\<rparr>) \<and> h \<in> set (reg_handler r # offered_handlers k calls)"
proof (induction regs calls arbitrary: r rule: register_all.induct)
  case (1 regs)
  then show ?case by (intro exI [of _ "reg_handler r"]) simp
next
  case (2 regs knd callable reg calls)
  from register_step(1) [OF refl 2(2)] obtain h where
    h: "dict_get (case register_handler False knd callable reg regs of Inl err \<Rightarrow> regs | Inr rs \<Rightarrow> rs) k = Some (r\<lparr>reg_handler := h\<rparr>)"
      "h \<in> set (reg_handler r # offered_handlers k [(knd, callable, reg)])" by blast
  have set: "set (offered_handlers k ((knd, callable, reg) # calls)) = set (offered_handlers k [(knd, callable, reg)]) \<union> set (offered_handlers k calls)"
    by (simp add: offered_handlers_def)
  from 2(1) [OF h(1)] obtain h1 where "dict_get (register_all regs ((knd, callable, reg) # calls)) k = Some (r\<lparr>reg_handler := h1\<rparr>)"
    "h1 \<in> set (h # offered_handlers k calls)" by auto
  with h(2) set show ?case by (intro exI [of _ h1]) (auto simp del: register_all.simps)
qed

lemma register_all_append: "register_all regs (xs @ ys) = register_all (register_all regs xs) ys"
  by (induction regs xs rule: register_all.induct) simp_all

lemma register_all_ok:
  "dict_get (register_all regs calls) k = Some r \<Longrightarrow> dict_get regs k = Some r \<or> registration_ok k r"
proof (induction regs calls rule: register_all.induct)
  case (2 regs knd callable reg calls)
  let ?regs = "case register_handler False knd callable reg regs of Inl err \<Rightarrow> regs | Inr regs' \<Rightarrow> regs'"
  have "dict_get ?regs k = Some r \<Longrightarrow> dict_get regs k = Some r \<or> registration_ok k r"
    using register_step(2) [OF refl] .
  with 2 show ?case by auto
qed simp

text \<open>Property C16. Whatever is registered, a registration in force names a lane that has workers and a kind of 1 to 80
  characters, and has a time budget of 1 to 1800 seconds where it has one, as it always has in the daily lane. Later calls keep
  its lane, its flags and its budget; they can replace its handler, by a callable that such a call gave for the kind.\<close>

theorem registrations_fixed:
  assumes "dict_get (register_all [] calls) knd = Some r"
  shows "registration_ok knd r \<and>
    (\<exists>h. dict_get (register_all [] (calls @ later)) knd = Some (r\<lparr>reg_handler := h\<rparr>) \<and> h \<in> set (reg_handler r # offered_handlers knd later))"
  using register_all_ok [OF assms] register_all_keeps [OF assms] by (simp add: register_all_append)

definition demo_registration :: handler_registration where
  "demo_registration = \<lparr>reg_handler = 1, reg_lane = ''daily'', reg_effectful = True, reg_image_work = False, reg_timeout = None\<rparr>"

theorem registrations_fixed_witness:
  "\<exists>h. dict_get (register_all [] [(''tarot.day'', True, demo_registration), (''tarot.day'', True, demo_registration\<lparr>reg_handler := 2\<rparr>)]) ''tarot.day''
    = Some (demo_registration\<lparr>reg_timeout := Some 1800, reg_handler := h\<rparr>)"
proof -
  have "dict_get (register_all [] [(''tarot.day'', True, demo_registration)]) ''tarot.day'' = Some (demo_registration\<lparr>reg_timeout := Some 1800\<rparr>)"
    by code_simp
  from registrations_fixed [OF this, of "[(''tarot.day'', True, demo_registration\<lparr>reg_handler := 2\<rparr>)]"] show ?thesis
    unfolding append.simps by blast
qed

lemma enqueue_cases:
  assumes "enqueue_job env regs now current permitted rq s = (s1, res)"
  obtains (refused) "s1 = s" "\<And>adm. res = Inr adm \<Longrightarrow> adm_state adm = REJECTED"
  | (admitted) reg pl clean e p adm where "enqueue_refused env regs current rq = None" "dict_get regs (rq_kind rq) = Some reg"
      "envelope_init (enqueue_envelope env now reg pl clean rq) = Inr e" "\<not> (rq_user_id rq > 0 \<and> \<not> permitted)"
      "(case rq_policy rq of Some p \<Rightarrow> Some p | None \<Rightarrow> dict_get LANE_POLICIES (rq_lane rq)) = Some p"
      "admit env now e p s = (s1, adm)" "res = Inr adm"
proof (cases "enqueue_refused env regs current rq")
  case (Some adm)
  then have "adm_state adm = REJECTED" by (auto simp: enqueue_refused_def Let_def split: if_splits)
  with Some assms refused show thesis by (auto simp: enqueue_job_def)
next
  case ok: None
  show thesis
  proof (cases "\<exists>reg pl. dict_get regs (rq_kind rq) = Some reg \<and> rq_payload rq = Some pl")
    case False
    with ok assms refused show thesis by (auto simp: enqueue_job_def split: option.splits)
  next
    case True
    then obtain reg pl where rp: "dict_get regs (rq_kind rq) = Some reg" "rq_payload rq = Some pl" by blast
    show thesis
    proof (cases "\<exists>clean e. public_summary (rq_summary rq) = Inr clean \<and> envelope_init (enqueue_envelope env now reg pl clean rq) = Inr e")
      case False
      with ok rp assms refused show thesis by (auto simp: enqueue_job_def split: sum.splits)
    next
      case True
      then obtain clean e where e: "public_summary (rq_summary rq) = Inr clean" "envelope_init (enqueue_envelope env now reg pl clean rq) = Inr e" by blast
      let ?p = "case rq_policy rq of Some p \<Rightarrow> Some p | None \<Rightarrow> dict_get LANE_POLICIES (rq_lane rq)"
      show thesis
      proof (cases "\<not> (rq_user_id rq > 0 \<and> \<not> permitted) \<and> ?p \<noteq> None")
        case False
        with ok rp e assms show thesis by (intro refused) (auto simp: enqueue_job_def split: if_splits)
      next
        case True
        then obtain p where p: "?p = Some p" by blast
        obtain s2 adm where a: "admit env now e p s = (s2, adm)" by fastforce
        with ok rp e True p assms have "s2 = s1" "res = Inr adm" by (auto simp: enqueue_job_def)
        with ok rp e True p a show thesis by (intro admitted) auto
      qed
    qed
  qed
qed

lemma chosen_policy_ok:
  assumes "(case rq_policy rq of Some p \<Rightarrow> Some p | None \<Rightarrow> dict_get LANE_POLICIES (rq_lane rq)) = Some p"
    and "case rq_policy rq of None \<Rightarrow> True | Some p \<Rightarrow> policy_ok p"
  shows "policy_ok p"
  using assms LANE_POLICIES_facts by (auto split: option.splits)

text \<open>A submission changes the store by one admission at most, so it is one of the client calls of the runtime.\<close>

lemma enqueue_one_admission:
  assumes "enqueue_job env regs now current permitted rq s = (s1, res)"
    and "case rq_policy rq of None \<Rightarrow> True | Some p \<Rightarrow> policy_ok p"
  shows "s1 = s \<or> (\<exists>e p. s1 = queue_step s (OpAdmit env now e p))"
  using assms(1)
proof (cases rule: enqueue_cases)
  case refused
  then show ?thesis by simp
next
  case (admitted reg pl clean e p adm)
  have "policy_ok p" using admitted(5) assms(2) by (rule chosen_policy_ok)
  with admitted have "s1 = queue_step s (OpAdmit env now (enqueue_envelope env now reg pl clean rq) p)"
    by (simp add: submit_def policy_init_iff [THEN iffD2])
  then show ?thesis by blast
qed

lemma envelope_init_fields:
  assumes "envelope_init e0 = Inr e"
  shows "task_id e = task_id e0" "lane e = lane e0" "user_id e = user_id e0" "kind e = kind e0" "effectful e = effectful e0"
    "image_work e = image_work e0" "privacy_epoch e = privacy_epoch e0" "execution_timeout_seconds e = execution_timeout_seconds e0"
  using assms by (auto simp: envelope_init_def split: sum.splits if_splits)

text \<open>An accepted submission is for a kind registered in that lane; the stored job waits, takes its effectful and
  image flags and its time budget from the registration and not from the caller, and for a real user it carries the privacy
  epoch the caller expected, which is the user's current one, under a granted lease.\<close>

lemma enqueue_registered:
  assumes "enqueue_job env regs now current permitted rq (queue_run empty_store ops) = (s1, Inr adm)"
    and "adm_state adm = ACCEPTED" and "case rq_policy rq of None \<Rightarrow> True | Some p \<Rightarrow> policy_ok p"
  shows "\<exists>reg m. dict_get regs (rq_kind rq) = Some reg \<and> reg_lane reg = rq_lane rq \<and>
    dict_get (jobs s1) (job_task_id env (rq_user_id rq) (rq_key rq)) = Some m \<and> waiting_state (state m) \<and> attempts_started m = 0 \<and>
    kind m = rq_kind rq \<and> lane m = rq_lane rq \<and> user_id m = rq_user_id rq \<and>
    effectful m = reg_effectful reg \<and> image_work m = reg_image_work reg \<and> execution_timeout_seconds m = reg_timeout reg \<and>
    (rq_user_id rq > 0 \<longrightarrow> permitted \<and> current \<noteq> None \<and> privacy_epoch m = current)"
  using assms(1)
proof (cases rule: enqueue_cases)
  case refused
  with assms(2) show ?thesis by simp
next
  case (admitted reg pl clean e p adm')
  note f = envelope_init_fields [OF admitted(3)]
  have pol: "policy_ok p" using admitted(5) assms(3) by (rule chosen_policy_ok)
  have "admit_internal env now e p 0 (sweep now (queue_run empty_store ops)) = (s1, adm)" using admitted(6,7) by (simp add: admit_def)
  from admit_internal_cases [OF sweep_inv [OF run_inv] pol this] assms(2)
  obtain t p1 where "s1 = insert_record env now p1 e t" by auto
  then have m: "dict_get (jobs s1) (task_id e) = Some (new_record env now p1 (seq_no t + 1) e)" by (simp add: insert_record_def Let_def)
  have r: "reg_lane reg = rq_lane rq" "rq_user_id rq > 0 \<longrightarrow> current = rq_epoch rq \<and> current \<noteq> None"
    using admitted(1,2) by (auto simp: enqueue_refused_def Let_def split: if_splits)
  show ?thesis
    using m r f admitted(2,4)
    by (intro exI [of _ reg] exI [of _ "new_record env now p1 (seq_no t + 1) e"])
      (auto simp: enqueue_envelope_def new_record_def waiting_state_def)
qed

definition demo_queue_env :: queue_env where
  "demo_queue_env = \<lparr>sha256_hex = (\<lambda>x. x), json_dumps = (\<lambda>e b. kind e), json_data = (\<lambda>x. None), uuid5_url = (\<lambda>x. x)\<rparr>"

definition demo_handlers :: "(string, handler_registration) dict" where
  "demo_handlers = [(''k'', \<lparr>reg_handler = 0, reg_lane = ''maintenance'', reg_effectful = True, reg_image_work = False, reg_timeout = None\<rparr>)]"

definition demo_request :: enqueue_request where
  "demo_request =
    \<lparr>rq_user_id = 7, rq_kind = ''k'', rq_payload = Some ''p'', rq_key = ''a'', rq_lane = ''maintenance'', rq_policy = None,
     rq_priority = 2, rq_not_before = None, rq_delay = 0, rq_epoch = Some 3, rq_conflicts = [], rq_summary = []\<rparr>"

theorem enqueue_registered_witness:
  "\<exists>m. dict_get (jobs (fst (enqueue_job demo_queue_env demo_handlers 1 (Some 3) True demo_request (queue_run empty_store [])))) ''queue:v2:7:a'' = Some m \<and>
    effectful m \<and> privacy_epoch m = Some 3"
proof -
  let ?r = "enqueue_job demo_queue_env demo_handlers 1 (Some 3) True demo_request (queue_run empty_store [])"
  have "snd ?r = Inr (admission ACCEPTED (Some ''queue:v2:7:a'') None)" by code_simp
  then have r: "?r = (fst ?r, Inr (admission ACCEPTED (Some ''queue:v2:7:a'') None))" by (metis prod.collapse)
  have p: "case rq_policy demo_request of None \<Rightarrow> True | Some p \<Rightarrow> policy_ok p" by (simp add: demo_request_def)
  have t: "job_task_id demo_queue_env (rq_user_id demo_request) (rq_key demo_request) = ''queue:v2:7:a''" by code_simp
  have h: "map_option reg_effectful (dict_get demo_handlers (rq_kind demo_request)) = Some True" by code_simp
  have u: "rq_user_id demo_request > 0" by (simp add: demo_request_def)
  from enqueue_registered [OF r _ p] t h u show ?thesis by auto
qed

section \<open>Executions\<close>

text \<open>Property C1. In every reachable state of the workers, under any interleaving of their steps with each other, with the
  clients' calls, cancellations, expiries and a stop of the pool: the handler of an effectful submission is entered a second
  time only if the execution that entered it before had itself returned a retryable failure before that. An interrupted,
  crashed or lost execution is never followed by another one.\<close>

theorem effectful_executed_once:
  assumes "reach cfg k rt" and "rt_log rt = later @ HandlerEntered tid sq tok True # earlier"
    and "HandlerEntered tid sq old True \<in> set earlier"
  shows "RetryableReturned old \<in> set earlier"
proof -
  have "log_ok (rt_log rt)" using reach_inv [OF assms(1)] by (simp add: runtime_inv_def view_ok_def)
  then show ?thesis using log_ok_split assms(2,3) by simp
qed

fun runtime_steps :: "rt_config \<Rightarrow> runtime \<Rightarrow> runtime_event list \<Rightarrow> runtime option" where
  "runtime_steps cfg rt [] = Some rt"
| "runtime_steps cfg rt (ev # evs) = (case runtime_act cfg ev rt of None \<Rightarrow> None | Some rt1 \<Rightarrow> runtime_steps cfg rt1 evs)"

lemma runtime_steps_reach: "runtime_steps cfg rt evs = Some rt' \<Longrightarrow> reach cfg k rt \<Longrightarrow> reach cfg k rt'"
  by (induction cfg rt evs rule: runtime_steps.induct) (auto intro: reach.step split: option.splits)

definition demo_config :: rt_config where
  "demo_config = \<lparr>registrations = demo_handlers, payload_data = (\<lambda>pl. True)\<rparr>"

definition one_execution :: "secs \<Rightarrow> string \<Rightarrow> runtime_event list" where
  "one_execution now tok =
    [EvClaim 1 now tok, EvBegin 1 True, EvCheck 1 (Body None) now True, EvBeat 1 now, EvLoad 1 now,
     EvReturn 1 (HResult (mk_result RETRYABLE_FAILURE None [])), EvSettle 1, EvFinishRead 1 now 0, EvFinish 1 now]"

definition demo_runtime :: "runtime_event list" where
  "demo_runtime =
    [EvLook 1,
     EvStore (OpAdmit demo_queue_env 1 (enqueue_envelope demo_queue_env 1 (snd (hd demo_handlers)) ''p'' [] demo_request)
       DEFAULT_QUEUE_POLICY) (Some ''maintenance'')] @
    one_execution 2 ''t1'' @ [EvLook 1] @ take 5 (one_execution 20 ''t2'')"

lemma demo_log:
  "map_option rt_log (runtime_steps demo_config (runtime_init 1 empty_store) demo_runtime) =
    Some [HandlerEntered ''queue:v2:7:a'' 1 ''t2'' True, RetryableReturned ''t1'', HandlerEntered ''queue:v2:7:a'' 1 ''t1'' True]"
  by code_simp

theorem effectful_executed_once_witness:
  "\<exists>rt. reach demo_config 1 rt \<and> hd (rt_log rt) = HandlerEntered ''queue:v2:7:a'' 1 ''t2'' True \<and> RetryableReturned ''t1'' \<in> set (tl (rt_log rt))"
proof -
  from demo_log obtain rt where rt: "runtime_steps demo_config (runtime_init 1 empty_store) demo_runtime = Some rt"
    and l: "rt_log rt = [] @ HandlerEntered ''queue:v2:7:a'' 1 ''t2'' True # [RetryableReturned ''t1'', HandlerEntered ''queue:v2:7:a'' 1 ''t1'' True]"
    by auto
  have r: "reach demo_config 1 rt" using rt reach.init by (rule runtime_steps_reach)
  from effectful_executed_once [OF r l, of "''t1''"] r l show ?thesis by auto
qed

text \<open>What is left in doubt is settled as such, while the claim is still the job's.\<close>

lemma finish_held:
  assumes ok: "jobs_ok s" and m: "dict_get (jobs (sweep now s)) tid = Some m" and "owner_token m = Some tok" and "revision m = rv"
    and "finish_token m = None" and "outcome r = UNKNOWN_DELIVERY_outcome" and "summary_of r = []"
  shows "\<exists>m'. dict_get (jobs (fst (finish now tid tok rv r delay s))) tid = Some m' \<and> state m' = UNKNOWN_DELIVERY \<and>
    reason_code m' = result_reason r \<and> owner_token m' = None"
proof -
  let ?s = "sweep now s" and ?m = "m\<lparr>result_summary := summary_merge (result_summary m) []\<rparr>"
  have held: "held_state (state m)" using owner_held [OF sweep_ok(1) [OF ok] m assms(3)] .
  have tid: "task_id m = tid" using jobs_okD(1) [OF sweep_ok(1) [OF ok] m] .
  obtain m1 s1 where t: "terminal now UNKNOWN_DELIVERY (result_reason r) False ?m ?s = (m1, s1)" by fastforce
  have o: "owned now tid tok rv ?s = (?s, Inr m)" using m held assms(3,4) by (simp add: owned_def Let_def sweep_twice [OF ok])
  have f: "fst (finish now tid tok rv r delay s) = put_job (m1\<lparr>finish_token := Some tok\<rparr>) s1"
    using m assms(5-7) o t by (simp add: finish_def Let_def finish_owned_def public_summary_def finish_transition_def)
  have "task_id m1 = tid" "state m1 = UNKNOWN_DELIVERY" "reason_code m1 = result_reason r" "owner_token m1 = None"
    using t tid by (auto simp: terminal_def drop_payload_def Let_def split: if_splits)
  then show ?thesis unfolding f by (simp add: put_job_def)
qed

lemma sweep_view:
  assumes "runtime_inv rt"
  shows "unfinished (sweep now (rt_store rt))" and "jobs_ok (rt_store rt)"
proof -
  have v: "view_ok (rt_store rt) (run_of rt) (set (rt_tokens rt)) (rt_log rt)" using assms by (simp add: runtime_inv_def)
  then have ok: "jobs_ok (rt_store rt)" by (rule view_okD)
  with view_kept [OF v sweep_ok(1) kept_sweep] show "unfinished (sweep now (rt_store rt))" "jobs_ok (rt_store rt)"
    by (auto simp: view_ok_def)
qed

lemma doubt_result:
  assumes "e \<in> {Interrupted, Crashed}" and "claim_effectful c"
  obtains r where "execution_result c b e = Some r" "outcome r = UNKNOWN_DELIVERY_outcome" "summary_of r = []"
  using assms by (auto simp: execution_result_def unsure_def mk_result_def)

text \<open>Property C9. When the execution of an effectful job ends by an interruption or an unexpected exception and the job is still
  the worker's, the worker settles it as UNKNOWN_DELIVERY, releases it and leaves the execution.\<close>

theorem doubtful_execution_settled:
  assumes "reach cfg k rt" and g: "run_of rt i = Some g" and e: "ex_phase g = Ended e" "e \<in> {Interrupted, Crashed}"
    and eff: "claim_effectful (ex_claim g)"
    and m: "dict_get (jobs (sweep now (rt_store rt))) (claim_task (ex_claim g)) = Some m"
    and tok: "owner_token m = Some (claim_owner_token (ex_claim g))"
  shows "\<exists>rt' m'. runtime_steps cfg rt [EvSettle i, EvFinishRead i now 0, EvFinish i now] = Some rt' \<and> run_of rt' i = None \<and>
    dict_get (jobs (rt_store rt')) (claim_task (ex_claim g)) = Some m' \<and> state m' = UNKNOWN_DELIVERY \<and> owner_token m' = None"
proof -
  let ?tid = "claim_task (ex_claim g)" and ?tok = "claim_owner_token (ex_claim g)"
  have inv: "runtime_inv rt" using reach_inv [OF assms(1)] .
  note ok = sweep_view(2) [OF inv]
  obtain w where w: "worker_at rt i = Some w" using g by (auto simp: run_of_def split: option.splits)
  obtain r where r: "execution_result (ex_claim g) (wk_cancelling w) e = Some r" "outcome r = UNKNOWN_DELIVERY_outcome" "summary_of r = []"
    using doubt_result [OF e(2) eff] .
  let ?b = "e = Interrupted \<and> wk_cancelling w" and ?s = "sweep now (rt_store rt)"
  let ?g1 = "g\<lparr>ex_phase := Settling r ?b, ex_heart := False, ex_guard := Free\<rparr>"
  let ?g2 = "?g1\<lparr>ex_phase := Finishing r (revision m) 0 ?b\<rparr>"
  let ?rt1 = "put_run i ?g1 rt" and ?rt2 = "put_run i ?g2 ((put_run i ?g1 rt)\<lparr>rt_store := sweep now (rt_store rt)\<rparr>)"
  have len: "i < length (rt_workers rt)" using run_of_less [OF g] .
  have put: "run_of (put_run i h x) i = Some h" "rt_store (put_run i h x) = rt_store x" "length (rt_workers (put_run i h x)) = length (rt_workers x)"
    if "i < length (rt_workers x)" for h x
    using that by (simp_all add: put_run_def put_worker_def run_of_def worker_at_def)
  have s1: "worker_settle i rt = Some ?rt1" using w g e(1) r(1) by (simp add: worker_settle_def)
  have s2: "finish_read i now 0 ?rt1 = Some ?rt2"
    using put [OF len, of ?g1] m tok r(2) by (simp add: finish_read_def private_record_def Let_def)
  obtain s3 res where f: "finish now ?tid ?tok (revision m) r 0 ?s = (s3, res)" by fastforce
  have un: "finish_token m = None"
    using sweep_view(1) [OF inv] m owner_held [OF sweep_ok(1) [OF ok] m tok] by (auto simp: unfinished_def)
  have "dict_get (jobs (sweep now ?s)) ?tid = Some m" using m by (simp add: sweep_twice [OF ok])
  from finish_held [OF sweep_ok(1) [OF ok] this tok refl un r(2,3), of 0] f
  obtain m' where m': "dict_get (jobs s3) ?tid = Some m'" "state m' = UNKNOWN_DELIVERY" "owner_token m' = None" by auto
  have l2: "i < length (rt_workers (?rt1\<lparr>rt_store := ?s\<rparr>))" using len put(3) [OF len] by simp
  obtain x where s3: "finish_write i now ?rt2 = Some (worker_leave i ?g2 (leaving_place ?b) (?rt2\<lparr>rt_store := s3, rt_tasks := x\<rparr>))"
    using put [OF l2, of ?g2] f by (simp add: finish_write_def)
  have "run_of (worker_leave i h (leaving_place b) (y\<lparr>rt_store := z, rt_tasks := u\<rparr>)) i = None" if "i < length (rt_workers y)" for h b y z u
    using that by (simp add: worker_leave_def leaving_place_def)
  with s1 s2 s3 m' l2 put(3) [OF l2] show ?thesis by (auto simp: worker_leave_def)
qed

definition demo_crash :: "runtime_event list" where
  "demo_crash = take 7 demo_runtime @ [EvRaise 1 Crashed]"

lemma demo_crash_state:
  "map_option (\<lambda>rt. case run_of rt 1 of None \<Rightarrow> False | Some g \<Rightarrow>
      ex_phase g = Ended Crashed \<and> claim_effectful (ex_claim g) \<and>
      map_option owner_token (dict_get (jobs (sweep 3 (rt_store rt))) (claim_task (ex_claim g))) = Some (Some (claim_owner_token (ex_claim g))))
    (runtime_steps demo_config (runtime_init 1 empty_store) demo_crash) = Some True"
  by code_simp

theorem doubtful_execution_settled_witness:
  "\<exists>rt g rt' m'. reach demo_config 1 rt \<and> run_of rt 1 = Some g \<and>
    runtime_steps demo_config rt [EvSettle 1, EvFinishRead 1 3 0, EvFinish 1 3] = Some rt' \<and>
    dict_get (jobs (rt_store rt')) (claim_task (ex_claim g)) = Some m' \<and> state m' = UNKNOWN_DELIVERY"
proof -
  from demo_crash_state obtain rt g m where rt: "runtime_steps demo_config (runtime_init 1 empty_store) demo_crash = Some rt"
    and g: "run_of rt 1 = Some g" "ex_phase g = Ended Crashed" "claim_effectful (ex_claim g)"
    and m: "dict_get (jobs (sweep 3 (rt_store rt))) (claim_task (ex_claim g)) = Some m" "owner_token m = Some (claim_owner_token (ex_claim g))"
    by (auto split: option.splits)
  have r: "reach demo_config 1 rt" using rt reach.init by (rule runtime_steps_reach)
  from doubtful_execution_settled [OF r g(1,2) _ g(3) m] r g(1) show ?thesis by blast
qed

section \<open>Timing and the cache\<close>

lemma attempt_base: "(15 :: secs) \<le> min 60 (15 * 2 ^ nat (min 2 (max 0 (a - 1)))) \<and> min 60 (15 * 2 ^ nat (min 2 (max 0 (a - 1)))) \<le> (60 :: secs)"
  for a :: int
proof -
  have "(1 :: secs) \<le> 2 ^ n" for n by simp
  then show ?thesis by simp
qed

text \<open>A retry comes between 15 and 72 seconds after the failure, or later exactly when the handler asked for a longer
  wait, which is then kept; the jitter must be a number between 0 and 1.\<close>

theorem retry_delay_bounds:
  assumes "next_attempt_at attempts now after rnd = Inr due"
  shows "0 \<le> rnd \<and> rnd \<le> 1 \<and> now + 15 \<le> due \<and>
    (case after of None \<Rightarrow> due \<le> now + 72 | Some ra \<Rightarrow> now + ra \<le> due \<and> due \<le> now + max 72 ra)"
proof -
  have r: "0 \<le> rnd \<and> rnd \<le> 1" using assms by (auto simp: next_attempt_at_def split: if_splits)
  define base :: secs where "base = min 60 (15 * 2 ^ nat (min 2 (max 0 (attempts - 1))))"
  define d where "d = base * (1 + rnd / 5)"
  have due: "due = now + (case after of None \<Rightarrow> d | Some ra \<Rightarrow> max d ra)"
    using assms r unfolding next_attempt_at_def Let_def d_def base_def by (simp split: option.split)
  have b: "15 \<le> base" "base \<le> 60" using attempt_base [of attempts] by (simp_all only: base_def)
  have "15 * 1 \<le> base * (1 + rnd / 5)" using b r by (intro mult_mono) auto
  moreover have "base * (1 + rnd / 5) \<le> 60 * (6 / 5)" using b r by (intro mult_mono) auto
  ultimately have "15 \<le> d" "d \<le> 72" by (simp_all add: d_def)
  then show ?thesis using r by (cases after) (simp_all add: due max_def)
qed

theorem retry_delay_bounds_witness: "(3 :: secs) + 15 \<le> 33 \<and> (33 :: secs) \<le> 3 + 72"
proof -
  have "next_attempt_at 2 3 None 0 = Inr 33" by (simp add: next_attempt_at_def)
  from retry_delay_bounds [OF this] show ?thesis by simp
qed

lemma cache_length: "length tasks \<le> 256 \<Longrightarrow> length (cache_snapshot snap uid tasks) \<le> 256"
  by (auto simp: cache_snapshot_def Let_def)

lemma cache_put:
  "dict_get (drop n (dict_pop tasks k @ [(k, t)])) x = Some t' \<Longrightarrow> dict_ok tasks \<Longrightarrow> n \<le> length (dict_pop tasks k) \<Longrightarrow>
    x = k \<and> t' = t \<or> x \<noteq> k \<and> dict_get tasks x = Some t'"
proof -
  assume g: "dict_get (drop n (dict_pop tasks k @ [(k, t)])) x = Some t'" and ok: "dict_ok tasks" and n: "n \<le> length (dict_pop tasks k)"
  have "(x, t') \<in> set (drop n (dict_pop tasks k)) \<or> (x, t') = (k, t)" using dict_get_SomeD [OF g] n by auto
  moreover have "(x, t') \<in> set (dict_pop tasks k)" if "(x, t') \<in> set (drop n (dict_pop tasks k))" using that by (rule in_set_dropD)
  ultimately show ?thesis using ok by (auto simp: dict_pop_def dict_ok_in_iff)
qed

text \<open>A cached task never goes back to an older revision, whatever snapshot arrives late.\<close>

lemma cache_monotone:
  assumes ok: "dict_ok tasks" and t: "dict_get tasks x = Some t" and t': "dict_get (cache_snapshot snap uid tasks) x = Some t'"
  shows "ct_revision t \<le> ct_revision t'"
proof -
  let ?k = "snap_task_id snap"
  have put: "x = ?k \<and> t' = task_of snap u \<or> x \<noteq> ?k \<and> dict_get tasks x = Some t'"
    if "dict_get (drop (length (dict_pop tasks ?k @ [(?k, task_of snap u)]) - 256) (dict_pop tasks ?k @ [(?k, task_of snap u)])) x = Some t'" for u
    by (rule cache_put [OF that ok]) simp
  show ?thesis
  proof (cases "case dict_get tasks ?k of None \<Rightarrow> False | Some c \<Rightarrow> ct_revision c > snap_revision snap")
    case True
    with t t' show ?thesis by (simp add: cache_snapshot_def)
  next
    case False
    let ?u = "if uid \<noteq> 0 then uid else case dict_get tasks ?k of Some c \<Rightarrow> ct_user_id c | None \<Rightarrow> 0"
    from t' False have "dict_get (drop (length (dict_pop tasks ?k @ [(?k, task_of snap ?u)]) - 256) (dict_pop tasks ?k @ [(?k, task_of snap ?u)])) x = Some t'"
      unfolding cache_snapshot_def Let_def by (simp only: if_False)
    from put [OF this] t False show ?thesis by (auto simp: task_of_def)
  qed
qed

end
