(* ===== verification/Redis_Script.thy ===== *)
theory Redis_Script
  imports Queue_Store
begin

text \<open>
  The durable adapter of the job queue: the Lua program \<open>QUEUE_SCRIPT\<close> (\<^verbatim>\<open>app/queue_lua.py\<close>), which Redis runs as one atomic step
  per call of \<open>RedisQueueStore\<close> (\<^verbatim>\<open>app/queue_store.py\<close>). The record \<open>redis_db\<close> has one field per family of keys; the state of a
  key with a time to live has its expiry beside it, and \<open>expire_keys\<close> is what Redis drops before a step. Every local function of
  the script is one definition.

  \<^item> A job is the record of \<open>Queue_Store\<close> with the flag \<open>payload_accounted\<close>; the aliases of its identity are a set of their own
    (\<open>rd_identities\<close>). \<open>cjson.null\<close> and an absent field are \<open>None\<close>; \<open>cjson.null\<close> is true in an \<open>or\<close> of Lua.
  \<^item> A sorted set is a dictionary from members to scores, read in the order of scores and, among equals, of members.
  \<^item> Identities, fingerprints and keys of operations are digests made by the caller and passed in.
\<close>

section \<open>The database\<close>

record redis_job = job +
  payload_accounted :: bool

record redis_db =
  rd_jobs :: "(string, redis_job) dict"
  rd_payloads :: "(string, string \<times> secs) dict"
  rd_idem :: "(string, string \<times> string \<times> secs) dict"
  rd_identities :: "(string, string list \<times> secs option) dict"
  rd_conflicts :: "(string \<times> string, string) dict"
  rd_nonterminal :: "string \<Rightarrow> int"
  rd_held :: "string \<Rightarrow> int"
  rd_bytes :: "string \<Rightarrow> int"
  rd_states :: "string \<Rightarrow> job_state \<Rightarrow> int"
  rd_leases :: "(string, secs) dict"
  rd_ready :: "string \<Rightarrow> (string, int) dict"
  rd_delayed :: "string \<Rightarrow> (string, secs) dict"
  rd_deadlines :: "(string, secs) dict"
  rd_payload_expiry :: "(string, secs) dict"
  rd_metadata_expiry :: "(string, secs) dict"
  rd_terminal :: "string \<Rightarrow> job_state \<Rightarrow> (string, secs) dict"
  rd_malformed :: "string \<Rightarrow> (string, secs) dict"
  rd_owners :: "(string, int \<times> string \<times> job_state) dict"
  rd_users :: "int \<Rightarrow> string list"
  rd_index :: "(string, int) dict"
  rd_sequence :: int
  rd_permit :: "(string \<times> secs) option"
  rd_lanes :: "(string, lane_state) dict"
  rd_operations :: "(string, string \<times> string \<times> secs) dict"
  rd_commands :: "(string, string list) dict"

definition redis_empty :: redis_db where
  "redis_empty =
    \<lparr>rd_jobs = [], rd_payloads = [], rd_idem = [], rd_identities = [], rd_conflicts = [], rd_nonterminal = (\<lambda>_. 0), rd_held = (\<lambda>_. 0),
     rd_bytes = (\<lambda>_. 0), rd_states = (\<lambda>_ _. 0), rd_leases = [], rd_ready = (\<lambda>_. []), rd_delayed = (\<lambda>_. []), rd_deadlines = [],
     rd_payload_expiry = [], rd_metadata_expiry = [], rd_terminal = (\<lambda>_ _. []), rd_malformed = (\<lambda>_. []), rd_owners = [],
     rd_users = (\<lambda>_. []), rd_index = [], rd_sequence = 0, rd_permit = None, rd_lanes = [], rd_operations = [], rd_commands = []\<rparr>"

text \<open>Redis drops a key once the clock has passed its expiry. \<open>PEXPIREAT\<close> and \<open>PX\<close> take whole milliseconds, rounded up.\<close>

definition millis_up :: "secs \<Rightarrow> secs" where
  "millis_up t = of_int \<lceil>t * 1000\<rceil> / 1000"

definition expire_keys :: "secs \<Rightarrow> redis_db \<Rightarrow> redis_db" where
  "expire_keys now db =
    db\<lparr>rd_jobs := filter (\<lambda>e. case metadata_expires_at (snd e) of None \<Rightarrow> True | Some t \<Rightarrow> now \<le> millis_up t) (rd_jobs db),
       rd_payloads := filter (\<lambda>e. now \<le> snd (snd e)) (rd_payloads db),
       rd_idem := filter (\<lambda>e. now \<le> snd (snd (snd e))) (rd_idem db),
       rd_identities := filter (\<lambda>e. case snd (snd e) of None \<Rightarrow> True | Some t \<Rightarrow> now \<le> t) (rd_identities db),
       rd_permit := (case rd_permit db of Some (owner, t) \<Rightarrow> if now \<le> t then Some (owner, t) else None | None \<Rightarrow> None),
       rd_operations := filter (\<lambda>e. now \<le> snd (snd (snd e))) (rd_operations db)\<rparr>"

text \<open>\<open>ZRANGEBYSCORE -inf now LIMIT 0 n\<close> and \<open>ZRANGE 0 n-1\<close>.\<close>

definition zrange :: "(string, 's::linorder) dict \<Rightarrow> string list" where
  "zrange z = map fst (sort_key (\<lambda>e. (snd e, fst e)) z)"

definition zdue :: "secs \<Rightarrow> nat \<Rightarrow> (string, secs) dict \<Rightarrow> string list" where
  "zdue now n z = take n (zrange (filter (\<lambda>e. snd e \<le> now) z))"

definition set_add :: "'a \<Rightarrow> 'a list \<Rightarrow> 'a list" where
  "set_add x xs = (if x \<in> set xs then xs else xs @ [x])"

definition members_of :: "(string, string list \<times> secs option) dict \<Rightarrow> string \<Rightarrow> string list" where
  "members_of d tid = (case dict_get d tid of None \<Rightarrow> [] | Some (xs, t) \<Rightarrow> xs)"

section \<open>Local functions\<close>

definition lua_save :: "redis_job \<Rightarrow> redis_db \<Rightarrow> redis_db" where
  "lua_save m db = db\<lparr>rd_jobs := dict_set (rd_jobs db) (task_id m) m\<rparr>"

definition lua_drop_payload :: "redis_job \<Rightarrow> redis_db \<Rightarrow> redis_job \<times> redis_db" where
  "lua_drop_payload m db =
    (m\<lparr>payload_accounted := False, retry_eligible := False, retry_payload_available := False\<rparr>,
     db\<lparr>rd_payloads := dict_pop (rd_payloads db) (task_id m),
        rd_payload_expiry := dict_pop (rd_payload_expiry db) (task_id m),
        rd_bytes := (if payload_accounted m then (rd_bytes db)(lane m := rd_bytes db (lane m) - payload_bytes m) else rd_bytes db)\<rparr>)"

definition lua_release_running :: "redis_job \<Rightarrow> redis_db \<Rightarrow> redis_db" where
  "lua_release_running m db =
    db\<lparr>rd_held := (if held_state (state m) then (rd_held db)(lane m := rd_held db (lane m) - 1) else rd_held db),
       rd_leases := dict_pop (rd_leases db) (task_id m),
       rd_permit := (if owner_token m \<noteq> None \<and> map_option fst (rd_permit db) = owner_token m then None else rd_permit db)\<rparr>"

definition lua_ready :: "redis_job \<Rightarrow> redis_db \<Rightarrow> redis_db" where
  "lua_ready m db =
    db\<lparr>rd_ready := (rd_ready db)(lane m := dict_set (rd_ready db (lane m)) (task_id m) ((5 - priority m) * 1000000000000 + sequence m))\<rparr>"

definition lua_transition :: "redis_job \<Rightarrow> job_state \<Rightarrow> redis_db \<Rightarrow> redis_job \<times> redis_db" where
  "lua_transition m st db =
    (let c = (rd_states db (lane m))(state m := rd_states db (lane m) (state m) - 1) in
     (m\<lparr>state := st\<rparr>,
      db\<lparr>rd_states := (rd_states db)(lane m := c(st := c st + 1)),
         rd_owners := dict_set (rd_owners db) (task_id m) (user_id m, lane m, st)\<rparr>))"

definition lua_release_conflict :: "redis_job \<Rightarrow> (string \<times> string, string) dict \<Rightarrow> string \<Rightarrow> (string \<times> string, string) dict" where
  "lua_release_conflict m d key = (if dict_get d (lane m, key) = Some (task_id m) then dict_pop d (lane m, key) else d)"

definition lua_release_conflicts :: "redis_job \<Rightarrow> redis_db \<Rightarrow> redis_db" where
  "lua_release_conflicts m db = db\<lparr>rd_conflicts := foldl (lua_release_conflict m) (rd_conflicts db) (conflict_keys m)\<rparr>"

definition lua_unschedule :: "redis_job \<Rightarrow> redis_db \<Rightarrow> redis_db" where
  "lua_unschedule m db =
    db\<lparr>rd_ready := (rd_ready db)(lane m := dict_pop (rd_ready db (lane m)) (task_id m)),
       rd_delayed := (rd_delayed db)(lane m := dict_pop (rd_delayed db (lane m)) (task_id m)),
       rd_deadlines := dict_pop (rd_deadlines db) (task_id m)\<rparr>"

text \<open>The end of \<open>terminal\<close>: the identities keep a day, the record is indexed for its expiry and saved.\<close>

definition lua_extend_identity :: "secs \<Rightarrow> (string, string \<times> string \<times> secs) dict \<Rightarrow> string \<Rightarrow> (string, string \<times> string \<times> secs) dict" where
  "lua_extend_identity now d ident =
    (case dict_get d ident of None \<Rightarrow> d | Some (tid, fp, t) \<Rightarrow> dict_set d ident (tid, fp, now + METADATA_RETENTION))"

definition lua_index_terminal :: "secs \<Rightarrow> string option \<Rightarrow> redis_job \<Rightarrow> redis_db \<Rightarrow> redis_db" where
  "lua_index_terminal now reason m db =
    db\<lparr>rd_idem := foldl (lua_extend_identity now) (rd_idem db) (members_of (rd_identities db) (task_id m)),
       rd_identities := (case dict_get (rd_identities db) (task_id m) of
           None \<Rightarrow> rd_identities db
         | Some (xs, t) \<Rightarrow> dict_set (rd_identities db) (task_id m) (xs, Some (now + METADATA_RETENTION))),
       rd_metadata_expiry := dict_set (rd_metadata_expiry db) (task_id m) (now + METADATA_RETENTION),
       rd_terminal := (rd_terminal db)(lane m :=
         (rd_terminal db (lane m))(state m := dict_set (rd_terminal db (lane m) (state m)) (task_id m) (now + METADATA_RETENTION))),
       rd_malformed := (if reason = Some ''invalid_job_payload''
         then (rd_malformed db)(lane m := dict_set (rd_malformed db (lane m)) (task_id m) (now + METADATA_RETENTION)) else rd_malformed db)\<rparr>"

text \<open>The body of \<open>terminal\<close> up to its choice about the payload: the record, and the keys around it. The payload is then kept for a retry or dropped.\<close>

definition lua_closed :: "secs \<Rightarrow> job_state \<Rightarrow> string option \<Rightarrow> redis_job \<Rightarrow> redis_job" where
  "lua_closed now st reason m = m\<lparr>state := st, reason_code := reason, finished_at := Some now, owner_token := None, revision := revision m + 1,
     metadata_expires_at := Some (now + METADATA_RETENTION)\<rparr>"

definition lua_closing :: "job_state \<Rightarrow> redis_job \<Rightarrow> redis_db \<Rightarrow> redis_db" where
  "lua_closing st m db = snd (lua_transition m st (lua_unschedule m (lua_release_conflicts m (lua_release_running m
     (db\<lparr>rd_nonterminal := (if active_state (state m) then (rd_nonterminal db)(lane m := rd_nonterminal db (lane m) - 1) else rd_nonterminal db)\<rparr>)))))"

definition lua_retained :: "secs \<Rightarrow> redis_job \<Rightarrow> redis_db \<Rightarrow> redis_job \<times> redis_db" where
  "lua_retained now m db =
    (m\<lparr>retry_eligible := True, retry_payload_available := True, payload_expires_at := now + RETRY_PAYLOAD_RETENTION\<rparr>,
     db\<lparr>rd_payloads := (case dict_get (rd_payloads db) (task_id m) of
            None \<Rightarrow> rd_payloads db
          | Some (pl, t) \<Rightarrow> dict_set (rd_payloads db) (task_id m) (pl, now + RETRY_PAYLOAD_RETENTION)),
        rd_payload_expiry := dict_set (rd_payload_expiry db) (task_id m) (now + RETRY_PAYLOAD_RETENTION)\<rparr>)"

definition lua_terminal :: "secs \<Rightarrow> job_state \<Rightarrow> string option \<Rightarrow> bool \<Rightarrow> redis_job \<Rightarrow> redis_db \<Rightarrow> redis_job \<times> redis_db" where
  "lua_terminal now st reason safe m db =
    (let m1 = lua_closed now st reason m; db1 = lua_closing st m db in
     case (if safe \<and> retry_grants m1 > 0 \<and> dict_has (rd_payloads db1) (task_id m1) then lua_retained now m1 db1 else lua_drop_payload m1 db1) of
       (m2, db2) \<Rightarrow> (m2, lua_save m2 (lua_index_terminal now reason m2 db2)))"

definition uncertain_reason :: "redis_job \<Rightarrow> string" where
  "uncertain_reason m = (if kind m = ''document_processing'' then ''document_storage_unconfirmed'' else ''interrupted_delivery'')"

definition lua_uncertain :: "redis_job \<Rightarrow> bool" where
  "lua_uncertain m \<longleftrightarrow> held_state (state m) \<and> effectful m"

section \<open>Sweep\<close>

definition lua_sweep_payload :: "secs \<Rightarrow> redis_db \<Rightarrow> string \<Rightarrow> redis_db" where
  "lua_sweep_payload now db tid =
    (case dict_get (rd_jobs db) tid of
       None \<Rightarrow> db\<lparr>rd_payload_expiry := dict_pop (rd_payload_expiry db) tid\<rparr>
     | Some m \<Rightarrow>
        (case lua_drop_payload m db of (m1, db1) \<Rightarrow>
          (if active_state (state m1)
           then snd (lua_terminal now (if lua_uncertain m1 then UNKNOWN_DELIVERY else EXPIRED) (Some ''payload_expired'') False m1 db1)
           else lua_save m1 db1)))"

definition lua_sweep_deadline :: "secs \<Rightarrow> redis_db \<Rightarrow> string \<Rightarrow> redis_db" where
  "lua_sweep_deadline now db tid =
    (case dict_get (rd_jobs db) tid of
       Some m \<Rightarrow>
         (if active_state (state m)
          then snd (lua_terminal now (if lua_uncertain m then UNKNOWN_DELIVERY else EXPIRED)
                 (Some (if lua_uncertain m then uncertain_reason m else ''deadline_exceeded'')) False m db)
          else db\<lparr>rd_deadlines := dict_pop (rd_deadlines db) tid\<rparr>)
     | None \<Rightarrow> db\<lparr>rd_deadlines := dict_pop (rd_deadlines db) tid\<rparr>)"

definition lua_requeue :: "redis_job \<Rightarrow> redis_db \<Rightarrow> redis_db" where
  "lua_requeue m db =
    (case lua_transition m QUEUED (lua_release_running m db) of (m1, db1) \<Rightarrow>
      (let m2 = m1\<lparr>owner_token := None, revision := revision m1 + 1, deadline_at := queue_deadline_at m1\<rparr> in
       lua_save m2 (lua_ready m2 (db1\<lparr>rd_deadlines := dict_set (rd_deadlines db1) (task_id m2) (deadline_at m2)\<rparr>))))"

definition lua_sweep_lease :: "secs \<Rightarrow> redis_db \<Rightarrow> string \<Rightarrow> redis_db" where
  "lua_sweep_lease now db tid =
    (case dict_get (rd_jobs db) tid of
       Some m \<Rightarrow>
         (if \<not> held_state (state m) then db\<lparr>rd_leases := dict_pop (rd_leases db) tid\<rparr>
          else if effectful m then snd (lua_terminal now UNKNOWN_DELIVERY (Some (uncertain_reason m)) False m db)
          else if state m = CANCEL_REQUESTED then snd (lua_terminal now CANCELLED (Some ''cancel_requested'') False m db)
          else if attempts_started m \<ge> max_attempts m then snd (lua_terminal now FAILED (Some ''attempts_exhausted'') True m db)
          else if now \<ge> queue_deadline_at m then snd (lua_terminal now EXPIRED (Some ''deadline_exceeded'') True m db)
          else lua_requeue m db)
     | None \<Rightarrow> db\<lparr>rd_leases := dict_pop (rd_leases db) tid\<rparr>)"

definition lua_sweep_delayed :: "string \<Rightarrow> redis_db \<Rightarrow> string \<Rightarrow> redis_db" where
  "lua_sweep_delayed nm db0 tid =
    (let db = db0\<lparr>rd_delayed := (rd_delayed db0)(nm := dict_pop (rd_delayed db0 nm) tid)\<rparr> in
     case dict_get (rd_jobs db) tid of
       Some m \<Rightarrow>
         (if state m = DELAYED then
            (case lua_transition m QUEUED db of (m1, db1) \<Rightarrow>
              (let m2 = m1\<lparr>revision := revision m1 + 1\<rparr> in lua_save m2 (lua_ready m2 db1)))
          else db)
     | None \<Rightarrow> db)"

definition lua_forget :: "redis_db \<Rightarrow> string \<Rightarrow> redis_db" where
  "lua_forget db tid =
    (let db1 = (case dict_get (rd_owners db) tid of
         None \<Rightarrow> db
       | Some (uid, nm, st) \<Rightarrow>
          db\<lparr>rd_users := (rd_users db)(uid := removeAll tid (rd_users db uid)),
             rd_states := (rd_states db)(nm := (rd_states db nm)(st := rd_states db nm st - 1)),
             rd_terminal := (rd_terminal db)(nm := (rd_terminal db nm)(st := dict_pop (rd_terminal db nm st) tid)),
             rd_malformed := (rd_malformed db)(nm := dict_pop (rd_malformed db nm) tid)\<rparr>) in
     db1\<lparr>rd_owners := dict_pop (rd_owners db1) tid, rd_index := dict_pop (rd_index db1) tid,
         rd_metadata_expiry := dict_pop (rd_metadata_expiry db1) tid, rd_commands := dict_pop (rd_commands db1) tid,
         rd_idem := foldl dict_pop (rd_idem db1) (members_of (rd_identities db1) tid),
         rd_identities := dict_pop (rd_identities db1) tid\<rparr>)"

definition lua_sweep_lane :: "secs \<Rightarrow> redis_db \<Rightarrow> string \<Rightarrow> redis_db" where
  "lua_sweep_lane now db nm = foldl (lua_sweep_delayed nm) db (zdue now 128 (rd_delayed db nm))"

definition lua_sweep :: "secs \<Rightarrow> redis_db \<Rightarrow> redis_db" where
  "lua_sweep now db =
    (let db1 = foldl (lua_sweep_payload now) db (zdue now 256 (rd_payload_expiry db));
         db2 = foldl (lua_sweep_deadline now) db1 (zdue now 256 (rd_deadlines db1));
         db3 = foldl (lua_sweep_lease now) db2 (zdue now 256 (rd_leases db2));
         db4 = foldl (lua_sweep_lane now) db3 (dict_keys LANE_WORKERS)
     in foldl lua_forget db4 (zdue now 256 (rd_metadata_expiry db4)))"

section \<open>Admission\<close>

definition lua_lane_state :: "string \<Rightarrow> queue_policy \<Rightarrow> redis_db \<Rightarrow> lane_state" where
  "lua_lane_state nm p db = (case dict_get (rd_lanes db) nm of Some l \<Rightarrow> l | None \<Rightarrow> lane_default p)"

definition lua_caps :: "string \<Rightarrow> queue_policy" where
  "lua_caps nm =
    \<lparr>max_jobs = (if nm = ''daily'' then 32 else if nm = ''broadcast'' then 10 else 100), max_payload_bytes = 262144,
     max_total_payload_bytes = 8388608, max_age_seconds = (if nm = ''daily'' then 1800 else 900), max_attempts_allowed = 3\<rparr>"

definition lua_record :: "secs \<Rightarrow> queue_policy \<Rightarrow> int \<Rightarrow> string \<Rightarrow> string \<Rightarrow> envelope \<Rightarrow> redis_job" where
  "lua_record now p sq ident fp e =
    \<lparr>task_id = task_id e, kind = kind e, lane = lane e, user_id = user_id e,
     privacy_epoch = privacy_epoch e, priority = priority e, delay_seconds = delay_seconds e,
     effectful = effectful e, image_work = image_work e, parent_task_id = parent_task_id e,
     retry_grants = retry_grants e, conflict_keys = conflict_keys e,
     execution_timeout_seconds = execution_timeout_seconds e,
     state = (if delay_seconds e > 0 then DELAYED else QUEUED),
     revision = 1, attempts_started = 0, max_attempts = max_attempts_allowed p,
     submitted_at = now, started_at = None, finished_at = None,
     not_before = now + max 0 (delay_seconds e),
     deadline_at = now + of_int (max_age_seconds p), queue_deadline_at = now + of_int (max_age_seconds p),
     heartbeat_at = None, reason_code = None, retry_eligible = False,
     retry_payload_available = False, result_summary = envelope_summary e,
     payload_bytes = int (length (payload e)), sequence = sq,
     identity = ident, identity_aliases = [], fingerprint = fp, owner_token = None, metadata_expires_at = None,
     payload_expires_at = now + of_int (if user_id e > 0 then min 900 (max_age_seconds p) else max_age_seconds p),
     finish_token = None, payload_accounted = True\<rparr>"

text \<open>The first conflict key somebody holds.\<close>

fun lua_conflict :: "redis_db \<Rightarrow> string \<Rightarrow> string list \<Rightarrow> string option" where
  "lua_conflict db nm [] = None"
| "lua_conflict db nm (key # keys) = (case dict_get (rd_conflicts db) (nm, key) of Some t \<Rightarrow> Some t | None \<Rightarrow> lua_conflict db nm keys)"

definition lua_join :: "secs \<Rightarrow> string \<Rightarrow> string \<Rightarrow> string \<Rightarrow> redis_db \<Rightarrow> redis_db \<times> queue_admission" where
  "lua_join now ident fp owner db =
    (let members = members_of (rd_identities db) owner in
     if length members \<ge> 256 then (db, admission REJECTED None (Some ''idempotency_capacity''))
     else
       (db\<lparr>rd_idem := dict_set (rd_idem db) ident (owner, fp, now + METADATA_RETENTION),
           rd_identities := dict_set (rd_identities db) owner
             (set_add ident members, case dict_get (rd_identities db) owner of None \<Rightarrow> None | Some (xs, t) \<Rightarrow> t)\<rparr>,
        admission EXISTING (Some owner) (Some ''conflict_existing'')))"

definition lua_insert :: "secs \<Rightarrow> queue_policy \<Rightarrow> lane_state \<Rightarrow> string \<Rightarrow> string \<Rightarrow> envelope \<Rightarrow> redis_db \<Rightarrow> redis_db" where
  "lua_insert now p l ident fp e db =
    (let j = lua_record now p (rd_sequence db + 1) ident fp e; tid = task_id e;
         db1 = lua_save j (db\<lparr>rd_sequence := rd_sequence db + 1\<rparr>);
         db2 = db1\<lparr>rd_payloads := dict_set (rd_payloads db1) tid (payload e, now + millis_up (payload_expires_at j - now)),
            rd_idem := dict_set (rd_idem db1) ident (tid, fp, now + METADATA_RETENTION),
            rd_identities := dict_set (rd_identities db1) tid
              (set_add ident (members_of (rd_identities db1) tid), case dict_get (rd_identities db1) tid of None \<Rightarrow> None | Some (xs, t) \<Rightarrow> t),
            rd_conflicts := foldl (\<lambda>d key. dict_set d (lane e, key) tid) (rd_conflicts db1) (conflict_keys e),
            rd_index := dict_set (rd_index db1) tid (sequence j),
            rd_users := (rd_users db1)(user_id e := set_add tid (rd_users db1 (user_id e))),
            rd_owners := dict_set (rd_owners db1) tid (user_id e, lane e, state j),
            rd_deadlines := dict_set (rd_deadlines db1) tid (deadline_at j),
            rd_payload_expiry := dict_set (rd_payload_expiry db1) tid (payload_expires_at j),
            rd_nonterminal := (rd_nonterminal db1)(lane e := rd_nonterminal db1 (lane e) + 1),
            rd_bytes := (rd_bytes db1)(lane e := rd_bytes db1 (lane e) + payload_bytes j),
            rd_states := (rd_states db1)(lane e := (rd_states db1 (lane e))(state j := rd_states db1 (lane e) (state j) + 1)),
            rd_lanes := dict_set (rd_lanes db1) (lane e) l\<rparr>
     in if state j = DELAYED then db2\<lparr>rd_delayed := (rd_delayed db2)(lane e := dict_set (rd_delayed db2 (lane e)) tid (not_before j))\<rparr>
        else lua_ready j db2)"

definition lua_admission ::
    "secs \<Rightarrow> envelope \<Rightarrow> queue_policy \<Rightarrow> string \<Rightarrow> string \<Rightarrow> int \<Rightarrow> redis_db \<Rightarrow> redis_db \<times> queue_admission" where
  "lua_admission now e policy ident fp credit db =
    (case dict_get (rd_idem db) ident of
       Some (tid, old, t) \<Rightarrow>
         (db, if old = fp then admission EXISTING (Some tid) None else admission REJECTED (Some tid) (Some ''idempotency_conflict''))
     | None \<Rightarrow>
        (if \<not> dict_has LANE_WORKERS (lane e) then (db, admission REJECTED None (Some ''unknown_lane''))
         else
           (let p0 = policy_min policy (lua_caps (lane e)) in
            case lua_conflict db (lane e) (conflict_keys e) of
              Some owner \<Rightarrow> lua_join now ident fp owner db
            | None \<Rightarrow>
               (let l = lua_lane_state (lane e) p0 db; p = policy_min p0 (lane_policy l); n = int (length (payload e)) in
                if admission_paused l then (db, admission REJECTED None (Some ''admission_paused''))
                else if n > max_payload_bytes p then (db, admission REJECTED None (Some ''payload_too_large''))
                else if rd_nonterminal db (lane e) \<ge> max_jobs p then (db, admission REJECTED None (Some ''job_capacity''))
                else if rd_bytes db (lane e) + n - credit > max_total_payload_bytes p then (db, admission REJECTED None (Some ''byte_capacity''))
                else (lua_insert now p l ident fp e db, admission ACCEPTED (Some (task_id e)) None)))))"

text \<open>\<open>lookup_admission\<close>, after an admission whose answer was lost.\<close>

definition lua_lookup_admission :: "string \<Rightarrow> string \<Rightarrow> string \<Rightarrow> redis_db \<Rightarrow> queue_admission" where
  "lua_lookup_admission tid ident fp db =
    (case dict_get (rd_idem db) ident of
       None \<Rightarrow> admission UNKNOWN (Some tid) (Some ''admission_unconfirmed'')
     | Some (t, old, u) \<Rightarrow> if old = fp then admission EXISTING (Some t) None else admission REJECTED (Some t) (Some ''idempotency_conflict''))"

section \<open>Claims and the owner's calls\<close>

definition lua_start :: "secs \<Rightarrow> string \<Rightarrow> string \<Rightarrow> redis_job \<Rightarrow> redis_db \<Rightarrow> redis_job \<times> redis_db" where
  "lua_start now nm owner m0 db0 =
    (let db1 = db0\<lparr>rd_ready := (rd_ready db0)(nm := dict_pop (rd_ready db0 nm) (task_id m0))\<rparr> in
     case (if lane m0 = ''daily'' \<and> user_id m0 = 0 then
             (let budget = (case execution_timeout_seconds m0 of Some b \<Rightarrow> b | None \<Rightarrow> if take 6 (kind m0) = ''tarot.'' then 1800 else 600);
                  dl = now + of_int (min 1800 budget) + EXECUTION_SETTLEMENT_GRACE_SECONDS in
              (m0\<lparr>deadline_at := dl, payload_expires_at := dl\<rparr>,
               db1\<lparr>rd_deadlines := dict_set (rd_deadlines db1) (task_id m0) dl,
                   rd_payload_expiry := dict_set (rd_payload_expiry db1) (task_id m0) dl,
                   rd_payloads := (case dict_get (rd_payloads db1) (task_id m0) of
                       None \<Rightarrow> rd_payloads db1
                     | Some (pl, t) \<Rightarrow> dict_set (rd_payloads db1) (task_id m0) (pl, now + millis_up (dl - now)))\<rparr>))
           else (m0, db1)) of (m, db) \<Rightarrow>
       (case lua_transition m RUNNING db of (m1, db2) \<Rightarrow>
         (let m2 = m1\<lparr>owner_token := Some owner, started_at := Some now, heartbeat_at := Some now,
                       attempts_started := attempts_started m1 + 1, revision := revision m1 + 1, finish_token := None\<rparr>
          in (m2, lua_save m2 (db2\<lparr>rd_leases := dict_set (rd_leases db2) (task_id m2) (now + OWNER_LEASE_SECONDS),
                rd_held := (rd_held db2)(nm := rd_held db2 nm + 1),
                rd_permit := (if image_work m2 then Some (owner, now + 60) else rd_permit db2)\<rparr>)))))"

fun lua_claim_loop :: "secs \<Rightarrow> string \<Rightarrow> string \<Rightarrow> string list \<Rightarrow> redis_db \<Rightarrow> redis_db \<times> redis_job option" where
  "lua_claim_loop now nm owner [] db = (db, None)"
| "lua_claim_loop now nm owner (tid # tids) db =
    (case dict_get (rd_jobs db) tid of
       None \<Rightarrow> lua_claim_loop now nm owner tids (db\<lparr>rd_ready := (rd_ready db)(nm := dict_pop (rd_ready db nm) tid)\<rparr>)
     | Some m \<Rightarrow>
        (if state m \<noteq> QUEUED then lua_claim_loop now nm owner tids (db\<lparr>rd_ready := (rd_ready db)(nm := dict_pop (rd_ready db nm) tid)\<rparr>)
         else if attempts_started m \<ge> max_attempts m
         then lua_claim_loop now nm owner tids (snd (lua_terminal now FAILED (Some ''attempts_exhausted'') True m db))
         else if image_work m \<and> rd_permit db \<noteq> None then lua_claim_loop now nm owner tids db
         else if \<not> dict_has (rd_payloads db) tid
         then lua_claim_loop now nm owner tids (snd (lua_terminal now EXPIRED (Some ''payload_expired'') False m db))
         else (case lua_start now nm owner m db of (m1, db1) \<Rightarrow> (db1, Some m1))))"

text \<open>A lane is one of the four: the client looks its policy up first.\<close>

definition lua_claim :: "secs \<Rightarrow> string \<Rightarrow> queue_policy \<Rightarrow> string \<Rightarrow> redis_db \<Rightarrow> redis_db \<times> redis_job option" where
  "lua_claim now nm policy owner db =
    (if claim_paused (lua_lane_state nm policy db) \<or>
        (case dict_get LANE_WORKERS nm of None \<Rightarrow> True | Some workers \<Rightarrow> rd_held db nm \<ge> workers) then (db, None)
     else lua_claim_loop now nm owner (take 128 (zrange (rd_ready db nm))) db)"

definition lua_load :: "string \<Rightarrow> string \<Rightarrow> redis_db \<Rightarrow> queue_error + string" where
  "lua_load tid owner db =
    (case (dict_get (rd_jobs db) tid, dict_get (rd_payloads db) tid) of
       (Some m, Some (pl, t)) \<Rightarrow>
         (if state m = RUNNING \<and> owner_token m = Some owner then Inr pl else Inl (QueueConflict ''payload_not_available''))
     | _ \<Rightarrow> Inl (QueueConflict ''payload_not_available''))"

definition lua_progress :: "string \<Rightarrow> string \<Rightarrow> int \<Rightarrow> summary \<Rightarrow> redis_db \<Rightarrow> redis_db \<times> (queue_error + redis_job)" where
  "lua_progress tid owner rv summ db =
    (case dict_get (rd_jobs db) tid of
       Some m \<Rightarrow>
         (if state m = RUNNING \<and> owner_token m = Some owner \<and> revision m = rv
          then (let m1 = m\<lparr>result_summary := summary_merge (result_summary m) summ\<rparr> in (lua_save m1 db, Inr m1))
          else (db, Inl (QueueConflict ''owner_or_revision_conflict'')))
     | None \<Rightarrow> (db, Inl (QueueConflict ''owner_or_revision_conflict'')))"

definition lua_owned :: "string \<Rightarrow> int \<Rightarrow> redis_job \<Rightarrow> bool" where
  "lua_owned owner rv m \<longleftrightarrow> held_state (state m) \<and> owner_token m = Some owner \<and> revision m = rv"

definition lua_heartbeat :: "secs \<Rightarrow> string \<Rightarrow> string \<Rightarrow> int \<Rightarrow> redis_db \<Rightarrow> redis_db \<times> (queue_error + redis_job)" where
  "lua_heartbeat now tid owner rv db =
    (case dict_get (rd_jobs db) tid of
       Some m \<Rightarrow>
         (if lua_owned owner rv m
          then (let m1 = m\<lparr>heartbeat_at := Some now\<rparr> in
                (lua_save m1 (db\<lparr>rd_leases := dict_set (rd_leases db) tid (now + OWNER_LEASE_SECONDS),
                   rd_permit := (if image_work m \<and> map_option fst (rd_permit db) = Some owner then Some (owner, now + 60) else rd_permit db)\<rparr>), Inr m1))
          else (db, Inl (QueueConflict ''owner_or_revision_conflict'')))
     | None \<Rightarrow> (db, Inl (QueueConflict ''owner_or_revision_conflict'')))"

definition lua_retry_later :: "secs \<Rightarrow> secs \<Rightarrow> string option \<Rightarrow> redis_job \<Rightarrow> redis_db \<Rightarrow> redis_job \<times> redis_db" where
  "lua_retry_later now delay reason m db =
    (case lua_transition m (if delay > 0 then DELAYED else QUEUED) (lua_release_running m db) of (m1, db1) \<Rightarrow>
      (let dl = queue_deadline_at m1; px = (if user_id m1 > 0 then min dl (submitted_at m1 + 900) else dl);
           m2 = m1\<lparr>owner_token := None, not_before := now + delay, reason_code := reason, revision := revision m1 + 1,
                   deadline_at := dl, payload_expires_at := px\<rparr>;
           db2 = db1\<lparr>rd_deadlines := dict_set (rd_deadlines db1) (task_id m2) dl,
                     rd_payload_expiry := dict_set (rd_payload_expiry db1) (task_id m2) px,
                     rd_payloads := (case dict_get (rd_payloads db1) (task_id m2) of
                         None \<Rightarrow> rd_payloads db1
                       | Some (pl, t) \<Rightarrow> dict_set (rd_payloads db1) (task_id m2) (pl, now + max (1 / 1000) (millis_up (px - now))))\<rparr>
       in (m2, if state m2 = DELAYED then db2\<lparr>rd_delayed := (rd_delayed db2)(lane m2 := dict_set (rd_delayed db2 (lane m2)) (task_id m2) (not_before m2))\<rparr>
               else lua_ready m2 db2)))"

text \<open>A reason that is \<open>cjson.null\<close> counts as given in \<open>q.result.reason_code or 'attempts_exhausted'\<close>.\<close>

definition lua_settle :: "secs \<Rightarrow> secs \<Rightarrow> job_outcome \<Rightarrow> string option \<Rightarrow> redis_job \<Rightarrow> redis_db \<Rightarrow> redis_job \<times> redis_db" where
  "lua_settle now delay out reason m db =
    (if out = UNKNOWN_DELIVERY_outcome then lua_terminal now UNKNOWN_DELIVERY reason False m db
     else if state m = CANCEL_REQUESTED then lua_terminal now CANCELLED (Some ''cancel_requested'') False m db
     else if out = RETRYABLE_FAILURE then
       (if attempts_started m \<ge> max_attempts m then lua_terminal now FAILED reason True m db
        else if now + delay \<ge> queue_deadline_at m then lua_terminal now EXPIRED (Some ''retry_after_deadline'') True m db
        else lua_retry_later now delay reason m db)
     else lua_terminal now (outcome_state out) reason False m db)"

definition lua_finish :: "secs \<Rightarrow> string \<Rightarrow> string \<Rightarrow> int \<Rightarrow> job_outcome \<Rightarrow> string option \<Rightarrow> summary \<Rightarrow> secs \<Rightarrow> redis_db \<Rightarrow>
    redis_db \<times> (queue_error + redis_job)" where
  "lua_finish now tid owner rv out reason summ delay db =
    (case dict_get (rd_jobs db) tid of
       Some m \<Rightarrow>
         (if finish_token m = Some owner then (db, Inr m)
          else if lua_owned owner rv m then
            (case lua_settle now delay out reason (m\<lparr>result_summary := summary_merge (result_summary m) summ\<rparr>) db of (m1, db1) \<Rightarrow>
              (let m2 = m1\<lparr>finish_token := Some owner\<rparr> in (lua_save m2 db1, Inr m2)))
          else (db, Inl (QueueConflict ''owner_or_revision_conflict'')))
     | None \<Rightarrow> (db, Inl (QueueConflict ''owner_or_revision_conflict'')))"

section \<open>Commands\<close>

text \<open>\<open>lua_previous\<close>: an operation done before, with its target.\<close>

definition lua_previous :: "string \<Rightarrow> string \<Rightarrow> redis_db \<Rightarrow> queue_error + string option" where
  "lua_previous op fp db =
    (case dict_get (rd_operations db) op of
       None \<Rightarrow> Inr None
     | Some (old, target, t) \<Rightarrow> if old = fp then Inr (Some target) else Inl (QueueConflict ''operation_id_conflict''))"

definition lua_put_operation :: "secs \<Rightarrow> string \<Rightarrow> string \<Rightarrow> string \<Rightarrow> redis_db \<Rightarrow> redis_db" where
  "lua_put_operation now op fp target db = db\<lparr>rd_operations := dict_set (rd_operations db) op (fp, target, now + METADATA_RETENTION)\<rparr>"

definition lua_note_command :: "string \<Rightarrow> string \<Rightarrow> redis_db \<Rightarrow> redis_db" where
  "lua_note_command tid op db =
    db\<lparr>rd_commands := dict_set (rd_commands db) tid (set_add op (case dict_get (rd_commands db) tid of Some xs \<Rightarrow> xs | None \<Rightarrow> []))\<rparr>"

definition lua_set_lane :: "secs \<Rightarrow> string \<Rightarrow> queue_policy \<Rightarrow> int \<Rightarrow> bool \<Rightarrow> bool \<Rightarrow> string \<Rightarrow> string \<Rightarrow> redis_db \<Rightarrow>
    redis_db \<times> (queue_error + lane_state)" where
  "lua_set_lane now nm policy rv ap cp op fp db =
    (case lua_previous op fp db of
       Inl err \<Rightarrow> (db, Inl err)
     | Inr (Some target) \<Rightarrow> (db, Inr (lua_lane_state nm policy db))
     | Inr None \<Rightarrow>
        (let l = lua_lane_state nm policy db in
         if lane_revision l \<noteq> rv then (db, Inl (QueueConflict ''revision_conflict''))
         else
           (let l1 = l\<lparr>lane_revision := lane_revision l + 1, admission_paused := ap, claim_paused := cp\<rparr> in
            (lua_put_operation now op fp nm (db\<lparr>rd_lanes := dict_set (rd_lanes db) nm l1\<rparr>), Inr l1))))"

definition lua_cancel_record :: "secs \<Rightarrow> redis_job \<Rightarrow> redis_db \<Rightarrow> redis_job \<times> redis_db" where
  "lua_cancel_record now m db =
    (if held_state (state m) then
       (case lua_transition m CANCEL_REQUESTED db of (m1, db1) \<Rightarrow>
         (let m2 = m1\<lparr>revision := revision m1 + 1, reason_code := Some ''cancel_requested''\<rparr> in (m2, lua_save m2 db1)))
     else if active_state (state m) then lua_terminal now CANCELLED (Some ''cancel_requested'') False m db
     else (m, db))"

text \<open>The answer to a repeated cancellation is the record of its target, or nothing.\<close>

definition lua_cancel :: "secs \<Rightarrow> string \<Rightarrow> int \<Rightarrow> string \<Rightarrow> string \<Rightarrow> redis_db \<Rightarrow> redis_db \<times> (queue_error + redis_job option)" where
  "lua_cancel now tid rv op fp db =
    (case lua_previous op fp db of
       Inl err \<Rightarrow> (db, Inl err)
     | Inr (Some target) \<Rightarrow> (db, Inr (dict_get (rd_jobs db) target))
     | Inr None \<Rightarrow>
        (case dict_get (rd_jobs db) tid of
           None \<Rightarrow> (db, Inl (QueueConflict ''revision_conflict''))
         | Some m \<Rightarrow>
            (if revision m \<noteq> rv then (db, Inl (QueueConflict ''revision_conflict''))
             else
               (case lua_cancel_record now m db of (m1, db1) \<Rightarrow>
                 (lua_note_command tid op (lua_put_operation now op fp tid db1), Inr (Some m1))))))"

definition lua_child :: "string \<Rightarrow> string \<Rightarrow> int option \<Rightarrow> string \<Rightarrow> redis_job \<Rightarrow> envelope" where
  "lua_child op child_id epoch pl m =
    \<lparr>task_id = child_id, kind = kind m, lane = lane m, user_id = user_id m, privacy_epoch = epoch,
     priority = priority m, delay_seconds = 0, effectful = effectful m, image_work = image_work m,
     parent_task_id = Some (task_id m), retry_grants = 0, conflict_keys = conflict_keys m,
     execution_timeout_seconds = execution_timeout_seconds m, payload = pl, idempotency_key = op, envelope_summary = result_summary m\<rparr>"

definition lua_retry_settle :: "secs \<Rightarrow> string \<Rightarrow> string \<Rightarrow> string \<Rightarrow> redis_job \<Rightarrow> redis_db \<times> queue_admission \<Rightarrow> redis_db \<times> queue_admission" where
  "lua_retry_settle now op fp child_id m res =
    (case res of (db, adm) \<Rightarrow>
      (if adm_state adm \<notin> {ACCEPTED, EXISTING} then (db, adm)
       else if adm_task_id adm \<noteq> Some child_id then
         (lua_note_command (task_id m) op (lua_put_operation now op fp (case adm_task_id adm of Some t \<Rightarrow> t | None \<Rightarrow> []) db), adm)
       else
         (case lua_drop_payload (m\<lparr>retry_grants := 0\<rparr>) db of (m1, db1) \<Rightarrow>
           (lua_note_command (task_id m) op (lua_put_operation now op fp child_id (lua_save m1 db1)), adm))))"

definition lua_retry :: "secs \<Rightarrow> string \<Rightarrow> int \<Rightarrow> int option \<Rightarrow> string \<Rightarrow> string \<Rightarrow> queue_policy \<Rightarrow> string \<Rightarrow> string \<Rightarrow> redis_db \<Rightarrow>
    redis_db \<times> (queue_error + queue_admission)" where
  "lua_retry now tid rv epoch child_id child_identity policy op fp db =
    (case lua_previous op fp db of
       Inl err \<Rightarrow> (db, Inl err)
     | Inr (Some target) \<Rightarrow> (db, Inr (admission EXISTING (Some target) None))
     | Inr None \<Rightarrow>
        (case dict_get (rd_jobs db) tid of
           None \<Rightarrow> (db, Inl (QueueConflict ''revision_conflict''))
         | Some m \<Rightarrow>
            (if revision m \<noteq> rv then (db, Inl (QueueConflict ''revision_conflict''))
             else
               (case dict_get (rd_payloads db) tid of
                  None \<Rightarrow> (db, Inl (QueueConflict ''retry_not_available''))
                | Some (pl, t) \<Rightarrow>
                   (if state m \<notin> {FAILED, EXPIRED} \<or> \<not> retry_eligible m \<or> retry_grants m < 1 \<or> privacy_epoch m \<noteq> epoch
                    then (db, Inl (QueueConflict ''retry_not_available''))
                    else
                      (case lua_retry_settle now op fp child_id m
                              (lua_admission now (lua_child op child_id epoch pl m) policy child_identity fp
                                (if payload_accounted m then payload_bytes m else 0) db) of
                         (db1, adm) \<Rightarrow> (db1, Inr adm)))))))"

section \<open>Erasure, listing, statistics\<close>

definition lua_erase_record :: "redis_job \<Rightarrow> redis_db \<Rightarrow> redis_db" where
  "lua_erase_record m db =
    (let tid = task_id m; nm = lane m;
         db1 = db\<lparr>rd_nonterminal := (if active_state (state m) then (rd_nonterminal db)(nm := rd_nonterminal db nm - 1) else rd_nonterminal db),
                  rd_states := (rd_states db)(nm := (rd_states db nm)(state m := rd_states db nm (state m) - 1))\<rparr>;
         db2 = snd (lua_drop_payload m (lua_release_conflicts m (lua_release_running m db1)))
     in db2\<lparr>rd_terminal := (rd_terminal db2)(nm := (rd_terminal db2 nm)(state m := dict_pop (rd_terminal db2 nm (state m)) tid)),
            rd_malformed := (rd_malformed db2)(nm := dict_pop (rd_malformed db2 nm) tid),
            rd_ready := (rd_ready db2)(nm := dict_pop (rd_ready db2 nm) tid),
            rd_delayed := (rd_delayed db2)(nm := dict_pop (rd_delayed db2 nm) tid),
            rd_idem := dict_pop (rd_idem db2) (identity m), rd_jobs := dict_pop (rd_jobs db2) tid\<rparr>)"

definition lua_erase_one :: "int \<Rightarrow> redis_db \<Rightarrow> string \<Rightarrow> redis_db" where
  "lua_erase_one uid db tid =
    (let db1 = (case dict_get (rd_jobs db) tid of None \<Rightarrow> db | Some m \<Rightarrow> lua_erase_record m db) in
     db1\<lparr>rd_operations := foldl dict_pop (rd_operations db1) (case dict_get (rd_commands db1) tid of Some xs \<Rightarrow> xs | None \<Rightarrow> []),
         rd_idem := foldl dict_pop (rd_idem db1) (members_of (rd_identities db1) tid),
         rd_identities := dict_pop (rd_identities db1) tid, rd_commands := dict_pop (rd_commands db1) tid,
         rd_deadlines := dict_pop (rd_deadlines db1) tid, rd_index := dict_pop (rd_index db1) tid,
         rd_metadata_expiry := dict_pop (rd_metadata_expiry db1) tid, rd_owners := dict_pop (rd_owners db1) tid,
         rd_users := (rd_users db1)(uid := removeAll tid (rd_users db1 uid))\<rparr>)"

text \<open>\<open>SRANDMEMBER\<close> picks up to a hundred different members; the pick is given. The answer is how many are left.\<close>

definition lua_erase :: "int \<Rightarrow> string list \<Rightarrow> redis_db \<Rightarrow> redis_db \<times> nat" where
  "lua_erase uid pick db =
    (let db1 = foldl (lua_erase_one uid) db (filter (\<lambda>tid. tid \<in> set (rd_users db uid)) pick) in (db1, length (rd_users db1 uid)))"

fun lua_list_loop :: "redis_db \<Rightarrow> string option \<Rightarrow> job_state option \<Rightarrow> nat \<Rightarrow> string list \<Rightarrow> nat \<Rightarrow> redis_job list \<Rightarrow> redis_job list \<times> nat" where
  "lua_list_loop db nm st limit [] offset items = (items, offset)"
| "lua_list_loop db nm st limit (tid # tids) offset items =
    (let items1 = (case dict_get (rd_jobs db) tid of
         Some m \<Rightarrow> if (nm = None \<or> nm = Some (lane m)) \<and> (st = None \<or> st = Some (state m)) then items @ [m] else items
       | None \<Rightarrow> items)
     in if length items1 \<ge> limit then (items1, offset + 1) else lua_list_loop db nm st limit tids (offset + 1) items1)"

definition lua_list :: "string option \<Rightarrow> job_state option \<Rightarrow> nat \<Rightarrow> nat \<Rightarrow> redis_db \<Rightarrow> redis_job list \<times> string option" where
  "lua_list nm st offset limit db =
    (case lua_list_loop db nm st limit (take 256 (drop offset (zrange (rd_index db)))) offset [] of
       (items, n) \<Rightarrow> (items, if length (rd_index db) > n then Some (show_nat n) else None))"

definition lua_observed :: "string \<Rightarrow> redis_db \<Rightarrow> redis_job list" where
  "lua_observed nm db =
    filter (\<lambda>m. lane m = nm) (List.map_filter (dict_get (rd_jobs db))
      (take 128 (zrange (rd_ready db nm)) @ take 128 (zrange (rd_delayed db nm)) @ take 128 (zrange (rd_leases db))))"

definition lua_stats :: "secs \<Rightarrow> string \<Rightarrow> redis_db \<Rightarrow> queue_stats" where
  "lua_stats now nm db =
    (let ms = lua_observed nm db in
     \<lparr>st_nonterminal = nat (rd_nonterminal db nm), st_payload_bytes = rd_bytes db nm,
      st_retrying = length (filter (\<lambda>m. state m \<in> {QUEUED, DELAYED} \<and> attempts_started m > 0) ms),
      st_malformed = length (filter (\<lambda>e. now \<le> snd e) (rd_malformed db nm)),
      st_by_state = (\<lambda>st. if active_state st then nat (rd_states db nm st) else length (filter (\<lambda>e. now \<le> snd e) (rd_terminal db nm st))),
      st_oldest_age = foldl (\<lambda>a m. if active_state (state m) then max a (now - submitted_at m) else a) 0 ms,
      st_observed_at = now,
      st_healthy_owners = length (filter (\<lambda>m. held_state (state m) \<and> \<not> lease_over now (job.truncate m)) ms)\<rparr>)"

section \<open>Steps\<close>

datatype redis_event =
  RdAdmit envelope queue_policy string string
  | RdClaim string queue_policy string
  | RdProgress string string int summary
  | RdHeartbeat string string int
  | RdFinish string string int job_outcome "string option" summary secs
  | RdCancel string int string string
  | RdRetry string int "int option" string string queue_policy string string
  | RdSetLane string queue_policy int bool bool string string
  | RdErase int "string list"
  | RdRead

text \<open>\<open>RdRead\<close> stands for the calls that only read after the sweep: read, lookup, load, list, lane and statistics.\<close>

fun redis_command :: "secs \<Rightarrow> redis_event \<Rightarrow> redis_db \<Rightarrow> redis_db" where
  "redis_command now (RdAdmit e policy ident fp) db = fst (lua_admission now e policy ident fp 0 db)"
| "redis_command now (RdClaim nm policy owner) db = fst (lua_claim now nm policy owner db)"
| "redis_command now (RdProgress tid owner rv summ) db = fst (lua_progress tid owner rv summ db)"
| "redis_command now (RdHeartbeat tid owner rv) db = fst (lua_heartbeat now tid owner rv db)"
| "redis_command now (RdFinish tid owner rv out reason summ delay) db = fst (lua_finish now tid owner rv out reason summ delay db)"
| "redis_command now (RdCancel tid rv op fp) db = fst (lua_cancel now tid rv op fp db)"
| "redis_command now (RdRetry tid rv epoch child ident policy op fp) db = fst (lua_retry now tid rv epoch child ident policy op fp db)"
| "redis_command now (RdSetLane nm policy rv ap cp op fp) db = fst (lua_set_lane now nm policy rv ap cp op fp db)"
| "redis_command now (RdErase uid pick) db = fst (lua_erase uid pick db)"
| "redis_command now RdRead db = db"

definition redis_prepared :: "secs \<Rightarrow> redis_db \<Rightarrow> redis_db" where
  "redis_prepared now db = lua_sweep now (expire_keys now db)"

definition redis_step :: "secs \<Rightarrow> redis_event \<Rightarrow> redis_db \<Rightarrow> redis_db" where
  "redis_step now ev db = redis_command now ev (redis_prepared now db)"

end
