(* ===== verification/Redis_Counts.thy ===== *)
theory Redis_Counts
  imports Redis_Script
begin

text \<open>
  The counters the script keeps beside the jobs are exact: each lane counts its active and its held jobs, and at least the bytes
  of the payloads it accounts for. Hence the limits the script checks on the counters are limits on the jobs.
\<close>

section \<open>What a record counts for\<close>

definition counts_active :: "string \<Rightarrow> redis_job \<Rightarrow> int" where
  "counts_active nm m = of_bool (lane m = nm \<and> active_state (state m))"

definition counts_held :: "string \<Rightarrow> redis_job \<Rightarrow> int" where
  "counts_held nm m = of_bool (lane m = nm \<and> held_state (state m))"

definition counts_bytes :: "string \<Rightarrow> redis_job \<Rightarrow> int" where
  "counts_bytes nm m = (if lane m = nm \<and> payload_accounted m then payload_bytes m else 0)"

lemmas count_defs = counts_active_def counts_held_def counts_bytes_def

definition redis_record_ok :: "redis_job \<Rightarrow> bool" where
  "redis_record_ok m \<longleftrightarrow> 0 \<le> payload_bytes m \<and> (active_state (state m) \<longrightarrow> metadata_expires_at m = None)"

definition ready_ok :: "redis_db \<Rightarrow> bool" where
  "ready_ok db \<longleftrightarrow>
    (\<forall>nm tid. dict_has (rd_ready db nm) tid \<longrightarrow> (\<exists>m. dict_get (rd_jobs db) tid = Some m \<and> lane m = nm \<and> active_state (state m)))"

definition keys_ok :: "redis_db \<Rightarrow> bool" where
  "keys_ok db \<longleftrightarrow> dict_ok (rd_jobs db) \<and> (\<forall>tid m. dict_get (rd_jobs db) tid = Some m \<longrightarrow> task_id m = tid \<and> redis_record_ok m)"

definition redis_counters_ok :: "redis_db \<Rightarrow> bool" where
  "redis_counters_ok db \<longleftrightarrow>
    (\<forall>nm. rd_nonterminal db nm = dict_sum (counts_active nm) (rd_jobs db) \<and> rd_held db nm = dict_sum (counts_held nm) (rd_jobs db) \<and>
      rd_bytes db nm \<ge> dict_sum (counts_bytes nm) (rd_jobs db))"

definition redis_ok :: "redis_db \<Rightarrow> bool" where
  "redis_ok db \<longleftrightarrow> keys_ok db \<and> ready_ok db \<and> redis_counters_ok db"

lemma redis_ok_empty: "redis_ok redis_empty"
  by (simp add: redis_ok_def keys_ok_def ready_ok_def redis_counters_ok_def redis_empty_def dict_ok_def dict_has_def)

text \<open>The record \<open>m0\<close> of the database is being changed to \<open>m\<close>, not yet saved; the counters are already those of \<open>m\<close>.\<close>

definition changing :: "redis_job \<Rightarrow> redis_db \<Rightarrow> redis_job \<Rightarrow> redis_db \<Rightarrow> bool" where
  "changing m0 db m db1 \<longleftrightarrow>
    task_id m = task_id m0 \<and> lane m = lane m0 \<and> redis_record_ok m \<and> rd_jobs db1 = rd_jobs db \<and>
    (\<forall>nm. rd_nonterminal db1 nm = rd_nonterminal db nm - counts_active nm m0 + counts_active nm m \<and>
      rd_held db1 nm = rd_held db nm - counts_held nm m0 + counts_held nm m \<and>
      rd_bytes db1 nm = rd_bytes db nm - counts_bytes nm m0 + counts_bytes nm m) \<and>
    (\<forall>nm tid. dict_has (rd_ready db1 nm) tid \<longrightarrow>
      tid = task_id m \<and> nm = lane m \<and> active_state (state m) \<or>
      dict_has (rd_ready db nm) tid \<and> (tid = task_id m \<longrightarrow> nm = lane m \<longrightarrow> active_state (state m)))"

lemma save_ok:
  assumes ok: "redis_ok db" and m0: "dict_get (rd_jobs db) (task_id m0) = Some m0" and ch: "changing m0 db m db1"
  shows "redis_ok (lua_save m db1)"
proof -
  have t: "task_id m = task_id m0" "lane m = lane m0" "redis_record_ok m" "rd_jobs db1 = rd_jobs db"
    and c: "rd_nonterminal db1 nm = rd_nonterminal db nm - counts_active nm m0 + counts_active nm m"
      "rd_held db1 nm = rd_held db nm - counts_held nm m0 + counts_held nm m"
      "rd_bytes db1 nm = rd_bytes db nm - counts_bytes nm m0 + counts_bytes nm m" for nm
    using ch by (simp_all add: changing_def)
  have keys: "keys_ok (lua_save m db1)" using ok t by (auto simp: redis_ok_def keys_ok_def lua_save_def)
  have sum: "dict_sum w (rd_jobs (lua_save m db1)) = dict_sum w (rd_jobs db) - w m0 + w m" for w
    unfolding lua_save_def using dict_sum_set_present [OF m0, of w m] t by simp
  have "redis_counters_ok (lua_save m db1)" unfolding redis_counters_ok_def sum
    using ok c by (simp add: redis_ok_def redis_counters_ok_def lua_save_def)
  moreover have "ready_ok (lua_save m db1)" unfolding ready_ok_def
  proof (intro allI impI)
    fix nm tid
    assume "dict_has (rd_ready (lua_save m db1) nm) tid"
    then have r: "dict_has (rd_ready db1 nm) tid" by (simp add: lua_save_def)
    show "\<exists>x. dict_get (rd_jobs (lua_save m db1)) tid = Some x \<and> lane x = nm \<and> active_state (state x)"
    proof (cases "tid = task_id m")
      case True
      have "nm = lane m \<and> active_state (state m)"
      proof -
        from ch r have "nm = lane m \<and> active_state (state m) \<or> dict_has (rd_ready db nm) tid \<and> (nm = lane m \<longrightarrow> active_state (state m))"
          unfolding changing_def using True by blast
        then show ?thesis
        proof
          assume d: "dict_has (rd_ready db nm) tid \<and> (nm = lane m \<longrightarrow> active_state (state m))"
          then have "lane m0 = nm" using ok m0 True t(1) unfolding redis_ok_def ready_ok_def by fastforce
          with d t(2) show ?thesis by simp
        qed
      qed
      with True show ?thesis by (simp add: lua_save_def)
    next
      case False
      with ch r have "dict_has (rd_ready db nm) tid" unfolding changing_def by blast
      then obtain x where "dict_get (rd_jobs db) tid = Some x" "lane x = nm" "active_state (state x)"
        using ok unfolding redis_ok_def ready_ok_def by blast
      with False t(4) show ?thesis by (simp add: lua_save_def)
    qed
  qed
  ultimately show ?thesis using keys by (simp add: redis_ok_def)
qed


text \<open>A step that touches neither the jobs nor the counters, and at most shortens the ready queues.\<close>

lemma redis_ok_frame:
  assumes "redis_ok db" "rd_jobs db1 = rd_jobs db" "rd_nonterminal db1 = rd_nonterminal db" "rd_held db1 = rd_held db" "rd_bytes db1 = rd_bytes db"
    and "\<And>nm tid. dict_has (rd_ready db1 nm) tid \<Longrightarrow> dict_has (rd_ready db nm) tid"
  shows "redis_ok db1"
  using assms unfolding redis_ok_def keys_ok_def ready_ok_def redis_counters_ok_def by metis

lemma redis_ok_record: "\<lbrakk>redis_ok db; dict_get (rd_jobs db) tid = Some m\<rbrakk> \<Longrightarrow> task_id m = tid \<and> redis_record_ok m"
  by (auto simp: redis_ok_def keys_ok_def)

lemma redis_ok_ready:
  "\<lbrakk>redis_ok db; dict_has (rd_ready db nm) tid\<rbrakk> \<Longrightarrow> \<exists>m. dict_get (rd_jobs db) tid = Some m \<and> lane m = nm \<and> active_state (state m)"
  by (auto simp: redis_ok_def ready_ok_def)

section \<open>Changes of one record\<close>

lemma changing_trans: "\<lbrakk>changing m0 db m db1; changing m db1 m1 db2\<rbrakk> \<Longrightarrow> changing m0 db m1 db2"
  unfolding changing_def by (intro conjI; force)

lemma changing_record:
  assumes "redis_record_ok m0" "task_id m = task_id m0" "lane m = lane m0" "state m = state m0" "payload_accounted m = payload_accounted m0"
    "payload_bytes m = payload_bytes m0" "metadata_expires_at m = metadata_expires_at m0"
    and ready: "active_state (state m0) \<or> (\<forall>nm. \<not> dict_has (rd_ready db nm) (task_id m0))"
  shows "changing m0 db m db"
  using assms unfolding changing_def count_defs redis_record_ok_def by auto

lemma held_counts_active: "held_state st \<Longrightarrow> active_state st"
  by (cases st) (simp_all add: active_state_def held_state_def)

lemma lua_drop_payload_changing:
  assumes "redis_record_ok m" "active_state (state m) \<or> (\<forall>nm. \<not> dict_has (rd_ready db nm) (task_id m))"
  shows "changing m db (fst (lua_drop_payload m db)) (snd (lua_drop_payload m db))"
  using assms unfolding changing_def count_defs redis_record_ok_def lua_drop_payload_def by auto

lemma lua_transition_fields [simp]:
  "fst (lua_transition m st db) = m\<lparr>state := st\<rparr>" "rd_jobs (snd (lua_transition m st db)) = rd_jobs db"
  "rd_nonterminal (snd (lua_transition m st db)) = rd_nonterminal db" "rd_held (snd (lua_transition m st db)) = rd_held db"
  "rd_bytes (snd (lua_transition m st db)) = rd_bytes db" "rd_ready (snd (lua_transition m st db)) = rd_ready db"
  "rd_payloads (snd (lua_transition m st db)) = rd_payloads db" "rd_leases (snd (lua_transition m st db)) = rd_leases db"
  "rd_permit (snd (lua_transition m st db)) = rd_permit db"
  by (simp_all add: lua_transition_def Let_def)

lemma dict_has_pop [simp]: "dict_has (dict_pop d k) j \<longleftrightarrow> j \<noteq> k \<and> dict_has d j"
  by (simp add: dict_has_def)

lemma dict_has_set [simp]: "dict_has (dict_set d k v) j \<longleftrightarrow> j = k \<or> dict_has d j"
  by (simp add: dict_has_def)


lemma lua_release_running_fields [simp]:
  "rd_jobs (lua_release_running m db) = rd_jobs db" "rd_nonterminal (lua_release_running m db) = rd_nonterminal db"
  "rd_bytes (lua_release_running m db) = rd_bytes db" "rd_ready (lua_release_running m db) = rd_ready db"
  "rd_payloads (lua_release_running m db) = rd_payloads db"
  "rd_held (lua_release_running m db) = (\<lambda>nm. rd_held db nm - counts_held nm m)"
  by (auto simp: lua_release_running_def counts_held_def)

lemma lua_release_conflicts_fields [simp]:
  "rd_jobs (lua_release_conflicts m db) = rd_jobs db" "rd_nonterminal (lua_release_conflicts m db) = rd_nonterminal db"
  "rd_bytes (lua_release_conflicts m db) = rd_bytes db" "rd_ready (lua_release_conflicts m db) = rd_ready db"
  "rd_payloads (lua_release_conflicts m db) = rd_payloads db" "rd_held (lua_release_conflicts m db) = rd_held db"
  "rd_leases (lua_release_conflicts m db) = rd_leases db" "rd_permit (lua_release_conflicts m db) = rd_permit db"
  by (simp_all add: lua_release_conflicts_def)

lemma lua_unschedule_fields [simp]:
  "rd_jobs (lua_unschedule m db) = rd_jobs db" "rd_nonterminal (lua_unschedule m db) = rd_nonterminal db"
  "rd_bytes (lua_unschedule m db) = rd_bytes db" "rd_payloads (lua_unschedule m db) = rd_payloads db"
  "rd_held (lua_unschedule m db) = rd_held db" "rd_leases (lua_unschedule m db) = rd_leases db" "rd_permit (lua_unschedule m db) = rd_permit db"
  "rd_ready (lua_unschedule m db) = (rd_ready db)(lane m := dict_pop (rd_ready db (lane m)) (task_id m))"
  by (simp_all add: lua_unschedule_def)

lemma lua_index_terminal_fields [simp]:
  "rd_jobs (lua_index_terminal now r m db) = rd_jobs db" "rd_nonterminal (lua_index_terminal now r m db) = rd_nonterminal db"
  "rd_bytes (lua_index_terminal now r m db) = rd_bytes db" "rd_ready (lua_index_terminal now r m db) = rd_ready db"
  "rd_payloads (lua_index_terminal now r m db) = rd_payloads db" "rd_held (lua_index_terminal now r m db) = rd_held db"
  "rd_leases (lua_index_terminal now r m db) = rd_leases db" "rd_permit (lua_index_terminal now r m db) = rd_permit db"
  by (simp_all add: lua_index_terminal_def)

lemma lua_closing_changing:
  assumes "redis_record_ok m" "active_state (state m)" "\<not> active_state st"
  shows "changing m db (lua_closed now st reason m) (lua_closing st m db)"
proof -
  have "\<not> held_state st" using assms(3) held_counts_active by blast
  with assms show ?thesis
    unfolding changing_def lua_closed_def lua_closing_def redis_record_ok_def by (auto simp: count_defs)
qed

lemma lua_closing_ready [simp]: "rd_ready (lua_closing st m db) = (rd_ready db)(lane m := dict_pop (rd_ready db (lane m)) (task_id m))"
  by (simp add: lua_closing_def)


lemma changing_fields: "changing m0 db m db1 \<Longrightarrow> task_id m = task_id m0 \<and> lane m = lane m0 \<and> redis_record_ok m \<and> rd_jobs db1 = rd_jobs db"
  by (simp add: changing_def)

lemma changing_frame:
  assumes "changing m0 db m db1" "rd_jobs db2 = rd_jobs db1" "rd_nonterminal db2 = rd_nonterminal db1" "rd_held db2 = rd_held db1"
    "rd_bytes db2 = rd_bytes db1" "rd_ready db2 = rd_ready db1"
  shows "changing m0 db m db2"
  using assms(1) unfolding changing_def assms(2-) .

text \<open>Bytes the lane counts for no record. No step gives them back.\<close>

definition redis_leak :: "redis_db \<Rightarrow> string \<Rightarrow> int" where
  "redis_leak db nm = rd_bytes db nm - dict_sum (counts_bytes nm) (rd_jobs db)"

text \<open>A change that only gives back: no counter grows, no record appears or moves to another lane.\<close>

definition relaxes :: "redis_db \<Rightarrow> redis_db \<Rightarrow> bool" where
  "relaxes db db1 \<longleftrightarrow>
    (\<forall>nm. rd_nonterminal db1 nm \<le> rd_nonterminal db nm \<and> rd_held db1 nm \<le> rd_held db nm \<and> rd_bytes db1 nm \<le> rd_bytes db nm \<and>
      redis_leak db nm \<le> redis_leak db1 nm) \<and>
    (\<forall>tid m1. dict_get (rd_jobs db1) tid = Some m1 \<longrightarrow> (\<exists>m. dict_get (rd_jobs db) tid = Some m \<and> lane m = lane m1))"

lemma relaxes_refl: "relaxes db db"
  by (simp add: relaxes_def)

lemma relaxes_trans: "\<lbrakk>relaxes db db1; relaxes db1 db2\<rbrakk> \<Longrightarrow> relaxes db db2"
  unfolding relaxes_def by (intro conjI allI impI; metis order_trans)

lemma relaxes_same:
  assumes "rd_jobs db1 = rd_jobs db" "rd_nonterminal db1 = rd_nonterminal db" "rd_held db1 = rd_held db" "rd_bytes db1 = rd_bytes db"
  shows "relaxes db db1"
  unfolding relaxes_def redis_leak_def assms by simp

definition settles :: "redis_job \<Rightarrow> redis_job \<Rightarrow> bool" where
  "settles m0 m \<longleftrightarrow> (active_state (state m) \<longrightarrow> active_state (state m0)) \<and> (held_state (state m) \<longrightarrow> held_state (state m0)) \<and>
    (payload_accounted m \<longrightarrow> payload_accounted m0) \<and> payload_bytes m = payload_bytes m0"

lemma settles_counts:
  assumes "settles m0 m" "lane m = lane m0" "redis_record_ok m"
  shows "counts_active nm m \<le> counts_active nm m0 \<and> counts_held nm m \<le> counts_held nm m0 \<and> counts_bytes nm m \<le> counts_bytes nm m0"
  using assms by (auto simp: settles_def count_defs redis_record_ok_def)

lemma lua_terminal_shape:
  assumes "redis_record_ok m" "active_state (state m)" "\<not> active_state st"
    and gone: "\<And>nm. nm \<noteq> lane m \<Longrightarrow> \<not> dict_has (rd_ready db nm) (task_id m)"
  obtains m1 db1 where "lua_terminal now st reason safe m db = (m1, lua_save m1 db1)" "changing m db m1 db1" "settles m m1" "state m1 = st"
    "metadata_expires_at m1 = Some (now + METADATA_RETENTION)"
proof -
  define mc where "mc = lua_closed now st reason m"
  define dc where "dc = lua_closing st m db"
  have c: "changing m db mc dc" unfolding mc_def dc_def using lua_closing_changing assms by blast
  have mc: "redis_record_ok mc" "task_id mc = task_id m" "lane mc = lane m" "state mc = st" "metadata_expires_at mc = Some (now + METADATA_RETENTION)"
    using assms(1,3) by (simp_all add: mc_def lua_closed_def redis_record_ok_def)
  have nr: "\<forall>nm. \<not> dict_has (rd_ready dc nm) (task_id mc)" using gone by (auto simp: dc_def mc)
  define r where "r = (if safe \<and> retry_grants mc > 0 \<and> dict_has (rd_payloads dc) (task_id mc) then lua_retained now mc dc else lua_drop_payload mc dc)"
  have rf: "lua_terminal now st reason safe m db = (fst r, lua_save (fst r) (lua_index_terminal now reason (fst r) (snd r)))"
    by (simp add: lua_terminal_def r_def mc_def dc_def Let_def split: prod.split)
  have "changing mc dc (fst (lua_retained now mc dc)) (snd (lua_retained now mc dc))"
    using mc nr unfolding changing_def lua_retained_def count_defs redis_record_ok_def by simp
  moreover have "changing mc dc (fst (lua_drop_payload mc dc)) (snd (lua_drop_payload mc dc))"
    using lua_drop_payload_changing mc nr by blast
  ultimately have "changing mc dc (fst r) (snd r)" by (simp add: r_def)
  then have "changing m db (fst r) (lua_index_terminal now reason (fst r) (snd r))"
    using changing_trans [OF c] by (blast intro: changing_frame lua_index_terminal_fields)
  moreover have "state (fst r) = st" "metadata_expires_at (fst r) = Some (now + METADATA_RETENTION)"
    using mc by (simp_all add: r_def lua_retained_def lua_drop_payload_def)
  moreover have "settles m (fst r)"
    using assms(2,3) held_counts_active [of st] by (auto simp: settles_def r_def mc_def lua_closed_def lua_retained_def lua_drop_payload_def)
  ultimately show ?thesis using rf that by blast
qed

text \<open>A change of one record that is saved: the invariant holds again, and the other records are as they were.\<close>

definition saved :: "redis_db \<Rightarrow> redis_job \<Rightarrow> redis_job \<Rightarrow> redis_db \<Rightarrow> bool" where
  "saved db m0 m db1 \<longleftrightarrow> redis_ok db1 \<and> rd_jobs db1 = dict_set (rd_jobs db) (task_id m0) m \<and> task_id m = task_id m0 \<and> lane m = lane m0 \<and>
    (settles m0 m \<longrightarrow> relaxes db db1)"

lemma saved_leak:
  assumes "dict_get (rd_jobs db) (task_id m0) = Some m0" "changing m0 db m db1"
  shows "redis_leak (lua_save m db1) nm = redis_leak db nm"
proof -
  have "task_id m = task_id m0" "rd_jobs db1 = rd_jobs db" "rd_bytes db1 nm = rd_bytes db nm - counts_bytes nm m0 + counts_bytes nm m"
    using assms(2) by (simp_all add: changing_def)
  then show ?thesis using dict_sum_set_present [OF assms(1), of "counts_bytes nm" m] by (simp add: redis_leak_def lua_save_def)
qed

lemma savedI:
  assumes "redis_ok db" "dict_get (rd_jobs db) (task_id m0) = Some m0" "changing m0 db m db1"
  shows "saved db m0 m (lua_save m db1)"
proof -
  have f: "task_id m = task_id m0" "lane m = lane m0" "redis_record_ok m" "rd_jobs db1 = rd_jobs db" using changing_fields [OF assms(3)] by simp_all
  have "relaxes db (lua_save m db1)" if "settles m0 m"
  proof -
    have "rd_nonterminal db1 nm \<le> rd_nonterminal db nm \<and> rd_held db1 nm \<le> rd_held db nm \<and> rd_bytes db1 nm \<le> rd_bytes db nm" for nm
      using settles_counts [OF that f(2,3), of nm] assms(3) unfolding changing_def by simp
    moreover have "redis_leak (lua_save m db1) nm = redis_leak db nm" for nm
      using saved_leak [OF assms(2,3)] by simp
    ultimately show ?thesis using f assms(2) by (auto simp: relaxes_def) (auto simp: lua_save_def split: if_splits)
  qed
  with save_ok [OF assms] f show ?thesis by (simp add: saved_def lua_save_def)
qed

lemma changing_elsewhere:
  assumes ok: "redis_ok db" and m0: "dict_get (rd_jobs db) (task_id m0) = Some m0" and ch: "changing m0 db m db1"
    and "nm \<noteq> lane m"
  shows "\<not> dict_has (rd_ready db1 nm) (task_id m)"
proof
  assume "dict_has (rd_ready db1 nm) (task_id m)"
  then have "dict_has (rd_ready db nm) (task_id m0)" using ch assms(4) unfolding changing_def by auto
  then have "lane m0 = nm" using redis_ok_ready [OF ok] m0 by fastforce
  with assms(4) changing_fields [OF ch] show False by simp
qed

lemma lua_terminal_saved:
  assumes ok: "redis_ok db" and m0: "dict_get (rd_jobs db) (task_id m0) = Some m0" and ch: "changing m0 db m db1"
    and st: "active_state (state m)" "\<not> active_state st" and le: "settles m0 m"
  shows "saved db m0 (fst (lua_terminal now st reason safe m db1)) (snd (lua_terminal now st reason safe m db1)) \<and>
    settles m0 (fst (lua_terminal now st reason safe m db1))"
proof -
  have rec: "redis_record_ok m" using changing_fields [OF ch] by simp
  obtain m1 db2 where t: "lua_terminal now st reason safe m db1 = (m1, lua_save m1 db2)" and c: "changing m db1 m1 db2" and s: "settles m m1"
    using lua_terminal_shape [OF rec st changing_elsewhere [OF ok m0 ch]] by metis
  have "settles m0 m1" using le s by (auto simp: settles_def)
  then show ?thesis unfolding t using savedI [OF ok m0 changing_trans [OF ch c]] by simp
qed


lemma changing_self:
  assumes "redis_ok db" "dict_get (rd_jobs db) tid = Some m"
  shows "changing m db m db"
proof -
  have "active_state (state m) \<or> (\<forall>nm. \<not> dict_has (rd_ready db nm) (task_id m))"
    using redis_ok_ready [OF assms(1)] redis_ok_record [OF assms] assms(2) by fastforce
  then show ?thesis using changing_record redis_ok_record [OF assms] by blast
qed

lemma changing_quiet:
  assumes "redis_ok db" "dict_get (rd_jobs db) tid = Some m"
    and "task_id m1 = task_id m" "lane m1 = lane m" "state m1 = state m" "payload_accounted m1 = payload_accounted m"
    "payload_bytes m1 = payload_bytes m" "metadata_expires_at m1 = metadata_expires_at m"
  shows "changing m db m1 db"
  using changing_self [OF assms(1,2)] assms(3-) unfolding changing_def count_defs redis_record_ok_def by simp

lemma drop_payload_changing:
  assumes "redis_ok db" "dict_get (rd_jobs db) tid = Some m"
  shows "changing m db (fst (lua_drop_payload m db)) (snd (lua_drop_payload m db))"
proof -
  have "active_state (state m) \<or> (\<forall>nm. \<not> dict_has (rd_ready db nm) (task_id m))"
    using redis_ok_ready [OF assms(1)] redis_ok_record [OF assms] assms(2) by fastforce
  then show ?thesis using lua_drop_payload_changing redis_ok_record [OF assms] by blast
qed

lemma drop_payload_state [simp]:
  "state (fst (lua_drop_payload m db)) = state m" "task_id (fst (lua_drop_payload m db)) = task_id m"
  "lane (fst (lua_drop_payload m db)) = lane m"
  by (simp_all add: lua_drop_payload_def)

text \<open>A record goes back to waiting, in its ready queue or among the delayed.\<close>

lemma changing_waiting:
  assumes "redis_record_ok m" "active_state (state m)" "\<not> held_state st" "active_state st"
    and "task_id m1 = task_id m" "lane m1 = lane m" "state m1 = st" "payload_accounted m1 = payload_accounted m"
    "payload_bytes m1 = payload_bytes m" "metadata_expires_at m1 = metadata_expires_at m"
    and "rd_jobs db1 = rd_jobs db" "rd_nonterminal db1 = rd_nonterminal db" "rd_bytes db1 = rd_bytes db"
    "rd_held db1 = (\<lambda>nm. rd_held db nm - counts_held nm m)"
    and "rd_ready db1 = rd_ready db \<or> rd_ready db1 = rd_ready (lua_ready m1 db)"
  shows "changing m db m1 db1"
  using assms unfolding changing_def redis_record_ok_def by (auto simp: count_defs lua_ready_def split: if_splits)


section \<open>The sweep\<close>

definition redis_kept :: "redis_db \<Rightarrow> redis_db \<Rightarrow> bool" where
  "redis_kept db db1 \<longleftrightarrow> redis_ok db1 \<and> relaxes db db1"

lemma saved_kept: "\<lbrakk>saved db m0 m db1; settles m0 m\<rbrakk> \<Longrightarrow> redis_kept db db1"
  by (simp add: saved_def redis_kept_def)

lemma redis_kept_frame:
  assumes "redis_ok db" "rd_jobs db1 = rd_jobs db" "rd_nonterminal db1 = rd_nonterminal db" "rd_held db1 = rd_held db" "rd_bytes db1 = rd_bytes db"
    and "\<And>nm tid. dict_has (rd_ready db1 nm) tid \<Longrightarrow> dict_has (rd_ready db nm) tid"
  shows "redis_kept db db1"
  unfolding redis_kept_def using redis_ok_frame [OF assms] relaxes_same [OF assms(2-5)] by simp

lemma redis_kept_trans: "\<lbrakk>redis_kept db db1; redis_kept db1 db2\<rbrakk> \<Longrightarrow> redis_kept db db2"
  unfolding redis_kept_def using relaxes_trans by blast

lemma job_states_closed [simp]:
  "\<not> active_state SUCCEEDED" "\<not> active_state FAILED" "\<not> active_state CANCELLED" "\<not> active_state EXPIRED" "\<not> active_state UNKNOWN_DELIVERY"
  by (simp_all add: active_state_def)

lemma settles_drop_payload: "settles m (fst (lua_drop_payload m db))"
  by (simp add: settles_def lua_drop_payload_def)

lemma sweep_payload_kept:
  assumes ok: "redis_ok db"
  shows "redis_kept db (lua_sweep_payload now db tid)"
proof (cases "dict_get (rd_jobs db) tid")
  case None
  with ok show ?thesis by (auto simp: lua_sweep_payload_def intro: redis_kept_frame)
next
  case (Some m)
  have t: "dict_get (rd_jobs db) (task_id m) = Some m" using redis_ok_record [OF ok Some] Some by simp
  note c = drop_payload_changing [OF ok Some] and d = settles_drop_payload [of m db]
  have "redis_kept db (snd (lua_terminal now st reason safe (fst (lua_drop_payload m db)) (snd (lua_drop_payload m db))))"
    if "active_state (state m)" "\<not> active_state st" for st reason safe
    using lua_terminal_saved [OF ok t c _ that(2) d] that(1) saved_kept by simp blast
  moreover have "redis_kept db (lua_save (fst (lua_drop_payload m db)) (snd (lua_drop_payload m db)))"
    using savedI [OF ok t c] d saved_kept by blast
  ultimately show ?thesis using Some by (simp add: lua_sweep_payload_def case_prod_beta)
qed

lemma terminal_saved:
  assumes ok: "redis_ok db" and m: "dict_get (rd_jobs db) tid = Some m" and st: "active_state (state m)" "\<not> active_state st"
  shows "saved db m (fst (lua_terminal now st reason safe m db)) (snd (lua_terminal now st reason safe m db)) \<and>
    settles m (fst (lua_terminal now st reason safe m db))"
  using lua_terminal_saved [OF ok _ changing_self [OF ok m] st] redis_ok_record [OF ok m] m by (simp add: settles_def)

lemma terminal_kept:
  assumes "redis_ok db" "dict_get (rd_jobs db) tid = Some m" "active_state (state m)" "\<not> active_state st"
  shows "redis_kept db (snd (lua_terminal now st reason safe m db))"
  using terminal_saved [OF assms] saved_kept by blast

lemma sweep_deadline_kept:
  assumes ok: "redis_ok db"
  shows "redis_kept db (lua_sweep_deadline now db tid)"
proof -
  have "redis_kept db (db\<lparr>rd_deadlines := dict_pop (rd_deadlines db) tid\<rparr>)" using ok by (auto intro: redis_kept_frame)
  with terminal_kept [OF ok] show ?thesis by (auto simp: lua_sweep_deadline_def split: option.split)
qed

lemma requeue_kept:
  assumes ok: "redis_ok db" and m: "dict_get (rd_jobs db) tid = Some m" and st: "held_state (state m)"
  shows "redis_kept db (lua_requeue m db)"
proof -
  have t: "dict_get (rd_jobs db) (task_id m) = Some m" and r: "redis_record_ok m" using redis_ok_record [OF ok m] m by simp_all
  define m1 where "m1 = m\<lparr>state := QUEUED, owner_token := None, revision := revision m + 1, deadline_at := queue_deadline_at m\<rparr>"
  define db1 where "db1 = (let d = snd (lua_transition m QUEUED (lua_release_running m db)) in
    lua_ready m1 (d\<lparr>rd_deadlines := dict_set (rd_deadlines d) (task_id m1) (deadline_at m1)\<rparr>))"
  have "lua_requeue m db = lua_save m1 db1"
    by (simp add: lua_requeue_def m1_def db1_def Let_def lua_transition_def)
  moreover have "changing m db m1 db1"
    by (rule changing_waiting [OF r held_counts_active [OF st], of QUEUED])
      (simp_all add: m1_def db1_def Let_def lua_ready_def active_state_def held_state_def)
  moreover have "settles m m1" using held_counts_active [OF st] by (simp add: settles_def m1_def held_state_def)
  ultimately show ?thesis using savedI [OF ok t] saved_kept by metis
qed

lemma sweep_lease_kept:
  assumes ok: "redis_ok db"
  shows "redis_kept db (lua_sweep_lease now db tid)"
proof -
  have "redis_kept db (db\<lparr>rd_leases := dict_pop (rd_leases db) tid\<rparr>)" using ok by (auto intro: redis_kept_frame)
  with terminal_kept [OF ok _ held_counts_active] requeue_kept [OF ok]
  show ?thesis by (auto simp: lua_sweep_lease_def split: option.split)
qed

lemma sweep_delayed_kept:
  assumes ok: "redis_ok db"
  shows "redis_kept db (lua_sweep_delayed nm db tid)"
proof -
  define db0 where "db0 = db\<lparr>rd_delayed := (rd_delayed db)(nm := dict_pop (rd_delayed db nm) tid)\<rparr>"
  have k0: "redis_kept db db0" unfolding db0_def using ok by (auto intro: redis_kept_frame)
  then have ok0: "redis_ok db0" by (simp add: redis_kept_def)
  show ?thesis
  proof (cases "\<exists>m. dict_get (rd_jobs db0) tid = Some m \<and> state m = DELAYED")
    case True
    then obtain m where m: "dict_get (rd_jobs db0) tid = Some m" "state m = DELAYED" by blast
    have t: "dict_get (rd_jobs db0) (task_id m) = Some m" and r: "redis_record_ok m" using redis_ok_record [OF ok0 m(1)] m by simp_all
    define m1 where "m1 = m\<lparr>state := QUEUED, revision := revision m + 1\<rparr>"
    have "lua_sweep_delayed nm db tid = lua_save m1 (lua_ready m1 (snd (lua_transition m QUEUED db0)))"
      using m by (simp add: lua_sweep_delayed_def m1_def Let_def lua_transition_def db0_def [symmetric])
    moreover have "changing m db0 m1 (lua_ready m1 (snd (lua_transition m QUEUED db0)))"
      by (rule changing_waiting [OF r, of QUEUED])
        (simp_all add: m m1_def lua_ready_def active_state_def held_state_def counts_held_def)
    moreover have "settles m m1" using m by (simp add: settles_def m1_def held_state_def active_state_def)
    ultimately show ?thesis using savedI [OF ok0 t] saved_kept redis_kept_trans [OF k0] by metis
  next
    case False
    then have "lua_sweep_delayed nm db tid = db0"
      by (auto simp: lua_sweep_delayed_def Let_def db0_def [symmetric] split: option.split)
    with k0 show ?thesis by simp
  qed
qed

lemma forget_kept: "redis_ok db \<Longrightarrow> redis_kept db (lua_forget db tid)"
  by (rule redis_kept_frame [of db]) (simp_all add: lua_forget_def Let_def case_prod_beta split: option.splits)

lemmas keptD = redis_kept_def [THEN iffD1, THEN conjunct1] redis_kept_def [THEN iffD1, THEN conjunct2]

interpretation sweep_payloads: progress_run "lua_sweep_payload now" redis_ok relaxes for now
  by unfold_locales (blast intro: relaxes_refl relaxes_trans keptD sweep_payload_kept)+

interpretation sweep_deadlines: progress_run "lua_sweep_deadline now" redis_ok relaxes for now
  by unfold_locales (blast intro: relaxes_refl relaxes_trans keptD sweep_deadline_kept)+

interpretation sweep_leases: progress_run "lua_sweep_lease now" redis_ok relaxes for now
  by unfold_locales (blast intro: relaxes_refl relaxes_trans keptD sweep_lease_kept)+

interpretation sweep_delayed: progress_run "lua_sweep_delayed nm" redis_ok relaxes for nm
  by unfold_locales (blast intro: relaxes_refl relaxes_trans keptD sweep_delayed_kept)+

lemma sweep_lane_kept: "redis_ok db \<Longrightarrow> redis_kept db (lua_sweep_lane now db nm)"
  by (simp add: redis_kept_def lua_sweep_lane_def sweep_delayed.run_invar sweep_delayed.run_rel)

interpretation sweep_lanes: progress_run "lua_sweep_lane now" redis_ok relaxes for now
  by unfold_locales (blast intro: relaxes_refl relaxes_trans keptD sweep_lane_kept)+

interpretation sweep_records: progress_run lua_forget redis_ok relaxes
  by unfold_locales (blast intro: relaxes_refl relaxes_trans keptD forget_kept)+

lemma sweep_kept:
  assumes "redis_ok db"
  shows "redis_kept db (lua_sweep now db)"
proof -
  let ?db1 = "foldl (lua_sweep_payload now) db (zdue now 256 (rd_payload_expiry db))"
  let ?db2 = "foldl (lua_sweep_deadline now) ?db1 (zdue now 256 (rd_deadlines ?db1))"
  let ?db3 = "foldl (lua_sweep_lease now) ?db2 (zdue now 256 (rd_leases ?db2))"
  let ?db4 = "foldl (lua_sweep_lane now) ?db3 (dict_keys LANE_WORKERS)"
  have 1: "redis_kept db ?db1" using assms sweep_payloads.run_invar sweep_payloads.run_rel by (simp add: redis_kept_def)
  then have 2: "redis_kept db ?db2"
    using redis_kept_trans sweep_deadlines.run_invar sweep_deadlines.run_rel unfolding redis_kept_def by blast
  then have 3: "redis_kept db ?db3"
    using redis_kept_trans sweep_leases.run_invar sweep_leases.run_rel unfolding redis_kept_def by blast
  then have 4: "redis_kept db ?db4"
    using redis_kept_trans sweep_lanes.run_invar sweep_lanes.run_rel unfolding redis_kept_def by blast
  then show ?thesis
    using redis_kept_trans sweep_records.run_invar sweep_records.run_rel unfolding redis_kept_def lua_sweep_def Let_def by blast
qed


section \<open>Expiry\<close>

lemma dict_sum_filter:
  assumes "\<And>e. e \<in> set d \<Longrightarrow> \<not> P e \<Longrightarrow> 0 \<le> w (snd e)"
  shows "dict_sum w (filter P d) \<le> dict_sum w d"
  using assms by (induction d) (force simp: dict_sum_def)+

lemma dict_sum_filter_same:
  assumes "\<And>e. e \<in> set d \<Longrightarrow> \<not> P e \<Longrightarrow> w (snd e) = 0"
  shows "dict_sum w (filter P d) = dict_sum w d"
  using assms by (induction d) (force simp: dict_sum_def)+

definition unexpired :: "secs \<Rightarrow> string \<times> redis_job \<Rightarrow> bool" where
  "unexpired now e \<longleftrightarrow> (case metadata_expires_at (snd e) of None \<Rightarrow> True | Some t \<Rightarrow> now \<le> millis_up t)"

lemma expire_keys_fields [simp]:
  "rd_jobs (expire_keys now db) = filter (unexpired now) (rd_jobs db)" "rd_nonterminal (expire_keys now db) = rd_nonterminal db"
  "rd_held (expire_keys now db) = rd_held db" "rd_bytes (expire_keys now db) = rd_bytes db" "rd_ready (expire_keys now db) = rd_ready db"
  "rd_leases (expire_keys now db) = rd_leases db"
  by (simp_all add: expire_keys_def unexpired_def [abs_def])

lemma expired_record:
  assumes "redis_ok db" "e \<in> set (rd_jobs db)" "\<not> unexpired now e"
  shows "\<not> active_state (state (snd e)) \<and> 0 \<le> payload_bytes (snd e)"
proof -
  have "dict_get (rd_jobs db) (fst e) = Some (snd e)"
    using assms(1,2) dict_ok_in_iff [of "rd_jobs db" "fst e" "snd e"] by (simp add: redis_ok_def keys_ok_def)
  then have "redis_record_ok (snd e)" using redis_ok_record [OF assms(1)] by blast
  with assms(3) show ?thesis by (auto simp: redis_record_ok_def unexpired_def split: option.splits)
qed

lemma expire_keys_get:
  assumes "redis_ok db"
  shows "dict_get (rd_jobs (expire_keys now db)) tid = (case dict_get (rd_jobs db) tid of Some m \<Rightarrow> if unexpired now (tid, m) then Some m else None | None \<Rightarrow> None)"
  using assms dict_get_filter [of "rd_jobs db" "unexpired now" tid] by (simp add: redis_ok_def keys_ok_def)

lemma expire_kept:
  assumes ok: "redis_ok db"
  shows "redis_kept db (expire_keys now db)"
proof -
  note get = expire_keys_get [OF ok, of now]
  have none_left: "counts_active nm (snd e) = 0 \<and> counts_held nm (snd e) = 0 \<and> 0 \<le> counts_bytes nm (snd e)"
    if "e \<in> set (rd_jobs db)" "\<not> unexpired now e" for nm e
    using expired_record [OF ok that] held_counts_active by (auto simp: count_defs)
  then have "redis_counters_ok (expire_keys now db)" using ok none_left
    unfolding redis_counters_ok_def redis_ok_def by (simp add: dict_sum_filter_same) (meson dict_sum_filter order_trans)
  moreover have "keys_ok (expire_keys now db)" unfolding keys_ok_def get using ok
    by (auto simp: redis_ok_def keys_ok_def split: option.splits if_splits)
  moreover have "ready_ok (expire_keys now db)" unfolding ready_ok_def
  proof (intro allI impI)
    fix nm tid assume "dict_has (rd_ready (expire_keys now db) nm) tid"
    then obtain m where m: "dict_get (rd_jobs db) tid = Some m" "lane m = nm" "active_state (state m)"
      using redis_ok_ready [OF ok] by auto
    then have "unexpired now (tid, m)" using redis_ok_record [OF ok m(1)] by (simp add: redis_record_ok_def unexpired_def)
    with m get show "\<exists>m. dict_get (rd_jobs (expire_keys now db)) tid = Some m \<and> lane m = nm \<and> active_state (state m)" by simp
  qed
  moreover have "redis_leak db nm \<le> redis_leak (expire_keys now db) nm" for nm
    using dict_sum_filter [of "rd_jobs db" "unexpired now" "counts_bytes nm"] none_left by (simp add: redis_leak_def)
  then have "relaxes db (expire_keys now db)" unfolding relaxes_def get by (auto split: option.splits if_splits)
  ultimately show ?thesis by (simp add: redis_kept_def redis_ok_def)
qed

lemma prepared_kept: "redis_ok db \<Longrightarrow> redis_kept db (redis_prepared now db)"
  unfolding redis_prepared_def using expire_kept sweep_kept redis_kept_trans keptD by blast

end
