(* ===== verification/Redis_Bounds.thy ===== *)
theory Redis_Bounds
  imports Redis_Counts
begin

text \<open>
  Every command of the script keeps the counters exact and within the limits of the lane, for the jobs of every database the script
  can reach. Task identifiers of new jobs are fresh, as the identifiers the client draws are.
\<close>

section \<open>Claims\<close>

text \<open>A claim may raise the held counter of its own lane by one, and nothing else.\<close>

definition claims :: "string \<Rightarrow> redis_db \<Rightarrow> redis_db \<Rightarrow> bool" where
  "claims nm db db1 \<longleftrightarrow> redis_ok db1 \<and>
    (\<forall>ln. rd_nonterminal db1 ln \<le> rd_nonterminal db ln \<and> rd_bytes db1 ln \<le> rd_bytes db ln \<and> rd_held db1 ln \<le> rd_held db ln + of_bool (ln = nm) \<and>
      redis_leak db ln \<le> redis_leak db1 ln)"

lemma kept_claims: "redis_kept db db1 \<Longrightarrow> claims nm db db1"
  unfolding redis_kept_def relaxes_def claims_def by (auto simp: add_increasing2)

lemma kept_claims_trans: "\<lbrakk>redis_kept db db1; claims nm db1 db2\<rbrakk> \<Longrightarrow> claims nm db db2"
  unfolding redis_kept_def relaxes_def claims_def by (metis (no_types, lifting) add_right_mono order_trans)

lemma lua_start_claims:
  assumes ok: "redis_ok db" and m: "dict_get (rd_jobs db) tid = Some m" "state m = QUEUED" "lane m = nm"
  shows "claims nm db (snd (lua_start now nm owner m db))"
proof -
  have t: "dict_get (rd_jobs db) (task_id m) = Some m" and r: "redis_record_ok m" using redis_ok_record [OF ok m(1)] m by simp_all
  define m1 where "m1 = fst (lua_start now nm owner m db)"
  obtain db1 where s: "lua_start now nm owner m db = (m1, lua_save m1 db1)"
    and f: "rd_jobs db1 = rd_jobs db" "rd_nonterminal db1 = rd_nonterminal db" "rd_bytes db1 = rd_bytes db"
      "rd_held db1 = (rd_held db)(nm := rd_held db nm + 1)" "rd_ready db1 = (rd_ready db)(nm := dict_pop (rd_ready db nm) (task_id m))"
    by (cases "lane m = ''daily'' \<and> user_id m = 0") (auto simp: m1_def lua_start_def Let_def case_prod_beta)
  have g: "task_id m1 = task_id m" "lane m1 = lane m" "state m1 = RUNNING" "payload_accounted m1 = payload_accounted m"
    "payload_bytes m1 = payload_bytes m" "metadata_expires_at m1 = metadata_expires_at m"
    by (simp_all add: m1_def lua_start_def Let_def case_prod_beta)
  have ch: "changing m db m1 db1" unfolding changing_def
    using r m f g by (auto simp: redis_record_ok_def count_defs active_state_def held_state_def)
  have "redis_ok (lua_save m1 db1)" by (rule save_ok [OF ok t ch])
  then show ?thesis using f saved_leak [OF t ch] by (simp add: claims_def s) (simp add: lua_save_def)
qed

lemma claim_loop_claims:
  assumes "redis_ok db" "\<And>tid m. \<lbrakk>tid \<in> set tids; dict_get (rd_jobs db) tid = Some m\<rbrakk> \<Longrightarrow> lane m = nm"
  shows "claims nm db (fst (lua_claim_loop now nm owner tids db))"
  using assms
proof (induction tids arbitrary: db)
  case Nil
  then show ?case by (simp add: claims_def)
next
  case (Cons tid tids)
  have next_one: "claims nm db (fst (lua_claim_loop now nm owner tids db1))" if "redis_kept db db1" for db1
  proof -
    have "lane m = nm" if "t \<in> set tids" "dict_get (rd_jobs db1) t = Some m" for t m
      using \<open>redis_kept db db1\<close> that Cons.prems(2) [of t] unfolding redis_kept_def relaxes_def by fastforce
    then show ?thesis using Cons.IH that kept_claims_trans unfolding redis_kept_def by blast
  qed
  have popped: "redis_kept db (db\<lparr>rd_ready := (rd_ready db)(nm := dict_pop (rd_ready db nm) tid)\<rparr>)"
    using Cons.prems(1) by (auto intro: redis_kept_frame split: if_splits)
  show ?case
  proof (cases "dict_get (rd_jobs db) tid")
    case None
    with next_one [OF popped] show ?thesis by simp
  next
    case (Some m)
    have l: "lane m = nm" using Cons.prems(2) [of tid m] Some by simp
    have self: "redis_kept db db" using Cons.prems(1) relaxes_refl by (simp add: redis_kept_def)
    have "redis_kept db (snd (lua_terminal now st reason safe m db))" if "state m = QUEUED" "\<not> active_state st" for st reason safe
      using terminal_kept [OF Cons.prems(1) Some _ that(2)] that(1) by (simp add: active_state_def)
    then show ?thesis
      using next_one [OF popped] next_one [OF self] next_one lua_start_claims [OF Cons.prems(1) Some _ l] Some
      by (simp add: case_prod_beta)
  qed
qed

lemma lua_claim_claims:
  assumes ok: "redis_ok db"
  shows "lua_claim now nm policy owner db = (db, None) \<or>
    (\<exists>w. dict_get LANE_WORKERS nm = Some w \<and> rd_held db nm < w \<and> claims nm db (fst (lua_claim now nm policy owner db)))"
proof -
  have l: "lane m = nm" if "tid \<in> set (take 128 (zrange (rd_ready db nm)))" "dict_get (rd_jobs db) tid = Some m" for tid m
  proof -
    have "tid \<in> fst ` set (rd_ready db nm)" using that(1) by (auto simp: zrange_def dest!: in_set_takeD)
    then have "dict_has (rd_ready db nm) tid" using set_dict_keys_iff [of tid "rd_ready db nm"] by (simp add: dict_has_def dict_keys_def)
    then show ?thesis using redis_ok_ready [OF ok] that(2) by fastforce
  qed
  have "claims nm db (fst (lua_claim_loop now nm owner (take 128 (zrange (rd_ready db nm))) db))"
    by (intro claim_loop_claims ok) (rule l)
  then show ?thesis by (auto simp: lua_claim_def not_le split: option.splits)
qed


section \<open>The owner's calls and cancellations\<close>

lemma changing_cong:
  assumes "changing m0 db m db1"
    and q: "task_id m1 = task_id m" "lane m1 = lane m" "state m1 = state m" "payload_accounted m1 = payload_accounted m"
      "payload_bytes m1 = payload_bytes m" "metadata_expires_at m1 = metadata_expires_at m"
  shows "changing m0 db m1 db1"
  using assms(1) unfolding changing_def count_defs redis_record_ok_def q .

lemma quiet_kept:
  assumes ok: "redis_ok db" and m: "dict_get (rd_jobs db) tid = Some m"
    and q: "task_id m1 = task_id m" "lane m1 = lane m" "state m1 = state m" "payload_accounted m1 = payload_accounted m"
      "payload_bytes m1 = payload_bytes m" "metadata_expires_at m1 = metadata_expires_at m"
    and f: "rd_jobs db1 = rd_jobs db" "rd_nonterminal db1 = rd_nonterminal db" "rd_held db1 = rd_held db" "rd_bytes db1 = rd_bytes db"
      "rd_ready db1 = rd_ready db"
  shows "redis_kept db (lua_save m1 db1)"
proof -
  have t: "dict_get (rd_jobs db) (task_id m) = Some m" using redis_ok_record [OF ok m] m by simp
  have "changing m db m1 db1" using changing_frame [OF changing_quiet [OF ok m q] f] .
  moreover have "settles m m1" using q by (simp add: settles_def)
  ultimately show ?thesis using savedI [OF ok t] saved_kept by blast
qed

lemma kept_self: "redis_ok db \<Longrightarrow> redis_kept db db"
  by (simp add: redis_kept_def relaxes_refl)

lemma progress_kept: "redis_ok db \<Longrightarrow> redis_kept db (fst (lua_progress tid owner rv summ db))"
  by (auto simp: lua_progress_def Let_def kept_self intro!: quiet_kept split: option.split)

lemma heartbeat_kept: "redis_ok db \<Longrightarrow> redis_kept db (fst (lua_heartbeat now tid owner rv db))"
  by (auto simp: lua_heartbeat_def Let_def kept_self intro!: quiet_kept split: option.split)

lemma retry_later_changing:
  assumes "redis_record_ok m" "held_state (state m)"
  shows "changing m db (fst (lua_retry_later now delay reason m db)) (snd (lua_retry_later now delay reason m db))"
  by (rule changing_waiting [OF assms(1) held_counts_active [OF assms(2)], of "if delay > 0 then DELAYED else QUEUED"])
    (simp_all add: lua_retry_later_def case_prod_beta Let_def lua_ready_def active_state_def held_state_def)

lemma settles_trans: "\<lbrakk>settles m0 m; settles m m1\<rbrakk> \<Longrightarrow> settles m0 m1"
  by (simp add: settles_def)

lemma settles_retry_later: "held_state (state m) \<Longrightarrow> settles m (fst (lua_retry_later now delay reason m db))"
  using held_counts_active by (simp add: settles_def lua_retry_later_def case_prod_beta Let_def held_state_def)

text \<open>The settlement of an attempt leaves the database with its record saved, or to be saved, in its new form.\<close>

lemma lua_settle_cases:
  "lua_settle now delay out reason m db = lua_retry_later now delay reason m db \<or>
    (\<exists>s rs safe. \<not> active_state s \<and> lua_settle now delay out reason m db = lua_terminal now s rs safe m db)"
proof -
  define P where "P r \<longleftrightarrow> r = lua_retry_later now delay reason m db \<or> (\<exists>s rs safe. \<not> active_state s \<and> r = lua_terminal now s rs safe m db)" for r
  have "\<not> active_state (outcome_state out)" by (cases out) (simp_all add: outcome_state_def)
  moreover have "P (lua_terminal now st rs safe m db)" if "\<not> active_state st" for st rs safe using that unfolding P_def by blast
  moreover have "P (lua_retry_later now delay reason m db)" by (simp add: P_def)
  ultimately have "P (lua_settle now delay out reason m db)" by (simp add: lua_settle_def)
  then show ?thesis unfolding P_def .
qed

lemma lua_settle_saved:
  assumes ok: "redis_ok db" and m0: "dict_get (rd_jobs db) (task_id m0) = Some m0" and ch: "changing m0 db m db" and le: "settles m0 m"
    and st: "held_state (state m)"
  shows "\<exists>m1 db1. lua_settle now delay out reason m db = (m1, db1) \<and> settles m0 m1 \<and> (saved db m0 m1 db1 \<or> changing m0 db m1 db1)"
proof -
  let ?r = "lua_settle now delay out reason m db"
  have "settles m0 (fst ?r) \<and> (saved db m0 (fst ?r) (snd ?r) \<or> changing m0 db (fst ?r) (snd ?r))"
    using lua_settle_cases [of now delay out reason m db]
  proof
    assume r: "?r = lua_retry_later now delay reason m db"
    have "redis_record_ok m" using changing_fields [OF ch] by simp
    then show ?thesis unfolding r
      using changing_trans [OF ch retry_later_changing] settles_trans [OF le settles_retry_later] st by blast
  next
    assume "\<exists>s rs safe. \<not> active_state s \<and> ?r = lua_terminal now s rs safe m db"
    then obtain s rs safe where s: "\<not> active_state s" "?r = lua_terminal now s rs safe m db" by blast
    show ?thesis unfolding s(2) using lua_terminal_saved [OF ok m0 ch held_counts_active [OF st] s(1) le, of now rs safe] by blast
  qed
  then show ?thesis by (metis prod.collapse)
qed

lemma finish_kept:
  assumes ok: "redis_ok db"
  shows "redis_kept db (fst (lua_finish now tid owner rv out reason summ delay db))"
proof (cases "\<exists>m. dict_get (rd_jobs db) tid = Some m \<and> finish_token m \<noteq> Some owner \<and> lua_owned owner rv m")
  case False
  with kept_self [OF ok] show ?thesis by (auto simp: lua_finish_def split: option.split)
next
  case True
  then obtain m where m: "dict_get (rd_jobs db) tid = Some m" "finish_token m \<noteq> Some owner" "lua_owned owner rv m" by blast
  define m0 where "m0 = m\<lparr>result_summary := summary_merge (result_summary m) summ\<rparr>"
  have t: "dict_get (rd_jobs db) (task_id m) = Some m" using redis_ok_record [OF ok m(1)] m by simp
  have ch: "changing m db m0 db" by (rule changing_quiet [OF ok m(1)]) (simp_all add: m0_def)
  have le: "settles m m0" and st: "held_state (state m0)" using m(3) by (simp_all add: settles_def m0_def lua_owned_def)
  obtain m1 db1 where r: "lua_settle now delay out reason m0 db = (m1, db1)" "settles m m1" "saved db m m1 db1 \<or> changing m db m1 db1"
    using lua_settle_saved [OF ok t ch le st] by blast
  define m2 where "m2 = m1\<lparr>finish_token := Some owner\<rparr>"
  have "redis_kept db (lua_save m2 db1)" using r(3)
  proof
    assume s: "saved db m m1 db1"
    then have ok1: "redis_ok db1" and g: "dict_get (rd_jobs db1) (task_id m) = Some m1" by (simp_all add: saved_def)
    have "redis_kept db1 (lua_save m2 db1)" by (rule quiet_kept [OF ok1 g]) (simp_all add: m2_def)
    then show ?thesis using redis_kept_trans saved_kept [OF s r(2)] by blast
  next
    assume c: "changing m db m1 db1"
    have "changing m db m2 db1" by (rule changing_cong [OF c]) (simp_all add: m2_def)
    moreover have "settles m m2" using r(2) by (simp add: settles_def m2_def)
    ultimately show ?thesis using savedI [OF ok t] saved_kept by blast
  qed
  then show ?thesis using m r(1) by (simp add: lua_finish_def m0_def m2_def Let_def)
qed

lemma cancel_record_kept:
  assumes ok: "redis_ok db" and m: "dict_get (rd_jobs db) tid = Some m"
  shows "redis_kept db (snd (lua_cancel_record now m db))"
proof (cases "held_state (state m)")
  case True
  define m1 where "m1 = m\<lparr>state := CANCEL_REQUESTED, revision := revision m + 1, reason_code := Some ''cancel_requested''\<rparr>"
  have t: "dict_get (rd_jobs db) (task_id m) = Some m" using redis_ok_record [OF ok m] m by simp
  have "changing m db m1 (snd (lua_transition m CANCEL_REQUESTED db))"
    using redis_ok_record [OF ok m] True held_counts_active [OF True]
    unfolding changing_def m1_def by (auto simp: count_defs redis_record_ok_def active_state_def held_state_def)
  moreover have "settles m m1" using True held_counts_active [OF True] by (simp add: settles_def m1_def)
  ultimately have "redis_kept db (lua_save m1 (snd (lua_transition m CANCEL_REQUESTED db)))" using savedI [OF ok t] saved_kept by blast
  with True show ?thesis by (simp add: lua_cancel_record_def case_prod_beta Let_def m1_def)
next
  case False
  with terminal_kept [OF ok m] kept_self [OF ok] show ?thesis by (simp add: lua_cancel_record_def)
qed

lemma command_kept: "redis_ok db \<Longrightarrow> redis_kept db (lua_note_command tid op (lua_put_operation now op fp target db))"
  by (rule redis_kept_frame) (simp_all add: lua_note_command_def lua_put_operation_def)

lemma cancel_kept:
  assumes ok: "redis_ok db"
  shows "redis_kept db (fst (lua_cancel now tid rv op fp db))"
proof -
  have "redis_kept db (lua_note_command tid op (lua_put_operation now op fp tid (snd (lua_cancel_record now m db))))"
    if "dict_get (rd_jobs db) tid = Some m" for m
    using cancel_record_kept [OF ok that] command_kept redis_kept_trans unfolding redis_kept_def by blast
  then show ?thesis using kept_self [OF ok] by (auto simp: lua_cancel_def case_prod_beta split: sum.split option.split)
qed

lemma set_lane_kept: "redis_ok db \<Longrightarrow> redis_kept db (fst (lua_set_lane now nm policy rv ap cp op fp db))"
  by (auto simp: lua_set_lane_def Let_def lua_put_operation_def intro!: redis_kept_frame split: sum.split option.split)


section \<open>Erasure\<close>

lemma erase_record_fields:
  "rd_jobs (lua_erase_record m db) = dict_pop (rd_jobs db) (task_id m)"
  "rd_nonterminal (lua_erase_record m db) nm = rd_nonterminal db nm - counts_active nm m"
  "rd_held (lua_erase_record m db) nm = rd_held db nm - counts_held nm m"
  "rd_bytes (lua_erase_record m db) nm = rd_bytes db nm - counts_bytes nm m"
  "rd_ready (lua_erase_record m db) = (rd_ready db)(lane m := dict_pop (rd_ready db (lane m)) (task_id m))"
  by (simp_all add: lua_erase_record_def Let_def lua_drop_payload_def count_defs)

lemma erase_record_kept:
  assumes ok: "redis_ok db" and m: "dict_get (rd_jobs db) tid = Some m"
  shows "redis_kept db (lua_erase_record m db)"
proof -
  note f = erase_record_fields [of m db]
  have t: "task_id m = tid" "redis_record_ok m" using redis_ok_record [OF ok m] by simp_all
  have "dict_ok (rd_jobs db)" using ok by (simp add: redis_ok_def keys_ok_def)
  note pop = dict_sum_pop [OF this m]
  have "redis_counters_ok (lua_erase_record m db)" unfolding redis_counters_ok_def f t pop using ok by (simp add: redis_ok_def redis_counters_ok_def)
  moreover have "keys_ok (lua_erase_record m db)" using ok unfolding keys_ok_def redis_ok_def f by auto
  moreover have "ready_ok (lua_erase_record m db)" unfolding ready_ok_def
  proof (intro allI impI)
    fix nm id assume "dict_has (rd_ready (lua_erase_record m db) nm) id"
    then have r: "dict_has (rd_ready db nm) id" "nm = lane m \<Longrightarrow> id \<noteq> tid" using t by (auto simp: f split: if_splits)
    from redis_ok_ready [OF ok r(1)] obtain x where x: "dict_get (rd_jobs db) id = Some x" "lane x = nm" "active_state (state x)" by blast
    with r(2) m have "id \<noteq> tid" by auto
    with x t show "\<exists>x. dict_get (rd_jobs (lua_erase_record m db)) id = Some x \<and> lane x = nm \<and> active_state (state x)" by (simp add: f)
  qed
  moreover have "redis_leak (lua_erase_record m db) nm = redis_leak db nm" for nm unfolding redis_leak_def f t pop by simp
  then have "relaxes db (lua_erase_record m db)" unfolding relaxes_def f using t by (auto simp: count_defs redis_record_ok_def split: if_splits)
  ultimately show ?thesis by (simp add: redis_kept_def redis_ok_def)
qed

lemma erase_one_kept:
  assumes ok: "redis_ok db"
  shows "redis_kept db (lua_erase_one uid db tid)"
proof -
  define db1 where "db1 = (case dict_get (rd_jobs db) tid of None \<Rightarrow> db | Some m \<Rightarrow> lua_erase_record m db)"
  have k: "redis_kept db db1" using kept_self [OF ok] erase_record_kept [OF ok] by (auto simp: db1_def split: option.split)
  moreover have "redis_kept db1 (lua_erase_one uid db tid)"
    by (rule redis_kept_frame) (use k in \<open>simp_all add: redis_kept_def lua_erase_one_def Let_def db1_def [symmetric]\<close>)
  ultimately show ?thesis by (rule redis_kept_trans)
qed

interpretation erasing: progress_run "lua_erase_one uid" redis_ok relaxes for uid
  by unfold_locales (blast intro: relaxes_refl relaxes_trans keptD erase_one_kept)+

lemma erase_kept: "redis_ok db \<Longrightarrow> redis_kept db (fst (lua_erase uid pick db))"
  by (simp add: lua_erase_def Let_def redis_kept_def erasing.run_invar erasing.run_rel)

section \<open>Admission\<close>

text \<open>What an admission adds to its lane: one active job, and its bytes.\<close>

lemma lua_insert_fields:
  "rd_jobs (lua_insert now p l ident fp e db) = dict_set (rd_jobs db) (task_id e) (lua_record now p (rd_sequence db + 1) ident fp e)"
  "rd_nonterminal (lua_insert now p l ident fp e db) = (rd_nonterminal db)(lane e := rd_nonterminal db (lane e) + 1)"
  "rd_held (lua_insert now p l ident fp e db) = rd_held db"
  "rd_bytes (lua_insert now p l ident fp e db) = (rd_bytes db)(lane e := rd_bytes db (lane e) + int (length (payload e)))"
  "dict_has (rd_ready (lua_insert now p l ident fp e db) nm) tid \<Longrightarrow> dict_has (rd_ready db nm) tid \<or> nm = lane e \<and> tid = task_id e"
  by (auto simp: lua_insert_def Let_def lua_save_def lua_ready_def lua_record_def split: if_splits)

lemma lua_insert_ok:
  assumes ok: "redis_ok db" and new: "dict_get (rd_jobs db) (task_id e) = None"
  shows "redis_ok (lua_insert now p l ident fp e db)"
proof -
  define j where "j = lua_record now p (rd_sequence db + 1) ident fp e"
  note f = lua_insert_fields [of now p l ident fp e db, folded j_def]
  have j: "task_id j = task_id e" "lane j = lane e" "payload_accounted j" "payload_bytes j = int (length (payload e))"
    "metadata_expires_at j = None" "active_state (state j)" "\<not> held_state (state j)"
    by (simp_all add: j_def lua_record_def active_state_def held_state_def)
  have "redis_counters_ok (lua_insert now p l ident fp e db)" unfolding redis_counters_ok_def f dict_sum_set_new [OF new]
    using ok j by (auto simp: redis_ok_def redis_counters_ok_def count_defs)
  moreover have "keys_ok (lua_insert now p l ident fp e db)" using ok j unfolding keys_ok_def redis_ok_def f by (auto simp: redis_record_ok_def)
  moreover have "ready_ok (lua_insert now p l ident fp e db)" unfolding ready_ok_def
  proof (intro allI impI)
    fix nm tid assume "dict_has (rd_ready (lua_insert now p l ident fp e db) nm) tid"
    then show "\<exists>m. dict_get (rd_jobs (lua_insert now p l ident fp e db)) tid = Some m \<and> lane m = nm \<and> active_state (state m)"
      using f(5) redis_ok_ready [OF ok, of nm tid] new j by (cases "tid = task_id e") (auto simp: f(1))
  qed
  ultimately show ?thesis by (simp add: redis_ok_def)
qed


lemma lua_admission_cases:
  assumes ok: "redis_ok db"
  obtains (redis_kept) "redis_kept db (fst (lua_admission now e policy ident fp credit db))" "rd_jobs (fst (lua_admission now e policy ident fp credit db)) = rd_jobs db"
      "adm_state (snd (lua_admission now e policy ident fp credit db)) \<noteq> ACCEPTED"
  | (added) p l where "lua_admission now e policy ident fp credit db = (lua_insert now p l ident fp e db, admission ACCEPTED (Some (task_id e)) None)"
      "rd_nonterminal db (lane e) < max_jobs (lua_caps (lane e))" "rd_bytes db (lane e) + int (length (payload e)) - credit \<le> 8388608"
proof -
  let ?r = "lua_admission now e policy ident fp credit db"
  define p0 where "p0 = policy_min policy (lua_caps (lane e))"
  define l where "l = lua_lane_state (lane e) p0 db"
  define p where "p = policy_min p0 (lane_policy l)"
  have le: "max_jobs p \<le> max_jobs (lua_caps (lane e))" "max_total_payload_bytes p \<le> 8388608"
    by (simp_all add: p_def p0_def policy_min_def lua_caps_def)
  have join: "redis_kept db (fst (lua_join now ident fp owner db))" "rd_jobs (fst (lua_join now ident fp owner db)) = rd_jobs db" "adm_state (snd (lua_join now ident fp owner db)) \<noteq> ACCEPTED" for owner
    using ok by (auto simp: lua_join_def Let_def intro!: redis_kept_frame)
  have "(redis_kept db (fst ?r) \<and> rd_jobs (fst ?r) = rd_jobs db \<and> adm_state (snd ?r) \<noteq> ACCEPTED) \<or>
      (?r = (lua_insert now p l ident fp e db, admission ACCEPTED (Some (task_id e)) None) \<and> \<not> rd_nonterminal db (lane e) \<ge> max_jobs p \<and>
       \<not> rd_bytes db (lane e) + int (length (payload e)) - credit > max_total_payload_bytes p)"
    using kept_self [OF ok] join
    by (simp add: lua_admission_def Let_def p0_def [symmetric] l_def [symmetric] p_def [symmetric] case_prod_beta split: option.split)
  with le show ?thesis using that by (smt (verit))
qed


section \<open>Limits\<close>

definition lane_workers :: "string \<Rightarrow> int" where
  "lane_workers nm = (case dict_get LANE_WORKERS nm of Some w \<Rightarrow> w | None \<Rightarrow> 0)"

definition within_caps :: "redis_db \<Rightarrow> bool" where
  "within_caps db \<longleftrightarrow>
    (\<forall>nm. rd_held db nm \<le> lane_workers nm \<and> rd_nonterminal db nm \<le> max_jobs (lua_caps nm) \<and> rd_bytes db nm \<le> 8388608)"

lemma kept_caps: "\<lbrakk>redis_kept db db1; within_caps db\<rbrakk> \<Longrightarrow> within_caps db1"
  unfolding redis_kept_def relaxes_def within_caps_def by (meson order_trans)

definition redis_inv :: "redis_db \<Rightarrow> bool" where
  "redis_inv db \<longleftrightarrow> redis_ok db \<and> within_caps db"

lemma kept_inv: "\<lbrakk>redis_kept db db1; redis_inv db\<rbrakk> \<Longrightarrow> redis_inv db1"
  using kept_caps by (auto simp: redis_inv_def redis_kept_def)

lemma lua_claim_inv:
  assumes "redis_inv db"
  shows "redis_inv (fst (lua_claim now nm policy owner db))"
proof -
  have ok: "redis_ok db" and caps: "within_caps db" using assms by (simp_all add: redis_inv_def)
  show ?thesis using lua_claim_claims [OF ok, of now nm policy owner]
  proof
    assume "\<exists>w. dict_get LANE_WORKERS nm = Some w \<and> rd_held db nm < w \<and> claims nm db (fst (lua_claim now nm policy owner db))"
    then obtain w where w: "dict_get LANE_WORKERS nm = Some w" "rd_held db nm < w" "claims nm db (fst (lua_claim now nm policy owner db))" by blast
    let ?d = "fst (lua_claim now nm policy owner db)"
    have "rd_held ?d ln \<le> lane_workers ln \<and> rd_nonterminal ?d ln \<le> max_jobs (lua_caps ln) \<and> rd_bytes ?d ln \<le> 8388608" for ln
    proof -
      have "rd_nonterminal ?d ln \<le> rd_nonterminal db ln" "rd_bytes ?d ln \<le> rd_bytes db ln" "rd_held ?d ln \<le> rd_held db ln + of_bool (ln = nm)"
        using w(3) by (simp_all add: claims_def)
      moreover have "rd_held db ln \<le> lane_workers ln" "rd_nonterminal db ln \<le> max_jobs (lua_caps ln)" "rd_bytes db ln \<le> 8388608"
        using caps by (simp_all add: within_caps_def)
      ultimately show ?thesis using w(1,2) by (cases "ln = nm") (auto simp: lane_workers_def)
    qed
    then show ?thesis using w(3) by (simp add: redis_inv_def within_caps_def claims_def)
  qed (use assms in simp)
qed

lemma insert_inv:
  assumes "redis_inv db" "dict_get (rd_jobs db) (task_id e) = None" "rd_nonterminal db (lane e) < max_jobs (lua_caps (lane e))"
    "rd_bytes db (lane e) + int (length (payload e)) \<le> 8388608"
  shows "redis_inv (lua_insert now p l ident fp e db)"
  using assms lua_insert_ok unfolding redis_inv_def within_caps_def by (simp add: lua_insert_fields)

lemma admission_inv:
  assumes "redis_inv db" "dict_get (rd_jobs db) (task_id e) = None"
  shows "redis_inv (fst (lua_admission now e policy ident fp 0 db))"
proof -
  have "redis_ok db" using assms(1) by (simp add: redis_inv_def)
  then show ?thesis
    by (cases rule: lua_admission_cases [where e = e and now = now and policy = policy and ident = ident and fp = fp and credit = 0])
      (use kept_inv insert_inv assms in \<open>auto\<close>)
qed

text \<open>A granted retry gives the bytes of its parent back.\<close>

definition lua_spent :: "redis_job \<Rightarrow> redis_db \<Rightarrow> redis_db" where
  "lua_spent m db = (case lua_drop_payload (m\<lparr>retry_grants := 0\<rparr>) db of (m1, db1) \<Rightarrow> lua_save m1 db1)"

lemma lua_spent_kept:
  assumes ok: "redis_ok db" and m: "dict_get (rd_jobs db) tid = Some m"
  shows "redis_kept db (lua_spent m db)" "rd_bytes (lua_spent m db) nm = rd_bytes db nm - counts_bytes nm m"
    "rd_nonterminal (lua_spent m db) = rd_nonterminal db" "rd_held (lua_spent m db) = rd_held db"
proof -
  let ?m = "m\<lparr>retry_grants := 0\<rparr>"
  have t: "dict_get (rd_jobs db) (task_id m) = Some m" using redis_ok_record [OF ok m] m by simp
  have "changing m db ?m db" by (rule changing_quiet [OF ok m]) simp_all
  then have "redis_record_ok ?m" by (simp add: changing_fields)
  moreover have "active_state (state ?m) \<or> (\<forall>nm. \<not> dict_has (rd_ready db nm) (task_id ?m))"
    using redis_ok_ready [OF ok] t by fastforce
  ultimately have "changing ?m db (fst (lua_drop_payload ?m db)) (snd (lua_drop_payload ?m db))" by (rule lua_drop_payload_changing)
  with \<open>changing m db ?m db\<close> have "changing m db (fst (lua_drop_payload ?m db)) (snd (lua_drop_payload ?m db))" by (rule changing_trans)
  moreover have "settles m (fst (lua_drop_payload ?m db))" by (simp add: settles_def lua_drop_payload_def)
  ultimately show "redis_kept db (lua_spent m db)" using savedI [OF ok t] saved_kept by (simp add: lua_spent_def case_prod_beta) blast
qed (auto simp: lua_spent_def lua_drop_payload_def lua_save_def counts_bytes_def)


lemma lua_retry_settle_inv:
  assumes inv: "redis_inv db" and m: "dict_get (rd_jobs db) tid = Some m" and new: "dict_get (rd_jobs db) (task_id e) = None" and ln: "lane e = lane m"
  shows "redis_inv (fst (lua_retry_settle now op fp (task_id e) m
    (lua_admission now e policy ident fp (if payload_accounted m then payload_bytes m else 0) db)))"
    (is "redis_inv (fst (lua_retry_settle now op fp (task_id e) m ?r))")
proof -
  have ok: "redis_ok db" using inv by (simp add: redis_inv_def)
  have note_inv: "redis_inv (lua_note_command (task_id m) op (lua_put_operation now op fp target d))" if "redis_inv d" for d target
    using kept_inv [OF command_kept that] that by (simp add: redis_inv_def)
  have settled: "redis_inv (fst (lua_retry_settle now op fp (task_id e) m ?r))"
    if "redis_inv (fst ?r) \<or> adm_state (snd ?r) = ACCEPTED \<and> adm_task_id (snd ?r) = Some (task_id e)" "redis_inv (lua_spent m (fst ?r))"
    using that note_inv by (auto simp: lua_retry_settle_def lua_spent_def case_prod_beta)
  show ?thesis using ok
  proof (cases rule: lua_admission_cases [where e = e and now = now and policy = policy and ident = ident and fp = fp
        and credit = "if payload_accounted m then payload_bytes m else 0"])
    case redis_kept
    then have "redis_inv (fst ?r)" using kept_inv inv by blast
    moreover from this have "redis_kept (fst ?r) (lua_spent m (fst ?r))" using lua_spent_kept(1) redis_kept(2) m by (simp add: redis_inv_def)
    ultimately show ?thesis using settled kept_inv by blast
  next
    case (added p l)
    let ?d = "lua_insert now p l ident fp e db"
    have okd: "redis_ok ?d" by (rule lua_insert_ok [OF ok new])
    have md: "dict_get (rd_jobs ?d) tid = Some m" using m new by (auto simp: lua_insert_fields)
    note sp = lua_spent_kept [OF okd md]
    have "rd_held (lua_spent m ?d) nm \<le> lane_workers nm \<and> rd_nonterminal (lua_spent m ?d) nm \<le> max_jobs (lua_caps nm) \<and>
        rd_bytes (lua_spent m ?d) nm \<le> 8388608" for nm
    proof -
      have "0 \<le> payload_bytes m" using redis_ok_record [OF ok m] by (simp add: redis_record_ok_def)
      moreover have "rd_held db nm \<le> lane_workers nm" "rd_nonterminal db nm \<le> max_jobs (lua_caps nm)" "rd_bytes db nm \<le> 8388608"
        using inv by (simp_all add: redis_inv_def within_caps_def)
      ultimately show ?thesis using added(2,3) ln by (auto simp: sp lua_insert_fields counts_bytes_def)
    qed
    then have "redis_inv (lua_spent m ?d)" using sp(1) by (simp add: redis_inv_def within_caps_def redis_kept_def)
    then show ?thesis using settled added(1) by simp
  qed
qed

lemma lua_retry_inv:
  assumes "redis_inv db" "dict_get (rd_jobs db) child_id = None"
  shows "redis_inv (fst (lua_retry now tid rv epoch child_id ident policy op fp db))"
proof (cases "dict_get (rd_jobs db) tid")
  case None
  with assms(1) show ?thesis by (simp add: lua_retry_def split: sum.split option.split)
next
  case (Some m)
  define c where "c = (if payload_accounted m then payload_bytes m else 0)"
  have "redis_inv (fst (lua_retry_settle now op fp child_id m (lua_admission now (lua_child op child_id epoch pl m) policy ident fp c db)))" for pl
    using lua_retry_settle_inv [OF assms(1) Some, of "lua_child op child_id epoch pl m"] assms(2) unfolding c_def by (simp add: lua_child_def)
  then show ?thesis using assms(1) Some
    by (cases "payload_accounted m") (simp_all add: lua_retry_def case_prod_beta c_def split: sum.split option.split)
qed

section \<open>Reachable databases\<close>

fun redis_fresh :: "redis_event \<Rightarrow> redis_db \<Rightarrow> bool" where
  "redis_fresh (RdAdmit e policy ident fp) db \<longleftrightarrow> \<not> dict_has (rd_jobs db) (task_id e)"
| "redis_fresh (RdRetry tid rv epoch child ident policy op fp) db \<longleftrightarrow> \<not> dict_has (rd_jobs db) child"
| "redis_fresh _ db \<longleftrightarrow> True"

inductive redis_reach :: "redis_db \<Rightarrow> bool" where
  redis_start: "redis_reach redis_empty"
| redis_next: "\<lbrakk>redis_reach db; redis_fresh ev (redis_prepared now db)\<rbrakk> \<Longrightarrow> redis_reach (redis_step now ev db)"

lemma redis_step_inv:
  assumes "redis_inv db" "redis_fresh ev (redis_prepared now db)"
  shows "redis_inv (redis_step now ev db)"
proof -
  let ?p = "redis_prepared now db"
  have inv: "redis_inv ?p" using assms(1) prepared_kept kept_inv by (auto simp: redis_inv_def)
  then have ok: "redis_ok ?p" by (simp add: redis_inv_def)
  show ?thesis unfolding redis_step_def
    by (cases ev; use assms(2) inv kept_inv [OF _ inv] progress_kept [OF ok] heartbeat_kept [OF ok] finish_kept [OF ok] cancel_kept [OF ok]
        set_lane_kept [OF ok] erase_kept [OF ok] lua_claim_inv admission_inv lua_retry_inv in \<open>simp add: dict_has_def\<close>)
qed

lemma redis_reach_inv: "redis_reach db \<Longrightarrow> redis_inv db"
proof (induction rule: redis_reach.induct)
  case redis_start
  have "0 \<le> lane_workers nm" for nm by (simp add: lane_workers_def LANE_WORKERS_def)
  then have "within_caps redis_empty" by (simp add: within_caps_def redis_empty_def lua_caps_def)
  then show ?case by (simp add: redis_inv_def redis_ok_empty)
qed (rule redis_step_inv)


section \<open>Bytes of no record\<close>

lemma kept_leak: "redis_kept db db1 \<Longrightarrow> redis_leak db nm \<le> redis_leak db1 nm"
  by (simp add: redis_kept_def relaxes_def)

lemma insert_leak:
  assumes "dict_get (rd_jobs db) (task_id e) = None"
  shows "redis_leak (lua_insert now p l ident fp e db) nm = redis_leak db nm"
  using dict_sum_set_new [OF assms, of "counts_bytes nm"]
  by (simp add: redis_leak_def lua_insert_fields) (simp add: counts_bytes_def lua_record_def)

lemma admission_leak:
  assumes ok: "redis_ok db" and new: "dict_get (rd_jobs db) (task_id e) = None"
  shows "redis_leak db nm \<le> redis_leak (fst (lua_admission now e policy ident fp credit db)) nm"
  using ok by (cases rule: lua_admission_cases [where e = e and now = now and policy = policy and ident = ident and fp = fp and credit = credit])
    (use kept_leak insert_leak [OF new] in \<open>auto\<close>)

lemma lua_admission_ok:
  assumes ok: "redis_ok db" and new: "dict_get (rd_jobs db) (task_id e) = None" and m: "dict_get (rd_jobs db) tid = Some m"
  shows "redis_ok (fst (lua_admission now e policy ident fp credit db)) \<and>
    dict_get (rd_jobs (fst (lua_admission now e policy ident fp credit db))) tid = Some m"
  using ok by (cases rule: lua_admission_cases [where e = e and now = now and policy = policy and ident = ident and fp = fp and credit = credit])
    (use lua_insert_ok [OF ok new] m new in \<open>auto simp: redis_kept_def lua_insert_fields\<close>)

lemma retry_leak:
  assumes ok: "redis_ok db" and new: "dict_get (rd_jobs db) child_id = None"
  shows "redis_leak db nm \<le> redis_leak (fst (lua_retry now tid rv epoch child_id ident policy op fp db)) nm"
proof (cases "dict_get (rd_jobs db) tid")
  case None
  then show ?thesis by (simp add: lua_retry_def split: sum.split option.split)
next
  case (Some m)
  have "redis_leak db nm \<le> redis_leak (fst (lua_retry_settle now op fp child_id m (lua_admission now (lua_child op child_id epoch pl m) policy ident fp c db))) nm"
    for pl c
  proof -
    let ?e = "lua_child op child_id epoch pl m"
    let ?r = "lua_admission now ?e policy ident fp c db"
    have n: "dict_get (rd_jobs db) (task_id ?e) = None" using new by (simp add: lua_child_def)
    have r: "redis_ok (fst ?r)" "dict_get (rd_jobs (fst ?r)) tid = Some m" "redis_leak db nm \<le> redis_leak (fst ?r) nm"
      using lua_admission_ok [OF ok n Some] admission_leak [OF ok n] by simp_all
    have sp: "redis_kept (fst ?r) (lua_spent m (fst ?r))" by (rule lua_spent_kept(1) [OF r(1,2)])
    have noted: "redis_leak d nm \<le> redis_leak (lua_note_command (task_id m) op (lua_put_operation now op fp target d)) nm" if "redis_ok d" for d target
      using command_kept [OF that] kept_leak by blast
    have "redis_leak (fst ?r) nm \<le> redis_leak (fst (lua_retry_settle now op fp child_id m ?r)) nm"
      using noted [OF r(1)] order_trans [OF kept_leak [OF sp] noted] sp
      by (auto simp: lua_retry_settle_def lua_spent_def case_prod_beta redis_kept_def)
    with r(3) show ?thesis by simp
  qed
  then show ?thesis using Some
    by (cases "payload_accounted m") (simp_all add: lua_retry_def case_prod_beta split: sum.split option.split)
qed

text \<open>The bytes of the records that expired before they gave their payload back.\<close>

definition lost_bytes :: "secs \<Rightarrow> string \<Rightarrow> redis_db \<Rightarrow> int" where
  "lost_bytes now nm db =
    sum_list (map payload_bytes (filter (\<lambda>m. lane m = nm \<and> payload_accounted m \<and>
      (case metadata_expires_at m of None \<Rightarrow> False | Some t \<Rightarrow> millis_up t < now)) (dict_values (rd_jobs db))))"

lemma dict_sum_split: "dict_sum w d = dict_sum w (filter P d) + dict_sum w (filter (\<lambda>e. \<not> P e) d)"
  by (induction d) (auto simp: dict_sum_def)

lemma expire_leak: "redis_leak (expire_keys now db) nm = redis_leak db nm + lost_bytes now nm db"
proof -
  have "dict_sum (\<lambda>m. if lane m = nm \<and> payload_accounted m \<and> (case metadata_expires_at m of None \<Rightarrow> False | Some t \<Rightarrow> millis_up t < now)
      then payload_bytes m else 0) d = dict_sum (counts_bytes nm) (filter (\<lambda>e. \<not> unexpired now e) d)" for d :: "(string, redis_job) dict"
    by (induction d) (auto simp: unexpired_def counts_bytes_def not_le split: option.splits)
  then have "lost_bytes now nm db = dict_sum (counts_bytes nm) (filter (\<lambda>e. \<not> unexpired now e) (rd_jobs db))"
    unfolding lost_bytes_def sum_filter_dict_sum .
  then show ?thesis using dict_sum_split [of "counts_bytes nm" "rd_jobs db" "unexpired now"] by (simp add: redis_leak_def)
qed

lemma redis_step_leak:
  assumes ok: "redis_ok db" and fresh: "redis_fresh ev (redis_prepared now db)"
  shows "redis_leak db nm + lost_bytes now nm db \<le> redis_leak (redis_step now ev db) nm"
proof -
  let ?p = "redis_prepared now db"
  have okp: "redis_ok ?p" using prepared_kept [OF ok] by (simp add: redis_kept_def)
  have cl: "redis_leak ?p nm \<le> redis_leak (fst (lua_claim now ln policy owner ?p)) nm" for ln policy owner
    using lua_claim_claims [OF okp, of now ln policy owner] by (auto simp: claims_def)
  have "redis_ok (expire_keys now db)" using expire_kept [OF ok] by (simp add: redis_kept_def)
  then have "redis_leak (expire_keys now db) nm \<le> redis_leak ?p nm" unfolding redis_prepared_def by (intro kept_leak sweep_kept)
  also have "\<dots> \<le> redis_leak (redis_command now ev ?p) nm"
    by (cases ev; use fresh cl kept_leak progress_kept [OF okp] heartbeat_kept [OF okp] finish_kept [OF okp] cancel_kept [OF okp]
        set_lane_kept [OF okp] erase_kept [OF okp] admission_leak [OF okp] retry_leak [OF okp] in \<open>simp add: dict_has_def\<close>)
  finally show ?thesis unfolding expire_leak redis_step_def .
qed

text \<open>One further call, whatever it asks and whenever it comes.\<close>

definition redis_call :: "redis_db \<Rightarrow> redis_db \<Rightarrow> bool" where
  "redis_call db db1 \<longleftrightarrow> (\<exists>now ev. redis_fresh ev (redis_prepared now db) \<and> db1 = redis_step now ev db)"

lemma lost_bytes_nonneg:
  assumes "redis_ok db"
  shows "0 \<le> lost_bytes now nm db"
proof -
  have "0 \<le> payload_bytes m" if "m \<in> set (dict_values (rd_jobs db))" for m
  proof -
    have "dict_ok (rd_jobs db)" using assms by (simp add: redis_ok_def keys_ok_def)
    with that obtain k where "dict_get (rd_jobs db) k = Some m" using dict_ok_values by metis
    then show ?thesis using redis_ok_record [OF assms] by (auto simp: redis_record_ok_def)
  qed
  then show ?thesis unfolding lost_bytes_def by (intro sum_list_nonneg) auto
qed

lemma redis_calls_leak:
  assumes "redis_call\<^sup>*\<^sup>* db db1" "redis_inv db"
  shows "redis_inv db1 \<and> redis_leak db nm \<le> redis_leak db1 nm"
  using assms
proof (induction rule: rtranclp_induct)
  case (step d d1)
  then obtain now ev where c: "redis_fresh ev (redis_prepared now d)" "d1 = redis_step now ev d" by (auto simp: redis_call_def)
  have "redis_ok d" using step by (simp add: redis_inv_def)
  then have "redis_leak d nm \<le> redis_leak d1 nm"
    using redis_step_leak [OF _ c(1), of nm] lost_bytes_nonneg [of d now nm] c(2) by simp
  with step c redis_step_inv show ?case by auto
qed simp

end
