(* ===== verification/Redis_Repeat.thy ===== *)
theory Redis_Repeat
  imports Redis_Bounds
begin

text \<open>
  \<open>RedisQueueStore._mutate\<close> sends a command again when the answer to the first was lost. Operations and finish tokens survive the
  sweep of the second call, which therefore finds its work done.
\<close>

section \<open>What a sweep remembers\<close>

definition remembers :: "redis_db \<Rightarrow> redis_db \<Rightarrow> bool" where
  "remembers db db1 \<longleftrightarrow> rd_operations db1 = rd_operations db \<and>
    (\<forall>tid m1. dict_get (rd_jobs db1) tid = Some m1 \<longrightarrow> (\<exists>m. dict_get (rd_jobs db) tid = Some m \<and> finish_token m = finish_token m1))"

lemma remembers_refl: "remembers db db"
  by (simp add: remembers_def)

lemma remembers_trans: "\<lbrakk>remembers db db1; remembers db1 db2\<rbrakk> \<Longrightarrow> remembers db db2"
  unfolding remembers_def by metis

lemma remembers_frame: "\<lbrakk>rd_operations db1 = rd_operations db; rd_jobs db1 = rd_jobs db\<rbrakk> \<Longrightarrow> remembers db db1"
  by (simp add: remembers_def)

lemma remembers_save:
  assumes "dict_get (rd_jobs db) (task_id m) = Some m" "task_id m1 = task_id m" "finish_token m1 = finish_token m"
    "rd_operations db1 = rd_operations db" "rd_jobs db1 = rd_jobs db"
  shows "remembers db (lua_save m1 db1)"
  using assms by (auto simp: remembers_def lua_save_def)

lemma operations_fields [simp]:
  "rd_operations (lua_release_running m db) = rd_operations db" "rd_operations (lua_release_conflicts m db) = rd_operations db"
  "rd_operations (lua_unschedule m db) = rd_operations db" "rd_operations (lua_ready m db) = rd_operations db"
  "rd_operations (snd (lua_transition m st db)) = rd_operations db" "rd_operations (snd (lua_drop_payload m db)) = rd_operations db"
  "rd_operations (snd (lua_retained now m db)) = rd_operations db" "rd_operations (lua_index_terminal now r m db) = rd_operations db"
  "rd_jobs (snd (lua_drop_payload m db)) = rd_jobs db" "rd_jobs (lua_ready m db) = rd_jobs db"
  by (simp_all add: lua_release_running_def lua_release_conflicts_def lua_unschedule_def lua_ready_def lua_transition_def
    lua_drop_payload_def lua_retained_def lua_index_terminal_def Let_def)

lemma terminal_remembers:
  assumes "dict_get (rd_jobs db) (task_id m0) = Some m0" "task_id m = task_id m0" "finish_token m = finish_token m0"
    "rd_operations db1 = rd_operations db" "rd_jobs db1 = rd_jobs db"
  shows "remembers db (snd (lua_terminal now st reason safe m db1))"
proof -
  have "rd_operations (lua_closing st m db1) = rd_operations db" "rd_jobs (lua_closing st m db1) = rd_jobs db"
    using assms by (simp_all add: lua_closing_def)
  then show ?thesis
    unfolding lua_terminal_def Let_def case_prod_beta snd_conv
    by (intro remembers_save [OF assms(1)])
      (use assms in \<open>simp_all add: lua_closed_def lua_retained_def lua_drop_payload_def\<close>)
qed

lemma terminal_remembers_self:
  assumes "redis_ok db" "dict_get (rd_jobs db) tid = Some m"
  shows "remembers db (snd (lua_terminal now st reason safe m db))"
  using redis_ok_record [OF assms] assms(2) by (intro terminal_remembers) simp_all

lemma sweep_payload_remembers:
  assumes ok: "redis_ok db"
  shows "remembers db (lua_sweep_payload now db tid)"
proof (cases "dict_get (rd_jobs db) tid")
  case None
  then show ?thesis by (simp add: lua_sweep_payload_def remembers_frame)
next
  case (Some m)
  have t: "dict_get (rd_jobs db) (task_id m) = Some m" using redis_ok_record [OF ok Some] Some by simp
  have f: "finish_token (fst (lua_drop_payload m db)) = finish_token m" by (simp add: lua_drop_payload_def)
  show ?thesis using Some terminal_remembers [OF t _ f] remembers_save [OF t _ f] by (simp add: lua_sweep_payload_def case_prod_beta)
qed

lemma sweep_deadline_remembers: "redis_ok db \<Longrightarrow> remembers db (lua_sweep_deadline now db tid)"
  using terminal_remembers_self by (auto simp: lua_sweep_deadline_def remembers_frame split: option.split)

lemma requeue_remembers:
  assumes "redis_ok db" "dict_get (rd_jobs db) tid = Some m"
  shows "remembers db (lua_requeue m db)"
  unfolding lua_requeue_def case_prod_beta Let_def
  by (rule remembers_save [of db m]) (use redis_ok_record [OF assms] assms(2) in simp_all)

lemma sweep_lease_remembers: "redis_ok db \<Longrightarrow> remembers db (lua_sweep_lease now db tid)"
  using terminal_remembers_self requeue_remembers by (auto simp: lua_sweep_lease_def remembers_frame split: option.split)

lemma sweep_delayed_remembers:
  assumes ok: "redis_ok db"
  shows "remembers db (lua_sweep_delayed nm db tid)"
proof (cases "\<exists>m. dict_get (rd_jobs db) tid = Some m \<and> state m = DELAYED")
  case True
  then obtain m where m: "dict_get (rd_jobs db) tid = Some m" "state m = DELAYED" by blast
  show ?thesis unfolding lua_sweep_delayed_def Let_def using m redis_ok_record [OF ok m(1)]
    by (simp add: case_prod_beta) (rule remembers_save [of db m], simp_all)
next
  case False
  then show ?thesis by (auto simp: lua_sweep_delayed_def Let_def remembers_frame split: option.split)
qed

lemma forget_remembers: "remembers db (lua_forget db tid)"
  by (rule remembers_frame) (simp_all add: lua_forget_def Let_def case_prod_beta split: option.splits)

lemmas remembering = remembers_refl remembers_trans keptD

interpretation payload_memory: progress_run "lua_sweep_payload now" redis_ok remembers for now
  by unfold_locales (blast intro: remembering sweep_payload_kept sweep_payload_remembers)+

interpretation deadline_memory: progress_run "lua_sweep_deadline now" redis_ok remembers for now
  by unfold_locales (blast intro: remembering sweep_deadline_kept sweep_deadline_remembers)+

interpretation lease_memory: progress_run "lua_sweep_lease now" redis_ok remembers for now
  by unfold_locales (blast intro: remembering sweep_lease_kept sweep_lease_remembers)+

interpretation delayed_memory: progress_run "lua_sweep_delayed nm" redis_ok remembers for nm
  by unfold_locales (blast intro: remembering sweep_delayed_kept sweep_delayed_remembers)+

lemma sweep_lane_remembers: "redis_ok db \<Longrightarrow> remembers db (lua_sweep_lane now db nm)"
  unfolding lua_sweep_lane_def by (rule delayed_memory.run_rel)

interpretation lane_memory: progress_run "lua_sweep_lane now" redis_ok remembers for now
  by unfold_locales (blast intro: remembering sweep_lane_kept sweep_lane_remembers)+

interpretation record_memory: progress_run lua_forget redis_ok remembers
  by unfold_locales (blast intro: remembering forget_kept forget_remembers)+

lemma sweep_remembers:
  assumes "redis_ok db"
  shows "remembers db (lua_sweep now db)"
  unfolding lua_sweep_def Let_def
  by (intro remembers_trans [OF _ record_memory.run_rel] remembers_trans [OF _ lane_memory.run_rel] remembers_trans [OF _ lease_memory.run_rel]
      remembers_trans [OF _ deadline_memory.run_rel] payload_memory.run_rel assms
      sweep_lanes.run_invar sweep_leases.run_invar sweep_deadlines.run_invar sweep_payloads.run_invar)


lemma prepared_remembers:
  assumes ok: "redis_ok db"
  shows "dict_get (rd_jobs (redis_prepared now db)) tid = Some m1 \<Longrightarrow> \<exists>m. dict_get (rd_jobs db) tid = Some m \<and> finish_token m = finish_token m1"
    and "rd_operations (redis_prepared now db) = filter (\<lambda>e. now \<le> snd (snd (snd e))) (rd_operations db)"
proof -
  have k: "redis_ok (expire_keys now db)" using expire_kept [OF ok] by (simp add: redis_kept_def)
  note r = sweep_remembers [OF k, of now]
  show "rd_operations (redis_prepared now db) = filter (\<lambda>e. now \<le> snd (snd (snd e))) (rd_operations db)"
    using r by (simp add: redis_prepared_def remembers_def expire_keys_def)
  assume "dict_get (rd_jobs (redis_prepared now db)) tid = Some m1"
  then obtain m where "dict_get (rd_jobs (expire_keys now db)) tid = Some m" "finish_token m = finish_token m1"
    using r unfolding redis_prepared_def remembers_def by blast
  then show "\<exists>m. dict_get (rd_jobs db) tid = Some m \<and> finish_token m = finish_token m1"
    unfolding expire_keys_get [OF ok] by (auto split: option.splits if_splits)
qed

section \<open>Commands that may be sent twice\<close>

text \<open>The call did the work of its command: it settled the attempt, or recorded the operation.\<close>

fun redis_done :: "secs \<Rightarrow> redis_event \<Rightarrow> redis_db \<Rightarrow> bool" where
  "redis_done now (RdFinish tid owner rv out reason summ delay) db \<longleftrightarrow> (case snd (lua_finish now tid owner rv out reason summ delay db) of Inr m \<Rightarrow> True | Inl err \<Rightarrow> False)"
| "redis_done now (RdCancel tid rv op fp) db \<longleftrightarrow>
    lua_previous op fp db = Inr None \<and> (case snd (lua_cancel now tid rv op fp db) of Inr m \<Rightarrow> True | Inl err \<Rightarrow> False)"
| "redis_done now (RdRetry tid rv epoch child ident policy op fp) db \<longleftrightarrow>
    lua_previous op fp db = Inr None \<and>
    (case snd (lua_retry now tid rv epoch child ident policy op fp db) of Inr adm \<Rightarrow> adm_state adm \<in> {ACCEPTED, EXISTING} | Inl err \<Rightarrow> False)"
| "redis_done now (RdSetLane nm policy rv ap cp op fp) db \<longleftrightarrow>
    lua_previous op fp db = Inr None \<and> (case snd (lua_set_lane now nm policy rv ap cp op fp db) of Inr l \<Rightarrow> True | Inl err \<Rightarrow> False)"
| "redis_done now _ db \<longleftrightarrow> False"

definition recorded :: "secs \<Rightarrow> string \<Rightarrow> string \<Rightarrow> redis_db \<Rightarrow> bool" where
  "recorded now op fp db \<longleftrightarrow> (\<exists>target. dict_get (rd_operations db) op = Some (fp, target, now + METADATA_RETENTION))"

lemma dict_get_filter_Some: "\<lbrakk>dict_get d k = Some v; P (k, v)\<rbrakk> \<Longrightarrow> dict_get (filter P d) k = Some v"
  by (induction d) (auto split: if_splits)

lemma recorded_previous:
  assumes ok: "redis_ok db" and r: "recorded now op fp db" and t: "now1 \<le> now + METADATA_RETENTION"
  shows "\<exists>target. lua_previous op fp (redis_prepared now1 db) = Inr (Some target)"
proof -
  from r obtain target where "dict_get (rd_operations db) op = Some (fp, target, now + METADATA_RETENTION)"
    by (auto simp: recorded_def)
  with t have "dict_get (rd_operations (redis_prepared now1 db)) op = Some (fp, target, now + METADATA_RETENTION)"
    unfolding prepared_remembers(2) [OF ok] by (intro dict_get_filter_Some) simp_all
  then show ?thesis by (simp add: lua_previous_def)
qed

lemma previous_idle:
  assumes "lua_previous op fp db = Inr (Some target)"
  shows "fst (lua_cancel now tid rv op fp db) = db" "fst (lua_set_lane now nm policy rv ap cp op fp db) = db"
    "fst (lua_retry now tid rv epoch child ident policy op fp db) = db"
  using assms by (simp_all add: lua_cancel_def lua_set_lane_def lua_retry_def)

lemma operation_recorded:
  "recorded now op fp (lua_put_operation now op fp target db)" "recorded now op fp (lua_note_command tid op (lua_put_operation now op fp target db))"
  by (simp_all add: recorded_def lua_put_operation_def lua_note_command_def)

lemma cancel_recorded: "redis_done now (RdCancel tid rv op fp) db \<Longrightarrow> recorded now op fp (fst (lua_cancel now tid rv op fp db))"
  by (clarsimp simp: lua_cancel_def case_prod_beta operation_recorded split: option.splits if_splits)

lemma set_lane_recorded:
  "redis_done now (RdSetLane nm policy rv ap cp op fp) db \<Longrightarrow> recorded now op fp (fst (lua_set_lane now nm policy rv ap cp op fp db))"
  by (clarsimp simp: lua_set_lane_def Let_def operation_recorded split: if_splits)

lemma retry_settle_recorded:
  "snd (lua_retry_settle now op fp child m r) = snd r"
  "adm_state (snd r) = ACCEPTED \<or> adm_state (snd r) = EXISTING \<Longrightarrow> recorded now op fp (fst (lua_retry_settle now op fp child m r))"
  by (auto simp: lua_retry_settle_def case_prod_beta operation_recorded)

lemma retry_recorded:
  assumes d: "redis_done now (RdRetry tid rv epoch child ident policy op fp) db"
  shows "recorded now op fp (fst (lua_retry now tid rv epoch child ident policy op fp db))"
proof -
  let ?out = "lua_retry now tid rv epoch child ident policy op fp db"
  have p: "lua_previous op fp db = Inr None" using d by simp
  obtain m where m: "dict_get (rd_jobs db) tid = Some m" using d p by (cases "dict_get (rd_jobs db) tid") (simp_all add: lua_retry_def)
  obtain pl t where pl: "dict_get (rd_payloads db) tid = Some (pl, t)"
    using d p m by (cases "dict_get (rd_payloads db) tid") (auto simp: lua_retry_def split: if_splits)
  define r where "r = lua_admission now (lua_child op child epoch pl m) policy ident fp (if payload_accounted m then payload_bytes m else 0) db"
  have "revision m = rv" using d p m by (cases "revision m = rv") (simp_all add: lua_retry_def)
  moreover have "\<not> (state m \<notin> {FAILED, EXPIRED} \<or> \<not> retry_eligible m \<or> retry_grants m < 1 \<or> privacy_epoch m \<noteq> epoch)" (is "\<not> ?bad")
  proof
    assume bad: ?bad
    have "?out = (db, Inl (QueueConflict ''retry_not_available''))"
      unfolding lua_retry_def p m pl sum.case option.case prod.case if_P [OF bad] using \<open>revision m = rv\<close> by simp
    with d show False by simp
  qed
  ultimately have "?out = (fst (lua_retry_settle now op fp child m r), Inr (snd r))"
    using p m pl by (simp add: lua_retry_def r_def [symmetric] case_prod_beta retry_settle_recorded(1) del: if_cancel split del: if_split)
  with d show ?thesis by (auto intro: retry_settle_recorded(2))
qed

lemma finish_done:
  assumes ok: "redis_ok db" and d: "redis_done now (RdFinish tid owner rv out reason summ delay) db"
  shows "\<exists>m. dict_get (rd_jobs (fst (lua_finish now tid owner rv out reason summ delay db))) tid = Some m \<and> finish_token m = Some owner"
proof -
  obtain m where m: "dict_get (rd_jobs db) tid = Some m" "finish_token m = Some owner \<or> lua_owned owner rv m"
    using d by (auto simp: lua_finish_def split: option.splits if_splits)
  have t: "task_id m = tid" using redis_ok_record [OF ok m(1)] by simp
  have "task_id (fst (lua_settle now delay out reason (m\<lparr>result_summary := s\<rparr>) db)) = tid" for s
    using t by (simp add: lua_settle_def lua_terminal_def lua_retry_later_def lua_closed_def lua_retained_def lua_drop_payload_def Let_def case_prod_beta)
  with m show ?thesis by (auto simp: lua_finish_def case_prod_beta Let_def lua_save_def)
qed

lemma finish_idle:
  assumes "\<And>m. dict_get (rd_jobs db) tid = Some m \<Longrightarrow> finish_token m = Some owner"
  shows "fst (lua_finish now tid owner rv out reason summ delay db) = db"
  using assms by (auto simp: lua_finish_def split: option.split)

lemma repeated_idle:
  assumes ok: "redis_ok (redis_step now ev db)" "redis_ok (redis_prepared now db)" and d: "redis_done now ev (redis_prepared now db)"
    and t: "now1 \<le> now + METADATA_RETENTION"
  shows "redis_step now1 ev (redis_step now ev db) = redis_prepared now1 (redis_step now ev db)"
proof -
  let ?d = "redis_step now ev db"
  have rec: "recorded now op fp ?d \<Longrightarrow> \<exists>target. lua_previous op fp (redis_prepared now1 ?d) = Inr (Some target)" for op fp
    by (rule recorded_previous [OF ok(1) _ t])
  have "redis_command now1 ev (redis_prepared now1 ?d) = redis_prepared now1 ?d"
  proof (cases ev)
    case (RdFinish tid owner rv out reason summ delay)
    obtain m where "dict_get (rd_jobs ?d) tid = Some m" "finish_token m = Some owner"
      using finish_done [OF ok(2) d [unfolded RdFinish]] unfolding RdFinish redis_step_def redis_command.simps by blast
    then have "finish_token m1 = Some owner" if "dict_get (rd_jobs (redis_prepared now1 ?d)) tid = Some m1" for m1
      using prepared_remembers(1) [OF ok(1) that] by auto
    then show ?thesis using finish_idle RdFinish by simp
  next
    case (RdCancel tid rv op fp)
    then show ?thesis using rec [of op fp] cancel_recorded d previous_idle(1) by (auto simp: redis_step_def)
  next
    case (RdRetry tid rv epoch child ident policy op fp)
    then show ?thesis using rec [of op fp] retry_recorded d previous_idle(3) by (auto simp: redis_step_def)
  next
    case (RdSetLane nm policy rv ap cp op fp)
    then show ?thesis using rec [of op fp] set_lane_recorded d previous_idle(2) by (auto simp: redis_step_def)
  qed (use d in simp_all)
  then show ?thesis by (simp add: redis_step_def)
qed

end
