(* ===== verification/Redis_Agreement.thy ===== *)
theory Redis_Agreement
  imports Redis_Counts
begin

text \<open>
  The local adapter (\<open>Queue_Store\<close>) promises the same transitions as the script. For one record, the two agree on what an admission
  writes, on a claim, on a lost lease, on a settled attempt and on a cancellation; two reasons they record differ.
\<close>

section \<open>One record in both adapters\<close>

text \<open>Both adapters hold, or both lack, the payload of the record.\<close>

definition same_payload :: "redis_job \<Rightarrow> redis_db \<Rightarrow> store \<Rightarrow> bool" where
  "same_payload m db s \<longleftrightarrow> dict_has (rd_payloads db) (task_id m) = dict_has (payloads s) (task_id m)"

lemma terminal_agrees:
  assumes "same_payload m db s"
  shows "job.truncate (fst (lua_terminal now st reason safe m db)) = fst (terminal now st reason safe (job.truncate m) s)"
  using assms
  by (simp add: same_payload_def lua_terminal_def terminal_def Let_def case_prod_beta lua_closed_def lua_closing_def lua_retained_def lua_drop_payload_def
      drop_payload_def release_conflicts_def job.defs)

lemma settle_agrees:
  assumes "same_payload m db s" and "outcome r = RETRYABLE_FAILURE \<Longrightarrow> \<exists>c cs. result_reason r = Some (c # cs)"
  shows "job.truncate (fst (lua_settle now delay (outcome r) (result_reason r) m db)) = fst (finish_transition now delay r (job.truncate m) s)"
proof -
  have f: "state (job.truncate m) = state m" "attempts_started (job.truncate m) = attempts_started m" "max_attempts (job.truncate m) = max_attempts m"
    "queue_deadline_at (job.truncate m) = queue_deadline_at m" by (simp_all add: job.defs)
  have later: "job.truncate (fst (lua_retry_later now delay reason m db)) =
    (job.truncate m)\<lparr>state := (if delay > 0 then DELAYED else QUEUED), not_before := now + delay, reason_code := reason, owner_token := None,
       revision := revision m + 1, deadline_at := queue_deadline_at m,
       payload_expires_at := (if user_id m > 0 then min (queue_deadline_at m) (submitted_at m + 900) else queue_deadline_at m)\<rparr>" for reason
    by (simp add: lua_retry_later_def case_prod_beta Let_def job.defs)
  show ?thesis
    using assms(2) terminal_agrees [OF assms(1)]
    by (auto simp: lua_settle_def finish_transition_def finish_retryable_def f later) (simp_all add: job.defs)
qed

lemma cancel_agrees:
  assumes "same_payload m db s"
  shows "job.truncate (fst (lua_cancel_record now m db)) = fst (cancel_transition now (job.truncate m) s)"
proof -
  have "state (job.truncate m) = state m" by (simp add: job.defs)
  then show ?thesis using terminal_agrees [OF assms]
    by (simp add: lua_cancel_record_def cancel_transition_def case_prod_beta Let_def) (simp add: job.defs)
qed

lemma requeue_record:
  "dict_get (rd_jobs (lua_requeue m db)) (task_id m) =
    Some (m\<lparr>state := QUEUED, owner_token := None, revision := revision m + 1, deadline_at := queue_deadline_at m\<rparr>)"
  by (simp add: lua_requeue_def case_prod_beta Let_def lua_save_def)

lemma terminal_record: "dict_get (rd_jobs (snd (lua_terminal now st reason safe m db))) (task_id m) = Some (fst (lua_terminal now st reason safe m db))"
  by (simp add: lua_terminal_def Let_def case_prod_beta lua_save_def lua_closed_def lua_retained_def lua_drop_payload_def)

lemma lease_agrees:
  assumes "same_payload m db s" "dict_get (rd_jobs db) (task_id m) = Some m" "held_state (state m)"
  shows "map_option job.truncate (dict_get (rd_jobs (lua_sweep_lease now db (task_id m))) (task_id m)) = Some (fst (sweep_lease now (job.truncate m) s))"
proof -
  have f: "state (job.truncate m) = state m" "attempts_started (job.truncate m) = attempts_started m" "max_attempts (job.truncate m) = max_attempts m"
    "queue_deadline_at (job.truncate m) = queue_deadline_at m" "effectful (job.truncate m) = effectful m" "kind (job.truncate m) = kind m"
    by (simp_all add: job.defs)
  show ?thesis using assms(2,3) terminal_agrees [OF assms(1)]
    by (simp add: lua_sweep_lease_def sweep_lease_def f terminal_record requeue_record uncertain_reason_def) (simp add: job.defs)
qed

definition valid_timeout :: "redis_job \<Rightarrow> bool" where
  "valid_timeout m \<longleftrightarrow> (case execution_timeout_seconds m of None \<Rightarrow> True | Some b \<Rightarrow> 1 \<le> b \<and> b \<le> 1800)"

lemma start_agrees:
  assumes "valid_timeout m"
  shows "job.truncate (fst (lua_start now nm owner m db)) = start_run now owner (job.truncate m)"
proof (cases "lane m = ''daily'' \<and> user_id m = 0")
  case True
  with assms show ?thesis
    by (cases "execution_timeout_seconds m"; cases "take 6 (kind m) = ''tarot.''")
      (simp_all add: valid_timeout_def lua_start_def start_run_def Let_def case_prod_beta job.defs min_absorb2)
next
  case False
  then have "\<not> (lane (job.truncate m) = ''daily'' \<and> user_id (job.truncate m) = 0)" by (simp add: job.defs)
  with False show ?thesis unfolding lua_start_def start_run_def Let_def by (simp only: if_False prod.case) (simp add: case_prod_beta job.defs)
qed

text \<open>The record of an admission. The local one lists its aliases in the record, Redis in a set of its own.\<close>

lemma record_agrees:
  "(job.truncate (lua_record now p sq (job_identity env e) (job_fingerprint env e) e))\<lparr>identity_aliases := [job_identity env e]\<rparr> = new_record env now p sq e"
  by (simp add: lua_record_def new_record_def job.defs)

section \<open>The order of claims\<close>

text \<open>The score of a ready job orders as the local key does, by priority and then by age, while fewer than a million million jobs were admitted.\<close>

definition ready_score :: "redis_job \<Rightarrow> int" where
  "ready_score m = (5 - priority m) * 1000000000000 + sequence m"

lemma ready_score_order:
  assumes "0 \<le> sequence m1" "sequence m1 < 1000000000000" "0 \<le> sequence m2" "sequence m2 < 1000000000000"
  shows "ready_score m1 \<le> ready_score m2 \<longleftrightarrow> (- priority m1, sequence m1) \<le> (- priority m2, sequence m2)"
proof (cases "priority m1 = priority m2")
  case True
  then show ?thesis by (simp add: ready_score_def)
next
  case False
  then have "priority m1 \<ge> priority m2 + 1 \<or> priority m2 \<ge> priority m1 + 1" by linarith
  with assms show ?thesis by (auto simp: ready_score_def less_eq_prod_def)
qed

section \<open>Where they differ\<close>

lemma lua_terminal_reason: "reason_code (fst (lua_terminal now st reason safe m db)) = reason"
  by (simp add: lua_terminal_def Let_def case_prod_beta lua_closed_def lua_retained_def lua_drop_payload_def)

lemma terminal_reason: "reason_code (fst (terminal now st reason safe m s)) = reason"
  by (simp add: terminal_def Let_def drop_payload_def)

lemma exhausted_reason_differs:
  assumes "state m = RUNNING" "attempts_started m \<ge> max_attempts m" "outcome r = RETRYABLE_FAILURE" "result_reason r = None"
  shows "reason_code (fst (lua_settle now delay (outcome r) (result_reason r) m db)) = None \<and>
    reason_code (fst (finish_transition now delay r (job.truncate m) s)) = Some ''attempts_exhausted''"
  using assms by (simp add: lua_settle_def finish_transition_def finish_retryable_def lua_terminal_reason terminal_reason job.defs)

lemma deadline_reason_differs:
  assumes "state m = RUNNING" "effectful m" "deadline_at m \<le> now" "dict_get (rd_jobs db) (task_id m) = Some m"
  shows "map_option reason_code (dict_get (rd_jobs (lua_sweep_deadline now db (task_id m))) (task_id m)) = Some (Some (uncertain_reason m)) \<and>
    reason_code (fst (sweep_timers now (job.truncate m) s)) = Some ''deadline_exceeded''"
  using assms by (simp add: lua_sweep_deadline_def sweep_timers_def lua_uncertain_def active_state_def held_state_def
      terminal_record lua_terminal_reason terminal_reason job.defs)

end
