(* ===== verification/Redis_Properties.thy ===== *)
theory Redis_Properties
  imports Redis_Repeat Redis_Agreement
begin

text \<open>
  What the durable adapter promises, as theorems over every database its script can reach.
\<close>

section \<open>A short history\<close>

text \<open>A job of one attempt is admitted, claimed and fails; its record then expires before the next call.\<close>

definition sample_policy :: queue_policy where
  "sample_policy = \<lparr>max_jobs = 4, max_payload_bytes = 64, max_total_payload_bytes = 128, max_age_seconds = 600, max_attempts_allowed = 1\<rparr>"

definition sample_job :: envelope where
  "sample_job = \<lparr>task_id = ''j'', kind = ''daily'', lane = ''deferred'', user_id = 0, privacy_epoch = None, priority = 1, delay_seconds = 0,
     effectful = False, image_work = False, parent_task_id = None, retry_grants = 1, conflict_keys = [], execution_timeout_seconds = None,
     payload = ''abc'', idempotency_key = ''k'', envelope_summary = []\<rparr>"

definition sample_admitted :: redis_db where
  "sample_admitted = redis_step 0 (RdAdmit sample_job sample_policy ''i'' ''f'') redis_empty"

definition sample_claimed :: redis_db where
  "sample_claimed = redis_step 1 (RdClaim ''deferred'' sample_policy ''o'') sample_admitted"

definition sample_failed :: redis_db where
  "sample_failed = redis_step 2 (RdFinish ''j'' ''o'' 2 RETRYABLE_FAILURE (Some ''r'') [] 0) sample_claimed"

definition sample_later :: redis_db where
  "sample_later = redis_step 86403 RdRead sample_failed"

lemma sample_facts:
  "map fst (rd_jobs sample_admitted) = [''j'']" "map (state \<circ> snd) (rd_jobs sample_claimed) = [RUNNING]"
  "map (state \<circ> snd) (rd_jobs sample_failed) = [FAILED]" "rd_bytes sample_failed ''deferred'' = 3"
  "rd_jobs sample_later = []" "rd_bytes sample_later ''deferred'' = 3"
  by code_simp+

lemma sample_reach: "redis_reach sample_admitted" "redis_reach sample_claimed" "redis_reach sample_failed" "redis_reach sample_later"
proof -
  have "redis_fresh (RdAdmit sample_job sample_policy ''i'' ''f'') (redis_prepared 0 redis_empty)" by code_simp
  then show 1: "redis_reach sample_admitted" unfolding sample_admitted_def by (rule redis_next [OF redis_start])
  show 2: "redis_reach sample_claimed" unfolding sample_claimed_def by (rule redis_next [OF 1]) simp
  show 3: "redis_reach sample_failed" unfolding sample_failed_def by (rule redis_next [OF 2]) simp
  show "redis_reach sample_later" unfolding sample_later_def by (rule redis_next [OF 3]) simp
qed

section \<open>Counters and limits\<close>

definition lane_records :: "(redis_job \<Rightarrow> bool) \<Rightarrow> string \<Rightarrow> redis_db \<Rightarrow> redis_job list" where
  "lane_records P nm db = filter (\<lambda>m. lane m = nm \<and> P m) (dict_values (rd_jobs db))"

lemma lane_records_counts:
  "int (length (lane_records (\<lambda>m. active_state (state m)) nm db)) = dict_sum (counts_active nm) (rd_jobs db)"
  "int (length (lane_records (\<lambda>m. held_state (state m)) nm db)) = dict_sum (counts_held nm) (rd_jobs db)"
  "sum_list (map payload_bytes (lane_records payload_accounted nm db)) = dict_sum (counts_bytes nm) (rd_jobs db)"
  unfolding lane_records_def length_filter_dict_sum sum_filter_dict_sum by (simp_all add: count_defs [abs_def])

text \<open>
  Property C13. In every database the script can reach, the counters of a lane are exact: the counter of nonterminal jobs is the number
  of its waiting and held records, the counter of running jobs the number of its held records, and the byte counter covers the payloads
  its records account for. Admission and claims are decided on these counters.
\<close>

theorem redis_counts_exact:
  assumes "redis_reach db"
  shows "rd_nonterminal db nm = int (length (lane_records (\<lambda>m. active_state (state m)) nm db)) \<and>
    rd_held db nm = int (length (lane_records (\<lambda>m. held_state (state m)) nm db)) \<and>
    sum_list (map payload_bytes (lane_records payload_accounted nm db)) \<le> rd_bytes db nm"
  unfolding lane_records_counts using redis_reach_inv [OF assms] by (simp add: redis_inv_def redis_ok_def redis_counters_ok_def)

theorem redis_counts_exact_witness:
  "rd_nonterminal sample_claimed ''deferred'' = int (length (lane_records (\<lambda>m. active_state (state m)) ''deferred'' sample_claimed)) \<and>
    rd_held sample_claimed ''deferred'' = int (length (lane_records (\<lambda>m. held_state (state m)) ''deferred'' sample_claimed)) \<and>
    sum_list (map payload_bytes (lane_records payload_accounted ''deferred'' sample_claimed)) \<le> rd_bytes sample_claimed ''deferred''"
  by (rule redis_counts_exact [OF sample_reach(2)])

text \<open>
  Property C12. Whatever the callers ask, a lane never holds more running jobs than it has workers, never more waiting and running jobs
  than its cap (32 for daily, 10 for broadcast, 100 otherwise), and its payloads never exceed 8 MiB, also while a retry takes over
  the payload of its parent.
\<close>

theorem redis_capacity:
  assumes "redis_reach db"
  shows "int (length (lane_records (\<lambda>m. held_state (state m)) nm db)) \<le> lane_workers nm \<and>
    int (length (lane_records (\<lambda>m. active_state (state m)) nm db)) \<le> max_jobs (lua_caps nm) \<and>
    sum_list (map payload_bytes (lane_records payload_accounted nm db)) \<le> 8388608"
proof -
  have "redis_counters_ok db" "within_caps db" using redis_reach_inv [OF assms] by (simp_all add: redis_inv_def redis_ok_def)
  then show ?thesis unfolding lane_records_counts redis_counters_ok_def within_caps_def by (metis order_trans)
qed

theorem redis_capacity_witness:
  "int (length (lane_records (\<lambda>m. held_state (state m)) ''deferred'' sample_claimed)) \<le> lane_workers ''deferred'' \<and>
    int (length (lane_records (\<lambda>m. active_state (state m)) ''deferred'' sample_claimed)) \<le> max_jobs (lua_caps ''deferred'') \<and>
    sum_list (map payload_bytes (lane_records payload_accounted ''deferred'' sample_claimed)) \<le> 8388608"
  by (rule redis_capacity [OF sample_reach(2)])

text \<open>
  Property C40. Payload bytes can be lost to a lane. When a call comes after records of the lane have expired that still account for
  their payloads (a failed job that keeps its payload for a retry, and no call for the day its record lives), the sizes of those
  payloads become bytes the lane counts for no record, and after that call and every sequence of further calls it counts at least
  them: no command and no sweep ever gives such bytes back.
\<close>

theorem redis_leak_for_ever:
  assumes "redis_reach db" "redis_fresh ev (redis_prepared now db)" "redis_call\<^sup>*\<^sup>* (redis_step now ev db) later"
  shows "redis_leak db nm + lost_bytes now nm db \<le> redis_leak later nm"
proof -
  have inv: "redis_inv db" by (rule redis_reach_inv [OF assms(1)])
  then have "redis_leak db nm + lost_bytes now nm db \<le> redis_leak (redis_step now ev db) nm"
    using redis_step_leak assms(2) by (simp add: redis_inv_def)
  also have "\<dots> \<le> redis_leak later nm" using redis_calls_leak [OF assms(3) redis_step_inv [OF inv assms(2)]] by blast
  finally show ?thesis .
qed

theorem redis_leak_for_ever_witness:
  "rd_jobs sample_later = [] \<and> 3 \<le> redis_leak (redis_step 86500 RdRead sample_later) ''deferred''"
proof -
  have "redis_call sample_later (redis_step 86500 RdRead sample_later)"
    unfolding redis_call_def by (intro exI [of _ 86500] exI [of _ RdRead]) simp
  then have c: "redis_call\<^sup>*\<^sup>* (redis_step 86403 RdRead sample_failed) (redis_step 86500 RdRead sample_later)"
    unfolding sample_later_def by simp
  have "lost_bytes 86403 ''deferred'' sample_failed = 3" "redis_leak sample_failed ''deferred'' = 0"
    unfolding redis_leak_def by code_simp+
  with redis_leak_for_ever [OF sample_reach(3) _ c, of "''deferred''"] sample_facts(5) show ?thesis by simp
qed

section \<open>Repeated calls\<close>

text \<open>
  Property C14. A command whose answer was lost may be sent again within a day: when the first call did its work (a settled attempt, a
  recorded cancellation, a granted retry, a changed lane), the second changes nothing beyond what the sweep of any call does. In
  particular no attempt is settled twice and no second retry child is made.
\<close>

theorem redis_repeat_harmless:
  assumes "redis_reach db" "redis_fresh ev (redis_prepared now db)" "redis_done now ev (redis_prepared now db)" "now1 \<le> now + METADATA_RETENTION"
  shows "redis_step now1 ev (redis_step now ev db) = redis_prepared now1 (redis_step now ev db)"
proof (rule repeated_idle [OF _ _ assms(3,4)])
  show "redis_ok (redis_step now ev db)" using redis_reach_inv [OF redis_next [OF assms(1,2)]] by (simp add: redis_inv_def)
  show "redis_ok (redis_prepared now db)" using redis_reach_inv [OF assms(1)] prepared_kept by (simp add: redis_inv_def redis_kept_def)
qed

theorem redis_repeat_harmless_witness:
  "redis_step 3 (RdFinish ''j'' ''o'' 2 RETRYABLE_FAILURE (Some ''r'') [] 0) sample_failed = redis_prepared 3 sample_failed"
proof -
  have "redis_done 2 (RdFinish ''j'' ''o'' 2 RETRYABLE_FAILURE (Some ''r'') [] 0) (redis_prepared 2 sample_claimed)" by code_simp
  then show ?thesis unfolding sample_failed_def
    by (intro redis_repeat_harmless sample_reach) (simp_all add: METADATA_RETENTION_def)
qed

section \<open>The two adapters\<close>

text \<open>
  Property C15. Local and durable adapter move a record alike: with the same payload at hand, the records after a claim, after the
  result of an attempt, after a cancellation and after a lost lease are those of the local adapter, when a retryable failure gives its
  reason and the execution timeout is one the envelope allows.
\<close>

theorem redis_transitions_agree:
  assumes "same_payload m db s" "valid_timeout m" "dict_get (rd_jobs db) (task_id m) = Some m"
    and "outcome r = RETRYABLE_FAILURE \<Longrightarrow> \<exists>c cs. result_reason r = Some (c # cs)"
  shows "job.truncate (fst (lua_settle now delay (outcome r) (result_reason r) m db)) = fst (finish_transition now delay r (job.truncate m) s) \<and>
    job.truncate (fst (lua_cancel_record now m db)) = fst (cancel_transition now (job.truncate m) s) \<and>
    job.truncate (fst (lua_start now nm owner m db)) = start_run now owner (job.truncate m) \<and>
    (held_state (state m) \<longrightarrow>
      map_option job.truncate (dict_get (rd_jobs (lua_sweep_lease now db (task_id m))) (task_id m)) = Some (fst (sweep_lease now (job.truncate m) s)))"
  using settle_agrees [OF assms(1,4)] cancel_agrees [OF assms(1)] start_agrees [OF assms(2)] lease_agrees [OF assms(1,3)] by blast

definition sample_record :: redis_job where
  "sample_record = (lua_record 0 sample_policy 1 ''i'' ''f'' sample_job)\<lparr>state := RUNNING, owner_token := Some ''o'', attempts_started := 1\<rparr>"

definition sample_db :: redis_db where
  "sample_db = redis_empty\<lparr>rd_jobs := [(''j'', sample_record)], rd_payloads := [(''j'', ''abc'', 900)]\<rparr>"

definition sample_store :: store where
  "sample_store = empty_store\<lparr>payloads := [(''j'', ''abc'')]\<rparr>"

lemma sample_agreement:
  "same_payload sample_record sample_db sample_store" "valid_timeout sample_record"
  "dict_get (rd_jobs sample_db) (task_id sample_record) = Some sample_record" "held_state (state sample_record)"
  by (simp_all add: same_payload_def dict_has_def sample_db_def sample_store_def sample_record_def valid_timeout_def lua_record_def sample_job_def held_state_def)

theorem redis_transitions_agree_witness:
  "job.truncate (fst (lua_settle 2 0 RETRYABLE_FAILURE (Some ''r'') sample_record sample_db)) =
      fst (finish_transition 2 0 (mk_result RETRYABLE_FAILURE (Some ''r'') []) (job.truncate sample_record) sample_store) \<and>
    map_option job.truncate (dict_get (rd_jobs (lua_sweep_lease 100 sample_db (task_id sample_record))) (task_id sample_record)) =
      Some (fst (sweep_lease 100 (job.truncate sample_record) sample_store))"
  using redis_transitions_agree [OF sample_agreement(1-3), of "mk_result RETRYABLE_FAILURE (Some ''r'') []" 2 0]
    redis_transitions_agree [OF sample_agreement(1-3), of "mk_result RETRYABLE_FAILURE (Some ''r'') []" 100 0] sample_agreement(4)
  by (simp add: mk_result_def)

end
