(* ===== verification/Document_Jobs.thy ===== *)
theory Document_Jobs
  imports Queue_Contracts
begin

text \<open>
  The job that stores an uploaded document: \<open>DocumentProcessor.process_document\<close> (\<open>document_processor.py\<close>) and the handler
  \<open>_handle_document_processing\<close> (\<open>queue_runtime.py\<close>) that turns its report into the result of a job. What the parsers, the
  repository and the guard of the job answer is given to the model; it records whether the repository's transaction was entered.
\<close>

section \<open>Processing\<close>

text \<open>Exceptions by the clause that takes them: errors of the database and of connections (transient or not), errors of values
  and files, and the others, which leave \<open>process_document\<close>; those of the job's guard are among them.\<close>

datatype doc_exc = StorageError bool | FileError string | OtherError

datatype doc_stage = Validation | DuplicateLookup | Parsing | StorageWrite

record document_report =
  dr_error :: "string option"
  dr_stage :: "doc_stage option"
  dr_write_started :: "bool option"
  dr_retryable :: "bool option"
  dr_summary :: summary

definition plain_error :: "string \<Rightarrow> document_report" where
  "plain_error msg = \<lparr>dr_error = Some msg, dr_stage = None, dr_write_started = None, dr_retryable = None, dr_summary = []\<rparr>"

text \<open>The \<open>except\<close> clauses; \<open>None\<close> passes the exception on.\<close>

definition caught :: "doc_stage \<Rightarrow> bool \<Rightarrow> doc_exc \<Rightarrow> document_report option" where
  "caught stage write_started e =
    (case e of
       StorageError transient \<Rightarrow>
         Some \<lparr>dr_error = Some ''storage_error'', dr_stage = Some stage, dr_write_started = Some write_started,
           dr_retryable = Some (stage = DuplicateLookup \<and> \<not> write_started \<and> transient), dr_summary = []\<rparr>
     | FileError msg \<Rightarrow>
         Some \<lparr>dr_error = Some (''Error processing document: '' @ msg), dr_stage = Some stage, dr_write_started = Some write_started,
           dr_retryable = Some False, dr_summary = []\<rparr>
     | OtherError \<Rightarrow> None)"

text \<open>What the calls answer: the hash, the duplicate lookup (whether there is one), the parser, the checkpoint of the guard
  (nothing without a guard) and the repository's save (whether it found a duplicate).\<close>

record document_calls =
  hash_answer :: "doc_exc option"
  lookup_answer :: "doc_exc + bool"
  parse_answer :: "doc_exc + document_report"
  guard_answer :: "doc_exc option"
  save_answer :: "doc_exc + bool"

abbreviation (input) "MAX_FILE_SIZE \<equiv> 10 * 1024 * 1024 :: nat"

definition supported_formats :: "string list" where
  "supported_formats = [''.pdf'', ''.docx'', ''.doc'']"

definition no_error :: "document_report \<Rightarrow> bool" where
  "no_error rp \<longleftrightarrow> dr_error rp = None \<or> dr_error rp = Some []"

text \<open>The first component tells whether the save was entered.\<close>

definition process_document :: "nat \<Rightarrow> string \<Rightarrow> document_calls \<Rightarrow> bool \<times> document_report option" where
  "process_document bytes ext calls =
    (if bytes > MAX_FILE_SIZE then (False, Some (plain_error ''File too large. Maximum size is 10MB''))
     else if ext \<notin> set supported_formats then (False, Some (plain_error (''Unsupported file format: '' @ ext)))
     else
       (case hash_answer calls of
          Some e \<Rightarrow> (False, caught Validation False e)
        | None \<Rightarrow>
           (case lookup_answer calls of
              Inl e \<Rightarrow> (False, caught DuplicateLookup False e)
            | Inr True \<Rightarrow> (False, Some (plain_error ''duplicate''))
            | Inr False \<Rightarrow>
               (case parse_answer calls of
                  Inl e \<Rightarrow> (False, caught Parsing False e)
                | Inr rp \<Rightarrow>
                   (if \<not> no_error rp then (False, Some rp)
                    else
                      (case guard_answer calls of
                         Some e \<Rightarrow> (False, caught Parsing False e)
                       | None \<Rightarrow>
                          (case save_answer calls of
                             Inl e \<Rightarrow> (True, caught StorageWrite True e)
                           | Inr True \<Rightarrow> (True, Some (plain_error ''duplicate''))
                           | Inr False \<Rightarrow> (True, Some rp))))))))"

section \<open>The handler\<close>

datatype document_user = UserInt int | UserText string | UserOther

definition document_user_id :: "document_user \<Rightarrow> int option" where
  "document_user_id u = (case u of UserInt i \<Rightarrow> Some i | UserText x \<Rightarrow> py_int x | UserOther \<Rightarrow> None)"

definition given_user :: "document_user option \<Rightarrow> bool" where
  "given_user u = (case u of None \<Rightarrow> False | Some (UserInt i) \<Rightarrow> i \<noteq> 0 | Some (UserText x) \<Rightarrow> x \<noteq> [] | Some UserOther \<Rightarrow> True)"

definition document_outcome :: "document_report \<Rightarrow> job_result" where
  "document_outcome rp =
    (if no_error rp then mk_result SUCCEEDED_outcome None (dr_summary rp)
     else if dr_write_started rp = Some True \<or> dr_stage rp = Some StorageWrite
     then mk_result UNKNOWN_DELIVERY_outcome (Some ''document_storage_unconfirmed'') []
     else if dr_error rp = Some ''storage_error'' \<and> dr_stage rp = Some DuplicateLookup \<and>
       dr_write_started rp = Some False \<and> dr_retryable rp = Some True
     then mk_result RETRYABLE_FAILURE (Some ''document_storage_unavailable'') []
     else if dr_error rp = Some ''storage_error'' \<and> \<not> (dr_stage rp = Some DuplicateLookup \<and> dr_write_started rp = Some False)
     then mk_result UNKNOWN_DELIVERY_outcome (Some ''document_storage_unconfirmed'') []
     else mk_result PERMANENT_FAILURE (Some ''document_processing_failed'') [])"

text \<open>\<open>process\<close> is \<open>process_uploaded_document\<close> for the file and the user; an exception out of it is taken by the last clause.\<close>

definition handle_document_processing ::
    "string \<Rightarrow> string \<Rightarrow> document_user option \<Rightarrow> (int \<Rightarrow> bool \<times> document_report option) \<Rightarrow> bool \<times> job_result" where
  "handle_document_processing file_data filename user process =
    (if file_data = [] \<or> filename = [] \<or> \<not> given_user user
     then (False, mk_result PERMANENT_FAILURE (Some ''invalid_document_parameters'') [])
     else
       (case document_user_id (the user) of
          None \<Rightarrow> (False, mk_result PERMANENT_FAILURE (Some ''invalid_document_parameters'') [])
        | Some uid \<Rightarrow>
           (case process uid of
              (wrote, None) \<Rightarrow> (wrote, mk_result UNKNOWN_DELIVERY_outcome (Some ''document_storage_unconfirmed'') [])
            | (wrote, Some rp) \<Rightarrow> (wrote, document_outcome rp))))"

definition document_job :: "string \<Rightarrow> string \<Rightarrow> document_user option \<Rightarrow> string \<Rightarrow> (int \<Rightarrow> document_calls) \<Rightarrow> bool \<times> job_result" where
  "document_job file_data filename user ext calls =
    handle_document_processing file_data filename user (\<lambda>uid. process_document (length file_data) ext (calls uid))"

section \<open>Properties\<close>

lemma caught_cases:
  "caught stage wrote e = Some rp \<Longrightarrow>
    \<not> no_error rp \<and> dr_stage rp = Some stage \<and> dr_write_started rp = Some wrote \<and>
    (dr_retryable rp = Some True \<longrightarrow> stage = DuplicateLookup \<and> e = StorageError True)"
  by (auto simp: caught_def no_error_def split: doc_exc.splits)

text \<open>What a parser reports carries no claims about the storage.\<close>

definition parser_report :: "document_calls \<Rightarrow> bool" where
  "parser_report calls = (case parse_answer calls of Inl e \<Rightarrow> True | Inr rp \<Rightarrow> dr_stage rp = None \<and> dr_write_started rp = None)"

lemma processed_wrote:
  assumes "process_document bytes ext calls = (wrote, Some rp)" and "parser_report calls"
  shows "no_error rp \<Longrightarrow> wrote \<and> save_answer calls = Inr False"
    and "dr_write_started rp = Some False \<Longrightarrow> \<not> wrote"
    and "wrote \<Longrightarrow> no_error rp \<or> save_answer calls = Inr True \<or> dr_write_started rp = Some True"
    and "dr_stage rp = Some DuplicateLookup \<Longrightarrow> lookup_answer calls \<noteq> Inr False"
  using assms
  by (auto simp: process_document_def parser_report_def plain_error_def no_error_def
      split: if_splits option.splits sum.splits bool.splits dest!: caught_cases)

lemma document_outcome_cases:
  "outcome (document_outcome rp) = SUCCEEDED_outcome \<longleftrightarrow> no_error rp"
  "outcome (document_outcome rp) = RETRYABLE_FAILURE \<Longrightarrow>
    dr_stage rp = Some DuplicateLookup \<and> dr_write_started rp = Some False \<and> dr_retryable rp = Some True"
  "dr_write_started rp = Some True \<Longrightarrow> \<not> no_error rp \<Longrightarrow> outcome (document_outcome rp) = UNKNOWN_DELIVERY_outcome"
  by (auto simp: document_outcome_def mk_result_def split: if_splits)

text \<open>Property C36. The result of a document job is honest about the storage, whatever its calls answer: it succeeds only after
  a save that was confirmed, it asks for another execution only when the save was not entered and the failure was transient,
  and once the save was entered every end but a confirmed one or a reported duplicate is UNKNOWN_DELIVERY.\<close>

theorem document_job_outcomes:
  assumes "document_job file_data filename user ext calls = (wrote, r)"
    and "\<And>uid. parser_report (calls uid)"
  shows "(outcome r = SUCCEEDED_outcome \<longrightarrow> wrote \<and> (\<exists>uid. save_answer (calls uid) = Inr False)) \<and>
    (outcome r = RETRYABLE_FAILURE \<longrightarrow> \<not> wrote \<and> (\<exists>uid. lookup_answer (calls uid) \<noteq> Inr False)) \<and>
    (wrote \<and> outcome r \<noteq> SUCCEEDED_outcome \<longrightarrow>
      outcome r = UNKNOWN_DELIVERY_outcome \<or> (\<exists>uid. save_answer (calls uid) = Inr True))"
proof (cases "\<exists>uid rp. process_document (length file_data) ext (calls uid) = (wrote, Some rp) \<and> r = document_outcome rp")
  case True
  then obtain uid rp where p: "process_document (length file_data) ext (calls uid) = (wrote, Some rp)" and r: "r = document_outcome rp" by blast
  note w = processed_wrote [OF p assms(2)]
  show ?thesis unfolding r using w document_outcome_cases [of rp] by metis
next
  case False
  with assms(1) have "outcome r = PERMANENT_FAILURE \<and> \<not> wrote \<or> outcome r = UNKNOWN_DELIVERY_outcome"
    by (auto simp: document_job_def handle_document_processing_def mk_result_def split: if_splits option.splits prod.splits)
  then show ?thesis by auto
qed

definition demo_report :: document_report where
  "demo_report = \<lparr>dr_error = None, dr_stage = None, dr_write_started = None, dr_retryable = None, dr_summary = []\<rparr>"

definition demo_calls :: "doc_exc option \<Rightarrow> document_calls" where
  "demo_calls g =
    \<lparr>hash_answer = None, lookup_answer = Inr False,
     parse_answer = Inr demo_report,
     guard_answer = g, save_answer = Inr False\<rparr>"

theorem document_job_outcomes_witness:
  "fst (document_job ''data'' ''a.pdf'' (Some (UserInt 7)) ''.pdf'' (\<lambda>uid. demo_calls None)) \<and>
   (\<exists>uid :: int. save_answer (demo_calls None) = Inr False)"
proof -
  let ?j = "document_job ''data'' ''a.pdf'' (Some (UserInt 7)) ''.pdf'' (\<lambda>uid. demo_calls None)"
  have "?j = (fst ?j, snd ?j)" by simp
  moreover have "parser_report (demo_calls None)" by (simp add: parser_report_def demo_calls_def demo_report_def)
  moreover have "outcome (snd ?j) = SUCCEEDED_outcome"
    by (simp add: document_job_def handle_document_processing_def process_document_def document_outcome_def demo_calls_def
        given_user_def document_user_id_def supported_formats_def no_error_def mk_result_def demo_report_def)
  ultimately show ?thesis using document_job_outcomes by metis
qed

text \<open>Property C37. The guard's exceptions do not reach the worker: when the checkpoint before the save finds that the job was
  cancelled or lost, nothing is written, and yet the handler returns UNKNOWN_DELIVERY instead of letting the typed exception
  end the execution, so that a cancelled document job is reported as perhaps delivered.\<close>

theorem document_cancel_unconfirmed:
  assumes "guard_answer (calls uid) = Some OtherError" and "hash_answer (calls uid) = None" and "lookup_answer (calls uid) = Inr False"
    and "parse_answer (calls uid) = Inr rp" and "no_error rp" and "length file_data \<le> MAX_FILE_SIZE" and "ext \<in> set supported_formats"
    and "file_data \<noteq> []" and "filename \<noteq> []" and "given_user (Some u)" and "document_user_id u = Some uid"
  shows "document_job file_data filename (Some u) ext calls =
    (False, mk_result UNKNOWN_DELIVERY_outcome (Some ''document_storage_unconfirmed'') [])"
  using assms by (simp add: document_job_def handle_document_processing_def process_document_def caught_def)

theorem document_cancel_unconfirmed_witness:
  "document_job ''data'' ''a.pdf'' (Some (UserInt 7)) ''.pdf'' (\<lambda>uid. demo_calls (Some OtherError)) =
    (False, mk_result UNKNOWN_DELIVERY_outcome (Some ''document_storage_unconfirmed'') [])"
  by (rule document_cancel_unconfirmed [where uid = 7 and rp = demo_report])
    (simp_all add: demo_calls_def demo_report_def no_error_def supported_formats_def given_user_def document_user_id_def)

end
