(* ===== verification/Broadcast_Journal.thy ===== *)
theory Broadcast_Journal
  imports Prelude
begin

text \<open>
  The journal of broadcasts (\<open>repos/broadcast_jobs.py\<close>): batches, their recipients and the delivery attempts are three
  tables, and every function of the repository that writes is one transaction, here one function on the journal. A statement
  \<open>UPDATE ... WHERE\<close> becomes the update of the row with that key if it meets the condition. The times of creation and settlement, and the identifiers of attempts derived from their sequence numbers, are left
  out; so are the checks of the schema on the counts, which \<open>Broadcast_Counts\<close> shows never to fail.
\<close>

section \<open>Tables\<close>

datatype batch_state = Draft | Queued | BatchRunning | Finished

datatype recipient_state = Pending | Started | Sent | Failed | Skipped | UnknownDelivery

record batch_row =
  bt_operation :: string
  bt_parent :: "string option"
  bt_task :: "string option"
  bt_admission :: string
  bt_admission_reason :: string
  bt_storage :: string
  bt_channel :: string
  bt_mode :: string
  bt_date :: string
  bt_variant :: string
  bt_force :: bool
  bt_scheduled :: bool
  bt_settings :: "int option"
  bt_state :: batch_state
  bt_owner :: "string option"
  bt_total :: int
  bt_pending :: int
  bt_started :: int
  bt_sent :: int
  bt_failed :: int
  bt_skipped :: int
  bt_unknown :: int
  bt_retryable :: int

record recipient_row =
  rc_channel :: string
  rc_epoch :: "int option"
  rc_fingerprint :: "string option"
  rc_claimed_at :: "int option"
  rc_slot_date :: "string option"
  rc_schedule_key :: "string option"
  rc_state :: recipient_state
  rc_owner :: "string option"
  rc_reason :: "string option"
  rc_retryable :: bool
  rc_message :: "int option"

record attempt_row =
  at_batch :: string
  at_recipient :: int
  at_channel :: string
  at_sequence :: int
  at_owner :: string
  at_outcome :: recipient_state
  at_reason :: "string option"
  at_retryable :: bool
  at_message :: "int option"
  at_date :: string
  at_settings :: "int option"

record journal =
  jn_batches :: "(string, batch_row) dict"
  jn_recipients :: "(string \<times> int, recipient_row) dict"
  jn_attempts :: "(string, attempt_row) dict"

record delivery_result =
  dl_outcome :: recipient_state
  dl_reason :: string
  dl_retryable :: bool
  dl_message :: "int option"

definition delivered_as :: "recipient_state \<Rightarrow> string \<Rightarrow> bool \<Rightarrow> delivery_result" where
  "delivered_as out reason retry = \<lparr>dl_outcome = out, dl_reason = reason, dl_retryable = retry, dl_message = None\<rparr>"

text \<open>What \<open>candidates\<close> reports of a user; a reason excludes the user.\<close>

record candidate =
  cd_recipient :: int
  cd_epoch :: "int option"
  cd_reason :: "string option"
  cd_fingerprint :: "string option"
  cd_claimed_at :: "int option"
  cd_slot_date :: "string option"

definition update_batch :: "string \<Rightarrow> (batch_row \<Rightarrow> batch_row) \<Rightarrow> journal \<Rightarrow> journal" where
  "update_batch b f j =
    (case dict_get (jn_batches j) b of None \<Rightarrow> j | Some row \<Rightarrow> j\<lparr>jn_batches := dict_set (jn_batches j) b (f row)\<rparr>)"

definition put_recipient :: "string \<times> int \<Rightarrow> recipient_row \<Rightarrow> journal \<Rightarrow> journal" where
  "put_recipient k row j = j\<lparr>jn_recipients := dict_set (jn_recipients j) k row\<rparr>"

section \<open>Creating a batch\<close>

text \<open>A failed recipient of the parent grants one child: its flag is consumed, and a candidate without one is excluded.\<close>

definition consume_retry :: "string \<Rightarrow> journal \<times> int \<times> candidate list \<Rightarrow> candidate \<Rightarrow> journal \<times> int \<times> candidate list" where
  "consume_retry parent acc c =
    (case acc of (j, consumed, cs) \<Rightarrow>
      (case dict_get (jn_recipients j) (parent, cd_recipient c) of
         Some row \<Rightarrow>
           (if rc_state row = Failed \<and> rc_retryable row
            then (put_recipient (parent, cd_recipient c) (row\<lparr>rc_retryable := False\<rparr>) j, consumed + 1, cs @ [c])
            else (j, consumed, cs @ [if cd_reason c = None then c\<lparr>cd_reason := Some ''retry_already_requested''\<rparr> else c]))
       | None \<Rightarrow> (j, consumed, cs @ [if cd_reason c = None then c\<lparr>cd_reason := Some ''retry_already_requested''\<rparr> else c])))"

record batch_request =
  br_batch :: string
  br_operation :: string
  br_channel :: string
  br_mode :: string
  br_date :: string
  br_variant :: string
  br_force :: bool
  br_candidates :: "candidate list"
  br_parent :: "string option"
  br_settings :: "int option"
  br_scheduled :: bool

definition schedule_key :: "(string \<Rightarrow> string) \<Rightarrow> batch_request \<Rightarrow> candidate \<Rightarrow> string option" where
  "schedule_key sha rq c =
    (if br_scheduled rq then
       Some (sha (br_channel rq @ '':'' @ br_mode rq @ '':'' @
         (case cd_slot_date c of Some d \<Rightarrow> if d \<noteq> [] then d else br_date rq | None \<Rightarrow> br_date rq) @ '':'' @ br_variant rq @ '':'' @
         show_int (cd_recipient c) @ '':'' @ (case cd_epoch c of Some e \<Rightarrow> show_int e | None \<Rightarrow> ''None'')))
     else None)"

definition free_parent_key :: "batch_request \<Rightarrow> string option \<Rightarrow> candidate \<Rightarrow> journal \<Rightarrow> journal" where
  "free_parent_key rq key c j =
    (case (br_parent rq, key) of
       (Some parent, Some k) \<Rightarrow>
         (case dict_get (jn_recipients j) (parent, cd_recipient c) of
            Some row \<Rightarrow>
              (if rc_state row = Failed \<and> rc_schedule_key row = Some k
               then put_recipient (parent, cd_recipient c) (row\<lparr>rc_schedule_key := None\<rparr>) j else j)
          | None \<Rightarrow> j)
     | _ \<Rightarrow> j)"

text \<open>\<open>ON CONFLICT DO NOTHING\<close> over the primary key and the unique schedule keys; the user must exist.\<close>

definition insertable :: "(int \<Rightarrow> bool) \<Rightarrow> string \<Rightarrow> candidate \<Rightarrow> string option \<Rightarrow> journal \<Rightarrow> bool" where
  "insertable users b c key j \<longleftrightarrow>
    users (cd_recipient c) \<and> \<not> dict_has (jn_recipients j) (b, cd_recipient c) \<and>
    (key = None \<or> list_all (\<lambda>e. rc_schedule_key (snd e) \<noteq> key) (jn_recipients j))"

definition insert_recipient :: "(string \<Rightarrow> string) \<Rightarrow> (int \<Rightarrow> bool) \<Rightarrow> batch_request \<Rightarrow> journal \<Rightarrow> candidate \<Rightarrow> journal" where
  "insert_recipient sha users rq j c =
    (let key = schedule_key sha rq c; j1 = free_parent_key rq key c j in
     if insertable users (br_batch rq) c key j1 then
       put_recipient (br_batch rq, cd_recipient c)
         \<lparr>rc_channel = br_channel rq, rc_epoch = cd_epoch c, rc_fingerprint = cd_fingerprint c,
          rc_claimed_at = cd_claimed_at c, rc_slot_date = cd_slot_date c,
          rc_schedule_key = key, rc_state = Pending, rc_owner = None, rc_reason = None, rc_retryable = False, rc_message = None\<rparr> j1
     else update_batch (br_batch rq) (\<lambda>b. b\<lparr>bt_pending := bt_pending b - 1, bt_skipped := bt_skipped b + 1\<rparr>) j1)"

definition new_batch :: "batch_request \<Rightarrow> candidate list \<Rightarrow> batch_row" where
  "new_batch rq cs =
    (let eligible = int (length (filter (\<lambda>c. cd_reason c = None) cs)); n = int (length cs) in
     \<lparr>bt_operation = br_operation rq, bt_parent = br_parent rq, bt_task = None, bt_admission = ''unknown'',
      bt_admission_reason = ''admission_not_confirmed'', bt_storage = ''unavailable'', bt_channel = br_channel rq, bt_mode = br_mode rq,
      bt_date = br_date rq, bt_variant = br_variant rq, bt_force = br_force rq, bt_scheduled = br_scheduled rq,
      bt_settings = br_settings rq, bt_state = Draft, bt_owner = None, bt_total = n, bt_pending = eligible, bt_started = 0,
      bt_sent = 0, bt_failed = 0, bt_skipped = n - eligible, bt_unknown = 0, bt_retryable = 0\<rparr>)"

datatype create_result = ExistingBatch string | NoCapacity | CreatedBatch | PrimaryKeyTaken

definition batch_of_operation :: "string \<Rightarrow> journal \<Rightarrow> string option" where
  "batch_of_operation op j = map_option fst (find (\<lambda>e. bt_operation (snd e) = op) (jn_batches j))"

definition create_batch :: "(string \<Rightarrow> string) \<Rightarrow> (int \<Rightarrow> bool) \<Rightarrow> batch_request \<Rightarrow> journal \<Rightarrow> journal \<times> create_result" where
  "create_batch sha users rq j =
    (case batch_of_operation (br_operation rq) j of
       Some b \<Rightarrow> (j, ExistingBatch b)
     | None \<Rightarrow>
        (if length (filter (\<lambda>e. bt_state (snd e) \<noteq> Finished) (jn_batches j)) \<ge> 10 then (j, NoCapacity)
         else if dict_has (jn_batches j) (br_batch rq) then (j, PrimaryKeyTaken)
         else
           (case (case br_parent rq of
                    None \<Rightarrow> (j, 0, br_candidates rq)
                  | Some parent \<Rightarrow>
                     (case foldl (consume_retry parent) (j, 0, []) (br_candidates rq) of
                        (j1, consumed, cs) \<Rightarrow>
                          (update_batch parent (\<lambda>b. b\<lparr>bt_retryable := bt_retryable b - consumed\<rparr>) j1, consumed, cs))) of
              (j1, consumed, cs) \<Rightarrow>
                (foldl (insert_recipient sha users rq)
                   (j1\<lparr>jn_batches := dict_set (jn_batches j1) (br_batch rq) (new_batch rq cs)\<rparr>)
                   (filter (\<lambda>c. cd_reason c = None) cs),
                 CreatedBatch))))"

section \<open>Admission, claims and settlements\<close>

text \<open>A set of rows at once.\<close>

definition update_recipients :: "string \<Rightarrow> (recipient_row \<Rightarrow> recipient_row) \<Rightarrow> journal \<Rightarrow> journal" where
  "update_recipients b f j =
    j\<lparr>jn_recipients := map (\<lambda>e. if fst (fst e) = b then (fst e, f (snd e)) else e) (jn_recipients j)\<rparr>"

definition record_admission :: "string \<Rightarrow> string \<Rightarrow> string option \<Rightarrow> string \<Rightarrow> string option \<Rightarrow> journal \<Rightarrow> journal" where
  "record_admission b st reason storage task j =
    (let j1 = update_batch b (\<lambda>row. row\<lparr>bt_admission := st,
           bt_admission_reason := (case reason of Some r \<Rightarrow> if r \<noteq> [] then r else ''admission_confirmed'' | None \<Rightarrow> ''admission_confirmed''),
           bt_storage := storage, bt_task := (if bt_task row = None then task else bt_task row),
           bt_state := (if bt_state row = Draft \<and> task \<noteq> None then Queued else bt_state row)\<rparr>) j
     in if st \<noteq> ''rejected'' then j1
        else
          update_batch b (\<lambda>row. if bt_state row \<in> {Draft, Queued}
              then row\<lparr>bt_failed := bt_failed row + bt_pending row, bt_retryable := bt_retryable row + bt_pending row,
                       bt_pending := 0, bt_state := Finished\<rparr> else row)
            (update_recipients b (\<lambda>row. if rc_state row = Pending
               then row\<lparr>rc_state := Failed, rc_reason := Some ''queue_admission_rejected'', rc_retryable := True\<rparr> else row) j1))"

definition claim_batch :: "string \<Rightarrow> string \<Rightarrow> string \<Rightarrow> int option \<Rightarrow> journal \<Rightarrow> journal \<times> bool" where
  "claim_batch b task token settings j =
    (case dict_get (jn_batches j) b of
       None \<Rightarrow> (j, False)
     | Some row \<Rightarrow>
        (if (bt_task row = None \<or> bt_task row = Some task) \<and> bt_state row \<in> {Draft, Queued}
         then (update_batch b (\<lambda>r. r\<lparr>bt_state := BatchRunning, bt_owner := Some token, bt_settings := settings, bt_task := Some task\<rparr>) j, True)
         else (j, False)))"

definition claim_recipient :: "string \<Rightarrow> int \<Rightarrow> string \<Rightarrow> string \<Rightarrow> journal \<Rightarrow> journal \<times> bool" where
  "claim_recipient b r batch_token token j =
    (case (dict_get (jn_batches j) b, dict_get (jn_recipients j) (b, r)) of
       (Some bt, Some row) \<Rightarrow>
         (if bt_owner bt = Some batch_token \<and> bt_state bt = BatchRunning \<and> rc_state row = Pending
          then (update_batch b (\<lambda>x. x\<lparr>bt_pending := bt_pending x - 1, bt_started := bt_started x + 1\<rparr>)
                  (put_recipient (b, r) (row\<lparr>rc_state := Started, rc_owner := Some token\<rparr>) j), True)
          else (j, False))
     | _ \<Rightarrow> (j, False))"

definition start_attempt :: "string \<Rightarrow> string \<Rightarrow> int \<Rightarrow> string \<Rightarrow> int \<Rightarrow> journal \<Rightarrow> journal \<times> bool" where
  "start_attempt attempt b r token sq j =
    (case (dict_get (jn_batches j) b, dict_get (jn_recipients j) (b, r)) of
       (Some bt, Some row) \<Rightarrow>
         (if rc_state row = Started \<and> rc_owner row = Some token
          then (j\<lparr>jn_attempts := dict_set (jn_attempts j) attempt
                  \<lparr>at_batch = b, at_recipient = r, at_channel = rc_channel row, at_sequence = sq, at_owner = token, at_outcome = Started,
                   at_reason = None, at_retryable = False, at_message = None,
                   at_date = (case rc_slot_date row of Some d \<Rightarrow> d | None \<Rightarrow> bt_date bt), at_settings = bt_settings bt\<rparr>\<rparr>, True)
          else (j, False))
     | _ \<Rightarrow> (j, False))"

definition finish_attempt :: "string \<Rightarrow> string \<Rightarrow> delivery_result \<Rightarrow> journal \<Rightarrow> journal \<times> bool" where
  "finish_attempt attempt token res j =
    (case dict_get (jn_attempts j) attempt of
       None \<Rightarrow> (j, False)
     | Some a \<Rightarrow>
        (case dict_get (jn_recipients j) (at_batch a, at_recipient a) of
           None \<Rightarrow> (j, False)
         | Some row \<Rightarrow>
            (if at_owner a = token \<and> at_outcome a = Started \<and> rc_channel row = at_channel a \<and> rc_state row = Started \<and> rc_owner row = Some token
             then (j\<lparr>jn_attempts := dict_set (jn_attempts j) attempt
                     (a\<lparr>at_outcome := dl_outcome res, at_reason := Some (dl_reason res), at_retryable := dl_retryable res,
                        at_message := dl_message res\<rparr>)\<rparr>, True)
             else (j, False))))"

definition count_outcome :: "recipient_state \<Rightarrow> batch_row \<Rightarrow> batch_row" where
  "count_outcome out b =
    (case out of
       Sent \<Rightarrow> b\<lparr>bt_sent := bt_sent b + 1\<rparr>
     | Failed \<Rightarrow> b\<lparr>bt_failed := bt_failed b + 1\<rparr>
     | Skipped \<Rightarrow> b\<lparr>bt_skipped := bt_skipped b + 1\<rparr>
     | UnknownDelivery \<Rightarrow> b\<lparr>bt_unknown := bt_unknown b + 1\<rparr>
     | _ \<Rightarrow> b)"

text \<open>An outcome that is none of the four raises \<open>ValueError\<close>: \<open>None\<close>.\<close>

definition finish_recipient :: "string \<Rightarrow> int \<Rightarrow> string \<Rightarrow> delivery_result \<Rightarrow> journal \<Rightarrow> (journal \<times> bool) option" where
  "finish_recipient b r token res j =
    (if dl_outcome res \<in> {Pending, Started} then None
     else
       Some (case dict_get (jn_recipients j) (b, r) of
          None \<Rightarrow> (j, False)
        | Some row \<Rightarrow>
           (if rc_owner row = Some token \<and> rc_state row = Started
            then (update_batch b (\<lambda>x. (count_outcome (dl_outcome res) x)\<lparr>bt_started := bt_started x - 1,
                      bt_retryable := bt_retryable x + of_bool (dl_outcome res = Failed \<and> dl_retryable res)\<rparr>)
                    (put_recipient (b, r) (row\<lparr>rc_state := dl_outcome res, rc_reason := Some (dl_reason res),
                       rc_retryable := dl_retryable res, rc_message := dl_message res, rc_owner := None\<rparr>) j), True)
            else (j, False))))"

definition finish_batch :: "string \<Rightarrow> string \<Rightarrow> journal \<Rightarrow> journal \<times> bool" where
  "finish_batch b token j =
    (case dict_get (jn_batches j) b of
       None \<Rightarrow> (j, False)
     | Some row \<Rightarrow>
        (if bt_owner row = Some token \<and> bt_pending row = 0 \<and> bt_started row = 0
         then (update_batch b (\<lambda>x. x\<lparr>bt_state := Finished, bt_owner := None\<rparr>) j, True) else (j, False)))"

definition interrupt_batch :: "string \<Rightarrow> journal \<Rightarrow> journal" where
  "interrupt_batch b j =
    update_batch b (\<lambda>x. if bt_state x \<noteq> Finished
        then x\<lparr>bt_state := Finished, bt_owner := None, bt_unknown := bt_unknown x + bt_started x,
               bt_skipped := bt_skipped x + bt_pending x, bt_started := 0, bt_pending := 0\<rparr> else x)
      (update_recipients b (\<lambda>row. if rc_state row \<in> {Pending, Started}
          then row\<lparr>rc_state := (if rc_state row = Started then UnknownDelivery else Skipped),
                   rc_reason := Some (if rc_state row = Started then ''worker_interrupted'' else ''batch_interrupted''),
                   rc_retryable := False, rc_owner := None\<rparr> else row)
        (j\<lparr>jn_attempts := map (\<lambda>e. if at_batch (snd e) = b \<and> at_outcome (snd e) = Started
            then (fst e, (snd e)\<lparr>at_outcome := UnknownDelivery, at_reason := Some ''worker_interrupted''\<rparr>) else e) (jn_attempts j)\<rparr>))"

text \<open>Rows kept too long go, with their attempts (\<open>old\<close> is the choice the statement makes by their age).\<close>

definition purge_recipients :: "(string \<times> int) list \<Rightarrow> journal \<Rightarrow> journal" where
  "purge_recipients old j =
    j\<lparr>jn_recipients := filter (\<lambda>e. fst e \<notin> set old) (jn_recipients j),
      jn_attempts := filter (\<lambda>e. (at_batch (snd e), at_recipient (snd e)) \<notin> set old) (jn_attempts j)\<rparr>"

text \<open>The rows of an erased user go at once, and the counts keep what was pending as skipped and what was started as unknown.\<close>

definition rows_of :: "string \<Rightarrow> (int \<Rightarrow> recipient_row \<Rightarrow> bool) \<Rightarrow> journal \<Rightarrow> nat" where
  "rows_of b p j = length (filter (\<lambda>e. fst (fst e) = b \<and> p (snd (fst e)) (snd e)) (jn_recipients j))"

definition erase_recipient :: "int \<Rightarrow> journal \<Rightarrow> journal" where
  "erase_recipient r j =
    j\<lparr>jn_recipients := filter (\<lambda>e. snd (fst e) \<noteq> r) (jn_recipients j),
      jn_attempts := filter (\<lambda>e. at_recipient (snd e) \<noteq> r) (jn_attempts j),
      jn_batches := map (\<lambda>(b, x).
        let pending = int (rows_of b (\<lambda>r' row. r' = r \<and> rc_state row = Pending) j);
            started = int (rows_of b (\<lambda>r' row. r' = r \<and> rc_state row = Started) j)
        in (b, x\<lparr>bt_pending := bt_pending x - pending, bt_started := bt_started x - started,
                bt_skipped := bt_skipped x + pending, bt_unknown := bt_unknown x + started\<rparr>)) (jn_batches j)\<rparr>"

definition retryable_recipients :: "string \<Rightarrow> journal \<Rightarrow> int list" where
  "retryable_recipients b j =
    take 100 (sort (map (snd \<circ> fst) (filter (\<lambda>e. fst (fst e) = b \<and> rc_state (snd e) = Failed \<and> rc_retryable (snd e)) (jn_recipients j))))"

definition pending_recipients :: "string \<Rightarrow> journal \<Rightarrow> int list" where
  "pending_recipients b j =
    take 100 (sort (map (snd \<circ> fst) (filter (\<lambda>e. fst (fst e) = b \<and> rc_state (snd e) = Pending) (jn_recipients j))))"

end
