(* ===== verification/Broadcast_Delivery.thy ===== *)
theory Broadcast_Delivery
  imports Broadcast_Journal
begin

text \<open>
  The delivery of a broadcast to one recipient (\<open>DeliveryOwner\<close> of \<open>broadcast_delivery.py\<close>, driven by \<open>execute\<close> of
  \<open>broadcast_jobs.py\<close>), cut at its awaits: a session owns a recipient of a batch under a token of its own, checks, records an
  attempt in the journal, transmits and records the receipt. Steps of other sessions, of the journal's other clients and
  lost answers of the database come between any two of them. The helper that formats messages may call \<open>send\<close> as often as
  it likes, after any exception, and end in any way.
\<close>

section \<open>Sessions\<close>

datatype after_persist = PersistRaise | PersistReturn | PersistRetry

datatype session_phase =
  HelperTurn
  | AtCheck nat
  | AtStart nat
  | AtRecheck nat string
  | AtSend nat string
  | AtPersist nat string after_persist
  | Resting
  | Delivered delivery_result
  | SessionOver

record session =
  se_batch :: string
  se_recipient :: int
  se_token :: string
  se_sequence :: int
  se_receipts :: "int list"
  se_result :: "delivery_result option"
  se_quarantined :: bool
  se_phase :: session_phase

definition new_session :: "string \<Rightarrow> int \<Rightarrow> string \<Rightarrow> session" where
  "new_session b r token =
    \<lparr>se_batch = b, se_recipient = r, se_token = token, se_sequence = 0, se_receipts = [], se_result = None,
     se_quarantined = False, se_phase = HelperTurn\<rparr>"

text \<open>What a checkpoint answers (a stop carries its reason), what becomes of a database call, and what the bot's call does:
  a receipt, an answer without one, a rate limit with its seconds, a definite refusal (of an unreachable chat or not), or
  anything else, after which the message may have gone out.\<close>

datatype check_answer = CheckPassed | CheckStopped string | CheckRaised

datatype fate = Answered | AnswerLost | NotDone

datatype bot_answer = Receipt int | NoReceipt | RateLimited secs | Refused bool | Unconfirmed

fun may_have_arrived :: "bot_answer \<Rightarrow> bool" where
  "may_have_arrived (Receipt mid) = True"
| "may_have_arrived NoReceipt = True"
| "may_have_arrived Unconfirmed = True"
| "may_have_arrived _ = False"

text \<open>\<open>send_message\<close> or \<open>send_photo\<close> is called: the first turn of the loop.\<close>

definition se_begin :: "session \<Rightarrow> session option" where
  "se_begin s =
    (if se_phase s \<noteq> HelperTurn then None
     else Some (if se_quarantined s then s else s\<lparr>se_phase := AtCheck 0\<rparr>))"

definition se_check :: "check_answer \<Rightarrow> session \<Rightarrow> session option" where
  "se_check ans s =
    (case se_phase s of
       AtCheck n \<Rightarrow>
         Some (case ans of
            CheckPassed \<Rightarrow> s\<lparr>se_sequence := se_sequence s + 1, se_phase := AtStart n\<rparr>
          | CheckStopped reason \<Rightarrow> s\<lparr>se_result := Some (delivered_as Skipped reason False), se_phase := HelperTurn\<rparr>
          | CheckRaised \<Rightarrow> s\<lparr>se_phase := HelperTurn\<rparr>)
     | _ \<Rightarrow> None)"

text \<open>\<open>start_attempt\<close>; an exception is noted as retryable, a cancellation (\<open>noted\<close> is false) only passes through.\<close>

definition se_start :: "string \<Rightarrow> fate \<Rightarrow> bool \<Rightarrow> session \<Rightarrow> journal \<Rightarrow> (session \<times> journal) option" where
  "se_start attempt fate noted s j =
    (case se_phase s of
       AtStart n \<Rightarrow>
         (case start_attempt attempt (se_batch s) (se_recipient s) (se_token s) (se_sequence s) j of
            (j1, ok) \<Rightarrow>
              Some (case fate of
                 Answered \<Rightarrow>
                   ((if ok then s\<lparr>se_phase := AtRecheck n attempt\<rparr>
                     else s\<lparr>se_quarantined := True, se_result := Some (delivered_as UnknownDelivery ''recipient_ownership_lost'' False),
                            se_phase := HelperTurn\<rparr>), j1)
               | _ \<Rightarrow>
                   ((if noted then s\<lparr>se_result := Some (delivered_as Failed ''journal_start_unavailable'' True), se_phase := HelperTurn\<rparr>
                     else s\<lparr>se_phase := HelperTurn\<rparr>), if fate = AnswerLost then j1 else j)))
     | _ \<Rightarrow> None)"

definition se_recheck :: "check_answer \<Rightarrow> session \<Rightarrow> session option" where
  "se_recheck ans s =
    (case se_phase s of
       AtRecheck n attempt \<Rightarrow>
         Some (case ans of
            CheckPassed \<Rightarrow> s\<lparr>se_phase := AtSend n attempt\<rparr>
          | CheckStopped reason \<Rightarrow>
              s\<lparr>se_result := Some (delivered_as Skipped ''cancel_requested'' False), se_phase := AtPersist n attempt PersistRaise\<rparr>
          | CheckRaised \<Rightarrow> s\<lparr>se_phase := HelperTurn\<rparr>)
     | _ \<Rightarrow> None)"

definition se_transmit :: "bot_answer \<Rightarrow> session \<Rightarrow> session option" where
  "se_transmit ans s =
    (case se_phase s of
       AtSend n attempt \<Rightarrow>
         Some (case ans of
            RateLimited seconds \<Rightarrow>
              s\<lparr>se_result := Some (delivered_as Failed ''telegram_rate_limited'' True),
                se_phase := AtPersist n attempt (if n = 0 \<and> 0 \<le> seconds \<and> seconds \<le> 60 then PersistRetry else PersistRaise)\<rparr>
          | Refused unreachable \<Rightarrow>
              s\<lparr>se_result := Some (delivered_as Failed (if unreachable then ''recipient_unreachable'' else ''telegram_rejected'') False),
                se_phase := AtPersist n attempt PersistRaise\<rparr>
          | Unconfirmed \<Rightarrow>
              s\<lparr>se_quarantined := True, se_result := Some (delivered_as UnknownDelivery ''telegram_send_unconfirmed'' False),
                se_phase := AtPersist n attempt PersistRaise\<rparr>
          | NoReceipt \<Rightarrow>
              s\<lparr>se_quarantined := True, se_result := Some (delivered_as UnknownDelivery ''telegram_receipt_missing'' False),
                se_phase := AtPersist n attempt PersistRaise\<rparr>
          | Receipt mid \<Rightarrow>
              s\<lparr>se_receipts := se_receipts s @ [mid],
                se_result := Some ((delivered_as Sent ''telegram_confirmed'' False)\<lparr>dl_message := Some mid\<rparr>),
                se_phase := AtPersist n attempt PersistReturn\<rparr>)
     | _ \<Rightarrow> None)"

definition se_persist :: "fate \<Rightarrow> session \<Rightarrow> journal \<Rightarrow> (session \<times> journal) option" where
  "se_persist fate s j =
    (case (se_phase s, se_result s) of
       (AtPersist n attempt next, Some res) \<Rightarrow>
         (case finish_attempt attempt (se_token s) res j of
            (j1, ok) \<Rightarrow>
              Some (if fate = Answered \<and> ok then (s\<lparr>se_phase := (if next = PersistRetry then Resting else HelperTurn)\<rparr>, j1)
                else (s\<lparr>se_quarantined := True, se_result := Some (delivered_as UnknownDelivery ''journal_commit_unconfirmed'' False),
                        se_phase := HelperTurn\<rparr>, if fate = NotDone then j else j1)))
     | _ \<Rightarrow> None)"

definition se_rested :: "bool \<Rightarrow> session \<Rightarrow> session option" where
  "se_rested cancelled s =
    (if se_phase s \<noteq> Resting then None else Some (s\<lparr>se_phase := (if cancelled then HelperTurn else AtCheck 1)\<rparr>))"

text \<open>\<open>deliver\<close> once the helper has ended.\<close>

datatype helper_end = HelperReturned | HelperStopped | HelperRaised

definition delivery_verdict :: "helper_end \<Rightarrow> session \<Rightarrow> delivery_result" where
  "delivery_verdict e s =
    (let res = (case se_result s of
         Some r \<Rightarrow> Some r
       | None \<Rightarrow> (case e of
            HelperReturned \<Rightarrow> None
          | HelperStopped \<Rightarrow> Some (delivered_as Skipped ''cancel_requested'' False)
          | HelperRaised \<Rightarrow> Some (delivered_as Failed ''preparation_failed'' True)))
     in if se_quarantined s then (case res of Some r \<Rightarrow> r | None \<Rightarrow> delivered_as UnknownDelivery ''telegram_send_unconfirmed'' False)
        else if se_receipts s \<noteq> [] then
          (if (case res of Some r \<Rightarrow> dl_outcome r \<noteq> Sent | None \<Rightarrow> False) then delivered_as UnknownDelivery ''partial_delivery'' False
           else (delivered_as Sent ''telegram_confirmed'' False)\<lparr>dl_message := Some (last (se_receipts s))\<rparr>)
        else (case res of Some r \<Rightarrow> r | None \<Rightarrow> delivered_as Failed ''preparation_failed'' True))"

definition se_end :: "helper_end \<Rightarrow> session \<Rightarrow> session option" where
  "se_end e s = (if se_phase s \<noteq> HelperTurn then None else Some (s\<lparr>se_phase := Delivered (delivery_verdict e s)\<rparr>))"

definition se_finish :: "fate \<Rightarrow> session \<Rightarrow> journal \<Rightarrow> (session \<times> journal) option" where
  "se_finish fate s j =
    (case se_phase s of
       Delivered res \<Rightarrow>
         Some (s\<lparr>se_phase := SessionOver\<rparr>,
           case finish_recipient (se_batch s) (se_recipient s) (se_token s) res j of
             None \<Rightarrow> j
           | Some (j1, ok) \<Rightarrow> if fate = NotDone then j else j1)
     | _ \<Rightarrow> None)"

section \<open>The system\<close>

record transmission =
  tx_batch :: string
  tx_recipient :: int
  tx_token :: string
  tx_answer :: bot_answer

text \<open>\<open>bc_made\<close> has the recipients that ever had a row; \<open>bc_log\<close> every call of the bot, the youngest first.\<close>

record broadcast =
  bc_journal :: journal
  bc_sessions :: "session list"
  bc_tokens :: "string list"
  bc_made :: "(string \<times> int) list"
  bc_log :: "transmission list"

datatype broadcast_event =
  BcCreate "string \<Rightarrow> string" "int \<Rightarrow> bool" batch_request
  | BcAdmission string string "string option" string "string option"
  | BcClaimBatch string string string "int option"
  | BcFinishBatch string string
  | BcInterrupt string
  | BcPurge "(string \<times> int) list"
  | BcErase int
  | BcClaim string int string string bool bool
  | BcSend nat
  | BcCheck nat check_answer
  | BcStart nat string fate bool
  | BcRecheck nat check_answer
  | BcTransmit nat bot_answer
  | BcPersist nat fate
  | BcRested nat bool
  | BcEnd nat helper_end
  | BcFinish nat fate

definition session_at :: "broadcast \<Rightarrow> nat \<Rightarrow> session option" where
  "session_at w i = (if i < length (bc_sessions w) then Some (bc_sessions w ! i) else None)"

definition put_session :: "nat \<Rightarrow> session \<Rightarrow> broadcast \<Rightarrow> broadcast" where
  "put_session i s w = w\<lparr>bc_sessions := (bc_sessions w)[i := s]\<rparr>"

definition on_session :: "nat \<Rightarrow> broadcast \<Rightarrow> (session \<Rightarrow> session option) \<Rightarrow> broadcast option" where
  "on_session i w f = (case session_at w i of None \<Rightarrow> None | Some s \<Rightarrow> map_option (\<lambda>s1. put_session i s1 w) (f s))"

definition on_session_journal :: "nat \<Rightarrow> broadcast \<Rightarrow> (session \<Rightarrow> journal \<Rightarrow> (session \<times> journal) option) \<Rightarrow> broadcast option" where
  "on_session_journal i w f =
    (case session_at w i of
       None \<Rightarrow> None
     | Some s \<Rightarrow> map_option (\<lambda>(s1, j). put_session i s1 (w\<lparr>bc_journal := j\<rparr>)) (f s (bc_journal w)))"

definition set_journal :: "journal \<Rightarrow> broadcast \<Rightarrow> broadcast" where
  "set_journal j w =
    w\<lparr>bc_journal := j,
      bc_made := filter (\<lambda>k. \<not> dict_has (jn_recipients (bc_journal w)) k) (dict_keys (jn_recipients j)) @ bc_made w\<rparr>"

text \<open>A recipient is claimed under a new token. If the claim took and its answer arrived (\<open>answered\<close>), the session begins, or
  ends at once as skipped without the privacy lease (\<open>permitted\<close>).\<close>

definition bc_claim :: "string \<Rightarrow> int \<Rightarrow> string \<Rightarrow> string \<Rightarrow> bool \<Rightarrow> bool \<Rightarrow> broadcast \<Rightarrow> broadcast option" where
  "bc_claim b r batch_token token answered permitted w =
    (if token \<in> set (bc_tokens w) then None
     else
       (case claim_recipient b r batch_token token (bc_journal w) of
          (j, ok) \<Rightarrow>
            (let w1 = w\<lparr>bc_journal := j, bc_tokens := token # bc_tokens w\<rparr> in
             Some (if ok \<and> answered
               then w1\<lparr>bc_sessions := bc_sessions w @
                  [if permitted then new_session b r token
                   else (new_session b r token)\<lparr>se_phase := Delivered (delivered_as Skipped ''privacy_revoked'' False)\<rparr>]\<rparr>
               else w1))))"

definition bc_transmit :: "nat \<Rightarrow> bot_answer \<Rightarrow> broadcast \<Rightarrow> broadcast option" where
  "bc_transmit i ans w =
    (case session_at w i of
       None \<Rightarrow> None
     | Some s \<Rightarrow>
        map_option (\<lambda>s1. put_session i s1 (w\<lparr>bc_log :=
            \<lparr>tx_batch = se_batch s, tx_recipient = se_recipient s, tx_token = se_token s, tx_answer = ans\<rparr> # bc_log w\<rparr>))
          (se_transmit ans s))"

fun broadcast_act :: "broadcast_event \<Rightarrow> broadcast \<Rightarrow> broadcast option" where
  "broadcast_act (BcCreate sha users rq) w = Some (set_journal (fst (create_batch sha users rq (bc_journal w))) w)"
| "broadcast_act (BcAdmission b st reason storage task) w = Some (w\<lparr>bc_journal := record_admission b st reason storage task (bc_journal w)\<rparr>)"
| "broadcast_act (BcClaimBatch b task token settings) w = Some (w\<lparr>bc_journal := fst (claim_batch b task token settings (bc_journal w))\<rparr>)"
| "broadcast_act (BcFinishBatch b token) w = Some (w\<lparr>bc_journal := fst (finish_batch b token (bc_journal w))\<rparr>)"
| "broadcast_act (BcInterrupt b) w = Some (w\<lparr>bc_journal := interrupt_batch b (bc_journal w)\<rparr>)"
| "broadcast_act (BcPurge old) w = Some (w\<lparr>bc_journal := purge_recipients old (bc_journal w)\<rparr>)"
| "broadcast_act (BcErase r) w = Some (w\<lparr>bc_journal := erase_recipient r (bc_journal w)\<rparr>)"
| "broadcast_act (BcClaim b r bt token answered permitted) w = bc_claim b r bt token answered permitted w"
| "broadcast_act (BcSend i) w = on_session i w se_begin"
| "broadcast_act (BcCheck i ans) w = on_session i w (se_check ans)"
| "broadcast_act (BcStart i attempt fate noted) w = on_session_journal i w (se_start attempt fate noted)"
| "broadcast_act (BcRecheck i ans) w = on_session i w (se_recheck ans)"
| "broadcast_act (BcTransmit i ans) w = bc_transmit i ans w"
| "broadcast_act (BcPersist i fate) w = on_session_journal i w (se_persist fate)"
| "broadcast_act (BcRested i cancelled) w = on_session i w (se_rested cancelled)"
| "broadcast_act (BcEnd i e) w = on_session i w (se_end e)"
| "broadcast_act (BcFinish i fate) w = on_session_journal i w (se_finish fate)"

definition broadcast_init :: broadcast where
  "broadcast_init =
    \<lparr>bc_journal = \<lparr>jn_batches = [], jn_recipients = [], jn_attempts = []\<rparr>, bc_sessions = [], bc_tokens = [], bc_made = [], bc_log = []\<rparr>"

inductive broadcast_reach :: "broadcast \<Rightarrow> bool" where
  start: "broadcast_reach broadcast_init"
| act: "broadcast_reach w \<Longrightarrow> broadcast_act ev w = Some w' \<Longrightarrow> broadcast_reach w'"

end
