(* ===== verification/Broadcast_Safety.thy ===== *)
theory Broadcast_Safety
  imports Broadcast_Delivery
begin

text \<open>
  What the steps of a delivery and of the journal keep: the knowledge a session has of its own transmissions, an honest verdict
  at its end, and the moves each transaction makes on the rows of the recipients.
\<close>

section \<open>What a session knows\<close>

definition left_open :: "bot_answer \<Rightarrow> bool" where
  "left_open ans \<longleftrightarrow> ans = NoReceipt \<or> ans = Unconfirmed"

definition has_receipt :: "bot_answer \<Rightarrow> bool" where
  "has_receipt ans = (case ans of Receipt mid \<Rightarrow> True | _ \<Rightarrow> False)"

definition heard :: "(bot_answer \<Rightarrow> bool) \<Rightarrow> transmission list \<Rightarrow> string \<Rightarrow> bool" where
  "heard P L tok \<longleftrightarrow> (\<exists>t \<in> set L. tx_token t = tok \<and> P (tx_answer t))"

abbreviation possibly :: "transmission list \<Rightarrow> string \<Rightarrow> bool" where
  "possibly \<equiv> heard may_have_arrived"

definition before_send :: "session_phase \<Rightarrow> bool" where
  "before_send p =
    (case p of AtCheck n \<Rightarrow> True | AtStart n \<Rightarrow> True | AtRecheck n a \<Rightarrow> True | AtSend n a \<Rightarrow> True | Resting \<Rightarrow> True
     | AtPersist n a next \<Rightarrow> next = PersistRetry | _ \<Rightarrow> False)"

definition final_outcome :: "recipient_state \<Rightarrow> bool" where
  "final_outcome st \<longleftrightarrow> st \<notin> {Pending, Started}"

definition session_ok :: "transmission list \<Rightarrow> session \<Rightarrow> bool" where
  "session_ok L s \<longleftrightarrow>
    (se_quarantined s \<longrightarrow> (\<exists>r. se_result s = Some r \<and> dl_outcome r = UnknownDelivery)) \<and>
    (possibly L (se_token s) \<longrightarrow> se_quarantined s \<or> se_receipts s \<noteq> []) \<and>
    (heard left_open L (se_token s) \<longrightarrow> se_quarantined s) \<and>
    (se_receipts s \<noteq> [] \<longrightarrow> heard has_receipt L (se_token s)) \<and>
    (before_send (se_phase s) \<longrightarrow> \<not> se_quarantined s) \<and>
    (\<forall>r. se_result s = Some r \<longrightarrow> final_outcome (dl_outcome r) \<and> (dl_outcome r = Sent \<longrightarrow> se_receipts s \<noteq> [])) \<and>
    (\<forall>r. se_phase s = Delivered r \<longrightarrow> final_outcome (dl_outcome r) \<and> (possibly L (se_token s) \<longrightarrow> dl_outcome r \<in> {Sent, UnknownDelivery}) \<and>
      (dl_outcome r = Sent \<longrightarrow> se_receipts s \<noteq> []))"

lemma delivered_as_simps [simp]:
  "dl_outcome (delivered_as out reason retry) = out" "dl_retryable (delivered_as out reason retry) = retry"
  "dl_message (delivered_as out reason retry) = None"
  by (simp_all add: delivered_as_def)

lemma verdict_honest:
  assumes "session_ok L s"
  shows "final_outcome (dl_outcome (delivery_verdict e s))"
    and "possibly L (se_token s) \<Longrightarrow> dl_outcome (delivery_verdict e s) \<in> {Sent, UnknownDelivery}"
    and "dl_outcome (delivery_verdict e s) = Sent \<Longrightarrow> se_receipts s \<noteq> [] \<and> \<not> se_quarantined s"
  using assms
  by (auto simp: session_ok_def delivery_verdict_def Let_def final_outcome_def split: option.splits helper_end.splits if_splits)

text \<open>Steps of one session, other than a transmission.\<close>

definition same_owner :: "session \<Rightarrow> session \<Rightarrow> bool" where
  "same_owner s s' \<longleftrightarrow>
    se_batch s' = se_batch s \<and> se_recipient s' = se_recipient s \<and> se_token s' = se_token s \<and> se_phase s \<noteq> SessionOver"

lemmas session_defs = session_ok_def same_owner_def before_send_def final_outcome_def

lemma session_okI:
  assumes "session_ok L s" and "se_receipts s' = se_receipts s" and "se_token s' = se_token s"
    and res: "se_quarantined s' = se_quarantined s \<and> se_result s' = se_result s \<or>
      se_quarantined s' \<and> (\<exists>r. se_result s' = Some r \<and> dl_outcome r = UnknownDelivery) \<or>
      \<not> se_quarantined s \<and> \<not> se_quarantined s' \<and> (\<exists>r. se_result s' = Some r \<and> dl_outcome r \<in> {Failed, Skipped})"
    and "before_send (se_phase s') \<Longrightarrow> \<not> se_quarantined s'" and "\<And>r. se_phase s' \<noteq> Delivered r"
  shows "session_ok L s'"
  using res
proof (elim disjE)
  assume "se_quarantined s' = se_quarantined s \<and> se_result s' = se_result s"
  then show ?thesis using assms(1-3,5,6) by (simp add: session_ok_def)
next
  assume "se_quarantined s' \<and> (\<exists>r. se_result s' = Some r \<and> dl_outcome r = UnknownDelivery)"
  then show ?thesis using assms(1-3,5,6) by (auto simp: session_ok_def final_outcome_def)
next
  assume "\<not> se_quarantined s \<and> \<not> se_quarantined s' \<and> (\<exists>r. se_result s' = Some r \<and> dl_outcome r \<in> {Failed, Skipped})"
  then show ?thesis using assms(1-3,5,6) by (auto simp: session_ok_def final_outcome_def)
qed

lemma session_sending: "session_ok L s \<Longrightarrow> before_send (se_phase s) \<Longrightarrow> \<not> se_quarantined s"
  by (simp add: session_ok_def)

lemma session_begin:
  assumes "session_ok L s" and "se_begin s = Some s'"
  shows "session_ok L s' \<and> same_owner s s'"
  using assms(2) session_sending [OF assms(1)]
  by (cases "se_phase s"; cases "se_quarantined s") (auto simp: se_begin_def same_owner_def before_send_def intro!: session_okI [OF assms(1)])

lemma session_check:
  assumes "session_ok L s" and "se_check ans s = Some s'"
  shows "session_ok L s' \<and> same_owner s s'"
  using assms(2) session_sending [OF assms(1)]
  by (cases "se_phase s"; cases ans) (auto simp: se_check_def same_owner_def before_send_def intro!: session_okI [OF assms(1)])

lemma session_recheck:
  assumes "session_ok L s" and "se_recheck ans s = Some s'"
  shows "session_ok L s' \<and> same_owner s s'"
  using assms(2) session_sending [OF assms(1)]
  by (cases "se_phase s"; cases ans) (auto simp: se_recheck_def same_owner_def before_send_def intro!: session_okI [OF assms(1)])

lemma session_rested:
  assumes "session_ok L s" and "se_rested c s = Some s'"
  shows "session_ok L s' \<and> same_owner s s'"
  using assms(2) session_sending [OF assms(1)]
  by (cases "se_phase s"; cases c) (auto simp: se_rested_def same_owner_def before_send_def intro!: session_okI [OF assms(1)])

lemma session_end:
  assumes "session_ok L s" and "se_end e s = Some s'"
  shows "session_ok L s' \<and> same_owner s s'"
proof (cases "se_phase s = HelperTurn")
  case True
  have "dl_outcome (delivery_verdict e s) = Sent \<longrightarrow> se_receipts s \<noteq> []" using verdict_honest(3) [OF assms(1)] by blast
  with True assms verdict_honest(1,2) [OF assms(1), of e] show ?thesis
    by (simp add: se_end_def session_ok_def same_owner_def before_send_def) force
qed (use assms in \<open>simp add: se_end_def\<close>)

lemma session_start:
  assumes "session_ok L s" and "se_start attempt fate noted s j = Some (s', j')"
  shows "session_ok L s' \<and> same_owner s s'"
proof (cases "se_phase s")
  case (AtStart n)
  obtain j1 ok where st: "start_attempt attempt (se_batch s) (se_recipient s) (se_token s) (se_sequence s) j = (j1, ok)" by fastforce
  have "s' = s\<lparr>se_phase := AtRecheck n attempt\<rparr> \<or> s' = s\<lparr>se_phase := HelperTurn\<rparr> \<or>
      s' = s\<lparr>se_quarantined := True, se_result := Some (delivered_as UnknownDelivery ''recipient_ownership_lost'' False), se_phase := HelperTurn\<rparr> \<or>
      s' = s\<lparr>se_result := Some (delivered_as Failed ''journal_start_unavailable'' True), se_phase := HelperTurn\<rparr>"
    using assms(2) unfolding se_start_def AtStart by (cases fate; cases ok; cases noted) (simp_all add: st)
  then show ?thesis
    by (elim disjE) (auto simp: same_owner_def AtStart before_send_def session_sending [OF assms(1)] intro!: session_okI [OF assms(1)])
qed (use assms in \<open>simp_all add: se_start_def\<close>)

lemma session_persist:
  assumes "session_ok L s" and "se_persist fate s j = Some (s', j')"
  shows "session_ok L s' \<and> same_owner s s'"
proof (cases "se_phase s")
  case (AtPersist n attempt nxt)
  with assms(2) obtain res where res: "se_result s = Some res" by (cases "se_result s") (simp_all add: se_persist_def)
  obtain j1 ok where f: "finish_attempt attempt (se_token s) res j = (j1, ok)" by fastforce
  have "s' = s\<lparr>se_phase := (if nxt = PersistRetry then Resting else HelperTurn)\<rparr> \<or>
      s' = s\<lparr>se_quarantined := True, se_result := Some (delivered_as UnknownDelivery ''journal_commit_unconfirmed'' False), se_phase := HelperTurn\<rparr>"
    using assms(2) unfolding se_persist_def AtPersist res by (cases "fate = Answered \<and> ok") (simp_all add: f)
  then show ?thesis
    by (elim disjE) (auto simp: same_owner_def AtPersist before_send_def session_sending [OF assms(1)] intro!: session_okI [OF assms(1)])
qed (use assms in \<open>simp_all add: se_persist_def\<close>)

lemma session_finish:
  assumes "session_ok L s" and "se_finish fate s j = Some (s', j')"
  shows "session_ok L s' \<and> same_owner s s' \<and> se_phase s' = SessionOver"
proof (cases "se_phase s")
  case (Delivered res)
  then have s': "s' = s\<lparr>se_phase := SessionOver\<rparr>" using assms(2) by (simp add: se_finish_def)
  have "session_ok L s'" unfolding s' by (rule session_okI [OF assms(1)]) (simp_all add: before_send_def)
  then show ?thesis using Delivered by (simp add: s' same_owner_def)
qed (use assms in \<open>simp_all add: se_finish_def\<close>)

lemmas transmit_defs = se_transmit_def session_ok_def left_open_def has_receipt_def before_send_def final_outcome_def

lemma session_transmit:
  assumes ok: "session_ok L s" and tr: "se_transmit ans s = Some s'"
    and t: "t = \<lparr>tx_batch = se_batch s, tx_recipient = se_recipient s, tx_token = se_token s, tx_answer = ans\<rparr>"
  shows "session_ok (t # L) s' \<and> same_owner s s'"
proof (cases "se_phase s")
  case (AtSend n attempt)
  have p: "heard P (t # L) (se_token s) = (P ans \<or> heard P L (se_token s))" for P by (auto simp: heard_def t)
  have q: "\<not> se_quarantined s" using session_sending [OF ok] AtSend by (simp add: before_send_def)
  have old: "possibly L (se_token s) \<longrightarrow> se_receipts s \<noteq> []" "\<not> heard left_open L (se_token s)"
    "se_receipts s \<noteq> [] \<longrightarrow> heard has_receipt L (se_token s)"
    using ok q by (simp_all add: session_ok_def)
  have own: "same_owner s s'" using tr AtSend by (cases ans) (auto simp: se_transmit_def same_owner_def)
  have "session_ok (t # L) s'"
    using tr AtSend q old by (cases ans) (auto simp: transmit_defs p)
  with own show ?thesis by blast
qed (use tr in \<open>simp_all add: se_transmit_def\<close>)

lemma session_other:
  assumes "session_ok L s" and "tx_token t \<noteq> se_token s"
  shows "session_ok (t # L) s"
  using assms by (auto simp: session_ok_def heard_def)

lemma left_open_possibly: "heard left_open L tok \<Longrightarrow> possibly L tok"
  unfolding heard_def left_open_def by force

lemma session_new: "\<not> possibly L token \<Longrightarrow> session_ok L (new_session b r token)"
  using left_open_possibly by (auto simp: session_ok_def new_session_def before_send_def)

lemma session_denied:
  "\<not> possibly L token \<Longrightarrow> session_ok L ((new_session b r token)\<lparr>se_phase := Delivered (delivered_as Skipped reason False)\<rparr>)"
  using left_open_possibly by (auto simp: session_ok_def new_session_def before_send_def final_outcome_def)

section \<open>Steps of the journal\<close>

abbreviation row :: "journal \<Rightarrow> string \<times> int \<Rightarrow> recipient_row option" where
  "row j k \<equiv> dict_get (jn_recipients j) k"

definition parent_of :: "journal \<Rightarrow> string \<Rightarrow> string option" where
  "parent_of j b = (case dict_get (jn_batches j) b of None \<Rightarrow> None | Some bt \<Rightarrow> bt_parent bt)"

definition same_batches :: "journal \<Rightarrow> journal \<Rightarrow> bool" where
  "same_batches j j' \<longleftrightarrow> (\<forall>b. dict_has (jn_batches j') b = dict_has (jn_batches j) b \<and> parent_of j' b = parent_of j b)"

definition row_moves :: "recipient_row \<Rightarrow> recipient_row \<Rightarrow> bool" where
  "row_moves x y \<longleftrightarrow>
    rc_state y = rc_state x \<and> (rc_retryable y \<longrightarrow> rc_retryable x) \<or>
    rc_state x = Pending \<and> rc_state y \<in> {Failed, Skipped} \<or>
    rc_state x = Started \<and> rc_state y = UnknownDelivery"

definition journal_moves :: "journal \<Rightarrow> journal \<Rightarrow> bool" where
  "journal_moves j j' \<longleftrightarrow> same_batches j j' \<and> (\<forall>k y. row j' k = Some y \<longrightarrow> (\<exists>x. row j k = Some x \<and> row_moves x y))"

lemma row_moves_refl [simp]: "row_moves x x"
  by (simp add: row_moves_def)

lemma same_batches_trans: "same_batches j j1 \<Longrightarrow> same_batches j1 j2 \<Longrightarrow> same_batches j j2"
  by (simp add: same_batches_def)

lemma update_batch_same:
  assumes "\<And>x. bt_parent (f x) = bt_parent x"
  shows "same_batches j (update_batch b f j)" and "jn_recipients (update_batch b f j) = jn_recipients j"
  using assms by (auto simp: update_batch_def same_batches_def parent_of_def dict_has_def split: option.split)

lemma same_batches_frame: "jn_batches j' = jn_batches j \<Longrightarrow> same_batches j j'"
  by (simp add: same_batches_def parent_of_def)

lemma put_recipient_frame [simp]:
  "jn_batches (put_recipient k x j) = jn_batches j"
  "row (put_recipient k x j) k' = (if k' = k then Some x else row j k')"
  by (simp_all add: put_recipient_def)

lemma update_recipients_frame [simp]:
  "jn_batches (update_recipients b f j) = jn_batches j"
  "row (update_recipients b f j) k = (if fst k = b then map_option f (row j k) else row j k)"
proof -
  show "jn_batches (update_recipients b f j) = jn_batches j" by (simp add: update_recipients_def)
  have "dict_get (map (\<lambda>e. if fst (fst e) = b then (fst e, f (snd e)) else e) d) k = (if fst k = b then map_option f (dict_get d k) else dict_get d k)"
    for d :: "(string \<times> int, recipient_row) dict"
    by (induction d) auto
  then show "row (update_recipients b f j) k = (if fst k = b then map_option f (row j k) else row j k)"
    by (simp add: update_recipients_def)
qed

lemma journal_moves_batches:
  assumes "\<And>x. bt_parent (f x) = bt_parent x" and "journal_moves j j'"
  shows "journal_moves j (update_batch b f j')"
  using assms(2) same_batches_trans [OF _ update_batch_same(1) [OF assms(1)]] update_batch_same(2) [OF assms(1)]
  by (auto simp: journal_moves_def)

lemma journal_moves_refl [simp]: "journal_moves j j"
  by (auto simp: journal_moves_def same_batches_def)

lemma journal_moves_attempts: "journal_moves j (j\<lparr>jn_attempts := a\<rparr>)"
  by (auto simp: journal_moves_def same_batches_def parent_of_def)

lemma journal_moves_rows:
  assumes "jn_batches j' = jn_batches j" and "\<And>k y. row j' k = Some y \<Longrightarrow> \<exists>x. row j k = Some x \<and> row_moves x y"
  shows "journal_moves j j'"
  using assms same_batches_frame by (auto simp: journal_moves_def)

lemma moves_admission: "journal_moves j (record_admission b st reason storage task j)"
proof -
  let ?f = "\<lambda>rw. if rc_state rw = Pending
               then rw\<lparr>rc_state := Failed, rc_reason := Some ''queue_admission_rejected'', rc_retryable := True\<rparr> else rw"
  have "journal_moves j1 (update_recipients b ?f j1)" for j1
    by (rule journal_moves_rows) (auto simp: row_moves_def split: if_splits)
  moreover have "journal_moves j j2" if "journal_moves j1 j2" "same_batches j j1" "jn_recipients j1 = jn_recipients j" for j1 j2
    using that same_batches_trans by (auto simp: journal_moves_def)
  ultimately have step: "journal_moves j (update_recipients b ?f (update_batch b f j))" if "\<And>x. bt_parent (f x) = bt_parent x" for f
    using update_batch_same [OF that] by blast
  show ?thesis
  proof (cases "st = ''rejected''")
    case True
    show ?thesis unfolding record_admission_def Let_def using True
      by (simp, intro journal_moves_batches step) simp_all
  next
    case False
    then show ?thesis by (auto simp: record_admission_def Let_def intro!: journal_moves_batches)
  qed
qed

lemma moves_interrupt: "journal_moves j (interrupt_batch b j)"
  unfolding interrupt_batch_def
  by (rule journal_moves_batches, simp, rule journal_moves_rows) (auto simp: row_moves_def split: if_splits)

lemma moves_purge: "journal_moves j (purge_recipients old j)"
proof (rule journal_moves_rows)
  have "dict_get (filter (\<lambda>e. fst e \<notin> set old) d) k = (if k \<in> set old then None else dict_get d k)" for k and d :: "(string \<times> int, recipient_row) dict"
    by (induction d) auto
  then show "\<exists>x. row j k = Some x \<and> row_moves x y" if "row (purge_recipients old j) k = Some y" for k y
    using that by (auto simp: purge_recipients_def split: if_splits)
qed (simp add: purge_recipients_def)

lemma moves_erase: "journal_moves j (erase_recipient r j)"
proof -
  have "row (erase_recipient r j) k = (if snd k = r then None else row j k)" for k
  proof -
    have "dict_get (filter (\<lambda>e. snd (fst e) \<noteq> r) d) k = (if snd k = r then None else dict_get d k)" for d :: "(string \<times> int, recipient_row) dict"
      by (induction d) auto
    then show ?thesis by (simp add: erase_recipient_def)
  qed
  moreover have "map_option bt_parent (dict_get (jn_batches (erase_recipient r j)) b) = map_option bt_parent (dict_get (jn_batches j) b)" for b
  proof -
    have "map_option bt_parent (dict_get (map (\<lambda>(c, x). (c, f c x)) d) b) = map_option bt_parent (dict_get d b)"
      if "\<And>c x. bt_parent (f c x) = bt_parent x" for f :: "string \<Rightarrow> batch_row \<Rightarrow> batch_row" and d
      using that by (induction d) auto
    from this [of "\<lambda>b x. x\<lparr>bt_pending := bt_pending x - int (rows_of b (\<lambda>r' row. r' = r \<and> rc_state row = Pending) j),
      bt_started := bt_started x - int (rows_of b (\<lambda>r' row. r' = r \<and> rc_state row = Started) j),
      bt_skipped := bt_skipped x + int (rows_of b (\<lambda>r' row. r' = r \<and> rc_state row = Pending) j),
      bt_unknown := bt_unknown x + int (rows_of b (\<lambda>r' row. r' = r \<and> rc_state row = Started) j)\<rparr>"]
    show ?thesis by (simp add: erase_recipient_def Let_def)
  qed
  then have "same_batches j (erase_recipient r j)"
    unfolding same_batches_def parent_of_def dict_has_def
    by (metis (no_types, lifting) map_option_is_None option.case_eq_if option.map_sel)
  ultimately show ?thesis by (auto simp: journal_moves_def split: if_splits)
qed

lemma moves_claims:
  "journal_moves j (fst (claim_batch b task token settings j))" "journal_moves j (fst (finish_batch b token j))"
  "journal_moves j (fst (start_attempt a b r token sq j))" "journal_moves j (fst (finish_attempt a token res j))"
  by (auto simp: claim_batch_def finish_batch_def start_attempt_def finish_attempt_def journal_moves_attempts
      intro!: journal_moves_batches split: option.split)

section \<open>Creating a batch\<close>

text \<open>A row of another batch may lose its flag, or its schedule key, and nothing else.\<close>

definition row_spent :: "recipient_row \<Rightarrow> recipient_row \<Rightarrow> bool" where
  "row_spent x y \<longleftrightarrow> rc_state y = rc_state x \<and> (rc_retryable y \<longrightarrow> rc_retryable x)"

definition rows_spent :: "journal \<Rightarrow> journal \<Rightarrow> bool" where
  "rows_spent j j' \<longleftrightarrow>
    (\<forall>k. (row j' k = None) = (row j k = None)) \<and> (\<forall>k x y. row j k = Some x \<and> row j' k = Some y \<longrightarrow> row_spent x y)"

lemma rows_spent_refl [simp]: "rows_spent j j"
  by (auto simp: rows_spent_def row_spent_def)

lemma rows_spent_trans: "rows_spent j j1 \<Longrightarrow> rows_spent j1 j2 \<Longrightarrow> rows_spent j j2"
  unfolding rows_spent_def row_spent_def by (metis option.exhaust)

lemma rows_spent_put: "row j k = Some x \<Longrightarrow> row_spent x y \<Longrightarrow> rows_spent j (put_recipient k y j)"
  by (auto simp: rows_spent_def row_spent_def)

lemma consume_fold:
  assumes "foldl (consume_retry p) (j0, n0, cs0) cands = (j, n, cs)"
    and "\<forall>c \<in> set cs0. cd_reason c = None \<longrightarrow> (\<exists>x. row j0 (p, cd_recipient c) = Some x \<and> rc_state x = Failed \<and> \<not> rc_retryable x)"
  shows "rows_spent j0 j \<and> jn_batches j = jn_batches j0 \<and>
    (\<forall>c \<in> set cs. cd_reason c = None \<longrightarrow>
      (c \<in> set cs0 \<or> (\<exists>x. row j0 (p, cd_recipient c) = Some x \<and> rc_state x = Failed \<and> rc_retryable x)) \<and>
      (\<exists>y. row j (p, cd_recipient c) = Some y \<and> rc_state y = Failed \<and> \<not> rc_retryable y))"
  using assms
proof (induction cands arbitrary: j0 n0 cs0)
  case Nil
  then show ?case by auto
next
  case (Cons c cands)
  obtain j1 n1 cs1 where one: "consume_retry p (j0, n0, cs0) c = (j1, n1, cs1)" by (metis prod_cases3)
  have f: "foldl (consume_retry p) (j1, n1, cs1) cands = (j, n, cs)" using Cons.prems(1) one by simp
  show ?case
  proof (cases "\<exists>x. row j0 (p, cd_recipient c) = Some x \<and> rc_state x = Failed \<and> rc_retryable x")
    case True
    then obtain x where x: "row j0 (p, cd_recipient c) = Some x" "rc_state x = Failed" "rc_retryable x" by blast
    have r: "j1 = put_recipient (p, cd_recipient c) (x\<lparr>rc_retryable := False\<rparr>) j0" "cs1 = cs0 @ [c]"
      using one x by (simp_all add: consume_retry_def)
    have sp: "rows_spent j0 j1" unfolding r by (rule rows_spent_put [OF x(1)]) (simp add: row_spent_def)
    have pre: "\<forall>d \<in> set cs1. cd_reason d = None \<longrightarrow> (\<exists>y. row j1 (p, cd_recipient d) = Some y \<and> rc_state y = Failed \<and> \<not> rc_retryable y)"
      using Cons.prems(2) x by (auto simp: r)
    note ih = Cons.IH [OF f pre]
    have earlier: "\<exists>y. row j0 k = Some y \<and> rc_state y = Failed \<and> rc_retryable y"
      if "row j1 k = Some z" "rc_state z = Failed" "rc_retryable z" for k z
      using that by (auto simp: r split: if_splits)
    have "jn_batches j1 = jn_batches j0" by (simp add: r)
    moreover have "rows_spent j0 j" using rows_spent_trans [OF sp] ih by blast
    ultimately show ?thesis using ih x earlier by (auto simp: r(2))
  next
    case False
    then have r: "j1 = j0" "cs1 = cs0 @ [if cd_reason c = None then c\<lparr>cd_reason := Some ''retry_already_requested''\<rparr> else c]"
      using one by (auto simp: consume_retry_def split: option.splits)
    have pre: "\<forall>d \<in> set cs1. cd_reason d = None \<longrightarrow> (\<exists>y. row j1 (p, cd_recipient d) = Some y \<and> rc_state y = Failed \<and> \<not> rc_retryable y)"
      using Cons.prems(2) by (auto simp: r)
    note ih = Cons.IH [OF f pre]
    have "d \<in> set cs0" if "d \<in> set cs1" "cd_reason d = None" for d using that by (auto simp: r(2) split: if_splits)
    with ih show ?thesis by (auto simp: r(1))
  qed
qed

text \<open>The effect of the insertions: rows of the new batch for eligible candidates only; the others only lose schedule keys.\<close>

definition rows_added :: "string \<Rightarrow> int set \<Rightarrow> journal \<Rightarrow> journal \<Rightarrow> bool" where
  "rows_added b rs j j' \<longleftrightarrow>
    same_batches j j' \<and>
    (\<forall>k y. row j' k = Some y \<longrightarrow>
      (\<exists>x. row j k = Some x \<and> row_spent x y) \<or> fst k = b \<and> snd k \<in> rs \<and> rc_state y = Pending) \<and>
    (\<forall>k x. row j k = Some x \<longrightarrow> (\<exists>y. row j' k = Some y \<and> row_spent x y))"

lemma rows_added_refl: "rows_added b rs j j"
  by (auto simp: rows_added_def same_batches_def row_spent_def)

lemma row_spent_trans: "row_spent x y \<Longrightarrow> row_spent y z \<Longrightarrow> row_spent x z"
  by (auto simp: row_spent_def)

lemma rows_added_trans:
  assumes a: "rows_added b rs j j1" and c: "rows_added b rs j1 j2"
  shows "rows_added b rs j j2"
proof -
  have "(\<exists>x. row j k = Some x \<and> row_spent x z) \<or> fst k = b \<and> snd k \<in> rs \<and> rc_state z = Pending" if z: "row j2 k = Some z" for k z
  proof -
    from c z consider y where "row j1 k = Some y" "row_spent y z" | "fst k = b \<and> snd k \<in> rs \<and> rc_state z = Pending"
      unfolding rows_added_def by blast
    then show ?thesis
    proof cases
      case 1
      with a consider x where "row j k = Some x" "row_spent x y" | "fst k = b \<and> snd k \<in> rs \<and> rc_state y = Pending"
        unfolding rows_added_def by blast
      then show ?thesis
      proof cases
        case 1
        with \<open>row_spent y z\<close> show ?thesis by (blast intro: row_spent_trans)
      next
        case 2
        with \<open>row_spent y z\<close> show ?thesis by (simp add: row_spent_def)
      qed
    qed simp
  qed
  moreover have "\<exists>z. row j2 k = Some z \<and> row_spent x z" if x: "row j k = Some x" for k x
  proof -
    from a x obtain y where "row j1 k = Some y" "row_spent x y" unfolding rows_added_def by blast
    moreover from c this(1) obtain z where "row j2 k = Some z" "row_spent y z" unfolding rows_added_def by blast
    ultimately show ?thesis by (blast intro: row_spent_trans)
  qed
  moreover have "same_batches j j2" using a c same_batches_trans by (auto simp: rows_added_def)
  ultimately show ?thesis unfolding rows_added_def by blast
qed

lemma insert_one:
  assumes "cd_recipient c \<in> rs"
  shows "rows_added (br_batch rq) rs j (insert_recipient sha users rq j c)"
proof -
  let ?j1 = "free_parent_key rq (schedule_key sha rq c) c j"
  have free: "rows_added (br_batch rq) rs j ?j1"
    by (auto simp: free_parent_key_def rows_added_def same_batches_def parent_of_def row_spent_def split: option.split)
  have "rows_added (br_batch rq) rs ?j1 (put_recipient (br_batch rq, cd_recipient c) y ?j1)"
    if "row ?j1 (br_batch rq, cd_recipient c) = None" "rc_state y = Pending" for y
    using that assms by (auto simp: rows_added_def same_batches_def parent_of_def row_spent_def)
  moreover have "rows_added (br_batch rq) rs ?j1 (update_batch (br_batch rq) f ?j1)" if "\<And>x. bt_parent (f x) = bt_parent x" for f
    using update_batch_same [OF that] by (auto simp: rows_added_def row_spent_def)
  ultimately show ?thesis
    using free by (auto simp: insert_recipient_def Let_def insertable_def dict_has_def intro!: rows_added_trans [OF free])
qed

lemma insert_fold:
  assumes "\<And>c. c \<in> set cs \<Longrightarrow> cd_recipient c \<in> rs"
  shows "rows_added (br_batch rq) rs j (foldl (insert_recipient sha users rq) j cs)"
  using assms
proof (induction cs arbitrary: j)
  case Nil
  show ?case by (simp add: rows_added_refl)
next
  case (Cons c cs)
  have "rows_added (br_batch rq) rs j (insert_recipient sha users rq j c)" by (rule insert_one) (simp add: Cons.prems)
  moreover have "rows_added (br_batch rq) rs (insert_recipient sha users rq j c)
      (foldl (insert_recipient sha users rq) (insert_recipient sha users rq j c) cs)"
    by (rule Cons.IH) (simp add: Cons.prems)
  ultimately show ?case using rows_added_trans by simp
qed

definition retry_taken :: "string \<times> int \<Rightarrow> journal \<Rightarrow> journal \<Rightarrow> bool" where
  "retry_taken k j j' \<longleftrightarrow>
    (\<exists>x. row j k = Some x \<and> rc_state x = Failed \<and> rc_retryable x) \<and> (\<exists>y. row j' k = Some y \<and> rc_state y = Failed \<and> \<not> rc_retryable y)"

definition created :: "string \<Rightarrow> string option \<Rightarrow> journal \<Rightarrow> journal \<Rightarrow> bool" where
  "created b par j j' \<longleftrightarrow>
    \<not> dict_has (jn_batches j) b \<and> parent_of j' b = par \<and> dict_has (jn_batches j') b \<and>
    (\<forall>c. c \<noteq> b \<longrightarrow> dict_has (jn_batches j') c = dict_has (jn_batches j) c \<and> parent_of j' c = parent_of j c) \<and>
    (\<forall>k y. row j' k = Some y \<longrightarrow>
      (\<exists>x. row j k = Some x \<and> row_spent x y) \<or>
      fst k = b \<and> rc_state y = Pending \<and> (\<forall>p. par = Some p \<longrightarrow> retry_taken (p, snd k) j j'))"

lemma create_no_parent:
  assumes "\<not> dict_has (jn_batches j) (br_batch rq)" and "br_parent rq = None"
  shows "created (br_batch rq) None j
    (foldl (insert_recipient sha users rq) (j\<lparr>jn_batches := dict_set (jn_batches j) (br_batch rq) (new_batch rq cs)\<rparr>) es)"
proof -
  let ?j1 = "j\<lparr>jn_batches := dict_set (jn_batches j) (br_batch rq) (new_batch rq cs)\<rparr>"
  have "rows_added (br_batch rq) UNIV ?j1 (foldl (insert_recipient sha users rq) ?j1 es)" by (rule insert_fold) simp
  then show ?thesis
    using assms by (auto simp: created_def rows_added_def same_batches_def parent_of_def dict_has_def new_batch_def Let_def)
qed

lemma create_child:
  assumes new: "\<not> dict_has (jn_batches j) (br_batch rq)" and par: "br_parent rq = Some p"
    and fold: "foldl (consume_retry p) (j, 0, []) (br_candidates rq) = (j1, n, cs)"
    and j2: "j2 = update_batch p (\<lambda>x. x\<lparr>bt_retryable := bt_retryable x - n\<rparr>) j1"
    and j3: "j3 = j2\<lparr>jn_batches := dict_set (jn_batches j2) (br_batch rq) (new_batch rq cs)\<rparr>"
  shows "created (br_batch rq) (Some p) j (foldl (insert_recipient sha users rq) j3 (filter (\<lambda>c. cd_reason c = None) cs))"
    (is "created _ _ _ ?j4")
proof -
  let ?es = "filter (\<lambda>c. cd_reason c = None) cs"
  have c: "rows_spent j j1" "jn_batches j1 = jn_batches j"
    "\<And>c. c \<in> set cs \<Longrightarrow> cd_reason c = None \<Longrightarrow> \<exists>x. row j (p, cd_recipient c) = Some x \<and> rc_state x = Failed \<and> rc_retryable x"
    "\<And>c. c \<in> set cs \<Longrightarrow> cd_reason c = None \<Longrightarrow> \<exists>y. row j1 (p, cd_recipient c) = Some y \<and> rc_state y = Failed \<and> \<not> rc_retryable y"
    using consume_fold [OF fold] by auto
  have u: "same_batches j1 j2" "jn_recipients j2 = jn_recipients j1" unfolding j2 by (rule update_batch_same; simp)+
  have rec: "jn_recipients j3 = jn_recipients j1" by (simp add: j3 u)
  have add: "rows_added (br_batch rq) (cd_recipient ` set ?es) j3 ?j4" by (rule insert_fold) auto
  have sb: "same_batches j j2" using u(1) c(2) by (simp add: same_batches_def parent_of_def)
  have b: "\<not> dict_has (jn_batches j2) (br_batch rq)" using sb new by (simp add: same_batches_def)
  have batches: "dict_has (jn_batches ?j4) x = (x = br_batch rq \<or> dict_has (jn_batches j) x) \<and>
      parent_of ?j4 x = (if x = br_batch rq then Some p else parent_of j x)" for x
  proof -
    have "dict_has (jn_batches j3) x = (x = br_batch rq \<or> dict_has (jn_batches j2) x)"
      "parent_of j3 x = (if x = br_batch rq then Some p else parent_of j2 x)"
      by (simp_all add: j3 dict_has_def parent_of_def new_batch_def Let_def par)
    with add sb show ?thesis by (simp add: rows_added_def same_batches_def)
  qed
  have rows: "(\<exists>x. row j k = Some x \<and> row_spent x y) \<or> fst k = br_batch rq \<and> rc_state y = Pending \<and> retry_taken (p, snd k) j ?j4"
    if y: "row ?j4 k = Some y" for k y
  proof -
    from add y consider x where "row j3 k = Some x" "row_spent x y"
      | "fst k = br_batch rq" "snd k \<in> cd_recipient ` set ?es" "rc_state y = Pending"
      unfolding rows_added_def by blast
    then show ?thesis
    proof cases
      case 1
      then have "row j1 k = Some x" by (simp add: rec)
      with c(1) obtain z where "row j k = Some z" "row_spent z x" unfolding rows_spent_def by (metis option.exhaust)
      with 1 show ?thesis by (blast intro: row_spent_trans)
    next
      case 2
      then obtain d where d: "d \<in> set cs" "cd_reason d = None" "snd k = cd_recipient d" by auto
      from c(4) [OF d(1,2)] obtain z where z: "row j3 (p, snd k) = Some z" "rc_state z = Failed" "\<not> rc_retryable z" by (auto simp: rec d)
      with add obtain z' where "row ?j4 (p, snd k) = Some z'" "row_spent z z'" unfolding rows_added_def by blast
      with z c(3) [OF d(1,2)] d(3) 2 show ?thesis by (auto simp: retry_taken_def row_spent_def)
    qed
  qed
  show ?thesis unfolding created_def using new batches rows by auto
qed

lemma create_effect: "fst (create_batch sha users rq j) = j \<or> created (br_batch rq) (br_parent rq) j (fst (create_batch sha users rq j))"
proof (cases "snd (create_batch sha users rq j) = CreatedBatch")
  case False
  then show ?thesis by (auto simp: create_batch_def split: option.splits if_splits prod.splits)
next
  case True
  then have new: "\<not> dict_has (jn_batches j) (br_batch rq)" and op: "batch_of_operation (br_operation rq) j = None"
    and cap: "\<not> length (filter (\<lambda>e. bt_state (snd e) \<noteq> Finished) (jn_batches j)) \<ge> 10"
    by (auto simp: create_batch_def split: option.splits if_splits)
  show ?thesis
  proof (cases "br_parent rq")
    case None
    with new op cap create_no_parent [OF new None] show ?thesis by (simp add: create_batch_def)
  next
    case (Some p)
    obtain j1 n cs where f: "foldl (consume_retry p) (j, 0, []) (br_candidates rq) = (j1, n, cs)" by (metis prod_cases3)
    from new op cap f Some create_child [OF new Some f refl refl] show ?thesis by (simp add: create_batch_def)
  qed
qed

end
