(* ===== verification/Broadcast_Once.thy ===== *)
theory Broadcast_Once
  imports Broadcast_Safety
begin

text \<open>
  A broadcast reaches a recipient once: over a batch and all the batches made of it by retries, every call of the bot that may
  have arrived belongs to one session. The verdict of a delivery is honest, and a retry is granted once, only for a recipient
  to whom nothing can have arrived.
\<close>

section \<open>The invariant\<close>

definition session_key :: "session \<Rightarrow> string \<times> int" where
  "session_key s = (se_batch s, se_recipient s)"

definition tx_key :: "transmission \<Rightarrow> string \<times> int" where
  "tx_key t = (tx_batch t, tx_recipient t)"

text \<open>Nothing can have arrived for the key, and nothing will.\<close>

definition key_settled :: "session list \<Rightarrow> transmission list \<Rightarrow> string \<times> int \<Rightarrow> bool" where
  "key_settled S L k \<longleftrightarrow>
    (\<forall>t \<in> set L. tx_key t = k \<longrightarrow> \<not> may_have_arrived (tx_answer t)) \<and> (\<forall>s \<in> set S. session_key s = k \<longrightarrow> se_phase s = SessionOver)"

definition key_confirmed :: "transmission list \<Rightarrow> string \<times> int \<Rightarrow> bool" where
  "key_confirmed L k \<longleftrightarrow> (\<exists>t \<in> set L. tx_key t = k \<and> has_receipt (tx_answer t))"

definition sessions_ok :: "session list \<Rightarrow> transmission list \<Rightarrow> string list \<Rightarrow> (string \<times> int) list \<Rightarrow> bool" where
  "sessions_ok S L T M \<longleftrightarrow>
    (\<forall>s \<in> set S. session_ok L s \<and> se_token s \<in> set T \<and> session_key s \<in> set M) \<and>
    distinct (map session_key S) \<and> distinct (map se_token S) \<and>
    (\<forall>t \<in> set L. (tx_key t, tx_token t) \<in> set (map (\<lambda>s. (session_key s, se_token s)) S))"

definition recipient_ok :: "session list \<Rightarrow> transmission list \<Rightarrow> (string \<times> int) list \<Rightarrow> string \<times> int \<Rightarrow> recipient_state \<Rightarrow> bool" where
  "recipient_ok S L M k st \<longleftrightarrow>
    k \<in> set M \<and> (st = Pending \<longrightarrow> k \<notin> session_key ` set S) \<and> (st = Failed \<longrightarrow> key_settled S L k) \<and> (st = Sent \<longrightarrow> key_confirmed L k)"

definition rows_ok :: "session list \<Rightarrow> transmission list \<Rightarrow> (string \<times> int) list \<Rightarrow> journal \<Rightarrow> bool" where
  "rows_ok S L M j \<longleftrightarrow> (\<forall>k x. row j k = Some x \<longrightarrow> recipient_ok S L M k (rc_state x))"

text \<open>The recipients of a child batch failed in its parent, where their grant is spent, on this one child.\<close>

definition granted :: "session list \<Rightarrow> transmission list \<Rightarrow> (string \<times> int) list \<Rightarrow> journal \<Rightarrow> string \<times> int \<Rightarrow> bool" where
  "granted S L M j k \<longleftrightarrow>
    k \<in> set M \<and> key_settled S L k \<and> (\<forall>x. row j k = Some x \<longrightarrow> rc_state x = Failed \<and> \<not> rc_retryable x)"

definition lineage_ok :: "session list \<Rightarrow> transmission list \<Rightarrow> (string \<times> int) list \<Rightarrow> journal \<Rightarrow> bool" where
  "lineage_ok S L M j \<longleftrightarrow>
    (\<forall>b r. (b, r) \<in> set M \<longrightarrow>
      dict_has (jn_batches j) b \<and> (\<forall>p. parent_of j b = Some p \<longrightarrow> granted S L M j (p, r)))"

definition one_child :: "(string \<times> int) list \<Rightarrow> journal \<Rightarrow> bool" where
  "one_child M j \<longleftrightarrow>
    (\<forall>b1 b2 r p. (b1, r) \<in> set M \<and> (b2, r) \<in> set M \<and> parent_of j b1 = Some p \<and> parent_of j b2 = Some p \<longrightarrow> b1 = b2)"

definition broadcast_ok :: "broadcast \<Rightarrow> bool" where
  "broadcast_ok w \<longleftrightarrow>
    sessions_ok (bc_sessions w) (bc_log w) (bc_tokens w) (bc_made w) \<and> rows_ok (bc_sessions w) (bc_log w) (bc_made w) (bc_journal w) \<and>
    lineage_ok (bc_sessions w) (bc_log w) (bc_made w) (bc_journal w) \<and> one_child (bc_made w) (bc_journal w)"

lemma broadcast_ok_init: "broadcast_ok broadcast_init"
  by (simp add: broadcast_ok_def broadcast_init_def sessions_ok_def rows_ok_def lineage_ok_def one_child_def)

lemma rows_okD: "rows_ok S L M j \<Longrightarrow> row j k = Some x \<Longrightarrow> recipient_ok S L M k (rc_state x)"
  unfolding rows_ok_def by blast

lemma untouched_settled:
  assumes "sessions_ok S L T M" and "k \<notin> session_key ` set S"
  shows "key_settled S L k"
  using assms by (force simp: sessions_ok_def key_settled_def)

lemma granted_moves:
  assumes "granted S L M j k" and "journal_moves j j'"
  shows "granted S L M j' k"
  using assms unfolding granted_def journal_moves_def row_moves_def by fastforce

lemma journal_step_ok:
  assumes "broadcast_ok w" and "journal_moves (bc_journal w) j"
  shows "broadcast_ok (w\<lparr>bc_journal := j\<rparr>)"
proof -
  have inv: "sessions_ok (bc_sessions w) (bc_log w) (bc_tokens w) (bc_made w)" "rows_ok (bc_sessions w) (bc_log w) (bc_made w) (bc_journal w)"
    "lineage_ok (bc_sessions w) (bc_log w) (bc_made w) (bc_journal w)" "one_child (bc_made w) (bc_journal w)"
    using assms(1) by (simp_all add: broadcast_ok_def)
  have "rows_ok (bc_sessions w) (bc_log w) (bc_made w) j" unfolding rows_ok_def
  proof (intro allI impI)
    fix k y
    assume "row j k = Some y"
    with assms(2) obtain x where x: "row (bc_journal w) k = Some x" "row_moves x y" unfolding journal_moves_def by blast
    from rows_okD [OF inv(2) x(1)] x(2) untouched_settled [OF inv(1), of k]
    show "recipient_ok (bc_sessions w) (bc_log w) (bc_made w) k (rc_state y)"
      unfolding row_moves_def recipient_ok_def by auto
  qed
  moreover have same: "dict_has (jn_batches j) b = dict_has (jn_batches (bc_journal w)) b" "parent_of j b = parent_of (bc_journal w) b" for b
    using assms(2) by (simp_all add: journal_moves_def same_batches_def)
  moreover have "lineage_ok (bc_sessions w) (bc_log w) (bc_made w) j"
    using inv(3) granted_moves [OF _ assms(2)] unfolding lineage_ok_def same by blast
  moreover have "one_child (bc_made w) j" using inv(4) unfolding one_child_def same .
  ultimately show ?thesis using inv(1) by (simp add: broadcast_ok_def)
qed

text \<open>A step of one session, in place, with or without a transmission.\<close>

definition session_steps :: "session list \<Rightarrow> transmission list \<Rightarrow> session list \<Rightarrow> transmission list \<Rightarrow> bool" where
  "session_steps S L S' L' \<longleftrightarrow>
    (\<exists>i s'. i < length S \<and> S' = S[i := s'] \<and> same_owner (S ! i) s' \<and> session_ok L' s' \<and>
      (L' = L \<or> (\<exists>t. L' = t # L \<and> tx_key t = session_key (S ! i) \<and> tx_token t = se_token (S ! i))))"

lemma session_steps_settled:
  assumes "session_steps S L S' L'" and "key_settled S L k"
  shows "key_settled S' L' k"
proof -
  from assms(1) obtain i s' where i: "i < length S" "S' = S[i := s']" "same_owner (S ! i) s'"
    and L: "L' = L \<or> (\<exists>t. L' = t # L \<and> tx_key t = session_key (S ! i))"
    unfolding session_steps_def by blast
  have k: "session_key (S ! i) \<noteq> k" "session_key s' = session_key (S ! i)"
    using assms(2) i by (auto simp: key_settled_def same_owner_def session_key_def)
  then have "session_key s = k \<longrightarrow> se_phase s = SessionOver" if "s \<in> set S'" for s
    using that assms(2) set_update_subset_insert [of S i s'] i(2) by (auto simp: key_settled_def)
  with L assms(2) k(1) show ?thesis by (auto simp: key_settled_def)
qed

lemma session_steps_keys:
  assumes "session_steps S L S' L'"
  shows "map session_key S' = map session_key S" "map se_token S' = map se_token S"
    "map (\<lambda>s. (session_key s, se_token s)) S' = map (\<lambda>s. (session_key s, se_token s)) S"
  using assms by (auto simp: session_steps_def map_update same_owner_def session_key_def intro!: list_update_same_conv [THEN iffD2])

lemma session_steps_ok:
  assumes "sessions_ok S L T M" and "session_steps S L S' L'"
  shows "sessions_ok S' L' T M"
proof -
  note keys = session_steps_keys [OF assms(2)]
  from assms(2) obtain i s' where i: "i < length S" "S' = S[i := s']" "same_owner (S ! i) s'" "session_ok L' s'"
    and L: "L' = L \<or> (\<exists>t. L' = t # L \<and> tx_key t = session_key (S ! i) \<and> tx_token t = se_token (S ! i))"
    unfolding session_steps_def by blast
  have "session_ok L' s" if "s \<in> set S'" for s
  proof -
    from that obtain n where n: "n < length S'" "s = S' ! n" by (metis in_set_conv_nth)
    show ?thesis
    proof (cases "n = i")
      case False
      then have s: "s = S ! n" "n < length S" using n i(2) by simp_all
      then have "session_ok L s" "se_token (S ! i) \<noteq> se_token s"
        using assms(1) False i(1) nth_eq_iff_index_eq [of "map se_token S" n i] by (auto simp: sessions_ok_def)
      with L show ?thesis by (auto intro: session_other)
    qed (use n i in simp)
  qed
  moreover have "se_token s \<in> set T \<and> session_key s \<in> set M" if "s \<in> set S'" for s
  proof -
    have "se_token s \<in> set (map se_token S)" "session_key s \<in> set (map session_key S)"
      unfolding keys(1,2) [symmetric] using that by simp_all
    with assms(1) show ?thesis by (auto simp: sessions_ok_def)
  qed
  moreover have "(tx_key t, tx_token t) \<in> set (map (\<lambda>s. (session_key s, se_token s)) S)" if "t \<in> set L'" for t
    using that L assms(1) i(1) by (auto simp: sessions_ok_def)
  moreover have "distinct (map session_key S)" "distinct (map se_token S)" using assms(1) by (simp_all add: sessions_ok_def)
  ultimately show ?thesis unfolding sessions_ok_def keys by simp
qed

lemma session_step_ok:
  assumes "broadcast_ok w" and "session_steps (bc_sessions w) (bc_log w) S L"
  shows "broadcast_ok (w\<lparr>bc_sessions := S, bc_log := L\<rparr>)"
proof -
  have keys: "session_key ` set S = session_key ` set (bc_sessions w)"
    using session_steps_keys(1) [OF assms(2)] by (metis set_map)
  note st = session_steps_settled [OF assms(2)]
  have "set (bc_log w) \<subseteq> set L" using assms(2) by (auto simp: session_steps_def)
  then have conf: "key_confirmed L k" if "key_confirmed (bc_log w) k" for k using that by (auto simp: key_confirmed_def)
  have "rows_ok S L (bc_made w) (bc_journal w)" "lineage_ok S L (bc_made w) (bc_journal w)"
    using assms(1) st conf unfolding broadcast_ok_def rows_ok_def recipient_ok_def lineage_ok_def granted_def keys by blast+
  with assms(1) session_steps_ok [OF _ assms(2)] show ?thesis by (simp add: broadcast_ok_def)
qed

lemma on_session_ok:
  assumes ok: "broadcast_ok w" and step: "on_session i w f = Some w'"
    and f: "\<And>s s'. session_ok (bc_log w) s \<Longrightarrow> f s = Some s' \<Longrightarrow> session_ok (bc_log w) s' \<and> same_owner s s'"
  shows "broadcast_ok w'"
proof -
  from step obtain s' where i: "i < length (bc_sessions w)" "f (bc_sessions w ! i) = Some s'" and w': "w' = put_session i s' w"
    by (auto simp: on_session_def session_at_def split: if_splits)
  have "session_ok (bc_log w) (bc_sessions w ! i)" using ok i(1) by (simp add: broadcast_ok_def sessions_ok_def)
  with f i have "session_steps (bc_sessions w) (bc_log w) ((bc_sessions w)[i := s']) (bc_log w)"
    unfolding session_steps_def by blast
  from session_step_ok [OF ok this] show ?thesis by (simp add: w' put_session_def)
qed

lemma on_session_journal_ok:
  assumes ok: "broadcast_ok w" and step: "on_session_journal i w f = Some w'"
    and f: "\<And>s s' j. session_ok (bc_log w) s \<Longrightarrow> f s (bc_journal w) = Some (s', j) \<Longrightarrow>
      session_ok (bc_log w) s' \<and> same_owner s s' \<and> journal_moves (bc_journal w) j"
  shows "broadcast_ok w'"
proof -
  from step obtain s' j where i: "i < length (bc_sessions w)" "f (bc_sessions w ! i) (bc_journal w) = Some (s', j)"
    and w': "w' = put_session i s' (w\<lparr>bc_journal := j\<rparr>)"
    by (auto simp: on_session_journal_def session_at_def split: if_splits)
  have "session_ok (bc_log w) (bc_sessions w ! i)" using ok i(1) by (simp add: broadcast_ok_def sessions_ok_def)
  from f [OF this i(2)] i(1) have st: "session_steps (bc_sessions w) (bc_log w) ((bc_sessions w)[i := s']) (bc_log w)"
    and mv: "journal_moves (bc_journal w) j"
    unfolding session_steps_def by blast+
  have "broadcast_ok (w\<lparr>bc_journal := j, bc_sessions := (bc_sessions w)[i := s'], bc_log := bc_log w\<rparr>)"
    by (rule session_step_ok [OF journal_step_ok [OF ok mv]]) (simp add: st)
  then show ?thesis by (simp add: w' put_session_def broadcast_ok_def)
qed

lemma transmit_ok:
  assumes ok: "broadcast_ok w" and step: "bc_transmit i ans w = Some w'"
  shows "broadcast_ok w'"
proof -
  let ?s = "bc_sessions w ! i"
  let ?t = "\<lparr>tx_batch = se_batch ?s, tx_recipient = se_recipient ?s, tx_token = se_token ?s, tx_answer = ans\<rparr>"
  from step obtain s' where i: "i < length (bc_sessions w)" "se_transmit ans ?s = Some s'"
    and w': "w' = put_session i s' (w\<lparr>bc_log := ?t # bc_log w\<rparr>)"
    by (auto simp: bc_transmit_def session_at_def split: if_splits)
  have "session_ok (bc_log w) ?s" using ok i(1) by (simp add: broadcast_ok_def sessions_ok_def)
  from session_transmit [OF this i(2) refl]
  have "session_ok (?t # bc_log w) s'" "same_owner ?s s'" by blast+
  moreover have "tx_key ?t = session_key ?s" "tx_token ?t = se_token ?s" by (simp_all add: tx_key_def session_key_def)
  ultimately have "session_steps (bc_sessions w) (bc_log w) ((bc_sessions w)[i := s']) (?t # bc_log w)"
    unfolding session_steps_def using i(1) by blast
  from session_step_ok [OF ok this] show ?thesis by (simp add: w' put_session_def broadcast_ok_def)
qed

text \<open>A recipient's row is claimed or settled.\<close>

definition row_set :: "string \<times> int \<Rightarrow> recipient_state \<Rightarrow> recipient_state \<Rightarrow> journal \<Rightarrow> journal \<Rightarrow> bool" where
  "row_set k st st' j j' \<longleftrightarrow>
    (\<exists>x y. row j k = Some x \<and> rc_state x = st \<and> same_batches j j' \<and> jn_recipients j' = dict_set (jn_recipients j) k y \<and> rc_state y = st')"

lemma row_step_ok:
  assumes ok: "broadcast_ok w" and set: "row_set k st st' (bc_journal w) j" and st: "st \<in> {Pending, Started}"
    and st': "st' \<noteq> Pending" "st' = Failed \<longrightarrow> key_settled (bc_sessions w) (bc_log w) k" "st' = Sent \<longrightarrow> key_confirmed (bc_log w) k"
  shows "broadcast_ok (w\<lparr>bc_journal := j\<rparr>)"
proof -
  from set st obtain x y where x: "row (bc_journal w) k = Some x" "rc_state x \<in> {Pending, Started}"
    and j: "same_batches (bc_journal w) j" "jn_recipients j = dict_set (jn_recipients (bc_journal w)) k y" and y: "rc_state y = st'"
    by (auto simp: row_set_def)
  have rows: "row j k' = (if k' = k then Some y else row (bc_journal w) k')" for k' using j(2) by simp
  have same: "dict_has (jn_batches j) b = dict_has (jn_batches (bc_journal w)) b" "parent_of j b = parent_of (bc_journal w) b" for b
    using j(1) by (simp_all add: same_batches_def)
  have "granted (bc_sessions w) (bc_log w) (bc_made w) j k'" if "granted (bc_sessions w) (bc_log w) (bc_made w) (bc_journal w) k'" for k'
    using that x rows by (auto simp: granted_def)
  then have "lineage_ok (bc_sessions w) (bc_log w) (bc_made w) j" "one_child (bc_made w) j"
    using ok unfolding broadcast_ok_def lineage_ok_def one_child_def same by blast+
  moreover have "rows_ok (bc_sessions w) (bc_log w) (bc_made w) j" unfolding rows_ok_def
  proof (intro allI impI)
    fix k' z
    assume z: "row j k' = Some z"
    have old: "rows_ok (bc_sessions w) (bc_log w) (bc_made w) (bc_journal w)" using ok by (simp add: broadcast_ok_def)
    show "recipient_ok (bc_sessions w) (bc_log w) (bc_made w) k' (rc_state z)"
    proof (cases "k' = k")
      case True
      then have "z = y" using z rows by simp
      moreover have "k \<in> set (bc_made w)" using rows_okD [OF old x(1)] by (simp add: recipient_ok_def)
      ultimately show ?thesis using True y st' by (simp add: recipient_ok_def)
    next
      case False
      then have "row (bc_journal w) k' = Some z" using z rows by simp
      with old show ?thesis unfolding rows_ok_def by blast
    qed
  qed
  ultimately show ?thesis using ok by (simp add: broadcast_ok_def)
qed

lemma new_session_ok:
  assumes ok: "broadcast_ok w" and x: "row (bc_journal w) (session_key s) = Some x" "rc_state x = Started"
    and new: "session_key s \<notin> session_key ` set (bc_sessions w)" "se_token s \<notin> set (bc_tokens w)"
    and s: "session_ok (bc_log w) s"
  shows "broadcast_ok (w\<lparr>bc_tokens := se_token s # bc_tokens w, bc_sessions := bc_sessions w @ [s]\<rparr>)"
proof -
  let ?S = "bc_sessions w @ [s]"
  have old: "sessions_ok (bc_sessions w) (bc_log w) (bc_tokens w) (bc_made w)" "rows_ok (bc_sessions w) (bc_log w) (bc_made w) (bc_journal w)"
    "lineage_ok (bc_sessions w) (bc_log w) (bc_made w) (bc_journal w)"
    using ok by (simp_all add: broadcast_ok_def)
  have st: "key_settled ?S (bc_log w) k" if "key_settled (bc_sessions w) (bc_log w) k" "k \<noteq> session_key s" for k
    using that by (auto simp: key_settled_def)
  have made: "session_key s \<in> set (bc_made w)" using rows_okD [OF old(2) x(1)] by (simp add: recipient_ok_def)
  have "se_token s \<notin> se_token ` set (bc_sessions w)" using old(1) new(2) by (auto simp: sessions_ok_def)
  then have "sessions_ok ?S (bc_log w) (se_token s # bc_tokens w) (bc_made w)"
    using old(1) new(1) s made by (auto simp: sessions_ok_def)
  moreover have "rows_ok ?S (bc_log w) (bc_made w) (bc_journal w)" unfolding rows_ok_def
  proof (intro allI impI)
    fix k z
    assume z: "row (bc_journal w) k = Some z"
    show "recipient_ok ?S (bc_log w) (bc_made w) k (rc_state z)"
      using rows_okD [OF old(2) z] st [of k] x z by (cases "k = session_key s") (auto simp: recipient_ok_def)
  qed
  moreover have "granted ?S (bc_log w) (bc_made w) (bc_journal w) k" if "granted (bc_sessions w) (bc_log w) (bc_made w) (bc_journal w) k" for k
    using that x st [of k] by (cases "k = session_key s") (auto simp: granted_def)
  then have "lineage_ok ?S (bc_log w) (bc_made w) (bc_journal w)" using old(3) unfolding lineage_ok_def by blast
  ultimately show ?thesis using ok by (simp add: broadcast_ok_def)
qed

lemma session_unique:
  assumes "sessions_ok S L T M" and "s \<in> set S" and "u \<in> set S" and "session_key u = session_key s"
  shows "u = s"
  using assms by (auto simp: sessions_ok_def distinct_map dest: inj_onD)

lemma transmission_owner:
  assumes "sessions_ok S L T M" and "t \<in> set L"
  obtains s where "s \<in> set S" and "session_key s = tx_key t" and "se_token s = tx_token t"
  using assms by (force simp: sessions_ok_def)

lemma finish_recipient_effect:
  assumes "finish_recipient b r token res j = Some (j', ok)"
  shows "j' = j \<or> row_set (b, r) Started (dl_outcome res) j j'"
proof -
  let ?f = "\<lambda>x. (count_outcome (dl_outcome res) x)\<lparr>bt_started := bt_started x - 1,
      bt_retryable := bt_retryable x + of_bool (dl_outcome res = Failed \<and> dl_retryable res)\<rparr>"
  have p: "bt_parent (?f x) = bt_parent x" for x by (cases "dl_outcome res") (simp_all add: count_outcome_def)
  show ?thesis
  proof (cases "\<exists>x. row j (b, r) = Some x \<and> rc_owner x = Some token \<and> rc_state x = Started")
    case False
    with assms show ?thesis by (auto simp: finish_recipient_def split: option.splits if_splits)
  next
    case True
    then obtain x where x: "row j (b, r) = Some x" "rc_owner x = Some token" "rc_state x = Started" by blast
    have fin: "dl_outcome res \<noteq> Pending" "dl_outcome res \<noteq> Started" using assms by (auto simp: finish_recipient_def)
    let ?y = "x\<lparr>rc_state := dl_outcome res, rc_reason := Some (dl_reason res), rc_retryable := dl_retryable res,
      rc_message := dl_message res, rc_owner := None\<rparr>"
    have j': "j' = update_batch b ?f (put_recipient (b, r) ?y j)"
      using assms x fin by (simp add: finish_recipient_def)
    have "same_batches j j'" "jn_recipients j' = dict_set (jn_recipients j) (b, r) ?y"
      unfolding j' using same_batches_trans [OF same_batches_frame update_batch_same(1) [OF p]] update_batch_same(2) [OF p]
      by (simp_all add: put_recipient_def)
    then show ?thesis using x by (auto simp: row_set_def)
  qed
qed

lemma finish_step_ok:
  assumes ok: "broadcast_ok w" and step: "on_session_journal i w (se_finish fate) = Some w'"
  shows "broadcast_ok w'"
proof -
  let ?s = "bc_sessions w ! i"
  from step obtain s' j where i: "i < length (bc_sessions w)" "se_finish fate ?s (bc_journal w) = Some (s', j)"
    and w': "w' = put_session i s' (w\<lparr>bc_journal := j\<rparr>)"
    by (auto simp: on_session_journal_def session_at_def split: if_splits)
  have sok: "sessions_ok (bc_sessions w) (bc_log w) (bc_tokens w) (bc_made w)" using ok by (simp add: broadcast_ok_def)
  have s: "session_ok (bc_log w) ?s" "?s \<in> set (bc_sessions w)" using sok i(1) by (simp_all add: sessions_ok_def)
  note over = session_finish [OF s(1) i(2)]
  from i(2) obtain res where res: "se_phase ?s = Delivered res" by (cases "se_phase ?s") (simp_all add: se_finish_def)
  let ?w1 = "w\<lparr>bc_sessions := (bc_sessions w)[i := s'], bc_log := bc_log w\<rparr>"
  have w1: "broadcast_ok ?w1" using over i(1) by (intro session_step_ok [OF ok]) (auto simp: session_steps_def)
  then have w1s: "sessions_ok (bc_sessions ?w1) (bc_log w) (bc_tokens w) (bc_made w)" by (simp add: broadcast_ok_def)
  have s'in: "s' \<in> set (bc_sessions ?w1)" using i(1) by (simp add: set_update_memI)
  have quiet: "key_settled (bc_sessions ?w1) (bc_log w) (session_key ?s)" if "dl_outcome res = Failed"
  proof -
    have "\<not> possibly (bc_log w) (se_token ?s)" using s(1) that res by (auto simp: session_ok_def)
    moreover have "tx_token t = se_token ?s" if "t \<in> set (bc_log w)" "tx_key t = session_key ?s" for t
      using transmission_owner [OF sok that(1)] session_unique [OF sok s(2)] that(2) by metis
    moreover have "se_phase u = SessionOver" if "u \<in> set (bc_sessions ?w1)" "session_key u = session_key ?s" for u
      using that over session_unique [OF w1s s'in, of u] by (simp add: same_owner_def session_key_def)
    ultimately show ?thesis by (auto simp: key_settled_def heard_def)
  qed
  have conf: "key_confirmed (bc_log w) (session_key ?s)" if sent: "dl_outcome res = Sent"
  proof -
    from s(1) sent res have "heard has_receipt (bc_log w) (se_token ?s)" by (auto simp: session_ok_def)
    then obtain t where t: "t \<in> set (bc_log w)" "tx_token t = se_token ?s" "has_receipt (tx_answer t)" by (auto simp: heard_def)
    from transmission_owner [OF sok t(1)] obtain u where u: "u \<in> set (bc_sessions w)" "session_key u = tx_key t" "se_token u = se_token ?s"
      using t(2) by metis
    then have "u = ?s" using sok s(2) by (auto simp: sessions_ok_def distinct_map dest: inj_onD)
    with t u show ?thesis by (auto simp: key_confirmed_def)
  qed
  have "j = bc_journal w \<or> row_set (session_key ?s) Started (dl_outcome res) (bc_journal w) j"
    using i(2) unfolding se_finish_def res session_key_def
    by (auto dest: finish_recipient_effect split: option.splits if_splits)
  then have "broadcast_ok (?w1\<lparr>bc_journal := j\<rparr>)"
  proof
    assume "j = bc_journal w"
    with w1 show ?thesis by simp
  next
    assume "row_set (session_key ?s) Started (dl_outcome res) (bc_journal w) j"
    moreover have "dl_outcome res \<noteq> Pending" using s(1) res by (simp add: session_ok_def final_outcome_def)
    ultimately show ?thesis using quiet conf by (intro row_step_ok [OF w1, of "session_key ?s" Started "dl_outcome res"]) simp_all
  qed
  then show ?thesis by (simp add: w' put_session_def broadcast_ok_def)
qed

lemma claim_recipient_effect:
  assumes "claim_recipient b r bt token j = (j', ok)"
  shows "j' = j \<and> \<not> ok \<or> row_set (b, r) Pending Started j j'"
proof (cases "ok")
  case False
  with assms show ?thesis by (auto simp: claim_recipient_def split: option.splits if_splits)
next
  case True
  let ?f = "\<lambda>x. x\<lparr>bt_pending := bt_pending x - 1, bt_started := bt_started x + 1\<rparr>"
  have p: "bt_parent (?f x) = bt_parent x" for x by simp
  from True assms obtain x where x: "row j (b, r) = Some x" "rc_state x = Pending"
    "j' = update_batch b ?f (put_recipient (b, r) (x\<lparr>rc_state := Started, rc_owner := Some token\<rparr>) j)"
    by (auto simp: claim_recipient_def split: option.splits if_splits)
  have "same_batches j j'" "jn_recipients j' = dict_set (jn_recipients j) (b, r) (x\<lparr>rc_state := Started, rc_owner := Some token\<rparr>)"
    unfolding x(3) using same_batches_trans [OF same_batches_frame update_batch_same(1) [OF p]] update_batch_same(2) [OF p]
    by (simp_all add: put_recipient_def)
  then show ?thesis using x(1,2) by (auto simp: row_set_def)
qed

lemma token_spent_ok: "broadcast_ok w \<Longrightarrow> broadcast_ok (w\<lparr>bc_tokens := tok # bc_tokens w\<rparr>)"
  by (auto simp: broadcast_ok_def sessions_ok_def)

lemma claim_ok:
  assumes ok: "broadcast_ok w" and step: "bc_claim b r bt token answered permitted w = Some w'"
  shows "broadcast_ok w'"
proof -
  obtain j c where c: "claim_recipient b r bt token (bc_journal w) = (j, c)" by fastforce
  let ?s = "if permitted then new_session b r token
      else (new_session b r token)\<lparr>se_phase := Delivered (delivered_as Skipped ''privacy_revoked'' False)\<rparr>"
  have fresh: "token \<notin> set (bc_tokens w)"
    and w': "w' = (if c \<and> answered then w\<lparr>bc_journal := j, bc_tokens := token # bc_tokens w, bc_sessions := bc_sessions w @ [?s]\<rparr>
      else w\<lparr>bc_journal := j, bc_tokens := token # bc_tokens w\<rparr>)"
    using step by (auto simp: bc_claim_def c Let_def split: if_splits)
  have key: "session_key ?s = (b, r)" "se_token ?s = token" by (simp_all add: session_key_def new_session_def)
  have sok: "sessions_ok (bc_sessions w) (bc_log w) (bc_tokens w) (bc_made w)" using ok by (simp add: broadcast_ok_def)
  have quiet: "\<not> possibly (bc_log w) token"
    using sok fresh transmission_owner [OF sok] unfolding heard_def sessions_ok_def by metis
  from claim_recipient_effect [OF c] show ?thesis
  proof
    assume "j = bc_journal w \<and> \<not> c"
    with token_spent_ok [OF ok, of token] show ?thesis by (simp add: w')
  next
    assume set: "row_set (b, r) Pending Started (bc_journal w) j"
    have j: "broadcast_ok (w\<lparr>bc_journal := j\<rparr>)" by (rule row_step_ok [OF ok set]) simp_all
    from set obtain x y where x: "row (bc_journal w) (b, r) = Some x" "rc_state x = Pending" and y: "row j (b, r) = Some y" "rc_state y = Started"
      by (auto simp: row_set_def)
    show ?thesis
    proof (cases "c \<and> answered")
      case True
      have "(b, r) \<notin> session_key ` set (bc_sessions w)" using ok x(1,2) unfolding broadcast_ok_def rows_ok_def recipient_ok_def by blast
      then have "broadcast_ok (w\<lparr>bc_journal := j, bc_tokens := se_token ?s # bc_tokens w, bc_sessions := bc_sessions w @ [?s]\<rparr>)"
        using new_session_ok [OF j, of ?s y] y fresh quiet session_new session_denied by (simp add: key)
      then show ?thesis unfolding w' key using True by simp
    qed (use token_spent_ok [OF j, of token] in \<open>auto simp: w'\<close>)
  qed
qed

section \<open>New batches\<close>

lemma made_after:
  "set (bc_made (set_journal j w)) = {k. row j k \<noteq> None \<and> row (bc_journal w) k = None} \<union> set (bc_made w)"
  by (auto simp: set_journal_def dict_has_def set_dict_keys_iff)

lemma granted_created:
  assumes "created b par j j'" and "granted S L M j k" and "fst k \<noteq> b" and "set M \<subseteq> set M'"
  shows "granted S L M' j' k"
  using assms unfolding granted_def created_def row_spent_def by (metis subsetD)

lemma create_ok:
  assumes ok: "broadcast_ok w" and new: "created b par (bc_journal w) j"
  shows "broadcast_ok (set_journal j w)"
proof -
  let ?S = "bc_sessions w" and ?L = "bc_log w" and ?M = "bc_made w" and ?j = "bc_journal w" and ?M' = "bc_made (set_journal j w)"
  have frame: "bc_sessions (set_journal j w) = ?S" "bc_log (set_journal j w) = ?L" "bc_tokens (set_journal j w) = bc_tokens w"
    "bc_journal (set_journal j w) = j" by (simp_all add: set_journal_def)
  have s: "sessions_ok ?S ?L (bc_tokens w) ?M" and r: "rows_ok ?S ?L ?M ?j" and l: "lineage_ok ?S ?L ?M ?j" and o: "one_child ?M ?j"
    using ok by (simp_all add: broadcast_ok_def)
  have mono: "set ?M \<subseteq> set ?M'" by (simp add: made_after)
  have notb: "fst k \<noteq> b" if "k \<in> set ?M" for k using that l new unfolding lineage_ok_def created_def by (metis prod.collapse)
  have fresh: "fst k = b \<and> (\<forall>p. par = Some p \<longrightarrow> retry_taken (p, snd k) ?j j)" if "k \<in> set ?M'" "k \<notin> set ?M" for k
  proof -
    from that obtain y where y: "row j k = Some y" "row ?j k = None" by (auto simp: made_after)
    with new have "(\<exists>x. row ?j k = Some x \<and> row_spent x y) \<or> fst k = b \<and> (\<forall>p. par = Some p \<longrightarrow> retry_taken (p, snd k) ?j j)"
      unfolding created_def by blast
    with y(2) show ?thesis by simp
  qed
  have batches: "dict_has (jn_batches j) c = (c = b \<or> dict_has (jn_batches ?j) c)" "parent_of j c = (if c = b then par else parent_of ?j c)" for c
    using new by (auto simp: created_def)
  have taken: "granted ?S ?L ?M' j k" "\<exists>x. row ?j k = Some x \<and> rc_retryable x" if "retry_taken k ?j j" for k
    using that rows_okD [OF r, of k] mono by (auto simp: retry_taken_def granted_def recipient_ok_def)
  have "sessions_ok ?S ?L (bc_tokens w) ?M'" using s mono unfolding sessions_ok_def by blast
  moreover have "rows_ok ?S ?L ?M' j" unfolding rows_ok_def
  proof (intro allI impI)
    fix k y
    assume y: "row j k = Some y"
    with new consider x where "row ?j k = Some x" "row_spent x y" | "fst k = b" "rc_state y = Pending" unfolding created_def by blast
    then show "recipient_ok ?S ?L ?M' k (rc_state y)"
    proof cases
      case 1
      then have "rc_state y = rc_state x" by (simp add: row_spent_def)
      with rows_okD [OF r 1(1)] mono show ?thesis by (auto simp: recipient_ok_def)
    next
      case 2
      moreover have "k \<notin> set ?M" using notb 2 by blast
      moreover from this have "row ?j k = None" using rows_okD [OF r, of k] by (cases "row ?j k") (auto simp: recipient_ok_def)
      moreover have "k \<notin> session_key ` set ?S" using s \<open>k \<notin> set ?M\<close> unfolding sessions_ok_def by blast
      ultimately show ?thesis using y by (auto simp: made_after recipient_ok_def)
    qed
  qed
  moreover have "lineage_ok ?S ?L ?M' j" unfolding lineage_ok_def
  proof (intro allI impI conjI)
    fix c rr
    assume c: "(c, rr) \<in> set ?M'"
    show "dict_has (jn_batches j) c" using c fresh l unfolding batches lineage_ok_def by fastforce
    fix p
    assume p: "parent_of j c = Some p"
    show "granted ?S ?L ?M' j (p, rr)"
    proof (cases "(c, rr) \<in> set ?M")
      case True
      then have "granted ?S ?L ?M ?j (p, rr)" using l p notb [OF True] unfolding lineage_ok_def batches by simp
      moreover from this have "fst (p, rr) \<noteq> b" by (intro notb) (simp add: granted_def)
      ultimately show ?thesis using granted_created [OF new] mono by blast
    next
      case False
      with fresh [OF c] p show ?thesis unfolding batches using taken(1) by auto
    qed
  qed
  moreover have "one_child ?M' j"
  proof -
    have mixed: False if "(b, rr) \<in> set ?M'" "(c, rr) \<in> set ?M" "par = Some p" "parent_of ?j c = Some p" for c rr p
    proof -
      have "(b, rr) \<notin> set ?M" using notb by fastforce
      from fresh [OF that(1) this] that(3) obtain x where "row ?j (p, rr) = Some x" "rc_retryable x" using taken(2) by fastforce
      moreover have "granted ?S ?L ?M ?j (p, rr)" using l that(2,4) unfolding lineage_ok_def by blast
      ultimately show False by (simp add: granted_def)
    qed
    show ?thesis unfolding one_child_def
    proof (intro allI impI)
      fix b1 b2 rr p
      assume a: "(b1, rr) \<in> set ?M' \<and> (b2, rr) \<in> set ?M' \<and> parent_of j b1 = Some p \<and> parent_of j b2 = Some p"
      have member: "(c, rr) \<in> set ?M \<and> c \<noteq> b \<or> c = b" if "(c, rr) \<in> set ?M'" for c using that fresh notb by fastforce
      show "b1 = b2" using a member [of b1] member [of b2] mixed [of rr b1 p] mixed [of rr b2 p] o
        unfolding batches one_child_def by (metis (full_types))
    qed
  qed
  ultimately show ?thesis by (simp add: broadcast_ok_def frame)
qed

lemma unchanged_ok: "broadcast_ok w \<Longrightarrow> broadcast_ok (set_journal (bc_journal w) w)"
  by (simp add: broadcast_ok_def set_journal_def dict_has_def set_dict_keys_iff filter_False)

section \<open>Every reachable state\<close>

lemma start_moves:
  "se_start attempt fate noted s j = Some (s', j') \<Longrightarrow> journal_moves j j'"
  "se_persist fate s j = Some (s', j') \<Longrightarrow> journal_moves j j'"
proof -
  assume st: "se_start attempt fate noted s j = Some (s', j')"
  then obtain n where p: "se_phase s = AtStart n" by (cases "se_phase s") (simp_all add: se_start_def)
  let ?r = "start_attempt attempt (se_batch s) (se_recipient s) (se_token s) (se_sequence s) j"
  have "j' = j \<or> j' = fst ?r" using st by (cases ?r; cases fate) (auto simp: se_start_def p)
  then show "journal_moves j j'" using moves_claims(3) by auto
next
  assume st: "se_persist fate s j = Some (s', j')"
  then obtain n attempt nxt res where p: "se_phase s = AtPersist n attempt nxt" "se_result s = Some res"
    by (cases "se_phase s"; cases "se_result s") (simp_all add: se_persist_def)
  let ?r = "finish_attempt attempt (se_token s) res j"
  have "j' = j \<or> j' = fst ?r" using st by (cases ?r) (auto simp: se_persist_def p split: if_splits)
  then show "journal_moves j j'" using moves_claims(4) by auto
qed

lemma broadcast_step_ok:
  assumes ok: "broadcast_ok w" and step: "broadcast_act ev w = Some w'"
  shows "broadcast_ok w'"
proof (cases ev)
  case (BcCreate sha users rq)
  from create_effect [of sha users rq "bc_journal w"] create_ok [OF ok] unchanged_ok [OF ok] show ?thesis
    using step BcCreate by auto
next
  case (BcStart i attempt fate noted)
  show ?thesis using step BcStart session_start start_moves(1) by (auto intro: on_session_journal_ok [OF ok])
next
  case (BcPersist i fate)
  show ?thesis using step BcPersist session_persist start_moves(2) by (auto intro: on_session_journal_ok [OF ok])
next
  case (BcSend i)
  show ?thesis using step BcSend session_begin by (auto intro: on_session_ok [OF ok])
next
  case (BcCheck i ans)
  show ?thesis using step BcCheck session_check by (auto intro: on_session_ok [OF ok])
next
  case (BcRecheck i ans)
  show ?thesis using step BcRecheck session_recheck by (auto intro: on_session_ok [OF ok])
next
  case (BcRested i c)
  show ?thesis using step BcRested session_rested by (auto intro: on_session_ok [OF ok])
next
  case (BcEnd i e)
  show ?thesis using step BcEnd session_end by (auto intro: on_session_ok [OF ok])
qed (use step journal_step_ok [OF ok] moves_admission moves_interrupt moves_purge moves_erase moves_claims claim_ok [OF ok] transmit_ok [OF ok]
       finish_step_ok [OF ok] in auto)

lemma broadcast_reach_ok: "broadcast_reach w \<Longrightarrow> broadcast_ok w"
  by (induction rule: broadcast_reach.induct) (auto intro: broadcast_ok_init broadcast_step_ok)

text \<open>After an answer that leaves the delivery open, its session transmits no more.\<close>

fun left_open_last :: "transmission list \<Rightarrow> bool" where
  "left_open_last [] = True"
| "left_open_last (t # L) \<longleftrightarrow> \<not> heard left_open L (tx_token t) \<and> left_open_last L"

lemma log_step:
  assumes "broadcast_act ev w = Some w'"
  shows "bc_log w' = bc_log w \<or> (\<exists>i ans. ev = BcTransmit i ans)"
  using assms by (cases ev)
    (auto simp: set_journal_def bc_claim_def on_session_def on_session_journal_def put_session_def Let_def
      split: option.splits if_splits prod.splits)

lemma transmit_left_open:
  assumes "broadcast_ok w" and "left_open_last (bc_log w)" and "bc_transmit i ans w = Some w'"
  shows "left_open_last (bc_log w')"
proof -
  let ?s = "bc_sessions w ! i"
  from assms(3) obtain s' where i: "i < length (bc_sessions w)" "se_transmit ans ?s = Some s'"
    and L: "bc_log w' = \<lparr>tx_batch = se_batch ?s, tx_recipient = se_recipient ?s, tx_token = se_token ?s, tx_answer = ans\<rparr> # bc_log w"
    by (auto simp: bc_transmit_def session_at_def put_session_def split: if_splits)
  have ok: "session_ok (bc_log w) ?s" using assms(1) i(1) by (simp add: broadcast_ok_def sessions_ok_def)
  moreover have "before_send (se_phase ?s)" using i(2) by (cases "se_phase ?s") (simp_all add: se_transmit_def before_send_def)
  ultimately have "\<not> heard left_open (bc_log w) (se_token ?s)" unfolding session_ok_def by blast
  with assms(2) show ?thesis by (simp add: L)
qed

lemma broadcast_reach_left_open: "broadcast_reach w \<Longrightarrow> left_open_last (bc_log w)"
proof (induction rule: broadcast_reach.induct)
  case start
  show ?case by (simp add: broadcast_init_def)
next
  case (act w ev w')
  from log_step [OF act.hyps(2)] show ?case
  proof
    assume "\<exists>i ans. ev = BcTransmit i ans"
    with act.hyps transmit_left_open [OF broadcast_reach_ok [OF act.hyps(1)] act.IH] show ?thesis by auto
  qed (use act.IH in simp)
qed

section \<open>Batches made of a batch\<close>

inductive descends :: "journal \<Rightarrow> string \<Rightarrow> string \<Rightarrow> bool" for j where
  same: "descends j b b"
| child: "descends j c p \<Longrightarrow> parent_of j b = Some p \<Longrightarrow> descends j c b"

lemma descends_down:
  assumes "descends j c b"
  shows "b = c \<or> (\<exists>q. parent_of j q = Some c \<and> descends j q b)"
  using assms
proof induction
  case (child c p b)
  then show ?case using descends.same descends.child by blast
qed simp

lemma ancestor_settled:
  assumes "descends j c b" and "lineage_ok S L M j" and "(b, r) \<in> set M"
  shows "(c, r) \<in> set M \<and> (c = b \<or> key_settled S L (c, r))"
  using assms
proof induction
  case (child c p b)
  then have "granted S L M j (p, r)" by (auto simp: lineage_ok_def)
  with child show ?case by (auto simp: granted_def)
qed simp

lemma one_line:
  assumes "descends j c b1" and "lineage_ok S L M j" and "one_child M j"
    and "(b1, r) \<in> set M" and "(b2, r) \<in> set M" and "descends j c b2"
  shows "descends j b1 b2 \<or> descends j b2 b1"
  using assms
proof induction
  case (child c p b)
  have p: "(p, r) \<in> set M" using child.hyps(2) child.prems(1,3) by (auto simp: lineage_ok_def granted_def)
  from child.IH [OF child.prems(1,2) p child.prems(4,5)] consider "descends j b2 p" | "descends j p b2" by blast
  then show ?case
  proof cases
    case 1
    then show ?thesis using child.hyps(2) descends.child by blast
  next
    case 2
    from descends_down [OF 2] consider "b2 = p" | q where "parent_of j q = Some p" "descends j q b2" by blast
    then show ?thesis
    proof cases
      case 1
      then show ?thesis using child.hyps(2) descends.same descends.child by blast
    next
      case 2
      then have "(q, r) \<in> set M" using ancestor_settled child.prems(1,4) by blast
      with 2 child.hyps(2) child.prems(2,3) have "q = b" unfolding one_child_def by blast
      with 2 show ?thesis by blast
    qed
  qed
qed blast

lemma one_delivery:
  assumes "broadcast_ok w" and t1: "t1 \<in> set (bc_log w)" "may_have_arrived (tx_answer t1)"
    and t2: "t2 \<in> set (bc_log w)" "may_have_arrived (tx_answer t2)" and rec: "tx_recipient t1 = tx_recipient t2"
    and anc: "descends (bc_journal w) c (tx_batch t1)" "descends (bc_journal w) c (tx_batch t2)"
  shows "tx_batch t1 = tx_batch t2"
proof -
  let ?S = "bc_sessions w" and ?L = "bc_log w" and ?M = "bc_made w"
  have s: "sessions_ok ?S ?L (bc_tokens w) ?M" and l: "lineage_ok ?S ?L ?M (bc_journal w)" and o: "one_child ?M (bc_journal w)"
    using assms(1) by (simp_all add: broadcast_ok_def)
  have made: "tx_key t \<in> set ?M" if "t \<in> set ?L" for t using transmission_owner [OF s that] s unfolding sessions_ok_def by metis
  have open_: "\<not> key_settled ?S ?L (tx_key t)" if "t \<in> set ?L" "may_have_arrived (tx_answer t)" for t
    using that by (auto simp: key_settled_def)
  have m: "(tx_batch t1, tx_recipient t2) \<in> set ?M" "(tx_batch t2, tx_recipient t2) \<in> set ?M"
    using made [OF t1(1)] made [OF t2(1)] rec by (simp_all add: tx_key_def)
  from one_line [OF anc(1) l o m anc(2)] show ?thesis
  proof
    assume "descends (bc_journal w) (tx_batch t1) (tx_batch t2)"
    from ancestor_settled [OF this l m(2)] open_ [OF t1] show ?thesis by (auto simp: tx_key_def rec)
  next
    assume "descends (bc_journal w) (tx_batch t2) (tx_batch t1)"
    from ancestor_settled [OF this l m(1)] open_ [OF t2] show ?thesis by (auto simp: tx_key_def)
  qed
qed

section \<open>Properties\<close>

fun broadcast_run :: "broadcast_event list \<Rightarrow> broadcast \<Rightarrow> broadcast option" where
  "broadcast_run [] w = Some w"
| "broadcast_run (ev # evs) w = (case broadcast_act ev w of None \<Rightarrow> None | Some w1 \<Rightarrow> broadcast_run evs w1)"

lemma broadcast_run_reach: "broadcast_reach w \<Longrightarrow> broadcast_run evs w = Some w' \<Longrightarrow> broadcast_reach w'"
  by (induction evs arbitrary: w) (auto intro: broadcast_reach.act split: option.splits)

text \<open>A run in which recipient 1 fails in batch \<open>a\<close>, recipient 2 is left open there, and batch \<open>b\<close>, made of \<open>a\<close>, sends recipient 1
  a message of two parts.\<close>

definition demo_batch :: "string \<Rightarrow> string option \<Rightarrow> int list \<Rightarrow> batch_request" where
  "demo_batch b par rs =
    \<lparr>br_batch = b, br_operation = b, br_channel = ''tg'', br_mode = ''daily'', br_date = ''d'', br_variant = [], br_force = False,
     br_candidates = map (\<lambda>r. \<lparr>cd_recipient = r, cd_epoch = None, cd_reason = None, cd_fingerprint = None, cd_claimed_at = None, cd_slot_date = None\<rparr>) rs,
     br_parent = par, br_settings = None, br_scheduled = False\<rparr>"

definition demo_delivery :: "nat \<Rightarrow> string \<Rightarrow> bot_answer \<Rightarrow> broadcast_event list" where
  "demo_delivery i attempt ans =
    [BcSend i, BcCheck i CheckPassed, BcStart i attempt Answered True, BcRecheck i CheckPassed, BcTransmit i ans, BcPersist i Answered]"

definition demo_broadcast :: "broadcast_event list" where
  "demo_broadcast =
    [BcCreate (\<lambda>x. x) (\<lambda>_. True) (demo_batch ''a'' None [1, 2]), BcClaimBatch ''a'' ''t'' ''o'' None,
     BcClaim ''a'' 1 ''o'' ''x'' True True] @ demo_delivery 0 ''1'' (RateLimited 90) @ [BcEnd 0 HelperRaised, BcFinish 0 Answered] @
    [BcClaim ''a'' 2 ''o'' ''y'' True True] @ demo_delivery 1 ''2'' Unconfirmed @ [BcEnd 1 HelperRaised, BcFinish 1 Answered] @
    [BcFinishBatch ''a'' ''o'', BcCreate (\<lambda>x. x) (\<lambda>_. True) (demo_batch ''b'' (Some ''a'') [1, 2]), BcClaimBatch ''b'' ''u'' ''p'' None,
     BcClaim ''b'' 1 ''p'' ''z'' True True] @ demo_delivery 2 ''3'' (Receipt 7) @ demo_delivery 2 ''4'' (Receipt 8) @
    [BcEnd 2 HelperReturned, BcFinish 2 Answered]"

abbreviation (input) demo_sent :: broadcast where
  "demo_sent \<equiv> the (broadcast_run demo_broadcast broadcast_init)"

lemma demo_sent_reach: "broadcast_reach demo_sent"
proof -
  have "broadcast_run demo_broadcast broadcast_init \<noteq> None" by code_simp
  then show ?thesis using broadcast_run_reach [OF broadcast_reach.start] by force
qed

lemma demo_sent_log:
  "map (\<lambda>t. (tx_batch t, tx_recipient t, tx_token t, tx_answer t)) (bc_log demo_sent) =
    [(''b'', 1, ''z'', Receipt 8), (''b'', 1, ''z'', Receipt 7), (''a'', 2, ''y'', Unconfirmed), (''a'', 1, ''x'', RateLimited 90)]"
  by code_simp

lemma demo_sent_line: "descends (bc_journal demo_sent) ''a'' ''b''"
proof -
  have "parent_of (bc_journal demo_sent) ''b'' = Some ''a''" by code_simp
  then show ?thesis using descends.same descends.child by blast
qed

text \<open>Property C2. No recipient gets a broadcast twice: two calls of the bot that may have arrived at the same recipient, made for
  batches that come from one batch by retries, belong to one session of one batch, whatever answers of the database and of
  Telegram were lost in between.\<close>

theorem broadcast_no_duplicate:
  assumes "broadcast_reach w" and "t1 \<in> set (bc_log w)" and "t2 \<in> set (bc_log w)"
    and "may_have_arrived (tx_answer t1)" and "may_have_arrived (tx_answer t2)" and "tx_recipient t1 = tx_recipient t2"
    and "descends (bc_journal w) c (tx_batch t1)" and "descends (bc_journal w) c (tx_batch t2)"
  shows "tx_batch t1 = tx_batch t2 \<and> tx_token t1 = tx_token t2"
proof -
  note ok = broadcast_reach_ok [OF assms(1)]
  have b: "tx_batch t1 = tx_batch t2" using one_delivery [OF ok] assms by blast
  have s: "sessions_ok (bc_sessions w) (bc_log w) (bc_tokens w) (bc_made w)" using ok by (simp add: broadcast_ok_def)
  from transmission_owner [OF s assms(2)] obtain s1 where s1: "s1 \<in> set (bc_sessions w)" "session_key s1 = tx_key t1" "se_token s1 = tx_token t1" .
  from transmission_owner [OF s assms(3)] obtain s2 where s2: "s2 \<in> set (bc_sessions w)" "session_key s2 = tx_key t2" "se_token s2 = tx_token t2" .
  have "tx_key t1 = tx_key t2" using b assms(6) by (simp add: tx_key_def)
  then have "s2 = s1" using session_unique [OF s s1(1) s2(1)] s1(2) s2(2) by simp
  with b s1(3) s2(3) show ?thesis by simp
qed

lemma broadcast_no_duplicate_witness:
  "tx_answer (bc_log demo_sent ! 0) = Receipt 8 \<and> tx_answer (bc_log demo_sent ! 1) = Receipt 7 \<and>
   descends (bc_journal demo_sent) ''a'' ''b'' \<and> tx_token (bc_log demo_sent ! 0) = tx_token (bc_log demo_sent ! 1)"
proof -
  let ?t1 = "bc_log demo_sent ! 0" and ?t2 = "bc_log demo_sent ! 1"
  have n: "0 < length (bc_log demo_sent)" "1 < length (bc_log demo_sent)" by code_simp+
  have b: "tx_batch ?t1 = ''b''" "tx_batch ?t2 = ''b''" "tx_recipient ?t1 = tx_recipient ?t2" by code_simp+
  have a: "tx_answer ?t1 = Receipt 8" "tx_answer ?t2 = Receipt 7" by code_simp+
  have "tx_batch ?t1 = tx_batch ?t2 \<and> tx_token ?t1 = tx_token ?t2"
    by (rule broadcast_no_duplicate [OF demo_sent_reach nth_mem [OF n(1)] nth_mem [OF n(2)] _ _ b(3), of "''a''"])
      (use demo_sent_line in \<open>simp_all only: a b may_have_arrived.simps\<close>)
  with a demo_sent_line show ?thesis by blast
qed

text \<open>Property C10. What the journal records of a recipient is true: a recipient marked failed, who may be granted a retry, was sent
  nothing that can have arrived, and a recipient marked sent has a message the bot has a receipt for.\<close>

theorem recorded_outcome_honest:
  assumes "broadcast_reach w" and "dict_get (jn_recipients (bc_journal w)) (b, r) = Some x"
  shows "(rc_state x = Failed \<longrightarrow> (\<forall>t \<in> set (bc_log w). tx_batch t = b \<and> tx_recipient t = r \<longrightarrow> \<not> may_have_arrived (tx_answer t))) \<and>
    (rc_state x = Sent \<longrightarrow> (\<exists>t \<in> set (bc_log w). \<exists>mid. tx_batch t = b \<and> tx_recipient t = r \<and> tx_answer t = Receipt mid))"
proof -
  have "recipient_ok (bc_sessions w) (bc_log w) (bc_made w) (b, r) (rc_state x)"
    using broadcast_reach_ok [OF assms(1)] rows_okD assms(2) unfolding broadcast_ok_def by blast
  moreover have "tx_answer t = Receipt (case tx_answer t of Receipt mid \<Rightarrow> mid)" if "has_receipt (tx_answer t)" for t
    using that by (simp add: has_receipt_def split: bot_answer.splits)
  ultimately show ?thesis unfolding recipient_ok_def key_settled_def key_confirmed_def tx_key_def by blast
qed

lemma recorded_outcome_honest_witness:
  "list_all (\<lambda>t. \<not> (tx_batch t = ''a'' \<and> tx_recipient t = 1 \<and> may_have_arrived (tx_answer t))) (bc_log demo_sent) \<and>
   (\<exists>t \<in> set (bc_log demo_sent). \<exists>mid. tx_batch t = ''b'' \<and> tx_recipient t = 1 \<and> tx_answer t = Receipt mid)"
proof -
  have "map_option rc_state (dict_get (jn_recipients (bc_journal demo_sent)) (''a'', 1)) = Some Failed" by code_simp
  then obtain x where x: "dict_get (jn_recipients (bc_journal demo_sent)) (''a'', 1) = Some x" "rc_state x = Failed" by blast
  have "map_option rc_state (dict_get (jn_recipients (bc_journal demo_sent)) (''b'', 1)) = Some Sent" by code_simp
  then obtain y where y: "dict_get (jn_recipients (bc_journal demo_sent)) (''b'', 1) = Some y" "rc_state y = Sent" by blast
  from recorded_outcome_honest [OF demo_sent_reach x(1)] recorded_outcome_honest [OF demo_sent_reach y(1)] x(2) y(2)
  show ?thesis unfolding list_all_iff by blast
qed

text \<open>After a call whose answer leaves the delivery open (no receipt, a timeout, a lost connection) the session makes no
  further call of the bot: the log is the youngest first.\<close>

theorem quarantine_stops_sending:
  assumes "broadcast_reach w" and "bc_log w = later @ t # earlier" and "tx_answer t = NoReceipt \<or> tx_answer t = Unconfirmed"
    and "u \<in> set later"
  shows "tx_token u \<noteq> tx_token t"
proof -
  have "left_open_last (later @ t # earlier)" using broadcast_reach_left_open [OF assms(1)] by (simp add: assms(2))
  then show ?thesis using assms(3,4) by (induction later) (auto simp: heard_def left_open_def)
qed

lemma quarantine_stops_sending_witness:
  "bc_log demo_sent = take 2 (bc_log demo_sent) @ bc_log demo_sent ! 2 # drop 3 (bc_log demo_sent) \<and>
   tx_answer (bc_log demo_sent ! 2) = Unconfirmed \<and> tx_token (bc_log demo_sent ! 0) \<noteq> tx_token (bc_log demo_sent ! 2)"
proof -
  have l: "bc_log demo_sent = take 2 (bc_log demo_sent) @ bc_log demo_sent ! 2 # drop 3 (bc_log demo_sent)" by code_simp
  have a: "tx_answer (bc_log demo_sent ! 2) = Unconfirmed" by code_simp
  have u: "bc_log demo_sent ! 0 \<in> set (take 2 (bc_log demo_sent))" by code_simp
  show ?thesis using l a quarantine_stops_sending [OF demo_sent_reach l disjI2 [OF a] u] by (intro conjI)
qed

end
