(* ===== verification/Broadcast_Counts.thy ===== *)
theory Broadcast_Counts
  imports Broadcast_Once
begin

text \<open>
  The counts a batch keeps of its recipients: they always add up to the total, never fall below the rows they count, and so never
  below zero, which the schema checks. For the count of retryable failures this holds over every run in which a rejected admission
  is not recorded for a batch that is running (its job was never queued); the other counts need no such condition.
\<close>

section \<open>Counting rows\<close>

abbreviation tally :: "(recipient_row \<Rightarrow> bool) \<Rightarrow> journal \<Rightarrow> string \<Rightarrow> int" where
  "tally p j b \<equiv> int (rows_of b (\<lambda>_. p) j)"

abbreviation is_pending :: "recipient_row \<Rightarrow> bool" where
  "is_pending x \<equiv> rc_state x = Pending"

abbreviation is_started :: "recipient_row \<Rightarrow> bool" where
  "is_started x \<equiv> rc_state x = Started"

abbreviation is_retryable :: "recipient_row \<Rightarrow> bool" where
  "is_retryable x \<equiv> rc_state x = Failed \<and> rc_retryable x"

lemma length_filter_le_filter: "(\<And>x. P x \<Longrightarrow> Q x) \<Longrightarrow> length (filter P xs) \<le> length (filter Q xs)"
  by (induction xs) (auto intro: le_SucI)

lemma length_filter_or:
  "(\<And>x. \<not> (P x \<and> Q x)) \<Longrightarrow> length (filter (\<lambda>x. P x \<or> Q x) xs) = length (filter P xs) + length (filter Q xs)"
  by (induction xs) auto

lemma rows_of_mono: "(\<And>r x. p r x \<Longrightarrow> q r x) \<Longrightarrow> rows_of b p j \<le> rows_of b q j"
  unfolding rows_of_def by (rule length_filter_le_filter) auto

lemma rows_of_or:
  "(\<And>r x. \<not> (p r x \<and> q r x)) \<Longrightarrow> rows_of b (\<lambda>r x. p r x \<or> q r x) j = rows_of b p j + rows_of b q j"
  unfolding rows_of_def by (subst length_filter_or [symmetric]) (auto intro!: arg_cong [where f = length] filter_cong)

lemma rows_of_none: "(\<And>r x. \<not> p r x) \<Longrightarrow> rows_of b p j = 0"
  by (simp add: rows_of_def)

lemma rows_of_frame: "jn_recipients j' = jn_recipients j \<Longrightarrow> rows_of b p j' = rows_of b p j"
  by (simp add: rows_of_def)

lemma rows_of_update:
  "rows_of c p (update_recipients b f j) = rows_of c (\<lambda>r x. p r (if c = b then f x else x)) j"
proof -
  have "length (filter (\<lambda>e. fst (fst e) = c \<and> p (snd (fst e)) (snd e)) (map (\<lambda>e. if fst (fst e) = b then (fst e, f (snd e)) else e) d)) =
      length (filter (\<lambda>e. fst (fst e) = c \<and> p (snd (fst e)) (if c = b then f (snd e) else snd e)) d)"
    for d :: "(string \<times> int, recipient_row) dict"
    by (induction d) auto
  then show ?thesis by (simp add: rows_of_def update_recipients_def)
qed

lemma rows_of_put:
  "row j k = Some x \<Longrightarrow> int (rows_of b p (put_recipient k y j)) =
    int (rows_of b p j) - of_bool (fst k = b \<and> p (snd k) x) + of_bool (fst k = b \<and> p (snd k) y)"
proof -
  have "dict_get d k = Some x \<Longrightarrow> int (length (filter q (dict_set d k y))) = int (length (filter q d)) - of_bool (q (k, x)) + of_bool (q (k, y))"
    for q and d :: "(string \<times> int, recipient_row) dict"
    by (induction d) (auto split: if_splits)
  then show "row j k = Some x \<Longrightarrow> ?thesis" by (simp add: rows_of_def put_recipient_def)
qed

lemma rows_of_put_new:
  "row j k = None \<Longrightarrow> int (rows_of b p (put_recipient k y j)) = int (rows_of b p j) + of_bool (fst k = b \<and> p (snd k) y)"
proof -
  have "dict_get d k = None \<Longrightarrow> int (length (filter q (dict_set d k y))) = int (length (filter q d)) + of_bool (q (k, y))"
    for q and d :: "(string \<times> int, recipient_row) dict"
    by (induction d) (auto split: if_splits)
  then show "row j k = None \<Longrightarrow> ?thesis" by (simp add: rows_of_def put_recipient_def)
qed

section \<open>The invariant\<close>

text \<open>The count of retryable failures takes part when \<open>strict\<close> is set.\<close>

definition tally_ok :: "bool \<Rightarrow> int \<Rightarrow> int \<Rightarrow> int \<Rightarrow> batch_row \<Rightarrow> bool" where
  "tally_ok strict p s r x \<longleftrightarrow>
    bt_total x = bt_pending x + bt_started x + bt_sent x + bt_failed x + bt_skipped x + bt_unknown x \<and>
    0 \<le> bt_sent x \<and> 0 \<le> bt_failed x \<and> 0 \<le> bt_skipped x \<and> 0 \<le> bt_unknown x \<and>
    p \<le> bt_pending x \<and> s \<le> bt_started x \<and> (strict \<longrightarrow> r \<le> bt_retryable x) \<and>
    (bt_state x \<noteq> BatchRunning \<longrightarrow> bt_started x = 0) \<and> (bt_state x = Finished \<longrightarrow> bt_pending x = 0)"

definition counts_ok :: "bool \<Rightarrow> journal \<Rightarrow> bool" where
  "counts_ok strict j \<longleftrightarrow>
    (\<forall>b x. dict_get (jn_batches j) b = Some x \<longrightarrow> tally_ok strict (tally is_pending j b) (tally is_started j b) (tally is_retryable j b) x) \<and>
    (\<forall>b. dict_get (jn_batches j) b = None \<longrightarrow> rows_of b (\<lambda>_ _. True) j = 0)"

lemma counts_okD: "counts_ok strict j \<Longrightarrow> dict_get (jn_batches j) b = Some x \<Longrightarrow> tally_ok strict (tally is_pending j b) (tally is_started j b) (tally is_retryable j b) x"
  unfolding counts_ok_def by blast

lemma counts_none:
  assumes "counts_ok strict j" and "dict_get (jn_batches j) b = None"
  shows "rows_of b p j = 0"
proof -
  have "rows_of b (\<lambda>_ _. True) j = 0" using assms unfolding counts_ok_def by blast
  with rows_of_mono [of p "\<lambda>_ _. True" b j] show ?thesis by simp
qed

lemma counts_row: "counts_ok strict j \<Longrightarrow> row j (b, r) = Some x \<Longrightarrow> \<exists>y. dict_get (jn_batches j) b = Some y"
proof (rule ccontr)
  assume ok: "counts_ok strict j" and x: "row j (b, r) = Some x" and "\<nexists>y. dict_get (jn_batches j) b = Some y"
  then have "rows_of b (\<lambda>_ _. True) j = 0" using counts_none by (cases "dict_get (jn_batches j) b") auto
  moreover have "((b, r), x) \<in> set (jn_recipients j)" using x by (simp add: dict_get_def map_of_SomeD)
  ultimately show False by (auto simp: rows_of_def filter_empty_conv)
qed

lemma tally_less: "tally_ok strict p s r x \<Longrightarrow> p' \<le> p \<Longrightarrow> s' \<le> s \<Longrightarrow> r' \<le> r \<Longrightarrow> tally_ok strict p' s' r' x"
  by (auto simp: tally_ok_def)

text \<open>One batch changes, and the rows of the others do not grow.\<close>

lemma counts_batch:
  assumes ok: "counts_ok strict j"
    and other: "\<And>c. c \<noteq> b \<Longrightarrow> dict_get (jn_batches j') c = dict_get (jn_batches j) c"
      "\<And>c p. c \<noteq> b \<Longrightarrow> tally p j' c = tally p j c"
    and none: "dict_get (jn_batches j) b = None \<Longrightarrow> dict_get (jn_batches j') b = None \<and> rows_of b (\<lambda>_ _. True) j' = 0"
    and some: "\<And>x. dict_get (jn_batches j) b = Some x \<Longrightarrow> \<exists>y. dict_get (jn_batches j') b = Some y \<and>
      tally_ok strict (tally is_pending j' b) (tally is_started j' b) (tally is_retryable j' b) y"
  shows "counts_ok strict j'"
proof -
  have "(\<forall>x. dict_get (jn_batches j') c = Some x \<longrightarrow> tally_ok strict (tally is_pending j' c) (tally is_started j' c) (tally is_retryable j' c) x) \<and>
      (dict_get (jn_batches j') c = None \<longrightarrow> rows_of c (\<lambda>_ _. True) j' = 0)" for c
  proof (cases "c = b")
    case False
    have t: "tally p j' c = tally p j c" for p by (rule other(2) [OF False])
    then have e: "rows_of c (\<lambda>_ _. True) j' = rows_of c (\<lambda>_ _. True) j" using t [of "\<lambda>_. True"] by simp
    show ?thesis using counts_okD [OF ok, of c] counts_none [OF ok, of c] unfolding other(1) [OF False] t e by simp
  next
    case True
    then show ?thesis using none some by (cases "dict_get (jn_batches j) b") auto
  qed
  then show ?thesis unfolding counts_ok_def by blast
qed

lemma update_batch_get: "dict_get (jn_batches (update_batch b f j)) c = (if c = b then map_option f (dict_get (jn_batches j) b) else dict_get (jn_batches j) c)"
  by (auto simp: update_batch_def split: option.split)

lemma update_batch_rows [simp]: "jn_recipients (update_batch b f j) = jn_recipients j"
  by (simp add: update_batch_def split: option.split)

lemma rows_of_batch [simp]: "rows_of c p (update_batch b f j) = rows_of c p j"
  by (rule rows_of_frame) simp

text \<open>A batch's own row changes, its recipients do not.\<close>

lemma counts_update:
  assumes "counts_ok strict j"
    and "\<And>x p s r. 0 \<le> p \<Longrightarrow> 0 \<le> s \<Longrightarrow> dict_get (jn_batches j) b = Some x \<Longrightarrow> tally_ok strict p s r x \<Longrightarrow> tally_ok strict p s r (f x)"
  shows "counts_ok strict (update_batch b f j)"
proof (rule counts_batch [OF assms(1), of b])
  fix x
  assume x: "dict_get (jn_batches j) b = Some x"
  from assms(2) [OF _ _ x counts_okD [OF assms(1) x]]
  show "\<exists>y. dict_get (jn_batches (update_batch b f j)) b = Some y \<and>
      tally_ok strict (tally is_pending (update_batch b f j) b) (tally is_started (update_batch b f j) b) (tally is_retryable (update_batch b f j) b) y"
    by (simp add: update_batch_get x)
qed (simp_all add: update_batch_get counts_none [OF assms(1)])

lemma counts_attempts: "counts_ok strict j \<Longrightarrow> counts_ok strict (j\<lparr>jn_attempts := a\<rparr>)"
  by (simp add: counts_ok_def rows_of_def)

lemma counts_claim_batch: "counts_ok strict j \<Longrightarrow> counts_ok strict (fst (claim_batch b task token settings j))"
  by (auto simp: claim_batch_def tally_ok_def split: option.split intro!: counts_update)

lemma counts_finish_batch: "counts_ok strict j \<Longrightarrow> counts_ok strict (fst (finish_batch b token j))"
  by (auto simp: finish_batch_def tally_ok_def split: option.split intro!: counts_update)

lemma counts_start_attempt: "counts_ok strict j \<Longrightarrow> counts_ok strict (fst (start_attempt a b r token sq j))"
  by (auto simp: start_attempt_def split: option.split intro!: counts_attempts)

lemma counts_finish_attempt: "counts_ok strict j \<Longrightarrow> counts_ok strict (fst (finish_attempt a token res j))"
  by (auto simp: finish_attempt_def split: option.split intro!: counts_attempts)

text \<open>One recipient of a batch moves.\<close>

lemma counts_put:
  assumes ok: "counts_ok strict j" and x: "row j (b, r) = Some x"
    and f: "\<And>p s q z. 0 \<le> p \<Longrightarrow> 0 \<le> s \<Longrightarrow> of_bool (is_pending x) \<le> p \<Longrightarrow> of_bool (is_started x) \<le> s \<Longrightarrow> of_bool (is_retryable x) \<le> q \<Longrightarrow>
      dict_get (jn_batches j) b = Some z \<Longrightarrow> tally_ok strict p s q z \<Longrightarrow>
      tally_ok strict (p - of_bool (is_pending x) + of_bool (is_pending y)) (s - of_bool (is_started x) + of_bool (is_started y))
        (q - of_bool (is_retryable x) + of_bool (is_retryable y)) (f z)"
  shows "counts_ok strict (update_batch b f (put_recipient (b, r) y j))"
proof (rule counts_batch [OF ok, of b])
  note put = rows_of_put [OF x]
  have ge: "of_bool (p x) \<le> tally p j b" for p
  proof -
    have "((b, r), x) \<in> set (jn_recipients j)" using x by (simp add: dict_get_def map_of_SomeD)
    then have "p x \<longrightarrow> filter (\<lambda>e. fst (fst e) = b \<and> p (snd e)) (jn_recipients j) \<noteq> []" by (force simp: filter_empty_conv)
    then show ?thesis by (cases "p x") (auto simp: rows_of_def Suc_le_eq)
  qed
  fix z
  assume z: "dict_get (jn_batches j) b = Some z"
  from f [OF _ _ ge ge ge z counts_okD [OF ok z]]
  show "\<exists>w. dict_get (jn_batches (update_batch b f (put_recipient (b, r) y j))) b = Some w \<and>
      tally_ok strict (tally is_pending (update_batch b f (put_recipient (b, r) y j)) b)
        (tally is_started (update_batch b f (put_recipient (b, r) y j)) b)
        (tally is_retryable (update_batch b f (put_recipient (b, r) y j)) b) w"
    by (simp add: update_batch_get z put)
next
  show "dict_get (jn_batches j) b = None \<Longrightarrow> dict_get (jn_batches (update_batch b f (put_recipient (b, r) y j))) b = None \<and>
      rows_of b (\<lambda>_ _. True) (update_batch b f (put_recipient (b, r) y j)) = 0"
    using counts_row [OF ok x] by auto
qed (use rows_of_put [OF x] in \<open>simp_all add: update_batch_get\<close>)

lemma counts_claim_recipient: "counts_ok strict j \<Longrightarrow> counts_ok strict (fst (claim_recipient b r bt token j))"
  by (auto simp: claim_recipient_def split: option.split intro!: counts_put) (auto simp: tally_ok_def)

lemma counts_finish_recipient:
  assumes "counts_ok strict j" and "finish_recipient b r token res j = Some (j', ok)"
  shows "counts_ok strict j'"
proof (cases "\<exists>x. row j (b, r) = Some x \<and> rc_owner x = Some token \<and> rc_state x = Started")
  case False
  with assms show ?thesis by (auto simp: finish_recipient_def split: option.splits if_splits)
next
  case True
  then obtain x where x: "row j (b, r) = Some x" "rc_owner x = Some token" "rc_state x = Started" by blast
  have fin: "dl_outcome res \<noteq> Pending" "dl_outcome res \<noteq> Started" using assms(2) by (auto simp: finish_recipient_def)
  have j': "j' = update_batch b (\<lambda>x. (count_outcome (dl_outcome res) x)\<lparr>bt_started := bt_started x - 1,
                      bt_retryable := bt_retryable x + of_bool (dl_outcome res = Failed \<and> dl_retryable res)\<rparr>)
                    (put_recipient (b, r) (x\<lparr>rc_state := dl_outcome res, rc_reason := Some (dl_reason res),
                       rc_retryable := dl_retryable res, rc_message := dl_message res, rc_owner := None\<rparr>) j)"
    using assms(2) x fin by (simp add: finish_recipient_def)
  show ?thesis unfolding j'
    by (rule counts_put [OF assms(1) x(1)], cases "dl_outcome res") (use fin x in \<open>auto simp: tally_ok_def count_outcome_def\<close>)
qed

text \<open>All recipients of a batch move at once.\<close>

lemma counts_rows:
  assumes ok: "counts_ok strict j"
    and f: "\<And>z. dict_get (jn_batches j) b = Some z \<Longrightarrow> tally_ok strict (tally is_pending j b) (tally is_started j b) (tally is_retryable j b) z \<Longrightarrow>
      tally_ok strict (tally (\<lambda>x. is_pending (g x)) j b) (tally (\<lambda>x. is_started (g x)) j b) (tally (\<lambda>x. is_retryable (g x)) j b) (f z)"
  shows "counts_ok strict (update_batch b f (update_recipients b g j))"
proof (rule counts_batch [OF ok, of b])
  fix z
  assume z: "dict_get (jn_batches j) b = Some z"
  from f [OF z counts_okD [OF ok z]]
  show "\<exists>w. dict_get (jn_batches (update_batch b f (update_recipients b g j))) b = Some w \<and>
      tally_ok strict (tally is_pending (update_batch b f (update_recipients b g j)) b)
        (tally is_started (update_batch b f (update_recipients b g j)) b)
        (tally is_retryable (update_batch b f (update_recipients b g j)) b) w"
    by (simp add: update_batch_get z rows_of_update)
qed (simp_all add: update_batch_get rows_of_update counts_none [OF ok])

lemma counts_interrupt:
  assumes "counts_ok strict j"
  shows "counts_ok strict (interrupt_batch b j)"
proof -
  let ?g = "\<lambda>x. if rc_state x \<in> {Pending, Started}
      then x\<lparr>rc_state := (if rc_state x = Started then UnknownDelivery else Skipped),
             rc_reason := Some (if rc_state x = Started then ''worker_interrupted'' else ''batch_interrupted''),
             rc_retryable := False, rc_owner := None\<rparr> else x"
  have none: "rows_of b (\<lambda>r x. is_pending (?g x)) j' = 0" "rows_of b (\<lambda>r x. is_started (?g x)) j' = 0" for j'
    by (rule rows_of_none; simp)+
  have less: "rows_of b (\<lambda>r x. is_retryable (?g x)) j' \<le> rows_of b (\<lambda>r x. is_retryable x) j'" for j'
    by (rule rows_of_mono) (simp split: if_splits)
  show ?thesis unfolding interrupt_batch_def
  proof (rule counts_rows [OF counts_attempts [OF assms]])
    fix z and a
    let ?j = "j\<lparr>jn_attempts := map (\<lambda>e. if at_batch (snd e) = b \<and> at_outcome (snd e) = Started
            then (fst e, (snd e)\<lparr>at_outcome := UnknownDelivery, at_reason := Some ''worker_interrupted''\<rparr>) else e) (jn_attempts j)\<rparr>"
    assume t: "tally_ok strict (tally is_pending ?j b) (tally is_started ?j b) (tally is_retryable ?j b) z"
    have "tally_ok strict 0 0 (tally is_retryable ?j b) (if bt_state z \<noteq> Finished
        then z\<lparr>bt_state := Finished, bt_owner := None, bt_unknown := bt_unknown z + bt_started z,
               bt_skipped := bt_skipped z + bt_pending z, bt_started := 0, bt_pending := 0\<rparr> else z)"
      using t by (auto simp: tally_ok_def)
    then show "tally_ok strict (tally (\<lambda>x. is_pending (?g x)) ?j b) (tally (\<lambda>x. is_started (?g x)) ?j b) (tally (\<lambda>x. is_retryable (?g x)) ?j b)
      (if bt_state z \<noteq> Finished
        then z\<lparr>bt_state := Finished, bt_owner := None, bt_unknown := bt_unknown z + bt_started z,
               bt_skipped := bt_skipped z + bt_pending z, bt_started := 0, bt_pending := 0\<rparr> else z)"
      by (rule tally_less) (use none [of ?j] less [of ?j] in simp_all)
  qed
qed

definition rejection_sound :: "string \<Rightarrow> string \<Rightarrow> journal \<Rightarrow> bool" where
  "rejection_sound b st j \<longleftrightarrow>
    st \<noteq> ''rejected'' \<or> (case dict_get (jn_batches j) b of None \<Rightarrow> True | Some x \<Rightarrow> bt_state x \<noteq> BatchRunning)"

lemma counts_admission:
  assumes ok: "counts_ok strict j" and sound: "strict \<Longrightarrow> rejection_sound b st j"
  shows "counts_ok strict (record_admission b st reason storage task j)"
proof -
  let ?a = "\<lambda>x. x\<lparr>bt_admission := st,
      bt_admission_reason := (case reason of Some r \<Rightarrow> if r \<noteq> [] then r else ''admission_confirmed'' | None \<Rightarrow> ''admission_confirmed''),
      bt_storage := storage, bt_task := (if bt_task x = None then task else bt_task x),
      bt_state := (if bt_state x = Draft \<and> task \<noteq> None then Queued else bt_state x)\<rparr>"
  let ?j = "update_batch b ?a j"
  have a: "counts_ok strict ?j" by (rule counts_update [OF ok]) (auto simp: tally_ok_def)
  show ?thesis
  proof (cases "st = ''rejected''")
    case False
    with a show ?thesis by (simp add: record_admission_def Let_def)
  next
    case True
    let ?g = "\<lambda>x. if rc_state x = Pending then x\<lparr>rc_state := Failed, rc_reason := Some ''queue_admission_rejected'', rc_retryable := True\<rparr> else x"
    have "rows_of b (\<lambda>r x. is_pending (?g x)) ?j = 0" by (rule rows_of_none) simp
    moreover have "rows_of b (\<lambda>r x. is_started (?g x)) ?j \<le> rows_of b (\<lambda>r x. is_started x) ?j" by (rule rows_of_mono) (simp split: if_splits)
    moreover have "rows_of b (\<lambda>r x. is_retryable (?g x)) ?j \<le> rows_of b (\<lambda>r x. is_retryable x \<or> is_pending x) ?j"
      by (rule rows_of_mono) (simp split: if_splits)
    moreover have "rows_of b (\<lambda>r x. is_retryable x \<or> is_pending x) ?j = rows_of b (\<lambda>r x. is_retryable x) ?j + rows_of b (\<lambda>r x. is_pending x) ?j"
      by (rule rows_of_or) auto
    ultimately have t: "tally (\<lambda>x. is_pending (?g x)) ?j b \<le> 0" "tally (\<lambda>x. is_started (?g x)) ?j b \<le> tally is_started ?j b"
      "tally (\<lambda>x. is_retryable (?g x)) ?j b \<le> tally is_retryable ?j b + tally is_pending ?j b"
      by linarith+
    have "counts_ok strict (update_batch b (\<lambda>x. if bt_state x \<in> {Draft, Queued}
              then x\<lparr>bt_failed := bt_failed x + bt_pending x, bt_retryable := bt_retryable x + bt_pending x,
                       bt_pending := 0, bt_state := Finished\<rparr> else x) (update_recipients b ?g ?j))"
    proof (rule counts_rows [OF a])
      fix z
      assume z: "dict_get (jn_batches ?j) b = Some z" "tally_ok strict (tally is_pending ?j b) (tally is_started ?j b) (tally is_retryable ?j b) z"
      have nr: "strict \<Longrightarrow> bt_state z \<noteq> BatchRunning" using sound z(1) True by (auto simp: rejection_sound_def update_batch_get split: option.splits if_splits)
      have "tally_ok strict 0 (tally is_started ?j b) (tally is_retryable ?j b + tally is_pending ?j b) (if bt_state z \<in> {Draft, Queued}
              then z\<lparr>bt_failed := bt_failed z + bt_pending z, bt_retryable := bt_retryable z + bt_pending z,
                       bt_pending := 0, bt_state := Finished\<rparr> else z)"
        using z(2) nr by (cases "bt_state z") (auto simp: tally_ok_def)
      then show "tally_ok strict (tally (\<lambda>x. is_pending (?g x)) ?j b) (tally (\<lambda>x. is_started (?g x)) ?j b) (tally (\<lambda>x. is_retryable (?g x)) ?j b)
          (if bt_state z \<in> {Draft, Queued}
              then z\<lparr>bt_failed := bt_failed z + bt_pending z, bt_retryable := bt_retryable z + bt_pending z,
                       bt_pending := 0, bt_state := Finished\<rparr> else z)"
        by (rule tally_less) (use t in simp_all)
    qed
    then show ?thesis using True by (simp add: record_admission_def Let_def)
  qed
qed

text \<open>Rows go.\<close>

lemma counts_fewer:
  assumes ok: "counts_ok strict j" and same: "jn_batches j' = jn_batches j"
    and le: "\<And>b. tally is_pending j' b \<le> tally is_pending j b" "\<And>b. tally is_started j' b \<le> tally is_started j b"
      "\<And>b. tally is_retryable j' b \<le> tally is_retryable j b" "\<And>b. tally (\<lambda>_. True) j' b \<le> tally (\<lambda>_. True) j b"
  shows "counts_ok strict j'"
proof -
  have "tally_ok strict (tally is_pending j' b) (tally is_started j' b) (tally is_retryable j' b) x" if "dict_get (jn_batches j) b = Some x" for b x
    by (rule tally_less [OF counts_okD [OF ok that] le(1-3)])
  moreover have "rows_of b (\<lambda>_ _. True) j' = 0" if "dict_get (jn_batches j) b = None" for b
    using counts_none [OF ok that, of "\<lambda>_ _. True"] le(4) [of b] by simp
  ultimately show ?thesis unfolding counts_ok_def same by blast
qed

lemma counts_purge:
  assumes "counts_ok strict j"
  shows "counts_ok strict (purge_recipients old j)"
proof -
  have "tally p (purge_recipients old j) b \<le> tally p j b" for b p
    by (simp add: rows_of_def purge_recipients_def, rule length_filter_le_filter) simp
  then show ?thesis by (intro counts_fewer [OF assms]) (simp_all add: purge_recipients_def)
qed

lemma rows_of_erase: "rows_of b p (erase_recipient r j) = rows_of b (\<lambda>r' x. r' \<noteq> r \<and> p r' x) j"
  unfolding rows_of_def erase_recipient_def by (auto intro!: arg_cong [where f = length] filter_cong)

lemma rows_of_split: "rows_of b (\<lambda>r' x. r' \<noteq> r \<and> p r' x) j + rows_of b (\<lambda>r' x. r' = r \<and> p r' x) j = rows_of b p j"
  by (subst rows_of_or [symmetric]) (auto simp: rows_of_def intro!: arg_cong [where f = length] filter_cong)

lemma erase_batches:
  "dict_get (jn_batches (erase_recipient r j)) b =
    map_option (\<lambda>x. let pending = int (rows_of b (\<lambda>r' row. r' = r \<and> rc_state row = Pending) j);
            started = int (rows_of b (\<lambda>r' row. r' = r \<and> rc_state row = Started) j)
        in x\<lparr>bt_pending := bt_pending x - pending, bt_started := bt_started x - started,
             bt_skipped := bt_skipped x + pending, bt_unknown := bt_unknown x + started\<rparr>) (dict_get (jn_batches j) b)"
proof -
  have "dict_get (map (\<lambda>(c, x). (c, f c x)) d) b = map_option (f b) (dict_get d b)" for f :: "string \<Rightarrow> batch_row \<Rightarrow> batch_row" and d
    by (induction d) auto
  from this [of "\<lambda>b x. let pending = int (rows_of b (\<lambda>r' row. r' = r \<and> rc_state row = Pending) j);
            started = int (rows_of b (\<lambda>r' row. r' = r \<and> rc_state row = Started) j)
        in x\<lparr>bt_pending := bt_pending x - pending, bt_started := bt_started x - started,
             bt_skipped := bt_skipped x + pending, bt_unknown := bt_unknown x + started\<rparr>"]
  show ?thesis by (simp add: erase_recipient_def Let_def)
qed

lemma counts_erase:
  assumes ok: "counts_ok strict j"
  shows "counts_ok strict (erase_recipient r j)"
proof -
  have "tally_ok strict (tally is_pending (erase_recipient r j) b) (tally is_started (erase_recipient r j) b) (tally is_retryable (erase_recipient r j) b) y"
    if y: "dict_get (jn_batches (erase_recipient r j)) b = Some y" for b y
  proof -
    let ?p = "int (rows_of b (\<lambda>r' row. r' = r \<and> rc_state row = Pending) j)" and ?s = "int (rows_of b (\<lambda>r' row. r' = r \<and> rc_state row = Started) j)"
    from y obtain x where x: "dict_get (jn_batches j) b = Some x" and
      y: "y = x\<lparr>bt_pending := bt_pending x - ?p, bt_started := bt_started x - ?s, bt_skipped := bt_skipped x + ?p, bt_unknown := bt_unknown x + ?s\<rparr>"
      by (auto simp: erase_batches Let_def)
    have e: "tally is_pending (erase_recipient r j) b + ?p = tally is_pending j b"
      "tally is_started (erase_recipient r j) b + ?s = tally is_started j b"
      "tally is_retryable (erase_recipient r j) b \<le> tally is_retryable j b"
      using rows_of_split [of b r "\<lambda>_. is_pending" j] rows_of_split [of b r "\<lambda>_. is_started" j] rows_of_split [of b r "\<lambda>_. is_retryable" j]
      unfolding rows_of_erase by linarith+
    have t: "tally_ok strict (tally is_pending j b) (tally is_started j b) (tally is_retryable j b) x" by (rule counts_okD [OF ok x])
    show ?thesis using t e by (auto simp: tally_ok_def y)
  qed
  moreover have "rows_of b (\<lambda>_ _. True) (erase_recipient r j) = 0" if "dict_get (jn_batches (erase_recipient r j)) b = None" for b
    using that counts_none [OF ok] by (simp add: erase_batches rows_of_erase)
  ultimately show ?thesis unfolding counts_ok_def by blast
qed

section \<open>Creating a batch\<close>

lemma dict_set_set: "dict_set (dict_set d k v) k v' = dict_set d k v'"
  by (induction d k v rule: dict_set.induct) auto

lemma update_batch_fuse: "update_batch b f (update_batch b g j) = update_batch b (\<lambda>x. f (g x)) j"
  by (auto simp: update_batch_def dict_set_set split: option.split)

lemma update_batch_put: "update_batch b f (put_recipient k y j) = put_recipient k y (update_batch b f j)"
  by (auto simp: update_batch_def put_recipient_def split: option.split)

abbreviation less_retryable :: "string \<Rightarrow> int \<Rightarrow> journal \<Rightarrow> journal" where
  "less_retryable par n \<equiv> update_batch par (\<lambda>b. b\<lparr>bt_retryable := bt_retryable b - n\<rparr>)"

text \<open>The count of the parent's retryable failures, less the grants consumed, is again ahead of the rows.\<close>

lemma counts_consume_one:
  assumes ok: "counts_ok strict (less_retryable par n j)" and one: "consume_retry par (j, n, cs) c = (j1, n1, cs1)"
  shows "counts_ok strict (less_retryable par n1 j1)"
proof (cases "\<exists>x. row j (par, cd_recipient c) = Some x \<and> is_retryable x")
  case True
  then obtain x where x: "row j (par, cd_recipient c) = Some x" "is_retryable x" by blast
  have r: "j1 = put_recipient (par, cd_recipient c) (x\<lparr>rc_retryable := False\<rparr>) j" "n1 = n + 1"
    using one x by (simp_all add: consume_retry_def)
  have "counts_ok strict (less_retryable par 1 (put_recipient (par, cd_recipient c) (x\<lparr>rc_retryable := False\<rparr>) (less_retryable par n j)))"
    by (rule counts_put [OF ok, of _ _ x]) (use x in \<open>auto simp: tally_ok_def\<close>)
  then show ?thesis by (simp add: r update_batch_put update_batch_fuse diff_diff_eq)
next
  case False
  then have "j1 = j" "n1 = n" using one by (auto simp: consume_retry_def split: option.splits)
  with ok show ?thesis by simp
qed

lemma counts_consume:
  assumes "counts_ok strict (less_retryable par n j)" and "foldl (consume_retry par) (j, n, cs) cands = (j1, n1, cs1)"
  shows "counts_ok strict (less_retryable par n1 j1)"
  using assms
proof (induction cands arbitrary: j n cs)
  case (Cons c cands)
  obtain j2 n2 cs2 where one: "consume_retry par (j, n, cs) c = (j2, n2, cs2)" by (metis prod_cases3)
  from Cons.IH [OF counts_consume_one [OF Cons.prems(1) one]] Cons.prems(2) one show ?case by simp
qed simp

text \<open>A new batch has room for the recipients still to be inserted.\<close>

definition room :: "string \<Rightarrow> int \<Rightarrow> journal \<Rightarrow> bool" where
  "room b m j \<longleftrightarrow> (\<exists>x. dict_get (jn_batches j) b = Some x \<and> bt_state x = Draft \<and> tally is_pending j b + m \<le> bt_pending x)"

lemma counts_free:
  assumes "counts_ok strict j" and "room b m j"
  shows "counts_ok strict (free_parent_key rq key c j) \<and> room b m (free_parent_key rq key c j)"
proof -
  have "counts_ok strict (put_recipient k (x\<lparr>rc_schedule_key := None\<rparr>) j) \<and> room b m (put_recipient k (x\<lparr>rc_schedule_key := None\<rparr>) j)"
    if "row j k = Some x" for k x
  proof
    show "counts_ok strict (put_recipient k (x\<lparr>rc_schedule_key := None\<rparr>) j)"
      by (rule counts_fewer [OF assms(1)]) (simp_all add: rows_of_put [OF that])
    show "room b m (put_recipient k (x\<lparr>rc_schedule_key := None\<rparr>) j)"
      using assms(2) by (auto simp: room_def rows_of_put [OF that])
  qed
  with assms show ?thesis by (auto simp: free_parent_key_def split: option.split)
qed

lemma counts_insert_one:
  assumes ok: "counts_ok strict j" and room: "room (br_batch rq) m j" and m: "1 \<le> m"
  shows "counts_ok strict (insert_recipient sha users rq j c) \<and> room (br_batch rq) (m - 1) (insert_recipient sha users rq j c)"
proof -
  let ?b = "br_batch rq" and ?key = "schedule_key sha rq c"
  let ?j = "free_parent_key rq ?key c j"
  have ok1: "counts_ok strict ?j" and room1: "room ?b m ?j" using counts_free [OF ok room] by blast+
  from room1 obtain x where x: "dict_get (jn_batches ?j) ?b = Some x" "bt_state x = Draft" "tally is_pending ?j ?b + m \<le> bt_pending x"
    by (auto simp: room_def)
  note t = counts_okD [OF ok1 x(1)]
  have ins: "counts_ok strict (put_recipient (?b, r) y ?j) \<and> room ?b (m - 1) (put_recipient (?b, r) y ?j)"
    if new: "row ?j (?b, r) = None" and y: "rc_state y = Pending" for r y
  proof
    note put = rows_of_put_new [OF new]
    show "counts_ok strict (put_recipient (?b, r) y ?j)"
    proof (rule counts_batch [OF ok1, of ?b])
      show "\<exists>z. dict_get (jn_batches (put_recipient (?b, r) y ?j)) ?b = Some z \<and>
          tally_ok strict (tally is_pending (put_recipient (?b, r) y ?j) ?b) (tally is_started (put_recipient (?b, r) y ?j) ?b)
            (tally is_retryable (put_recipient (?b, r) y ?j) ?b) z" if "dict_get (jn_batches ?j) ?b = Some v" for v
        using t x m y by (simp add: put tally_ok_def)
    qed (use x in \<open>simp_all add: put\<close>)
    show "room ?b (m - 1) (put_recipient (?b, r) y ?j)" using x by (simp add: room_def put y)
  qed
  have "counts_ok strict (update_batch ?b (\<lambda>b. b\<lparr>bt_pending := bt_pending b - 1, bt_skipped := bt_skipped b + 1\<rparr>) ?j)"
  proof (rule counts_batch [OF ok1, of ?b])
    show "\<exists>z. dict_get (jn_batches (update_batch ?b (\<lambda>b. b\<lparr>bt_pending := bt_pending b - 1, bt_skipped := bt_skipped b + 1\<rparr>) ?j)) ?b = Some z \<and>
        tally_ok strict (tally is_pending (update_batch ?b (\<lambda>b. b\<lparr>bt_pending := bt_pending b - 1, bt_skipped := bt_skipped b + 1\<rparr>) ?j) ?b)
          (tally is_started (update_batch ?b (\<lambda>b. b\<lparr>bt_pending := bt_pending b - 1, bt_skipped := bt_skipped b + 1\<rparr>) ?j) ?b)
          (tally is_retryable (update_batch ?b (\<lambda>b. b\<lparr>bt_pending := bt_pending b - 1, bt_skipped := bt_skipped b + 1\<rparr>) ?j) ?b) z"
      if "dict_get (jn_batches ?j) ?b = Some v" for v
      using t x m by (simp add: update_batch_get tally_ok_def)
  qed (use x in \<open>simp_all add: update_batch_get\<close>)
  moreover have "room ?b (m - 1) (update_batch ?b (\<lambda>b. b\<lparr>bt_pending := bt_pending b - 1, bt_skipped := bt_skipped b + 1\<rparr>) ?j)"
    using x by (simp add: room_def update_batch_get)
  ultimately show ?thesis using ins by (auto simp: insert_recipient_def Let_def insertable_def dict_has_def)
qed

lemma counts_insert:
  "counts_ok strict j \<Longrightarrow> room (br_batch rq) (int (length cs)) j \<Longrightarrow> counts_ok strict (foldl (insert_recipient sha users rq) j cs)"
proof (induction cs arbitrary: j)
  case (Cons c cs)
  then show ?case using counts_insert_one [of strict j rq "int (length (c # cs))" sha users c] by simp
qed simp

lemma counts_new_batch:
  assumes ok: "counts_ok strict j" and new: "dict_get (jn_batches j) (br_batch rq) = None"
  shows "counts_ok strict (foldl (insert_recipient sha users rq)
      (j\<lparr>jn_batches := dict_set (jn_batches j) (br_batch rq) (new_batch rq cs)\<rparr>) (filter (\<lambda>c. cd_reason c = None) cs))"
proof (rule counts_insert)
  let ?b = "br_batch rq" and ?x = "new_batch rq cs"
  let ?j = "j\<lparr>jn_batches := dict_set (jn_batches j) ?b ?x\<rparr>"
  have rows: "rows_of c p ?j = rows_of c p j" for c p by (rule rows_of_frame) simp
  have zero: "rows_of ?b p ?j = 0" for p using counts_none [OF ok new] by (simp add: rows)
  have "tally_ok strict 0 0 0 ?x" by (simp add: tally_ok_def new_batch_def Let_def)
  then show "counts_ok strict ?j" using counts_okD [OF ok] counts_none [OF ok] zero
    unfolding counts_ok_def by (simp add: rows split: if_splits)
  show "room ?b (int (length (filter (\<lambda>c. cd_reason c = None) cs))) ?j"
    using zero by (simp add: room_def new_batch_def Let_def)
qed

lemma counts_create:
  assumes ok: "counts_ok strict j"
  shows "counts_ok strict (fst (create_batch sha users rq j))"
proof (cases "snd (create_batch sha users rq j) = CreatedBatch")
  case False
  then show ?thesis using ok by (auto simp: create_batch_def split: option.splits if_splits prod.splits)
next
  case True
  then have new: "dict_get (jn_batches j) (br_batch rq) = None" and op: "batch_of_operation (br_operation rq) j = None"
    and cap: "\<not> length (filter (\<lambda>e. bt_state (snd e) \<noteq> Finished) (jn_batches j)) \<ge> 10"
    by (auto simp: create_batch_def dict_has_def split: option.splits if_splits)
  show ?thesis
  proof (cases "br_parent rq")
    case None
    with new op cap counts_new_batch [OF ok new] show ?thesis by (simp add: create_batch_def dict_has_def)
  next
    case (Some p)
    obtain j1 n cs where f: "foldl (consume_retry p) (j, 0, []) (br_candidates rq) = (j1, n, cs)" by (metis prod_cases3)
    have "counts_ok strict (less_retryable p 0 j)" by (rule counts_update [OF ok]) simp
    from counts_consume [OF this f] have c: "counts_ok strict (less_retryable p n j1)" .
    have "jn_batches j1 = jn_batches j" using consume_fold [OF f] by simp
    then have "dict_get (jn_batches (less_retryable p n j1)) (br_batch rq) = None" using new by (auto simp: update_batch_get)
    from counts_new_batch [OF c this] new op cap f Some show ?thesis by (simp add: create_batch_def dict_has_def)
  qed
qed

section \<open>Every reachable state\<close>

fun event_sound :: "broadcast_event \<Rightarrow> broadcast \<Rightarrow> bool" where
  "event_sound (BcAdmission b st reason storage task) w = rejection_sound b st (bc_journal w)"
| "event_sound _ w = True"

inductive sound_reach :: "broadcast \<Rightarrow> bool" where
  start: "sound_reach broadcast_init"
| act: "sound_reach w \<Longrightarrow> event_sound ev w \<Longrightarrow> broadcast_act ev w = Some w' \<Longrightarrow> sound_reach w'"

lemma journal_of_session:
  "on_session i w f = Some w' \<Longrightarrow> bc_journal w' = bc_journal w"
  by (auto simp: on_session_def put_session_def split: option.splits)

lemma journal_of_session_journal:
  assumes "on_session_journal i w f = Some w'"
  obtains s s' where "f s (bc_journal w) = Some (s', bc_journal w')"
  using assms by (auto simp: on_session_journal_def put_session_def split: option.splits)

lemma counts_session:
  "counts_ok strict j \<Longrightarrow> se_start a fate noted s j = Some (s', j') \<Longrightarrow> counts_ok strict j'"
  "counts_ok strict j \<Longrightarrow> se_persist fate s j = Some (s', j') \<Longrightarrow> counts_ok strict j'"
  "counts_ok strict j \<Longrightarrow> se_finish fate s j = Some (s', j') \<Longrightarrow> counts_ok strict j'"
proof -
  assume ok: "counts_ok strict j" and st: "se_start a fate noted s j = Some (s', j')"
  then obtain n where p: "se_phase s = AtStart n" by (cases "se_phase s") (simp_all add: se_start_def)
  let ?r = "start_attempt a (se_batch s) (se_recipient s) (se_token s) (se_sequence s) j"
  have "j' = j \<or> j' = fst ?r" using st by (cases ?r; cases fate) (auto simp: se_start_def p)
  then show "counts_ok strict j'" using ok counts_start_attempt [OF ok] by auto
next
  assume ok: "counts_ok strict j" and st: "se_persist fate s j = Some (s', j')"
  then obtain n attempt nxt res where p: "se_phase s = AtPersist n attempt nxt" "se_result s = Some res"
    by (cases "se_phase s"; cases "se_result s") (simp_all add: se_persist_def)
  let ?r = "finish_attempt attempt (se_token s) res j"
  have "j' = j \<or> j' = fst ?r" using st by (cases ?r) (auto simp: se_persist_def p split: if_splits)
  then show "counts_ok strict j'" using ok counts_finish_attempt [OF ok] by auto
next
  assume ok: "counts_ok strict j" and st: "se_finish fate s j = Some (s', j')"
  then obtain res where p: "se_phase s = Delivered res" by (cases "se_phase s") (simp_all add: se_finish_def)
  with st ok show "counts_ok strict j'"
    by (auto simp: se_finish_def dest: counts_finish_recipient split: option.splits if_splits)
qed

lemma counts_step:
  assumes ok: "counts_ok strict (bc_journal w)" and "strict \<Longrightarrow> event_sound ev w" and step: "broadcast_act ev w = Some w'"
  shows "counts_ok strict (bc_journal w')"
proof (cases ev)
  case (BcAdmission b st reason storage task)
  with assms counts_admission show ?thesis by auto
next
  case (BcCreate sha users rq)
  with step counts_create [OF ok] show ?thesis by (auto simp: set_journal_def)
next
  case (BcClaim b r bt token answered permitted)
  then have "bc_journal w' = fst (claim_recipient b r bt token (bc_journal w))"
    using step by (auto simp: bc_claim_def Let_def split: if_splits prod.splits)
  with counts_claim_recipient [OF ok] show ?thesis by simp
next
  case (BcTransmit i ans)
  with step have "bc_journal w' = bc_journal w" by (auto simp: bc_transmit_def put_session_def split: option.splits)
  with ok show ?thesis by simp
qed (use step ok counts_claim_batch [OF ok] counts_finish_batch [OF ok] counts_interrupt [OF ok] counts_purge [OF ok] counts_erase [OF ok]
      in \<open>auto dest: journal_of_session elim!: journal_of_session_journal intro: counts_session [OF ok]\<close>)

lemma counts_start: "counts_ok strict (bc_journal broadcast_init)"
  by (simp add: counts_ok_def broadcast_init_def rows_of_def)

lemma sound_reach_counts: "sound_reach w \<Longrightarrow> counts_ok True (bc_journal w)"
  by (induction rule: sound_reach.induct) (blast intro: counts_start counts_step)+

lemma reach_counts: "broadcast_reach w \<Longrightarrow> counts_ok False (bc_journal w)"
proof (induction rule: broadcast_reach.induct)
  case start
  show ?case by (rule counts_start)
next
  case (act w ev w')
  then show ?case using counts_step [of False w ev w'] by simp
qed

section \<open>Properties\<close>

fun sound_run :: "broadcast_event list \<Rightarrow> broadcast \<Rightarrow> bool" where
  "sound_run [] w = True"
| "sound_run (ev # evs) w = (event_sound ev w \<and> (case broadcast_act ev w of None \<Rightarrow> True | Some w1 \<Rightarrow> sound_run evs w1))"

lemma sound_run_reach: "sound_reach w \<Longrightarrow> sound_run evs w \<Longrightarrow> broadcast_run evs w = Some w' \<Longrightarrow> sound_reach w'"
  by (induction evs arbitrary: w) (auto intro: sound_reach.act split: option.splits)

lemma demo_sent_sound: "sound_reach demo_sent"
proof -
  have "broadcast_run demo_broadcast broadcast_init \<noteq> None" by code_simp
  moreover have "sound_run demo_broadcast broadcast_init" by code_simp
  ultimately show ?thesis using sound_run_reach [OF sound_reach.start] by force
qed

text \<open>The recorded state of a running batch whose rejection is nevertheless recorded.\<close>

definition demo_rejected :: "broadcast_event list" where
  "demo_rejected =
    [BcCreate (\<lambda>x. x) (\<lambda>_. True) (demo_batch ''a'' None [1, 2]), BcClaimBatch ''a'' ''t'' ''o'' None,
     BcAdmission ''a'' ''rejected'' None ''redis'' None]"

lemma rejection_while_running:
  "map_option (\<lambda>w. (rows_of ''a'' (\<lambda>_ y. rc_state y = Failed \<and> rc_retryable y) (bc_journal w),
      map_option (\<lambda>x. (bt_state x, bt_pending x, bt_retryable x)) (dict_get (jn_batches (bc_journal w)) ''a'')))
    (broadcast_run demo_rejected broadcast_init) = Some (2, Some (BatchRunning, 2, 0))"
  by code_simp

text \<open>Property C11. In every reachable state the counts of a batch add up to its total and none of them is negative, its pending and
  started rows are never more than it counts, and nothing is counted as started or pending once the batch is finished. The count of
  retryable failures covers its rows, too, in every run that records a rejected admission only for batches that are not running
  (\<open>sound_reach\<close>). The queue rejects what it has not queued, but \<open>record_admission\<close> does not check it: it fails the pending rows of
  a running batch as well and leaves the counts, as \<open>rejection_while_running\<close> shows.\<close>

theorem batch_counts_exact:
  assumes "broadcast_reach w" and "dict_get (jn_batches (bc_journal w)) b = Some x"
  shows "bt_total x = bt_pending x + bt_started x + bt_sent x + bt_failed x + bt_skipped x + bt_unknown x \<and>
    list_all (\<lambda>n. 0 \<le> n) [bt_pending x, bt_started x, bt_sent x, bt_failed x, bt_skipped x, bt_unknown x] \<and>
    int (rows_of b (\<lambda>_ y. rc_state y = Pending) (bc_journal w)) \<le> bt_pending x \<and>
    int (rows_of b (\<lambda>_ y. rc_state y = Started) (bc_journal w)) \<le> bt_started x \<and>
    (bt_state x = Finished \<longrightarrow> bt_pending x = 0 \<and> bt_started x = 0) \<and>
    (sound_reach w \<longrightarrow> int (rows_of b (\<lambda>_ y. rc_state y = Failed \<and> rc_retryable y) (bc_journal w)) \<le> bt_retryable x \<and> 0 \<le> bt_retryable x)"
proof -
  let ?p = "tally is_pending (bc_journal w) b" and ?s = "tally is_started (bc_journal w) b" and ?r = "tally is_retryable (bc_journal w) b"
  have t: "tally_ok False ?p ?s ?r x" by (rule counts_okD [OF reach_counts [OF assms(1)] assms(2)])
  have u: "sound_reach w \<Longrightarrow> tally_ok True ?p ?s ?r x" by (rule counts_okD [OF sound_reach_counts assms(2)])
  have nn: "0 \<le> ?p" "0 \<le> ?s" "0 \<le> ?r" by simp_all
  have "0 \<le> bt_pending x" "0 \<le> bt_started x" using t nn unfolding tally_ok_def by linarith+
  moreover have "?r \<le> bt_retryable x \<and> 0 \<le> bt_retryable x" if "sound_reach w"
    using u [OF that] nn(3) unfolding tally_ok_def by (simp only: simp_thms) linarith
  ultimately show ?thesis using t unfolding tally_ok_def by auto
qed

lemma batch_counts_exact_witness:
  "\<exists>x. dict_get (jn_batches (bc_journal demo_sent)) ''a'' = Some x \<and> bt_state x = Finished \<and> bt_failed x = 1 \<and> bt_unknown x = 1 \<and>
    bt_total x = bt_pending x + bt_started x + bt_sent x + bt_failed x + bt_skipped x + bt_unknown x \<and> bt_pending x = 0 \<and> 0 \<le> bt_retryable x"
proof -
  have "map_option (\<lambda>x. (bt_state x, bt_failed x, bt_unknown x)) (dict_get (jn_batches (bc_journal demo_sent)) ''a'') = Some (Finished, 1, 1)"
    by code_simp
  then obtain x where "dict_get (jn_batches (bc_journal demo_sent)) ''a'' = Some x" "bt_state x = Finished" "bt_failed x = 1" "bt_unknown x = 1"
    by blast
  with batch_counts_exact [OF demo_sent_reach this(1)] demo_sent_sound show ?thesis by blast
qed

end
