(* ===== verification/Broadcast_Service.thy ===== *)
theory Broadcast_Service
  imports Broadcast_Counts Queue_Contracts
begin

text \<open>
  The service above the journal (\<open>BroadcastService\<close> of \<open>broadcast_jobs.py\<close> and \<open>candidates\<close> of \<open>repos/broadcast_jobs.py\<close>): who may
  receive a broadcast, what a batch is made of, what a retry asks for, what the job of a batch reports and how batches left open
  are closed. Times are microseconds since the epoch, in UTC.
\<close>

section \<open>Recipients\<close>

text \<open>\<open>_ids\<close>: \<open>None\<close> is the conflict \<open>invalid_recipients\<close>.\<close>

definition recipient_ids :: "int list \<Rightarrow> int list option" where
  "recipient_ids values =
    (if 1 \<le> length values \<and> length values \<le> 100 \<and> list_all (\<lambda>v. 0 < v \<and> v \<le> 2 ^ 63 - 1) values
     then Some (sorted_list_of_set (set values)) else None)"

text \<open>A row of the query of \<open>candidates\<close>. Horoscope deliveries are for the variants \<open>today\<close> and \<open>tomorrow\<close>
  (\<open>enqueue_plan\<close> below).\<close>

record user_row =
  ur_epoch :: "int option"
  ur_blocked :: bool
  ur_daily :: bool
  ur_snoozed_until :: "int option"
  ur_daily_game :: "string option"
  ur_horoscope :: bool
  ur_sign :: string
  ur_utc_offset :: "int option"
  ur_time_today :: "int option"
  ur_time_tomorrow :: "int option"
  ur_last_today :: "int option"
  ur_last_tomorrow :: "int option"
  ur_tarot :: bool
  ur_observed_at :: int

abbreviation (input) "HOUR \<equiv> 3600000000 :: int"
abbreviation (input) "DAY \<equiv> 86400000000 :: int"

definition slot_of :: "string \<Rightarrow> user_row \<Rightarrow> int option" where
  "slot_of variant u = (if variant = ''today'' then ur_time_today u else ur_time_tomorrow u)"

definition last_sent_of :: "string \<Rightarrow> user_row \<Rightarrow> int option" where
  "last_sent_of variant u = (if variant = ''today'' then ur_last_today u else ur_last_tomorrow u)"

definition offset_of :: "user_row \<Rightarrow> int" where
  "offset_of u = HOUR * (case ur_utc_offset u of Some h \<Rightarrow> h | None \<Rightarrow> 0)"

definition subscribed_to :: "string \<Rightarrow> user_row \<Rightarrow> bool" where
  "subscribed_to channel u =
    (if channel = ''daily_challenge'' then ur_daily u else if channel = ''horoscope'' then ur_horoscope u else ur_tarot u)"

definition candidate_reason :: "string \<Rightarrow> string \<Rightarrow> bool \<Rightarrow> string \<Rightarrow> string option \<Rightarrow> user_row option \<Rightarrow> string option" where
  "candidate_reason channel mode force variant default_game ur =
    (case ur of
       None \<Rightarrow> Some ''account_missing''
     | Some u \<Rightarrow>
        (let now = ur_observed_at u + offset_of u in
         if ur_epoch u = None \<or> ur_blocked u then Some ''privacy_unavailable''
         else if mode = ''delivery'' \<and> \<not> subscribed_to channel u then Some ''unsubscribed''
         else if mode = ''delivery'' \<and> channel = ''daily_challenge'' \<and>
           (case ur_daily_game u of Some g \<Rightarrow> if g \<noteq> [] then Some g else default_game | None \<Rightarrow> default_game) \<noteq> Some variant
         then Some ''game_preference_changed''
         else if mode = ''delivery'' \<and> channel = ''horoscope'' then
           (case slot_of variant u of
              None \<Rightarrow> Some ''slot_unsubscribed''
            | Some slot \<Rightarrow>
               (if slot > now mod DAY then Some ''slot_not_due''
                else
                  (case last_sent_of variant u of
                     Some sent \<Rightarrow> if (sent + offset_of u) div DAY \<ge> now div DAY then Some ''already_delivered'' else None
                   | None \<Rightarrow> None)))
         else if mode = ''offer'' \<and> subscribed_to channel u \<and> \<not> force then Some ''already_subscribed''
         else if mode = ''offer'' \<and> channel = ''daily_challenge'' \<and>
           (case ur_snoozed_until u of Some t \<Rightarrow> t > ur_observed_at u | None \<Rightarrow> False)
         then Some ''discovery_snoozed''
         else None))"

text \<open>\<open>sha\<close> is the hexadecimal SHA-256 of a text, \<open>show_time\<close> and \<open>show_date\<close> the text of a time of day and of a day.\<close>

definition subscription_fingerprint :: "(string \<Rightarrow> string) \<Rightarrow> (int \<Rightarrow> string) \<Rightarrow> user_row \<Rightarrow> string \<Rightarrow> string option" where
  "subscription_fingerprint sha show_time u variant =
    (case slot_of variant u of
       None \<Rightarrow> None
     | Some slot \<Rightarrow>
        Some (sha (ur_sign u @ '':'' @ (case ur_utc_offset u of Some h \<Rightarrow> show_int h | None \<Rightarrow> ''None'') @ '':'' @ show_time slot)))"

definition candidate_of ::
    "(string \<Rightarrow> string) \<Rightarrow> (int \<Rightarrow> string) \<Rightarrow> (int \<Rightarrow> string) \<Rightarrow> string \<Rightarrow> string \<Rightarrow> bool \<Rightarrow> string \<Rightarrow> string option \<Rightarrow>
     int \<Rightarrow> user_row option \<Rightarrow> candidate" where
  "candidate_of sha show_time show_date channel mode force variant default_game r ur =
    (let dated = (channel = ''horoscope'' \<and> mode = ''delivery'') in
     \<lparr>cd_recipient = r,
      cd_epoch = (case ur of Some u \<Rightarrow> ur_epoch u | None \<Rightarrow> None),
      cd_reason = candidate_reason channel mode force variant default_game ur,
      cd_fingerprint = (case ur of Some u \<Rightarrow> if dated then subscription_fingerprint sha show_time u variant else None | None \<Rightarrow> None),
      cd_claimed_at = (case ur of Some u \<Rightarrow> if dated then Some (ur_observed_at u) else None | None \<Rightarrow> None),
      cd_slot_date = (case ur of Some u \<Rightarrow> if dated then Some (show_date ((ur_observed_at u + offset_of u) div DAY)) else None | None \<Rightarrow> None)\<rparr>)"

definition candidates ::
    "(string \<Rightarrow> string) \<Rightarrow> (int \<Rightarrow> string) \<Rightarrow> (int \<Rightarrow> string) \<Rightarrow> string \<Rightarrow> string \<Rightarrow> string \<Rightarrow> bool \<Rightarrow> string \<Rightarrow>
     (int \<Rightarrow> user_row option) \<Rightarrow> int list \<Rightarrow> candidate list" where
  "candidates sha show_time show_date active_game channel mode force variant rows users =
    (let default_game = (if channel = ''daily_challenge'' \<and> mode = ''delivery'' \<and>
           list_ex (\<lambda>r. case rows r of Some u \<Rightarrow> ur_daily_game u = None | None \<Rightarrow> False) users then Some active_game else None) in
     map (\<lambda>r. candidate_of sha show_time show_date channel mode force variant default_game r (rows r)) users)"

text \<open>\<open>preview_offers\<close>: how many were asked for, who is eligible, and how many are excluded for each reason.\<close>

definition count_reason :: "(string, nat) dict \<Rightarrow> candidate \<Rightarrow> (string, nat) dict" where
  "count_reason d c =
    (case cd_reason c of
       Some r \<Rightarrow> if r \<noteq> [] then dict_set d r ((case dict_get d r of Some n \<Rightarrow> n | None \<Rightarrow> 0) + 1) else d
     | None \<Rightarrow> d)"

definition preview_offers :: "(int list \<Rightarrow> candidate list) \<Rightarrow> string \<Rightarrow> int list \<Rightarrow> string + nat \<times> int list \<times> (string, nat) dict" where
  "preview_offers snapshot channel user_ids =
    (if channel \<notin> {''daily_challenge'', ''horoscope'', ''tarot''} then Inl ''invalid_channel''
     else
       (case recipient_ids user_ids of
          None \<Rightarrow> Inl ''invalid_recipients''
        | Some users \<Rightarrow>
           (let rows = snapshot users in
            Inr (length users, map cd_recipient (filter (\<lambda>c. cd_reason c = None) rows), foldl count_reason [] rows))))"

text \<open>\<open>acknowledge_horoscope\<close>: the time of a confirmed delivery moves forward only; \<open>None\<close> is a user without a subscription.\<close>

definition set_last_sent :: "string \<Rightarrow> int \<Rightarrow> user_row \<Rightarrow> user_row" where
  "set_last_sent variant t u =
    (let later = (case last_sent_of variant u of None \<Rightarrow> t | Some old \<Rightarrow> if old < t then t else old) in
     if variant = ''today'' then u\<lparr>ur_last_today := Some later\<rparr> else u\<lparr>ur_last_tomorrow := Some later\<rparr>)"

definition acknowledge_horoscope ::
    "(string \<Rightarrow> string) \<Rightarrow> (int \<Rightarrow> string) \<Rightarrow> string \<Rightarrow> int option \<Rightarrow> string option \<Rightarrow> user_row option \<Rightarrow> user_row option \<times> bool" where
  "acknowledge_horoscope sha show_time variant claimed fp ur =
    (if variant \<notin> {''today'', ''tomorrow''} \<or> fp = None \<or> fp = Some [] then (ur, False)
     else
       (case (claimed, ur) of
          (Some t, Some u) \<Rightarrow>
            (if \<not> ur_horoscope u \<or> subscription_fingerprint sha show_time u variant \<noteq> fp then (ur, False)
             else (Some (set_last_sent variant t u), True))
        | _ \<Rightarrow> (ur, False)))"

text \<open>The checkpoint before every call of the bot, after the guard's own: the reason of the cancellation it raises. \<open>setting\<close> is
  the channel's switch, stripped and in lower case.\<close>

definition checkpoint_reason :: "batch_row \<Rightarrow> recipient_row \<Rightarrow> candidate \<Rightarrow> string \<Rightarrow> string option" where
  "checkpoint_reason bt rc live setting =
    (let dated = (bt_channel bt = ''horoscope'' \<and> bt_mode bt = ''delivery'') in
     if (case cd_reason live of Some r \<Rightarrow> r \<noteq> [] | None \<Rightarrow> False) then cd_reason live
     else if cd_epoch live \<noteq> rc_epoch rc then Some ''privacy_revoked''
     else if dated \<and> ((case rc_fingerprint rc of None \<Rightarrow> True | Some f \<Rightarrow> f = []) \<or> cd_fingerprint live \<noteq> rc_fingerprint rc)
     then Some ''subscription_changed''
     else if dated \<and> cd_slot_date live \<noteq> rc_slot_date rc then Some ''delivery_date_expired''
     else if bt_mode bt = ''delivery'' \<and> setting = ''off'' then Some ''channel_paused''
     else None)"

section \<open>Batches\<close>

text \<open>What \<open>_enqueue\<close> does with a call before it creates a batch: the batch of the operation is answered as it is; a bad call is
  refused; otherwise a request. \<open>uuid\<close> is \<open>UUID\<close> as a canonical string, \<open>batch_uuid\<close> the derived identifier of the batch.\<close>

record enqueue_call =
  ec_channel :: string
  ec_users :: "int list"
  ec_operation :: string
  ec_mode :: string
  ec_force :: bool
  ec_date :: "string option"
  ec_variant :: string
  ec_parent :: "string option"
  ec_epochs :: "(int, int option) dict option"
  ec_subscriptions :: "(int, string option \<times> string option) dict option"
  ec_scheduled :: bool

datatype enqueue_decision = KnownBatch string | Refusal string | NewBatch batch_request

definition recheck_epoch :: "(int, int option) dict option \<Rightarrow> candidate \<Rightarrow> candidate" where
  "recheck_epoch epochs c =
    (case epochs of
       None \<Rightarrow> c
     | Some d \<Rightarrow>
        (if cd_epoch c \<noteq> (case dict_get d (cd_recipient c) of Some e \<Rightarrow> e | None \<Rightarrow> None) then c\<lparr>cd_reason := Some ''privacy_revoked''\<rparr> else c))"

definition recheck_subscription :: "(int, string option \<times> string option) dict option \<Rightarrow> candidate \<Rightarrow> candidate" where
  "recheck_subscription subs c =
    (case subs of
       None \<Rightarrow> c
     | Some d \<Rightarrow>
        (case (case dict_get d (cd_recipient c) of Some p \<Rightarrow> p | None \<Rightarrow> (None, None)) of (fp, day) \<Rightarrow>
          (if cd_fingerprint c \<noteq> fp \<or> cd_slot_date c \<noteq> day then c\<lparr>cd_reason := Some ''subscription_changed''\<rparr> else c)))"

definition CHANNELS :: "string list" where
  "CHANNELS = [''daily_challenge'', ''horoscope'', ''tarot'']"

text \<open>\<open>snapshot\<close> answers the candidates for the users: the call's own snapshot or those the journal reports.\<close>

definition enqueue_plan ::
    "(string \<Rightarrow> string option) \<Rightarrow> (string \<Rightarrow> string) \<Rightarrow> (int list \<Rightarrow> candidate list) \<Rightarrow> string \<Rightarrow> string \<Rightarrow> enqueue_call \<Rightarrow> journal \<Rightarrow> enqueue_decision" where
  "enqueue_plan uuid batch_uuid snapshot today active_game ec j =
    (case uuid (ec_operation ec) of
       None \<Rightarrow> Refusal ''invalid_operation_id''
     | Some op \<Rightarrow>
        (case batch_of_operation op j of
           Some b \<Rightarrow> KnownBatch b
         | None \<Rightarrow>
            (if ec_channel ec \<notin> set CHANNELS \<or> ec_mode ec \<notin> {''offer'', ''delivery''} then Refusal ''invalid_channel''
             else
               (case recipient_ids (ec_users ec) of
                  None \<Rightarrow> Refusal ''invalid_recipients''
                | Some users \<Rightarrow>
                   (if ec_channel ec = ''horoscope'' \<and> ec_mode ec = ''delivery'' \<and> ec_variant ec \<notin> {''today'', ''tomorrow''}
                    then Refusal ''invalid_variant''
                    else
                      NewBatch \<lparr>br_batch = batch_uuid op, br_operation = op, br_channel = ec_channel ec, br_mode = ec_mode ec,
                        br_date = (case ec_date ec of Some d \<Rightarrow> d | None \<Rightarrow> today),
                        br_variant = (if ec_channel ec = ''daily_challenge'' \<and> ec_variant ec = [] then active_game else ec_variant ec),
                        br_force = ec_force ec,
                        br_candidates = map (recheck_subscription (ec_subscriptions ec) \<circ> recheck_epoch (ec_epochs ec)) (snapshot users),
                        br_parent = ec_parent ec, br_settings = None, br_scheduled = ec_scheduled ec\<rparr>)))))"

text \<open>The rest of \<open>_enqueue\<close>: the batch is created, its job submitted, and the answer of the queue recorded. \<open>submit\<close> is
  \<open>enqueue_job\<close>: state, task, reason and storage of the admission; \<open>recorded\<close> is false when the journal does not confirm it.\<close>

record admission_answer =
  aa_state :: string
  aa_task :: "string option"
  aa_reason :: "string option"
  aa_storage :: string

datatype enqueue_result = EnqRefused string | EnqFailed | EnqKnown string | EnqNew string admission_answer

definition enqueue_broadcast ::
    "(string \<Rightarrow> string option) \<Rightarrow> (string \<Rightarrow> string) \<Rightarrow> (int list \<Rightarrow> candidate list) \<Rightarrow> string \<Rightarrow> string \<Rightarrow>
     (string \<Rightarrow> string) \<Rightarrow> (int \<Rightarrow> bool) \<Rightarrow> (string \<Rightarrow> admission_answer) \<Rightarrow> bool \<Rightarrow> enqueue_call \<Rightarrow> journal \<Rightarrow> journal \<times> enqueue_result" where
  "enqueue_broadcast uuid batch_uuid snapshot today active_game sha users submit recorded ec j =
    (case enqueue_plan uuid batch_uuid snapshot today active_game ec j of
       Refusal r \<Rightarrow> (j, EnqRefused r)
     | KnownBatch b \<Rightarrow> (j, EnqKnown b)
     | NewBatch rq \<Rightarrow>
        (case create_batch sha users rq j of
           (j1, NoCapacity) \<Rightarrow> (j1, EnqRefused ''broadcast_capacity'')
         | (j1, PrimaryKeyTaken) \<Rightarrow> (j1, EnqFailed)
         | (j1, ExistingBatch b) \<Rightarrow> (j1, EnqKnown b)
         | (j1, CreatedBatch) \<Rightarrow>
             (let a = submit (''broadcast:'' @ br_batch rq) in
              if recorded then (record_admission (br_batch rq) (aa_state a) (aa_reason a) (aa_storage a) (aa_task a) j1, EnqNew (br_batch rq) a)
              else (j1, EnqNew (br_batch rq) (a\<lparr>aa_state := ''unknown'', aa_reason := Some ''journal_admission_unconfirmed''\<rparr>)))))"

text \<open>\<open>retry_failed\<close>: the call it makes, or the reason it refuses.\<close>

definition retry_rows :: "string \<Rightarrow> journal \<Rightarrow> (int \<times> recipient_row) list" where
  "retry_rows b j = map (\<lambda>r. (r, the (dict_get (jn_recipients j) (b, r)))) (retryable_recipients b j)"

definition retry_failed :: "(string \<Rightarrow> string option) \<Rightarrow> string \<Rightarrow> string \<Rightarrow> journal \<Rightarrow> string + enqueue_call" where
  "retry_failed uuid batch operation j =
    (case (uuid operation, uuid batch) of
       (Some op, Some b) \<Rightarrow>
         (case dict_get (jn_batches j) b of
            None \<Rightarrow> Inl ''batch_missing''
          | Some parent \<Rightarrow>
             (let existing = batch_of_operation op j; rows = retry_rows b j in
              if existing = None \<and> bt_state parent \<noteq> Finished then Inl ''batch_not_terminal''
              else if rows = [] \<and> existing = None then Inl ''no_retryable_failures''
              else
                Inr \<lparr>ec_channel = bt_channel parent, ec_users = map fst rows, ec_operation = op, ec_mode = bt_mode parent,
                  ec_force = bt_force parent, ec_date = Some (bt_date parent), ec_variant = bt_variant parent, ec_parent = Some b,
                  ec_epochs = Some (map (\<lambda>(r, x). (r, rc_epoch x)) rows),
                  ec_subscriptions = (if bt_channel parent = ''horoscope'' \<and> bt_mode parent = ''delivery''
                    then Some (map (\<lambda>(r, x). (r, (rc_fingerprint x, rc_slot_date x))) rows) else None),
                  ec_scheduled = bt_scheduled parent\<rparr>))
     | _ \<Rightarrow> Inl ''invalid_operation_id'')"

text \<open>\<open>enqueue_scheduled\<close>, after a recovery: the users in chunks of a hundred, each a call whose operation is derived from the
  snapshot of its candidates (\<open>operation\<close> is the derivation of the identifier from its name).\<close>

function chunks_of :: "nat \<Rightarrow> 'a list \<Rightarrow> 'a list list" where
  "chunks_of n xs = (if n = 0 \<or> xs = [] then [] else take n xs # chunks_of n (drop n xs))"
  by auto
termination by (relation "measure (length \<circ> snd)") auto

fun join_comma :: "string list \<Rightarrow> string" where
  "join_comma [] = []"
| "join_comma [x] = x"
| "join_comma (x # xs) = x @ '','' @ join_comma xs"

definition snapshot_digest :: "(string \<Rightarrow> string) \<Rightarrow> string \<Rightarrow> candidate list \<Rightarrow> string" where
  "snapshot_digest sha date rows =
    sha (join_comma (map (\<lambda>c. show_int (cd_recipient c) @ '':'' @ (case cd_epoch c of Some e \<Rightarrow> show_int e | None \<Rightarrow> ''None'') @ '':'' @
      (case cd_slot_date c of Some d \<Rightarrow> if d \<noteq> [] then d else date | None \<Rightarrow> date)) rows))"

definition scheduled_calls ::
    "(string \<Rightarrow> string) \<Rightarrow> (string \<Rightarrow> string) \<Rightarrow> (int list \<Rightarrow> candidate list) \<Rightarrow> string \<Rightarrow> string \<Rightarrow> string \<Rightarrow> string \<Rightarrow> int list \<Rightarrow>
     (enqueue_call \<times> candidate list) list" where
  "scheduled_calls sha operation snapshot channel mode date variant user_ids =
    map (\<lambda>chunk.
      let rows = snapshot chunk in
      (\<lparr>ec_channel = channel, ec_users = chunk,
        ec_operation = operation (''gemaibotv2:broadcast:scheduled:'' @ channel @ '':'' @ mode @ '':'' @ date @ '':'' @ variant @ '':'' @
          snapshot_digest sha date rows),
        ec_mode = mode, ec_force = False, ec_date = Some date, ec_variant = variant, ec_parent = None, ec_epochs = None,
        ec_subscriptions = None, ec_scheduled = True\<rparr>, rows))
      (chunks_of 100 (sorted_list_of_set (set user_ids)))"

section \<open>The job of a batch, and recovery\<close>

text \<open>The end of \<open>execute\<close>: \<open>failed\<close> says that a delivery task raised; the batch is then interrupted.\<close>

definition completed_of :: "batch_row \<Rightarrow> int" where
  "completed_of x = bt_sent x + bt_failed x + bt_skipped x + bt_unknown x"

definition batch_job_result :: "batch_row \<Rightarrow> job_result" where
  "batch_job_result x =
    (let summ = [(''total'', SInt (bt_total x)), (''completed'', SInt (completed_of x)), (''failed'', SInt (bt_failed x)),
       (''skipped'', SInt (bt_skipped x)), (''remaining'', SInt 0)] in
     if bt_unknown x \<noteq> 0 then mk_result UNKNOWN_DELIVERY_outcome (Some ''broadcast_delivery_unconfirmed'') summ
     else if bt_failed x \<noteq> 0 then mk_result PERMANENT_FAILURE (Some ''broadcast_partial_failure'') summ
     else mk_result SUCCEEDED_outcome (Some ''broadcast_complete'') summ)"

definition close_batch :: "string \<Rightarrow> string \<Rightarrow> bool \<Rightarrow> journal \<Rightarrow> journal \<times> job_result" where
  "close_batch b token failed j =
    (if failed then (interrupt_batch b j, mk_result UNKNOWN_DELIVERY_outcome (Some ''broadcast_disposition_unconfirmed'') [])
     else
       (case finish_batch b token j of
          (j1, False) \<Rightarrow> (j1, mk_result UNKNOWN_DELIVERY_outcome (Some ''broadcast_journal_finish_unconfirmed'') [])
        | (j1, True) \<Rightarrow> (j1, batch_job_result (the (dict_get (jn_batches j1) b)))))"

text \<open>\<open>recover\<close>: the open batches, the oldest first; \<open>look\<close> is the queue's snapshot of a batch's job (its task, its storage and
  whether it is terminal), \<open>old\<close> tells which batches are older than a minute.\<close>

definition open_batches :: "nat \<Rightarrow> journal \<Rightarrow> string list" where
  "open_batches limit j = take limit (map fst (filter (\<lambda>e. bt_state (snd e) \<noteq> Finished) (jn_batches j)))"

definition recover_one ::
    "(string \<Rightarrow> (string \<times> string \<times> bool) option) \<Rightarrow> (string \<Rightarrow> bool) \<Rightarrow> (string \<Rightarrow> bool) \<Rightarrow> journal \<times> nat \<Rightarrow> string \<Rightarrow> journal \<times> nat" where
  "recover_one look old unknown acc b =
    (case acc of (j, n) \<Rightarrow>
      (let j1 = (case look b of
            Some (task, storage, fin) \<Rightarrow>
              if unknown b then record_admission b ''existing'' (Some ''admission_reconciled'') storage (Some task) j else j
          | None \<Rightarrow> j)
       in if (case look b of Some (task, storage, fin) \<Rightarrow> fin | None \<Rightarrow> old b) then (interrupt_batch b j1, n + 1) else (j1, n)))"

definition recover :: "nat \<Rightarrow> (string \<Rightarrow> (string \<times> string \<times> bool) option) \<Rightarrow> (string \<Rightarrow> bool) \<Rightarrow> (string \<times> int) list \<Rightarrow> journal \<Rightarrow> journal \<times> nat" where
  "recover limit look old retained j =
    (case foldl (recover_one look old (\<lambda>b. case dict_get (jn_batches j) b of Some x \<Rightarrow> bt_admission x = ''unknown'' | None \<Rightarrow> False)) (j, 0)
         (open_batches (min (max limit 1) 100) j) of
       (j1, n) \<Rightarrow> (purge_recipients retained j1, n))"

section \<open>Properties\<close>

lemma finish_batch_confirmed:
  assumes "finish_batch b token j = (j1, True)"
  obtains x where "dict_get (jn_batches j) b = Some x" and "bt_pending x = 0" and "bt_started x = 0"
    and "dict_get (jn_batches j1) b = Some (x\<lparr>bt_state := Finished, bt_owner := None\<rparr>)"
  using assms by (auto simp: finish_batch_def update_batch_get split: option.splits if_splits)

text \<open>The report of a batch is complete: unless the journal did not confirm the end of the batch, the batch is finished
  and every recipient it was made for is sent, failed, skipped or unknown; the job succeeds exactly if all of them were sent or
  skipped.\<close>

theorem batch_report_complete:
  assumes "broadcast_reach w" and "close_batch b token False (bc_journal w) = (j', res)"
    and "result_reason res \<noteq> Some ''broadcast_journal_finish_unconfirmed''"
  shows "\<exists>x. dict_get (jn_batches j') b = Some x \<and> bt_state x = Finished \<and> completed_of x = bt_total x \<and>
    (outcome res = SUCCEEDED_outcome \<longleftrightarrow> bt_sent x + bt_skipped x = bt_total x)"
proof -
  obtain j1 ok where f: "finish_batch b token (bc_journal w) = (j1, ok)" by fastforce
  have ok using assms(2,3) f by (cases ok) (auto simp: close_batch_def mk_result_def)
  with f obtain x where x: "dict_get (jn_batches (bc_journal w)) b = Some x" "bt_pending x = 0" "bt_started x = 0"
    and x': "dict_get (jn_batches j1) b = Some (x\<lparr>bt_state := Finished, bt_owner := None\<rparr>)"
    using finish_batch_confirmed by metis
  have t: "tally_ok False (tally is_pending (bc_journal w) b) (tally is_started (bc_journal w) b) (tally is_retryable (bc_journal w) b) x"
    by (rule counts_okD [OF reach_counts [OF assms(1)] x(1)])
  have "j' = j1" "res = batch_job_result (x\<lparr>bt_state := Finished, bt_owner := None\<rparr>)"
    using assms(2) f \<open>ok\<close> x' by (simp_all add: close_batch_def)
  with t x x' show ?thesis by (auto simp: tally_ok_def completed_of_def batch_job_result_def Let_def mk_result_def)
qed

text \<open>What a recovery does to the rows.\<close>

definition row_quarantined :: "recipient_row \<Rightarrow> recipient_row \<Rightarrow> bool" where
  "row_quarantined x y \<longleftrightarrow> y = x \<or> rc_state y \<in> {Skipped, UnknownDelivery} \<and> \<not> rc_retryable y"

definition only_quarantines :: "journal \<Rightarrow> journal \<Rightarrow> bool" where
  "only_quarantines j j' \<longleftrightarrow> (\<forall>k y. row j' k = Some y \<longrightarrow> (\<exists>x. row j k = Some x \<and> row_quarantined x y))"

lemma only_quarantines_trans: "only_quarantines j j1 \<Longrightarrow> only_quarantines j1 j2 \<Longrightarrow> only_quarantines j j2"
  unfolding only_quarantines_def row_quarantined_def by metis

lemma interrupt_rows:
  "row (interrupt_batch b j) k = (if fst k = b then map_option (\<lambda>x. if rc_state x \<in> {Pending, Started}
      then x\<lparr>rc_state := (if rc_state x = Started then UnknownDelivery else Skipped),
             rc_reason := Some (if rc_state x = Started then ''worker_interrupted'' else ''batch_interrupted''),
             rc_retryable := False, rc_owner := None\<rparr> else x) (row j k) else row j k)"
  by (simp add: interrupt_batch_def)

lemma interrupt_quarantines: "only_quarantines j (interrupt_batch b j)"
  unfolding only_quarantines_def interrupt_rows by (auto simp: row_quarantined_def split: if_splits)

lemma admission_rows: "st \<noteq> ''rejected'' \<Longrightarrow> jn_recipients (record_admission b st reason storage task j) = jn_recipients j"
  by (simp add: record_admission_def Let_def)

lemma recover_one_effect:
  assumes "recover_one look old unk (j, n) b = (j', n')"
  shows "only_quarantines j j'" and "(case look b of Some (task, storage, fin) \<Rightarrow> fin | None \<Rightarrow> old b) \<Longrightarrow> row j' (b, r) = Some y \<Longrightarrow> rc_state y \<notin> {Pending, Started}"
proof -
  let ?due = "case look b of Some (task, storage, fin) \<Rightarrow> fin | None \<Rightarrow> old b"
  define j1 where "j1 = (case look b of
      Some (task, storage, fin) \<Rightarrow>
        if unk b then record_admission b ''existing'' (Some ''admission_reconciled'') storage (Some task) j else j
    | None \<Rightarrow> j)"
  have rows: "jn_recipients j1 = jn_recipients j" unfolding j1_def by (simp add: admission_rows split: option.split)
  have j': "j' = (if ?due then interrupt_batch b j1 else j1)"
    using assms by (auto simp: recover_one_def Let_def j1_def split: if_splits)
  have "only_quarantines j j1" by (auto simp: only_quarantines_def row_quarantined_def rows)
  then show "only_quarantines j j'" unfolding j' using only_quarantines_trans [OF _ interrupt_quarantines] by simp
  show "rc_state y \<notin> {Pending, Started}" if due: "?due" and y: "row j' (b, r) = Some y"
  proof -
    from y due obtain x where "y = (if rc_state x \<in> {Pending, Started}
        then x\<lparr>rc_state := (if rc_state x = Started then UnknownDelivery else Skipped),
               rc_reason := Some (if rc_state x = Started then ''worker_interrupted'' else ''batch_interrupted''),
               rc_retryable := False, rc_owner := None\<rparr> else x)"
      by (simp add: j' interrupt_rows) blast
    then show ?thesis by simp
  qed
qed

lemma recover_fold:
  assumes "foldl (recover_one look old unk) (j, n) bs = (j', n')"
  shows "only_quarantines j j'"
    and "b \<in> set bs \<Longrightarrow> (case look b of Some (task, storage, fin) \<Rightarrow> fin | None \<Rightarrow> old b) \<Longrightarrow> row j' (b, r) = Some y \<Longrightarrow> rc_state y \<notin> {Pending, Started}"
proof -
  have "only_quarantines j j' \<and> (\<forall>b y. b \<in> set bs \<and> (case look b of Some (task, storage, fin) \<Rightarrow> fin | None \<Rightarrow> old b) \<and> row j' (b, r) = Some y \<longrightarrow>
      rc_state y \<notin> {Pending, Started})"
    using assms
  proof (induction bs arbitrary: j n)
    case Nil
    then show ?case by (simp add: only_quarantines_def row_quarantined_def)
  next
    case (Cons c bs)
    obtain j1 n1 where one: "recover_one look old unk (j, n) c = (j1, n1)" by fastforce
    note ih = Cons.IH [of j1 n1] and first = recover_one_effect [OF one]
    have ih: "only_quarantines j1 j'" "\<And>b y. b \<in> set bs \<Longrightarrow> (case look b of Some (task, storage, fin) \<Rightarrow> fin | None \<Rightarrow> old b) \<Longrightarrow>
        row j' (b, r) = Some y \<Longrightarrow> rc_state y \<notin> {Pending, Started}"
      using ih Cons.prems one by auto
    have "rc_state y \<notin> {Pending, Started}"
      if due: "case look c of Some (task, storage, fin) \<Rightarrow> fin | None \<Rightarrow> old c" and y: "row j' (c, r) = Some y" for y
    proof -
      from ih(1) y obtain x where x: "row j1 (c, r) = Some x" "row_quarantined x y" unfolding only_quarantines_def by blast
      from first(2) [OF due x(1)] x(2) show ?thesis by (auto simp: row_quarantined_def)
    qed
    with ih(2) only_quarantines_trans [OF first(1) ih(1)] show ?case by auto
  qed
  then show "only_quarantines j j'"
    and "b \<in> set bs \<Longrightarrow> (case look b of Some (task, storage, fin) \<Rightarrow> fin | None \<Rightarrow> old b) \<Longrightarrow> row j' (b, r) = Some y \<Longrightarrow> rc_state y \<notin> {Pending, Started}"
    by blast+
qed

text \<open>Property C39. Recovery quarantines and never replays: a recipient keeps its row, or becomes skipped or unknown without a grant for
  a retry; and no recipient of an open batch whose job is over, or is missing for more than a minute, is left pending or started.\<close>

theorem recover_never_replays:
  assumes "recover limit look old retained j = (j', n)" and "dict_get (jn_recipients j') (b, r) = Some y"
  shows "(dict_get (jn_recipients j) (b, r) = Some y \<or> rc_state y \<in> {Skipped, UnknownDelivery} \<and> \<not> rc_retryable y) \<and>
    (b \<in> set (open_batches (min (max limit 1) 100) j) \<and> (case look b of Some (task, storage, over) \<Rightarrow> over | None \<Rightarrow> old b) \<longrightarrow>
     rc_state y \<notin> {Pending, Started})"
proof -
  obtain j1 where f: "foldl (recover_one look old (\<lambda>b. case dict_get (jn_batches j) b of Some x \<Rightarrow> bt_admission x = ''unknown'' | None \<Rightarrow> False)) (j, 0)
      (open_batches (min (max limit 1) 100) j) = (j1, n)" and j': "j' = purge_recipients retained j1"
    using assms(1) by (auto simp: recover_def split: prod.splits)
  have "dict_get (filter (\<lambda>e. fst e \<notin> set retained) d) k = (if k \<in> set retained then None else dict_get d k)" for k and d :: "(string \<times> int, recipient_row) dict"
    by (induction d) auto
  then have y: "row j1 (b, r) = Some y" using assms(2) by (auto simp: j' purge_recipients_def split: if_splits)
  from recover_fold(1) [OF f] y have "row j (b, r) = Some y \<or> rc_state y \<in> {Skipped, UnknownDelivery} \<and> \<not> rc_retryable y"
    unfolding only_quarantines_def row_quarantined_def by metis
  with recover_fold(2) [OF f _ _ y] show ?thesis by blast
qed

lemma recover_never_replays_witness:
  "map (\<lambda>r. map_option rc_state (dict_get (jn_recipients (fst (recover 100 (\<lambda>b. None) (\<lambda>b. True) []
      (bc_journal (the (broadcast_run (take 3 demo_broadcast) broadcast_init)))))) (''a'', r))) [1, 2] = [Some UnknownDelivery, Some Skipped]"
proof -
  let ?j = "bc_journal (the (broadcast_run (take 3 demo_broadcast) broadcast_init))"
  let ?res = "recover 100 (\<lambda>b. None) (\<lambda>b. True) [] ?j"
  have a: "''a'' \<in> set (open_batches (min (max 100 1) 100) ?j)" by code_simp
  have one: "map_option rc_state (dict_get (jn_recipients (fst ?res)) (''a'', 1)) = Some UnknownDelivery" by code_simp
  have two: "map_option rc_state (dict_get (jn_recipients (fst ?res)) (''a'', 2)) = Some Skipped" by code_simp
  from one obtain y where y: "dict_get (jn_recipients (fst ?res)) (''a'', 1) = Some y" by blast
  have "?res = (fst ?res, snd ?res)" by simp
  from recover_never_replays [OF this y] a have "rc_state y \<notin> {Pending, Started}" by simp
  with one two show ?thesis by simp
qed

lemma batch_report_complete_witness:
  "\<exists>x. dict_get (jn_batches (fst (close_batch ''b'' ''p'' False (bc_journal demo_sent)))) ''b'' = Some x \<and> completed_of x = bt_total x \<and>
    outcome (snd (close_batch ''b'' ''p'' False (bc_journal demo_sent))) = SUCCEEDED_outcome"
proof -
  let ?c = "close_batch ''b'' ''p'' False (bc_journal demo_sent)"
  have r: "result_reason (snd ?c) = Some ''broadcast_complete''" by code_simp
  have o: "outcome (snd ?c) = SUCCEEDED_outcome" by code_simp
  have c: "?c = (fst ?c, snd ?c)" by simp
  have "result_reason (snd ?c) \<noteq> Some ''broadcast_journal_finish_unconfirmed''" unfolding r by simp
  from batch_report_complete [OF demo_sent_reach c this] o show ?thesis by blast
qed

section \<open>Repeated operations\<close>

definition operations :: "journal \<Rightarrow> (string \<times> string) list" where
  "operations j = map (\<lambda>e. (fst e, bt_operation (snd e))) (jn_batches j)"

lemma batch_of_operation_alt: "batch_of_operation op j = map_option fst (find (\<lambda>e. snd e = op) (operations j))"
proof -
  have "map_option fst (find (\<lambda>e. bt_operation (snd e) = op) d) =
      map_option fst (find (\<lambda>e. snd e = op) (map (\<lambda>e. (fst e, bt_operation (snd e))) d))" for d :: "(string, batch_row) dict"
    by (induction d) auto
  then show ?thesis by (simp add: batch_of_operation_def operations_def)
qed

lemma operations_update: "(\<And>x. bt_operation (f x) = bt_operation x) \<Longrightarrow> operations (update_batch b f j) = operations j"
proof -
  assume f: "\<And>x. bt_operation (f x) = bt_operation x"
  have "dict_get d b = Some x \<Longrightarrow> map (\<lambda>e. (fst e, bt_operation (snd e))) (dict_set d b (f x)) = map (\<lambda>e. (fst e, bt_operation (snd e))) d"
    for d :: "(string, batch_row) dict" and x
    by (induction d) (auto simp: f split: if_splits)
  then show ?thesis by (auto simp: operations_def update_batch_def split: option.split)
qed

lemma operations_insert: "operations (foldl (insert_recipient sha users rq) j cs) = operations j"
proof (induction cs arbitrary: j)
  case (Cons c cs)
  have "operations (free_parent_key rq key c j) = operations j" for key
    by (auto simp: free_parent_key_def operations_def split: option.split)
  moreover have "operations (put_recipient k x j) = operations j" for k x j by (simp add: operations_def)
  ultimately have "operations (insert_recipient sha users rq j c) = operations j"
    by (simp add: insert_recipient_def Let_def operations_update)
  with Cons.IH show ?case by simp
qed simp

lemma create_operations:
  assumes "create_batch sha users rq j = (j', CreatedBatch)"
  shows "operations j' = operations j @ [(br_batch rq, br_operation rq)]" and "batch_of_operation (br_operation rq) j = None"
proof -
  from assms have new: "\<not> dict_has (jn_batches j) (br_batch rq)" and op: "batch_of_operation (br_operation rq) j = None"
    and cap: "\<not> length (filter (\<lambda>e. bt_state (snd e) \<noteq> Finished) (jn_batches j)) \<ge> 10"
    by (auto simp: create_batch_def split: option.splits if_splits)
  show "batch_of_operation (br_operation rq) j = None" by (rule op)
  have add: "operations (foldl (insert_recipient sha users rq) (i\<lparr>jn_batches := dict_set (jn_batches i) (br_batch rq) (new_batch rq cs)\<rparr>) es) =
      operations j @ [(br_batch rq, br_operation rq)]"
    if "operations i = operations j" "\<not> dict_has (jn_batches i) (br_batch rq)" for i cs es
  proof -
    have "dict_set (jn_batches i) (br_batch rq) (new_batch rq cs) = jn_batches i @ [(br_batch rq, new_batch rq cs)]"
      using that(2) by (intro dict_keys_set_new) (simp add: dict_has_def set_dict_keys_iff)
    with that(1) show ?thesis unfolding operations_insert by (simp add: operations_def new_batch_def Let_def)
  qed
  show "operations j' = operations j @ [(br_batch rq, br_operation rq)]"
  proof (cases "br_parent rq")
    case None
    with assms new op cap have "j' = foldl (insert_recipient sha users rq)
        (j\<lparr>jn_batches := dict_set (jn_batches j) (br_batch rq) (new_batch rq (br_candidates rq))\<rparr>)
        (filter (\<lambda>c. cd_reason c = None) (br_candidates rq))"
      by (simp add: create_batch_def)
    with add [OF refl new] show ?thesis by simp
  next
    case (Some p)
    obtain j1 n cs where f: "foldl (consume_retry p) (j, 0, []) (br_candidates rq) = (j1, n, cs)" by (metis prod_cases3)
    have b1: "jn_batches j1 = jn_batches j" using consume_fold [OF f] by simp
    have i: "operations (less_retryable p n j1) = operations j" using b1 by (simp add: operations_update) (simp add: operations_def)
    have h: "\<not> dict_has (jn_batches (less_retryable p n j1)) (br_batch rq)" using new b1 by (auto simp: dict_has_def update_batch_get)
    have "j' = foldl (insert_recipient sha users rq)
        ((less_retryable p n j1)\<lparr>jn_batches := dict_set (jn_batches (less_retryable p n j1)) (br_batch rq) (new_batch rq cs)\<rparr>)
        (filter (\<lambda>c. cd_reason c = None) cs)"
      using assms new op cap f Some by (simp add: create_batch_def)
    with add [OF i h] show ?thesis by simp
  qed
qed

lemma operations_admission: "operations (record_admission b st reason storage task j) = operations j"
proof -
  have "operations (update_recipients b f j) = operations j" for f j by (simp add: operations_def)
  then show ?thesis by (simp add: record_admission_def Let_def operations_update)
qed

lemma find_none_append: "find P xs = None \<Longrightarrow> find P (xs @ ys) = find P ys"
  by (induction xs) (auto split: if_splits)

text \<open>A repeated operation makes nothing new: once an operation has made a batch, every later call with that operation,
  whatever it asks for, is answered with the batch and leaves the journal as it is.\<close>

lemma enqueue_repeated:
  assumes "enqueue_broadcast uuid batch_uuid snapshot today game sha users submit recorded ec j = (j', EnqNew b a)"
    and "uuid (ec_operation ec') = uuid (ec_operation ec)"
  shows "enqueue_broadcast uuid batch_uuid' snapshot' today' game' sha' users' submit' recorded' ec' j' = (j', EnqKnown b)"
proof -
  from assms(1) obtain rq where plan: "enqueue_plan uuid batch_uuid snapshot today game ec j = NewBatch rq" and b: "b = br_batch rq"
    and made: "snd (create_batch sha users rq j) = CreatedBatch"
    by (auto simp: enqueue_broadcast_def Let_def split: enqueue_decision.splits prod.splits create_result.splits if_splits)
  obtain j1 where c: "create_batch sha users rq j = (j1, CreatedBatch)" using made by (metis prod.collapse)
  have ops: "operations j' = operations j1"
    using assms(1) plan c by (auto simp: enqueue_broadcast_def Let_def operations_admission split: if_splits)
  from plan have op: "uuid (ec_operation ec) = Some (br_operation rq)"
    by (auto simp: enqueue_plan_def split: option.splits if_splits)
  from create_operations [OF c] have "batch_of_operation (br_operation rq) j' = Some b"
    unfolding batch_of_operation_alt ops b by (simp add: find_none_append)
  with assms(2) op show ?thesis by (simp add: enqueue_broadcast_def enqueue_plan_def)
qed

definition demo_call :: "int list \<Rightarrow> enqueue_call" where
  "demo_call users = \<lparr>ec_channel = ''tarot'', ec_users = users, ec_operation = ''op'', ec_mode = ''offer'', ec_force = False, ec_date = None,
    ec_variant = [], ec_parent = None, ec_epochs = None, ec_subscriptions = None, ec_scheduled = False\<rparr>"

definition demo_snapshot :: "int list \<Rightarrow> candidate list" where
  "demo_snapshot = map (\<lambda>r. \<lparr>cd_recipient = r, cd_epoch = Some 0, cd_reason = None, cd_fingerprint = None, cd_claimed_at = None, cd_slot_date = None\<rparr>)"

definition demo_admission :: "string \<Rightarrow> admission_answer" where
  "demo_admission key = \<lparr>aa_state = ''accepted'', aa_task = Some ''t'', aa_reason = None, aa_storage = ''redis''\<rparr>"

section \<open>Scheduled deliveries\<close>

declare chunks_of.simps [simp del]

lemma chunks_of_all:
  assumes "0 < n"
  shows "concat (chunks_of n xs) = xs \<and> list_all (\<lambda>c. 1 \<le> length c \<and> length c \<le> n) (chunks_of n xs)"
  using assms
proof (induction n xs rule: chunks_of.induct)
  case (1 n xs)
  show ?case
  proof (cases "xs = []")
    case True
    then show ?thesis by (simp add: chunks_of.simps)
  next
    case False
    with 1 have "concat (chunks_of n (drop n xs)) = drop n xs" "list_all (\<lambda>c. 1 \<le> length c \<and> length c \<le> n) (chunks_of n (drop n xs))" by auto
    with False 1(2) show ?thesis by (subst (1 2) chunks_of.simps) (cases xs; auto)
  qed
qed

text \<open>The calls cover the users exactly, and none of them is refused for its recipients.\<close>

lemma scheduled_calls_cover:
  assumes "list_all (\<lambda>v. 0 < v \<and> v \<le> 2 ^ 63 - 1) user_ids"
  shows "concat (map (ec_users \<circ> fst) (scheduled_calls sha operation snapshot channel mode date variant user_ids)) = sorted_list_of_set (set user_ids) \<and>
    list_all (\<lambda>c. recipient_ids (ec_users (fst c)) \<noteq> None) (scheduled_calls sha operation snapshot channel mode date variant user_ids)"
proof -
  let ?us = "sorted_list_of_set (set user_ids)"
  have all: "concat (chunks_of 100 ?us) = ?us" "\<And>c. c \<in> set (chunks_of 100 ?us) \<Longrightarrow> 1 \<le> length c \<and> length c \<le> 100"
    using chunks_of_all [of 100 ?us] by (auto simp: list_all_iff)
  have calls: "map (ec_users \<circ> fst) (scheduled_calls sha operation snapshot channel mode date variant user_ids) = chunks_of 100 ?us"
    by (simp add: scheduled_calls_def Let_def comp_def)
  have "recipient_ids (ec_users (fst c)) \<noteq> None" if "c \<in> set (scheduled_calls sha operation snapshot channel mode date variant user_ids)" for c
  proof -
    have c: "ec_users (fst c) \<in> set (chunks_of 100 ?us)" using that calls by (metis comp_apply image_eqI list.set_map)
    then have "set (ec_users (fst c)) \<subseteq> set user_ids" using all(1) by (metis UN_upper finite_set set_concat set_sorted_list_of_set)
    with assms all(2) [OF c] show ?thesis by (auto simp: recipient_ids_def list_all_iff)
  qed
  with all(1) calls show ?thesis by (simp add: list_all_iff)
qed

text \<open>An acknowledged horoscope is not due again on the same local day.\<close>

lemma acknowledged_not_due:
  assumes "acknowledge_horoscope sha show_time variant (Some t) fp (Some u) = (Some u', True)"
    and "(t + offset_of u) div DAY \<ge> (now + offset_of u) div DAY"
  shows "candidate_reason ''horoscope'' ''delivery'' force variant game (Some (u'\<lparr>ur_observed_at := now\<rparr>)) \<noteq> None"
proof -
  have v: "variant = ''today'' \<or> variant = ''tomorrow''" and u': "u' = set_last_sent variant t u"
    using assms(1) by (auto simp: acknowledge_horoscope_def split: if_splits)
  obtain sent where sent: "last_sent_of variant u' = Some sent" "t \<le> sent" "offset_of u' = offset_of u"
    using v by (auto simp: u' set_last_sent_def last_sent_of_def offset_of_def Let_def split: option.splits)
  have "(now + offset_of u) div DAY \<le> (sent + offset_of u) div DAY"
    using assms(2) zdiv_mono1 [of "t + offset_of u" "sent + offset_of u" DAY] sent(2) by simp
  moreover have "last_sent_of variant (u'\<lparr>ur_observed_at := now\<rparr>) = Some sent" "offset_of (u'\<lparr>ur_observed_at := now\<rparr>) = offset_of u"
    using sent by (simp_all add: last_sent_of_def offset_of_def split: if_splits)
  ultimately show ?thesis by (simp add: candidate_reason_def Let_def split: option.split)
qed

end
