(* ===== verification/Llm_Semaphore.thy ===== *)
theory Llm_Semaphore
  imports Prelude
begin

text \<open>
  The semaphore around heavy model calls, class \<open>GlobalLLMSemaphore\<close> of \<^verbatim>\<open>app/adapters/concurrency.py\<close>: at most
  \<open>limit\<close> calls in a process by a local semaphore, and at most \<open>limit\<close> over all processes by a sorted set on Redis whose
  members are leases of \<open>lease_ttl\<close> seconds that their owners renew.

  \<^item> The two Lua scripts are functions on the sorted set; Redis runs them atomically on its own clock. One time line serves
    for all clocks: a process only compares readings of its own monotonic clock, the server only its own.
  \<^item> A command is a message. The server may carry it out late, repeatedly (a client that sends again) or never, and its
    answer may be lost.
  \<^item> A coroutine is cut where it suspends: \<open>__aenter__\<close> into \<open>enter\<close>, \<open>local_grant\<close>, \<open>poll\<close> and the answers, the renewal
    task into \<open>renew_send\<close> and its answers, \<open>__aexit__\<close> into \<open>leave\<close> or \<open>abort\<close> and \<open>close_scope\<close>; what it finally
    raises is \<open>exit_result\<close>. Log records and stage metrics are left out.
\<close>

section \<open>State\<close>

datatype sem_mode = Distributed | LocalFallback

datatype phase =
  WaitingLocal
  | Admitting
  | Asking secs
  | Inside
  | Closing bool
  | Gone

datatype renewal = NoRenewal | Sleeping | Renewing secs

record sem_scope =
  node :: nat
  deadline :: secs
  phase :: phase
  mode :: sem_mode
  on_redis :: bool
  last_confirmed :: "secs option"
  lease_lost :: bool
  renewal :: renewal
  metrics_counted :: bool

text \<open>The counters of one process: free places of the local semaphore are \<open>limit - local_used\<close>.\<close>

record sem_process =
  local_used :: int
  waiting_count :: int
  admission_waiters :: int
  active_distributed :: int
  active_fallback :: int

datatype request = AdmitReq nat secs | RenewReq nat secs | RemReq nat

record sem_world =
  sem_clock :: secs
  leases :: "(nat, secs) dict"
  network :: "request list"
  replies :: "(request \<times> bool) list"
  processes :: "(nat, sem_process) dict"
  scopes :: "(nat, sem_scope) dict"

record sem_config =
  sem_limit :: nat
  sem_timeout :: secs
  lease_ttl :: secs

definition lazy_limit :: "int \<Rightarrow> nat" where
  "lazy_limit setting = nat (max 1 setting)"

definition sem_config_of :: "int \<Rightarrow> secs \<Rightarrow> sem_config" where
  "sem_config_of setting timeout = \<lparr>sem_limit = lazy_limit setting, sem_timeout = timeout, lease_ttl = timeout\<rparr>"

section \<open>The scripts\<close>

definition admit_slot :: "sem_config \<Rightarrow> secs \<Rightarrow> nat \<Rightarrow> (nat, secs) dict \<Rightarrow> (nat, secs) dict \<times> bool" where
  "admit_slot cfg now token z =
    (let live = filter (\<lambda>e. \<not> (0 \<le> snd e \<and> snd e \<le> now - lease_ttl cfg)) z in
     if length live \<ge> sem_limit cfg then (live, False) else (dict_set live token now, True))"

definition renew_slot :: "secs \<Rightarrow> nat \<Rightarrow> (nat, secs) dict \<Rightarrow> (nat, secs) dict \<times> bool" where
  "renew_slot now token z = (if \<not> dict_has z token then (z, False) else (dict_set z token now, True))"

fun serve :: "sem_config \<Rightarrow> secs \<Rightarrow> request \<Rightarrow> (nat, secs) dict \<Rightarrow> (nat, secs) dict \<times> bool" where
  "serve cfg now (AdmitReq token sent) z = admit_slot cfg now token z"
| "serve cfg now (RenewReq token sent) z = renew_slot now token z"
| "serve cfg now (RemReq token) z = (dict_pop z token, True)"

section \<open>Operations\<close>

definition process_of :: "sem_world \<Rightarrow> nat \<Rightarrow> sem_process" where
  "process_of w n =
    (case dict_get (processes w) n of
       Some p \<Rightarrow> p
     | None \<Rightarrow> \<lparr>local_used = 0, waiting_count = 0, admission_waiters = 0, active_distributed = 0, active_fallback = 0\<rparr>)"

definition set_process :: "nat \<Rightarrow> sem_process \<Rightarrow> sem_world \<Rightarrow> sem_world" where
  "set_process n p w = w\<lparr>processes := dict_set (processes w) n p\<rparr>"

definition set_scope :: "nat \<Rightarrow> sem_scope \<Rightarrow> sem_world \<Rightarrow> sem_world" where
  "set_scope i sc w = w\<lparr>scopes := dict_set (scopes w) i sc\<rparr>"

definition send :: "request \<Rightarrow> sem_world \<Rightarrow> sem_world" where
  "send r w = w\<lparr>network := network w @ [r]\<rparr>"

definition count_mode :: "sem_mode \<Rightarrow> int \<Rightarrow> sem_process \<Rightarrow> sem_process" where
  "count_mode m k p =
    (case m of
       Distributed \<Rightarrow> p\<lparr>active_distributed := active_distributed p + k\<rparr>
     | LocalFallback \<Rightarrow> p\<lparr>active_fallback := active_fallback p + k\<rparr>)"

text \<open>\<open>__aenter__\<close> up to the local semaphore; a request that finds too many waiters is turned away at once.\<close>

definition enter :: "sem_config \<Rightarrow> nat \<Rightarrow> nat \<Rightarrow> sem_world \<Rightarrow> sem_world" where
  "enter cfg n i w =
    (if dict_has (scopes w) i then w
     else if waiting_count (process_of w n) \<ge> int (sem_limit cfg) * 3 then w
     else
       (let p = process_of w n in
        set_process n (p\<lparr>waiting_count := waiting_count p + 1, admission_waiters := admission_waiters p + 1\<rparr>)
          (set_scope i \<lparr>node = n, deadline = sem_clock w + sem_timeout cfg, phase = WaitingLocal, mode = LocalFallback, on_redis = False,
             last_confirmed = None, lease_lost = False, renewal = NoRenewal, metrics_counted = False\<rparr> w)))"

text \<open>The end of a successful \<open>__aenter__\<close>.\<close>

definition go_inside :: "nat \<Rightarrow> sem_scope \<Rightarrow> sem_world \<Rightarrow> sem_world" where
  "go_inside i sc w =
    (let p = process_of w (node sc) in
     set_process (node sc) (count_mode (mode sc) 1 (p\<lparr>admission_waiters := admission_waiters p - 1\<rparr>))
       (set_scope i (sc\<lparr>phase := Inside, metrics_counted := True\<rparr>) w))"

definition local_grant :: "sem_config \<Rightarrow> bool \<Rightarrow> nat \<Rightarrow> sem_world \<Rightarrow> sem_world" where
  "local_grant cfg redis i w =
    (case dict_get (scopes w) i of
       Some sc \<Rightarrow>
        (let p = process_of w (node sc) in
         if phase sc = WaitingLocal \<and> local_used p < int (sem_limit cfg) \<and> sem_clock w < deadline sc
         then
           (let w1 = set_process (node sc) (p\<lparr>waiting_count := waiting_count p - 1, local_used := local_used p + 1\<rparr>) w;
                sc1 = sc\<lparr>phase := Admitting, on_redis := redis, mode := (if redis then Distributed else LocalFallback)\<rparr>
            in if redis then set_scope i sc1 w1 else go_inside i sc1 w1)
         else w)
     | None \<Rightarrow> w)"

text \<open>Giving up before the local slot: the timeout or a cancellation.\<close>

definition local_give_up :: "nat \<Rightarrow> sem_world \<Rightarrow> sem_world" where
  "local_give_up i w =
    (case dict_get (scopes w) i of
       Some sc \<Rightarrow>
        (if phase sc = WaitingLocal
         then
           (let p = process_of w (node sc) in
            set_process (node sc) (p\<lparr>waiting_count := waiting_count p - 1, admission_waiters := admission_waiters p - 1\<rparr>)
              (set_scope i (sc\<lparr>phase := Gone\<rparr>) w))
         else w)
     | None \<Rightarrow> w)"

text \<open>A failed \<open>__aenter__\<close> runs \<open>__aexit__\<close> itself.\<close>

definition abort :: "nat \<Rightarrow> sem_scope \<Rightarrow> sem_world \<Rightarrow> sem_world" where
  "abort i sc w =
    (let w1 = set_scope i (sc\<lparr>phase := Closing False, renewal := NoRenewal\<rparr>) w
     in if on_redis sc then send (RemReq i) w1 else w1)"

definition cancel_admission :: "nat \<Rightarrow> sem_world \<Rightarrow> sem_world" where
  "cancel_admission i w =
    (case dict_get (scopes w) i of
       Some sc \<Rightarrow> (case phase sc of Admitting \<Rightarrow> abort i sc w | Asking t \<Rightarrow> abort i sc w | _ \<Rightarrow> w)
     | None \<Rightarrow> w)"

definition poll :: "nat \<Rightarrow> sem_world \<Rightarrow> sem_world" where
  "poll i w =
    (case dict_get (scopes w) i of
       Some sc \<Rightarrow>
        (if phase sc = Admitting
         then (if sem_clock w \<ge> deadline sc then abort i sc w
               else send (AdmitReq i (sem_clock w)) (set_scope i (sc\<lparr>phase := Asking (sem_clock w)\<rparr>) w))
         else w)
     | None \<Rightarrow> w)"

definition admit_reply :: "sem_config \<Rightarrow> nat \<Rightarrow> bool \<Rightarrow> sem_world \<Rightarrow> sem_world" where
  "admit_reply cfg i admitted w =
    (case dict_get (scopes w) i of
       Some sc \<Rightarrow>
        (case phase sc of
           Asking started \<Rightarrow>
            (if (AdmitReq i started, admitted) \<notin> set (replies w) then w
             else if sem_clock w \<ge> deadline sc then abort i sc w
             else if \<not> admitted then set_scope i (sc\<lparr>phase := Admitting\<rparr>) w
             else if sem_clock w \<ge> started + lease_ttl cfg
             then abort i (sc\<lparr>last_confirmed := Some started, mode := Distributed, lease_lost := True\<rparr>) w
             else go_inside i (sc\<lparr>last_confirmed := Some started, mode := Distributed, renewal := Sleeping\<rparr>) w)
         | _ \<Rightarrow> w)
     | None \<Rightarrow> w)"

definition admit_error :: "nat \<Rightarrow> sem_world \<Rightarrow> sem_world" where
  "admit_error i w =
    (case dict_get (scopes w) i of
       Some sc \<Rightarrow>
        (case phase sc of
           Asking started \<Rightarrow>
            (if sem_clock w \<ge> deadline sc then abort i sc w else go_inside i (sc\<lparr>mode := LocalFallback\<rparr>) w)
         | _ \<Rightarrow> w)
     | None \<Rightarrow> w)"

section \<open>Renewal\<close>

definition safe_until :: "sem_config \<Rightarrow> sem_scope \<Rightarrow> secs" where
  "safe_until cfg sc = the (last_confirmed sc) + lease_ttl cfg"

definition lose_lease :: "sem_scope \<Rightarrow> sem_scope" where
  "lose_lease sc = sc\<lparr>lease_lost := True, renewal := NoRenewal\<rparr>"

definition renew_send :: "sem_config \<Rightarrow> nat \<Rightarrow> sem_world \<Rightarrow> sem_world" where
  "renew_send cfg i w =
    (case dict_get (scopes w) i of
       Some sc \<Rightarrow>
        (if phase sc = Inside \<and> renewal sc = Sleeping
         then (if sem_clock w \<ge> safe_until cfg sc then set_scope i (lose_lease sc) w
               else send (RenewReq i (sem_clock w)) (set_scope i (sc\<lparr>renewal := Renewing (sem_clock w)\<rparr>) w))
         else w)
     | None \<Rightarrow> w)"

definition renew_reply :: "sem_config \<Rightarrow> nat \<Rightarrow> bool \<Rightarrow> sem_world \<Rightarrow> sem_world" where
  "renew_reply cfg i renewed w =
    (case dict_get (scopes w) i of
       Some sc \<Rightarrow>
        (case renewal sc of
           Renewing started \<Rightarrow>
            (if phase sc \<noteq> Inside \<or> (RenewReq i started, renewed) \<notin> set (replies w) then w
             else if sem_clock w \<ge> safe_until cfg sc then set_scope i (lose_lease sc) w
             else if \<not> renewed then set_scope i (lose_lease sc) w
             else set_scope i (sc\<lparr>last_confirmed := Some started, renewal := Sleeping\<rparr>) w)
         | _ \<Rightarrow> w)
     | None \<Rightarrow> w)"

definition renew_error :: "sem_config \<Rightarrow> nat \<Rightarrow> sem_world \<Rightarrow> sem_world" where
  "renew_error cfg i w =
    (case dict_get (scopes w) i of
       Some sc \<Rightarrow>
        (case renewal sc of
           Renewing started \<Rightarrow>
            (if phase sc \<noteq> Inside then w
             else if sem_clock w \<ge> safe_until cfg sc then set_scope i (lose_lease sc) w
             else set_scope i (sc\<lparr>renewal := Sleeping\<rparr>) w)
         | _ \<Rightarrow> w)
     | None \<Rightarrow> w)"

section \<open>Leaving\<close>

definition leave :: "nat \<Rightarrow> sem_world \<Rightarrow> sem_world" where
  "leave i w =
    (case dict_get (scopes w) i of
       Some sc \<Rightarrow>
        (if phase sc = Inside
         then
           (let w1 = set_scope i (sc\<lparr>phase := Closing True, renewal := NoRenewal\<rparr>) w
            in if on_redis sc then send (RemReq i) w1 else w1)
         else w)
     | None \<Rightarrow> w)"

text \<open>The \<open>finally\<close> part of \<open>__aexit__\<close> and, for a failed entry, of \<open>__aenter__\<close>.\<close>

definition close_scope :: "nat \<Rightarrow> sem_world \<Rightarrow> sem_world" where
  "close_scope i w =
    (case dict_get (scopes w) i of
       Some sc \<Rightarrow>
        (case phase sc of
           Closing entered \<Rightarrow>
            (let p = process_of w (node sc);
                 p1 = p\<lparr>local_used := local_used p - 1\<rparr>;
                 p2 = (if metrics_counted sc then count_mode (mode sc) (-1) p1 else p1);
                 p3 = (if entered then p2 else p2\<lparr>admission_waiters := admission_waiters p2 - 1\<rparr>)
             in set_process (node sc) p3 (set_scope i (sc\<lparr>phase := Gone, metrics_counted := False\<rparr>) w))
         | _ \<Rightarrow> w)
     | None \<Rightarrow> w)"

section \<open>Runs\<close>

datatype sem_event =
  Enter nat nat
  | LocalGrant bool nat
  | LocalGiveUp nat
  | CancelAdmission nat
  | Poll nat
  | Execute request
  | AdmitReply nat bool
  | AdmitError nat
  | RenewSend nat
  | RenewReply nat bool
  | RenewError nat
  | Leave nat
  | Closed nat

definition execute :: "sem_config \<Rightarrow> request \<Rightarrow> sem_world \<Rightarrow> sem_world" where
  "execute cfg r w =
    (if r \<in> set (network w)
     then (let (z, ok) = serve cfg (sem_clock w) r (leases w) in w\<lparr>leases := z, replies := replies w @ [(r, ok)]\<rparr>)
     else w)"

fun sem_act :: "sem_config \<Rightarrow> sem_event \<Rightarrow> sem_world \<Rightarrow> sem_world" where
  "sem_act cfg (Enter n i) w = enter cfg n i w"
| "sem_act cfg (LocalGrant redis i) w = local_grant cfg redis i w"
| "sem_act cfg (LocalGiveUp i) w = local_give_up i w"
| "sem_act cfg (CancelAdmission i) w = cancel_admission i w"
| "sem_act cfg (Poll i) w = poll i w"
| "sem_act cfg (Execute r) w = execute cfg r w"
| "sem_act cfg (AdmitReply i ok) w = admit_reply cfg i ok w"
| "sem_act cfg (AdmitError i) w = admit_error i w"
| "sem_act cfg (RenewSend i) w = renew_send cfg i w"
| "sem_act cfg (RenewReply i ok) w = renew_reply cfg i ok w"
| "sem_act cfg (RenewError i) w = renew_error cfg i w"
| "sem_act cfg (Leave i) w = leave i w"
| "sem_act cfg (Closed i) w = close_scope i w"

text \<open>Time does not run backwards.\<close>

definition sem_step :: "sem_config \<Rightarrow> sem_world \<Rightarrow> secs \<times> sem_event \<Rightarrow> sem_world" where
  "sem_step cfg w e = (if fst e < sem_clock w then w else sem_act cfg (snd e) (w\<lparr>sem_clock := fst e\<rparr>))"

definition sem_init :: sem_world where
  "sem_init = \<lparr>sem_clock = 0, leases = [], network = [], replies = [], processes = [], scopes = []\<rparr>"

section \<open>Leases\<close>

fun sent_at :: "request \<Rightarrow> secs" where
  "sent_at (AdmitReq i t) = t"
| "sent_at (RenewReq i t) = t"
| "sent_at (RemReq i) = 0"

fun over :: "phase \<Rightarrow> bool" where
  "over (Closing b) = True"
| "over Gone = True"
| "over _ = False"

definition confirmed :: "nat \<Rightarrow> secs \<Rightarrow> sem_world \<Rightarrow> bool" where
  "confirmed i t w \<longleftrightarrow> (AdmitReq i t, True) \<in> set (replies w) \<or> (RenewReq i t, True) \<in> set (replies w)"

text \<open>While a lease confirmed by a command sent at \<open>t\<close> is valid for its owner, the server has it, at least as fresh.\<close>

definition safe_lease :: "sem_config \<Rightarrow> nat \<Rightarrow> secs \<Rightarrow> sem_world \<Rightarrow> bool" where
  "safe_lease cfg i t w \<longleftrightarrow> (sem_clock w < t + lease_ttl cfg \<longrightarrow> (\<exists>x. dict_get (leases w) i = Some x \<and> t \<le> x))"

definition server_ok :: "sem_config \<Rightarrow> sem_world \<Rightarrow> bool" where
  "server_ok cfg w \<longleftrightarrow>
    dict_ok (leases w) \<and> length (leases w) \<le> sem_limit cfg \<and> 0 \<le> sem_clock w \<and>
    (\<forall>r \<in> set (network w). sent_at r \<le> sem_clock w) \<and> (\<forall>e \<in> set (replies w). fst e \<in> set (network w)) \<and>
    (\<forall>i t. confirmed i t w \<longrightarrow> RemReq i \<notin> set (network w) \<longrightarrow> safe_lease cfg i t w)"

definition owners_ok :: "sem_world \<Rightarrow> bool" where
  "owners_ok w \<longleftrightarrow>
    (\<forall>i. RemReq i \<in> set (network w) \<longrightarrow> (\<exists>sc. dict_get (scopes w) i = Some sc \<and> over (phase sc))) \<and>
    (\<forall>i sc. dict_get (scopes w) i = Some sc \<longrightarrow> phase sc = Inside \<longrightarrow> mode sc = Distributed \<longrightarrow>
      (\<exists>c. last_confirmed sc = Some c \<and> confirmed i c w))"

lemma length_dict_set_exact: "length (dict_set d k v) = (if dict_has d k then length d else Suc (length d))"
  by (induction d k v rule: dict_set.induct) (auto simp: dict_has_def)

lemma serve_keeps_ok:
  assumes "dict_ok z" and "length z \<le> sem_limit cfg"
  shows "dict_ok (fst (serve cfg now r z)) \<and> length (fst (serve cfg now r z)) \<le> sem_limit cfg"
proof (cases r)
  case (AdmitReq i t)
  define live where "live = filter (\<lambda>e. \<not> (0 \<le> snd e \<and> snd e \<le> now - lease_ttl cfg)) z"
  have "dict_ok live" "length live \<le> sem_limit cfg"
    using assms by (simp_all add: live_def le_trans [OF length_filter_le])
  then show ?thesis unfolding AdmitReq serve.simps admit_slot_def live_def [symmetric] Let_def by (simp add: length_dict_set_exact)
next
  case (RenewReq i t)
  with assms show ?thesis by (simp add: renew_slot_def length_dict_set_exact)
next
  case (RemReq i)
  with assms show ?thesis by (auto simp: dict_pop_def intro: le_trans [OF length_filter_le])
qed

text \<open>The server keeps every lease that is still valid, and answers with a fresh one.\<close>

lemma serve_keeps_lease:
  assumes "dict_ok z" and "dict_get z i = Some x" and "t \<le> x" and "now < t + lease_ttl cfg" and "t \<le> now" and "r \<noteq> RemReq i"
  shows "\<exists>y. dict_get (fst (serve cfg now r z)) i = Some y \<and> t \<le> y"
proof (cases r)
  case (AdmitReq j t')
  have "\<not> x \<le> now - lease_ttl cfg" using assms(3,4) by simp
  then show ?thesis using AdmitReq assms by (auto simp: admit_slot_def Let_def dict_get_filter)
qed (use assms in \<open>auto simp: renew_slot_def\<close>)

lemma serve_confirms:
  assumes "r = AdmitReq i t \<or> r = RenewReq i t" and "snd (serve cfg now r z)"
  shows "dict_get (fst (serve cfg now r z)) i = Some now"
  using assms by (auto simp: admit_slot_def renew_slot_def Let_def split: if_splits)

lemma confirmed_execute:
  "confirmed i t (w\<lparr>leases := z, replies := replies w @ [(r, ok)]\<rparr>) \<longleftrightarrow>
    confirmed i t w \<or> (r = AdmitReq i t \<or> r = RenewReq i t) \<and> ok"
  by (auto simp: confirmed_def)

lemma execute_ok:
  assumes ok: "server_ok cfg w"
  shows "server_ok cfg (execute cfg r w)"
proof (cases "r \<in> set (network w)")
  case False
  with ok show ?thesis by (simp add: execute_def)
next
  case r: True
  obtain z b where z: "serve cfg (sem_clock w) r (leases w) = (z, b)" by fastforce
  let ?w = "w\<lparr>leases := z, replies := replies w @ [(r, b)]\<rparr>"
  have d: "dict_ok (leases w)" "length (leases w) \<le> sem_limit cfg" and pos: "0 \<le> sem_clock w"
    and sent: "\<And>q. q \<in> set (network w) \<Longrightarrow> sent_at q \<le> sem_clock w" and rep: "\<And>e. e \<in> set (replies w) \<Longrightarrow> fst e \<in> set (network w)"
    and safe: "\<And>i t. confirmed i t w \<Longrightarrow> RemReq i \<notin> set (network w) \<Longrightarrow> safe_lease cfg i t w"
    using ok by (auto simp: server_ok_def)
  have "safe_lease cfg i t ?w" if c: "confirmed i t ?w" and n: "RemReq i \<notin> set (network w)" for i t
  proof (cases "(r = AdmitReq i t \<or> r = RenewReq i t) \<and> b")
    case True
    then have "dict_get z i = Some (sem_clock w)" using serve_confirms [of r i t cfg "sem_clock w" "leases w"] z by auto
    moreover have "t \<le> sem_clock w" using sent [OF r] True by auto
    ultimately show ?thesis by (simp add: safe_lease_def)
  next
    case False
    then have old: "confirmed i t w" using c confirmed_execute by blast
    then have "t \<le> sem_clock w" using sent rep unfolding confirmed_def by (metis fst_conv sent_at.simps(1,2))
    then show ?thesis
      using safe [OF old n] serve_keeps_lease [OF d(1), of i _ t "sem_clock w" cfg r] n r z by (auto simp: safe_lease_def)
  qed
  moreover have "dict_ok z \<and> length z \<le> sem_limit cfg" using serve_keeps_ok [OF d, of "sem_clock w" r] z by simp
  ultimately have "server_ok cfg ?w" using pos sent rep r by (auto simp: server_ok_def)
  then show ?thesis using z r by (simp add: execute_def)
qed

lemma execute_owners: "owners_ok w \<Longrightarrow> owners_ok (execute cfg r w)"
  by (fastforce simp: owners_ok_def execute_def confirmed_def split: prod.split)

text \<open>Everything else happens in the processes: one scope changes, and commands are sent.\<close>

lemma client_ok:
  assumes ok: "server_ok cfg w" "owners_ok w"
    and same: "leases w' = leases w" "replies w' = replies w" "sem_clock w' = sem_clock w"
    and net: "network w' = network w @ rs" "\<forall>r \<in> set rs. sent_at r \<le> sem_clock w"
      "\<forall>j. RemReq j \<in> set rs \<longrightarrow> j = i \<and> over (phase sc)"
    and scs: "scopes w' = dict_set (scopes w) i sc" "RemReq i \<in> set (network w) \<longrightarrow> over (phase sc)"
      "phase sc = Inside \<longrightarrow> mode sc = Distributed \<longrightarrow> (\<exists>c. last_confirmed sc = Some c \<and> confirmed i c w)"
  shows "server_ok cfg w' \<and> owners_ok w'"
proof -
  have c: "confirmed j t w' = confirmed j t w" for j t using same by (simp add: confirmed_def)
  have l: "safe_lease cfg j t w' = safe_lease cfg j t w" for j t using same by (simp add: safe_lease_def)
  have "server_ok cfg w'" using ok(1) net(2) unfolding server_ok_def c l same net(1) by auto
  moreover have "owners_ok w'" using ok(2) net(3) scs(2,3) unfolding owners_ok_def c net(1) scs(1) by (auto split: if_splits)
  ultimately show ?thesis ..
qed

lemma set_process_fields [simp]:
  "leases (set_process n p w) = leases w" "replies (set_process n p w) = replies w" "sem_clock (set_process n p w) = sem_clock w"
  "network (set_process n p w) = network w" "scopes (set_process n p w) = scopes w"
  by (simp_all add: set_process_def)

lemma set_scope_fields [simp]:
  "leases (set_scope i sc w) = leases w" "replies (set_scope i sc w) = replies w" "sem_clock (set_scope i sc w) = sem_clock w"
  "network (set_scope i sc w) = network w" "scopes (set_scope i sc w) = dict_set (scopes w) i sc"
  "processes (set_scope i sc w) = processes w"
  by (simp_all add: set_scope_def)

lemma send_fields [simp]:
  "leases (send r w) = leases w" "replies (send r w) = replies w" "sem_clock (send r w) = sem_clock w"
  "network (send r w) = network w @ [r]" "scopes (send r w) = scopes w" "processes (send r w) = processes w"
  by (simp_all add: send_def)

lemma go_inside_fields [simp]:
  "leases (go_inside i sc w) = leases w" "replies (go_inside i sc w) = replies w" "sem_clock (go_inside i sc w) = sem_clock w"
  "network (go_inside i sc w) = network w" "scopes (go_inside i sc w) = dict_set (scopes w) i (sc\<lparr>phase := Inside, metrics_counted := True\<rparr>)"
  by (simp_all add: go_inside_def Let_def)

lemma abort_ok:
  assumes ok: "server_ok cfg w" "owners_ok w"
  shows "server_ok cfg (abort i sc w) \<and> owners_ok (abort i sc w)"
  by (rule client_ok [OF ok, where rs = "if on_redis sc then [RemReq i] else []" and i = i and sc = "sc\<lparr>phase := Closing False, renewal := NoRenewal\<rparr>"])
    (use ok(1) in \<open>auto simp: abort_def Let_def server_ok_def split: if_splits\<close>)

lemma set_scope_ok:
  assumes ok: "server_ok cfg w" "owners_ok w" and "RemReq i \<in> set (network w) \<longrightarrow> over (phase sc)"
    and "phase sc = Inside \<longrightarrow> mode sc = Distributed \<longrightarrow> (\<exists>c. last_confirmed sc = Some c \<and> confirmed i c w)"
  shows "server_ok cfg (set_scope i sc w) \<and> owners_ok (set_scope i sc w)"
  by (rule client_ok [OF ok, where rs = "[]" and i = i and sc = sc]) (use assms in simp_all)

lemma go_inside_ok:
  assumes ok: "server_ok cfg w" "owners_ok w" and "RemReq i \<notin> set (network w)"
    and "mode sc = Distributed \<longrightarrow> (\<exists>c. last_confirmed sc = Some c \<and> confirmed i c w)"
  shows "server_ok cfg (go_inside i sc w) \<and> owners_ok (go_inside i sc w)"
  by (rule client_ok [OF ok, where rs = "[]" and i = i and sc = "sc\<lparr>phase := Inside, metrics_counted := True\<rparr>"]) (use assms in simp_all)

lemma set_process_ok:
  "server_ok cfg (set_process n p w) \<longleftrightarrow> server_ok cfg w" "owners_ok (set_process n p w) \<longleftrightarrow> owners_ok w"
  by (simp_all add: server_ok_def owners_ok_def confirmed_def safe_lease_def)

lemma live_not_removed:
  assumes "owners_ok w" and "dict_get (scopes w) i = Some sc" and "\<not> over (phase sc)"
  shows "RemReq i \<notin> set (network w)"
  using assms by (auto simp: owners_ok_def)

lemma fresh_not_removed: "owners_ok w \<Longrightarrow> \<not> dict_has (scopes w) i \<Longrightarrow> RemReq i \<notin> set (network w)"
  by (auto simp: owners_ok_def dict_has_def)

lemma inside_confirmed:
  assumes "owners_ok w" and "dict_get (scopes w) i = Some sc" and "phase sc = Inside" and "mode sc = Distributed"
  shows "\<exists>c. last_confirmed sc = Some c \<and> confirmed i c w"
  using assms by (auto simp: owners_ok_def)

lemma poll_ok:
  assumes ok: "server_ok cfg w" "owners_ok w"
  shows "server_ok cfg (poll i w) \<and> owners_ok (poll i w)"
proof (cases "dict_get (scopes w) i")
  case (Some sc)
  show ?thesis
  proof (cases "phase sc = Admitting \<and> sem_clock w < deadline sc")
    case True
    then have "RemReq i \<notin> set (network w)" using live_not_removed [OF ok(2) Some] by simp
    then show ?thesis
      using client_ok [OF ok, where w' = "poll i w" and i = i and sc = "sc\<lparr>phase := Asking (sem_clock w)\<rparr>" and rs = "[AdmitReq i (sem_clock w)]"] Some True
      by (simp add: poll_def)
  next
    case False
    with Some ok abort_ok [OF ok] show ?thesis by (auto simp: poll_def)
  qed
qed (use ok in \<open>simp add: poll_def\<close>)

lemma renew_send_ok:
  assumes ok: "server_ok cfg w" "owners_ok w"
  shows "server_ok cfg (renew_send cfg i w) \<and> owners_ok (renew_send cfg i w)"
proof (cases "dict_get (scopes w) i")
  case (Some sc)
  show ?thesis
  proof (cases "phase sc = Inside \<and> renewal sc = Sleeping")
    case True
    then have no: "RemReq i \<notin> set (network w)" using live_not_removed [OF ok(2) Some] by simp
    have conf: "mode sc = Distributed \<longrightarrow> (\<exists>c. last_confirmed sc = Some c \<and> confirmed i c w)"
      using inside_confirmed [OF ok(2) Some] True by simp
    show ?thesis
    proof (cases "sem_clock w \<ge> safe_until cfg sc")
      case lost: True
      have "server_ok cfg (set_scope i (lose_lease sc) w) \<and> owners_ok (set_scope i (lose_lease sc) w)"
        by (rule set_scope_ok [OF ok]) (use no conf in \<open>simp_all add: lose_lease_def\<close>)
      with True Some lost show ?thesis by (simp add: renew_send_def)
    next
      case False
      with client_ok [OF ok, where w' = "renew_send cfg i w" and i = i and sc = "sc\<lparr>renewal := Renewing (sem_clock w)\<rparr>" and rs = "[RenewReq i (sem_clock w)]"]
        Some True no conf show ?thesis by (simp add: renew_send_def)
    qed
  next
    case False
    with Some ok show ?thesis by (auto simp: renew_send_def)
  qed
qed (use ok in \<open>simp add: renew_send_def\<close>)

lemma renew_answer_ok:
  assumes ok: "server_ok cfg w" "owners_ok w"
  shows "server_ok cfg (renew_reply cfg i b w) \<and> owners_ok (renew_reply cfg i b w)"
    and "server_ok cfg (renew_error cfg i w) \<and> owners_ok (renew_error cfg i w)"
proof -
  have keep: "server_ok cfg (set_scope i sc' w) \<and> owners_ok (set_scope i sc' w)"
    if sc: "dict_get (scopes w) i = Some sc" "phase sc = Inside"
      and new: "phase sc' = Inside" "mode sc' = mode sc" "last_confirmed sc' = last_confirmed sc \<or> (\<exists>t. last_confirmed sc' = Some t \<and> confirmed i t w)"
    for sc sc'
  proof (rule set_scope_ok [OF ok])
    show "RemReq i \<in> set (network w) \<longrightarrow> over (phase sc')" using live_not_removed [OF ok(2) sc(1)] sc(2) by simp
    show "phase sc' = Inside \<longrightarrow> mode sc' = Distributed \<longrightarrow> (\<exists>c. last_confirmed sc' = Some c \<and> confirmed i c w)"
      using inside_confirmed [OF ok(2) sc] new by auto
  qed
  show "server_ok cfg (renew_reply cfg i b w) \<and> owners_ok (renew_reply cfg i b w)"
    using ok keep by (auto simp: renew_reply_def lose_lease_def confirmed_def split: option.split renewal.split)
  show "server_ok cfg (renew_error cfg i w) \<and> owners_ok (renew_error cfg i w)"
    using ok keep by (auto simp: renew_error_def lose_lease_def split: option.split renewal.split)
qed

lemma sem_entry_ok:
  assumes ok: "server_ok cfg w" "owners_ok w"
  shows "server_ok cfg (enter cfg n i w) \<and> owners_ok (enter cfg n i w)"
    and "server_ok cfg (local_grant cfg redis i w) \<and> owners_ok (local_grant cfg redis i w)"
    and "server_ok cfg (local_give_up i w) \<and> owners_ok (local_give_up i w)"
    and "server_ok cfg (cancel_admission i w) \<and> owners_ok (cancel_admission i w)"
proof -
  show "server_ok cfg (enter cfg n i w) \<and> owners_ok (enter cfg n i w)"
    using set_scope_ok [OF ok] fresh_not_removed [OF ok(2), of i] ok by (auto simp: enter_def Let_def set_process_ok)
  show "server_ok cfg (local_grant cfg redis i w) \<and> owners_ok (local_grant cfg redis i w)"
  proof (cases "dict_get (scopes w) i")
    case (Some sc)
    let ?w = "set_process (node sc) (process_of w (node sc)\<lparr>waiting_count := waiting_count (process_of w (node sc)) - 1,
        local_used := local_used (process_of w (node sc)) + 1\<rparr>) w"
    have w: "server_ok cfg ?w" "owners_ok ?w" using ok by (simp_all add: set_process_ok)
    have "RemReq i \<notin> set (network w)" if "phase sc = WaitingLocal"
      using live_not_removed [OF ok(2) Some] that by simp
    then show ?thesis
      using Some ok set_scope_ok [OF w, of i] go_inside_ok [OF w, of i] by (auto simp: local_grant_def Let_def)
  qed (use ok in \<open>simp add: local_grant_def\<close>)
  show "server_ok cfg (local_give_up i w) \<and> owners_ok (local_give_up i w)"
    using set_scope_ok [OF ok] ok by (auto simp: local_give_up_def Let_def set_process_ok split: option.split)
  show "server_ok cfg (cancel_admission i w) \<and> owners_ok (cancel_admission i w)"
    using abort_ok [OF ok] ok by (auto simp: cancel_admission_def split: option.split phase.split)
qed

lemma admission_ok:
  assumes ok: "server_ok cfg w" "owners_ok w"
  shows "server_ok cfg (admit_reply cfg i b w) \<and> owners_ok (admit_reply cfg i b w)"
    and "server_ok cfg (admit_error i w) \<and> owners_ok (admit_error i w)"
proof -
  have no: "RemReq i \<notin> set (network w)" if "dict_get (scopes w) i = Some sc" "phase sc = Asking t" for sc t
    using live_not_removed [OF ok(2) that(1)] that(2) by simp
  show "server_ok cfg (admit_reply cfg i b w) \<and> owners_ok (admit_reply cfg i b w)"
    using ok abort_ok [OF ok] set_scope_ok [OF ok] go_inside_ok [OF ok] no
    by (auto simp: admit_reply_def confirmed_def split: option.split phase.split)
  show "server_ok cfg (admit_error i w) \<and> owners_ok (admit_error i w)"
    using ok abort_ok [OF ok] go_inside_ok [OF ok] no by (auto simp: admit_error_def split: option.split phase.split)
qed

lemma leave_ok:
  assumes ok: "server_ok cfg w" "owners_ok w"
  shows "server_ok cfg (leave i w) \<and> owners_ok (leave i w)" and "server_ok cfg (close_scope i w) \<and> owners_ok (close_scope i w)"
proof -
  show "server_ok cfg (close_scope i w) \<and> owners_ok (close_scope i w)"
    using set_scope_ok [OF ok] ok by (auto simp: close_scope_def Let_def set_process_ok split: option.split phase.split)
  show "server_ok cfg (leave i w) \<and> owners_ok (leave i w)"
  proof (cases "\<exists>sc. dict_get (scopes w) i = Some sc \<and> phase sc = Inside")
    case True
    then obtain sc where sc: "dict_get (scopes w) i = Some sc" "phase sc = Inside" by blast
    have "0 \<le> sem_clock w" using ok(1) by (simp add: server_ok_def)
    with client_ok [OF ok, where w' = "leave i w" and i = i and sc = "sc\<lparr>phase := Closing True, renewal := NoRenewal\<rparr>" and
        rs = "if on_redis sc then [RemReq i] else []"] sc
    show ?thesis by (auto simp: leave_def Let_def split: if_splits)
  next
    case False
    with ok show ?thesis by (auto simp: leave_def split: option.split)
  qed
qed

lemma sem_step_ok:
  assumes ok: "server_ok cfg w" "owners_ok w"
  shows "server_ok cfg (sem_step cfg w e) \<and> owners_ok (sem_step cfg w e)"
proof (cases "fst e < sem_clock w")
  case True
  with ok show ?thesis by (simp add: sem_step_def)
next
  case False
  let ?w = "w\<lparr>sem_clock := fst e\<rparr>"
  have "server_ok cfg ?w" using ok(1) False by (force simp: server_ok_def confirmed_def safe_lease_def)
  moreover have "owners_ok ?w" using ok(2) by (simp add: owners_ok_def confirmed_def)
  ultimately have "server_ok cfg (sem_act cfg (snd e) ?w) \<and> owners_ok (sem_act cfg (snd e) ?w)"
    using sem_entry_ok admission_ok leave_ok poll_ok renew_send_ok renew_answer_ok execute_ok
    execute_owners by (cases "snd e") auto
  with False show ?thesis by (simp add: sem_step_def)
qed

interpretation sl: invariant_run "sem_step cfg" "\<lambda>w. server_ok cfg w \<and> owners_ok w" for cfg
  by unfold_locales (use sem_step_ok in blast)

lemma sem_init_ok: "server_ok cfg sem_init" "owners_ok sem_init"
  by (simp_all add: server_ok_def owners_ok_def sem_init_def confirmed_def)

text \<open>The bodies that run under a lease their owner may rely on now.\<close>

definition valid_holder :: "sem_config \<Rightarrow> secs \<Rightarrow> sem_scope \<Rightarrow> bool" where
  "valid_holder cfg now sc \<longleftrightarrow> phase sc = Inside \<and> mode sc = Distributed \<and> now < safe_until cfg sc"

lemma holders_bounded:
  assumes ok: "server_ok cfg w" "owners_ok w" and d: "dict_ok (scopes w)"
  shows "length (filter (\<lambda>e. valid_holder cfg (sem_clock w) (snd e)) (scopes w)) \<le> sem_limit cfg"
proof -
  let ?hs = "filter (\<lambda>e. valid_holder cfg (sem_clock w) (snd e)) (scopes w)"
  have "i \<in> set (dict_keys (leases w))" if "(i, sc) \<in> set ?hs" for i sc
  proof -
    have sc: "dict_get (scopes w) i = Some sc" and v: "valid_holder cfg (sem_clock w) sc"
      using that by (auto simp: dict_ok_in_iff [OF d])
    obtain c where c: "last_confirmed sc = Some c" "confirmed i c w"
      using inside_confirmed [OF ok(2) sc] v by (auto simp: valid_holder_def)
    have "RemReq i \<notin> set (network w)" using live_not_removed [OF ok(2) sc] v by (simp add: valid_holder_def)
    with ok(1) c(2) have "safe_lease cfg i c w" by (simp add: server_ok_def)
    then show ?thesis using v c(1) by (auto simp: safe_lease_def valid_holder_def safe_until_def set_dict_keys_iff)
  qed
  then have sub: "set (map fst ?hs) \<subseteq> set (dict_keys (leases w))" by auto
  have "distinct (map fst ?hs)" using d by (simp add: dict_ok_def dict_keys_def distinct_map_filter)
  then have "length ?hs = card (set (map fst ?hs))" using distinct_card [of "map fst ?hs"] by simp
  also have "\<dots> \<le> card (set (dict_keys (leases w)))" by (rule card_mono [OF _ sub]) simp
  also have "\<dots> \<le> length (leases w)" by (metis card_length dict_keys_def length_map)
  also have "\<dots> \<le> sem_limit cfg" using ok(1) by (simp add: server_ok_def)
  finally show ?thesis .
qed

section \<open>Counters\<close>

fun holds_slot :: "phase \<Rightarrow> bool" where
  "holds_slot WaitingLocal = False"
| "holds_slot Gone = False"
| "holds_slot _ = True"

fun entering :: "phase \<Rightarrow> bool" where
  "entering Inside = False"
| "entering Gone = False"
| "entering (Closing entered) = (\<not> entered)"
| "entering _ = True"

fun entered_body :: "phase \<Rightarrow> bool" where
  "entered_body Inside = True"
| "entered_body (Closing entered) = entered"
| "entered_body _ = False"

definition count_at :: "nat \<Rightarrow> (sem_scope \<Rightarrow> bool) \<Rightarrow> sem_world \<Rightarrow> int" where
  "count_at n P w = dict_sum (\<lambda>sc. of_bool (node sc = n \<and> P sc)) (scopes w)"

definition process_ok :: "sem_config \<Rightarrow> nat \<Rightarrow> sem_process \<Rightarrow> sem_world \<Rightarrow> bool" where
  "process_ok cfg n p w \<longleftrightarrow>
    local_used p = count_at n (\<lambda>sc. holds_slot (phase sc)) w \<and> local_used p \<le> int (sem_limit cfg) \<and>
    waiting_count p = count_at n (\<lambda>sc. phase sc = WaitingLocal) w \<and> waiting_count p \<le> int (sem_limit cfg) * 3 \<and>
    admission_waiters p = count_at n (\<lambda>sc. entering (phase sc)) w \<and>
    active_distributed p = count_at n (\<lambda>sc. entered_body (phase sc) \<and> mode sc = Distributed) w \<and>
    active_fallback p = count_at n (\<lambda>sc. entered_body (phase sc) \<and> mode sc = LocalFallback) w"

definition counters_ok :: "sem_config \<Rightarrow> sem_world \<Rightarrow> bool" where
  "counters_ok cfg w \<longleftrightarrow>
    dict_ok (scopes w) \<and> (\<forall>n. process_ok cfg n (process_of w n) w) \<and>
    (\<forall>i sc. dict_get (scopes w) i = Some sc \<longrightarrow> metrics_counted sc = entered_body (phase sc))"

lemma count_at_set:
  assumes "scopes w' = dict_set (scopes w) i sc'"
  shows "count_at n P w' = count_at n P w - (case dict_get (scopes w) i of None \<Rightarrow> 0 | Some sc \<Rightarrow> of_bool (node sc = n \<and> P sc)) +
    of_bool (node sc' = n \<and> P sc')"
  using assms by (auto simp: count_at_def dict_sum_set_new dict_sum_set_present split: option.split)

text \<open>One scope of a process changes, together with the counters of that process.\<close>

lemma counters_step:
  assumes ok: "counters_ok cfg w" and scs: "scopes w' = dict_set (scopes w) i sc'"
    and old: "\<forall>sc. dict_get (scopes w) i = Some sc \<longrightarrow> node sc = node sc'"
    and procs: "\<And>n. process_of w' n = (if n = node sc' then p' else process_of w n)"
    and p': "process_ok cfg (node sc') p' w'" and m: "metrics_counted sc' = entered_body (phase sc')"
  shows "counters_ok cfg w'"
proof -
  have "process_ok cfg n (process_of w n) w'" if "n \<noteq> node sc'" for n
  proof -
    have "(case dict_get (scopes w) i of None \<Rightarrow> 0 | Some sc \<Rightarrow> of_bool (node sc = n \<and> P sc)) = (0 :: int)" for P
    proof (cases "dict_get (scopes w) i")
      case (Some sc)
      then have "node sc = node sc'" using old by blast
      with Some that show ?thesis by simp
    qed simp
    then have same: "count_at n P w' = count_at n P w" for P
      using count_at_set [OF scs, of n P] that by simp
    have "process_ok cfg n (process_of w n) w" using ok by (simp add: counters_ok_def)
    then show ?thesis by (simp add: process_ok_def same)
  qed
  then have "\<forall>n. process_ok cfg n (process_of w' n) w'" using p' by (simp add: procs)
  moreover have "\<forall>j sc. dict_get (scopes w') j = Some sc \<longrightarrow> metrics_counted sc = entered_body (phase sc)"
    using ok m by (auto simp: scs counters_ok_def split: if_splits)
  moreover have "dict_ok (scopes w')" using ok by (simp add: scs counters_ok_def)
  ultimately show ?thesis unfolding counters_ok_def by blast
qed

lemma process_of_set [simp]:
  "process_of (set_process n p w) k = (if k = n then p else process_of w k)"
  "process_of (set_scope i sc w) k = process_of w k" "process_of (send r w) k = process_of w k"
  by (simp_all add: process_of_def set_process_def)

lemma process_of_inside [simp]:
  "process_of (go_inside i sc w) k =
    (if k = node sc then count_mode (mode sc) 1 (process_of w k\<lparr>admission_waiters := admission_waiters (process_of w k) - 1\<rparr>) else process_of w k)"
  by (simp add: go_inside_def Let_def)

lemma abort_fields [simp]:
  "process_of (abort i sc w) k = process_of w k" "scopes (abort i sc w) = dict_set (scopes w) i (sc\<lparr>phase := Closing False, renewal := NoRenewal\<rparr>)"
  by (simp_all add: abort_def Let_def)

definition change :: "(sem_scope \<Rightarrow> bool) \<Rightarrow> sem_scope option \<Rightarrow> sem_scope \<Rightarrow> int" where
  "change P old sc' = of_bool (P sc') - (case old of None \<Rightarrow> 0 | Some sc \<Rightarrow> of_bool (P sc))"

lemma counters_move:
  fixes w i sc' p'
  defines "p \<equiv> process_of w (node sc')" and "d \<equiv> \<lambda>P. change P (dict_get (scopes w) i) sc'"
  assumes ok: "counters_ok cfg w" and scs: "scopes w' = dict_set (scopes w) i sc'"
    and old: "\<forall>sc. dict_get (scopes w) i = Some sc \<longrightarrow> node sc = node sc'"
    and procs: "\<And>n. process_of w' n = (if n = node sc' then p' else process_of w n)"
    and eqs: "local_used p' = local_used p + d (\<lambda>sc. holds_slot (phase sc))"
      "waiting_count p' = waiting_count p + d (\<lambda>sc. phase sc = WaitingLocal)"
      "admission_waiters p' = admission_waiters p + d (\<lambda>sc. entering (phase sc))"
      "active_distributed p' = active_distributed p + d (\<lambda>sc. entered_body (phase sc) \<and> mode sc = Distributed)"
      "active_fallback p' = active_fallback p + d (\<lambda>sc. entered_body (phase sc) \<and> mode sc = LocalFallback)"
    and bounds: "local_used p' \<le> int (sem_limit cfg)" "waiting_count p' \<le> int (sem_limit cfg) * 3"
    and m: "metrics_counted sc' = entered_body (phase sc')"
  shows "counters_ok cfg w'"
proof (rule counters_step [OF ok scs old procs _ m])
  have c: "count_at (node sc') P w' = count_at (node sc') P w + d P" for P
  proof (cases "dict_get (scopes w) i")
    case (Some sc)
    then have "node sc = node sc'" using old by blast
    with Some show ?thesis using count_at_set [OF scs, of "node sc'" P] by (simp add: d_def change_def)
  qed (use count_at_set [OF scs, of "node sc'" P] in \<open>simp add: d_def change_def\<close>)
  have "process_ok cfg (node sc') p w" using ok by (simp add: counters_ok_def p_def)
  then show "process_ok cfg (node sc') p' w'" using eqs bounds by (simp add: process_ok_def c)
qed

lemma counters_bounds:
  assumes "counters_ok cfg w"
  shows "local_used (process_of w n) \<le> int (sem_limit cfg)" "waiting_count (process_of w n) \<le> int (sem_limit cfg) * 3"
  using assms unfolding counters_ok_def process_ok_def by blast+

lemma counters_metrics: "counters_ok cfg w \<Longrightarrow> dict_get (scopes w) i = Some sc \<Longrightarrow> metrics_counted sc = entered_body (phase sc)"
  by (simp add: counters_ok_def)

text \<open>Changes that no counter notices.\<close>

lemma counters_same:
  assumes ok: "counters_ok cfg w" and sc: "dict_get (scopes w) i = Some sc" and scs: "scopes w' = dict_set (scopes w) i sc'"
    and "\<And>n. process_of w' n = process_of w n" "node sc' = node sc" "metrics_counted sc' = metrics_counted sc"
    and "holds_slot (phase sc') = holds_slot (phase sc)" "phase sc' = WaitingLocal \<longleftrightarrow> phase sc = WaitingLocal"
      "entering (phase sc') = entering (phase sc)" "entered_body (phase sc') = entered_body (phase sc)" "entered_body (phase sc) \<longrightarrow> mode sc' = mode sc"
  shows "counters_ok cfg w'"
  by (rule counters_move [OF ok scs, where p' = "process_of w (node sc)"])
    (use assms counters_bounds [OF ok] counters_metrics [OF ok sc] in \<open>auto simp: change_def\<close>)

lemma abort_counters:
  assumes "counters_ok cfg w" and "dict_get (scopes w) i = Some sc0" and "phase sc0 = Admitting \<or> (\<exists>t. phase sc0 = Asking t)"
    and "node sc = node sc0" "metrics_counted sc = metrics_counted sc0"
  shows "counters_ok cfg (abort i sc w)"
  by (rule counters_same [OF assms(1,2), where sc' = "sc\<lparr>phase := Closing False, renewal := NoRenewal\<rparr>"]) (use assms in auto)

lemma go_inside_counters:
  assumes ok: "counters_ok cfg w" and sc: "dict_get (scopes w) i = Some sc0" and "\<exists>t. phase sc0 = Asking t" and "node sc = node sc0"
  shows "counters_ok cfg (go_inside i sc w)"
  by (rule counters_move [OF ok, where i = i and sc' = "sc\<lparr>phase := Inside, metrics_counted := True\<rparr>" and
      p' = "count_mode (mode sc) 1 (process_of w (node sc)\<lparr>admission_waiters := admission_waiters (process_of w (node sc)) - 1\<rparr>)"])
    (use assms counters_bounds [OF ok, of "node sc"] in \<open>auto simp: change_def count_mode_def split: sem_mode.split\<close>)

lemma entry_counters:
  assumes ok: "counters_ok cfg w"
  shows "counters_ok cfg (enter cfg n i w)"
    and "counters_ok cfg (local_grant cfg redis i w)"
    and "counters_ok cfg (local_give_up i w)"
    and "counters_ok cfg (cancel_admission i w)"
proof -
  show "counters_ok cfg (enter cfg n i w)"
  proof (cases "dict_has (scopes w) i \<or> waiting_count (process_of w n) \<ge> int (sem_limit cfg) * 3")
    case False
    then show ?thesis
      by (intro counters_move [OF ok, where i = i and p' = "process_of w n\<lparr>waiting_count := waiting_count (process_of w n) + 1,
            admission_waiters := admission_waiters (process_of w n) + 1\<rparr>" and
          sc' = "\<lparr>node = n, deadline = sem_clock w + sem_timeout cfg, phase = WaitingLocal, mode = LocalFallback, on_redis = False,
            last_confirmed = None, lease_lost = False, renewal = NoRenewal, metrics_counted = False\<rparr>"])
        (use counters_bounds [OF ok, of n] in \<open>auto simp: enter_def Let_def dict_has_def change_def\<close>)
  qed (use ok in \<open>auto simp: enter_def\<close>)
  show "counters_ok cfg (local_give_up i w)"
  proof (cases "\<exists>sc. dict_get (scopes w) i = Some sc \<and> phase sc = WaitingLocal")
    case True
    then obtain sc where sc: "dict_get (scopes w) i = Some sc" "phase sc = WaitingLocal" by blast
    then show ?thesis
      by (intro counters_move [OF ok, where i = i and sc' = "sc\<lparr>phase := Gone\<rparr>" and
          p' = "process_of w (node sc)\<lparr>waiting_count := waiting_count (process_of w (node sc)) - 1,
            admission_waiters := admission_waiters (process_of w (node sc)) - 1\<rparr>"])
        (use counters_bounds [OF ok, of "node sc"] counters_metrics [OF ok sc(1)] in \<open>auto simp: local_give_up_def Let_def change_def\<close>)
  qed (use ok in \<open>auto simp: local_give_up_def split: option.split\<close>)
  show "counters_ok cfg (cancel_admission i w)"
    using ok abort_counters [OF ok, of i] by (auto simp: cancel_admission_def split: option.split phase.split)
  show "counters_ok cfg (local_grant cfg redis i w)"
  proof (cases "\<exists>sc. dict_get (scopes w) i = Some sc \<and> phase sc = WaitingLocal \<and> local_used (process_of w (node sc)) < int (sem_limit cfg) \<and>
      sem_clock w < deadline sc")
    case True
    then obtain sc where sc: "dict_get (scopes w) i = Some sc" "phase sc = WaitingLocal"
      and free: "local_used (process_of w (node sc)) < int (sem_limit cfg)" "sem_clock w < deadline sc" by blast
    let ?p = "process_of w (node sc)\<lparr>waiting_count := waiting_count (process_of w (node sc)) - 1, local_used := local_used (process_of w (node sc)) + 1\<rparr>"
    show ?thesis
    proof (cases redis)
      case True
      then show ?thesis
        by (intro counters_move [OF ok, where i = i and sc' = "sc\<lparr>phase := Admitting, on_redis := True, mode := Distributed\<rparr>" and p' = ?p])
          (use sc free counters_bounds [OF ok, of "node sc"] counters_metrics [OF ok sc(1)] in \<open>auto simp: local_grant_def Let_def change_def\<close>)
    next
      case False
      then show ?thesis
        by (intro counters_move [OF ok, where i = i and
            sc' = "sc\<lparr>on_redis := False, mode := LocalFallback, phase := Inside, metrics_counted := True\<rparr>" and
            p' = "count_mode LocalFallback 1 (?p\<lparr>admission_waiters := admission_waiters (process_of w (node sc)) - 1\<rparr>)"])
          (use sc free counters_bounds [OF ok, of "node sc"] in \<open>auto simp: local_grant_def Let_def change_def count_mode_def\<close>)
    qed
  next
    case False
    with ok show ?thesis by (auto simp: local_grant_def Let_def split: option.split)
  qed
qed

lemma admission_counters:
  assumes ok: "counters_ok cfg w"
  shows "counters_ok cfg (poll i w)" and "counters_ok cfg (admit_reply cfg i b w)" and "counters_ok cfg (admit_error i w)"
proof -
  have same: "counters_ok cfg w'" if "dict_get (scopes w) i = Some sc" "scopes w' = dict_set (scopes w) i (sc\<lparr>phase := ph\<rparr>)"
    "\<And>n. process_of w' n = process_of w n" "phase sc = Admitting \<or> (\<exists>t. phase sc = Asking t)" "ph = Admitting \<or> (\<exists>t. ph = Asking t)" for w' sc ph
    by (rule counters_same [OF ok that(1,2)]) (use that in auto)
  show "counters_ok cfg (poll i w)"
    using ok abort_counters [OF ok, of i] by (auto simp: poll_def intro!: same split: option.split)
  show "counters_ok cfg (admit_reply cfg i b w)"
    using ok abort_counters [OF ok, of i] go_inside_counters [OF ok, of i]
    by (auto simp: admit_reply_def intro!: same split: option.split phase.split)
  show "counters_ok cfg (admit_error i w)"
    using ok abort_counters [OF ok, of i] go_inside_counters [OF ok, of i] by (auto simp: admit_error_def split: option.split phase.split)
qed

lemma renewal_counters:
  assumes ok: "counters_ok cfg w"
  shows "counters_ok cfg (renew_send cfg i w)" and "counters_ok cfg (renew_reply cfg i b w)" and "counters_ok cfg (renew_error cfg i w)"
proof -
  have same: "counters_ok cfg w'" if "dict_get (scopes w) i = Some sc" "scopes w' = dict_set (scopes w) i sc'"
    "\<And>n. process_of w' n = process_of w n" "node sc' = node sc" "phase sc' = phase sc" "mode sc' = mode sc" "metrics_counted sc' = metrics_counted sc"
    for w' sc sc'
    by (rule counters_same [OF ok that(1,2)]) (use that in auto)
  show "counters_ok cfg (renew_send cfg i w)"
    using ok by (auto simp: renew_send_def lose_lease_def intro!: same split: option.split)
  show "counters_ok cfg (renew_reply cfg i b w)"
    using ok by (auto simp: renew_reply_def lose_lease_def intro!: same split: option.split renewal.split)
  show "counters_ok cfg (renew_error cfg i w)"
    using ok by (auto simp: renew_error_def lose_lease_def intro!: same split: option.split renewal.split)
qed

lemma leave_counters:
  assumes ok: "counters_ok cfg w"
  shows "counters_ok cfg (leave i w)" and "counters_ok cfg (close_scope i w)"
proof -
  show "counters_ok cfg (leave i w)"
  proof (cases "\<exists>sc. dict_get (scopes w) i = Some sc \<and> phase sc = Inside")
    case True
    then obtain sc where sc: "dict_get (scopes w) i = Some sc" "phase sc = Inside" by blast
    show ?thesis
      by (rule counters_same [OF ok sc(1), where sc' = "sc\<lparr>phase := Closing True, renewal := NoRenewal\<rparr>"])
        (use sc in \<open>auto simp: leave_def Let_def\<close>)
  qed (use ok in \<open>auto simp: leave_def split: option.split\<close>)
  show "counters_ok cfg (close_scope i w)"
  proof (cases "\<exists>sc b. dict_get (scopes w) i = Some sc \<and> phase sc = Closing b")
    case True
    then obtain sc b where sc: "dict_get (scopes w) i = Some sc" "phase sc = Closing b" by blast
    let ?p1 = "process_of w (node sc)\<lparr>local_used := local_used (process_of w (node sc)) - 1\<rparr>"
    let ?p = "if b then count_mode (mode sc) (-1) ?p1 else ?p1\<lparr>admission_waiters := admission_waiters ?p1 - 1\<rparr>"
    have m: "metrics_counted sc = b" using counters_metrics [OF ok sc(1)] sc(2) by simp
    show ?thesis
      by (rule counters_move [OF ok, where i = i and sc' = "sc\<lparr>phase := Gone, metrics_counted := False\<rparr>" and p' = ?p])
        (use sc m counters_bounds [OF ok, of "node sc"] in \<open>auto simp: close_scope_def Let_def change_def count_mode_def split: sem_mode.split\<close>)
  qed (use ok in \<open>auto simp: close_scope_def split: option.split phase.split\<close>)
qed

lemma counters_cong: "scopes w' = scopes w \<Longrightarrow> processes w' = processes w \<Longrightarrow> counters_ok cfg w' = counters_ok cfg w"
  by (simp add: counters_ok_def process_ok_def count_at_def process_of_def)

lemma sem_step_counters:
  assumes ok: "counters_ok cfg w"
  shows "counters_ok cfg (sem_step cfg w e)"
proof -
  have "counters_ok cfg (w\<lparr>sem_clock := t\<rparr>)" for t using counters_cong [of "w\<lparr>sem_clock := t\<rparr>" w] ok by simp
  moreover have "counters_ok cfg (execute cfg r v) = counters_ok cfg v" for r v
    by (rule counters_cong) (simp_all add: execute_def split: prod.split)
  ultimately show ?thesis
    using ok entry_counters admission_counters renewal_counters leave_counters by (cases "snd e") (auto simp: sem_step_def)
qed

interpretation sc: invariant_run "sem_step cfg" "counters_ok cfg" for cfg
  by unfold_locales (rule sem_step_counters)

lemma sem_init_counters: "counters_ok cfg sem_init"
  by (simp add: counters_ok_def sem_init_def process_of_def process_ok_def count_at_def)

section \<open>Properties of the semaphore\<close>

text \<open>
  Property C38. Over all processes, at any moment of any run with late, repeated and lost commands and answers, crashed or
  slow owners and failing renewals, at most \<open>limit\<close> bodies run under a distributed lease that their owner may still rely
  on, that is before \<open>lease_ttl\<close> has passed since the owner sent the command that confirmed it.
\<close>

theorem llm_leases_bounded:
  "length (filter (\<lambda>e. valid_holder cfg (sem_clock (foldl (sem_step cfg) sem_init es)) (snd e))
     (scopes (foldl (sem_step cfg) sem_init es))) \<le> sem_limit cfg"
proof -
  define w where "w = foldl (sem_step cfg) sem_init es"
  have "server_ok cfg w \<and> owners_ok w" unfolding w_def by (rule sl.run_invar) (simp add: sem_init_ok)
  moreover have "counters_ok cfg w" unfolding w_def by (rule sc.run_invar [OF sem_init_counters])
  ultimately show ?thesis using holders_bounded [of cfg w] by (simp add: counters_ok_def w_def)
qed

text \<open>
  In every process the counters are exact, whatever requests time out, are cancelled or fail: the places taken
  in the local semaphore are the requests that hold one, at most \<open>limit\<close>; the waiting requests are at most three times the
  limit; the admissions in progress and the active calls of each mode are those reported. When all requests are gone,
  everything is zero again.
\<close>

lemma llm_counters_exact:
  fixes cfg es n
  defines "w \<equiv> foldl (sem_step cfg) sem_init es"
  shows "process_ok cfg n (process_of w n) w \<and>
    (list_all (\<lambda>e. phase (snd e) = Gone) (scopes w) \<longrightarrow>
      process_of w n = \<lparr>local_used = 0, waiting_count = 0, admission_waiters = 0, active_distributed = 0, active_fallback = 0\<rparr>)"
proof -
  have "counters_ok cfg w" unfolding w_def by (rule sc.run_invar [OF sem_init_counters])
  then have p: "process_ok cfg n (process_of w n) w" by (simp add: counters_ok_def)
  have "count_at n P w = 0" if "list_all (\<lambda>e. phase (snd e) = Gone) (scopes w)" "\<And>sc. phase sc = Gone \<Longrightarrow> \<not> P sc" for P
  proof -
    have "dict_sum (\<lambda>sc. of_bool (node sc = n \<and> P sc)) d = 0" if "list_all (\<lambda>e. phase (snd e) = Gone) d" for d :: "(nat, sem_scope) dict"
      using that \<open>\<And>sc. phase sc = Gone \<Longrightarrow> \<not> P sc\<close> by (induction d) auto
    with that(1) show ?thesis by (simp add: count_at_def)
  qed
  then show ?thesis using p by (auto simp: process_ok_def)
qed

text \<open>With one place, a second process is refused while the first holds the lease, and admitted after its release.\<close>

definition example_sem_run :: "(secs \<times> sem_event) list" where
  "example_sem_run =
    [(1, Enter 0 1), (1, LocalGrant True 1), (1, Poll 1), (2, Execute (AdmitReq 1 1)), (3, AdmitReply 1 True),
     (4, Enter 1 2), (4, LocalGrant True 2), (4, Poll 2), (5, Execute (AdmitReq 2 4)), (6, AdmitReply 2 False),
     (7, Leave 1), (8, Execute (RemReq 1)), (9, Closed 1), (10, Poll 2), (11, Execute (AdmitReq 2 10)), (12, AdmitReply 2 True),
     (13, Leave 2), (14, Closed 2)]"

section \<open>The end of a scope\<close>

text \<open>
  What \<open>__aexit__\<close> raises. \<open>Marked\<close> is the cancellation that \<open>_lose_lease\<close> sends to the owner, \<open>Foreign\<close> one of the
  caller; \<open>arrivals\<close> are the cancellations that interrupt the wait for the cleanup, \<open>cancelling\<close> is
  \<open>owner.cancelling()\<close> and \<open>baseline\<close> its value on admission.
\<close>

datatype cancellation = Marked | Foreign

datatype body_end = Completed | Failure | CancelledBy cancellation

datatype exit_outcome = Propagates | RaisesLimit | RaisesCancelled cancellation

fun note_arrival :: "cancellation option \<Rightarrow> cancellation \<Rightarrow> cancellation option" where
  "note_arrival None error = Some error"
| "note_arrival (Some Marked) error = Some error"
| "note_arrival (Some Foreign) error = Some Foreign"

definition exit_result :: "bool \<Rightarrow> bool \<Rightarrow> int \<Rightarrow> int \<Rightarrow> body_end \<Rightarrow> cancellation list \<Rightarrow> exit_outcome" where
  "exit_result lost cancellation_sent cancelling baseline exc_val arrivals =
    (let cancelled = foldl note_arrival (case exc_val of CancelledBy c \<Rightarrow> Some c | _ \<Rightarrow> None) arrivals in
     if lost then
       (let internal_cancel = (cancelled = Some Marked);
            caller_cancelled = (cancellation_sent \<and> max 0 (cancelling - 1) > baseline);
            cancelled1 = (if internal_cancel \<and> \<not> caller_cancelled \<and> exc_val = Failure then None else cancelled)
        in if (internal_cancel \<and> \<not> caller_cancelled \<and> exc_val \<noteq> Failure) \<or> (cancelled1 = None \<and> exc_val = Completed)
           then RaisesLimit
           else (case cancelled1 of Some c \<Rightarrow> RaisesCancelled c | None \<Rightarrow> Propagates))
     else (case cancelled of Some c \<Rightarrow> RaisesCancelled c | None \<Rightarrow> Propagates))"

definition foreign_cancel :: "body_end \<Rightarrow> cancellation list \<Rightarrow> bool" where
  "foreign_cancel exc_val arrivals \<longleftrightarrow> exc_val = CancelledBy Foreign \<or> Foreign \<in> set arrivals"

lemma note_arrivals:
  "foldl note_arrival c arrivals =
    (if c = Some Foreign \<or> Foreign \<in> set arrivals then Some Foreign else if c = Some Marked \<or> arrivals \<noteq> [] then Some Marked else None)"
proof (induction arrivals arbitrary: c)
  case (Cons a as)
  have "c = None \<or> c = Some Marked \<or> c = Some Foreign" by (metis cancellation.exhaust option.exhaust)
  then show ?case by (cases a) (auto simp: Cons.IH)
next
  case Nil
  have "c = None \<or> c = Some Marked \<or> c = Some Foreign" by (metis cancellation.exhaust option.exhaust)
  then show ?case by auto
qed

text \<open>
  A cancellation by the caller that reaches the exit is always raised again, whether it ended the body or arrived
  during the cleanup, and a lost lease never hides it. Without one: while the lease was kept, the end of the body is handed
  on; with a lost lease a completed body, or one that only the marked cancellation ended, is reported as the limit, unless a
  caller's cancellation was merged into the marked one, and then it is still raised as a cancellation; and a failure of the
  body is handed on as it is, unless a caller's cancellation was merged into a marked one during the cleanup.
\<close>

theorem llm_exit_result:
  fixes lost sent cancelling baseline exc_val arrivals
  defines "merged \<equiv> sent \<and> max 0 (cancelling - 1) > baseline" and "marked \<equiv> exc_val = CancelledBy Marked \<or> arrivals \<noteq> []"
  shows "exit_result lost sent cancelling baseline exc_val arrivals =
    (if foreign_cancel exc_val arrivals then RaisesCancelled Foreign
     else if \<not> lost then (if marked then RaisesCancelled Marked else Propagates)
     else if marked \<and> merged then RaisesCancelled Marked
     else if exc_val = Failure then Propagates
     else RaisesLimit)"
proof (cases exc_val)
  case (CancelledBy c)
  then show ?thesis by (cases c) (auto simp: exit_result_def note_arrivals foreign_cancel_def merged_def marked_def Let_def)
qed (auto simp: exit_result_def note_arrivals foreign_cancel_def merged_def marked_def Let_def)

end
