(* ===== verification/Breaker.thy ===== *)
theory Breaker
  imports Prelude
begin

text \<open>
  \<^verbatim>\<open>app/circuit_breaker.py\<close>: the circuit breaker around external calls.

  The method \<open>call\<close> holds the lock in three critical sections with the protected call between
  them, during which other calls, forced transitions and the monitor run. Each critical section is
  one definition here (\<open>breaker_admit\<close>, \<open>settle_success\<close>, \<open>settle_failure\<close>); a \<open>world\<close> is a breaker
  with the tickets of the calls in flight, and an \<open>event\<close> is one critical section of one of them.
  \<open>settle_failure\<close> is told whether the exception is an expected failure, the result of the three
  \<open>isinstance\<close> tests. Log records and the text of the errors are not modelled.
\<close>

section \<open>State\<close>

datatype circuit_state = CLOSED | OPEN | HALF_OPEN

record breaker_config =
  failure_threshold :: int
  recovery_timeout :: secs
  monitor_interval :: secs
  max_failures :: int

definition default_config :: breaker_config where
  "default_config =
    \<lparr>failure_threshold = 5, recovery_timeout = 60, monitor_interval = 10, max_failures = 100\<rparr>"

definition GEMINI_API_CONFIG :: breaker_config where
  "GEMINI_API_CONFIG = default_config\<lparr>failure_threshold := 15, recovery_timeout := 45, monitor_interval := 5\<rparr>"

definition TAVILY_API_CONFIG :: breaker_config where
  "TAVILY_API_CONFIG = default_config\<lparr>failure_threshold := 5, recovery_timeout := 60, monitor_interval := 10\<rparr>"

definition TELEGRAM_API_CONFIG :: breaker_config where
  "TELEGRAM_API_CONFIG = default_config\<lparr>failure_threshold := 10, recovery_timeout := 120, monitor_interval := 15\<rparr>"

record breaker =
  circuit :: circuit_state
  generation :: int
  stats_generation :: int
  failure_count :: int
  last_failure_time :: secs
  last_success_time :: secs
  total_requests :: int
  total_failures :: int
  total_successes :: int
  half_open_probe_active :: bool

definition breaker_init :: "secs \<Rightarrow> breaker" where
  "breaker_init now =
    \<lparr>circuit = CLOSED, generation = 0, stats_generation = 0, failure_count = 0, last_failure_time = 0,
     last_success_time = now, total_requests = 0, total_failures = 0, total_successes = 0,
     half_open_probe_active = False\<rparr>"

record breaker_stats =
  stats_state :: circuit_state
  stats_failure_count :: int
  stats_requests :: int
  stats_failures :: int
  stats_successes :: int
  stats_last_failure :: secs
  stats_last_success :: secs
  success_rate :: secs

definition get_stats :: "breaker \<Rightarrow> breaker_stats" where
  "get_stats b =
    \<lparr>stats_state = circuit b, stats_failure_count = failure_count b, stats_requests = total_requests b,
     stats_failures = total_failures b, stats_successes = total_successes b,
     stats_last_failure = last_failure_time b, stats_last_success = last_success_time b,
     success_rate = (if total_requests b > 0 then of_int (total_successes b) / of_int (total_requests b) * 100 else 0)\<rparr>"

section \<open>Critical sections\<close>

definition set_state :: "circuit_state \<Rightarrow> breaker \<Rightarrow> breaker" where
  "set_state st b =
    (if circuit b \<noteq> st then b\<lparr>circuit := st, generation := generation b + 1\<rparr> else b\<lparr>circuit := st\<rparr>)"

definition should_attempt_reset :: "breaker_config \<Rightarrow> secs \<Rightarrow> breaker \<Rightarrow> bool" where
  "should_attempt_reset cfg now b \<longleftrightarrow>
    circuit b = OPEN \<and> now - last_failure_time b \<ge> recovery_timeout cfg"

datatype open_error = ProbeInFlight | StillOpen

text \<open>A ticket is the pair of generations a call read on its admission.\<close>

type_synonym ticket = "int \<times> int"

definition count_request :: "breaker \<Rightarrow> breaker \<times> (open_error + ticket)" where
  "count_request b =
    (b\<lparr>total_requests := total_requests b + 1\<rparr>, Inr (generation b, stats_generation b))"

definition breaker_admit :: "breaker_config \<Rightarrow> secs \<Rightarrow> breaker \<Rightarrow> breaker \<times> (open_error + ticket)" where
  "breaker_admit cfg now b =
    (if circuit b = HALF_OPEN then (b, Inl ProbeInFlight)
     else if circuit b = OPEN then
       (if should_attempt_reset cfg now b then
          (if half_open_probe_active b then (b, Inl ProbeInFlight)
           else count_request (set_state HALF_OPEN (b\<lparr>half_open_probe_active := True\<rparr>)))
        else (b, Inl StillOpen))
     else count_request b)"

definition on_failure :: "breaker_config \<Rightarrow> secs \<Rightarrow> breaker \<Rightarrow> breaker" where
  "on_failure cfg now b =
    (let b1 = b\<lparr>failure_count := failure_count b + 1, last_failure_time := now\<rparr> in
     if failure_count b1 \<ge> failure_threshold cfg \<and> circuit b1 \<noteq> OPEN then set_state OPEN b1 else b1)"

definition settle_failure :: "breaker_config \<Rightarrow> secs \<Rightarrow> bool \<Rightarrow> ticket \<Rightarrow> breaker \<Rightarrow> breaker" where
  "settle_failure cfg now expected tk b =
    (let b1 = (if expected \<and> snd tk = stats_generation b then b\<lparr>total_failures := total_failures b + 1\<rparr> else b) in
     if fst tk \<noteq> generation b1 then b1
     else
       (let b2 = b1\<lparr>half_open_probe_active := False\<rparr> in
        if expected then on_failure cfg now b2
        else if circuit b2 = HALF_OPEN then set_state OPEN b2
        else b2))"

definition settle_success :: "secs \<Rightarrow> ticket \<Rightarrow> breaker \<Rightarrow> breaker" where
  "settle_success now tk b =
    (let b1 = (if snd tk = stats_generation b
               then b\<lparr>last_success_time := now, total_successes := total_successes b + 1\<rparr> else b) in
     if fst tk \<noteq> generation b1 then b1
     else
       (let b2 = b1\<lparr>half_open_probe_active := False\<rparr>;
            b3 = (if circuit b2 = HALF_OPEN then set_state CLOSED b2 else b2)
        in b3\<lparr>failure_count := 0\<rparr>))"

text \<open>One turn of the monitor: the part that is not logging.\<close>

definition monitor_tick :: "breaker_config \<Rightarrow> breaker \<Rightarrow> breaker" where
  "monitor_tick cfg b =
    (if failure_count b > max_failures cfg
     then b\<lparr>failure_count := min (failure_count b) (max_failures cfg)\<rparr> else b)"

definition force_open :: "breaker_config \<Rightarrow> secs \<Rightarrow> breaker \<Rightarrow> breaker" where
  "force_open cfg now b =
    (set_state OPEN (b\<lparr>generation := generation b + 1, half_open_probe_active := False\<rparr>))
      \<lparr>failure_count := failure_threshold cfg, last_failure_time := now\<rparr>"

definition force_close :: "breaker \<Rightarrow> breaker" where
  "force_close b =
    (set_state CLOSED (b\<lparr>generation := generation b + 1, half_open_probe_active := False\<rparr>))\<lparr>failure_count := 0\<rparr>"

definition breaker_reset :: "breaker \<Rightarrow> breaker" where
  "breaker_reset b =
    (set_state CLOSED (b\<lparr>generation := generation b + 1, stats_generation := stats_generation b + 1,
                         half_open_probe_active := False\<rparr>))
      \<lparr>failure_count := 0, last_failure_time := 0, total_requests := 0, total_failures := 0, total_successes := 0\<rparr>"

section \<open>Calls in flight\<close>

record world =
  cb :: breaker
  in_flight :: "ticket list"

datatype event =
  CallAdmit secs
  | CallSucceed secs nat
  | CallFail secs bool nat
  | MonitorTick
  | ForceOpen secs
  | ForceClose
  | ResetAll

definition remove_at :: "nat \<Rightarrow> 'a list \<Rightarrow> 'a list" where
  "remove_at i xs = take i xs @ drop (Suc i) xs"

fun world_step :: "breaker_config \<Rightarrow> world \<Rightarrow> event \<Rightarrow> world" where
  "world_step cfg w (CallAdmit now) =
    (case breaker_admit cfg now (cb w) of
       (b, Inl err) \<Rightarrow> w\<lparr>cb := b\<rparr>
     | (b, Inr tk) \<Rightarrow> w\<lparr>cb := b, in_flight := in_flight w @ [tk]\<rparr>)"
| "world_step cfg w (CallSucceed now i) =
    (if i < length (in_flight w)
     then w\<lparr>cb := settle_success now (in_flight w ! i) (cb w), in_flight := remove_at i (in_flight w)\<rparr> else w)"
| "world_step cfg w (CallFail now expected i) =
    (if i < length (in_flight w)
     then w\<lparr>cb := settle_failure cfg now expected (in_flight w ! i) (cb w), in_flight := remove_at i (in_flight w)\<rparr> else w)"
| "world_step cfg w MonitorTick = w\<lparr>cb := monitor_tick cfg (cb w)\<rparr>"
| "world_step cfg w (ForceOpen now) = w\<lparr>cb := force_open cfg now (cb w)\<rparr>"
| "world_step cfg w ForceClose = w\<lparr>cb := force_close (cb w)\<rparr>"
| "world_step cfg w ResetAll = w\<lparr>cb := breaker_reset (cb w)\<rparr>"

definition world_run :: "breaker_config \<Rightarrow> world \<Rightarrow> event list \<Rightarrow> world" where
  "world_run cfg w es = foldl (world_step cfg) w es"

definition world_init :: "secs \<Rightarrow> world" where
  "world_init now = \<lparr>cb = breaker_init now, in_flight = []\<rparr>"

section \<open>The registry\<close>

text \<open>\<open>_circuit_breakers\<close>: a breaker is stored with the configuration it was made with.\<close>

type_synonym registry = "(string, breaker_config \<times> breaker) dict"

definition get_circuit_breaker :: "secs \<Rightarrow> string \<Rightarrow> breaker_config option \<Rightarrow> registry \<Rightarrow> registry \<times> breaker_config \<times> breaker" where
  "get_circuit_breaker now name cfg reg =
    (case dict_get reg name of
       Some entry \<Rightarrow> (reg, entry)
     | None \<Rightarrow>
        (let entry = ((case cfg of None \<Rightarrow> default_config | Some c \<Rightarrow> c), breaker_init now)
         in (dict_set reg name entry, entry)))"

definition shutdown_all_circuit_breakers :: "registry \<Rightarrow> registry" where
  "shutdown_all_circuit_breakers reg = []"

section \<open>The invariant\<close>

definition cfg_ok :: "breaker_config \<Rightarrow> bool" where
  "cfg_ok cfg \<longleftrightarrow> 1 \<le> failure_threshold cfg \<and> failure_threshold cfg \<le> max_failures cfg"

definition current :: "world \<Rightarrow> ticket list" where
  "current w = filter (\<lambda>tk. fst tk = generation (cb w)) (in_flight w)"

definition counted :: "world \<Rightarrow> ticket list" where
  "counted w = filter (\<lambda>tk. snd tk = stats_generation (cb w)) (in_flight w)"

definition circuit_ok :: "breaker_config \<Rightarrow> world \<Rightarrow> bool" where
  "circuit_ok cfg w \<longleftrightarrow>
    (half_open_probe_active (cb w) \<longleftrightarrow> circuit (cb w) = HALF_OPEN) \<and>
    (circuit (cb w) = CLOSED \<longrightarrow> failure_count (cb w) < failure_threshold cfg) \<and>
    (circuit (cb w) \<noteq> CLOSED \<longrightarrow> failure_threshold cfg \<le> failure_count (cb w)) \<and>
    (circuit (cb w) = OPEN \<longrightarrow> current w = []) \<and>
    (circuit (cb w) = HALF_OPEN \<longrightarrow> length (current w) = 1)"

definition tickets_ok :: "world \<Rightarrow> bool" where
  "tickets_ok w \<longleftrightarrow>
    (\<forall>tk \<in> set (in_flight w). fst tk \<le> generation (cb w) \<and> snd tk \<le> stats_generation (cb w)) \<and>
    0 \<le> failure_count (cb w) \<and> 0 \<le> total_failures (cb w) \<and> 0 \<le> total_successes (cb w) \<and>
    total_failures (cb w) + total_successes (cb w) + int (length (counted w)) \<le> total_requests (cb w)"

definition breaker_inv :: "breaker_config \<Rightarrow> world \<Rightarrow> bool" where
  "breaker_inv cfg w \<longleftrightarrow> tickets_ok w \<and> circuit_ok cfg w"

lemma filter_remove_at:
  "i < length xs \<Longrightarrow> length (filter P xs) = length (filter P (remove_at i xs)) + of_bool (P (xs ! i))"
  unfolding remove_at_def by (subst id_take_nth_drop [of i xs]) auto

lemma set_remove_at: "tk \<in> set (remove_at i xs) \<Longrightarrow> tk \<in> set xs"
  unfolding remove_at_def by (auto dest: in_set_takeD in_set_dropD)

lemma filter_none_new:
  "(\<forall>tk \<in> set xs. (fst tk :: int) \<le> g) \<Longrightarrow> g < g' \<Longrightarrow> filter (\<lambda>tk. fst tk = g') xs = []"
  "(\<forall>tk \<in> set xs. (snd tk :: int) \<le> h) \<Longrightarrow> h < h' \<Longrightarrow> filter (\<lambda>tk. snd tk = h') xs = []"
  by (auto simp: filter_empty_conv)

lemma set_state_fields [simp]:
  "circuit (set_state st b) = st" "stats_generation (set_state st b) = stats_generation b"
  "failure_count (set_state st b) = failure_count b" "last_failure_time (set_state st b) = last_failure_time b"
  "total_requests (set_state st b) = total_requests b" "total_failures (set_state st b) = total_failures b"
  "total_successes (set_state st b) = total_successes b"
  "half_open_probe_active (set_state st b) = half_open_probe_active b"
  "last_success_time (set_state st b) = last_success_time b"
  "generation (set_state st b) = (if circuit b = st then generation b else generation b + 1)"
  by (simp_all add: set_state_def)

lemma admit_tickets:
  assumes "tickets_ok w"
  shows "tickets_ok (world_step cfg w (CallAdmit now))"
  using assms
  by (force simp: tickets_ok_def counted_def breaker_admit_def count_request_def)

lemma admit_circuit:
  assumes "tickets_ok w" and "circuit_ok cfg w"
  shows "circuit_ok cfg (world_step cfg w (CallAdmit now))"
proof (cases "circuit (cb w)")
  case OPEN
  have "filter (\<lambda>tk. fst tk = generation (cb w) + 1) (in_flight w) = []"
    by (rule filter_none_new(1) [of _ "generation (cb w)"]) (use assms(1) in \<open>simp_all add: tickets_ok_def\<close>)
  with OPEN assms(2) show ?thesis
    by (auto simp: circuit_ok_def breaker_admit_def count_request_def current_def)
next
  case CLOSED
  with assms(2) show ?thesis by (simp add: circuit_ok_def breaker_admit_def count_request_def current_def)
next
  case HALF_OPEN
  with assms(2) show ?thesis by (simp add: circuit_ok_def breaker_admit_def current_def)
qed

lemma succeed_inv:
  assumes ok: "cfg_ok cfg" and inv: "breaker_inv cfg w" and i: "i < length (in_flight w)"
  shows "breaker_inv cfg (world_step cfg w (CallSucceed now i))"
proof -
  let ?tk = "in_flight w ! i" and ?b = "cb w"
  have mem: "fst ?tk \<le> generation ?b" "snd ?tk \<le> stats_generation ?b"
    using inv i by (auto simp: breaker_inv_def tickets_ok_def)
  have cs: "length (current w) = length (filter (\<lambda>tk. fst tk = generation ?b) (remove_at i (in_flight w))) + of_bool (fst ?tk = generation ?b)"
    "length (counted w) = length (filter (\<lambda>tk. snd tk = stats_generation ?b) (remove_at i (in_flight w))) + of_bool (snd ?tk = stats_generation ?b)"
    unfolding current_def counted_def by (rule filter_remove_at [OF i])+
  have rest: "\<forall>tk \<in> set (remove_at i (in_flight w)). fst tk \<le> generation ?b \<and> snd tk \<le> stats_generation ?b"
    using inv set_remove_at by (fastforce simp: breaker_inv_def tickets_ok_def)
  have "tickets_ok (world_step cfg w (CallSucceed now i))"
    using inv i cs(2) rest
    by (cases "snd ?tk = stats_generation ?b")
      (auto simp: breaker_inv_def tickets_ok_def counted_def settle_success_def Let_def)
  moreover have "circuit_ok cfg (world_step cfg w (CallSucceed now i))"
  proof (cases "fst ?tk = generation ?b")
    case True
    then have "current w \<noteq> []" using cs(1) by auto
    then have "circuit ?b \<noteq> OPEN" using inv by (auto simp: breaker_inv_def circuit_ok_def)
    then have "circuit (settle_success now ?tk ?b) = CLOSED" "failure_count (settle_success now ?tk ?b) = 0"
      "\<not> half_open_probe_active (settle_success now ?tk ?b)"
      using True by (cases "circuit ?b"; simp add: settle_success_def Let_def)+
    with i ok show ?thesis by (simp add: circuit_ok_def cfg_ok_def)
  next
    case False
    then have same: "circuit (settle_success now ?tk ?b) = circuit ?b" "failure_count (settle_success now ?tk ?b) = failure_count ?b"
      "half_open_probe_active (settle_success now ?tk ?b) = half_open_probe_active ?b"
      "generation (settle_success now ?tk ?b) = generation ?b"
      by (simp_all add: settle_success_def Let_def)
    have "circuit_ok cfg w" using inv by (simp add: breaker_inv_def)
    moreover have "length (current (world_step cfg w (CallSucceed now i))) = length (current w)"
      using cs(1) False i same(4) by (simp add: current_def)
    ultimately show ?thesis using i same by (auto simp: circuit_ok_def simp flip: length_0_conv)
  qed
  ultimately show ?thesis by (simp add: breaker_inv_def)
qed

lemma fail_inv:
  assumes ok: "cfg_ok cfg" and inv: "breaker_inv cfg w" and i: "i < length (in_flight w)"
  shows "breaker_inv cfg (world_step cfg w (CallFail now expected i))"
proof -
  let ?tk = "in_flight w ! i" and ?b = "cb w"
  have cs: "length (current w) = length (filter (\<lambda>tk. fst tk = generation ?b) (remove_at i (in_flight w))) + of_bool (fst ?tk = generation ?b)"
    "length (counted w) = length (filter (\<lambda>tk. snd tk = stats_generation ?b) (remove_at i (in_flight w))) + of_bool (snd ?tk = stats_generation ?b)"
    unfolding current_def counted_def by (rule filter_remove_at [OF i])+
  have rest: "\<forall>tk \<in> set (remove_at i (in_flight w)). fst tk \<le> generation ?b \<and> snd tk \<le> stats_generation ?b"
    using inv set_remove_at by (fastforce simp: breaker_inv_def tickets_ok_def)
  have none: "filter (\<lambda>tk. fst tk = generation ?b + 1) (remove_at i (in_flight w)) = []"
    by (rule filter_none_new(1) [of _ "generation ?b"]) (use rest in simp_all)
  have "tickets_ok (world_step cfg w (CallFail now expected i))"
    using inv i cs(2) rest
    by (cases "snd ?tk = stats_generation ?b")
      (auto simp: breaker_inv_def tickets_ok_def counted_def settle_failure_def on_failure_def Let_def)
  moreover have "circuit_ok cfg (world_step cfg w (CallFail now expected i))"
  proof (cases "fst ?tk = generation ?b")
    case True
    let ?b' = "settle_failure cfg now expected ?tk ?b"
    have c: "circuit_ok cfg w" using inv by (simp add: breaker_inv_def)
    have "current w \<noteq> []" using cs(1) True by auto
    with c have no: "circuit ?b \<noteq> OPEN" by (auto simp: circuit_ok_def)
    have "\<not> half_open_probe_active ?b'"
      using True by (simp add: settle_failure_def on_failure_def Let_def)
    moreover have "circuit ?b' = CLOSED \<and> failure_count ?b' < failure_threshold cfg \<or>
        circuit ?b' = OPEN \<and> failure_threshold cfg \<le> failure_count ?b' \<and> generation ?b' = generation ?b + 1"
      using True no c by (cases "circuit ?b") (simp_all add: circuit_ok_def settle_failure_def on_failure_def Let_def)
    ultimately show ?thesis using i none by (auto simp: circuit_ok_def current_def)
  next
    case False
    then have same: "circuit (settle_failure cfg now expected ?tk ?b) = circuit ?b"
      "failure_count (settle_failure cfg now expected ?tk ?b) = failure_count ?b"
      "half_open_probe_active (settle_failure cfg now expected ?tk ?b) = half_open_probe_active ?b"
      "generation (settle_failure cfg now expected ?tk ?b) = generation ?b"
      by (simp_all add: settle_failure_def Let_def)
    have "circuit_ok cfg w" using inv by (simp add: breaker_inv_def)
    moreover have "length (current (world_step cfg w (CallFail now expected i))) = length (current w)"
      using cs(1) False i same(4) by (simp add: current_def)
    ultimately show ?thesis using i same by (auto simp: circuit_ok_def simp flip: length_0_conv)
  qed
  ultimately show ?thesis by (simp add: breaker_inv_def)
qed

lemma admin_inv:
  assumes ok: "cfg_ok cfg" and inv: "breaker_inv cfg w"
  shows "breaker_inv cfg (world_step cfg w MonitorTick)" "breaker_inv cfg (world_step cfg w (ForceOpen now))"
    "breaker_inv cfg (world_step cfg w ForceClose)" "breaker_inv cfg (world_step cfg w ResetAll)"
proof -
  have t: "\<forall>tk \<in> set (in_flight w). fst tk \<le> generation (cb w)" "\<forall>tk \<in> set (in_flight w). snd tk \<le> stats_generation (cb w)"
    using inv by (auto simp: breaker_inv_def tickets_ok_def)
  show "breaker_inv cfg (world_step cfg w MonitorTick)"
    using inv ok by (auto simp: breaker_inv_def tickets_ok_def circuit_ok_def counted_def current_def monitor_tick_def cfg_ok_def)
  have n: "filter (\<lambda>tk. fst tk = generation (cb w) + 1) (in_flight w) = []"
    "filter (\<lambda>tk. fst tk = generation (cb w) + 1 + 1) (in_flight w) = []"
    "filter (\<lambda>tk. snd tk = stats_generation (cb w) + 1) (in_flight w) = []"
    by (rule filter_none_new [of _ "generation (cb w)"] filter_none_new [of _ "stats_generation (cb w)"]; use t in simp)+
  have g: "(\<forall>tk \<in> set (in_flight w). fst tk \<le> generation (cb w) + 1) \<and> (\<forall>tk \<in> set (in_flight w). fst tk \<le> generation (cb w) + 1 + 1)
      \<and> (\<forall>tk \<in> set (in_flight w). snd tk \<le> stats_generation (cb w) + 1)"
    using t by force
  show "breaker_inv cfg (world_step cfg w (ForceOpen now))"
    using inv ok n g t
    by (auto simp: breaker_inv_def tickets_ok_def circuit_ok_def counted_def current_def force_open_def cfg_ok_def)
  show "breaker_inv cfg (world_step cfg w ForceClose)"
    using inv ok n g t
    by (auto simp: breaker_inv_def tickets_ok_def circuit_ok_def counted_def current_def force_close_def cfg_ok_def)
  show "breaker_inv cfg (world_step cfg w ResetAll)"
    using inv ok n g t
    by (auto simp: breaker_inv_def tickets_ok_def circuit_ok_def counted_def current_def breaker_reset_def cfg_ok_def)
qed

lemma breaker_step_inv:
  assumes ok: "cfg_ok cfg" and inv: "breaker_inv cfg w"
  shows "breaker_inv cfg (world_step cfg w e)"
proof (cases e)
  case (CallAdmit now)
  with inv admit_tickets admit_circuit show ?thesis by (simp add: breaker_inv_def del: world_step.simps)
next
  case (CallSucceed now i)
  with succeed_inv [OF ok inv, of i now] inv show ?thesis by (cases "i < length (in_flight w)") simp_all
next
  case (CallFail now expected i)
  with fail_inv [OF ok inv, of i now expected] inv show ?thesis by (cases "i < length (in_flight w)") simp_all
qed (use admin_inv [OF ok inv] in simp_all)

interpretation cbr: invariant_run "world_step cfg" "\<lambda>w. cfg_ok cfg \<longrightarrow> breaker_inv cfg w" for cfg
  by unfold_locales (simp add: breaker_step_inv del: world_step.simps)

lemma breaker_init_inv: "cfg_ok cfg \<Longrightarrow> breaker_inv cfg (world_init now)"
  by (simp add: breaker_inv_def tickets_ok_def circuit_ok_def counted_def current_def world_init_def breaker_init_def cfg_ok_def)

lemma breaker_run_inv:
  assumes "cfg_ok cfg"
  shows "breaker_inv cfg (world_run cfg (world_init now) es)"
  using cbr.run_invar [of cfg "world_init now" es] breaker_init_inv [OF assms, of now] assms by (simp add: world_run_def)

section \<open>Properties\<close>

text \<open>Property C21. Whatever calls, completions, forced transitions and monitor turns interleave, a breaker
  whose threshold lies between one and \<open>max_failures\<close> is half open exactly while a probe is marked
  active, and then exactly one call of the current generation is in flight; an open breaker has none;
  it is closed exactly while the failure count is below the threshold; and the successes and failures
  counted never exceed the requests counted.\<close>

theorem breaker_single_probe:
  assumes "cfg_ok cfg" and "w = world_run cfg (world_init now) es"
  shows "(half_open_probe_active (cb w) \<longleftrightarrow> circuit (cb w) = HALF_OPEN) \<and>
    (circuit (cb w) = HALF_OPEN \<longrightarrow> length (current w) = 1) \<and> (circuit (cb w) = OPEN \<longrightarrow> current w = []) \<and>
    (circuit (cb w) = CLOSED \<longleftrightarrow> failure_count (cb w) < failure_threshold cfg) \<and>
    total_failures (cb w) + total_successes (cb w) + int (length (counted w)) \<le> total_requests (cb w)"
  using breaker_run_inv [OF assms(1), of now es] assms(2)
  by (auto simp: breaker_inv_def circuit_ok_def tickets_ok_def not_less [symmetric])

definition demo_world :: world where
  "demo_world = world_run (default_config\<lparr>failure_threshold := 1\<rparr>) (world_init 0)
     [CallAdmit 1, CallFail 2 True 0, CallAdmit 100, CallAdmit 101]"

theorem breaker_single_probe_witness:
  "circuit (cb demo_world) = HALF_OPEN \<and> length (current demo_world) = 1"
proof -
  have "cfg_ok (default_config\<lparr>failure_threshold := 1\<rparr>)" by code_simp
  moreover have "circuit (cb demo_world) = HALF_OPEN" by code_simp
  ultimately show ?thesis using breaker_single_probe [OF _ demo_world_def] by simp
qed

text \<open>Property C22. Such a breaker cannot get stuck: closed, it admits; open, it admits a probe as soon as the
  recovery timeout has passed since the last failure, and refuses before without changing; half open,
  a probe is in flight whose completion leaves the half-open state, to closed with the count reset when
  it succeeds and back to open when it fails or is cancelled.\<close>

theorem breaker_never_stuck:
  assumes "cfg_ok cfg" and "w = world_run cfg (world_init start) es"
  shows "(case circuit (cb w) of
      CLOSED \<Rightarrow> snd (breaker_admit cfg now (cb w)) = Inr (generation (cb w), stats_generation (cb w))
    | OPEN \<Rightarrow>
        (if now - last_failure_time (cb w) \<ge> recovery_timeout cfg
         then (\<exists>tk. snd (breaker_admit cfg now (cb w)) = Inr tk) \<and> circuit (fst (breaker_admit cfg now (cb w))) = HALF_OPEN
         else breaker_admit cfg now (cb w) = (cb w, Inl StillOpen))
    | HALF_OPEN \<Rightarrow>
        breaker_admit cfg now (cb w) = (cb w, Inl ProbeInFlight) \<and>
        (\<exists>i < length (in_flight w).
           circuit (cb (world_step cfg w (CallSucceed now i))) = CLOSED \<and>
           failure_count (cb (world_step cfg w (CallSucceed now i))) = 0 \<and>
           (\<forall>expected. circuit (cb (world_step cfg w (CallFail now expected i))) = OPEN)))"
proof (cases "circuit (cb w)")
  case CLOSED
  then show ?thesis by (simp add: breaker_admit_def count_request_def)
next
  case OPEN
  have "\<not> half_open_probe_active (cb w)"
    using breaker_run_inv [OF assms(1), of start es] assms(2) OPEN by (simp add: breaker_inv_def circuit_ok_def)
  with OPEN show ?thesis by (simp add: breaker_admit_def count_request_def should_attempt_reset_def)
next
  case HALF_OPEN
  have inv: "length (current w) = 1" "failure_threshold cfg \<le> failure_count (cb w)"
    using breaker_run_inv [OF assms(1), of start es] assms(2) HALF_OPEN by (simp_all add: breaker_inv_def circuit_ok_def)
  then have "current w \<noteq> []" by auto
  then obtain tk where "tk \<in> set (in_flight w)" "fst tk = generation (cb w)" by (auto simp: current_def filter_empty_conv)
  then obtain i where i: "i < length (in_flight w)" "fst (in_flight w ! i) = generation (cb w)" by (auto simp: in_set_conv_nth)
  with HALF_OPEN inv(2) show ?thesis
    by (auto simp: breaker_admit_def settle_success_def settle_failure_def on_failure_def Let_def intro!: exI [of _ i])
qed

theorem breaker_never_stuck_witness:
  "\<exists>i < length (in_flight demo_world).
     circuit (cb (world_step (default_config\<lparr>failure_threshold := 1\<rparr>) demo_world (CallSucceed 102 i))) = CLOSED"
proof -
  have "cfg_ok (default_config\<lparr>failure_threshold := 1\<rparr>)" by code_simp
  moreover have "circuit (cb demo_world) = HALF_OPEN" by code_simp
  ultimately show ?thesis using breaker_never_stuck [OF _ demo_world_def, of 102] by (auto simp del: world_step.simps)
qed

text \<open>A call that was admitted before a transition or a manual reset cannot change the state
  that a newer attempt owns: with a stale generation its completion leaves everything but the
  statistics, and with a stale statistics generation it leaves those as well.\<close>

lemma breaker_stale_completion:
  assumes "fst tk \<noteq> generation b"
    and "b' \<in> {settle_success now tk b, settle_failure cfg now expected tk b}"
  shows "circuit b' = circuit b \<and> generation b' = generation b \<and> failure_count b' = failure_count b \<and>
    last_failure_time b' = last_failure_time b \<and> half_open_probe_active b' = half_open_probe_active b \<and>
    total_requests b' = total_requests b \<and> (snd tk \<noteq> stats_generation b \<longrightarrow> b' = b)"
proof -
  from assms(2) consider (ok) "b' = settle_success now tk b" | (fail) "b' = settle_failure cfg now expected tk b" by blast
  then show ?thesis
  proof cases
    case ok
    with assms(1) show ?thesis by (cases "snd tk = stats_generation b") (simp_all add: settle_success_def Let_def)
  next
    case fail
    with assms(1) show ?thesis by (cases "expected \<and> snd tk = stats_generation b") (simp_all add: settle_failure_def Let_def)
  qed
qed

theorem breaker_stale_completion_witness:
  "circuit (settle_success 103 (0, 0) (cb demo_world)) = HALF_OPEN"
proof -
  have "fst (0 :: int, 0 :: int) \<noteq> generation (cb demo_world)" by code_simp
  moreover have "circuit (cb demo_world) = HALF_OPEN" by code_simp
  ultimately show ?thesis
    using breaker_stale_completion [of "(0, 0)" "cb demo_world" "settle_success 103 (0, 0) (cb demo_world)" 103 default_config True]
    by simp
qed

lemma settle_failure_closed:
  assumes "circuit b = CLOSED"
  shows "circuit (settle_failure cfg t True (generation b, g) b) =
      (if failure_count b + 1 \<ge> failure_threshold cfg then OPEN else CLOSED)"
    and "failure_count (settle_failure cfg t True (generation b, g) b) = failure_count b + 1"
    and "last_failure_time (settle_failure cfg t True (generation b, g) b) = t"
  using assms by (simp_all add: settle_failure_def on_failure_def Let_def)

text \<open>A closed breaker opens on exactly the failure that makes the count reach the threshold:
  after fewer uninterrupted failures it is still closed, and after the last one it is open and refuses
  calls until the recovery timeout has passed since that failure.\<close>

theorem breaker_trips:
  assumes "circuit b = CLOSED" and "failure_count b + int (length ts) < failure_threshold cfg"
    and "b1 = foldl (\<lambda>b t. settle_failure cfg t True (generation b, stats_generation b) b) b ts"
  shows "circuit b1 = CLOSED \<and> failure_count b1 = failure_count b + int (length ts) \<and>
    (failure_count b1 + 1 = failure_threshold cfg \<longrightarrow>
      circuit (settle_failure cfg t True (generation b1, g) b1) = OPEN \<and>
      (now < t + recovery_timeout cfg \<longrightarrow>
        snd (breaker_admit cfg now (settle_failure cfg t True (generation b1, g) b1)) = Inl StillOpen))"
proof -
  have "circuit b1 = CLOSED \<and> failure_count b1 = failure_count b + int (length ts)"
    using assms
  proof (induction ts arbitrary: b)
    case (Cons t ts)
    let ?b = "settle_failure cfg t True (generation b, stats_generation b) b"
    have "circuit ?b = CLOSED" "failure_count ?b = failure_count b + 1"
      using Cons.prems(1,2) by (simp_all add: settle_failure_closed)
    with Cons.IH [of ?b] Cons.prems(2,3) show ?case by simp
  qed simp
  then show ?thesis
    using settle_failure_closed [of b1 cfg t g] by (auto simp: breaker_admit_def should_attempt_reset_def)
qed

theorem breaker_trips_witness:
  "circuit (settle_failure TAVILY_API_CONFIG 5 True (0, 0)
     (foldl (\<lambda>b t. settle_failure TAVILY_API_CONFIG t True (generation b, stats_generation b) b) (breaker_init 0) [1, 2, 3, 4])) = OPEN"
proof -
  let ?b = "foldl (\<lambda>b t. settle_failure TAVILY_API_CONFIG t True (generation b, stats_generation b) b) (breaker_init 0) [1, 2, 3, 4]"
  have "generation ?b = 0" "failure_count ?b + 1 = failure_threshold TAVILY_API_CONFIG" by code_simp+
  then show ?thesis
    using breaker_trips [of "breaker_init 0" "[1, 2, 3, 4]" TAVILY_API_CONFIG ?b 5 0 0]
    by (simp add: breaker_init_def TAVILY_API_CONFIG_def default_config_def)
qed







end
