(* ===== verification/Json_Values.thy ===== *)
theory Json_Values
  imports Prelude
begin

text \<open>
  JSON values as Python sees them after parsing, the conversion \<open>int(...)\<close> of such a value, and the
  text functions \<open>lower\<close> and \<open>startswith\<close> on ASCII text. A float is its exact rational value; the
  special floats do not occur in JSON text.
\<close>

datatype json =
  JNull
  | JBool bool
  | JInt int
  | JFloat rat
  | JStr string
  | JList "json list"
  | JDict "(string \<times> json) list"

text \<open>\<open>int(v)\<close>: \<open>None\<close> stands for the \<open>TypeError\<close> or \<open>ValueError\<close> it raises.\<close>

fun json_int :: "json \<Rightarrow> int option" where
  "json_int (JBool b) = Some (of_bool b)"
| "json_int (JInt i) = Some i"
| "json_int (JFloat q) = Some (if q < 0 then ceiling q else floor q)"
| "json_int (JStr t) = py_int t"
| "json_int _ = None"

fun json_items :: "json \<Rightarrow> json list option" where
  "json_items (JList xs) = Some xs"
| "json_items _ = None"

text \<open>A string is parsed by the JSON library (the parameter \<open>loads\<close>); a text it rejects becomes
  \<open>None\<close>, as does an exception of the parser.\<close>

definition json_value :: "(string \<Rightarrow> json option) \<Rightarrow> json \<Rightarrow> json" where
  "json_value loads v =
    (case v of JStr t \<Rightarrow> (case loads t of Some w \<Rightarrow> w | None \<Rightarrow> JNull) | _ \<Rightarrow> v)"

definition lower_char :: "char \<Rightarrow> char" where
  "lower_char c = (let n = (of_char c :: nat) in if 65 \<le> n \<and> n \<le> 90 then char_of (n + 32) else c)"

definition lower :: "string \<Rightarrow> string" where
  "lower t = map lower_char t"

end
