(* ===== verification/Game_2048.thy ===== *)
theory Game_2048
  imports Json_Values
begin

text \<open>
  The board logic of the daily 2048 game: \<^verbatim>\<open>app/games/daily_2048.py\<close> up to \<open>compute_final_score\<close> and
  the normalisation of stored boards and spawn sequences in \<^verbatim>\<open>app/repos/daily_2048.py\<close>. A board is a
  list of rows; the SHA-256 digest of the fallback spawn is the parameter \<open>digest\<close>, the list of its
  bytes.
\<close>

section \<open>Normalisation of stored values\<close>

type_synonym board = "int list list"

definition DEFAULT_BOARD_SIZE :: nat where
  "DEFAULT_BOARD_SIZE = 4"

definition cell_at :: "json list \<Rightarrow> nat \<Rightarrow> int" where
  "cell_at raw_row x =
    max 0 (if x < length raw_row then (case json_int (raw_row ! x) of Some i \<Rightarrow> i | None \<Rightarrow> 0) else 0)"

definition row_at :: "json list \<Rightarrow> nat \<Rightarrow> json list" where
  "row_at parsed y =
    (if y < length parsed then (case json_items (parsed ! y) of Some r \<Rightarrow> r | None \<Rightarrow> []) else [])"

definition normalize_parsed :: "json \<Rightarrow> board" where
  "normalize_parsed v =
    (let parsed = (case json_items v of Some xs \<Rightarrow> xs | None \<Rightarrow> []) in
     map (\<lambda>y. map (\<lambda>x. cell_at (row_at parsed y) x) [0..<DEFAULT_BOARD_SIZE]) [0..<DEFAULT_BOARD_SIZE])"

definition normalize_board :: "(string \<Rightarrow> json option) \<Rightarrow> json \<Rightarrow> board" where
  "normalize_board loads v = normalize_parsed (json_value loads v)"

text \<open>A board of the program given to \<open>normalize_board\<close> again.\<close>

definition board_json :: "board \<Rightarrow> json" where
  "board_json b = JList (map (\<lambda>row. JList (map JInt row)) b)"

definition clone_board :: "board \<Rightarrow> board" where
  "clone_board b = normalize_parsed (board_json b)"

record spawn =
  spawn_x :: int
  spawn_y :: int
  spawn_value :: int

definition spawn_item :: "json \<Rightarrow> spawn option" where
  "spawn_item item =
    (case item of
       JDict d \<Rightarrow>
         (case (json_int (case dict_get d ''x'' of Some v \<Rightarrow> v | None \<Rightarrow> JInt 0),
                json_int (case dict_get d ''y'' of Some v \<Rightarrow> v | None \<Rightarrow> JInt 0),
                json_int (case dict_get d ''value'' of Some v \<Rightarrow> v | None \<Rightarrow> JInt 2)) of
            (Some x, Some y, Some v) \<Rightarrow>
              Some \<lparr>spawn_x = max 0 (min (int DEFAULT_BOARD_SIZE - 1) x),
                    spawn_y = max 0 (min (int DEFAULT_BOARD_SIZE - 1) y),
                    spawn_value = (if v \<in> {2, 4, 8} then v else 2)\<rparr>
          | _ \<Rightarrow> None)
     | _ \<Rightarrow> None)"

definition normalize_spawns_parsed :: "json \<Rightarrow> spawn list" where
  "normalize_spawns_parsed v =
    (case json_items v of None \<Rightarrow> [] | Some items \<Rightarrow> List.map_filter spawn_item items)"

definition normalize_spawn_sequence :: "(string \<Rightarrow> json option) \<Rightarrow> json \<Rightarrow> spawn list" where
  "normalize_spawn_sequence loads v = normalize_spawns_parsed (json_value loads v)"

definition spawn_json :: "spawn \<Rightarrow> json" where
  "spawn_json sp = JDict [(''x'', JInt (spawn_x sp)), (''y'', JInt (spawn_y sp)), (''value'', JInt (spawn_value sp))]"

section \<open>Moves\<close>

datatype game_error = ValueError string

record move_outcome =
  moved_board :: board
  moved :: bool
  gained_score :: int

definition DIRECTION_ALIASES :: "(string, string) dict" where
  "DIRECTION_ALIASES =
    [(''left'', ''left''), (''right'', ''right''), (''up'', ''up''), (''down'', ''down''),
     (''l'', ''left''), (''r'', ''right''), (''u'', ''up''), (''d'', ''down'')]"

definition normalize_direction :: "string option \<Rightarrow> game_error + string" where
  "normalize_direction d =
    (let t = lower (strip (case d of None \<Rightarrow> [] | Some x \<Rightarrow> x)) in
     case dict_get DIRECTION_ALIASES t of
       None \<Rightarrow> Inl (ValueError ''unsupported direction'')
     | Some dir \<Rightarrow> Inr dir)"

text \<open>The \<open>while\<close> loop of \<open>_merge_line\<close> over the compacted line.\<close>

fun merge_compact :: "int list \<Rightarrow> int list \<times> int" where
  "merge_compact [] = ([], 0)"
| "merge_compact [a] = ([a], 0)"
| "merge_compact (a # b # rest) =
    (if b = a then (case merge_compact rest of (ms, sc) \<Rightarrow> (a * 2 # ms, a * 2 + sc))
     else (case merge_compact (b # rest) of (ms, sc) \<Rightarrow> (a # ms, sc)))"

definition merge_line :: "int list \<Rightarrow> int list \<times> int" where
  "merge_line vals =
    (case merge_compact (filter (\<lambda>v. v > 0) vals) of
       (ms, sc) \<Rightarrow> (take DEFAULT_BOARD_SIZE (ms @ replicate (DEFAULT_BOARD_SIZE - length ms) 0), sc))"

definition transpose_board :: "board \<Rightarrow> board" where
  "transpose_board b =
    map (\<lambda>x. map (\<lambda>y. b ! y ! x) [0..<DEFAULT_BOARD_SIZE]) [0..<DEFAULT_BOARD_SIZE]"

definition move_row :: "bool \<Rightarrow> int list \<Rightarrow> int list \<times> int" where
  "move_row back row =
    (case merge_line (if back then rev row else row) of
       (ms, sc) \<Rightarrow> (if back then rev ms else ms, sc))"

definition slide :: "board \<Rightarrow> string \<Rightarrow> move_outcome" where
  "slide source direction =
    (let vertical = direction \<in> {''up'', ''down''};
         working = (if vertical then transpose_board source else source);
         back = direction \<in> {''right'', ''down''};
         rows = map (move_row back) working;
         result = (if vertical then transpose_board (map fst rows) else map fst rows)
     in \<lparr>moved_board = result, moved = (result \<noteq> source), gained_score = sum_list (map snd rows)\<rparr>)"

definition apply_move :: "board \<Rightarrow> string option \<Rightarrow> game_error + move_outcome" where
  "apply_move b direction =
    (case normalize_direction direction of
       Inl err \<Rightarrow> Inl err
     | Inr dir \<Rightarrow> Inr (slide (clone_board b) dir))"

section \<open>New tiles, end of the game, score\<close>

definition available_cells :: "board \<Rightarrow> (int \<times> int) list" where
  "available_cells b =
    concat (map (\<lambda>(y, row). map (\<lambda>(x, v). (int x, int y)) (filter (\<lambda>(x, v). v = 0) (enumerate 0 row)))
      (enumerate 0 (clone_board b)))"

definition from_bytes_big :: "nat list \<Rightarrow> nat" where
  "from_bytes_big bs = foldl (\<lambda>acc d. 256 * acc + d) 0 bs"

definition fallback_spawn :: "(string \<Rightarrow> nat list) \<Rightarrow> int \<Rightarrow> string \<Rightarrow> (int \<times> int) list \<Rightarrow> spawn" where
  "fallback_spawn digest spawn_index seed available =
    (let dg = digest (seed @ '':'' @ show_int spawn_index);
         idx = from_bytes_big (take 4 dg) mod length available;
         value = (if dg ! 4 mod 10 = 0 then 4 else 2)
     in \<lparr>spawn_x = fst (available ! idx), spawn_y = snd (available ! idx), spawn_value = value\<rparr>)"

record spawn_outcome =
  spawn_board :: board
  spawn_index_after :: int
  spawned :: "spawn option"

definition put_tile :: "board \<Rightarrow> spawn \<Rightarrow> board" where
  "put_tile b sp = b[nat (spawn_y sp) := (b ! nat (spawn_y sp))[nat (spawn_x sp) := spawn_value sp]]"

definition spawn_tile :: "(string \<Rightarrow> nat list) \<Rightarrow> board \<Rightarrow> spawn list \<Rightarrow> int \<Rightarrow> string \<Rightarrow> spawn_outcome" where
  "spawn_tile digest b spawn_sequence spawn_index seed =
    (let next_board = clone_board b; available = available_cells next_board in
     if available = [] then \<lparr>spawn_board = next_board, spawn_index_after = spawn_index, spawned = None\<rparr>
     else
       (let seqn = normalize_spawns_parsed (JList (map spawn_json spawn_sequence));
            candidate = (if 0 \<le> spawn_index \<and> spawn_index < int (length seqn) then Some (seqn ! nat spawn_index) else None);
            chosen = (case candidate of
                Some sp \<Rightarrow> if (spawn_x sp, spawn_y sp) \<in> set available then sp
                           else fallback_spawn digest spawn_index seed available
              | None \<Rightarrow> fallback_spawn digest spawn_index seed available)
        in \<lparr>spawn_board = put_tile next_board chosen, spawn_index_after = spawn_index + 1, spawned = Some chosen\<rparr>))"

definition moves_available :: "board \<Rightarrow> bool" where
  "moves_available b =
    (let n = clone_board b in
     available_cells n \<noteq> [] \<or>
     (\<exists>y \<in> {0..<DEFAULT_BOARD_SIZE}. \<exists>x \<in> {0..<DEFAULT_BOARD_SIZE}.
        x + 1 < DEFAULT_BOARD_SIZE \<and> n ! y ! (x + 1) = n ! y ! x \<or>
        y + 1 < DEFAULT_BOARD_SIZE \<and> n ! (y + 1) ! x = n ! y ! x))"

definition goal_reached :: "board \<Rightarrow> string \<Rightarrow> int \<Rightarrow> bool" where
  "goal_reached b goal_type goal_value =
    (let n = clone_board b in
     if goal_type = ''total'' then sum_list (concat n) \<ge> goal_value
     else \<exists>v \<in> set (concat n). v \<ge> goal_value)"

definition compute_final_score :: "int \<Rightarrow> int \<Rightarrow> int \<Rightarrow> int \<Rightarrow> int \<Rightarrow> int \<Rightarrow> int" where
  "compute_final_score goal_value target_seconds par_moves moves elapsed_ms merge_score =
    (let base = goal_value * 10;
         target_ms = max 30 target_seconds * 1000;
         speed_bonus = max 0 (target_ms - max 0 elapsed_ms) div 100;
         move_bonus = max 0 (par_moves - max 0 moves) * 24;
         merge_bonus = min (max 0 merge_score) (goal_value * 4)
     in base + speed_bonus + move_bonus + merge_bonus)"

section \<open>Well-formed boards\<close>

definition wf_line :: "int list \<Rightarrow> bool" where
  "wf_line row \<longleftrightarrow> length row = DEFAULT_BOARD_SIZE \<and> list_all (\<lambda>v. 0 \<le> v) row"

definition wf_board :: "board \<Rightarrow> bool" where
  "wf_board b \<longleftrightarrow> length b = DEFAULT_BOARD_SIZE \<and> list_all wf_line b"

definition board_total :: "board \<Rightarrow> int" where
  "board_total b = sum_list (map sum_list b)"

lemma upt_4: "[0..<4] = [0, 1, 2, 3 :: nat]"
  by (simp add: upt_rec)

lemma wf_lineE:
  assumes "wf_line row"
  obtains a b c d where "row = [a, b, c, d]" "0 \<le> a" "0 \<le> b" "0 \<le> c" "0 \<le> d"
proof -
  from assms have "length row = 4" "list_all (\<lambda>v. 0 \<le> v) row" by (simp_all add: wf_line_def DEFAULT_BOARD_SIZE_def)
  then show ?thesis by (auto simp: length_Suc_conv numeral_eq_Suc intro: that)
qed

lemma wf_line_iff: "wf_line [a, b, c, d] \<longleftrightarrow> 0 \<le> a \<and> 0 \<le> b \<and> 0 \<le> c \<and> 0 \<le> d"
  by (simp add: wf_line_def DEFAULT_BOARD_SIZE_def)

lemma wf_boardE:
  assumes "wf_board b"
  obtains r0 r1 r2 r3 where "b = [r0, r1, r2, r3]" "wf_line r0" "wf_line r1" "wf_line r2" "wf_line r3"
proof -
  from assms have "length b = 4" "list_all wf_line b" by (simp_all add: wf_board_def DEFAULT_BOARD_SIZE_def)
  then show ?thesis by (auto simp: length_Suc_conv numeral_eq_Suc intro: that)
qed

lemma wf_board_iff: "wf_board [r0, r1, r2, r3] \<longleftrightarrow> wf_line r0 \<and> wf_line r1 \<and> wf_line r2 \<and> wf_line r3"
  by (simp add: wf_board_def DEFAULT_BOARD_SIZE_def)

lemma wf_normalize: "wf_board (normalize_parsed v)"
  by (simp add: normalize_parsed_def wf_board_def wf_line_def list_all_iff cell_at_def Let_def)

lemma clone_board_id:
  assumes "wf_board b"
  shows "clone_board b = b"
  using assms
proof (cases rule: wf_boardE)
  case (1 r0 r1 r2 r3)
  have row: "map (\<lambda>x. cell_at (map JInt r) x) [0..<4] = r" if "wf_line r" for r
    using that by (cases rule: wf_lineE) (simp add: upt_4 cell_at_def)
  show ?thesis using 1
    by (simp add: clone_board_def normalize_parsed_def board_json_def DEFAULT_BOARD_SIZE_def upt_4 row_at_def
        row [unfolded upt_4, simplified])
qed

lemma wf_rev [simp]: "wf_line (rev row) \<longleftrightarrow> wf_line row"
  by (simp add: wf_line_def list_all_iff)

lemma transpose_wf:
  assumes "wf_board b"
  shows "wf_board (transpose_board b)" and "transpose_board (transpose_board b) = b"
    and "board_total (transpose_board b) = board_total b"
proof -
  from assms obtain r0 r1 r2 r3 where b: "b = [r0, r1, r2, r3]" and w: "wf_line r0" "wf_line r1" "wf_line r2" "wf_line r3"
    by (rule wf_boardE)
  from w(1) obtain a0 b0 c0 d0 where 0: "r0 = [a0, b0, c0, d0]" "0 \<le> a0" "0 \<le> b0" "0 \<le> c0" "0 \<le> d0" by (rule wf_lineE)
  from w(2) obtain a1 b1 c1 d1 where 1: "r1 = [a1, b1, c1, d1]" "0 \<le> a1" "0 \<le> b1" "0 \<le> c1" "0 \<le> d1" by (rule wf_lineE)
  from w(3) obtain a2 b2 c2 d2 where 2: "r2 = [a2, b2, c2, d2]" "0 \<le> a2" "0 \<le> b2" "0 \<le> c2" "0 \<le> d2" by (rule wf_lineE)
  from w(4) obtain a3 b3 c3 d3 where 3: "r3 = [a3, b3, c3, d3]" "0 \<le> a3" "0 \<le> b3" "0 \<le> c3" "0 \<le> d3" by (rule wf_lineE)
  have t: "transpose_board b = [[a0, a1, a2, a3], [b0, b1, b2, b3], [c0, c1, c2, c3], [d0, d1, d2, d3]]"
    by (simp add: b 0 1 2 3 transpose_board_def DEFAULT_BOARD_SIZE_def upt_4)
  show "wf_board (transpose_board b)" using 0 1 2 3 by (simp add: t wf_board_iff wf_line_iff)
  show "transpose_board (transpose_board b) = b"
    unfolding t by (simp add: b 0 1 2 3 transpose_board_def DEFAULT_BOARD_SIZE_def upt_4)
  show "board_total (transpose_board b) = board_total b"
    unfolding t by (simp add: b 0 1 2 3 board_total_def)
qed

section \<open>Lines\<close>

text \<open>The reference: the tiles of a line are taken in order, in groups of one or of two equal tiles; a tile
  stands alone only if the next one differs from it.\<close>

fun groups_ok :: "int list list \<Rightarrow> bool" where
  "groups_ok [] = True"
| "groups_ok ([a] # []) = True"
| "groups_ok ([a] # (b # g) # gs) = (a \<noteq> b \<and> groups_ok ((b # g) # gs))"
| "groups_ok ([a, b] # gs) = (a = b \<and> groups_ok gs)"
| "groups_ok _ = False"

fun merge_groups :: "int list \<Rightarrow> int list list" where
  "merge_groups [] = []"
| "merge_groups [a] = [[a]]"
| "merge_groups (a # b # rest) = (if b = a then [a, b] # merge_groups rest else [a] # merge_groups (b # rest))"

lemma merge_groups_ok: "groups_ok (merge_groups xs) \<and> concat (merge_groups xs) = xs"
proof (induction xs rule: merge_groups.induct)
  case (3 a b rest)
  have "\<exists>g gs. merge_groups (b # rest) = (b # g) # gs" by (cases rest) auto
  with 3 show ?case by auto
qed simp_all

lemma merge_compact_groups:
  "merge_compact xs = (map sum_list (merge_groups xs), sum_list (map sum_list (filter (\<lambda>g. length g = 2) (merge_groups xs))))"
  by (induction xs rule: merge_compact.induct) auto

lemma groups_unique: "groups_ok gs \<Longrightarrow> concat gs = xs \<Longrightarrow> gs = merge_groups xs"
proof (induction xs arbitrary: gs rule: merge_groups.induct)
  case 1
  then show ?case by (cases gs rule: groups_ok.cases) auto
next
  case (2 a)
  then show ?case by (cases gs rule: groups_ok.cases) auto
next
  case (3 a b rest)
  show ?case
  proof (cases "b = a")
    case True
    with "3.prems" obtain gs' where "gs = [a, b] # gs'" "groups_ok gs'" "concat gs' = rest"
      by (cases gs rule: groups_ok.cases) auto
    with "3.IH"(1) True show ?thesis by simp
  next
    case False
    with "3.prems" obtain gs' where "gs = [a] # gs'" "groups_ok gs'" "concat gs' = b # rest"
      by (cases gs rule: groups_ok.cases) auto
    with "3.IH"(2) False show ?thesis by simp
  qed
qed

lemma merge_compact_length: "length (fst (merge_compact xs)) \<le> length xs"
  by (induction xs rule: merge_compact.induct) (auto split: prod.splits)

lemma merge_compact_sum: "sum_list (fst (merge_compact xs)) = sum_list xs"
  by (induction xs rule: merge_compact.induct) (auto split: prod.splits)

lemma merge_compact_pos: "list_all (\<lambda>v. 0 < v) xs \<Longrightarrow> list_all (\<lambda>v. 0 < v) (fst (merge_compact xs)) \<and>
    0 \<le> snd (merge_compact xs) \<and> snd (merge_compact xs) \<le> sum_list xs"
  by (induction xs rule: merge_compact.induct) (auto split: prod.splits)

lemma sum_filter_pos: "list_all (\<lambda>v. 0 \<le> v) xs \<Longrightarrow> sum_list (filter (\<lambda>v. (v :: int) > 0) xs) = sum_list xs"
  by (induction xs) auto

lemma merge_line_props:
  assumes "wf_line row"
  shows "wf_line (fst (merge_line row))" and "sum_list (fst (merge_line row)) = sum_list row"
    and "0 \<le> snd (merge_line row)" and "snd (merge_line row) \<le> sum_list row"
proof -
  let ?c = "filter (\<lambda>v. v > 0) row"
  have len: "length (fst (merge_compact ?c)) \<le> 4"
    using order_trans [OF merge_compact_length length_filter_le, of "\<lambda>v. v > 0" row] assms
    by (simp add: wf_line_def DEFAULT_BOARD_SIZE_def)
  have pos: "list_all (\<lambda>v. 0 < v) ?c" by (simp add: list_all_iff)
  note p = merge_compact_pos [OF pos]
  have fst: "fst (merge_line row) = fst (merge_compact ?c) @ replicate (4 - length (fst (merge_compact ?c))) 0"
    and snd: "snd (merge_line row) = snd (merge_compact ?c)"
    using len by (simp_all add: merge_line_def DEFAULT_BOARD_SIZE_def case_prod_beta)
  have s: "sum_list ?c = sum_list row" using assms by (simp add: wf_line_def sum_filter_pos)
  have "list_all (\<lambda>v. 0 \<le> v) (fst (merge_compact ?c))" using p by (auto elim: list.pred_mono_strong)
  then show "wf_line (fst (merge_line row))" unfolding fst using len
    by (simp add: wf_line_def DEFAULT_BOARD_SIZE_def list.pred_set ball_Un set_replicate_conv_if)
  show "sum_list (fst (merge_line row)) = sum_list row" using fst s by (simp add: merge_compact_sum sum_list_replicate)
  show "0 \<le> snd (merge_line row)" "snd (merge_line row) \<le> sum_list row" using p snd s by simp_all
qed

section \<open>Moves of a board\<close>

definition settled_line :: "int list \<Rightarrow> bool" where
  "settled_line row \<longleftrightarrow>
    list_all (\<lambda>v. v = 0) row \<or>
    list_all (\<lambda>v. 0 < v) row \<and> (\<forall>i < DEFAULT_BOARD_SIZE - 1. row ! i \<noteq> row ! (i + 1))"

lemma settled_line_4:
  "settled_line [a, b, c, d] \<longleftrightarrow>
    a = 0 \<and> b = 0 \<and> c = 0 \<and> d = 0 \<or> 0 < a \<and> 0 < b \<and> 0 < c \<and> 0 < d \<and> a \<noteq> b \<and> b \<noteq> c \<and> c \<noteq> d"
proof -
  have "(\<forall>i < 3. P i) \<longleftrightarrow> P 0 \<and> P 1 \<and> P (2 :: nat)" for P
    by (auto simp: less_Suc_eq numeral_eq_Suc)
  then show ?thesis by (simp add: settled_line_def DEFAULT_BOARD_SIZE_def)
qed

lemma line_stuck:
  assumes "wf_line row"
  shows "fst (move_row False row) = row \<and> fst (move_row True row) = row \<longleftrightarrow> settled_line row"
  using assms
proof (cases rule: wf_lineE)
  case (1 a b c d)
  have "fst (move_row False [a, b, c, d]) = [a, b, c, d] \<and> fst (move_row True [a, b, c, d]) = [a, b, c, d] \<longleftrightarrow>
    a = 0 \<and> b = 0 \<and> c = 0 \<and> d = 0 \<or> 0 < a \<and> 0 < b \<and> 0 < c \<and> 0 < d \<and> a \<noteq> b \<and> b \<noteq> c \<and> c \<noteq> d"
    using 1(2-) by (cases "a = 0"; cases "b = 0"; cases "c = 0"; cases "d = 0";
      auto simp: move_row_def merge_line_def DEFAULT_BOARD_SIZE_def less_le numeral_eq_Suc)
  then show ?thesis using 1(1) by (simp add: settled_line_4)
qed

lemma move_row_props:
  assumes "wf_line row"
  shows "wf_line (fst (move_row back row))" "sum_list (fst (move_row back row)) = sum_list row"
    "0 \<le> snd (move_row back row)" "snd (move_row back row) \<le> sum_list row"
proof -
  have w: "wf_line (if back then rev row else row)" using assms by simp
  have s: "sum_list (rev row) = sum_list row" by (simp add: sum_list_rev)
  note p = merge_line_props [OF w]
  show "wf_line (fst (move_row back row))" "sum_list (fst (move_row back row)) = sum_list row"
    "0 \<le> snd (move_row back row)" "snd (move_row back row) \<le> sum_list row"
    using p s by (auto simp: move_row_def case_prod_beta sum_list_rev)
qed

lemma move_rows_props:
  assumes "list_all wf_line b"
  shows "list_all wf_line (map (\<lambda>r. fst (move_row back r)) b)"
    "board_total (map (\<lambda>r. fst (move_row back r)) b) = board_total b"
    "0 \<le> sum_list (map (\<lambda>r. snd (move_row back r)) b)" "sum_list (map (\<lambda>r. snd (move_row back r)) b) \<le> board_total b"
  using assms by (induction b) (auto simp: board_total_def move_row_props add_mono)

lemma slide_props:
  assumes "wf_board b"
  shows "wf_board (moved_board (slide b dir)) \<and> board_total (moved_board (slide b dir)) = board_total b \<and>
    0 \<le> gained_score (slide b dir) \<and> gained_score (slide b dir) \<le> board_total b"
proof -
  let ?w = "if dir \<in> {''up'', ''down''} then transpose_board b else b"
  have w: "wf_board ?w" "board_total ?w = board_total b" using assms transpose_wf [OF assms] by auto
  then have l: "list_all wf_line ?w" "length ?w = DEFAULT_BOARD_SIZE" by (auto simp: wf_board_def)
  note p = move_rows_props [OF l(1), of "dir \<in> {''right'', ''down''}"]
  have w': "wf_board (map (\<lambda>r. fst (move_row (dir \<in> {''right'', ''down''}) r)) ?w)"
    using p(1) l(2) by (simp add: wf_board_def)
  show ?thesis
  proof (cases "dir \<in> {''up'', ''down''}")
    case True
    then show ?thesis using p w' w(2) transpose_wf(1,3) [OF w'] by (simp add: slide_def Let_def comp_def)
  next
    case False
    then show ?thesis using p w' w(2) by (simp add: slide_def Let_def comp_def)
  qed
qed

section \<open>When no move is left\<close>

lemma settled_line_nth:
  assumes "length row = 4"
  shows "settled_line row \<longleftrightarrow> (\<forall>i < 4. row ! i = 0) \<or> (\<forall>i < 4. 0 < row ! i) \<and> (\<forall>i < 3. row ! i \<noteq> row ! (i + 1))"
  using assms by (simp add: settled_line_def list_all_length DEFAULT_BOARD_SIZE_def)

lemma transpose_nth: "x < 4 \<Longrightarrow> y < 4 \<Longrightarrow> transpose_board b ! x ! y = b ! y ! x"
  by (simp add: transpose_board_def DEFAULT_BOARD_SIZE_def)

lemma wf_nth: "wf_board b \<Longrightarrow> y < 4 \<Longrightarrow> wf_line (b ! y) \<and> length (b ! y) = 4"
  by (auto simp: wf_board_def wf_line_def list_all_length DEFAULT_BOARD_SIZE_def)

lemma wf_length: "wf_board b \<Longrightarrow> length b = 4"
  by (simp add: wf_board_def DEFAULT_BOARD_SIZE_def)

lemma set_available:
  assumes "wf_board b"
  shows "(x, y) \<in> set (available_cells b) \<longleftrightarrow> 0 \<le> x \<and> x < 4 \<and> 0 \<le> y \<and> y < 4 \<and> b ! nat y ! nat x = 0"
proof -
  have "(x, y) \<in> set (available_cells b) \<longleftrightarrow>
    (\<exists>j i. j < length b \<and> i < length (b ! j) \<and> b ! j ! i = 0 \<and> x = int i \<and> y = int j)"
    using clone_board_id [OF assms]
    by (force simp: available_cells_def in_set_enumerate_eq)
  also have "\<dots> \<longleftrightarrow> (\<exists>j i. j < 4 \<and> i < 4 \<and> b ! j ! i = 0 \<and> x = int i \<and> y = int j)"
    using wf_nth [OF assms] wf_length [OF assms] by auto
  also have "\<dots> \<longleftrightarrow> 0 \<le> x \<and> x < 4 \<and> 0 \<le> y \<and> y < 4 \<and> b ! nat y ! nat x = 0"
  proof
    assume "0 \<le> x \<and> x < 4 \<and> 0 \<le> y \<and> y < 4 \<and> b ! nat y ! nat x = 0"
    then show "\<exists>j i. j < 4 \<and> i < 4 \<and> b ! j ! i = 0 \<and> x = int i \<and> y = int j"
      by (intro exI [of _ "nat y"] exI [of _ "nat x"]) auto
  qed auto
  finally show ?thesis .
qed

definition board_stuck :: "board \<Rightarrow> bool" where
  "board_stuck b \<longleftrightarrow> (\<forall>dir \<in> {''left'', ''right'', ''up'', ''down''}. \<not> moved (slide b dir))"

lemma rows_fixed:
  assumes "wf_board b"
  shows "map (\<lambda>r. fst (move_row False r)) b = b \<and> map (\<lambda>r. fst (move_row True r)) b = b \<longleftrightarrow> list_all settled_line b"
proof -
  have "map f b = b \<longleftrightarrow> (\<forall>r \<in> set b. f r = r)" for f :: "int list \<Rightarrow> int list"
    by (metis map_idI list.map_ident_strong map_eq_conv list.map_id0 id_apply)
  moreover have "\<forall>r \<in> set b. wf_line r" using assms by (simp add: wf_board_def list_all_iff)
  ultimately have "\<forall>r \<in> set b. (fst (move_row False r) = r \<and> fst (move_row True r) = r) = settled_line r"
    using line_stuck by blast
  with \<open>\<And>f. (map f b = b) = (\<forall>r \<in> set b. f r = r)\<close> show ?thesis by (auto simp: list_all_iff)
qed

lemma board_stuck_iff:
  assumes "wf_board b"
  shows "board_stuck b \<longleftrightarrow> list_all settled_line b \<and> list_all settled_line (transpose_board b)"
proof -
  note t = transpose_wf(1,2) [OF assms]
  have inv: "transpose_board c = b \<longleftrightarrow> c = transpose_board b" if "wf_board c" for c
    using t(2) transpose_wf(2) [OF that] by auto
  have w: "wf_board (map (\<lambda>r. fst (move_row bk r)) (transpose_board b))" for bk
    using move_rows_props(1) [of "transpose_board b" bk] t(1) by (simp add: wf_board_def)
  have "board_stuck b \<longleftrightarrow>
      (map (\<lambda>r. fst (move_row False r)) b = b \<and> map (\<lambda>r. fst (move_row True r)) b = b) \<and>
      (map (\<lambda>r. fst (move_row False r)) (transpose_board b) = transpose_board b \<and>
       map (\<lambda>r. fst (move_row True r)) (transpose_board b) = transpose_board b)"
    using inv [OF w] by (auto simp: board_stuck_def slide_def Let_def comp_def)
  then show ?thesis using rows_fixed [OF assms] rows_fixed [OF t(1)] by simp
qed

lemma settled_rows_nth:
  assumes "wf_board b"
  shows "list_all settled_line b \<longleftrightarrow> (\<forall>y < 4. (\<forall>x < 4. b ! y ! x = 0) \<or>
    (\<forall>x < 4. 0 < b ! y ! x) \<and> (\<forall>x < 3. b ! y ! x \<noteq> b ! y ! (x + 1)))"
  using wf_nth [OF assms] wf_length [OF assms] by (auto simp: list_all_length settled_line_nth)

lemma settled_columns_nth:
  assumes "wf_board b"
  shows "list_all settled_line (transpose_board b) \<longleftrightarrow> (\<forall>x < 4. (\<forall>y < 4. b ! y ! x = 0) \<or>
    (\<forall>y < 4. 0 < b ! y ! x) \<and> (\<forall>y < 3. b ! y ! x \<noteq> b ! (y + 1) ! x))"
  unfolding settled_rows_nth [OF transpose_wf(1) [OF assms]] by (simp add: transpose_nth)

lemma sum_list_zeros: "\<forall>v \<in> set xs. v = (0 :: int) \<Longrightarrow> sum_list xs = 0"
  by (induction xs) auto

lemma some_tile:
  assumes "wf_board b" and "0 < board_total b"
  obtains y x where "y < 4" "x < 4" "0 < b ! y ! x"
proof -
  have "board_total b = 0" if "\<forall>y < 4. \<forall>x < 4. b ! y ! x = 0"
  proof -
    have "sum_list r = 0" if "r \<in> set b" for r
    proof -
      from that obtain y where "y < 4" "r = b ! y" using wf_length [OF assms(1)] by (metis in_set_conv_nth)
      with \<open>\<forall>y < 4. \<forall>x < 4. b ! y ! x = 0\<close> wf_nth [OF assms(1)] have "\<forall>v \<in> set r. v = 0"
        by (metis in_set_conv_nth)
      then show ?thesis by (rule sum_list_zeros)
    qed
    then show ?thesis unfolding board_total_def by (intro sum_list_zeros) auto
  qed
  with assms(2) obtain y x where yx: "y < 4" "x < 4" "b ! y ! x \<noteq> 0" by force
  have "0 \<le> b ! y ! x" using wf_nth [OF assms(1) yx(1)] yx(2) by (auto simp: wf_line_def list_all_length)
  with yx show ?thesis by (intro that [of y x]) simp_all
qed

lemma moves_available_nth:
  assumes "wf_board b"
  shows "moves_available b \<longleftrightarrow> (\<exists>y < 4. \<exists>x < 4. b ! y ! x = 0 \<or> (x < 3 \<and> b ! y ! (x + 1) = b ! y ! x) \<or>
    (y < 3 \<and> b ! (y + 1) ! x = b ! y ! x))"
proof -
  have "available_cells b \<noteq> [] \<longleftrightarrow> (\<exists>p. p \<in> set (available_cells b))" by (metis ex_in_conv set_empty)
  also have "\<dots> \<longleftrightarrow> (\<exists>x y. (x, y) \<in> set (available_cells b))" by simp
  also have "\<dots> \<longleftrightarrow> (\<exists>x y. 0 \<le> x \<and> x < 4 \<and> 0 \<le> y \<and> y < 4 \<and> b ! nat y ! nat x = 0)"
    by (simp only: set_available [OF assms])
  also have "\<dots> \<longleftrightarrow> (\<exists>y < 4. \<exists>x < 4. b ! y ! x = 0)"
  proof
    assume "\<exists>x y. 0 \<le> x \<and> x < 4 \<and> 0 \<le> y \<and> y < 4 \<and> b ! nat y ! nat x = 0"
    then obtain x y :: int where "0 \<le> x" "x < 4" "0 \<le> y" "y < 4" "b ! nat y ! nat x = 0" by blast
    then show "\<exists>y < 4. \<exists>x < 4. b ! y ! x = 0" by (intro exI [of _ "nat y"] conjI exI [of _ "nat x"]) auto
  next
    assume "\<exists>y < 4. \<exists>x < 4. b ! y ! x = 0"
    then obtain x y where "y < 4" "x < 4" "b ! y ! x = 0" by blast
    then show "\<exists>x y. 0 \<le> x \<and> x < 4 \<and> 0 \<le> y \<and> y < 4 \<and> b ! nat y ! nat x = 0"
      by (intro exI [of _ "int x"] exI [of _ "int y"]) simp
  qed
  finally show ?thesis
    using clone_board_id [OF assms] by (auto simp: moves_available_def DEFAULT_BOARD_SIZE_def Let_def)
qed

lemma moves_available_stuck:
  assumes w: "wf_board b" and pos: "0 < board_total b"
  shows "moves_available b \<longleftrightarrow> \<not> board_stuck b"
proof
  assume m: "moves_available b"
  show "\<not> board_stuck b"
  proof
    assume "board_stuck b"
    then have r: "\<forall>y < 4. (\<forall>x < 4. b ! y ! x = 0) \<or> (\<forall>x < 4. 0 < b ! y ! x) \<and> (\<forall>x < 3. b ! y ! x \<noteq> b ! y ! (x + 1))"
      and c: "\<forall>x < 4. (\<forall>y < 4. b ! y ! x = 0) \<or> (\<forall>y < 4. 0 < b ! y ! x) \<and> (\<forall>y < 3. b ! y ! x \<noteq> b ! (y + 1) ! x)"
      using board_stuck_iff [OF w] settled_rows_nth [OF w] settled_columns_nth [OF w] by auto
    obtain y0 x0 where "y0 < 4" "x0 < 4" "0 < b ! y0 ! x0" using some_tile [OF w pos] .
    with r have "\<forall>x < 4. 0 < b ! y0 ! x" by (metis less_irrefl)
    with c \<open>y0 < 4\<close> have all: "\<forall>x < 4. (\<forall>y < 4. 0 < b ! y ! x) \<and> (\<forall>y < 3. b ! y ! x \<noteq> b ! (y + 1) ! x)" by (metis less_irrefl)
    with r have "\<forall>y < 4. \<forall>x < 3. b ! y ! x \<noteq> b ! y ! (x + 1)" by (metis less_irrefl zero_less_numeral)
    with all m show False unfolding moves_available_nth [OF w] by (metis less_irrefl)
  qed
next
  assume ns: "\<not> board_stuck b"
  show "moves_available b"
  proof (rule ccontr)
    assume "\<not> moves_available b"
    then have n: "\<forall>y < 4. \<forall>x < 4. b ! y ! x \<noteq> 0 \<and> (x < 3 \<longrightarrow> b ! y ! (x + 1) \<noteq> b ! y ! x) \<and> (y < 3 \<longrightarrow> b ! (y + 1) ! x \<noteq> b ! y ! x)"
      unfolding moves_available_nth [OF w] by blast
    have p: "0 < b ! y ! x" if "y < 4" "x < 4" for y x
    proof -
      have "0 \<le> b ! y ! x" using wf_nth [OF w that(1)] that(2) by (auto simp: wf_line_def list_all_length)
      with n that show ?thesis by (simp add: less_le)
    qed
    have h: "b ! y ! x \<noteq> b ! y ! (x + 1)" if "y < 4" "x < 3" for y x
    proof -
      have "b ! y ! (x + 1) \<noteq> b ! y ! x" using n [rule_format, of y x] that by simp
      then show ?thesis by (rule not_sym)
    qed
    have v: "b ! y ! x \<noteq> b ! (y + 1) ! x" if "x < 4" "y < 3" for y x
    proof -
      have "b ! (y + 1) ! x \<noteq> b ! y ! x" using n [rule_format, of y x] that by simp
      then show ?thesis by (rule not_sym)
    qed
    have "list_all settled_line b" unfolding settled_rows_nth [OF w] using h p by blast
    moreover have "list_all settled_line (transpose_board b)" unfolding settled_columns_nth [OF w] using v p by blast
    ultimately show False using ns board_stuck_iff [OF w] by simp
  qed
qed

section \<open>New tiles\<close>

lemma spawn_item_range:
  "spawn_item item = Some sp \<Longrightarrow> spawn_value sp \<in> {2, 4, 8} \<and> 0 \<le> spawn_x sp \<and> spawn_x sp < 4 \<and> 0 \<le> spawn_y sp \<and> spawn_y sp < 4"
  by (auto simp: spawn_item_def DEFAULT_BOARD_SIZE_def split: json.splits option.splits if_splits)

lemma spawns_range: "sp \<in> set (normalize_spawns_parsed v) \<Longrightarrow> spawn_value sp \<in> {2, 4, 8}"
proof -
  assume "sp \<in> set (normalize_spawns_parsed v)"
  then obtain item where "spawn_item item = Some sp" by (auto simp: normalize_spawns_parsed_def map_filter_def split: option.splits)
  from spawn_item_range [OF this] show ?thesis by blast
qed

lemma fallback_in:
  assumes "available \<noteq> []"
  shows "(spawn_x (fallback_spawn digest i seed available), spawn_y (fallback_spawn digest i seed available)) \<in> set available \<and>
    spawn_value (fallback_spawn digest i seed available) \<in> {2, 4, 8}"
  using assms by (simp add: fallback_spawn_def Let_def)

lemma sum_list_replaced: "k < length xs \<Longrightarrow> sum_list (xs[k := v]) = sum_list xs - xs ! k + (v :: int)"
proof (induction xs arbitrary: k)
  case (Cons x xs)
  then show ?case by (cases k) simp_all
qed simp

lemma put_tile_props:
  assumes w: "wf_board b" and c: "(spawn_x sp, spawn_y sp) \<in> set (available_cells b)" and v: "0 \<le> spawn_value sp"
  shows "wf_board (put_tile b sp)" and "board_total (put_tile b sp) = board_total b + spawn_value sp"
    and "y < 4 \<Longrightarrow> x < 4 \<Longrightarrow> put_tile b sp ! y ! x =
      (if x = nat (spawn_x sp) \<and> y = nat (spawn_y sp) then spawn_value sp else b ! y ! x)"
proof -
  let ?x = "nat (spawn_x sp)" and ?y = "nat (spawn_y sp)"
  have r: "?x < 4" "?y < 4" "b ! ?y ! ?x = 0" using c by (auto simp: set_available [OF w])
  note n = wf_nth [OF w r(2)] and len = wf_length [OF w]
  have row: "wf_line ((b ! ?y)[?x := spawn_value sp])"
    using n v r(1) by (auto simp: wf_line_def list_all_length nth_list_update)
  then show "wf_board (put_tile b sp)" using w r(2)
    by (auto simp: wf_board_def put_tile_def list_all_length nth_list_update DEFAULT_BOARD_SIZE_def)
  have "sum_list ((b ! ?y)[?x := spawn_value sp]) = sum_list (b ! ?y) + spawn_value sp"
    using n r by (simp add: sum_list_replaced)
  then show "board_total (put_tile b sp) = board_total b + spawn_value sp"
    using r(2) len by (simp add: put_tile_def board_total_def map_update sum_list_replaced)
  show "y < 4 \<Longrightarrow> x < 4 \<Longrightarrow> put_tile b sp ! y ! x =
      (if x = nat (spawn_x sp) \<and> y = nat (spawn_y sp) then spawn_value sp else b ! y ! x)"
    using n len r(2) by (cases "y = ?y") (auto simp: put_tile_def nth_list_update)
qed

lemma spawn_tile_cases:
  assumes w: "wf_board b"
  shows "if available_cells b = [] then spawn_tile digest b seqn i seed = \<lparr>spawn_board = b, spawn_index_after = i, spawned = None\<rparr>
    else (\<exists>sp. spawn_tile digest b seqn i seed = \<lparr>spawn_board = put_tile b sp, spawn_index_after = i + 1, spawned = Some sp\<rparr> \<and>
      (spawn_x sp, spawn_y sp) \<in> set (available_cells b) \<and> spawn_value sp \<in> {2, 4, 8})"
proof (cases "available_cells b = []")
  case True
  then show ?thesis using clone_board_id [OF w] by (simp add: spawn_tile_def Let_def)
next
  case False
  let ?s = "normalize_spawns_parsed (JList (map spawn_json seqn))"
  define cand where "cand = (if 0 \<le> i \<and> i < int (length ?s) then Some (?s ! nat i) else None)"
  define sp where "sp = (case cand of
      Some sp \<Rightarrow> if (spawn_x sp, spawn_y sp) \<in> set (available_cells b) then sp else fallback_spawn digest i seed (available_cells b)
    | None \<Rightarrow> fallback_spawn digest i seed (available_cells b))"
  have "spawn_value c \<in> {2, 4, 8}" if "cand = Some c" for c
  proof -
    from that have "c \<in> set ?s" by (auto simp: cand_def split: if_splits)
    then show ?thesis by (rule spawns_range)
  qed
  then have "(spawn_x sp, spawn_y sp) \<in> set (available_cells b) \<and> spawn_value sp \<in> {2, 4, 8}"
    using fallback_in [OF False] by (simp add: sp_def split: option.splits)
  moreover have "spawn_tile digest b seqn i seed = \<lparr>spawn_board = put_tile b sp, spawn_index_after = i + 1, spawned = Some sp\<rparr>"
    using False clone_board_id [OF w] by (simp add: spawn_tile_def Let_def sp_def cand_def)
  ultimately show ?thesis using False by auto
qed

section \<open>Properties\<close>

text \<open>Property C24. Merging a line is what the rules of the game say: the positive tiles, in order, fall into
  groups of one tile or of two equal neighbours, a tile stays alone only when its successor differs,
  the new line holds the sums of the groups followed by empty cells, and the score is the sum of the
  pairs. This grouping is the only one of that kind.\<close>

theorem merge_line_groups:
  assumes "wf_line row"
  shows "\<exists>!gs. groups_ok gs \<and> concat gs = filter (\<lambda>v. 0 < v) row \<and>
    merge_line row = (map sum_list gs @ replicate (DEFAULT_BOARD_SIZE - length gs) 0,
      sum_list (map sum_list (filter (\<lambda>g. length g = 2) gs)))"
proof -
  let ?c = "filter (\<lambda>v. 0 < v) row"
  have "length (merge_groups ?c) \<le> 4"
    using order_trans [OF merge_compact_length length_filter_le, of "\<lambda>v. 0 < v" row] assms
    by (simp add: merge_compact_groups wf_line_def DEFAULT_BOARD_SIZE_def)
  then have "merge_line row = (map sum_list (merge_groups ?c) @ replicate (DEFAULT_BOARD_SIZE - length (merge_groups ?c)) 0,
      sum_list (map sum_list (filter (\<lambda>g. length g = 2) (merge_groups ?c))))"
    by (simp add: merge_line_def merge_compact_groups DEFAULT_BOARD_SIZE_def)
  with merge_groups_ok [of ?c] groups_unique show ?thesis by (intro ex1I [of _ "merge_groups ?c"]) auto
qed

theorem merge_line_groups_witness:
  "\<exists>gs. merge_line [2, 2, 2, 4] = (map sum_list gs @ replicate (DEFAULT_BOARD_SIZE - length gs) 0,
     sum_list (map sum_list (filter (\<lambda>g. length g = 2) gs))) \<and> groups_ok gs \<and> concat gs = [2, 2, 2, 4]"
  using merge_line_groups [of "[2, 2, 2, 4]"] by (auto simp: wf_line_iff)

text \<open>Every accepted move keeps the board a four by four grid of non-negative numbers and keeps
  the total of its tiles, and it gains a score between zero and that total; \<open>moved\<close> tells whether the
  board changed.\<close>

lemma apply_move_conserves:
  assumes "apply_move b dir = Inr out"
  shows "wf_board (moved_board out) \<and> board_total (moved_board out) = board_total (clone_board b) \<and>
    0 \<le> gained_score out \<and> gained_score out \<le> board_total (clone_board b) \<and>
    (moved out \<longleftrightarrow> moved_board out \<noteq> clone_board b)"
proof -
  from assms obtain d where "out = slide (clone_board b) d" by (auto simp: apply_move_def split: sum.splits)
  moreover have "wf_board (clone_board b)" by (simp add: clone_board_def wf_normalize)
  ultimately show ?thesis using slide_props [of "clone_board b" d] by (simp add: slide_def Let_def)
qed

definition demo_board :: board where
  "demo_board = [[2, 2, 0, 0], [0, 4, 0, 0], [0, 0, 0, 0], [2, 0, 0, 2]]"

theorem apply_move_conserves_witness:
  "\<exists>out. apply_move demo_board (Some '' Left '') = Inr out \<and> board_total (moved_board out) = 12"
proof -
  have "(case apply_move demo_board (Some '' Left '') of Inr out \<Rightarrow> True | Inl e \<Rightarrow> False)" by code_simp
  then obtain out where o: "apply_move demo_board (Some '' Left '') = Inr out" by (auto split: sum.splits)
  have "board_total (clone_board demo_board) = 12" by code_simp
  with apply_move_conserves [OF o] o show ?thesis by auto
qed

text \<open>The end of the game is recognised exactly: on a board with at least one tile,
  \<open>moves_available\<close> holds if and only if one of the four directions changes the board.\<close>

theorem moves_available_exact:
  assumes "wf_board b" and "0 < board_total b"
  shows "moves_available b \<longleftrightarrow> (\<exists>dir \<in> {''left'', ''right'', ''up'', ''down''}. \<exists>out. apply_move b (Some dir) = Inr out \<and> moved out)"
proof -
  have "normalize_direction (Some dir) = Inr dir" if "dir \<in> {''left'', ''right'', ''up'', ''down''}" for dir
    using that by (auto; code_simp)
  then have "apply_move b (Some dir) = Inr (slide b dir)" if "dir \<in> {''left'', ''right'', ''up'', ''down''}" for dir
    using that clone_board_id [OF assms(1)] by (simp add: apply_move_def)
  then show ?thesis using moves_available_stuck [OF assms] by (auto simp: board_stuck_def)
qed

theorem moves_available_exact_witness:
  "\<exists>dir \<in> {''left'', ''right'', ''up'', ''down''}. \<exists>out. apply_move demo_board (Some dir) = Inr out \<and> moved out"
proof -
  have "wf_board demo_board" "0 < board_total demo_board" "moves_available demo_board" by code_simp+
  then show ?thesis using moves_available_exact by blast
qed

text \<open>Adding a tile fills exactly one empty cell with a 2, a 4 or an 8 and advances the spawn
  index by one; on a full board it does nothing.\<close>

theorem spawn_tile_one_cell:
  assumes "wf_board b"
  shows "if available_cells b = []
    then spawn_board (spawn_tile digest b seqn i seed) = b \<and> spawned (spawn_tile digest b seqn i seed) = None \<and>
      spawn_index_after (spawn_tile digest b seqn i seed) = i
    else (\<exists>sp. spawned (spawn_tile digest b seqn i seed) = Some sp \<and> spawn_value sp \<in> {2, 4, 8} \<and>
      (spawn_x sp, spawn_y sp) \<in> set (available_cells b) \<and>
      spawn_index_after (spawn_tile digest b seqn i seed) = i + 1 \<and>
      wf_board (spawn_board (spawn_tile digest b seqn i seed)) \<and>
      board_total (spawn_board (spawn_tile digest b seqn i seed)) = board_total b + spawn_value sp \<and>
      (\<forall>y < 4. \<forall>x < 4. spawn_board (spawn_tile digest b seqn i seed) ! y ! x =
        (if x = nat (spawn_x sp) \<and> y = nat (spawn_y sp) then spawn_value sp else b ! y ! x)))"
proof (cases "available_cells b = []")
  case True
  then show ?thesis using spawn_tile_cases [OF assms, of digest seqn i seed] by simp
next
  case False
  with spawn_tile_cases [OF assms, of digest seqn i seed] obtain sp where
    eq: "spawn_tile digest b seqn i seed = \<lparr>spawn_board = put_tile b sp, spawn_index_after = i + 1, spawned = Some sp\<rparr>"
    and c: "(spawn_x sp, spawn_y sp) \<in> set (available_cells b)" and v: "spawn_value sp \<in> {2, 4, 8}" by auto
  have "0 \<le> spawn_value sp" using v by auto
  from put_tile_props [OF assms c this] eq c v False show ?thesis by auto
qed

theorem spawn_tile_one_cell_witness:
  "spawn_index_after (spawn_tile (\<lambda>t. replicate 32 7) demo_board [] 0 ''s'') = 1"
proof -
  have "wf_board demo_board" "available_cells demo_board \<noteq> []" by code_simp+
  then show ?thesis using spawn_tile_one_cell [of demo_board "\<lambda>t. replicate 32 7" "[]" 0 "''s''"] by auto
qed

text \<open>The final score of a won game is at least ten times the goal and at most that plus ten points
  per target second, 24 per par move and four times the goal; taking more time or more moves, or
  merging less, never raises it.\<close>

theorem final_score_bounds:
  assumes "0 \<le> goal" and "0 \<le> par" and "moves \<le> moves'" and "ms \<le> ms'" and "score' \<le> score"
  shows "10 * goal \<le> compute_final_score goal target par moves ms score \<and>
    compute_final_score goal target par moves ms score \<le> 14 * goal + 10 * max 30 target + 24 * par \<and>
    compute_final_score goal target par moves' ms' score' \<le> compute_final_score goal target par moves ms score"
proof -
  define T and sp and sp' and mv and mv' and mg and mg' where
    d: "T = max 30 target" "sp = max 0 (T * 1000 - max 0 ms) div 100" "sp' = max 0 (T * 1000 - max 0 ms') div 100"
      "mv = max 0 (par - max 0 moves)" "mv' = max 0 (par - max 0 moves')"
      "mg = min (max 0 score) (goal * 4)" "mg' = min (max 0 score') (goal * 4)"
  have "sp \<le> (T * 1000) div 100" "sp' \<le> sp" "0 \<le> sp"
    unfolding d(2,3) using assms(4) by (auto intro!: zdiv_mono1 simp: d(1))
  moreover have "(T * 1000) div 100 = 10 * T" by simp
  moreover have "mv' \<le> mv" "mv \<le> par" "0 \<le> mv" using assms(2,3) by (auto simp: d(4,5))
  moreover have "mg' \<le> mg" "mg \<le> goal * 4" "0 \<le> mg" using assms(1,5) by (auto simp: d(6,7))
  moreover have "compute_final_score goal target par moves ms score = goal * 10 + sp + mv * 24 + mg"
    "compute_final_score goal target par moves' ms' score' = goal * 10 + sp' + mv' * 24 + mg'"
    by (simp_all add: compute_final_score_def Let_def d)
  moreover note d(1) [symmetric]
  ultimately show ?thesis by simp
qed

theorem final_score_bounds_witness:
  "compute_final_score 512 240 74 80 200000 900 \<le> compute_final_score 512 240 74 70 100000 1000"
  using final_score_bounds [of 512 74 70 80 100000 200000 900 1000 240] by simp

end
