(* ===== verification/Daily_2048.thy ===== *)
theory Daily_2048
  imports Game_2048
begin

text \<open>
  The daily 2048 game around its board: puzzles and results of \<^verbatim>\<open>app/repos/daily_2048.py\<close> as two tables,
  and the move processing of \<^verbatim>\<open>app/games/daily_2048.py\<close>.

  \<^item> A table is a dictionary keyed by its primary key; each SQL statement is the function it denotes, and
    a transaction that raises leaves the tables as they were. \<open>NOW()\<close> is the parameter \<open>now\<close>.
  \<^item> A date is its ordinal; \<open>started_at\<close> and the other times are seconds.
  \<^item> Boards and spawn sequences a client sends are JSON values.
  \<^item> The candidates of a day's default puzzle are drawn from a seeded random generator: they are the
    parameter \<open>cand\<close>, and the signatures over SHA-256 are the parameters \<open>psig\<close> and \<open>bsig\<close>.
\<close>

section \<open>Rows\<close>

record puzzle =
  puzzle_date :: int
  puzzle_board :: board
  goal_type :: string
  goal_value :: int
  spawn_sequence :: "spawn list"
  puzzle_seed :: string
  par_moves :: int
  target_seconds :: int
  puzzle_status :: string
  solution_moves :: string
  prepared_at :: "secs option"
  puzzle_revision :: int
  played :: bool

record game_result =
  result_user :: int
  result_date :: int
  result_status :: string
  result_board :: board
  spawn_index :: int
  moves_made :: int
  merge_score :: int
  final_score :: int
  elapsed_ms :: int
  started_at :: secs
  won_at :: "secs option"
  finished_at :: "secs option"
  recordable :: bool

record game_db =
  puzzles :: "(int, puzzle) dict"
  results :: "(int \<times> int, game_result) dict"

datatype daily_error =
  PuzzleUnavailable string
  | PuzzleConflict int string "puzzle option"
  | DailyValueError string
  | ResultMissing
  | MoveError game_error

definition normalize_goal_type :: "string option \<Rightarrow> string" where
  "normalize_goal_type v =
    (let t = lower (strip (case v of None \<Rightarrow> ''tile'' | Some [] \<Rightarrow> ''tile'' | Some x \<Rightarrow> x)) in
     if t \<in> {''tile'', ''total''} then t else ''tile'')"

definition clone_spawns :: "spawn list \<Rightarrow> spawn list" where
  "clone_spawns sps = normalize_spawns_parsed (JList (map spawn_json sps))"

definition row_to_puzzle :: "puzzle \<Rightarrow> puzzle" where
  "row_to_puzzle p =
    p\<lparr>puzzle_board := clone_board (puzzle_board p), goal_type := normalize_goal_type (Some (goal_type p)),
      goal_value := (if goal_value p = 0 then 512 else goal_value p),
      spawn_sequence := clone_spawns (spawn_sequence p),
      par_moves := (if par_moves p = 0 then 72 else par_moves p),
      target_seconds := (if target_seconds p = 0 then 240 else target_seconds p),
      puzzle_status := (if puzzle_status p = [] then ''ready'' else puzzle_status p)\<rparr>"

definition row_to_result :: "game_result \<Rightarrow> game_result" where
  "row_to_result r =
    r\<lparr>result_status := (if result_status r = [] then ''active'' else result_status r),
      result_board := clone_board (result_board r)\<rparr>"

definition require_available :: "puzzle \<Rightarrow> daily_error option" where
  "require_available p =
    (if puzzle_status p \<noteq> ''ready'' then Some (PuzzleUnavailable (puzzle_status p)) else None)"

definition puzzle_played :: "game_db \<Rightarrow> int \<Rightarrow> bool" where
  "puzzle_played db d \<longleftrightarrow> (\<exists>k \<in> set (dict_keys (results db)). snd k = d)"

definition locked_puzzle :: "game_db \<Rightarrow> int \<Rightarrow> bool \<Rightarrow> puzzle option" where
  "locked_puzzle db d for_player =
    (case dict_get (puzzles db) d of
       None \<Rightarrow> None
     | Some row \<Rightarrow>
        (let p = row_to_puzzle (row\<lparr>played := False\<rparr>) in
         Some (if for_player then p else p\<lparr>played := puzzle_played db d\<rparr>)))"

definition get_puzzle :: "game_db \<Rightarrow> int \<Rightarrow> puzzle option" where
  "get_puzzle db d =
    map_option (\<lambda>row. (row_to_puzzle row)\<lparr>played := puzzle_played db d\<rparr>) (dict_get (puzzles db) d)"

section \<open>Editing a puzzle\<close>

definition upsert_values :: "int \<Rightarrow> puzzle \<Rightarrow> puzzle" where
  "upsert_values d q =
    q\<lparr>puzzle_date := d, puzzle_board := clone_board (puzzle_board q), goal_type := normalize_goal_type (Some (goal_type q)),
      goal_value := max 8 (goal_value q), spawn_sequence := clone_spawns (spawn_sequence q),
      par_moves := max 1 (par_moves q), target_seconds := max 30 (target_seconds q),
      puzzle_status := (if puzzle_status q \<in> {''draft'', ''ready'', ''disabled''} then puzzle_status q else ''draft'')\<rparr>"

text \<open>The fields of a puzzle that decide how it is played.\<close>

definition gameplay :: "puzzle \<Rightarrow> board \<times> string \<times> int \<times> spawn list \<times> string \<times> int \<times> int \<times> string" where
  "gameplay p =
    (puzzle_board p, goal_type p, goal_value p, spawn_sequence p, puzzle_seed p, par_moves p, target_seconds p,
     solution_moves p)"

definition prepared_stamp :: "secs \<Rightarrow> string \<Rightarrow> secs option \<Rightarrow> secs option" where
  "prepared_stamp now st old =
    (if st = ''ready'' then (case old of Some t \<Rightarrow> Some t | None \<Rightarrow> Some now) else None)"

definition upsert_puzzle :: "secs \<Rightarrow> int \<Rightarrow> puzzle \<Rightarrow> int \<Rightarrow> game_db \<Rightarrow> game_db \<times> (daily_error + puzzle)" where
  "upsert_puzzle now d q expected_revision db =
    (let vals = upsert_values d q in
     if expected_revision < 0 then (db, Inl (DailyValueError ''expected_revision must be a nonnegative integer''))
     else if expected_revision = 0 \<and> dict_get (puzzles db) d = None then
       (let row = vals\<lparr>puzzle_revision := 1, prepared_at := prepared_stamp now (puzzle_status vals) None, played := False\<rparr>
        in (db\<lparr>puzzles := dict_set (puzzles db) d row\<rparr>, Inr (row_to_puzzle row)))
     else case locked_puzzle db d False of
       None \<Rightarrow> (db, Inl (PuzzleConflict 0 ''revision_conflict'' None))
     | Some existing \<Rightarrow>
        (if expected_revision \<noteq> puzzle_revision existing
         then (db, Inl (PuzzleConflict (puzzle_revision existing) ''revision_conflict'' (Some existing)))
         else if played existing \<and> gameplay existing \<noteq> gameplay vals
         then (db, Inl (PuzzleConflict (puzzle_revision existing) ''puzzle_in_use'' (Some existing)))
         else
           (let row = vals\<lparr>puzzle_revision := puzzle_revision existing + 1,
                           prepared_at := prepared_stamp now (puzzle_status vals) (prepared_at existing), played := False\<rparr>
            in (db\<lparr>puzzles := dict_set (puzzles db) d row\<rparr>, Inr ((row_to_puzzle row)\<lparr>played := played existing\<rparr>)))))"

definition set_puzzle_status :: "secs \<Rightarrow> int \<Rightarrow> string \<Rightarrow> int \<Rightarrow> game_db \<Rightarrow> game_db \<times> (daily_error + puzzle)" where
  "set_puzzle_status now d st expected_revision db =
    (if st \<notin> {''ready'', ''disabled''} then (db, Inl (DailyValueError ''status must be ready or disabled''))
     else if expected_revision < 1 then (db, Inl (DailyValueError ''expected_revision must be a positive integer''))
     else case (dict_get (puzzles db) d, locked_puzzle db d False) of
       (Some row, Some existing) \<Rightarrow>
         (if puzzle_revision existing \<noteq> expected_revision
          then (db, Inl (PuzzleConflict (puzzle_revision existing) ''revision_conflict'' (Some existing)))
          else
            (let row1 = row\<lparr>puzzle_status := st, puzzle_revision := puzzle_revision row + 1,
                            prepared_at := prepared_stamp now st (prepared_at row)\<rparr>
             in (db\<lparr>puzzles := dict_set (puzzles db) d row1\<rparr>,
                 Inr ((row_to_puzzle row1)\<lparr>played := played existing\<rparr>))))
     | _ \<Rightarrow> (db, Inl (PuzzleConflict 0 ''revision_conflict'' None)))"

section \<open>Default puzzles\<close>

definition SNAKE_PATHS :: "(nat \<times> nat) list list" where
  "SNAKE_PATHS =
    [[(0, 3), (1, 3), (2, 3), (3, 3), (3, 2), (2, 2), (1, 2), (0, 2), (0, 1), (1, 1), (2, 1), (3, 1)],
     [(3, 3), (2, 3), (1, 3), (0, 3), (0, 2), (1, 2), (2, 2), (3, 2), (3, 1), (2, 1), (1, 1), (0, 1)],
     [(0, 0), (0, 1), (0, 2), (0, 3), (1, 3), (1, 2), (1, 1), (1, 0), (2, 0), (2, 1), (2, 2), (2, 3)],
     [(3, 0), (3, 1), (3, 2), (3, 3), (2, 3), (2, 2), (2, 1), (2, 0), (1, 0), (1, 1), (1, 2), (1, 3)]]"

definition GOAL_PATTERNS :: "(string \<times> int \<times> int \<times> int list) list" where
  "GOAL_PATTERNS =
    [(''tile'', 256, 58, [128, 64, 32, 16, 8, 4, 2, 2]),
     (''tile'', 512, 74, [128, 128, 64, 32, 16, 8, 4, 2]),
     (''tile'', 512, 78, [256, 64, 32, 16, 8, 4, 4, 2]),
     (''total'', 768, 88, [256, 128, 64, 64, 32, 16, 8, 4]),
     (''tile'', 256, 54, [128, 64, 64, 32, 16, 8, 4, 2]),
     (''tile'', 512, 82, [128, 64, 64, 32, 16, 16, 8, 4])]"

text \<open>\<open>rng.choice\<close> is the parameter \<open>pick\<close>: the draw for the value at an index from a window of cells.\<close>

fun place_values :: "(nat \<Rightarrow> (nat \<times> nat) list \<Rightarrow> nat \<times> nat) \<Rightarrow> (nat \<times> nat) list \<Rightarrow> nat \<Rightarrow> (nat \<times> nat) list \<Rightarrow> int list \<Rightarrow>
    board \<Rightarrow> board" where
  "place_values pick path i used [] b = b"
| "place_values pick path i used (v # vs) b =
    (let near = filter (\<lambda>c. c \<notin> set used) (take 4 (drop i path));
         window = (if near = [] then filter (\<lambda>c. c \<notin> set used) path else near)
     in if window = [] then b
        else (let c = pick i window in
              place_values pick path (i + 1) (c # used) vs (b[snd c := (b ! snd c)[fst c := v]])))"

definition board_from_values :: "(nat \<Rightarrow> (nat \<times> nat) list \<Rightarrow> nat \<times> nat) \<Rightarrow> nat \<Rightarrow> bool \<Rightarrow> int list \<Rightarrow> board" where
  "board_from_values pick path_no reversed vals =
    (let path = (if reversed then rev (SNAKE_PATHS ! path_no) else SNAKE_PATHS ! path_no) in
     place_values pick path 0 [] vals (replicate DEFAULT_BOARD_SIZE (replicate DEFAULT_BOARD_SIZE 0)))"

definition build_default_puzzle :: "(nat \<Rightarrow> puzzle) \<Rightarrow> (puzzle \<Rightarrow> string) \<Rightarrow> (board \<Rightarrow> string) \<Rightarrow> string list \<Rightarrow> string list \<Rightarrow> puzzle" where
  "build_default_puzzle cand psig bsig used used_boards =
    (case List.find (\<lambda>a. psig (cand a) \<notin> set used \<and> bsig (puzzle_board (cand a)) \<notin> set used_boards) [0..<128] of
       Some a \<Rightarrow> cand a
     | None \<Rightarrow> cand 0)"

definition recent_puzzles :: "nat \<Rightarrow> game_db \<Rightarrow> puzzle list" where
  "recent_puzzles n db =
    take n (rev (sort_key puzzle_date (filter (\<lambda>p. puzzle_status p \<noteq> ''disabled'') (dict_values (puzzles db)))))"

text \<open>The existing rows are read in \<open>db0\<close> and the insert runs on \<open>db\<close>: other transactions may have
  committed between the two.\<close>

definition ensure_puzzle :: "(nat \<Rightarrow> puzzle) \<Rightarrow> (puzzle \<Rightarrow> string) \<Rightarrow> (board \<Rightarrow> string) \<Rightarrow> secs \<Rightarrow> int \<Rightarrow> game_db \<Rightarrow> game_db \<Rightarrow>
    game_db \<times> (daily_error + puzzle)" where
  "ensure_puzzle cand psig bsig now d db0 db =
    (case get_puzzle db0 d of
       Some p \<Rightarrow> (db, Inr p)
     | None \<Rightarrow>
        (let default = build_default_puzzle cand psig bsig
               (map (\<lambda>p. psig (row_to_puzzle p)) (recent_puzzles 730 db0))
               (map (\<lambda>p. bsig (puzzle_board p)) (recent_puzzles 730 db0))
         in case upsert_puzzle now d default 0 db of
              (db1, Inl (PuzzleConflict rv reason (Some p))) \<Rightarrow> (db1, Inr p)
            | (db1, r) \<Rightarrow> (db1, r)))"

section \<open>Results\<close>

definition new_result :: "secs \<Rightarrow> int \<Rightarrow> puzzle \<Rightarrow> game_result" where
  "new_result now uid p =
    \<lparr>result_user = uid, result_date = puzzle_date p, result_status = ''active'', result_board = puzzle_board p,
     spawn_index = 0, moves_made = 0, merge_score = 0, final_score = 0, elapsed_ms = 0, started_at = now,
     won_at = None, finished_at = None, recordable = True\<rparr>"

definition start_locked :: "secs \<Rightarrow> int \<Rightarrow> puzzle \<Rightarrow> game_db \<Rightarrow> game_db \<times> (daily_error + puzzle \<times> game_result)" where
  "start_locked now uid current db =
    (case require_available current of
       Some err \<Rightarrow> (db, Inl err)
     | None \<Rightarrow>
        (case dict_get (results db) (uid, puzzle_date current) of
           Some row \<Rightarrow> (db, Inr (current\<lparr>played := True\<rparr>, row_to_result row))
         | None \<Rightarrow>
            (let row = new_result now uid current
             in (db\<lparr>results := dict_set (results db) (uid, puzzle_date current) row\<rparr>,
                 Inr (current\<lparr>played := True\<rparr>, row_to_result row)))))"

definition start_puzzle :: "secs \<Rightarrow> int \<Rightarrow> puzzle \<Rightarrow> game_db \<Rightarrow> game_db \<times> (daily_error + puzzle \<times> game_result)" where
  "start_puzzle now uid p db =
    (case locked_puzzle db (puzzle_date p) True of
       Some current \<Rightarrow> start_locked now uid current db
     | None \<Rightarrow>
        (let db1 = fst (upsert_puzzle now (puzzle_date p) p 0 db) in
         case locked_puzzle db1 (puzzle_date p) True of
           None \<Rightarrow> (db, Inl (PuzzleConflict 0 ''revision_conflict'' None))
         | Some current \<Rightarrow>
            (case start_locked now uid current db1 of
               (db2, Inl err) \<Rightarrow> (db, Inl err)
             | (db2, Inr v) \<Rightarrow> (db2, Inr v))))"

record move_update =
  mu_board :: board
  mu_spawn_index :: int
  mu_moves :: int
  mu_merge_score :: int
  mu_elapsed_ms :: int
  mu_status :: string
  mu_final_score :: int
  mu_won :: bool
  mu_finished :: bool
  mu_recordable :: bool

definition updated_result :: "secs \<Rightarrow> move_update \<Rightarrow> game_result \<Rightarrow> game_result" where
  "updated_result now u r =
    r\<lparr>result_status := mu_status u, result_board := clone_board (mu_board u), spawn_index := max 0 (mu_spawn_index u),
      moves_made := max 0 (mu_moves u), merge_score := max 0 (mu_merge_score u), elapsed_ms := max 0 (mu_elapsed_ms u),
      final_score := (if mu_won u then max 0 (mu_final_score u) else final_score r),
      won_at := (if mu_won u then Some now else won_at r),
      finished_at := (if mu_finished u then Some now else finished_at r),
      recordable := (recordable r \<and> mu_recordable u)\<rparr>"

definition update_result_after_move :: "secs \<Rightarrow> int \<Rightarrow> int \<Rightarrow> move_update \<Rightarrow> game_db \<Rightarrow>
    game_db \<times> (daily_error + game_result)" where
  "update_result_after_move now uid d u db =
    (case locked_puzzle db d True of
       None \<Rightarrow> (db, Inl (PuzzleConflict 0 ''revision_conflict'' None))
     | Some p \<Rightarrow>
        (case require_available p of
           Some err \<Rightarrow> (db, Inl err)
         | None \<Rightarrow>
            (case dict_get (results db) (uid, d) of
               None \<Rightarrow> (db, Inl ResultMissing)
             | Some r \<Rightarrow>
                (if result_status r = ''active'' then
                   (let r1 = updated_result now u r
                    in (db\<lparr>results := dict_set (results db) (uid, d) r1\<rparr>, Inr (row_to_result r1)))
                 else (db, Inr (row_to_result r))))))"

definition update_result_elapsed :: "int \<Rightarrow> int \<Rightarrow> int \<Rightarrow> game_db \<Rightarrow> game_db \<times> (daily_error + game_result option)" where
  "update_result_elapsed uid d ms db =
    (case locked_puzzle db d True of
       None \<Rightarrow> (db, Inl (PuzzleConflict 0 ''revision_conflict'' None))
     | Some p \<Rightarrow>
        (case require_available p of
           Some err \<Rightarrow> (db, Inl err)
         | None \<Rightarrow>
            (case dict_get (results db) (uid, d) of
               Some r \<Rightarrow>
                (if result_status r = ''active'' then
                   (let r1 = r\<lparr>elapsed_ms := max 0 ms\<rparr>
                    in (db\<lparr>results := dict_set (results db) (uid, d) r1\<rparr>, Inr (Some (row_to_result r1))))
                 else (db, Inr None))
             | None \<Rightarrow> (db, Inr None))))"

section \<open>Processing a move\<close>

definition elapsed_between :: "secs \<Rightarrow> secs \<Rightarrow> int" where
  "elapsed_between started now =
    max 0 (let q = (now - started) * 1000 in if q < 0 then ceiling q else floor q)"

definition resolve_elapsed_ms :: "game_result \<Rightarrow> secs \<Rightarrow> int option \<Rightarrow> int" where
  "resolve_elapsed_ms r now client =
    (let wall = elapsed_between (started_at r) now in
     case client of None \<Rightarrow> max (elapsed_ms r) wall | Some ms \<Rightarrow> min (max 0 ms) wall)"

definition validated_client_move :: "(string \<Rightarrow> json option) \<Rightarrow> string option \<Rightarrow> json option \<Rightarrow> json option \<Rightarrow>
    game_error + move_outcome option" where
  "validated_client_move loads direction before_v after_v =
    (case (before_v, after_v) of
       (Some bv, Some av) \<Rightarrow>
         (case apply_move (normalize_board loads bv) direction of
            Inl err \<Rightarrow> Inl err
          | Inr out \<Rightarrow>
             Inr (if \<not> moved out \<or> moved_board out \<noteq> normalize_board loads av then None else Some out))
     | _ \<Rightarrow> Inr None)"

record move_event =
  ev_board :: board
  ev_status :: string
  ev_moved :: bool
  ev_gained :: int
  ev_spawned :: "spawn option"
  ev_spawn_index :: int
  ev_moves :: int
  ev_merge_score :: int
  ev_elapsed_ms :: int
  ev_final_score :: int
  ev_recordable :: bool
  ev_completed :: bool
  ev_game_over :: bool

definition event_from_result :: "game_result \<Rightarrow> bool \<Rightarrow> int \<Rightarrow> spawn option \<Rightarrow> bool \<Rightarrow> move_event" where
  "event_from_result r mv gained sp practice =
    (let public_status = (if practice then ''active'' else result_status r) in
     \<lparr>ev_board = result_board r, ev_status = public_status, ev_moved = mv, ev_gained = gained, ev_spawned = sp,
      ev_spawn_index = spawn_index r, ev_moves = moves_made r, ev_merge_score = merge_score r,
      ev_elapsed_ms = elapsed_ms r, ev_final_score = final_score r, ev_recordable = (recordable r \<and> \<not> practice),
      ev_completed = (result_status r = ''won'' \<and> \<not> practice), ev_game_over = (public_status \<in> {''won'', ''lost''})\<rparr>)"

text \<open>What \<open>process_move\<close> computes from the puzzle and the result it read, up to the update: nothing when
  the board does not change, else the update, the gained score and the new tile.\<close>

definition plan_move :: "(string \<Rightarrow> nat list) \<Rightarrow> (string \<Rightarrow> json option) \<Rightarrow> secs \<Rightarrow> puzzle \<Rightarrow> game_result \<Rightarrow> string option \<Rightarrow>
    int option \<Rightarrow> json option \<Rightarrow> json option \<Rightarrow> game_error + (move_update \<times> int \<times> spawn option) option" where
  "plan_move digest loads now p r direction client_ms before_v after_v =
    (case validated_client_move loads direction before_v after_v of
       Inl err \<Rightarrow> Inl err
     | Inr client \<Rightarrow>
        (let rec_ok = (recordable r \<and>
               (client = None \<or> (case before_v of Some bv \<Rightarrow> normalize_board loads bv = result_board r | None \<Rightarrow> False)))
         in case (case client of Some out \<Rightarrow> Inr out | None \<Rightarrow> apply_move (result_board r) direction) of
              Inl err \<Rightarrow> Inl err
            | Inr out \<Rightarrow>
               (if \<not> moved out then Inr None
                else
                  (let sp = spawn_tile digest (moved_board out) (spawn_sequence p) (spawn_index r) (puzzle_seed p);
                       next_board = spawn_board sp;
                       mvs = moves_made r + 1;
                       msc = merge_score r + gained_score out;
                       ems = resolve_elapsed_ms r now client_ms;
                       won = goal_reached next_board (goal_type p) (goal_value p);
                       lost = (\<not> won \<and> \<not> moves_available next_board)
                   in Inr (Some
                        (\<lparr>mu_board = next_board, mu_spawn_index = spawn_index_after sp, mu_moves = mvs,
                          mu_merge_score = msc, mu_elapsed_ms = ems,
                          mu_status = (if won then ''won'' else if lost then ''lost'' else ''active''),
                          mu_final_score = (if won then compute_final_score (goal_value p) (target_seconds p) (par_moves p) mvs ems msc else 0),
                          mu_won = won, mu_finished = (won \<or> lost), mu_recordable = rec_ok\<rparr>,
                         gained_score out, spawned sp))))))"

definition get_daily_state :: "(nat \<Rightarrow> puzzle) \<Rightarrow> (puzzle \<Rightarrow> string) \<Rightarrow> (board \<Rightarrow> string) \<Rightarrow> secs \<Rightarrow> int \<Rightarrow> int \<Rightarrow> game_db \<Rightarrow>
    game_db \<times> (daily_error + puzzle \<times> game_result)" where
  "get_daily_state cand psig bsig now today uid db =
    (case ensure_puzzle cand psig bsig now today db db of
       (db1, Inl err) \<Rightarrow> (db1, Inl err)
     | (db1, Inr p) \<Rightarrow>
        (case require_available p of
           Some err \<Rightarrow> (db1, Inl err)
         | None \<Rightarrow> start_puzzle now uid p db1))"

text \<open>The second half of \<open>process_move\<close>, from the state it read; \<open>db\<close> is the database at the update.\<close>

definition finish_move :: "(string \<Rightarrow> nat list) \<Rightarrow> (string \<Rightarrow> json option) \<Rightarrow> secs \<Rightarrow> int \<Rightarrow> puzzle \<Rightarrow> game_result \<Rightarrow> string option \<Rightarrow>
    int option \<Rightarrow> json option \<Rightarrow> json option \<Rightarrow> game_db \<Rightarrow> game_db \<times> (daily_error + move_event)" where
  "finish_move digest loads now uid p r direction client_ms before_v after_v db =
    (case require_available p of
       Some err \<Rightarrow> (db, Inl err)
     | None \<Rightarrow>
        (if result_status r \<noteq> ''active'' then (db, Inr (event_from_result r False 0 None False))
         else case plan_move digest loads now p r direction client_ms before_v after_v of
           Inl err \<Rightarrow> (db, Inl (MoveError err))
         | Inr None \<Rightarrow> (db, Inr (event_from_result r False 0 None False))
         | Inr (Some (u, gained, sp)) \<Rightarrow>
            (case update_result_after_move now uid (puzzle_date p) u db of
               (db1, Inl err) \<Rightarrow> (db1, Inl err)
             | (db1, Inr r1) \<Rightarrow> (db1, Inr (event_from_result r1 True gained sp False)))))"

definition process_move :: "(nat \<Rightarrow> puzzle) \<Rightarrow> (puzzle \<Rightarrow> string) \<Rightarrow> (board \<Rightarrow> string) \<Rightarrow> (string \<Rightarrow> nat list) \<Rightarrow>
    (string \<Rightarrow> json option) \<Rightarrow> secs \<Rightarrow> int \<Rightarrow> int \<Rightarrow> string option \<Rightarrow> int option \<Rightarrow> json option \<Rightarrow> json option \<Rightarrow> game_db \<Rightarrow>
    game_db \<times> (daily_error + move_event)" where
  "process_move cand psig bsig digest loads now today uid direction client_ms before_v after_v db =
    (case get_daily_state cand psig bsig now today uid db of
       (db1, Inl err) \<Rightarrow> (db1, Inl err)
     | (db1, Inr (p, r)) \<Rightarrow> finish_move digest loads now uid p r direction client_ms before_v after_v db1)"

definition practice_base_result :: "game_result \<Rightarrow> puzzle \<Rightarrow> game_result" where
  "practice_base_result r p =
    (if result_status r \<noteq> ''lost'' then r
     else r\<lparr>result_status := ''practice'', result_board := clone_board (puzzle_board p), spawn_index := 0, moves_made := 0,
            merge_score := 0, final_score := 0, elapsed_ms := 0, recordable := False\<rparr>)"

definition process_practice_move :: "(string \<Rightarrow> nat list) \<Rightarrow> game_result \<Rightarrow> puzzle \<Rightarrow> string option \<Rightarrow> daily_error + move_event" where
  "process_practice_move digest r p direction =
    (case require_available p of
       Some err \<Rightarrow> Inl err
     | None \<Rightarrow>
        (let base = practice_base_result r p in
         case apply_move (result_board base) direction of
           Inl err \<Rightarrow> Inl (MoveError err)
         | Inr out \<Rightarrow>
            (if \<not> moved out then Inr (event_from_result (base\<lparr>recordable := False\<rparr>) False 0 None True)
             else
               (let sp = spawn_tile digest (moved_board out) (spawn_sequence p) (spawn_index base) (puzzle_seed p @ '':practice'')
                in Inr (event_from_result
                     (base\<lparr>result_status := ''practice'', result_board := spawn_board sp, spawn_index := spawn_index_after sp,
                           moves_made := moves_made base + 1, merge_score := merge_score base + gained_score out, recordable := False\<rparr>)
                     True (gained_score out) (spawned sp) True)))))"

section \<open>Normalised rows\<close>

lemma clone_idem [simp]: "clone_board (clone_board b) = clone_board b"
  by (rule clone_board_id) (simp add: clone_board_def wf_normalize)

lemma goal_type_range: "normalize_goal_type v \<in> {''tile'', ''total''}"
  by (simp add: normalize_goal_type_def Let_def)

lemma goal_type_idem [simp]: "normalize_goal_type (Some (normalize_goal_type v)) = normalize_goal_type v"
proof -
  have "normalize_goal_type (Some ''tile'') = ''tile''" "normalize_goal_type (Some ''total'') = ''total''" by code_simp+
  then show ?thesis using goal_type_range [of v] by auto
qed

lemma spawn_json_item:
  assumes "spawn_item v = Some sp"
  shows "spawn_item (spawn_json sp) = Some sp"
  using spawn_item_range [OF assms] by (cases sp) (auto simp: spawn_item_def spawn_json_def DEFAULT_BOARD_SIZE_def)

lemma clone_spawns_idem [simp]: "clone_spawns (clone_spawns sps) = clone_spawns sps"
proof -
  have "List.map_filter spawn_item (map spawn_json (List.map_filter spawn_item items)) = List.map_filter spawn_item items" for items
    by (induction items) (auto simp: List.map_filter_simps spawn_json_item split: option.splits)
  then show ?thesis by (simp add: clone_spawns_def normalize_spawns_parsed_def)
qed

definition row_ok :: "int \<Rightarrow> puzzle \<Rightarrow> bool" where
  "row_ok d p \<longleftrightarrow> puzzle_date p = d \<and> 1 \<le> puzzle_revision p \<and> row_to_puzzle p = p \<and> \<not> played p"

lemma upsert_row_ok:
  "1 \<le> rv \<Longrightarrow> row_ok d ((upsert_values d q)\<lparr>puzzle_revision := rv, prepared_at := pa, played := False\<rparr>)"
  by (simp add: row_ok_def row_to_puzzle_def upsert_values_def)

lemma status_row_ok:
  "row_ok d p \<Longrightarrow> st \<in> {''ready'', ''disabled''} \<Longrightarrow>
    row_ok d (p\<lparr>puzzle_status := st, puzzle_revision := puzzle_revision p + 1, prepared_at := pa\<rparr>)"
  by (cases p) (auto simp: row_ok_def row_to_puzzle_def)

lemma locked_row:
  assumes "dict_get (puzzles db) d = Some p" and "row_ok d p"
  shows "locked_puzzle db d fp = Some (if fp then p else p\<lparr>played := puzzle_played db d\<rparr>)"
proof -
  have "p\<lparr>played := False\<rparr> = p" using assms(2) by (cases p) (simp add: row_ok_def)
  then have row: "row_to_puzzle (p\<lparr>played := False\<rparr>) = p" by (rule ssubst) (use assms(2) in \<open>simp add: row_ok_def\<close>)
  show ?thesis by (simp add: locked_puzzle_def Let_def row assms(1))
qed

lemma locked_none: "dict_get (puzzles db) d = None \<Longrightarrow> locked_puzzle db d fp = None"
  by (simp add: locked_puzzle_def)

lemma gameplay_fields [simp]:
  "gameplay (p\<lparr>puzzle_status := st\<rparr>) = gameplay p" "gameplay (p\<lparr>puzzle_revision := rv\<rparr>) = gameplay p"
  "gameplay (p\<lparr>prepared_at := pa\<rparr>) = gameplay p" "gameplay (p\<lparr>played := b\<rparr>) = gameplay p"
  by (simp_all add: gameplay_def)

section \<open>Runs\<close>

definition db_ok :: "game_db \<Rightarrow> bool" where
  "db_ok db \<longleftrightarrow>
    (\<forall>d p. dict_get (puzzles db) d = Some p \<longrightarrow> row_ok d p) \<and>
    (\<forall>k r. dict_get (results db) k = Some r \<longrightarrow> dict_get (puzzles db) (snd k) \<noteq> None)"

definition db_progress :: "game_db \<Rightarrow> game_db \<Rightarrow> bool" where
  "db_progress db db' \<longleftrightarrow>
    (\<forall>k r. dict_get (results db) k = Some r \<longrightarrow>
      (\<exists>r'. dict_get (results db') k = Some r' \<and> (result_status r \<noteq> ''active'' \<longrightarrow> r' = r) \<and> (recordable r' \<longrightarrow> recordable r))) \<and>
    (\<forall>d p. dict_get (puzzles db) d = Some p \<longrightarrow>
      (\<exists>p'. dict_get (puzzles db') d = Some p' \<and> puzzle_revision p \<le> puzzle_revision p' \<and>
        (puzzle_revision p' = puzzle_revision p \<longrightarrow> p' = p) \<and> (puzzle_played db d \<longrightarrow> gameplay p' = gameplay p)))"

lemma played_iff: "puzzle_played db d \<longleftrightarrow> (\<exists>u. dict_get (results db) (u, d) \<noteq> None)"
  by (force simp: puzzle_played_def set_dict_keys_iff)

lemma db_progress_refl [simp]: "db_progress db db"
  by (auto simp: db_progress_def)

lemma db_progress_result:
  assumes "db_progress db db'" and "dict_get (results db) k = Some r"
  obtains r' where "dict_get (results db') k = Some r'" "result_status r \<noteq> ''active'' \<longrightarrow> r' = r" "recordable r' \<longrightarrow> recordable r"
  using assms unfolding db_progress_def by blast

lemma db_progress_puzzle:
  assumes "db_progress db db'" and "dict_get (puzzles db) d = Some p"
  obtains p' where "dict_get (puzzles db') d = Some p'" "puzzle_revision p \<le> puzzle_revision p'"
    "puzzle_revision p' = puzzle_revision p \<longrightarrow> p' = p" "puzzle_played db d \<longrightarrow> gameplay p' = gameplay p"
  using assms unfolding db_progress_def by blast

lemma db_progress_played: "db_progress db db' \<Longrightarrow> puzzle_played db d \<Longrightarrow> puzzle_played db' d"
  unfolding played_iff by (metis db_progress_result not_None_eq)

lemma db_progress_trans:
  assumes a: "db_progress db db'" and b: "db_progress db' db''"
  shows "db_progress db db''"
proof -
  have "\<exists>r'. dict_get (results db'') k = Some r' \<and> (result_status r \<noteq> ''active'' \<longrightarrow> r' = r) \<and> (recordable r' \<longrightarrow> recordable r)"
    if "dict_get (results db) k = Some r" for k r
  proof -
    from a that obtain r1 where 1: "dict_get (results db') k = Some r1" "result_status r \<noteq> ''active'' \<longrightarrow> r1 = r" "recordable r1 \<longrightarrow> recordable r"
      by (rule db_progress_result)
    from b 1(1) obtain r2 where "dict_get (results db'') k = Some r2" "result_status r1 \<noteq> ''active'' \<longrightarrow> r2 = r1" "recordable r2 \<longrightarrow> recordable r1"
      by (rule db_progress_result)
    with 1 show ?thesis by metis
  qed
  moreover have "\<exists>p'. dict_get (puzzles db'') d = Some p' \<and> puzzle_revision p \<le> puzzle_revision p' \<and>
        (puzzle_revision p' = puzzle_revision p \<longrightarrow> p' = p) \<and> (puzzle_played db d \<longrightarrow> gameplay p' = gameplay p)"
    if "dict_get (puzzles db) d = Some p" for d p
  proof -
    from a that obtain p1 where 1: "dict_get (puzzles db') d = Some p1" "puzzle_revision p \<le> puzzle_revision p1"
      "puzzle_revision p1 = puzzle_revision p \<longrightarrow> p1 = p" "puzzle_played db d \<longrightarrow> gameplay p1 = gameplay p" by (rule db_progress_puzzle)
    from b 1(1) obtain p2 where 2: "dict_get (puzzles db'') d = Some p2" "puzzle_revision p1 \<le> puzzle_revision p2"
      "puzzle_revision p2 = puzzle_revision p1 \<longrightarrow> p2 = p1" "puzzle_played db' d \<longrightarrow> gameplay p2 = gameplay p1" by (rule db_progress_puzzle)
    have "p2 = p" if "puzzle_revision p2 = puzzle_revision p"
    proof -
      from that 1(2) 2(2) have "puzzle_revision p2 = puzzle_revision p1" "puzzle_revision p1 = puzzle_revision p" by simp_all
      with 1(3) 2(3) show ?thesis by simp
    qed
    with 1 2 db_progress_played [OF a] show ?thesis by (intro exI [of _ p2]) auto
  qed
  ultimately show ?thesis by (simp add: db_progress_def)
qed

text \<open>A statement changes one row of one table.\<close>

lemma put_puzzle_step:
  assumes ok: "db_ok db" and row: "row_ok d p'"
    and rv: "\<And>p. dict_get (puzzles db) d = Some p \<Longrightarrow> puzzle_revision p < puzzle_revision p' \<and> (puzzle_played db d \<longrightarrow> gameplay p' = gameplay p)"
  shows "db_ok (db\<lparr>puzzles := dict_set (puzzles db) d p'\<rparr>) \<and> db_progress db (db\<lparr>puzzles := dict_set (puzzles db) d p'\<rparr>)"
  using ok row rv by (auto simp: db_ok_def db_progress_def)

lemma put_result_step:
  assumes ok: "db_ok db" and "dict_get (puzzles db) (snd k) \<noteq> None"
    and "\<And>r. dict_get (results db) k = Some r \<Longrightarrow> result_status r = ''active'' \<and> (recordable r' \<longrightarrow> recordable r)"
  shows "db_ok (db\<lparr>results := dict_set (results db) k r'\<rparr>) \<and> db_progress db (db\<lparr>results := dict_set (results db) k r'\<rparr>)"
  using assms by (auto simp: db_ok_def db_progress_def)

lemma row_okD: "db_ok db \<Longrightarrow> dict_get (puzzles db) d = Some p \<Longrightarrow> row_ok d p"
  by (simp add: db_ok_def)

lemma upsert_step:
  assumes ok: "db_ok db"
  shows "db_ok (fst (upsert_puzzle now d q rv db)) \<and> db_progress db (fst (upsert_puzzle now d q rv db))"
proof (cases "dict_get (puzzles db) d")
  case None
  have "db_ok (db\<lparr>puzzles := dict_set (puzzles db) d ((upsert_values d q)\<lparr>puzzle_revision := 1, prepared_at := pa, played := False\<rparr>)\<rparr>) \<and>
    db_progress db (db\<lparr>puzzles := dict_set (puzzles db) d ((upsert_values d q)\<lparr>puzzle_revision := 1, prepared_at := pa, played := False\<rparr>)\<rparr>)" for pa
    using None by (intro put_puzzle_step [OF ok] upsert_row_ok) simp_all
  with None ok show ?thesis by (auto simp: upsert_puzzle_def Let_def locked_none)
next
  case (Some p)
  have r: "row_ok d p" using row_okD [OF ok Some] .
  show ?thesis
  proof (cases "rv = puzzle_revision p \<and> \<not> (puzzle_played db d \<and> gameplay p \<noteq> gameplay (upsert_values d q))")
    case False
    with Some ok show ?thesis using r by (auto simp: upsert_puzzle_def Let_def locked_row [OF Some r])
  next
    case True
    have "db_ok (db\<lparr>puzzles := dict_set (puzzles db) d ((upsert_values d q)\<lparr>puzzle_revision := puzzle_revision p + 1, prepared_at := pa, played := False\<rparr>)\<rparr>) \<and>
      db_progress db (db\<lparr>puzzles := dict_set (puzzles db) d ((upsert_values d q)\<lparr>puzzle_revision := puzzle_revision p + 1, prepared_at := pa, played := False\<rparr>)\<rparr>)" for pa
      using Some True r by (intro put_puzzle_step [OF ok] upsert_row_ok) (auto simp: row_ok_def)
    with True Some ok show ?thesis using r by (auto simp: upsert_puzzle_def Let_def locked_row [OF Some r])
  qed
qed

lemma status_step:
  assumes ok: "db_ok db"
  shows "db_ok (fst (set_puzzle_status now d st rv db)) \<and> db_progress db (fst (set_puzzle_status now d st rv db))"
proof (cases "dict_get (puzzles db) d")
  case None
  with ok show ?thesis by (auto simp: set_puzzle_status_def)
next
  case (Some p)
  have r: "row_ok d p" using row_okD [OF ok Some] .
  have "db_ok (db\<lparr>puzzles := dict_set (puzzles db) d (p\<lparr>puzzle_status := st, puzzle_revision := puzzle_revision p + 1, prepared_at := pa\<rparr>)\<rparr>) \<and>
    db_progress db (db\<lparr>puzzles := dict_set (puzzles db) d (p\<lparr>puzzle_status := st, puzzle_revision := puzzle_revision p + 1, prepared_at := pa\<rparr>)\<rparr>)"
    if "st \<in> {''ready'', ''disabled''}" for pa
    using Some that by (intro put_puzzle_step [OF ok] status_row_ok [OF r]) auto
  with Some ok show ?thesis by (auto simp: set_puzzle_status_def Let_def locked_row [OF Some r])
qed

lemma start_locked_step:
  assumes ok: "db_ok db" and "dict_get (puzzles db) (puzzle_date p) \<noteq> None"
  shows "db_ok (fst (start_locked now uid p db)) \<and> db_progress db (fst (start_locked now uid p db))"
proof (cases "dict_get (results db) (uid, puzzle_date p)")
  case None
  have "db_ok (db\<lparr>results := dict_set (results db) (uid, puzzle_date p) (new_result now uid p)\<rparr>) \<and>
    db_progress db (db\<lparr>results := dict_set (results db) (uid, puzzle_date p) (new_result now uid p)\<rparr>)"
    using assms(2) None by (intro put_result_step [OF ok]) simp_all
  with None ok show ?thesis by (simp add: start_locked_def Let_def split: option.split)
qed (simp add: start_locked_def ok split: option.split)

lemma start_step:
  assumes ok: "db_ok db"
  shows "db_ok (fst (start_puzzle now uid p db)) \<and> db_progress db (fst (start_puzzle now uid p db))"
proof (cases "dict_get (puzzles db) (puzzle_date p)")
  case (Some q)
  have r: "row_ok (puzzle_date p) q" using row_okD [OF ok Some] .
  have "puzzle_date q = puzzle_date p" using r by (simp add: row_ok_def)
  with Some start_locked_step [OF ok, of q now uid] show ?thesis by (simp add: start_puzzle_def locked_row [OF Some r])
next
  case None
  define db1 where "db1 = fst (upsert_puzzle now (puzzle_date p) p 0 db)"
  have s1: "db_ok db1" "db_progress db db1" using upsert_step [OF ok] by (auto simp: db1_def)
  show ?thesis
  proof (cases "dict_get (puzzles db1) (puzzle_date p)")
    case none1: None
    then show ?thesis using ok by (simp add: start_puzzle_def locked_none None none1 db1_def [symmetric])
  next
    case (Some q)
    have r: "row_ok (puzzle_date p) q" using row_okD [OF s1(1) Some] .
    have "puzzle_date q = puzzle_date p" using r by (simp add: row_ok_def)
    with Some start_locked_step [OF s1(1), of q now uid] s1 ok show ?thesis
      by (auto simp: start_puzzle_def locked_none None locked_row [OF Some r] db1_def [symmetric]
          intro: db_progress_trans split: prod.split sum.split)
  qed
qed

lemma move_step:
  assumes ok: "db_ok db"
  shows "db_ok (fst (update_result_after_move now uid d u db)) \<and> db_progress db (fst (update_result_after_move now uid d u db))"
proof (cases "dict_get (results db) (uid, d)")
  case None
  with ok show ?thesis by (simp add: update_result_after_move_def split: option.split)
next
  case (Some r)
  have "dict_get (puzzles db) d \<noteq> None" using ok Some by (fastforce simp: db_ok_def)
  then have "db_ok (db\<lparr>results := dict_set (results db) (uid, d) (updated_result now u r)\<rparr>) \<and>
    db_progress db (db\<lparr>results := dict_set (results db) (uid, d) (updated_result now u r)\<rparr>)" if "result_status r = ''active''"
    using that Some by (intro put_result_step [OF ok]) (simp_all add: updated_result_def)
  with Some ok show ?thesis by (simp add: update_result_after_move_def Let_def split: option.split)
qed

lemma elapsed_step:
  assumes ok: "db_ok db"
  shows "db_ok (fst (update_result_elapsed uid d ms db)) \<and> db_progress db (fst (update_result_elapsed uid d ms db))"
proof (cases "dict_get (results db) (uid, d)")
  case None
  with ok show ?thesis by (simp add: update_result_elapsed_def split: option.split)
next
  case (Some r)
  have "dict_get (puzzles db) d \<noteq> None" using ok Some by (fastforce simp: db_ok_def)
  then have "db_ok (db\<lparr>results := dict_set (results db) (uid, d) (r\<lparr>elapsed_ms := max 0 ms\<rparr>)\<rparr>) \<and>
    db_progress db (db\<lparr>results := dict_set (results db) (uid, d) (r\<lparr>elapsed_ms := max 0 ms\<rparr>)\<rparr>)" if "result_status r = ''active''"
    using that Some by (intro put_result_step [OF ok]) simp_all
  with Some ok show ?thesis by (simp add: update_result_elapsed_def Let_def split: option.split)
qed

section \<open>Every operation as a step\<close>

text \<open>The transactions that write the two tables. \<open>DbMove\<close> is the second half of a move: what it read is
  arbitrary, since other transactions may have committed since.\<close>

datatype db_op =
  DbUpsert secs int puzzle int
  | DbStatus secs int string int
  | DbStart secs int puzzle
  | DbMove secs int puzzle game_result "string option" "int option" "json option" "json option"
  | DbElapsed int int int

fun db_step :: "(string \<Rightarrow> nat list) \<Rightarrow> (string \<Rightarrow> json option) \<Rightarrow> game_db \<Rightarrow> db_op \<Rightarrow> game_db" where
  "db_step digest loads db (DbUpsert now d q rv) = fst (upsert_puzzle now d q rv db)"
| "db_step digest loads db (DbStatus now d st rv) = fst (set_puzzle_status now d st rv db)"
| "db_step digest loads db (DbStart now uid p) = fst (start_puzzle now uid p db)"
| "db_step digest loads db (DbMove now uid p r dir ms bv av) = fst (finish_move digest loads now uid p r dir ms bv av db)"
| "db_step digest loads db (DbElapsed uid d ms) = fst (update_result_elapsed uid d ms db)"

lemma finish_move_step:
  assumes ok: "db_ok db"
  shows "db_ok (fst (finish_move digest loads now uid p r dir ms bv av db)) \<and>
    db_progress db (fst (finish_move digest loads now uid p r dir ms bv av db))"
proof -
  have "fst (finish_move digest loads now uid p r dir ms bv av db) \<in>
      insert db (range (\<lambda>u. fst (update_result_after_move now uid (puzzle_date p) u db)))"
    by (auto simp: finish_move_def image_iff split: option.split sum.split prod.split) (metis fst_conv)+
  then show ?thesis using move_step [OF ok] ok by auto
qed

lemma db_step_ok: "db_ok db \<Longrightarrow> db_ok (db_step digest loads db e) \<and> db_progress db (db_step digest loads db e)"
  by (cases e) (simp_all add: upsert_step status_step start_step finish_move_step elapsed_step)

interpretation dg: progress_run "db_step digest loads" db_ok db_progress
  for digest loads
  by unfold_locales (auto simp: db_step_ok intro: db_progress_trans)

text \<open>A finished game is final: once a result has left the status \<open>active\<close>, no sequence of edits,
  starts, moves and time updates, with whatever stale state the moves carry, changes any field of it.\<close>

lemma finished_result_frozen:
  assumes "db_ok db" and "dict_get (results db) k = Some r" and "result_status r \<noteq> ''active''"
  shows "dict_get (results (foldl (db_step digest loads) db ops)) k = Some r"
  using db_progress_result [OF dg.run_rel [OF assms(1)] assms(2)] assms(3) by metis

definition demo_puzzle :: puzzle where
  "demo_puzzle =
    \<lparr>puzzle_date = 7, puzzle_board = demo_board, goal_type = ''tile'', goal_value = 8, spawn_sequence = [],
     puzzle_seed = ''s'', par_moves = 5, target_seconds = 60, puzzle_status = ''ready'', solution_moves = [],
     prepared_at = None, puzzle_revision = 1, played = False\<rparr>"

definition demo_db :: game_db where
  "demo_db =
    \<lparr>puzzles = [(7, demo_puzzle)],
     results = [((1, 7), (new_result 0 1 demo_puzzle)\<lparr>result_status := ''won''\<rparr>), ((2, 7), new_result 0 2 demo_puzzle)]\<rparr>"

lemma demo_db_ok: "db_ok demo_db"
proof -
  have "row_to_puzzle demo_puzzle = demo_puzzle" by code_simp
  then show ?thesis by (auto simp: db_ok_def demo_db_def row_ok_def demo_puzzle_def)
qed

theorem finished_result_frozen_witness:
  "dict_get (results (foldl (db_step (\<lambda>t. replicate 32 7) (\<lambda>t. None)) demo_db
      [DbMove 1 1 demo_puzzle (new_result 0 1 demo_puzzle) (Some ''left'') None None None, DbElapsed 1 7 5])) (1, 7) =
    Some ((new_result 0 1 demo_puzzle)\<lparr>result_status := ''won''\<rparr>)"
  by (rule finished_result_frozen [OF demo_db_ok]) (simp_all add: demo_db_def)

text \<open>A puzzle somebody has started cannot be edited under the players: over every sequence of
  operations its board, goal, tile sequence, seed, par, target time and solution stay what they were.
  Its revision never decreases, and a revision that did not change means the row did not.\<close>

theorem played_puzzle_frozen:
  assumes "db_ok db" and "dict_get (puzzles db) d = Some p"
  shows "\<exists>p'. dict_get (puzzles (foldl (db_step digest loads) db ops)) d = Some p' \<and>
    puzzle_revision p \<le> puzzle_revision p' \<and> (puzzle_revision p' = puzzle_revision p \<longrightarrow> p' = p) \<and>
    (puzzle_played db d \<longrightarrow> gameplay p' = gameplay p)"
  using db_progress_puzzle [OF dg.run_rel [OF assms(1)] assms(2)] by metis

theorem played_puzzle_frozen_witness:
  "\<exists>p'. dict_get (puzzles (foldl (db_step (\<lambda>t. replicate 32 7) (\<lambda>t. None)) demo_db
      [DbUpsert 3 7 (demo_puzzle\<lparr>goal_value := 512\<rparr>) 1, DbStatus 4 7 ''disabled'' 1])) 7 = Some p' \<and> goal_value p' = 8"
proof -
  have "dict_get (puzzles demo_db) 7 = Some demo_puzzle" "puzzle_played demo_db 7" by code_simp+
  with played_puzzle_frozen [OF demo_db_ok, of 7 demo_puzzle "\<lambda>t. replicate 32 7" "\<lambda>t. None"
      "[DbUpsert 3 7 (demo_puzzle\<lparr>goal_value := 512\<rparr>) 1, DbStatus 4 7 ''disabled'' 1]"]
  show ?thesis by (auto simp: gameplay_def demo_puzzle_def)
qed

lemma spawned_board_wf:
  assumes "apply_move b dir = Inr out"
  shows "wf_board (spawn_board (spawn_tile digest (moved_board out) seqn i seed))"
proof -
  have wf: "wf_board (moved_board out)"
    using assms slide_props [OF wf_normalize] by (auto simp: apply_move_def clone_board_def split: sum.splits)
  show ?thesis
  proof (cases "available_cells (moved_board out) = []")
    case True
    with spawn_tile_cases [OF wf, of digest seqn i seed] wf show ?thesis by simp
  next
    case False
    with spawn_tile_cases [OF wf, of digest seqn i seed] obtain sp where
      "spawn_board (spawn_tile digest (moved_board out) seqn i seed) = put_tile (moved_board out) sp"
      "(spawn_x sp, spawn_y sp) \<in> set (available_cells (moved_board out))" "0 \<le> spawn_value sp" by fastforce
    with put_tile_props [OF wf] show ?thesis by metis
  qed
qed

lemma plan_move_board:
  assumes plan: "plan_move digest loads now p r dir ms bv av = Inr (Some (u, gained, sp))" and rec: "mu_recordable u"
    and wf: "wf_board (result_board r)"
  obtains out where "apply_move (result_board r) dir = Inr out" "moved out" "gained = gained_score out"
    "mu_board u = spawn_board (spawn_tile digest (moved_board out) (spawn_sequence p) (spawn_index r) (puzzle_seed p))"
    "sp = spawned (spawn_tile digest (moved_board out) (spawn_sequence p) (spawn_index r) (puzzle_seed p))"
    "mu_moves u = moves_made r + 1"
    "mu_won u \<longleftrightarrow> goal_reached (mu_board u) (goal_type p) (goal_value p)"
proof (cases "validated_client_move loads dir bv av")
  case (Inl e)
  with plan show thesis by (simp add: plan_move_def)
next
  case (Inr client)
  show thesis
  proof (cases client)
    case None
    with plan Inr that show thesis
      by (auto simp: plan_move_def Let_def split: sum.splits if_splits)
  next
    case (Some out)
    from Inr Some obtain b a where ba: "bv = Some b" "av = Some a" "apply_move (normalize_board loads b) dir = Inr out" "moved out"
      by (auto simp: validated_client_move_def split: option.splits sum.splits if_splits)
    moreover from plan Inr Some rec ba have "normalize_board loads b = result_board r"
      by (auto simp: plan_move_def Let_def split: sum.splits if_splits)
    ultimately show thesis using plan Inr Some
      by (intro that [of out]) (auto simp: plan_move_def Let_def split: sum.splits if_splits)
  qed
qed

text \<open>Property C25. Every ranked move is a legal move from the server's own board: when a move is applied and the
  result stays recordable, the stored board is the board the server read, slid in the requested direction
  so that it changed, with one tile of the puzzle's sequence added, whatever boards the client sent; the
  game is won exactly when that board reaches the goal.\<close>

theorem ranked_move_legal:
  assumes "finish_move digest loads now uid p r dir ms bv av db = (db', Inr ev)"
    and "ev_moved ev" and "ev_recordable ev" and "wf_board (result_board r)"
    and "dict_get (results db) (uid, puzzle_date p) = Some r0" and "result_status r0 = ''active''"
  shows "\<exists>out. apply_move (result_board r) dir = Inr out \<and> moved out \<and> ev_gained ev = gained_score out \<and>
    ev_board ev = spawn_board (spawn_tile digest (moved_board out) (spawn_sequence p) (spawn_index r) (puzzle_seed p)) \<and>
    (ev_completed ev \<longleftrightarrow> goal_reached (ev_board ev) (goal_type p) (goal_value p)) \<and>
    (\<exists>r'. dict_get (results db') (uid, puzzle_date p) = Some r' \<and> result_board r' = ev_board ev \<and> recordable r')"
proof -
  obtain u gained sp r1 where plan: "plan_move digest loads now p r dir ms bv av = Inr (Some (u, gained, sp))"
    and up: "update_result_after_move now uid (puzzle_date p) u db = (db', Inr r1)"
    and ev: "ev = event_from_result r1 True gained sp False"
    using assms(1,2) by (auto simp: finish_move_def event_from_result_def Let_def split: option.splits if_splits sum.splits prod.splits)
  have st: "r1 = row_to_result (updated_result now u r0)" "db' = db\<lparr>results := dict_set (results db) (uid, puzzle_date p) (updated_result now u r0)\<rparr>"
    using up assms(5,6) by (auto simp: update_result_after_move_def Let_def split: option.splits)
  have status: "mu_status u = (if mu_won u then ''won'' else if mu_finished u then ''lost'' else ''active'')"
    using plan by (auto simp: plan_move_def Let_def split: sum.splits if_splits)
  have "mu_recordable u" "recordable r0" using assms(3) ev st(1)
    by (simp_all add: event_from_result_def row_to_result_def updated_result_def Let_def)
  from plan_move_board [OF plan this(1) assms(4)] obtain out where out: "apply_move (result_board r) dir = Inr out" "moved out" "gained = gained_score out"
    "mu_board u = spawn_board (spawn_tile digest (moved_board out) (spawn_sequence p) (spawn_index r) (puzzle_seed p))"
    "mu_won u \<longleftrightarrow> goal_reached (mu_board u) (goal_type p) (goal_value p)" .
  have clone: "clone_board (mu_board u) = mu_board u" unfolding out(4) by (intro clone_board_id spawned_board_wf [OF out(1)])
  have "ev_board ev = mu_board u" "ev_gained ev = gained" "ev_completed ev \<longleftrightarrow> mu_won u"
    using clone status by (simp_all add: ev st(1) event_from_result_def row_to_result_def updated_result_def Let_def)
  moreover have "\<exists>r'. dict_get (results db') (uid, puzzle_date p) = Some r' \<and> result_board r' = mu_board u \<and> recordable r'"
    using clone \<open>mu_recordable u\<close> \<open>recordable r0\<close> by (simp add: st(2) updated_result_def)
  ultimately show ?thesis using out by auto
qed

theorem ranked_move_legal_witness:
  "\<exists>ev. snd (finish_move (\<lambda>t. [0, 0, 0, 7, 7]) (\<lambda>t. None) 9 2 demo_puzzle (new_result 0 2 demo_puzzle) (Some ''left'')
      None None None demo_db) = Inr ev \<and> \<not> ev_completed ev \<and>
    (\<exists>out. apply_move demo_board (Some ''left'') = Inr out \<and> ev_gained ev = gained_score out)"
proof -
  let ?x = "finish_move (\<lambda>t. [0, 0, 0, 7, 7]) (\<lambda>t. None) 9 2 demo_puzzle (new_result 0 2 demo_puzzle) (Some ''left'') None None None demo_db"
  have "(case snd ?x of Inr ev \<Rightarrow> ev_moved ev \<and> ev_recordable ev \<and> \<not> ev_completed ev | Inl e \<Rightarrow> False)" by code_simp
  then obtain db' ev where x: "?x = (db', Inr ev)" and ev: "ev_moved ev" "ev_recordable ev" "\<not> ev_completed ev"
    by (cases ?x) (auto split: sum.splits)
  have "wf_board demo_board" by code_simp
  moreover have "result_board (new_result 0 2 demo_puzzle) = demo_board" by (simp add: new_result_def demo_puzzle_def)
  moreover have "dict_get (results demo_db) (2, puzzle_date demo_puzzle) = Some (new_result 0 2 demo_puzzle)"
    "result_status (new_result 0 2 demo_puzzle) = ''active''" by (simp_all add: demo_db_def new_result_def demo_puzzle_def)
  ultimately show ?thesis using ranked_move_legal [OF x ev(1,2)] x ev(3) by auto
qed

end
