(* ===== verification/Recency.thy ===== *)
theory Recency
  imports Prelude
begin

text \<open>
  Dictionaries from keys to times, and the histories the bot keeps in them: the oldest entries give way to new
  ones. Which entries survive is a question of how many are as recent.
\<close>

lemma dict_length: "dict_ok d \<Longrightarrow> length d = card (set (dict_keys d))"
  by (metis dict_ok_def dict_keys_def distinct_card length_map)

lemma length_dict_pop:
  assumes ok: "dict_ok d" and "dict_get d k = Some v"
  shows "length (dict_pop d k) + 1 = length d"
proof -
  have "set (dict_keys (dict_pop d k)) = set (dict_keys d) - {k}" by (auto simp: set_dict_keys_iff split: if_splits)
  moreover have "k \<in> set (dict_keys d)" using assms(2) by (simp add: set_dict_keys_iff)
  ultimately show ?thesis unfolding dict_length [OF ok] dict_length [OF dict_ok_pop [OF ok]]
    using card_Suc_Diff1 [of "set (dict_keys d)" k] by simp
qed

lemma dict_keys_foldl_pop: "set (dict_keys (foldl dict_pop d ks)) = set (dict_keys d) - set ks"
  by (auto simp: set_dict_keys_iff pd.get_del_all split: if_splits)

lemma dict_keys_foldl_set: "set (dict_keys (foldl (\<lambda>d k. dict_set d k v) d ks)) = set (dict_keys d) \<union> set ks"
  by (auto simp: set_dict_keys_iff pd.get_put_all split: if_splits)

lemma dict_ok_foldl: "dict_ok d \<Longrightarrow> dict_ok (foldl (\<lambda>d k. dict_set d k v) (foldl dict_pop d ks) ks')"
proof -
  have pop: "dict_ok d \<Longrightarrow> dict_ok (foldl dict_pop d ks)" for d :: "('a, 'b) dict" by (induction ks arbitrary: d) auto
  have set: "dict_ok d \<Longrightarrow> dict_ok (foldl (\<lambda>d k. dict_set d k v) d ks')" for d :: "('a, 'b) dict" by (induction ks' arbitrary: d) auto
  show "dict_ok d \<Longrightarrow> dict_ok (foldl (\<lambda>d k. dict_set d k v) (foldl dict_pop d ks) ks')" by (intro set pop)
qed

text \<open>The first entries of a sorted list are no larger than the rest, so an entry among them leaves all the
  others at least as large.\<close>

lemma sorted_take_rest:
  fixes xs :: "('a \<times> 'b :: linorder) list"
  assumes "x \<in> set (take n (sort_key snd xs))" and "y \<in> set (drop n (sort_key snd xs))"
  shows "snd x \<le> snd y"
proof -
  have "sorted (map snd (take n (sort_key snd xs)) @ map snd (drop n (sort_key snd xs)))"
    by (simp flip: map_append)
  with assms show ?thesis by (auto simp: sorted_append)
qed

lemma taken_older:
  fixes xs :: "('a \<times> 'b :: linorder) list"
  assumes "x \<in> set (take n (sort_key snd xs))" and "t \<le> snd x"
  shows "length xs \<le> n + length (filter (\<lambda>y. t \<le> snd y) xs)"
proof -
  have "filter (\<lambda>y. t \<le> snd y) (drop n (sort_key snd xs)) = drop n (sort_key snd xs)"
    using sorted_take_rest [OF assms(1)] assms(2) by (fastforce simp: filter_id_conv intro: order_trans)
  moreover have "length (filter (\<lambda>y. t \<le> snd y) (sort_key snd xs)) = length (filter (\<lambda>y. t \<le> snd y) xs)"
    by (metis filter_sort length_sort)
  moreover have "length (filter (\<lambda>y. t \<le> snd y) (drop n (sort_key snd xs))) \<le> length (filter (\<lambda>y. t \<le> snd y) (sort_key snd xs))"
    by (metis append_take_drop_id filter_append length_append le_add2)
  ultimately show ?thesis by simp
qed

definition recent :: "secs \<Rightarrow> ('k, secs) dict \<Rightarrow> nat" where
  "recent t seen = length (filter (\<lambda>e. t \<le> snd e) seen)"

lemma recent_card: "dict_ok d \<Longrightarrow> recent t d = card {k. \<exists>ts. dict_get d k = Some ts \<and> t \<le> ts}"
proof -
  assume ok: "dict_ok d"
  have "set (dict_keys (filter (\<lambda>e. t \<le> snd e) d)) = {k. \<exists>ts. dict_get d k = Some ts \<and> t \<le> ts}"
    by (auto simp: set_dict_keys_iff dict_get_filter [OF ok] split: option.splits if_splits)
  with dict_length [OF dict_ok_filter [OF ok]] show ?thesis by (simp add: recent_def)
qed

lemma recent_set: "dict_ok d \<Longrightarrow> recent t (dict_set d k ts) \<le> recent t d + 1"
proof -
  assume ok: "dict_ok d"
  have fin: "finite {k. \<exists>ts. dict_get d k = Some ts \<and> t \<le> ts}"
    by (rule finite_subset [of _ "set (dict_keys d)"]) (auto simp: set_dict_keys_iff)
  have "recent t (dict_set d k ts) \<le> card (insert k {k. \<exists>ts. dict_get d k = Some ts \<and> t \<le> ts})"
    unfolding recent_card [OF dict_ok_set [OF ok]] using fin by (intro card_mono) (auto split: if_splits)
  also have "\<dots> \<le> recent t d + 1" unfolding recent_card [OF ok] using fin by (simp add: card_insert_if)
  finally show ?thesis .
qed

lemma recent_filter: "recent t (filter P d) \<le> recent t d"
proof -
  have "filter (\<lambda>e. t \<le> snd e) (filter P d) = filter P (filter (\<lambda>e. t \<le> snd e) d)" by (simp add: conj_commute)
  then show ?thesis unfolding recent_def by (metis length_filter_le)
qed

text \<open>\<open>min(d, key=d.get)\<close>: the first key with the smallest time.\<close>

definition oldest_key :: "('k, secs) dict \<Rightarrow> 'k" where
  "oldest_key d = fst (hd (sort_key snd d))"

lemma oldest_key_min:
  assumes "d \<noteq> []" and "dict_ok d"
  obtains ts where "dict_get d (oldest_key d) = Some ts" "\<forall>e \<in> set d. ts \<le> snd e"
proof -
  obtain e es where s: "sort_key snd d = e # es" using assms(1) by (metis length_0_conv length_sort neq_Nil_conv)
  have "sorted (map snd (e # es))" by (metis s sorted_sort_key)
  moreover have set: "set (e # es) = set d" by (metis s set_sort)
  ultimately have "\<forall>y \<in> set d. snd e \<le> snd y" by (auto simp flip: set)
  moreover have "e \<in> set d" using set by auto
  then have "dict_get d (fst e) = Some (snd e)" using dict_ok_in_iff [OF assms(2), of "fst e" "snd e"] by simp
  ultimately show thesis using that by (simp add: oldest_key_def s)
qed

lemma drop_oldest_keeps:
  assumes ok: "dict_ok d" and x: "dict_get d x = Some ts" "t \<le> ts" and few: "recent t d < length d"
  shows "dict_get (dict_pop d (oldest_key d)) x = Some ts"
proof -
  have "d \<noteq> []" using x(1) by auto
  then obtain m where m: "dict_get d (oldest_key d) = Some m" "\<forall>e \<in> set d. m \<le> snd e" using ok by (rule oldest_key_min)
  have "oldest_key d \<noteq> x"
  proof
    assume "oldest_key d = x"
    with m x have "\<forall>e \<in> set d. t \<le> snd e" by force
    then have "recent t d = length d" by (simp add: recent_def)
    with few show False by simp
  qed
  with x(1) show ?thesis by simp
qed

end
