(* ===== verification/Webhook_Dedupe.thy ===== *)
theory Webhook_Dedupe
  imports Json_Values Recency
begin

text \<open>
  The guard against repeated webhook updates, \<^verbatim>\<open>app/webhook_dedupe.py\<close>.

  \<^item> \<open>seen_update_ids\<close> is a dictionary from keys to the monotonic time of their admission; a key is an
    update identifier or the identity of a bot command.
  \<^item> The payload is the parsed JSON object. \<open>fmt\<close> stands for \<open>str()\<close> of a float, a list or an object.
  \<^item> Redis is a service: \<open>set_nx r key ttl\<close> is one \<open>SET key 1 EX ttl NX\<close> on the server state \<open>r\<close>, with
    \<open>Inl\<close> for an exception and \<open>Inr\<close> for the reply; \<open>redis = None\<close> is a deployment without it.
\<close>

section \<open>The identity of a command\<close>

fun json_truthy :: "json \<Rightarrow> bool" where
  "json_truthy JNull = False"
| "json_truthy (JBool b) = b"
| "json_truthy (JInt i) = (i \<noteq> 0)"
| "json_truthy (JFloat q) = (q \<noteq> 0)"
| "json_truthy (JStr t) = (t \<noteq> [])"
| "json_truthy (JList xs) = (xs \<noteq> [])"
| "json_truthy (JDict d) = (d \<noteq> [])"

text \<open>\<open>isinstance(v, int)\<close> holds of the booleans too.\<close>

fun json_as_int :: "json \<Rightarrow> int option" where
  "json_as_int (JInt i) = Some i"
| "json_as_int (JBool b) = Some (of_bool b)"
| "json_as_int _ = None"

fun json_is_zero :: "json \<Rightarrow> bool" where
  "json_is_zero (JInt i) = (i = 0)"
| "json_is_zero (JBool b) = (\<not> b)"
| "json_is_zero (JFloat q) = (q = 0)"
| "json_is_zero _ = False"

fun json_str :: "(json \<Rightarrow> string) \<Rightarrow> json \<Rightarrow> string" where
  "json_str fmt (JStr t) = t"
| "json_str fmt (JInt i) = show_int i"
| "json_str fmt (JBool b) = (if b then ''True'' else ''False'')"
| "json_str fmt JNull = ''None''"
| "json_str fmt v = fmt v"

definition json_get :: "(string \<times> json) list \<Rightarrow> string \<Rightarrow> json" where
  "json_get d k = (case dict_get d k of Some v \<Rightarrow> v | None \<Rightarrow> JNull)"

definition DEDUP_KEY_PREFIX :: string where
  "DEDUP_KEY_PREFIX = ''telegram:webhook:update:''"

definition COMMAND_DEDUP_KEY_PREFIX :: string where
  "COMMAND_DEDUP_KEY_PREFIX = ''telegram:webhook:cmd:''"

definition bot_command :: "json list \<Rightarrow> int option" where
  "bot_command entities =
    (case entities of
       JDict e # _ \<Rightarrow>
        (if json_get e ''type'' \<noteq> JStr ''bot_command'' \<or> \<not> json_is_zero (json_get e ''offset'') then None
         else case json_as_int (json_get e ''length'') of
           Some n \<Rightarrow> if n \<le> 1 then None else Some n
         | None \<Rightarrow> None)
     | _ \<Rightarrow> None)"

definition command_name :: "string \<Rightarrow> int \<Rightarrow> string" where
  "command_name t n = lower (takeWhile (\<lambda>c. c \<noteq> CHR ''@'') (take (nat n - 1) (drop 1 t)))"

definition command_identity_key :: "(json \<Rightarrow> string) \<Rightarrow> (string \<times> json) list \<Rightarrow> string option" where
  "command_identity_key fmt payload =
    (case (if json_truthy (json_get payload ''message'') then json_get payload ''message'' else json_get payload ''edited_message'') of
       JDict msg \<Rightarrow>
        (case (json_get msg ''text'', json_get msg ''entities'') of
           (JStr t, JList entities) \<Rightarrow>
            (case bot_command entities of
               None \<Rightarrow> None
             | Some n \<Rightarrow>
                (case (json_as_int (json_get msg ''message_id''), json_get msg ''chat'') of
                   (Some _, JDict chat) \<Rightarrow>
                    (case json_as_int (json_get chat ''id'') of
                       None \<Rightarrow> None
                     | Some _ \<Rightarrow>
                        (if command_name t n = [] then None
                         else Some (COMMAND_DEDUP_KEY_PREFIX @
                           (case dict_get chat ''type'' of Some v \<Rightarrow> json_str fmt v | None \<Rightarrow> ''unknown'') @ '':'' @
                           json_str fmt (json_get chat ''id'') @ '':'' @ json_str fmt (json_get msg ''message_id'') @ '':'' @
                           command_name t n)))
                 | _ \<Rightarrow> None))
         | _ \<Rightarrow> None)
     | _ \<Rightarrow> None)"

section \<open>Claims\<close>

datatype seen_key = UpdateKey int | CommandKey string

type_synonym seen_ids = "(seen_key, secs) dict"
type_synonym 'r set_nx = "'r \<Rightarrow> string \<Rightarrow> int \<Rightarrow> 'r \<times> (unit + bool)"

fun redis_key :: "seen_key \<Rightarrow> string" where
  "redis_key (UpdateKey i) = DEDUP_KEY_PREFIX @ show_int i"
| "redis_key (CommandKey t) = t"

fun claim_keys :: "'r set_nx \<Rightarrow> int \<Rightarrow> seen_key list \<Rightarrow> 'r \<Rightarrow> 'r \<times> (unit + bool)" where
  "claim_keys set_nx ttl [] r = (r, Inr True)"
| "claim_keys set_nx ttl (k # ks) r =
    (case set_nx r (redis_key k) ttl of
       (r1, Inl _) \<Rightarrow> (r1, Inl ())
     | (r1, Inr claimed) \<Rightarrow> if claimed then claim_keys set_nx ttl ks r1 else (r1, Inr False))"

definition update_keys :: "(json \<Rightarrow> string) \<Rightarrow> int \<Rightarrow> (string \<times> json) list \<Rightarrow> seen_key list" where
  "update_keys fmt update_id payload =
    UpdateKey update_id # (case command_identity_key fmt payload of None \<Rightarrow> [] | Some t \<Rightarrow> [CommandKey t])"

definition expire_seen :: "secs \<Rightarrow> secs \<Rightarrow> seen_ids \<Rightarrow> seen_ids" where
  "expire_seen now ttl seen = filter (\<lambda>e. \<not> now - snd e > ttl) seen"

text \<open>The oldest entries give way when the new keys would overflow the history.\<close>

definition evicted_keys :: "int \<Rightarrow> seen_key list \<Rightarrow> seen_ids \<Rightarrow> seen_key list" where
  "evicted_keys cap remembered seen =
    (let new_keys = length (filter (\<lambda>k. \<not> dict_has seen k) remembered);
         overflow = int (length seen) + int new_keys - cap
     in if overflow > 0
        then map fst (take (nat (max overflow (max 1 (cap div 10))))
               (sort_key snd (filter (\<lambda>e. fst e \<notin> set remembered) seen)))
        else [])"

definition remember_keys :: "secs \<Rightarrow> int \<Rightarrow> seen_key list \<Rightarrow> seen_ids \<Rightarrow> seen_ids" where
  "remember_keys now capacity keys seen =
    (let cap = max 1 capacity;
         remembered = drop (length keys - nat cap) keys
     in foldl (\<lambda>d k. dict_set d k now) (foldl dict_pop seen (evicted_keys cap remembered seen)) remembered)"

definition accept_locally :: "secs \<Rightarrow> secs \<Rightarrow> int \<Rightarrow> bool \<Rightarrow> seen_key list \<Rightarrow> seen_ids \<Rightarrow> seen_ids \<times> bool" where
  "accept_locally now ttl capacity confirmed keys seen =
    (let live = expire_seen now ttl seen in
     if \<not> confirmed \<and> (\<exists>k \<in> set keys. dict_has live k) then (live, False)
     else (remember_keys now capacity keys live, True))"

definition should_accept_webhook_update :: "(json \<Rightarrow> string) \<Rightarrow> 'r set_nx \<Rightarrow> secs \<Rightarrow> int \<Rightarrow> secs \<Rightarrow> int \<Rightarrow> (string \<times> json) list \<Rightarrow>
    'r option \<times> seen_ids \<Rightarrow> ('r option \<times> seen_ids) \<times> bool" where
  "should_accept_webhook_update fmt set_nx ttl_seconds capacity now update_id payload st =
    (let keys = update_keys fmt update_id payload;
         ttl = max 1 (if ttl_seconds < 0 then ceiling ttl_seconds else floor ttl_seconds)
     in case fst st of
       None \<Rightarrow> (let (seen1, ok) = accept_locally now ttl_seconds capacity False keys (snd st) in ((None, seen1), ok))
     | Some r \<Rightarrow>
        (case claim_keys set_nx ttl keys r of
           (r1, Inr False) \<Rightarrow> ((Some r1, snd st), False)
         | (r1, Inr True) \<Rightarrow> (let (seen1, ok) = accept_locally now ttl_seconds capacity True keys (snd st) in ((Some r1, seen1), ok))
         | (r1, Inl _) \<Rightarrow> (let (seen1, ok) = accept_locally now ttl_seconds capacity False keys (snd st) in ((Some r1, seen1), ok))))"

section \<open>The bounded history\<close>

text \<open>What \<open>evicted_keys\<close> removes.\<close>

lemma evicted_props:
  assumes ok: "dict_ok seen" and cap: "int (length seen) \<le> cap" "distinct rk" "int (length rk) \<le> cap"
  defines "E \<equiv> set (evicted_keys cap rk seen)" and "K \<equiv> set (dict_keys seen)"
  shows "E \<subseteq> K - set rk" and "int (card ((K - E) \<union> set rk)) \<le> cap"
proof -
  define cands where "cands = filter (\<lambda>e. fst e \<notin> set rk) seen"
  define n where "n = nat (max (int (length seen) + int (length (filter (\<lambda>k. \<not> dict_has seen k) rk)) - cap) (max 1 (cap div 10)))"
  have keys: "set (dict_keys cands) = K - set rk" by (auto simp: cands_def K_def dict_keys_def)
  have okc: "dict_ok cands" using ok by (simp add: cands_def)
  have fresh: "length (filter (\<lambda>k. \<not> dict_has seen k) rk) = card (set rk - K)"
  proof -
    have "set (filter (\<lambda>k. \<not> dict_has seen k) rk) = set rk - K" by (auto simp: dict_has_def K_def set_dict_keys_iff)
    with cap(2) show ?thesis by (metis distinct_card distinct_filter)
  qed
  have E: "evicted_keys cap rk seen = (if int (length seen) + int (card (set rk - K)) - cap > 0
      then map fst (take n (sort_key snd cands)) else [])"
    by (simp add: evicted_keys_def Let_def cands_def n_def fresh)
  have lenK: "length seen = card K" using dict_length [OF ok] by (simp add: K_def)
  have fin: "finite K" by (simp add: K_def)
  have union: "card (K \<union> set rk) = card K + card (set rk - K)"
    using fin by (metis Un_Diff_cancel card_Un_disjoint Diff_disjoint finite_Diff List.finite_set)
  have "set (map fst (take n (sort_key snd cands))) \<subseteq> set (dict_keys cands)"
    by (force simp: dict_keys_def dest: in_set_takeD)
  with keys show sub: "E \<subseteq> K - set rk" by (auto simp: E_def E split: if_splits)
  show "int (card ((K - E) \<union> set rk)) \<le> cap"
  proof (cases "int (length seen) + int (card (set rk - K)) - cap > 0")
    case False
    with E E_def union lenK show ?thesis by simp
  next
    case True
    have "distinct (map fst (take n (sort_key snd cands)))"
      unfolding take_map [symmetric] using okc
      by (intro distinct_take) (simp add: dict_ok_def dict_keys_def distinct_map)
    then have cE: "card E = min n (card (K - set rk))"
      using True dict_length [OF okc] keys distinct_card [of "map fst (take n (sort_key snd cands))"]
      by (simp add: E_def E min.commute del: set_map)
    have "(K - E) \<union> set rk = ((K - set rk) - E) \<union> set rk" using sub by auto
    then have "card ((K - E) \<union> set rk) = card ((K - set rk) - E) + card (set rk)"
      using fin by (simp add: card_Un_disjoint Int_commute Diff_Int_distrib)
    also have "card ((K - set rk) - E) = card (K - set rk) - card E" using sub fin by (simp add: card_Diff_subset finite_subset)
    finally have c: "card ((K - E) \<union> set rk) = card (K - set rk) - card E + length rk" using cap(2) by (simp add: distinct_card)
    have "card (K \<union> set rk) = card (K - set rk) + length rk"
      using fin cap(2) by (metis Un_Diff_cancel2 card_Un_disjoint Diff_disjoint Int_commute List.finite_set distinct_card finite_Diff)
    moreover have "int n \<ge> int (card (K \<union> set rk)) - cap" unfolding n_def fresh union lenK by linarith
    ultimately show ?thesis using c cE cap(3) by linarith
  qed
qed

lemma remember_props:
  assumes ok: "dict_ok seen" and len: "int (length seen) \<le> max 1 capacity" and "distinct keys"
  shows "dict_ok (remember_keys now capacity keys seen)" and "int (length (remember_keys now capacity keys seen)) \<le> max 1 capacity"
proof -
  define cap and rk where d: "cap = max 1 capacity" "rk = drop (length keys - nat cap) keys"
  have eq: "remember_keys now capacity keys seen =
      foldl (\<lambda>d k. dict_set d k now) (foldl dict_pop seen (evicted_keys cap rk seen)) rk"
    by (simp add: remember_keys_def Let_def d)
  show good: "dict_ok (remember_keys now capacity keys seen)" unfolding eq using ok by (rule dict_ok_foldl)
  have "distinct rk" "int (length rk) \<le> cap" using assms(3) by (auto simp: d)
  from evicted_props(2) [OF ok _ this] len show "int (length (remember_keys now capacity keys seen)) \<le> max 1 capacity"
    unfolding dict_length [OF good] unfolding eq dict_keys_foldl_set dict_keys_foldl_pop by (simp add: d(1))
qed

text \<open>An entry stays while fewer than about nine tenths of the history are as recent.\<close>

lemma remember_keeps:
  assumes ok: "dict_ok seen" and len: "int (length seen) \<le> max 1 capacity" and keys: "distinct keys" "length keys \<le> 2"
    and x: "dict_get seen x = Some ts" "t \<le> ts" "t \<le> now"
    and few: "int (recent t seen) + max 2 (max 1 capacity div 10) + 1 < max 1 capacity"
  shows "\<exists>ts'. dict_get (remember_keys now capacity keys seen) x = Some ts' \<and> t \<le> ts'"
    and "recent t (remember_keys now capacity keys seen) \<le> recent t seen + 2"
proof -
  define cap and rk where d: "cap = max 1 capacity" "rk = drop (length keys - nat cap) keys"
  define cands where "cands = filter (\<lambda>e. fst e \<notin> set rk) seen"
  define m where "m = max (int (length seen) + int (length (filter (\<lambda>k. \<not> dict_has seen k) rk)) - cap) (max 1 (cap div 10))"
  have eq: "remember_keys now capacity keys seen =
      foldl (\<lambda>d k. dict_set d k now) (foldl dict_pop seen (evicted_keys cap rk seen)) rk"
    by (simp add: remember_keys_def Let_def d)
  have rk: "length rk \<le> 2" "distinct rk" using keys by (auto simp: d(2))
  have get: "dict_get (remember_keys now capacity keys seen) k =
      (if k \<in> set rk then Some now else if k \<in> set (evicted_keys cap rk seen) then None else dict_get seen k)" for k
    by (simp add: eq pd.get_put_all pd.get_del_all)
  have "x \<in> set rk \<or> x \<notin> set (evicted_keys cap rk seen)"
  proof (rule ccontr)
    assume "\<not> ?thesis"
    then have "x \<notin> set rk" and ev: "x \<in> set (evicted_keys cap rk seen)" by auto
    then have over: "int (length seen) + int (length (filter (\<lambda>k. \<not> dict_has seen k) rk)) - cap > 0"
      and "x \<in> fst ` set (take (nat m) (sort_key snd cands))"
      by (auto simp: evicted_keys_def Let_def cands_def m_def split: if_splits)
    then obtain e where e: "e \<in> set (take (nat m) (sort_key snd cands))" "fst e = x" by auto
    then have "e \<in> set seen" by (auto simp: cands_def dest: in_set_takeD)
    with e(2) ok x(1) have "snd e = ts" by (cases e) (auto simp: dict_ok_in_iff)
    with taken_older [OF e(1), of t] x(2) have "length cands \<le> nat m + length (filter (\<lambda>y. t \<le> snd y) cands)" by simp
    moreover have "length (filter (\<lambda>y. t \<le> snd y) cands) \<le> recent t seen"
    proof -
      have "filter (\<lambda>y. t \<le> snd y) cands = filter (\<lambda>e. fst e \<notin> set rk) (filter (\<lambda>y. t \<le> snd y) seen)"
        by (simp add: cands_def conj_commute)
      then show ?thesis unfolding recent_def by (metis length_filter_le)
    qed
    moreover have "length cands + length (filter (dict_has seen) rk) \<ge> length seen"
    proof -
      have "length (filter (\<lambda>e. fst e \<in> set rk) seen) \<le> length (filter (dict_has seen) rk)"
      proof -
        have "length (filter (\<lambda>e. fst e \<in> set rk) seen) = card (set (dict_keys (filter (\<lambda>e. fst e \<in> set rk) seen)))"
          using ok by (intro dict_length) simp
        also have "set (dict_keys (filter (\<lambda>e. fst e \<in> set rk) seen)) \<subseteq> set (filter (dict_has seen) rk)"
          using ok by (force simp: dict_keys_def dict_has_def dict_ok_in_iff)
        then have "card (set (dict_keys (filter (\<lambda>e. fst e \<in> set rk) seen))) \<le> length (filter (dict_has seen) rk)"
          by (meson List.finite_set card_length card_mono order_trans)
        finally show ?thesis .
      qed
      moreover have "length (filter (\<lambda>e. fst e \<in> set rk) seen) + length cands = length seen"
        unfolding cands_def by (rule sum_length_filter_compl)
      ultimately show ?thesis by simp
    qed
    moreover have "length (filter (dict_has seen) rk) + length (filter (\<lambda>k. \<not> dict_has seen k) rk) = length rk"
      by (rule sum_length_filter_compl)
    ultimately show False using over few rk(1) len unfolding m_def d(1) [symmetric] by linarith
  qed
  then show "\<exists>ts'. dict_get (remember_keys now capacity keys seen) x = Some ts' \<and> t \<le> ts'"
    using x by (auto simp: get)
  have okr: "dict_ok (remember_keys now capacity keys seen)" unfolding eq using ok by (rule dict_ok_foldl)
  have "{k. \<exists>ts. dict_get (remember_keys now capacity keys seen) k = Some ts \<and> t \<le> ts} \<subseteq>
      {k. \<exists>ts. dict_get seen k = Some ts \<and> t \<le> ts} \<union> set rk" by (auto simp: get split: if_splits)
  moreover have fin: "finite {k. \<exists>ts. dict_get seen k = Some ts \<and> t \<le> ts}"
    by (rule finite_subset [of _ "set (dict_keys seen)"]) (auto simp: set_dict_keys_iff)
  ultimately have "recent t (remember_keys now capacity keys seen) \<le> card ({k. \<exists>ts. dict_get seen k = Some ts \<and> t \<le> ts} \<union> set rk)"
    unfolding recent_card [OF okr] by (intro card_mono) simp_all
  also have "\<dots> \<le> recent t seen + card (set rk)" unfolding recent_card [OF ok] by (rule card_Un_le)
  finally show "recent t (remember_keys now capacity keys seen) \<le> recent t seen + 2"
    using rk by (simp add: distinct_card)
qed

section \<open>Runs of the guard\<close>

text \<open>The calls that reach one process: the monotonic time, the update identifier and the payload.\<close>

type_synonym webhook_call = "secs \<times> int \<times> (string \<times> json) list"

definition guard_step :: "(json \<Rightarrow> string) \<Rightarrow> 'r set_nx \<Rightarrow> secs \<Rightarrow> int \<Rightarrow> 'r option \<times> seen_ids \<Rightarrow> webhook_call \<Rightarrow> 'r option \<times> seen_ids" where
  "guard_step fmt set_nx ttl capacity st c =
    fst (should_accept_webhook_update fmt set_nx ttl capacity (fst c) (fst (snd c)) (snd (snd c)) st)"

definition history_ok :: "int \<Rightarrow> 'r option \<times> seen_ids \<Rightarrow> bool" where
  "history_ok capacity st \<longleftrightarrow> dict_ok (snd st) \<and> int (length (snd st)) \<le> max 1 capacity"

lemma update_keys_small: "distinct (update_keys fmt u p)" "length (update_keys fmt u p) \<le> 2" "UpdateKey u \<in> set (update_keys fmt u p)"
  by (auto simp: update_keys_def split: option.split)

lemma expire_ok:
  "history_ok capacity (r, seen) \<Longrightarrow> dict_ok (expire_seen now ttl seen) \<and> int (length (expire_seen now ttl seen)) \<le> max 1 capacity"
proof -
  assume ok: "history_ok capacity (r, seen)"
  have "length (expire_seen now ttl seen) \<le> length seen" by (simp add: expire_seen_def)
  moreover have "int (length seen) \<le> max 1 capacity" "dict_ok seen" using ok by (simp_all add: history_ok_def)
  ultimately show ?thesis by (intro conjI) (simp add: expire_seen_def, linarith)
qed

lemma accept_locally_ok:
  assumes "history_ok capacity (r, seen)" and "distinct keys"
  shows "history_ok capacity (r', fst (accept_locally now ttl capacity confirmed keys seen))"
  using expire_ok [OF assms(1), of now ttl] remember_props [of "expire_seen now ttl seen" capacity keys now] assms(2)
  by (auto simp: accept_locally_def Let_def history_ok_def)

text \<open>The history after a call is the old one or the result of the critical section.\<close>

lemma should_accept_cases:
  "snd (fst (should_accept_webhook_update fmt set_nx ttl capacity now u p st)) = snd st \<or>
   (\<exists>confirmed. snd (fst (should_accept_webhook_update fmt set_nx ttl capacity now u p st)) =
     fst (accept_locally now ttl capacity confirmed (update_keys fmt u p) (snd st)))"
  by (auto simp: should_accept_webhook_update_def Let_def split: option.splits prod.splits sum.splits bool.splits)
    (metis fst_conv)+

lemma guard_step_ok: "history_ok capacity st \<Longrightarrow> history_ok capacity (guard_step fmt set_nx ttl capacity st c)"
proof -
  assume ok: "history_ok capacity st"
  let ?st = "guard_step fmt set_nx ttl capacity st c"
  have "snd ?st = snd st \<or> (\<exists>b. snd ?st = fst (accept_locally (fst c) ttl capacity b (update_keys fmt (fst (snd c)) (snd (snd c))) (snd st)))"
    unfolding guard_step_def by (rule should_accept_cases)
  then show ?thesis
  proof
    assume "snd ?st = snd st"
    with ok show ?thesis by (simp add: history_ok_def)
  next
    assume "\<exists>b. snd ?st = fst (accept_locally (fst c) ttl capacity b (update_keys fmt (fst (snd c)) (snd (snd c))) (snd st))"
    then obtain b where b: "snd ?st = fst (accept_locally (fst c) ttl capacity b (update_keys fmt (fst (snd c)) (snd (snd c))) (snd st))" ..
    have "history_ok capacity (fst ?st, snd ?st)" unfolding b
      by (rule accept_locally_ok [of capacity "fst st"]) (use ok update_keys_small in simp_all)
    then show ?thesis by simp
  qed
qed

interpretation wg: invariant_run "guard_step fmt set_nx ttl capacity" "history_ok capacity"
  for fmt set_nx ttl capacity
  by unfold_locales (rule guard_step_ok)

definition remembered :: "secs \<Rightarrow> seen_key \<Rightarrow> seen_ids \<Rightarrow> bool" where
  "remembered t k seen \<longleftrightarrow> (\<exists>ts. dict_get seen k = Some ts \<and> t \<le> ts)"

lemma accept_locally_remembers:
  assumes ok: "history_ok capacity (r, seen)" and keys: "distinct keys" "length keys \<le> 2"
    and x: "remembered t x seen" "t \<le> now" "now - t \<le> ttl"
    and few: "int (recent t seen) + max 2 (max 1 capacity div 10) + 1 < max 1 capacity"
  shows "remembered t x (fst (accept_locally now ttl capacity confirmed keys seen))"
    and "recent t (fst (accept_locally now ttl capacity confirmed keys seen)) \<le> recent t seen + 2"
proof -
  let ?live = "expire_seen now ttl seen"
  have okd: "dict_ok seen" using ok by (simp add: history_ok_def)
  obtain ts where ts: "dict_get seen x = Some ts" "t \<le> ts" using x(1) by (auto simp: remembered_def)
  have live: "dict_get ?live x = Some ts"
    using ts x(3) by (simp add: expire_seen_def dict_get_filter [OF okd])
  have le: "recent t ?live \<le> recent t seen"
  proof -
    have "filter (\<lambda>e. t \<le> snd e) ?live = filter (\<lambda>e. \<not> now - snd e > ttl) (filter (\<lambda>e. t \<le> snd e) seen)"
      by (simp add: expire_seen_def conj_commute)
    then show ?thesis unfolding recent_def by (metis length_filter_le)
  qed
  note exp = expire_ok [OF ok, of now ttl]
  have few': "int (recent t ?live) + max 2 (max 1 capacity div 10) + 1 < max 1 capacity" using few le by linarith
  note rem = remember_keeps [OF conjunct1 [OF exp] conjunct2 [OF exp] keys live ts(2) x(2) few']
  show "remembered t x (fst (accept_locally now ttl capacity confirmed keys seen))"
    using rem(1) live ts(2) by (auto simp: accept_locally_def Let_def remembered_def)
  show "recent t (fst (accept_locally now ttl capacity confirmed keys seen)) \<le> recent t seen + 2"
    using rem(2) le by (auto simp: accept_locally_def Let_def)
qed

lemma guard_step_remembers:
  assumes ok: "history_ok capacity st" and x: "remembered t x (snd st)" "t \<le> fst c" "fst c - t \<le> ttl"
    and few: "int (recent t (snd st)) + max 2 (max 1 capacity div 10) + 1 < max 1 capacity"
  shows "remembered t x (snd (guard_step fmt set_nx ttl capacity st c)) \<and>
    recent t (snd (guard_step fmt set_nx ttl capacity st c)) \<le> recent t (snd st) + 2"
proof -
  let ?st = "guard_step fmt set_nx ttl capacity st c"
  have ok': "history_ok capacity (fst st, snd st)" using ok by simp
  have "snd ?st = snd st \<or> (\<exists>b. snd ?st = fst (accept_locally (fst c) ttl capacity b (update_keys fmt (fst (snd c)) (snd (snd c))) (snd st)))"
    unfolding guard_step_def by (rule should_accept_cases)
  then show ?thesis
    using accept_locally_remembers [OF ok' update_keys_small(1,2) x few] x(1) by auto
qed

lemma guard_run_remembers:
  assumes "history_ok capacity st" and "remembered t x (snd st)"
    and "\<forall>c \<in> set cs. t \<le> fst c \<and> fst c - t \<le> ttl"
    and "int (recent t (snd st)) + 2 * int (length cs) + max 2 (max 1 capacity div 10) < max 1 capacity + 1"
  shows "remembered t x (snd (foldl (guard_step fmt set_nx ttl capacity) st cs))"
  using assms
proof (induction cs arbitrary: st)
  case Nil
  then show ?case by simp
next
  case (Cons c cs)
  let ?st = "guard_step fmt set_nx ttl capacity st c"
  have "remembered t x (snd ?st) \<and> recent t (snd ?st) \<le> recent t (snd st) + 2"
    using Cons.prems by (intro guard_step_remembers) auto
  with Cons.prems show ?case
    by (simp, intro Cons.IH) (auto simp: guard_step_ok)
qed

text \<open>An admission records the update identifier, unless the history has room for the command only.\<close>

lemma accepted_remembered:
  assumes "snd (should_accept_webhook_update fmt set_nx ttl capacity now u p st)" and "2 \<le> capacity"
  shows "remembered now (UpdateKey u) (snd (fst (should_accept_webhook_update fmt set_nx ttl capacity now u p st)))"
proof -
  have "remembered now (UpdateKey u) (remember_keys now capacity (update_keys fmt u p) seen)" for seen
    using assms(2) update_keys_small(2,3) [where fmt = fmt and u = u and p = p]
    by (simp add: remember_keys_def Let_def remembered_def pd.get_put_all max_def)
  then show ?thesis using assms(1)
    by (auto simp: should_accept_webhook_update_def accept_locally_def Let_def split: option.splits prod.splits sum.splits bool.splits if_splits)
qed

lemma accepted_twice:
  assumes "remembered t (UpdateKey u) (snd st)" and "dict_ok (snd st)" and "now - t \<le> ttl"
    and acc: "snd (should_accept_webhook_update fmt set_nx ttl capacity now u p st)"
  shows "\<exists>r n. fst st = Some r \<and> snd (claim_keys set_nx n (update_keys fmt u p) r) = Inr True"
proof -
  from assms(1-3) have "dict_has (expire_seen now ttl (snd st)) (UpdateKey u)"
    by (auto simp: remembered_def dict_has_def expire_seen_def dict_get_filter)
  then have "\<not> snd (accept_locally now ttl capacity False (update_keys fmt u p) (snd st))"
    using update_keys_small(3) [where fmt = fmt and u = u and p = p] by (auto simp: accept_locally_def Let_def)
  with acc show ?thesis
    by (auto simp: should_accept_webhook_update_def Let_def split: option.splits prod.splits sum.splits bool.splits)
      (metis snd_conv)+
qed

text \<open>Property C27. No update is admitted twice. After an admission at time \<open>t1\<close>, a later call for the same update
  within the retention time is refused whatever calls came in between, unless Redis itself confirms every key
  of it again: provided the admissions since, with the entries as recent as the first one, fill less than
  about nine tenths of the history. The history never exceeds its capacity.\<close>

theorem webhook_admitted_once:
  assumes "history_ok capacity st0" and "2 \<le> capacity"
    and "st = foldl (guard_step fmt set_nx ttl capacity) st0 before"
    and "snd (should_accept_webhook_update fmt set_nx ttl capacity t1 u p1 st)"
    and "st2 = foldl (guard_step fmt set_nx ttl capacity) st (((t1, u, p1)) # between)"
    and "\<forall>c \<in> set between. t1 \<le> fst c \<and> fst c \<le> t2" and "t1 \<le> t2" and "t2 - t1 \<le> ttl"
    and "int (recent t1 (snd (guard_step fmt set_nx ttl capacity st (t1, u, p1)))) + 2 * int (length between) + max 2 (capacity div 10) \<le> capacity"
  shows "int (length (snd st2)) \<le> capacity \<and>
    (snd (should_accept_webhook_update fmt set_nx ttl capacity t2 u p2 st2) \<longrightarrow>
      (\<exists>r n. fst st2 = Some r \<and> snd (claim_keys set_nx n (update_keys fmt u p2) r) = Inr True))"
proof -
  let ?st1 = "guard_step fmt set_nx ttl capacity st (t1, u, p1)"
  have ok: "history_ok capacity st" unfolding assms(3) using assms(1) by (rule wg.run_invar)
  have st2: "st2 = foldl (guard_step fmt set_nx ttl capacity) ?st1 between" using assms(5) by simp
  have ok1: "history_ok capacity ?st1" using ok by (rule guard_step_ok)
  have ok2: "history_ok capacity st2" unfolding st2 using ok1 by (rule wg.run_invar)
  have "remembered t1 (UpdateKey u) (snd ?st1)"
    using accepted_remembered [OF assms(4,2)] by (simp add: guard_step_def)
  then have "remembered t1 (UpdateKey u) (snd st2)" unfolding st2
    using assms(2,6,8,9) by (intro guard_run_remembers [OF ok1]) (auto simp: max_def)
  with ok2 assms(2,8) show ?thesis using accepted_twice by (fastforce simp: history_ok_def)
qed

definition demo_command :: "(string \<times> json) list" where
  "demo_command =
    [(''message'', JDict [(''text'', JStr ''/start@bot x''), (''entities'', JList [JDict [(''type'', JStr ''bot_command''),
       (''offset'', JInt 0), (''length'', JInt 10)]]), (''message_id'', JInt 7),
       (''chat'', JDict [(''id'', JInt 5), (''type'', JStr ''private'')])])]"

theorem webhook_admitted_once_witness:
  "\<not> snd (should_accept_webhook_update (\<lambda>v. []) (\<lambda>r k n. (r, Inl ())) 180 40 9 1 demo_command
      (foldl (guard_step (\<lambda>v. []) (\<lambda>r k n. (r, Inl ())) 180 40) (Some (0 :: nat), []) [(1, 1, demo_command), (2, 2, [])]))"
proof -
  let ?nx = "\<lambda>(r :: nat) (k :: string) (n :: int). (r, Inl () :: unit + bool)"
  have ok: "history_ok 40 (Some (0 :: nat), [])" by (simp add: history_ok_def)
  have acc: "snd (should_accept_webhook_update (\<lambda>v. []) ?nx 180 40 1 1 demo_command (Some 0, []))" by code_simp
  have few: "int (recent 1 (snd (guard_step (\<lambda>v. []) ?nx 180 40 (Some 0, []) (1, 1, demo_command)))) +
    2 * int (length [(2 :: secs, 2 :: int, [] :: (string \<times> json) list)]) + max 2 (40 div 10) \<le> 40" by code_simp
  have "\<nexists>r' n. snd (claim_keys ?nx n (update_keys (\<lambda>v. []) 1 demo_command) r') = Inr True"
    by (auto simp: update_keys_def)
  then show ?thesis
    using webhook_admitted_once [where fmt = "\<lambda>v. []" and set_nx = ?nx and ttl = 180 and capacity = 40 and st = "(Some 0, [])"
        and before = "[]" and u = 1 and between = "[(2, 2, [])]" and ?t1.0 = 1 and ?t2.0 = 9 and ?p1.0 = demo_command and ?p2.0 = demo_command,
        OF ok _ _ acc refl _ _ _ few] by auto
qed

end
