(* ===== verification/Update_Queue.thy ===== *)
theory Update_Queue
  imports Prelude
begin

text \<open>
  The bounded queue of accepted updates, \<^verbatim>\<open>app/update_queue.py\<close>, and the two bounded observation stores it
  feeds, \<^verbatim>\<open>app/observability/ingress.py\<close>.

  \<^item> \<open>items\<close>, \<open>unfinished\<close> and the errors come from \<open>asyncio.Queue\<close>; \<open>outstanding\<close> and the waiting producers
    from the subclass.
  \<^item> A blocked \<open>put\<close> waits on a future. A future is pending, has its result set (\<open>Woken\<close>), or its task was
    cancelled before or after that and has not run its handler yet. The steps are what one task does between
    two suspension points of the event loop, and cancellation may arrive at any of them.
\<close>

section \<open>Observation stores\<close>

text \<open>An \<open>OrderedDict\<close>: assignment keeps the place of a key, \<open>move_to_end\<close> and a removal before the
  assignment move it to the end.\<close>

definition move_to_end :: "('k, 'v) dict \<Rightarrow> 'k \<Rightarrow> ('k, 'v) dict" where
  "move_to_end d k = (case dict_get d k of None \<Rightarrow> d | Some v \<Rightarrow> dict_pop d k @ [(k, v)])"

definition shed_oldest :: "nat \<Rightarrow> ('k, 'v) dict \<Rightarrow> ('k, 'v) dict" where
  "shed_oldest capacity d = drop (length d - capacity) d"

definition times_remember :: "nat \<Rightarrow> secs \<Rightarrow> int \<Rightarrow> (int, secs) dict \<Rightarrow> (int, secs) dict" where
  "times_remember capacity now update_id d = shed_oldest capacity (move_to_end (dict_set d update_id now) update_id)"

definition times_consume :: "int \<Rightarrow> (int, secs) dict \<Rightarrow> (int, secs) dict \<times> secs option" where
  "times_consume update_id d = (dict_pop d update_id, dict_get d update_id)"

text \<open>\<open>WebhookOriginStore\<close>: an entry is its expiry and the trace context \<open>'c\<close>.\<close>

record 'c origin_store =
  origin_capacity :: nat
  origin_ttl :: secs
  origin_items :: "(int, secs \<times> 'c) dict"

definition expire_origins :: "secs \<Rightarrow> (int, secs \<times> 'c) dict \<Rightarrow> (int, secs \<times> 'c) dict" where
  "expire_origins now d = dropWhile (\<lambda>e. \<not> fst (snd e) > now) d"

definition origin_remember :: "secs \<Rightarrow> 'c \<Rightarrow> int \<Rightarrow> 'c origin_store \<Rightarrow> 'c origin_store" where
  "origin_remember now ctx update_id o1 =
    o1\<lparr>origin_items := shed_oldest (origin_capacity o1)
      (dict_pop (expire_origins now (origin_items o1)) update_id @ [(update_id, (now + origin_ttl o1, ctx))])\<rparr>"

definition origin_consume :: "secs \<Rightarrow> int \<Rightarrow> 'c origin_store \<Rightarrow> 'c origin_store \<times> 'c option" where
  "origin_consume now update_id o1 =
    (let live = expire_origins now (origin_items o1)
     in (o1\<lparr>origin_items := dict_pop live update_id\<rparr>, map_option snd (dict_get live update_id)))"

definition origin_discard :: "int \<Rightarrow> 'c origin_store \<Rightarrow> 'c origin_store" where
  "origin_discard update_id o1 = o1\<lparr>origin_items := dict_pop (origin_items o1) update_id\<rparr>"

section \<open>The queue\<close>

datatype future = Pending | Woken | CancelledPending | CancelledWoken

datatype uq_error = QueueFull | QueueEmpty | TooManyDone | BadCapacity

record 'a update_queue =
  uq_maxsize :: int
  uq_items :: "'a list"
  uq_unfinished :: int
  uq_outstanding :: int
  uq_waiters :: "nat list"
  uq_futures :: "(nat, future \<times> 'a) dict"
  uq_next :: nat
  uq_times :: "(int, secs) dict"

definition TIMES_CAPACITY :: nat where
  "TIMES_CAPACITY = 10000"

definition uq_init :: "int \<Rightarrow> uq_error + 'a update_queue" where
  "uq_init capacity =
    (if capacity < 1 then Inl BadCapacity
     else Inr \<lparr>uq_maxsize = capacity, uq_items = [], uq_unfinished = 0, uq_outstanding = 0, uq_waiters = [],
               uq_futures = [], uq_next = 0, uq_times = []\<rparr>)"

definition uq_full :: "'a update_queue \<Rightarrow> bool" where
  "uq_full q \<longleftrightarrow> uq_outstanding q \<ge> uq_maxsize q"

definition put_nowait :: "('a \<Rightarrow> int option) \<Rightarrow> secs \<Rightarrow> 'a \<Rightarrow> 'a update_queue \<Rightarrow> 'a update_queue \<times> (uq_error + unit)" where
  "put_nowait update_id_of now x q =
    (if uq_full q then (q, Inl QueueFull)
     else (q\<lparr>uq_items := uq_items q @ [x], uq_unfinished := uq_unfinished q + 1, uq_outstanding := uq_outstanding q + 1,
             uq_times := (case update_id_of x of
                Some i \<Rightarrow> times_remember TIMES_CAPACITY now i (uq_times q) | None \<Rightarrow> uq_times q)\<rparr>, Inr ()))"

definition get_nowait :: "'a update_queue \<Rightarrow> 'a update_queue \<times> (uq_error + 'a)" where
  "get_nowait q =
    (case uq_items q of [] \<Rightarrow> (q, Inl QueueEmpty) | x # xs \<Rightarrow> (q\<lparr>uq_items := xs\<rparr>, Inr x))"

definition future_state :: "'a update_queue \<Rightarrow> nat \<Rightarrow> future option" where
  "future_state q w = map_option fst (dict_get (uq_futures q) w)"

definition set_future :: "nat \<Rightarrow> future \<Rightarrow> 'a update_queue \<Rightarrow> 'a update_queue" where
  "set_future w f q =
    (case dict_get (uq_futures q) w of
       None \<Rightarrow> q
     | Some (_, x) \<Rightarrow> q\<lparr>uq_futures := dict_set (uq_futures q) w (f, x)\<rparr>)"

fun wake_from :: "nat list \<Rightarrow> 'a update_queue \<Rightarrow> 'a update_queue" where
  "wake_from [] q = q\<lparr>uq_waiters := []\<rparr>"
| "wake_from (w # ws) q =
    (if future_state q w = Some Pending then set_future w Woken (q\<lparr>uq_waiters := ws\<rparr>) else wake_from ws q)"

definition wake_producer :: "'a update_queue \<Rightarrow> 'a update_queue" where
  "wake_producer q = wake_from (uq_waiters q) q"

definition task_done :: "'a update_queue \<Rightarrow> 'a update_queue \<times> (uq_error + unit)" where
  "task_done q =
    (if uq_unfinished q \<le> 0 then (q, Inl TooManyDone)
     else (wake_producer (q\<lparr>uq_unfinished := uq_unfinished q - 1, uq_outstanding := uq_outstanding q - 1\<rparr>), Inr ()))"

text \<open>\<open>put\<close> from the head of its loop to the next suspension: it waits on a fresh future or enqueues.\<close>

definition put_turn :: "('a \<Rightarrow> int option) \<Rightarrow> secs \<Rightarrow> 'a \<Rightarrow> 'a update_queue \<Rightarrow> 'a update_queue" where
  "put_turn update_id_of now x q =
    (if uq_full q
     then q\<lparr>uq_waiters := uq_waiters q @ [uq_next q], uq_futures := dict_set (uq_futures q) (uq_next q) (Pending, x),
            uq_next := uq_next q + 1\<rparr>
     else fst (put_nowait update_id_of now x q))"

definition put_resume :: "('a \<Rightarrow> int option) \<Rightarrow> secs \<Rightarrow> nat \<Rightarrow> 'a update_queue \<Rightarrow> 'a update_queue" where
  "put_resume update_id_of now w q =
    (case dict_get (uq_futures q) w of
       Some (Woken, x) \<Rightarrow> put_turn update_id_of now x (q\<lparr>uq_futures := dict_pop (uq_futures q) w\<rparr>)
     | _ \<Rightarrow> q)"

definition put_cancel :: "nat \<Rightarrow> 'a update_queue \<Rightarrow> 'a update_queue" where
  "put_cancel w q =
    (case future_state q w of
       Some Pending \<Rightarrow> set_future w CancelledPending q
     | Some Woken \<Rightarrow> set_future w CancelledWoken q
     | _ \<Rightarrow> q)"

text \<open>The \<open>except\<close> branch of a cancelled \<open>put\<close>.\<close>

definition put_cancelled :: "nat \<Rightarrow> 'a update_queue \<Rightarrow> 'a update_queue" where
  "put_cancelled w q =
    (if future_state q w \<in> {Some CancelledPending, Some CancelledWoken}
     then (let q1 = q\<lparr>uq_waiters := remove1 w (uq_waiters q), uq_futures := dict_pop (uq_futures q) w\<rparr>
           in if uq_full q1 then q1 else wake_producer q1)
     else q)"

datatype 'a uq_event =
  UPut secs 'a
  | UPutNowait secs 'a
  | UGet
  | UDone
  | UResume secs nat
  | UCancel nat
  | UCancelled nat

fun uq_step :: "('a \<Rightarrow> int option) \<Rightarrow> 'a update_queue \<Rightarrow> 'a uq_event \<Rightarrow> 'a update_queue" where
  "uq_step idf q (UPut now x) = put_turn idf now x q"
| "uq_step idf q (UPutNowait now x) = fst (put_nowait idf now x q)"
| "uq_step idf q UGet = fst (get_nowait q)"
| "uq_step idf q UDone = fst (task_done q)"
| "uq_step idf q (UResume now w) = put_resume idf now w q"
| "uq_step idf q (UCancel w) = put_cancel w q"
| "uq_step idf q (UCancelled w) = put_cancelled w q"

section \<open>No lost wake-up\<close>

definition pending_waiters :: "'a update_queue \<Rightarrow> nat list" where
  "pending_waiters q = filter (\<lambda>w. future_state q w = Some Pending) (uq_waiters q)"

definition woken :: "'a update_queue \<Rightarrow> int" where
  "woken q = dict_sum (\<lambda>v. of_bool (fst v \<in> {Woken, CancelledWoken})) (uq_futures q)"

definition uq_shape :: "'a update_queue \<Rightarrow> bool" where
  "uq_shape q \<longleftrightarrow>
    1 \<le> uq_maxsize q \<and> 0 \<le> uq_outstanding q \<and> uq_outstanding q \<le> uq_maxsize q \<and> uq_unfinished q = uq_outstanding q \<and>
    dict_ok (uq_futures q) \<and> distinct (uq_waiters q) \<and>
    (\<forall>w v. dict_get (uq_futures q) w = Some v \<longrightarrow> w < uq_next q \<and> (fst v = Pending \<longrightarrow> w \<in> set (uq_waiters q))) \<and>
    (\<forall>w \<in> set (uq_waiters q). w < uq_next q)"

text \<open>Whenever a producer waits, every free place is already promised to a producer that was woken.\<close>

definition uq_inv :: "'a update_queue \<Rightarrow> bool" where
  "uq_inv q \<longleftrightarrow> uq_shape q \<and> (pending_waiters q \<noteq> [] \<longrightarrow> uq_maxsize q \<le> uq_outstanding q + woken q)"

lemma uq_shapeD:
  assumes "uq_shape q"
  shows "1 \<le> uq_maxsize q" "0 \<le> uq_outstanding q" "uq_outstanding q \<le> uq_maxsize q" "uq_unfinished q = uq_outstanding q"
    "dict_ok (uq_futures q)" "distinct (uq_waiters q)"
    "dict_get (uq_futures q) w = Some v \<Longrightarrow> w < uq_next q" "dict_get (uq_futures q) w = Some (Pending, x) \<Longrightarrow> w \<in> set (uq_waiters q)"
    "w \<in> set (uq_waiters q) \<Longrightarrow> w < uq_next q"
  using assms unfolding uq_shape_def by (cases v, auto)+

lemma pending_iff: "uq_shape q \<Longrightarrow> pending_waiters q \<noteq> [] \<longleftrightarrow> (\<exists>w x. dict_get (uq_futures q) w = Some (Pending, x))"
  by (auto simp: pending_waiters_def filter_empty_conv future_state_def dest: uq_shapeD(8))

lemma wake_from_dropWhile:
  "wake_from ws q = (case dropWhile (\<lambda>w. future_state q w \<noteq> Some Pending) ws of
     [] \<Rightarrow> q\<lparr>uq_waiters := []\<rparr> | w # ws' \<Rightarrow> set_future w Woken (q\<lparr>uq_waiters := ws'\<rparr>))"
  by (induction ws) auto

lemma woken_set:
  "dict_get (uq_futures q) w = Some (f, x) \<Longrightarrow>
    dict_sum (\<lambda>v. of_bool (fst v \<in> {Woken, CancelledWoken})) (dict_set (uq_futures q) w (f', x)) =
    woken q - of_bool (f \<in> {Woken, CancelledWoken}) + of_bool (f' \<in> {Woken, CancelledWoken})"
  by (simp add: woken_def dict_sum_set_present)

lemma woken_pop:
  "dict_ok (uq_futures q) \<Longrightarrow> dict_get (uq_futures q) w = Some (f, x) \<Longrightarrow>
    dict_sum (\<lambda>v. of_bool (fst v \<in> {Woken, CancelledWoken})) (dict_pop (uq_futures q) w) =
    woken q - of_bool (f \<in> {Woken, CancelledWoken})"
  by (simp add: woken_def dict_sum_pop)

lemma wake_producer_inv:
  assumes sh: "uq_shape q" and slack: "pending_waiters q \<noteq> [] \<Longrightarrow> uq_maxsize q \<le> uq_outstanding q + woken q + 1"
  shows "uq_inv (wake_producer q)"
proof (cases "dropWhile (\<lambda>w. future_state q w \<noteq> Some Pending) (uq_waiters q)")
  case Nil
  then have none: "\<forall>w \<in> set (uq_waiters q). future_state q w \<noteq> Some Pending" by (simp add: dropWhile_eq_Nil_conv)
  then have free: "dict_get (uq_futures q) w \<noteq> Some (Pending, x)" for w x
    using uq_shapeD(8) [OF sh] by (force simp: future_state_def)
  have eq: "wake_producer q = q\<lparr>uq_waiters := []\<rparr>" by (simp add: wake_producer_def wake_from_dropWhile Nil)
  have "uq_shape (wake_producer q)" using sh free unfolding eq uq_shape_def by (auto split: prod.splits)
  then show ?thesis unfolding eq uq_inv_def by (simp add: pending_waiters_def)
next
  case (Cons w ws)
  then obtain pre where split: "uq_waiters q = pre @ w # ws" and st: "future_state q w = Some Pending"
    and pre: "\<forall>v \<in> set pre. future_state q v \<noteq> Some Pending"
    by (metis (mono_tags, lifting) dropWhile_eq_Cons_conv set_takeWhileD takeWhile_dropWhile_id)
  then obtain x where x: "dict_get (uq_futures q) w = Some (Pending, x)" by (auto simp: future_state_def)
  have eq: "wake_producer q = q\<lparr>uq_waiters := ws, uq_futures := dict_set (uq_futures q) w (Woken, x)\<rparr>"
    by (simp add: wake_producer_def wake_from_dropWhile Cons set_future_def x)
  have "v \<in> set ws" if "dict_get (uq_futures q) v = Some (Pending, y)" "v \<noteq> w" for v y
    using uq_shapeD(8) [OF sh that(1)] that pre by (auto simp: split future_state_def)
  then have sh': "uq_shape (wake_producer q)" using sh x unfolding eq uq_shape_def by (auto simp: split split: if_splits)
  have "pending_waiters q \<noteq> []" using pending_iff [OF sh] x by blast
  with slack have "uq_maxsize q \<le> uq_outstanding q + woken q + 1" .
  moreover have "woken (wake_producer q) = woken q + 1" using woken_set [OF x, of Woken] by (simp add: eq woken_def)
  ultimately show ?thesis using sh' by (simp add: uq_inv_def eq)
qed

lemma uq_invD: "uq_inv q \<Longrightarrow> uq_shape q" "uq_inv q \<Longrightarrow> pending_waiters q \<noteq> [] \<Longrightarrow> uq_maxsize q \<le> uq_outstanding q + woken q"
  by (simp_all add: uq_inv_def)

lemma woken_nonneg: "0 \<le> woken q"
  unfolding woken_def by (rule dict_sum_nonneg) simp

lemma put_nowait_inv: "uq_inv q \<Longrightarrow> uq_inv (fst (put_nowait idf now x q))"
  by (auto simp: uq_inv_def uq_shape_def put_nowait_def uq_full_def pending_waiters_def woken_def future_state_def)

lemma get_nowait_inv: "uq_inv q \<Longrightarrow> uq_inv (fst (get_nowait q))"
  by (auto simp: uq_inv_def uq_shape_def get_nowait_def pending_waiters_def woken_def future_state_def split: list.split)

lemma task_done_inv:
  assumes "uq_inv q"
  shows "uq_inv (fst (task_done q))"
proof (cases "uq_unfinished q \<le> 0")
  case True
  with assms show ?thesis by (simp add: task_done_def)
next
  case False
  let ?q = "q\<lparr>uq_unfinished := uq_unfinished q - 1, uq_outstanding := uq_outstanding q - 1\<rparr>"
  have "uq_shape ?q" using uq_invD(1) [OF assms] False by (auto simp: uq_shape_def)
  moreover have "pending_waiters ?q = pending_waiters q" "woken ?q = woken q"
    by (simp_all add: pending_waiters_def woken_def future_state_def)
  ultimately have "uq_inv (wake_producer ?q)" using uq_invD(2) [OF assms] by (intro wake_producer_inv) simp_all
  with False show ?thesis by (simp add: task_done_def)
qed

text \<open>A turn of \<open>put\<close> may start with one promise fewer: the woken producer is the one that runs.\<close>

lemma put_turn_inv:
  assumes sh: "uq_shape q" and slack: "pending_waiters q \<noteq> [] \<Longrightarrow> uq_maxsize q \<le> uq_outstanding q + woken q + 1"
  shows "uq_inv (put_turn idf now x q)"
proof (cases "uq_full q")
  case False
  with sh slack show ?thesis
    by (auto simp: put_turn_def put_nowait_def uq_inv_def uq_shape_def uq_full_def pending_waiters_def woken_def future_state_def)
next
  case True
  have "uq_next q \<notin> set (uq_waiters q)" "dict_get (uq_futures q) (uq_next q) = None"
    using uq_shapeD(7,9) [OF sh] by (metis less_irrefl not_None_eq)+
  then have sh': "uq_shape (put_turn idf now x q)"
    using sh True unfolding uq_shape_def put_turn_def by (auto simp: less_Suc_eq)
  show ?thesis unfolding uq_inv_def using sh' True woken_nonneg [of "put_turn idf now x q"]
    by (simp add: put_turn_def uq_full_def)
qed

lemma put_start_inv: "uq_inv q \<Longrightarrow> uq_inv (put_turn idf now x q)"
  using uq_invD(2) [of q] by (intro put_turn_inv) (auto simp: uq_invD(1))

lemma put_resume_inv:
  assumes inv: "uq_inv q"
  shows "uq_inv (put_resume idf now w q)"
proof (cases "\<exists>x. dict_get (uq_futures q) w = Some (Woken, x)")
  case False
  then have "put_resume idf now w q = q" by (auto simp: put_resume_def split: option.split future.split)
  with inv show ?thesis by simp
next
  case True
  then obtain x where x: "dict_get (uq_futures q) w = Some (Woken, x)" ..
  note sh = uq_invD(1) [OF inv]
  let ?q = "q\<lparr>uq_futures := dict_pop (uq_futures q) w\<rparr>"
  have "uq_shape ?q" using sh x unfolding uq_shape_def by (auto split: if_splits)
  moreover have "woken ?q = woken q - 1" using woken_pop [OF uq_shapeD(5) [OF sh] x] by (simp add: woken_def)
  moreover have "pending_waiters ?q \<noteq> [] \<Longrightarrow> pending_waiters q \<noteq> []"
    by (auto simp: pending_waiters_def filter_empty_conv future_state_def split: if_splits)
  ultimately have "uq_inv (put_turn idf now x ?q)" using uq_invD(2) [OF inv] by (intro put_turn_inv) simp_all
  with x show ?thesis by (simp add: put_resume_def)
qed

lemma put_cancel_inv:
  assumes inv: "uq_inv q"
  shows "uq_inv (put_cancel w q)"
proof (cases "dict_get (uq_futures q) w")
  case None
  with inv show ?thesis by (simp add: put_cancel_def future_state_def)
next
  case (Some v)
  obtain f x where v: "v = (f, x)" by (cases v)
  define f' where "f' = (case f of Pending \<Rightarrow> CancelledPending | Woken \<Rightarrow> CancelledWoken | _ \<Rightarrow> f)"
  have f': "f' \<noteq> Pending" "f' \<in> {Woken, CancelledWoken} \<longleftrightarrow> f \<in> {Woken, CancelledWoken}" by (auto simp: f'_def split: future.splits)
  let ?q = "q\<lparr>uq_futures := dict_set (uq_futures q) w (f', x)\<rparr>"
  note sh = uq_invD(1) [OF inv]
  have "uq_shape ?q" using sh Some f'(1) unfolding uq_shape_def v by (auto split: if_splits)
  moreover have "woken ?q = woken q" using woken_set [of q w f x f'] Some f'(2) by (auto simp: woken_def v)
  moreover have "pending_waiters ?q \<noteq> [] \<Longrightarrow> pending_waiters q \<noteq> []"
    using f'(1) by (auto simp: pending_waiters_def filter_empty_conv future_state_def split: if_splits)
  ultimately have q: "uq_inv ?q" using uq_invD(2) [OF inv] by (simp add: uq_inv_def)
  have "put_cancel w q \<in> {q, ?q}"
    using Some by (auto simp: put_cancel_def set_future_def future_state_def v f'_def split: future.split)
  with q inv show ?thesis by auto
qed

lemma put_cancelled_inv:
  assumes inv: "uq_inv q"
  shows "uq_inv (put_cancelled w q)"
proof (cases "future_state q w \<in> {Some CancelledPending, Some CancelledWoken}")
  case False
  with inv show ?thesis by (simp add: put_cancelled_def)
next
  case True
  then obtain f x where x: "dict_get (uq_futures q) w = Some (f, x)" and f: "f \<in> {CancelledPending, CancelledWoken}"
    by (auto simp: future_state_def)
  note sh = uq_invD(1) [OF inv]
  let ?q = "q\<lparr>uq_waiters := remove1 w (uq_waiters q), uq_futures := dict_pop (uq_futures q) w\<rparr>"
  have sh': "uq_shape ?q" using sh x f unfolding uq_shape_def by (auto split: if_splits dest: notin_set_remove1)
  have "woken ?q \<ge> woken q - 1" using woken_pop [OF uq_shapeD(5) [OF sh] x] by (simp add: woken_def)
  moreover have "pending_waiters ?q \<noteq> [] \<Longrightarrow> pending_waiters q \<noteq> []"
    by (auto simp: pending_waiters_def filter_empty_conv future_state_def split: if_splits dest: notin_set_remove1)
  ultimately have "uq_inv (wake_producer ?q)" using uq_invD(2) [OF inv] sh' by (intro wake_producer_inv) fastforce+
  moreover have "uq_inv ?q" if "uq_full ?q" using sh' that woken_nonneg [of ?q] by (simp add: uq_inv_def uq_full_def)
  ultimately show ?thesis using True by (simp add: put_cancelled_def Let_def)
qed

lemma uq_step_inv: "uq_inv q \<Longrightarrow> uq_inv (uq_step idf q e)"
  by (cases e)
    (simp_all add: put_start_inv put_nowait_inv get_nowait_inv task_done_inv put_resume_inv put_cancel_inv put_cancelled_inv)

interpretation uq: invariant_run "uq_step idf" uq_inv
  for idf
  by unfold_locales (rule uq_step_inv)

lemma uq_init_inv: "uq_init capacity = Inr q \<Longrightarrow> uq_inv q \<and> uq_maxsize q = capacity"
  by (auto simp: uq_init_def uq_inv_def uq_shape_def pending_waiters_def woken_def split: if_splits)

lemma wake_from_maxsize: "uq_maxsize (wake_from ws q) = uq_maxsize q"
  by (induction ws) (auto simp: set_future_def split: option.split)

lemma uq_step_maxsize: "uq_maxsize (uq_step idf q e) = uq_maxsize q"
  by (cases e)
    (auto simp: put_turn_def put_nowait_def get_nowait_def task_done_def wake_producer_def wake_from_maxsize put_resume_def put_cancel_def
      put_cancelled_def set_future_def Let_def split: list.split option.split future.split)

lemma uq_run_maxsize: "uq_maxsize (foldl (uq_step idf) q es) = uq_maxsize q"
  by (induction es arbitrary: q) (simp_all add: uq_step_maxsize)

text \<open>Property C28. The update queue never admits more than its capacity and loses no wake-up: over every interleaving of
  puts, gets, completions, resumptions and cancellations, the outstanding updates stay between zero and the
  capacity and agree with the unfinished count of the base queue, and while a producer waits every free
  place is promised to a producer already woken; when no woken producer is left to run, a waiting producer
  means the queue is full.\<close>

theorem update_queue_no_lost_wakeup:
  assumes "uq_init capacity = Inr q0"
  shows "0 \<le> uq_outstanding (foldl (uq_step idf) q0 es) \<and> uq_outstanding (foldl (uq_step idf) q0 es) \<le> capacity \<and>
    uq_unfinished (foldl (uq_step idf) q0 es) = uq_outstanding (foldl (uq_step idf) q0 es) \<and>
    (pending_waiters (foldl (uq_step idf) q0 es) \<noteq> [] \<longrightarrow>
      capacity \<le> uq_outstanding (foldl (uq_step idf) q0 es) + woken (foldl (uq_step idf) q0 es))"
proof -
  let ?q = "foldl (uq_step idf) q0 es"
  have "uq_inv ?q" using uq_init_inv [OF assms] by (blast intro: uq.run_invar)
  moreover have "uq_maxsize ?q = capacity" using uq_init_inv [OF assms] by (simp add: uq_run_maxsize)
  ultimately show ?thesis by (simp add: uq_inv_def uq_shape_def)
qed

text \<open>A woken producer is cancelled after another one took its place: the next one waits on a full queue.\<close>

theorem update_queue_no_lost_wakeup_witness:
  "\<exists>q0. uq_init 1 = Inr q0 \<and>
    pending_waiters (foldl (uq_step (\<lambda>x. Some x)) q0
      [UPut 0 (1 :: int), UPut 0 2, UPut 0 3, UGet, UDone, UCancel 0, UPutNowait 1 4, UCancelled 0]) \<noteq> [] \<and>
    uq_outstanding (foldl (uq_step (\<lambda>x. Some x)) q0
      [UPut 0 (1 :: int), UPut 0 2, UPut 0 3, UGet, UDone, UCancel 0, UPutNowait 1 4, UCancelled 0]) = 1"
proof -
  obtain q0 :: "int update_queue" where q0: "uq_init 1 = Inr q0" by (auto simp: uq_init_def)
  let ?q = "foldl (uq_step (\<lambda>x. Some x)) q0
      [UPut 0 (1 :: int), UPut 0 2, UPut 0 3, UGet, UDone, UCancel 0, UPutNowait 1 4, UCancelled 0]"
  have "(case uq_init 1 of Inr q0 \<Rightarrow> (let q = foldl (uq_step (\<lambda>x. Some x)) q0
      [UPut 0 (1 :: int), UPut 0 2, UPut 0 3, UGet, UDone, UCancel 0, UPutNowait 1 4, UCancelled 0]
      in pending_waiters q \<noteq> [] \<and> woken q = 0) | Inl e \<Rightarrow> False)" by code_simp
  then have "pending_waiters ?q \<noteq> []" "woken ?q = 0" by (simp_all add: q0 Let_def)
  with update_queue_no_lost_wakeup [OF q0, of "\<lambda>x. Some x"
      "[UPut 0 1, UPut 0 2, UPut 0 3, UGet, UDone, UCancel 0, UPutNowait 1 4, UCancelled 0]"] q0
  show ?thesis by auto
qed

end
