(* ===== verification/Ingress.thy ===== *)
theory Ingress
  imports Webhook_Dedupe Update_Queue
begin

text \<open>
  The way of a Telegram update from the HTTP request into the queue: \<open>webhook_handler\<close> and \<open>admit_update\<close> of
  \<^verbatim>\<open>bot.py\<close> inside the gate of \<^verbatim>\<open>app/webhook_admission.py\<close>, over the guard of \<open>Webhook_Dedupe\<close> and the queue of
  \<open>Update_Queue\<close>.

  \<^item> A step is what happens between two suspension points, so requests, the consumer of the queue, other
    processes on Redis, cancellations and the shutdown interleave freely; \<open>asyncio.Lock\<close> may wake any waiter.
  \<^item> \<open>_await_owned\<close> makes the operation outlive the cancellation of its request, which is raised after it:
    cancelling a request that runs its operation only decides what the request gets in the end.
  \<^item> The update object is \<open>'a\<close> (\<open>de_json\<close> decodes it, \<open>None\<close> when it raises), the trace context \<open>'c\<close>, the
    state of the Redis server \<open>'r\<close>.
\<close>

section \<open>State\<close>

type_synonym payload = "(string \<times> json) list"

datatype 'a request =
  Waiting payload 'a
  | Started payload 'a
  | Checked payload 'a
  | Answered int
  | Dropped

datatype stop_phase = NotAsked | Draining | Stopping | Stopped

datatype lock_owner = Operation nat | StopCallback

record ('a, 'c, 'r) ingress =
  gate_closed :: bool
  gate_lock :: "lock_owner option"
  gate_stop :: stop_phase
  gate_cancelled :: "nat list"
  in_requests :: "(nat, 'a request) dict"
  in_queue :: "'a update_queue"
  in_guard :: "'r option \<times> seen_ids"
  in_origins :: "'c origin_store"

record ('a, 'r) webhook_env =
  webhook_secret :: string
  de_json :: "payload \<Rightarrow> 'a option"
  update_id_of :: "'a \<Rightarrow> int option"
  str_of :: "json \<Rightarrow> string"
  redis_set_nx :: "'r set_nx"

definition DEDUP_TTL :: secs where
  "DEDUP_TTL = 86400"

definition DEDUP_CAPACITY :: int where
  "DEDUP_CAPACITY = 10000"

section \<open>Owned operations\<close>

datatype 'v child = Returned 'v | Raised string | SelfCancelled

datatype 'v owned_outcome = Value 'v | ChildError string | ChildCancellation | OwnerCancellation

text \<open>What \<open>_await_owned\<close> ends with when the child has completed: \<open>cancelled\<close> tells whether the owner was cancelled
  while the child ran, \<open>cancelling\<close> whether a cancellation of the owner is pending when a child that
  cancelled itself is observed.\<close>

definition await_owned :: "bool \<Rightarrow> bool \<Rightarrow> 'v child \<Rightarrow> 'v owned_outcome" where
  "await_owned cancelled cancelling c =
    (let cancellation = (cancelled \<or> (c = SelfCancelled \<and> cancelling)) in
     case c of
       Returned v \<Rightarrow> if cancellation then OwnerCancellation else Value v
     | Raised e \<Rightarrow> if cancellation then OwnerCancellation else ChildError e
     | SelfCancelled \<Rightarrow> if cancellation then OwnerCancellation else ChildCancellation)"

section \<open>Steps\<close>

definition set_request :: "nat \<Rightarrow> 'a request \<Rightarrow> ('a, 'c, 'r) ingress \<Rightarrow> ('a, 'c, 'r) ingress" where
  "set_request i r s = s\<lparr>in_requests := dict_set (in_requests s) i r\<rparr>"

text \<open>\<^verbatim>\<open>app/webhook_security.py\<close>: \<open>hmac.compare_digest\<close> raises on text that is not ASCII.\<close>

definition webhook_secret_matches :: "string \<Rightarrow> string \<Rightarrow> bool" where
  "webhook_secret_matches expected provided \<longleftrightarrow>
    list_all (\<lambda>c. of_char c < (128 :: nat)) (expected @ provided) \<and> expected = provided"

text \<open>\<open>webhook_handler\<close> up to the gate.\<close>

definition arrive :: "('a, 'r) webhook_env \<Rightarrow> nat \<Rightarrow> string \<Rightarrow> json \<Rightarrow> ('a, 'c, 'r) ingress \<Rightarrow> ('a, 'c, 'r) ingress" where
  "arrive env i header body s =
    (if dict_has (in_requests s) i then s
     else if webhook_secret env \<noteq> [] \<and> \<not> webhook_secret_matches (webhook_secret env) header then set_request i (Answered 403) s
     else case body of
       JDict p \<Rightarrow>
        (case de_json env p of
           None \<Rightarrow> set_request i (Answered 400) s
         | Some x \<Rightarrow> set_request i (if gate_closed s then Answered 503 else Waiting p x) s)
     | _ \<Rightarrow> set_request i (Answered 400) s)"

definition acquire :: "nat \<Rightarrow> ('a, 'c, 'r) ingress \<Rightarrow> ('a, 'c, 'r) ingress" where
  "acquire i s =
    (case dict_get (in_requests s) i of
       Some (Waiting p x) \<Rightarrow>
        (if gate_lock s \<noteq> None then s
         else if gate_closed s then set_request i (Answered 503) s
         else (set_request i (Started p x) s)\<lparr>gate_lock := Some (Operation i)\<rparr>)
     | _ \<Rightarrow> s)"

definition answer :: "nat \<Rightarrow> int \<Rightarrow> ('a, 'c, 'r) ingress \<Rightarrow> ('a, 'c, 'r) ingress" where
  "answer i status s =
    (set_request i (case await_owned (i \<in> set (gate_cancelled s)) False (Returned status) of Value n \<Rightarrow> Answered n | _ \<Rightarrow> Dropped) s)
      \<lparr>gate_lock := None\<rparr>"

definition check_capacity :: "nat \<Rightarrow> ('a, 'c, 'r) ingress \<Rightarrow> ('a, 'c, 'r) ingress" where
  "check_capacity i s =
    (case dict_get (in_requests s) i of
       Some (Started p x) \<Rightarrow> if uq_full (in_queue s) then answer i 503 s else set_request i (Checked p x) s
     | _ \<Rightarrow> s)"

text \<open>The rest of \<open>admit_update\<close>: the claim, the origin and the hand-over to the queue.\<close>

definition hand_over :: "('a, 'r) webhook_env \<Rightarrow> secs \<Rightarrow> 'c \<Rightarrow> nat \<Rightarrow> int option \<Rightarrow> 'a \<Rightarrow> ('a, 'c, 'r) ingress \<Rightarrow> ('a, 'c, 'r) ingress" where
  "hand_over env now ctx i uid x s =
    (let s1 = (case uid of Some u \<Rightarrow> s\<lparr>in_origins := origin_remember now ctx u (in_origins s)\<rparr> | None \<Rightarrow> s) in
     case put_nowait (update_id_of env) now x (in_queue s1) of
       (q, Inr _) \<Rightarrow> answer i 200 (s1\<lparr>in_queue := q\<rparr>)
     | (q, Inl _) \<Rightarrow>
        answer i 503 (case uid of Some u \<Rightarrow> s1\<lparr>in_origins := origin_discard u (in_origins s1)\<rparr> | None \<Rightarrow> s1))"

definition admit_update :: "('a, 'r) webhook_env \<Rightarrow> secs \<Rightarrow> 'c \<Rightarrow> nat \<Rightarrow> ('a, 'c, 'r) ingress \<Rightarrow> ('a, 'c, 'r) ingress" where
  "admit_update env now ctx i s =
    (case dict_get (in_requests s) i of
       Some (Checked p x) \<Rightarrow>
        (case json_as_int (json_get p ''update_id'') of
           None \<Rightarrow> hand_over env now ctx i None x s
         | Some u \<Rightarrow>
            (let (g, ok) = should_accept_webhook_update (str_of env) (redis_set_nx env) DEDUP_TTL DEDUP_CAPACITY now u p (in_guard s)
             in if ok then hand_over env now ctx i (Some u) x (s\<lparr>in_guard := g\<rparr>)
                else answer i 200 (s\<lparr>in_guard := g\<rparr>)))
     | _ \<Rightarrow> s)"

definition cancel_request :: "nat \<Rightarrow> ('a, 'c, 'r) ingress \<Rightarrow> ('a, 'c, 'r) ingress" where
  "cancel_request i s =
    (case dict_get (in_requests s) i of
       Some (Waiting p x) \<Rightarrow> set_request i Dropped s
     | Some (Started p x) \<Rightarrow> s\<lparr>gate_cancelled := i # gate_cancelled s\<rparr>
     | Some (Checked p x) \<Rightarrow> s\<lparr>gate_cancelled := i # gate_cancelled s\<rparr>
     | _ \<Rightarrow> s)"

definition gate_close :: "('a, 'c, 'r) ingress \<Rightarrow> ('a, 'c, 'r) ingress" where
  "gate_close s = s\<lparr>gate_closed := True\<rparr>"

definition gate_shutdown :: "('a, 'c, 'r) ingress \<Rightarrow> ('a, 'c, 'r) ingress" where
  "gate_shutdown s = (gate_close s)\<lparr>gate_stop := (if gate_stop s = NotAsked then Draining else gate_stop s)\<rparr>"

definition drain :: "('a, 'c, 'r) ingress \<Rightarrow> ('a, 'c, 'r) ingress" where
  "drain s = (if gate_stop s = Draining \<and> gate_lock s = None then s\<lparr>gate_stop := Stopping, gate_lock := Some StopCallback\<rparr> else s)"

definition stopped :: "('a, 'c, 'r) ingress \<Rightarrow> ('a, 'c, 'r) ingress" where
  "stopped s = (if gate_stop s = Stopping then s\<lparr>gate_stop := Stopped, gate_lock := None\<rparr> else s)"

datatype ('c, 'r) ingress_event =
  IArrive nat string json
  | IAcquire nat
  | ICheck nat
  | IAdmit secs 'c nat
  | ICancel nat
  | IFetch
  | IDone
  | IRedis 'r
  | IClose
  | IShutdown
  | IDrain
  | IStopped

fun ingress_step :: "('a, 'r) webhook_env \<Rightarrow> ('a, 'c, 'r) ingress \<Rightarrow> ('c, 'r) ingress_event \<Rightarrow> ('a, 'c, 'r) ingress" where
  "ingress_step env s (IArrive i header body) = arrive env i header body s"
| "ingress_step env s (IAcquire i) = acquire i s"
| "ingress_step env s (ICheck i) = check_capacity i s"
| "ingress_step env s (IAdmit now ctx i) = admit_update env now ctx i s"
| "ingress_step env s (ICancel i) = cancel_request i s"
| "ingress_step env s IFetch = s\<lparr>in_queue := fst (get_nowait (in_queue s))\<rparr>"
| "ingress_step env s IDone = s\<lparr>in_queue := fst (task_done (in_queue s))\<rparr>"
| "ingress_step env s (IRedis r) = s\<lparr>in_guard := (map_option (\<lambda>_. r) (fst (in_guard s)), snd (in_guard s))\<rparr>"
| "ingress_step env s IClose = gate_close s"
| "ingress_step env s IShutdown = gate_shutdown s"
| "ingress_step env s IDrain = drain s"
| "ingress_step env s IStopped = stopped s"

definition ingress_init :: "'a update_queue \<Rightarrow> 'r option \<Rightarrow> 'c origin_store \<Rightarrow> ('a, 'c, 'r) ingress" where
  "ingress_init q redis o1 =
    \<lparr>gate_closed = False, gate_lock = None, gate_stop = NotAsked, gate_cancelled = [], in_requests = [], in_queue = q, in_guard = (redis, []), in_origins = o1\<rparr>"

section \<open>Exclusion\<close>

definition in_operation :: "('a, 'c, 'r) ingress \<Rightarrow> nat \<Rightarrow> bool" where
  "in_operation s i \<longleftrightarrow> (\<exists>p x. dict_get (in_requests s) i \<in> {Some (Started p x), Some (Checked p x)})"

definition ingress_inv :: "('a, 'c, 'r) ingress \<Rightarrow> bool" where
  "ingress_inv s \<longleftrightarrow>
    (\<forall>i. in_operation s i \<longleftrightarrow> gate_lock s = Some (Operation i)) \<and>
    (gate_lock s = Some StopCallback \<longleftrightarrow> gate_stop s = Stopping) \<and>
    (gate_stop s \<noteq> NotAsked \<longrightarrow> gate_closed s) \<and>
    (gate_stop s \<in> {Stopping, Stopped} \<longrightarrow> (\<forall>i. gate_lock s \<noteq> Some (Operation i))) \<and>
    uq_inv (in_queue s) \<and> history_ok DEDUP_CAPACITY (in_guard s) \<and>
    (\<forall>i p x. dict_get (in_requests s) i = Some (Checked p x) \<longrightarrow> \<not> uq_full (in_queue s))"

lemma ingress_invI:
  assumes "\<And>i. in_operation s i \<longleftrightarrow> gate_lock s = Some (Operation i)" "gate_lock s = Some StopCallback \<longleftrightarrow> gate_stop s = Stopping"
    "gate_stop s \<noteq> NotAsked \<Longrightarrow> gate_closed s" "\<And>i. gate_stop s \<in> {Stopping, Stopped} \<Longrightarrow> gate_lock s \<noteq> Some (Operation i)"
    "uq_inv (in_queue s)" "history_ok DEDUP_CAPACITY (in_guard s)"
    "\<And>i p x. dict_get (in_requests s) i = Some (Checked p x) \<Longrightarrow> \<not> uq_full (in_queue s)"
  shows "ingress_inv s"
  using assms unfolding ingress_inv_def by blast

lemma ingress_invD:
  assumes "ingress_inv s"
  shows "in_operation s i \<longleftrightarrow> gate_lock s = Some (Operation i)" "gate_lock s = Some StopCallback \<longleftrightarrow> gate_stop s = Stopping"
    "gate_stop s \<noteq> NotAsked \<Longrightarrow> gate_closed s" "gate_stop s \<in> {Stopping, Stopped} \<Longrightarrow> gate_lock s \<noteq> Some (Operation i)"
    "uq_inv (in_queue s)" "history_ok DEDUP_CAPACITY (in_guard s)"
    "dict_get (in_requests s) i = Some (Checked p x) \<Longrightarrow> \<not> uq_full (in_queue s)"
  using assms unfolding ingress_inv_def by blast+

text \<open>A request outside its operation changes nothing but its own entry.\<close>

lemma quiet_request_inv:
  assumes inv: "ingress_inv s" and "\<not> in_operation s i" and "\<And>p x. r \<notin> {Started p x, Checked p x}"
  shows "ingress_inv (set_request i r s)"
proof (rule ingress_invI)
  show "in_operation (set_request i r s) j \<longleftrightarrow> gate_lock (set_request i r s) = Some (Operation j)" for j
    using ingress_invD(1) [OF inv, of j] ingress_invD(1) [OF inv, of i] assms(2,3)
    by (auto simp: in_operation_def set_request_def split: if_splits)
  show "\<not> uq_full (in_queue (set_request i r s))" if "dict_get (in_requests (set_request i r s)) j = Some (Checked p x)" for j p x
    using that assms(3) ingress_invD(7) [OF inv] by (fastforce simp: set_request_def split: if_splits)
qed (use ingress_invD [OF inv] in \<open>simp_all add: set_request_def\<close>)

lemma answer_eq:
  "answer i n s = (set_request i (if i \<in> set (gate_cancelled s) then Dropped else Answered n) s)\<lparr>gate_lock := None\<rparr>"
  by (simp add: answer_def await_owned_def)

text \<open>An operation ends by releasing the lock.\<close>

lemma answer_inv:
  assumes inv: "ingress_inv s" and "in_operation s i" and "uq_inv q" and "history_ok DEDUP_CAPACITY g"
  shows "ingress_inv (answer i n (s\<lparr>in_queue := q, in_guard := g, in_origins := o1\<rparr>))"
proof (rule ingress_invI)
  have lock: "gate_lock s = Some (Operation i)" using ingress_invD(1) [OF inv] assms(2) by simp
  show "in_operation (answer i n (s\<lparr>in_queue := q, in_guard := g, in_origins := o1\<rparr>)) j \<longleftrightarrow>
      gate_lock (answer i n (s\<lparr>in_queue := q, in_guard := g, in_origins := o1\<rparr>)) = Some (Operation j)" for j
    using ingress_invD(1) [OF inv, of j] lock by (auto simp: in_operation_def answer_eq set_request_def split: if_splits)
  show "gate_lock (answer i n (s\<lparr>in_queue := q, in_guard := g, in_origins := o1\<rparr>)) = Some StopCallback \<longleftrightarrow>
      gate_stop (answer i n (s\<lparr>in_queue := q, in_guard := g, in_origins := o1\<rparr>)) = Stopping"
    using ingress_invD(2) [OF inv] lock by (simp add: answer_eq set_request_def)
  show "\<not> uq_full (in_queue (answer i n (s\<lparr>in_queue := q, in_guard := g, in_origins := o1\<rparr>)))"
    if "dict_get (in_requests (answer i n (s\<lparr>in_queue := q, in_guard := g, in_origins := o1\<rparr>))) j = Some (Checked p x)" for j p x
  proof -
    have "j \<noteq> i" "in_operation s j" using that by (auto simp: answer_eq set_request_def in_operation_def split: if_splits)
    with ingress_invD(1) [OF inv, of j] lock show ?thesis by simp
  qed
qed (use ingress_invD [OF inv] assms(3,4) in \<open>simp_all add: answer_eq set_request_def\<close>)

lemma arrive_inv: "ingress_inv s \<Longrightarrow> ingress_inv (arrive env i header body s)"
  unfolding arrive_def
  by (auto simp: dict_has_def in_operation_def intro!: quiet_request_inv split: json.split option.split)

lemma acquire_inv:
  assumes inv: "ingress_inv s"
  shows "ingress_inv (acquire i s)"
proof (cases "\<exists>p x. dict_get (in_requests s) i = Some (Waiting p x) \<and> gate_lock s = None")
  case False
  then have "acquire i s = s" by (auto simp: acquire_def split: option.split request.split)
  with inv show ?thesis by simp
next
  case True
  then obtain p x where w: "dict_get (in_requests s) i = Some (Waiting p x)" and free: "gate_lock s = None" by blast
  show ?thesis
  proof (cases "gate_closed s")
    case True
    with w free inv show ?thesis by (auto simp: acquire_def in_operation_def intro!: quiet_request_inv)
  next
    case False
    have none: "\<not> in_operation s j" for j using ingress_invD(1) [OF inv, of j] free by simp
    have eq: "acquire i s = (set_request i (Started p x) s)\<lparr>gate_lock := Some (Operation i)\<rparr>" using w free False by (simp add: acquire_def)
    have stop: "gate_stop s = NotAsked" using ingress_invD(3) [OF inv] False by blast
    show ?thesis unfolding eq
    proof (rule ingress_invI)
      show "in_operation ((set_request i (Started p x) s)\<lparr>gate_lock := Some (Operation i)\<rparr>) j \<longleftrightarrow>
          gate_lock ((set_request i (Started p x) s)\<lparr>gate_lock := Some (Operation i)\<rparr>) = Some (Operation j)" for j
        using none [of j] by (auto simp: in_operation_def set_request_def)
      show "\<not> uq_full (in_queue ((set_request i (Started p x) s)\<lparr>gate_lock := Some (Operation i)\<rparr>))"
        if "dict_get (in_requests ((set_request i (Started p x) s)\<lparr>gate_lock := Some (Operation i)\<rparr>)) j = Some (Checked p' x')" for j p' x'
        using that none [of j] by (auto simp: in_operation_def set_request_def split: if_splits)
    qed (use ingress_invD [OF inv] stop in \<open>simp_all add: set_request_def\<close>)
  qed
qed

lemma check_inv:
  assumes inv: "ingress_inv s"
  shows "ingress_inv (check_capacity i s)"
proof (cases "\<exists>p x. dict_get (in_requests s) i = Some (Started p x)")
  case False
  then have "check_capacity i s = s" by (auto simp: check_capacity_def split: option.split request.split)
  with inv show ?thesis by simp
next
  case True
  then obtain p x where w: "dict_get (in_requests s) i = Some (Started p x)" by blast
  then have op: "in_operation s i" by (auto simp: in_operation_def)
  show ?thesis
  proof (cases "uq_full (in_queue s)")
    case True
    have "ingress_inv (answer i 503 (s\<lparr>in_queue := in_queue s, in_guard := in_guard s, in_origins := in_origins s\<rparr>))"
      by (intro answer_inv [OF inv op] ingress_invD(5,6) [OF inv])
    with True w show ?thesis by (simp add: check_capacity_def)
  next
    case False
    have "ingress_inv (set_request i (Checked p x) s)"
    proof (rule ingress_invI)
      show "in_operation (set_request i (Checked p x) s) j \<longleftrightarrow> gate_lock (set_request i (Checked p x) s) = Some (Operation j)" for j
        using ingress_invD(1) [OF inv, of j] op by (auto simp: in_operation_def set_request_def)
    qed (use ingress_invD [OF inv] False in \<open>simp_all add: set_request_def\<close>)
    with False w show ?thesis by (simp add: check_capacity_def)
  qed
qed

text \<open>The capacity that was checked is still there at the hand-over.\<close>

lemma hand_over_eq:
  assumes "\<not> uq_full (in_queue s)"
  shows "hand_over env now ctx i uid x s =
    answer i 200 (s\<lparr>in_queue := fst (put_nowait (update_id_of env) now x (in_queue s)),
      in_guard := in_guard s,
      in_origins := (case uid of Some u \<Rightarrow> origin_remember now ctx u (in_origins s) | None \<Rightarrow> in_origins s)\<rparr>)"
  using assms by (cases s; cases uid) (simp_all add: hand_over_def put_nowait_def Let_def split: option.split)

lemma admit_cases:
  assumes inv: "ingress_inv s" and c: "dict_get (in_requests s) i = Some (Checked p x)"
  obtains (plain) "json_as_int (json_get p ''update_id'') = None"
      "admit_update env now ctx i s = answer i 200 (s\<lparr>in_queue := fst (put_nowait (update_id_of env) now x (in_queue s)),
        in_guard := in_guard s, in_origins := in_origins s\<rparr>)"
    | (dup) u g where "json_as_int (json_get p ''update_id'') = Some u"
      "should_accept_webhook_update (str_of env) (redis_set_nx env) DEDUP_TTL DEDUP_CAPACITY now u p (in_guard s) = (g, False)"
      "admit_update env now ctx i s = answer i 200 (s\<lparr>in_queue := in_queue s, in_guard := g, in_origins := in_origins s\<rparr>)"
    | (new) u g where "json_as_int (json_get p ''update_id'') = Some u"
      "should_accept_webhook_update (str_of env) (redis_set_nx env) DEDUP_TTL DEDUP_CAPACITY now u p (in_guard s) = (g, True)"
      "admit_update env now ctx i s = answer i 200 (s\<lparr>in_queue := fst (put_nowait (update_id_of env) now x (in_queue s)),
        in_guard := g, in_origins := origin_remember now ctx u (in_origins s)\<rparr>)"
proof (cases "json_as_int (json_get p ''update_id'')")
  case None
  with c plain show thesis by (simp add: admit_update_def hand_over_eq ingress_invD(7) [OF inv c])
next
  case (Some u)
  obtain g ok where g: "should_accept_webhook_update (str_of env) (redis_set_nx env) DEDUP_TTL DEDUP_CAPACITY now u p (in_guard s) = (g, ok)"
    by fastforce
  have "\<not> uq_full (in_queue (s\<lparr>in_guard := g\<rparr>))" using ingress_invD(7) [OF inv c] by simp
  from hand_over_eq [OF this] have "hand_over env now ctx i (Some u) x (s\<lparr>in_guard := g\<rparr>) =
      answer i 200 (s\<lparr>in_queue := fst (put_nowait (update_id_of env) now x (in_queue s)), in_guard := g,
        in_origins := origin_remember now ctx u (in_origins s)\<rparr>)" by simp
  with Some c g dup [of u g] new [of u g] show thesis by (cases ok) (simp_all add: admit_update_def)
qed

lemma guard_history:
  "history_ok DEDUP_CAPACITY st \<Longrightarrow> should_accept_webhook_update fmt nx DEDUP_TTL DEDUP_CAPACITY now u p st = (g, ok) \<Longrightarrow>
    history_ok DEDUP_CAPACITY g"
  using guard_step_ok [of DEDUP_CAPACITY st fmt nx DEDUP_TTL "(now, u, p)"] by (simp add: guard_step_def)

lemma admit_update_inv:
  assumes inv: "ingress_inv s"
  shows "ingress_inv (admit_update env now ctx i s)"
proof (cases "\<exists>p x. dict_get (in_requests s) i = Some (Checked p x)")
  case False
  then have "admit_update env now ctx i s = s" by (auto simp: admit_update_def split: option.split request.split)
  with inv show ?thesis by simp
next
  case True
  then obtain p x where c: "dict_get (in_requests s) i = Some (Checked p x)" by blast
  then have op: "in_operation s i" by (auto simp: in_operation_def)
  note parts = ingress_invD(5,6) [OF inv]
  from inv c show ?thesis
  proof (cases rule: admit_cases [where env = env and now = now and ctx = ctx])
    case plain
    show ?thesis unfolding plain(2) by (intro answer_inv [OF inv op] put_nowait_inv parts)
  next
    case (dup u g)
    show ?thesis unfolding dup(3) by (intro answer_inv [OF inv op] parts guard_history [OF parts(2) dup(2)])
  next
    case (new u g)
    show ?thesis unfolding new(3) by (intro answer_inv [OF inv op] put_nowait_inv parts guard_history [OF parts(2) new(2)])
  qed
qed

lemma ingress_fields_inv:
  assumes inv: "ingress_inv s"
  shows "ingress_inv (cancel_request i s)" and "ingress_inv (gate_close s)" and "ingress_inv (gate_shutdown s)"
    and "ingress_inv (drain s)" and "ingress_inv (stopped s)"
    and "ingress_inv (s\<lparr>in_guard := (map_option (\<lambda>_. r) (fst (in_guard s)), snd (in_guard s))\<rparr>)"
proof -
  have "ingress_inv (s\<lparr>gate_cancelled := i # gate_cancelled s\<rparr>)" using inv by (simp add: ingress_inv_def in_operation_def)
  then show "ingress_inv (cancel_request i s)"
    using inv by (auto simp: cancel_request_def in_operation_def intro!: quiet_request_inv split: option.split request.split)
  show "ingress_inv (gate_close s)" "ingress_inv (gate_shutdown s)" "ingress_inv (drain s)" "ingress_inv (stopped s)"
    "ingress_inv (s\<lparr>in_guard := (map_option (\<lambda>_. r) (fst (in_guard s)), snd (in_guard s))\<rparr>)"
    using inv by (auto simp: ingress_inv_def in_operation_def gate_close_def gate_shutdown_def drain_def stopped_def history_ok_def)
qed

text \<open>The consumer only frees capacity.\<close>

lemma consumer_frees:
  "\<not> uq_full q \<Longrightarrow> \<not> uq_full (fst (get_nowait q))" "\<not> uq_full q \<Longrightarrow> \<not> uq_full (fst (task_done q))"
proof -
  have "uq_outstanding (wake_from ws q) = uq_outstanding q" for ws and q :: "'a update_queue"
    by (induction ws) (auto simp: set_future_def split: option.split)
  then show "\<not> uq_full q \<Longrightarrow> \<not> uq_full (fst (get_nowait q))" "\<not> uq_full q \<Longrightarrow> \<not> uq_full (fst (task_done q))"
    by (auto simp: uq_full_def get_nowait_def task_done_def wake_producer_def wake_from_maxsize split: list.split)
qed

lemma consumer_inv:
  assumes inv: "ingress_inv s"
  shows "ingress_inv (s\<lparr>in_queue := fst (get_nowait (in_queue s))\<rparr>)" "ingress_inv (s\<lparr>in_queue := fst (task_done (in_queue s))\<rparr>)"
  using inv by (auto simp: ingress_inv_def in_operation_def get_nowait_inv task_done_inv consumer_frees)

lemma ingress_step_inv: "ingress_inv s \<Longrightarrow> ingress_inv (ingress_step env s e)"
  by (cases e) (simp_all add: arrive_inv acquire_inv check_inv admit_update_inv ingress_fields_inv consumer_inv)

interpretation ing: invariant_run "ingress_step env" ingress_inv
  for env
  by unfold_locales (rule ingress_step_inv)

lemma ingress_init_inv: "uq_init n = Inr q \<Longrightarrow> ingress_inv (ingress_init q redis o1)"
  by (auto simp: ingress_inv_def ingress_init_def in_operation_def history_ok_def dest: uq_init_inv)

text \<open>Property C26. No accepted update is lost. In every reachable state, when an operation that found the queue not full goes
  on to claim its update, the answer is 200 (nobody is there to get it when the request was cancelled) and the queue has taken the update exactly when the guard admitted
  it: however many completions, cancellations, closings and commands of other processes came in between, the
  hand-over never finds the queue full. No other step of a request touches the guard's history, so an
  update answered with 503, 400 or 403 is new to the guard when Telegram delivers it again.\<close>

theorem webhook_update_not_lost:
  assumes "uq_init n = Inr q" and "s = foldl (ingress_step env) (ingress_init q redis o1) es"
    and "dict_get (in_requests s) i = Some (Checked p x)" and "json_as_int (json_get p ''update_id'') = Some u"
    and "should_accept_webhook_update (str_of env) (redis_set_nx env) DEDUP_TTL DEDUP_CAPACITY now u p (in_guard s) = (g, admitted)"
  shows "dict_get (in_requests (ingress_step env s (IAdmit now ctx i))) i =
      Some (if i \<in> set (gate_cancelled s) then Dropped else Answered 200) \<and>
    in_guard (ingress_step env s (IAdmit now ctx i)) = g \<and>
    uq_items (in_queue (ingress_step env s (IAdmit now ctx i))) = uq_items (in_queue s) @ (if admitted then [x] else []) \<and>
    (\<forall>e. (\<forall>now ctx j. e \<noteq> IAdmit now ctx j) \<longrightarrow> snd (in_guard (ingress_step env s e)) = snd (in_guard s))"
proof -
  have inv: "ingress_inv s" unfolding assms(2) by (rule ing.run_invar) (rule ingress_init_inv [OF assms(1)])
  have free: "\<not> uq_full (in_queue s)" using ingress_invD(7) [OF inv assms(3)] .
  have "snd (in_guard (ingress_step env s e)) = snd (in_guard s)" if "\<forall>now ctx j. e \<noteq> IAdmit now ctx j" for e
    using that by (cases e) (auto simp: arrive_def acquire_def check_capacity_def answer_eq set_request_def cancel_request_def
        gate_close_def gate_shutdown_def drain_def stopped_def split: json.split option.split request.split)
  moreover from inv assms(3) have "dict_get (in_requests (ingress_step env s (IAdmit now ctx i))) i =
      Some (if i \<in> set (gate_cancelled s) then Dropped else Answered 200) \<and>
    in_guard (ingress_step env s (IAdmit now ctx i)) = g \<and>
    uq_items (in_queue (ingress_step env s (IAdmit now ctx i))) = uq_items (in_queue s) @ (if admitted then [x] else [])"
  proof (cases rule: admit_cases [where env = env and now = now and ctx = ctx])
    case plain
    with assms(4) show ?thesis by simp
  next
    case (dup u' g')
    with assms(4,5) show ?thesis by (simp add: answer_eq set_request_def)
  next
    case (new u' g')
    with assms(4,5) free show ?thesis by (simp add: answer_eq set_request_def put_nowait_def)
  qed
  ultimately show ?thesis by blast
qed

definition webhook_demo :: "(int, nat) webhook_env" where
  "webhook_demo = \<lparr>webhook_secret = ''k'', de_json = (\<lambda>p. Some 1), update_id_of = Some, str_of = (\<lambda>v. []),
    redis_set_nx = (\<lambda>r k n. (r, Inr True))\<rparr>"

definition demo_origins :: "unit origin_store" where
  "demo_origins = \<lparr>origin_capacity = 4, origin_ttl = 300, origin_items = []\<rparr>"

definition demo_events :: "(unit, nat) ingress_event list" where
  "demo_events = [IArrive 0 ''k'' (JDict [(''update_id'', JInt 1)]), IArrive 1 ''x'' JNull, IAcquire 0, ICheck 0, ICancel 0, IClose]"

theorem webhook_update_not_lost_witness:
  "\<exists>q. uq_init 1 = Inr q \<and>
    uq_items (in_queue (ingress_step webhook_demo (foldl (ingress_step webhook_demo) (ingress_init q None demo_origins) demo_events) (IAdmit 5 () 0))) = [1]"
proof -
  obtain q :: "int update_queue" where q: "uq_init 1 = Inr q" by (auto simp: uq_init_def)
  define s where "s = foldl (ingress_step webhook_demo) (ingress_init q None demo_origins) demo_events"
  have "(case uq_init 1 of Inr q \<Rightarrow> (let s = foldl (ingress_step webhook_demo) (ingress_init q None demo_origins) demo_events
      in dict_get (in_requests s) 0 = Some (Checked [(''update_id'', JInt 1)] 1) \<and> uq_items (in_queue s) = [] \<and>
        snd (should_accept_webhook_update (str_of webhook_demo) (redis_set_nx webhook_demo) DEDUP_TTL DEDUP_CAPACITY 5 1 [(''update_id'', JInt 1)] (in_guard s))) | Inl e \<Rightarrow> False)"
    by code_simp
  then have s: "dict_get (in_requests s) 0 = Some (Checked [(''update_id'', JInt 1)] 1)" "uq_items (in_queue s) = []"
    "snd (should_accept_webhook_update (str_of webhook_demo) (redis_set_nx webhook_demo) DEDUP_TTL DEDUP_CAPACITY 5 1 [(''update_id'', JInt 1)] (in_guard s))"
    by (simp_all add: q s_def Let_def)
  have "json_as_int (json_get [(''update_id'', JInt 1)] ''update_id'') = Some 1" by (simp add: json_get_def)
  from webhook_update_not_lost [OF q s_def s(1) this prod.collapse [symmetric]] s(2,3) q show ?thesis
    by (auto simp: s_def)
qed

lemma stop_phase_stays:
  "gate_stop t \<in> {Stopping, Stopped} \<Longrightarrow> gate_stop (ingress_step env t e) \<in> {Stopping, Stopped}"
  by (cases e) (auto simp: arrive_def acquire_def check_capacity_def answer_eq set_request_def cancel_request_def hand_over_def
      admit_update_def gate_close_def gate_shutdown_def drain_def stopped_def Let_def split: json.split option.split request.split prod.split sum.split)

interpretation halted: invariant_run "ingress_step env" "\<lambda>s. gate_stop s \<in> {Stopping, Stopped}"
  for env
  by unfold_locales (rule stop_phase_stays)

text \<open>Property C29. The shutdown barrier: in every reachable state at most one admission operation runs, the stop callback
  never runs beside one, and once it has started no operation is running or will ever run, whatever
  requests arrive; the gate then stays closed.\<close>

theorem gate_stop_barrier:
  assumes "uq_init n = Inr q" and "s = foldl (ingress_step env) (ingress_init q redis o1) es"
  shows "(in_operation s i \<longrightarrow> in_operation s j \<longrightarrow> i = j) \<and>
    (gate_stop s \<in> {Stopping, Stopped} \<longrightarrow>
      gate_closed (foldl (ingress_step env) s fs) \<and> gate_stop (foldl (ingress_step env) s fs) \<in> {Stopping, Stopped} \<and>
      \<not> in_operation (foldl (ingress_step env) s fs) i)"
proof -
  have inv: "ingress_inv s" unfolding assms(2) by (rule ing.run_invar) (rule ingress_init_inv [OF assms(1)])
  have one: "in_operation s i \<Longrightarrow> in_operation s j \<Longrightarrow> i = j" using ingress_invD(1) [OF inv] by simp
  have run: "gate_stop s \<in> {Stopping, Stopped} \<Longrightarrow> gate_stop (foldl (ingress_step env) s fs) \<in> {Stopping, Stopped}"
    by (rule halted.run_invar)
  have inv': "ingress_inv (foldl (ingress_step env) s fs)" using inv by (rule ing.run_invar)
  show ?thesis using one run ingress_invD(1,3,4) [OF inv'] by fastforce
qed

theorem gate_stop_barrier_witness:
  "\<exists>q. uq_init 1 = Inr q \<and>
    gate_stop (foldl (ingress_step webhook_demo) (ingress_init q None demo_origins) [IShutdown, IDrain]) = Stopping \<and>
    \<not> in_operation (foldl (ingress_step webhook_demo) (foldl (ingress_step webhook_demo) (ingress_init q None demo_origins) [IShutdown, IDrain]) demo_events) 0"
proof -
  obtain q :: "int update_queue" where q: "uq_init 1 = Inr q" by (auto simp: uq_init_def)
  have "gate_stop (foldl (ingress_step webhook_demo) (ingress_init q None demo_origins) [IShutdown, IDrain]) = Stopping"
    by (simp add: gate_shutdown_def gate_close_def drain_def ingress_init_def)
  with gate_stop_barrier [OF q refl, of webhook_demo None demo_origins "[IShutdown, IDrain]" 0 0 demo_events] q show ?thesis by auto
qed

end
