(* ===== verification/Update_Lanes.thy ===== *)
theory Update_Lanes
  imports Prelude
begin

text \<open>
  The per-user lanes of \<^verbatim>\<open>app/update_processor.py\<close>: updates of one user run one after the other, inline queries pass.

  \<^item> \<open>_UserLock\<close> objects live in a heap, since several coroutines hold the same object while the dictionary
    \<open>_user_locks\<close> forgets and recreates the entry of a user.
  \<^item> After its lane an update waits for one of the slots of the base processor, a semaphore of the Telegram
    library. A step is what one coroutine does between two suspension points; \<open>lane_finish\<close> is the way out of
    \<open>process_update\<close> by return, exception or cancellation, at any point of it.
\<close>

section \<open>State\<close>

record user_lock =
  lock_holder :: "nat option"
  references :: int

datatype stage = AtLock | AtSlot | InProcess

datatype lane_update = InLane int nat stage | Direct stage | Finished

record lanes_state =
  user_locks :: "(int, nat) dict"
  lock_heap :: "(nat, user_lock) dict"
  lane_updates :: "(nat, lane_update) dict"
  lane_next :: nat
  lane_slots :: int

text \<open>What the processor reads of an update: the attributes that are not \<open>None\<close>, its user and its
  type's name, casefolded.\<close>

record telegram_update =
  update_fields :: "string list"
  effective_user :: "int option"
  type_name :: string

definition update_kind :: "telegram_update \<Rightarrow> string" where
  "update_kind up =
    (case List.find (\<lambda>f. f \<in> set (update_fields up))
        [''callback_query'', ''inline_query'', ''chosen_inline_result'', ''edited_message'', ''message''] of
       Some f \<Rightarrow> f
     | None \<Rightarrow> type_name up)"

section \<open>Steps\<close>

fun at_work :: "lane_update \<Rightarrow> bool" where
  "at_work (Direct st) = (st = InProcess)"
| "at_work (InLane u a st) = (st = InProcess)"
| "at_work Finished = False"

definition processing :: "lanes_state \<Rightarrow> int" where
  "processing s = dict_sum (\<lambda>v. of_bool (at_work v)) (lane_updates s)"

definition lane_enter :: "nat \<Rightarrow> int \<Rightarrow> lanes_state \<Rightarrow> lanes_state" where
  "lane_enter i u s =
    (let s1 = (case dict_get (user_locks s) u of
           Some _ \<Rightarrow> s
         | None \<Rightarrow> s\<lparr>user_locks := dict_set (user_locks s) u (lane_next s),
                      lock_heap := dict_set (lock_heap s) (lane_next s) \<lparr>lock_holder = None, references = 0\<rparr>,
                      lane_next := lane_next s + 1\<rparr>);
         a = the (dict_get (user_locks s1) u);
         entry = the (dict_get (lock_heap s1) a)
     in s1\<lparr>lock_heap := dict_set (lock_heap s1) a (entry\<lparr>references := references entry + 1\<rparr>),
           lane_updates := dict_set (lane_updates s1) i (InLane u a AtLock)\<rparr>)"

definition lane_arrive :: "nat \<Rightarrow> telegram_update \<Rightarrow> lanes_state \<Rightarrow> lanes_state" where
  "lane_arrive i up s =
    (if dict_has (lane_updates s) i then s
     else case effective_user up of
       None \<Rightarrow> s\<lparr>lane_updates := dict_set (lane_updates s) i (Direct AtSlot)\<rparr>
     | Some u \<Rightarrow>
        (if update_kind up = ''inline_query'' then s\<lparr>lane_updates := dict_set (lane_updates s) i (Direct AtSlot)\<rparr>
         else lane_enter i u s))"

definition lane_acquire :: "nat \<Rightarrow> lanes_state \<Rightarrow> lanes_state" where
  "lane_acquire i s =
    (case dict_get (lane_updates s) i of
       Some (InLane u a AtLock) \<Rightarrow>
        (case dict_get (lock_heap s) a of
           Some e \<Rightarrow>
            (if lock_holder e = None
             then s\<lparr>lock_heap := dict_set (lock_heap s) a (e\<lparr>lock_holder := Some i\<rparr>),
                    lane_updates := dict_set (lane_updates s) i (InLane u a AtSlot)\<rparr>
             else s)
         | None \<Rightarrow> s)
     | _ \<Rightarrow> s)"

definition lane_slot :: "nat \<Rightarrow> lanes_state \<Rightarrow> lanes_state" where
  "lane_slot i s =
    (if processing s < lane_slots s
     then (case dict_get (lane_updates s) i of
             Some (InLane u a AtSlot) \<Rightarrow> s\<lparr>lane_updates := dict_set (lane_updates s) i (InLane u a InProcess)\<rparr>
           | Some (Direct AtSlot) \<Rightarrow> s\<lparr>lane_updates := dict_set (lane_updates s) i (Direct InProcess)\<rparr>
           | _ \<Rightarrow> s)
     else s)"

definition lane_finish :: "nat \<Rightarrow> lanes_state \<Rightarrow> lanes_state" where
  "lane_finish i s =
    (case dict_get (lane_updates s) i of
       Some (InLane u a st) \<Rightarrow>
        (case dict_get (lock_heap s) a of
           Some e \<Rightarrow>
            (let e1 = e\<lparr>lock_holder := (if st = AtLock then lock_holder e else None), references := references e - 1\<rparr>
             in s\<lparr>lock_heap := dict_set (lock_heap s) a e1,
                  user_locks := (if references e1 = 0 then dict_pop (user_locks s) u else user_locks s),
                  lane_updates := dict_set (lane_updates s) i Finished\<rparr>)
         | None \<Rightarrow> s)
     | Some (Direct st) \<Rightarrow> s\<lparr>lane_updates := dict_set (lane_updates s) i Finished\<rparr>
     | _ \<Rightarrow> s)"

datatype lane_event = LArrive nat telegram_update | LAcquire nat | LSlot nat | LFinish nat

fun lane_step :: "lanes_state \<Rightarrow> lane_event \<Rightarrow> lanes_state" where
  "lane_step s (LArrive i up) = lane_arrive i up s"
| "lane_step s (LAcquire i) = lane_acquire i s"
| "lane_step s (LSlot i) = lane_slot i s"
| "lane_step s (LFinish i) = lane_finish i s"

definition lane_init :: "int \<Rightarrow> lanes_state" where
  "lane_init slots = \<lparr>user_locks = [], lock_heap = [], lane_updates = [], lane_next = 0, lane_slots = slots\<rparr>"

section \<open>Exclusion and the life of an entry\<close>

fun in_lane :: "int \<Rightarrow> lane_update \<Rightarrow> bool" where
  "in_lane u (InLane u' a st) = (u' = u)"
| "in_lane u _ = False"

definition lane_count :: "int \<Rightarrow> lanes_state \<Rightarrow> int" where
  "lane_count u s = dict_sum (\<lambda>v. of_bool (in_lane u v)) (lane_updates s)"

text \<open>The entry of a user counts the updates in the lane, and its lock is held by the one past it.\<close>

definition entry_ok :: "lanes_state \<Rightarrow> int \<Rightarrow> nat \<Rightarrow> bool" where
  "entry_ok s u a \<longleftrightarrow> a < lane_next s \<and> 1 \<le> lane_count u s \<and>
    (\<exists>e. dict_get (lock_heap s) a = Some e \<and> references e = lane_count u s \<and>
      (\<forall>i. lock_holder e = Some i \<longleftrightarrow> (\<exists>st. dict_get (lane_updates s) i = Some (InLane u a st) \<and> st \<noteq> AtLock)))"

definition lane_inv :: "lanes_state \<Rightarrow> bool" where
  "lane_inv s \<longleftrightarrow>
    (\<forall>i u a st. dict_get (lane_updates s) i = Some (InLane u a st) \<longrightarrow> dict_get (user_locks s) u = Some a) \<and>
    (\<forall>u a. dict_get (user_locks s) u = Some a \<longrightarrow> entry_ok s u a) \<and>
    (\<forall>u u' a. dict_get (user_locks s) u = Some a \<longrightarrow> dict_get (user_locks s) u' = Some a \<longrightarrow> u = u') \<and>
    dict_ok (lane_updates s) \<and> processing s \<le> max 0 (lane_slots s)"

lemma lane_invI:
  assumes "\<And>i u a st. dict_get (lane_updates s) i = Some (InLane u a st) \<Longrightarrow> dict_get (user_locks s) u = Some a"
    "\<And>u a. dict_get (user_locks s) u = Some a \<Longrightarrow> entry_ok s u a"
    "\<And>u u' a. dict_get (user_locks s) u = Some a \<Longrightarrow> dict_get (user_locks s) u' = Some a \<Longrightarrow> u = u'"
    "dict_ok (lane_updates s)" "processing s \<le> max 0 (lane_slots s)"
  shows "lane_inv s"
  unfolding lane_inv_def using assms by blast

lemma lane_invD:
  assumes "lane_inv s"
  shows "dict_get (lane_updates s) i = Some (InLane u a st) \<Longrightarrow> dict_get (user_locks s) u = Some a"
    "dict_get (user_locks s) u = Some a \<Longrightarrow> entry_ok s u a"
    "dict_get (user_locks s) u = Some a \<Longrightarrow> dict_get (user_locks s) u' = Some a \<Longrightarrow> u = u'"
    "dict_ok (lane_updates s)" "processing s \<le> max 0 (lane_slots s)"
  using assms unfolding lane_inv_def by blast+

lemma lane_count_zero:
  assumes "dict_ok (lane_updates s)" and "\<And>i a st. dict_get (lane_updates s) i \<noteq> Some (InLane u a st)"
  shows "lane_count u s = 0"
proof -
  have "\<not> in_lane u v" if "dict_get (lane_updates s) i = Some v" for i v using assms(2) [of i] that by (cases v) auto
  then have "lane_count u s = dict_sum (\<lambda>v. 0) (lane_updates s)"
    unfolding lane_count_def by (intro dict_sum_cong [OF assms(1)]) simp
  then show ?thesis by (simp add: dict_sum_def)
qed

text \<open>How the counts change when one update changes.\<close>

lemma lane_count_set:
  "lane_updates s' = dict_set (lane_updates s) i v \<Longrightarrow>
    lane_count u s' = lane_count u s - (case dict_get (lane_updates s) i of None \<Rightarrow> 0 | Some w \<Rightarrow> of_bool (in_lane u w)) + of_bool (in_lane u v)"
  by (simp add: lane_count_def dict_sum_set_new dict_sum_set_present split: option.split)

lemma processing_set:
  "lane_updates s' = dict_set (lane_updates s) i v \<Longrightarrow>
    processing s' = processing s - (case dict_get (lane_updates s) i of None \<Rightarrow> 0 | Some w \<Rightarrow> of_bool (at_work w)) + of_bool (at_work v)"
  by (simp add: processing_def dict_sum_set_new dict_sum_set_present split: option.split)

lemma processing_ok:
  assumes "lane_inv s" and "lane_updates s' = dict_set (lane_updates s) i v" and "lane_slots s' = lane_slots s"
    and "at_work v \<Longrightarrow> processing s < lane_slots s"
  shows "processing s' \<le> max 0 (lane_slots s')"
  using processing_set [OF assms(2)] lane_invD(5) [OF assms(1)] assms(3,4) by (auto split: option.splits)

lemma direct_inv:
  assumes inv: "lane_inv s" and old: "\<And>u a st. dict_get (lane_updates s) i \<noteq> Some (InLane u a st)" and new: "\<And>u a st. v \<noteq> InLane u a st"
    and work: "at_work v \<Longrightarrow> processing s < lane_slots s"
  shows "lane_inv (s\<lparr>lane_updates := dict_set (lane_updates s) i v\<rparr>)"
proof (rule lane_invI)
  let ?s = "s\<lparr>lane_updates := dict_set (lane_updates s) i v\<rparr>"
  have "\<not> in_lane u v" for u using new by (cases v) auto
  moreover have "\<not> in_lane u w" if "dict_get (lane_updates s) i = Some w" for u w using old that by (cases w) auto
  ultimately have count: "lane_count u ?s = lane_count u s" for u
    using lane_count_set [of ?s s i v u] by (auto split: option.splits)
  show "dict_get (user_locks ?s) u = Some a" if "dict_get (lane_updates ?s) j = Some (InLane u a st)" for j u a st
    using that new lane_invD(1) [OF inv] by (auto split: if_splits)
  show "entry_ok ?s u a" if "dict_get (user_locks ?s) u = Some a" for u a
  proof -
    have "dict_get (lane_updates ?s) j = Some (InLane u a st) \<longleftrightarrow> dict_get (lane_updates s) j = Some (InLane u a st)" for j st
      using old new by auto
    with lane_invD(2) [OF inv, of u a] that show ?thesis by (simp add: entry_ok_def count)
  qed
  show "processing ?s \<le> max 0 (lane_slots ?s)" by (rule processing_ok [OF inv]) (use work in auto)
qed (use lane_invD(3,4) [OF inv] in auto)

text \<open>An update moves past its lock or to a slot: the count stays, the holder follows.\<close>

lemma stage_inv:
  assumes inv: "lane_inv s" and old: "dict_get (lane_updates s) i = Some (InLane u a st)" and e: "dict_get (lock_heap s) a = Some e"
    and new: "st' \<noteq> AtLock" and holder: "st = AtLock \<Longrightarrow> lock_holder e = None" and work: "st' = InProcess \<Longrightarrow> processing s < lane_slots s"
  shows "lane_inv (s\<lparr>lock_heap := dict_set (lock_heap s) a (e\<lparr>lock_holder := Some i\<rparr>),
    lane_updates := dict_set (lane_updates s) i (InLane u a st')\<rparr>)"
proof (rule lane_invI)
  let ?s = "s\<lparr>lock_heap := dict_set (lock_heap s) a (e\<lparr>lock_holder := Some i\<rparr>), lane_updates := dict_set (lane_updates s) i (InLane u a st')\<rparr>"
  have lock: "dict_get (user_locks s) u = Some a" using lane_invD(1) [OF inv old] .
  have count: "lane_count v ?s = lane_count v s" for v using lane_count_set [of ?s s i _ v] old by simp
  show "dict_get (user_locks ?s) v = Some b" if "dict_get (lane_updates ?s) j = Some (InLane v b t)" for j v b t
    using that lock lane_invD(1) [OF inv] by (auto split: if_splits)
  show "entry_ok ?s v b" if b: "dict_get (user_locks ?s) v = Some b" for v b
  proof (cases "v = u")
    case False
    then have "b \<noteq> a" using lane_invD(3) [OF inv, of v b u] lock b by auto
    then have "dict_get (lane_updates ?s) j = Some (InLane v b t) \<longleftrightarrow> dict_get (lane_updates s) j = Some (InLane v b t)" for j t
      using False old by auto
    with \<open>b \<noteq> a\<close> lane_invD(2) [OF inv, of v b] b show ?thesis by (simp add: entry_ok_def count)
  next
    case True
    with b lock have [simp]: "v = u" "b = a" by simp_all
    from lane_invD(2) [OF inv lock] e have "a < lane_next s" "1 \<le> lane_count u s" "references e = lane_count u s"
      and hold: "lock_holder e = Some j \<longleftrightarrow> (\<exists>st. dict_get (lane_updates s) j = Some (InLane u a st) \<and> st \<noteq> AtLock)" for j
      by (auto simp: entry_ok_def)
    have only: "j = i" if "dict_get (lane_updates s) j = Some (InLane u a t)" "t \<noteq> AtLock" for j t
      using hold [of j] hold [of i] that old holder by (cases "st = AtLock") auto
    show ?thesis using \<open>a < lane_next s\<close> \<open>1 \<le> lane_count u s\<close> \<open>references e = lane_count u s\<close> new only
      by (auto simp: entry_ok_def count)
  qed
  show "processing ?s \<le> max 0 (lane_slots ?s)" by (rule processing_ok [OF inv]) (use work in auto)
qed (use lane_invD(3,4) [OF inv] in auto)

lemma lane_acquire_inv: "lane_inv s \<Longrightarrow> lane_inv (lane_acquire i s)"
  by (auto simp: lane_acquire_def intro: stage_inv split: option.split lane_update.split stage.split)

lemma slot_inv:
  assumes inv: "lane_inv s"
  shows "lane_inv (lane_slot i s)"
proof -
  have lane: "lane_inv (s\<lparr>lane_updates := dict_set (lane_updates s) i (InLane u a InProcess)\<rparr>)"
    if old: "dict_get (lane_updates s) i = Some (InLane u a AtSlot)" and work: "processing s < lane_slots s" for u a
  proof -
    from lane_invD(2) [OF inv lane_invD(1) [OF inv old]] old obtain e
      where e: "dict_get (lock_heap s) a = Some e" "lock_holder e = Some i" by (auto simp: entry_ok_def)
    then have "dict_set (lock_heap s) a (e\<lparr>lock_holder := Some i\<rparr>) = lock_heap s" by (simp add: dict_set_same)
    with stage_inv [OF inv old e(1), of InProcess] work show ?thesis by simp
  qed
  have "lane_inv (s\<lparr>lane_updates := dict_set (lane_updates s) i (Direct InProcess)\<rparr>)"
    if "dict_get (lane_updates s) i = Some (Direct AtSlot)" "processing s < lane_slots s"
    using that by (intro direct_inv [OF inv]) auto
  with lane inv show ?thesis by (auto simp: lane_slot_def split: option.split lane_update.split stage.split)
qed

lemma enter_inv:
  assumes inv: "lane_inv s" and fresh: "dict_get (lane_updates s) i = None"
  shows "lane_inv (lane_enter i u s)"
proof -
  define a where "a = (case dict_get (user_locks s) u of Some a \<Rightarrow> a | None \<Rightarrow> lane_next s)"
  define e where "e = (case dict_get (user_locks s) u of Some a \<Rightarrow> the (dict_get (lock_heap s) a) | None \<Rightarrow> \<lparr>lock_holder = None, references = 0\<rparr>)"
  let ?s = "lane_enter i u s"
  have locks: "dict_get (user_locks ?s) v = (if v = u then Some a else dict_get (user_locks s) v)" for v
    by (auto simp: lane_enter_def Let_def a_def split: option.split)
  have heap: "dict_get (lock_heap ?s) b = (if b = a then Some (e\<lparr>references := references e + 1\<rparr>) else dict_get (lock_heap s) b)" for b
    by (auto simp: lane_enter_def Let_def a_def e_def split: option.split)
  have upd: "lane_updates ?s = dict_set (lane_updates s) i (InLane u a AtLock)" "lane_slots ?s = lane_slots s" "lane_next s \<le> lane_next ?s" "a < lane_next ?s"
    using lane_invD(2) [OF inv, of u] by (auto simp: lane_enter_def Let_def a_def entry_ok_def split: option.split)
  have count: "lane_count v ?s = lane_count v s + of_bool (v = u)" for v
    using lane_count_set [OF upd(1), of v] fresh by simp
  have fresh_a: "b \<noteq> a" if "dict_get (user_locks s) v = Some b" "v \<noteq> u" for v b
  proof (cases "dict_get (user_locks s) u")
    case None
    with lane_invD(2) [OF inv that(1)] show ?thesis by (auto simp: a_def entry_ok_def)
  next
    case (Some c)
    with lane_invD(3) [OF inv that(1), of u] that(2) show ?thesis by (auto simp: a_def)
  qed
  have entry: "references e = lane_count u s \<and> 0 \<le> lane_count u s \<and>
      (\<forall>j. lock_holder e = Some j \<longleftrightarrow> (\<exists>st. dict_get (lane_updates s) j = Some (InLane u a st) \<and> st \<noteq> AtLock))"
  proof (cases "dict_get (user_locks s) u")
    case None
    with lane_invD(1) [OF inv] have "dict_get (lane_updates s) j \<noteq> Some (InLane u b st)" for j b st by fastforce
    with lane_count_zero [OF lane_invD(4) [OF inv]] None show ?thesis by (simp add: e_def)
  next
    case (Some c)
    with lane_invD(2) [OF inv Some] show ?thesis by (auto simp: e_def a_def entry_ok_def)
  qed
  show ?thesis
  proof (rule lane_invI)
    show "dict_get (user_locks ?s) v = Some b" if "dict_get (lane_updates ?s) j = Some (InLane v b st)" for j v b st
    proof (cases "j = i")
      case True
      with that have "v = u" "b = a" by (simp_all add: upd(1))
      then show ?thesis using locks [of u] by simp
    next
      case False
      with that have old: "dict_get (user_locks s) v = Some b" using lane_invD(1) [OF inv] by (simp add: upd(1))
      then show ?thesis by (auto simp: locks a_def)
    qed
    show "entry_ok ?s v b" if b: "dict_get (user_locks ?s) v = Some b" for v b
    proof (cases "v = u")
      case True
      with b have [simp]: "v = u" "b = a" by (simp_all add: locks)
      show ?thesis using entry upd(4) fresh by (auto simp: entry_ok_def count heap upd(1))
    next
      case False
      with b have old: "dict_get (user_locks s) v = Some b" by (simp add: locks)
      have "dict_get (lane_updates ?s) j = Some (InLane v b st) \<longleftrightarrow> dict_get (lane_updates s) j = Some (InLane v b st)" for j st
        using False fresh by (auto simp: upd(1))
      with lane_invD(2) [OF inv old] fresh_a [OF old False] False upd(3) show ?thesis by (auto simp: entry_ok_def count heap)
    qed
    show "v = v'" if "dict_get (user_locks ?s) v = Some b" "dict_get (user_locks ?s) v' = Some b" for v v' b
      using that fresh_a lane_invD(3) [OF inv] by (auto simp: locks split: if_splits)
    show "dict_ok (lane_updates ?s)" using lane_invD(4) [OF inv] by (simp add: upd(1))
    show "processing ?s \<le> max 0 (lane_slots ?s)" by (rule processing_ok [OF inv upd(1,2)]) simp
  qed
qed

lemma finish_lane_inv:
  assumes inv: "lane_inv s" and old: "dict_get (lane_updates s) i = Some (InLane u a st)"
  shows "lane_inv (lane_finish i s)"
proof -
  let ?s = "lane_finish i s"
  have lock: "dict_get (user_locks s) u = Some a" using lane_invD(1) [OF inv old] .
  from lane_invD(2) [OF inv lock] obtain e where e: "dict_get (lock_heap s) a = Some e" "references e = lane_count u s" "1 \<le> lane_count u s" "a < lane_next s"
    and hold: "\<And>j. lock_holder e = Some j \<longleftrightarrow> (\<exists>st. dict_get (lane_updates s) j = Some (InLane u a st) \<and> st \<noteq> AtLock)"
    by (auto simp: entry_ok_def)
  let ?e = "e\<lparr>lock_holder := (if st = AtLock then lock_holder e else None), references := references e - 1\<rparr>"
  have eq: "?s = s\<lparr>lock_heap := dict_set (lock_heap s) a ?e,
      user_locks := (if references e - 1 = 0 then dict_pop (user_locks s) u else user_locks s),
      lane_updates := dict_set (lane_updates s) i Finished\<rparr>"
    using old e(1) by (simp add: lane_finish_def Let_def)
  have upd: "lane_updates ?s = dict_set (lane_updates s) i Finished" "lane_next ?s = lane_next s" "lane_slots ?s = lane_slots s"
    by (simp_all add: eq)
  have heap: "dict_get (lock_heap ?s) b = (if b = a then Some ?e else dict_get (lock_heap s) b)" for b by (simp add: eq)
  have count: "lane_count v ?s = lane_count v s - of_bool (v = u)" for v
    using lane_count_set [OF upd(1), of v] old by auto
  have other: "dict_get (lane_updates s) j \<noteq> Some (InLane u b t)" if "lane_count u s = 1" "j \<noteq> i" for j b t
  proof
    assume j: "dict_get (lane_updates s) j = Some (InLane u b t)"
    let ?t = "s\<lparr>lane_updates := dict_set (dict_set (lane_updates s) i Finished) j Finished\<rparr>"
    have "lane_count u (s\<lparr>lane_updates := dict_set (lane_updates s) i Finished\<rparr>) = 0"
      using lane_count_set [of "s\<lparr>lane_updates := dict_set (lane_updates s) i Finished\<rparr>" s i Finished u] old that(1) by simp
    with lane_count_set [of ?t "s\<lparr>lane_updates := dict_set (lane_updates s) i Finished\<rparr>" j Finished u] j that(2)
    have "lane_count u ?t = - 1" by simp
    moreover have "0 \<le> lane_count u ?t" unfolding lane_count_def by (rule dict_sum_nonneg) simp
    ultimately show False by simp
  qed
  show ?thesis
  proof (rule lane_invI)
    show "dict_get (user_locks ?s) v = Some b" if "dict_get (lane_updates ?s) j = Some (InLane v b t)" for j v b t
    proof -
      from that have "j \<noteq> i" "dict_get (lane_updates s) j = Some (InLane v b t)" by (auto simp: eq split: if_splits)
      with lane_invD(1) [OF inv, of j v b t] other [of j b t] e(2) show ?thesis by (auto simp: eq)
    qed
    show "entry_ok ?s v b" if b: "dict_get (user_locks ?s) v = Some b" for v b
    proof (cases "v = u")
      case False
      with b have old_b: "dict_get (user_locks s) v = Some b" by (auto simp: eq split: if_splits)
      then have "b \<noteq> a" using lane_invD(3) [OF inv old_b, of u] lock False by auto
      moreover have "dict_get (lane_updates ?s) j = Some (InLane v b t) \<longleftrightarrow> dict_get (lane_updates s) j = Some (InLane v b t)" for j t
        using False old by (auto simp: upd(1))
      ultimately show ?thesis using lane_invD(2) [OF inv old_b] False by (auto simp: entry_ok_def count heap upd(2))
    next
      case True
      with b lock have [simp]: "v = u" "b = a" and more: "lane_count u s \<noteq> 1" by (auto simp: eq e(2) split: if_splits)
      have "(if st = AtLock then lock_holder e else None) = Some j \<longleftrightarrow>
          (\<exists>t. dict_get (dict_set (lane_updates s) i Finished) j = Some (InLane u a t) \<and> t \<noteq> AtLock)" for j
        using hold [of j] hold [of i] old by (cases "j = i") auto
      then show ?thesis using e more by (simp add: entry_ok_def count heap upd)
    qed
    show "v = v'" if "dict_get (user_locks ?s) v = Some b" "dict_get (user_locks ?s) v' = Some b" for v v' b
      using that lane_invD(3) [OF inv] by (auto simp: eq split: if_splits)
    show "dict_ok (lane_updates ?s)" using lane_invD(4) [OF inv] by (simp add: eq)
    show "processing ?s \<le> max 0 (lane_slots ?s)" by (rule processing_ok [OF inv, of _ i Finished]) (simp_all add: eq)
  qed
qed

lemma lane_step_inv: "lane_inv s \<Longrightarrow> lane_inv (lane_step s e)"
proof (cases e)
  case (LFinish i)
  assume inv: "lane_inv s"
  show ?thesis
  proof (cases "\<exists>u a st. dict_get (lane_updates s) i = Some (InLane u a st)")
    case True
    with finish_lane_inv [OF inv] LFinish show ?thesis by auto
  next
    case False
    then have "lane_inv (s\<lparr>lane_updates := dict_set (lane_updates s) i Finished\<rparr>)" by (intro direct_inv [OF inv]) auto
    with False inv LFinish show ?thesis by (auto simp: lane_finish_def split: option.split lane_update.split)
  qed
qed (auto simp: lane_arrive_def dict_has_def lane_acquire_inv slot_inv intro!: enter_inv direct_inv split: option.split)

interpretation lanes: invariant_run lane_step lane_inv
  by unfold_locales (rule lane_step_inv)

lemma lane_init_inv: "lane_inv (lane_init n)"
  by (rule lane_invI) (simp_all add: lane_init_def processing_def)

text \<open>Property C30. Updates of one user are serialised: over every interleaving of arrivals, lock and slot acquisitions, ends and
  cancellations, at most one update of a user is past its lock, so a user's backlog never takes more than one of
  the processor's slots, no more updates are processed than there are slots, and a user has a lock entry
  exactly while an update of theirs is in the lane, although entries are forgotten and created anew.\<close>

theorem user_updates_serialised:
  "(dict_get (lane_updates (foldl lane_step (lane_init n) es)) i = Some (InLane u a st) \<and> st \<noteq> AtLock \<and>
    dict_get (lane_updates (foldl lane_step (lane_init n) es)) j = Some (InLane u b st') \<and> st' \<noteq> AtLock \<longrightarrow> i = j) \<and>
   processing (foldl lane_step (lane_init n) es) \<le> max 0 (lane_slots (foldl lane_step (lane_init n) es)) \<and>
   (dict_has (user_locks (foldl lane_step (lane_init n) es)) u \<longleftrightarrow>
     (\<exists>k c t. dict_get (lane_updates (foldl lane_step (lane_init n) es)) k = Some (InLane u c t)))"
proof -
  define s where "s = foldl lane_step (lane_init n) es"
  have inv: "lane_inv s" unfolding s_def by (rule lanes.run_invar) (rule lane_init_inv)
  have "i = j" if "dict_get (lane_updates s) i = Some (InLane u a st)" "st \<noteq> AtLock"
    "dict_get (lane_updates s) j = Some (InLane u b st')" "st' \<noteq> AtLock"
  proof -
    have "dict_get (user_locks s) u = Some a" "b = a" using lane_invD(1) [OF inv that(1)] lane_invD(1) [OF inv that(3)] by simp_all
    with lane_invD(2) [OF inv this(1)] that show ?thesis unfolding entry_ok_def by (metis option.inject)
  qed
  moreover have "dict_has (user_locks s) u \<longleftrightarrow> (\<exists>k c t. dict_get (lane_updates s) k = Some (InLane u c t))"
  proof
    assume "dict_has (user_locks s) u"
    then obtain c where "dict_get (user_locks s) u = Some c" by (auto simp: dict_has_def)
    from lane_invD(2) [OF inv this] have "1 \<le> lane_count u s" by (simp add: entry_ok_def)
    then show "\<exists>k c t. dict_get (lane_updates s) k = Some (InLane u c t)"
      using lane_count_zero [OF lane_invD(4) [OF inv], of u] by fastforce
  qed (auto simp: dict_has_def dest: lane_invD(1) [OF inv])
  ultimately show ?thesis using lane_invD(5) [OF inv] by (auto simp: s_def)
qed

definition demo_update :: telegram_update where
  "demo_update = \<lparr>update_fields = [''message''], effective_user = Some 7, type_name = ''update''\<rparr>"

theorem user_updates_serialised_witness:
  "dict_get (lane_updates (foldl lane_step (lane_init 4) [LArrive 0 demo_update, LArrive 1 demo_update, LAcquire 0, LAcquire 1])) 0 = Some (InLane 7 0 AtSlot) \<and>
   dict_get (lane_updates (foldl lane_step (lane_init 4) [LArrive 0 demo_update, LArrive 1 demo_update, LAcquire 0, LAcquire 1])) 1 \<noteq> Some (InLane 7 0 AtSlot)"
proof -
  have "dict_get (lane_updates (foldl lane_step (lane_init 4) [LArrive 0 demo_update, LArrive 1 demo_update, LAcquire 0, LAcquire 1])) 0 = Some (InLane 7 0 AtSlot)"
    by code_simp
  with user_updates_serialised [of 4 "[LArrive 0 demo_update, LArrive 1 demo_update, LAcquire 0, LAcquire 1]" 0 7 0 AtSlot 1 0 AtSlot]
  show ?thesis by auto
qed

end
