(* ===== verification/Request_Dedup.thy ===== *)
theory Request_Dedup
  imports Recency
begin

text \<open>
  The guard against repeated requests of a user, \<^verbatim>\<open>app/middleware/dedup.py\<close>: per user, a dictionary from request keys
  to the monotonic time they were last let through. \<open>hash\<close> stands for the first twelve hexadecimal digits of
  SHA-256. The functions contain no suspension point, so each call is one step.
\<close>

record dedup_state =
  recent_requests :: "(int, (string, secs) dict) dict"
  recent_voice_ids :: "(int, (string, secs) dict) dict"

definition DEDUP_WINDOW_SECONDS :: secs where
  "DEDUP_WINDOW_SECONDS = 3"

definition MAX_TRACKED_PER_USER :: nat where
  "MAX_TRACKED_PER_USER = 20"

definition VOICE_DEDUP_WINDOW :: secs where
  "VOICE_DEDUP_WINDOW = 30"

definition of_user :: "(int, (string, secs) dict) dict \<Rightarrow> int \<Rightarrow> (string, secs) dict" where
  "of_user d u = (case dict_get d u of Some m \<Rightarrow> m | None \<Rightarrow> [])"

definition forget_older :: "secs \<Rightarrow> secs \<Rightarrow> (string, secs) dict \<Rightarrow> (string, secs) dict" where
  "forget_older window now m = filter (\<lambda>e. \<not> now - snd e > window * 2) m"

definition cleanup_stale :: "secs \<Rightarrow> int \<Rightarrow> (int, (string, secs) dict) dict \<Rightarrow> (int, (string, secs) dict) dict" where
  "cleanup_stale now u d =
    (case dict_get d u of
       None \<Rightarrow> d
     | Some m \<Rightarrow> if m = [] then d else dict_set d u (forget_older DEDUP_WINDOW_SECONDS now m))"

definition opt_text :: "int option \<Rightarrow> string" where
  "opt_text v = (case v of None \<Rightarrow> ''None'' | Some i \<Rightarrow> show_int i)"

definition request_key :: "(string \<Rightarrow> string) \<Rightarrow> string \<Rightarrow> int option \<Rightarrow> int option \<Rightarrow> string" where
  "request_key hash msg chat_id message_id =
    (case message_id of
       Some i \<Rightarrow> ''message:'' @ opt_text chat_id @ '':'' @ show_int i
     | None \<Rightarrow> hash (strip msg))"

definition record_request :: "string \<Rightarrow> secs \<Rightarrow> (string, secs) dict \<Rightarrow> (string, secs) dict" where
  "record_request k now m =
    (let m1 = dict_set m k now
     in if length m1 > MAX_TRACKED_PER_USER then dict_pop m1 (oldest_key m1) else m1)"

text \<open>The clock is read once for the decision and once more in the cleanup.\<close>

definition is_duplicate_request :: "(string \<Rightarrow> string) \<Rightarrow> secs \<Rightarrow> secs \<Rightarrow> int \<Rightarrow> string \<Rightarrow> int option \<Rightarrow> int option \<Rightarrow>
    dedup_state \<Rightarrow> dedup_state \<times> bool" where
  "is_duplicate_request hash now now_cleanup u msg chat_id message_id s =
    (if strip msg = [] then (s, False)
     else
       (let k = request_key hash msg chat_id message_id;
            d = cleanup_stale now_cleanup u (recent_requests s);
            m = of_user d u
        in case dict_get m k of
             Some ts \<Rightarrow>
               (if now - ts < DEDUP_WINDOW_SECONDS then (s\<lparr>recent_requests := dict_set d u m\<rparr>, True)
                else (s\<lparr>recent_requests := dict_set d u (record_request k now m)\<rparr>, False))
           | None \<Rightarrow> (s\<lparr>recent_requests := dict_set d u (record_request k now m)\<rparr>, False)))"

definition clear_user_dedup :: "int \<Rightarrow> dedup_state \<Rightarrow> dedup_state" where
  "clear_user_dedup u s =
    s\<lparr>recent_requests := dict_pop (recent_requests s) u, recent_voice_ids := dict_pop (recent_voice_ids s) u\<rparr>"

definition is_duplicate_voice :: "secs \<Rightarrow> int \<Rightarrow> string \<Rightarrow> dedup_state \<Rightarrow> dedup_state \<times> bool" where
  "is_duplicate_voice now u file_id s =
    (let m = forget_older VOICE_DEDUP_WINDOW now (of_user (recent_voice_ids s) u)
     in case dict_get m file_id of
          Some ts \<Rightarrow>
            (if now - ts < VOICE_DEDUP_WINDOW then (s\<lparr>recent_voice_ids := dict_set (recent_voice_ids s) u m\<rparr>, True)
             else (s\<lparr>recent_voice_ids := dict_set (recent_voice_ids s) u (dict_set m file_id now)\<rparr>, False))
        | None \<Rightarrow> (s\<lparr>recent_voice_ids := dict_set (recent_voice_ids s) u (dict_set m file_id now)\<rparr>, False))"

section \<open>Runs\<close>

datatype dedup_op =
  DRequest secs secs int string "int option" "int option"
  | DVoice secs int string
  | DClear int

fun dedup_step :: "(string \<Rightarrow> string) \<Rightarrow> dedup_state \<Rightarrow> dedup_op \<Rightarrow> dedup_state" where
  "dedup_step hash s (DRequest now nowc u msg c i) = fst (is_duplicate_request hash now nowc u msg c i s)"
| "dedup_step hash s (DVoice now u f) = fst (is_duplicate_voice now u f s)"
| "dedup_step hash s (DClear u) = clear_user_dedup u s"

text \<open>The operations between two requests of a user: their clock readings lie in an interval and none of them
  clears the user.\<close>

fun op_within :: "secs \<Rightarrow> secs \<Rightarrow> int \<Rightarrow> dedup_op \<Rightarrow> bool" where
  "op_within t t' u (DRequest now nowc v msg c i) = (t \<le> now \<and> now \<le> t' \<and> t \<le> nowc \<and> nowc \<le> t')"
| "op_within t t' u (DVoice now v f) = True"
| "op_within t t' u (DClear v) = (v \<noteq> u)"

definition tracked_ok :: "(string, secs) dict \<Rightarrow> bool" where
  "tracked_ok m \<longleftrightarrow> dict_ok m \<and> length m \<le> MAX_TRACKED_PER_USER"

definition dedup_ok :: "dedup_state \<Rightarrow> bool" where
  "dedup_ok s \<longleftrightarrow> (\<forall>u. tracked_ok (of_user (recent_requests s) u))"

lemma of_user_set [simp]: "of_user (dict_set d u m) v = (if v = u then m else of_user d v)"
  by (simp add: of_user_def)

lemma of_user_pop [simp]: "of_user (dict_pop d u) v = (if v = u then [] else of_user d v)"
  by (simp add: of_user_def)

lemma of_user_cleanup [simp]:
  "of_user (cleanup_stale now u d) v = (if v = u then forget_older DEDUP_WINDOW_SECONDS now (of_user d v) else of_user d v)"
  by (auto simp: cleanup_stale_def of_user_def forget_older_def split: option.split)

lemma tracked_Nil [simp]: "tracked_ok []"
  by (simp add: tracked_ok_def)

lemma tracked_forget: "tracked_ok m \<Longrightarrow> tracked_ok (forget_older w now m)"
  unfolding tracked_ok_def forget_older_def by (meson dict_ok_filter length_filter_le order_trans)

lemma length_dict_set: "length (dict_set d k v) \<le> Suc (length d)"
  by (induction d k v rule: dict_set.induct) auto

lemma tracked_record: "tracked_ok m \<Longrightarrow> tracked_ok (record_request k now m)"
proof -
  assume ok: "tracked_ok m"
  let ?m = "dict_set m k now"
  have okm: "dict_ok ?m" and len: "length ?m \<le> Suc MAX_TRACKED_PER_USER"
    using ok length_dict_set [of m k now] by (auto simp: tracked_ok_def)
  have "length (dict_pop ?m (oldest_key ?m)) \<le> MAX_TRACKED_PER_USER" if "length ?m > MAX_TRACKED_PER_USER"
  proof -
    have "?m \<noteq> []" using that by auto
    then obtain ts where "dict_get ?m (oldest_key ?m) = Some ts" using okm by (rule oldest_key_min)
    then have "length (dict_pop ?m (oldest_key ?m)) + 1 = length ?m" by (rule length_dict_pop [OF okm])
    with len show ?thesis by simp
  qed
  with okm show ?thesis by (simp add: record_request_def tracked_ok_def Let_def not_less)
qed

lemma request_user:
  "of_user (recent_requests (fst (is_duplicate_request hash now nowc u msg c i s))) v =
    (if v \<noteq> u \<or> strip msg = [] then of_user (recent_requests s) v
     else let m = forget_older DEDUP_WINDOW_SECONDS nowc (of_user (recent_requests s) u) in
       if snd (is_duplicate_request hash now nowc u msg c i s) then m else record_request (request_key hash msg c i) now m)"
  by (auto simp: is_duplicate_request_def Let_def split: option.split)

lemma voice_user [simp]: "recent_requests (fst (is_duplicate_voice now u f s)) = recent_requests s"
  by (simp add: is_duplicate_voice_def Let_def split: option.split)

lemma dedup_step_ok: "dedup_ok s \<Longrightarrow> dedup_ok (dedup_step hash s e)"
  by (cases e) (auto simp: dedup_ok_def request_user Let_def clear_user_dedup_def tracked_forget tracked_record)

interpretation dd: invariant_run "dedup_step hash" dedup_ok
  for hash
  by unfold_locales (rule dedup_step_ok)

definition tracked :: "secs \<Rightarrow> string \<Rightarrow> (string, secs) dict \<Rightarrow> bool" where
  "tracked t k m \<longleftrightarrow> (\<exists>ts. dict_get m k = Some ts \<and> t \<le> ts)"

lemma forget_keeps:
  "dict_ok m \<Longrightarrow> tracked t k m \<Longrightarrow> now - t \<le> w * 2 \<Longrightarrow> tracked t k (forget_older w now m)"
  by (auto simp: tracked_def forget_older_def dict_get_filter)

lemma record_keeps:
  assumes ok: "dict_ok m" and x: "tracked t k m" "t \<le> now" and few: "recent t m < MAX_TRACKED_PER_USER"
  shows "tracked t k (record_request k' now m) \<and> recent t (record_request k' now m) \<le> recent t m + 1"
proof -
  let ?m = "dict_set m k' now"
  have okm: "dict_ok ?m" using ok by simp
  have rec: "recent t ?m \<le> recent t m + 1" using recent_set [OF ok] .
  obtain ts where ts: "dict_get ?m k = Some ts" "t \<le> ts" using x unfolding tracked_def by (metis dict_get_set)
  have "tracked t k (dict_pop ?m (oldest_key ?m))" if "length ?m > MAX_TRACKED_PER_USER"
    using drop_oldest_keeps [OF okm ts] rec few that ts(2) by (auto simp: tracked_def)
  moreover have "recent t (dict_pop ?m (oldest_key ?m)) \<le> recent t ?m" unfolding dict_pop_def by (rule recent_filter)
  ultimately show ?thesis using ts rec by (auto simp: record_request_def Let_def tracked_def)
qed

lemma step_keeps:
  assumes ok: "dedup_ok s" and x: "tracked t k (of_user (recent_requests s) u)" and e: "op_within t t' u e" and "t' - t \<le> 6"
    and few: "recent t (of_user (recent_requests s) u) < MAX_TRACKED_PER_USER"
  shows "tracked t k (of_user (recent_requests (dedup_step hash s e)) u) \<and>
    recent t (of_user (recent_requests (dedup_step hash s e)) u) \<le> recent t (of_user (recent_requests s) u) + 1"
proof (cases e)
  case (DRequest now nowc v msg c i)
  let ?m = "forget_older DEDUP_WINDOW_SECONDS nowc (of_user (recent_requests s) u)"
  have okm: "dict_ok (of_user (recent_requests s) u)" using ok by (simp add: dedup_ok_def tracked_ok_def)
  have "tracked t k ?m" using e assms(4) DRequest by (intro forget_keeps [OF okm x]) (auto simp: DEDUP_WINDOW_SECONDS_def)
  moreover have le: "recent t ?m \<le> recent t (of_user (recent_requests s) u)" unfolding forget_older_def by (rule recent_filter)
  ultimately have "tracked t k (record_request k' now ?m) \<and> recent t (record_request k' now ?m) \<le> recent t (of_user (recent_requests s) u) + 1" for k'
    using record_keeps [of ?m t k now k'] okm few e DRequest by (force simp: forget_older_def)
  with \<open>tracked t k ?m\<close> le x DRequest show ?thesis by (auto simp: request_user Let_def)
qed (use x e in \<open>auto simp: clear_user_dedup_def\<close>)

lemma run_keeps:
  assumes "dedup_ok s" and "tracked t k (of_user (recent_requests s) u)" and "\<forall>e \<in> set es. op_within t t' u e" and "t' - t \<le> 6"
    and "recent t (of_user (recent_requests s) u) + length es \<le> MAX_TRACKED_PER_USER"
  shows "tracked t k (of_user (recent_requests (foldl (dedup_step hash) s es)) u)"
  using assms
proof (induction es arbitrary: s)
  case Nil
  then show ?case by simp
next
  case (Cons e es)
  let ?s = "dedup_step hash s e"
  have "tracked t k (of_user (recent_requests ?s) u) \<and> recent t (of_user (recent_requests ?s) u) \<le> recent t (of_user (recent_requests s) u) + 1"
    using Cons.prems by (intro step_keeps) auto
  with Cons.prems show ?case by (simp, intro Cons.IH) (auto simp: dedup_step_ok)
qed

text \<open>A repeated request is refused inside the window: after a request was let through at \<open>t1\<close>, the same request
  less than three seconds later is reported as a duplicate, whatever other users and the same user do in
  between short of clearing the user's history, as long as fewer than twenty requests of the user are as recent;
  a user's history never tracks more than twenty requests.\<close>

theorem repeated_request_refused:
  assumes "dedup_ok s" and "is_duplicate_request hash t1 tc u msg c i s = (s1, False)" and "strip msg \<noteq> []"
    and "s2 = foldl (dedup_step hash) s1 es" and "\<forall>e \<in> set es. op_within t1 t2 u e" and "t1 \<le> t2" and "t2 - t1 < 3" and "t2' \<le> t1 + 6"
    and "recent t1 (of_user (recent_requests s1) u) + length es < MAX_TRACKED_PER_USER"
    and "request_key hash msg' c' i' = request_key hash msg c i" and "strip msg' \<noteq> []"
  shows "snd (is_duplicate_request hash t2 t2' u msg' c' i' s2) \<and> length (of_user (recent_requests s2) u) \<le> MAX_TRACKED_PER_USER"
proof -
  define k where "k = request_key hash msg c i"
  let ?m = "forget_older DEDUP_WINDOW_SECONDS tc (of_user (recent_requests s) u)"
  have ok1: "dedup_ok s1" using dedup_step_ok [OF assms(1), of hash "DRequest t1 tc u msg c i"] assms(2) by simp
  have m1: "of_user (recent_requests s1) u = record_request k t1 ?m"
    using request_user [of hash t1 tc u msg c i s u] assms(2,3) by (simp add: k_def Let_def)
  have "tracked t1 k (record_request k t1 ?m)"
  proof -
    let ?d = "dict_set ?m k t1"
    have ok: "dict_ok ?d" using assms(1) by (auto simp: dedup_ok_def tracked_ok_def forget_older_def)
    show ?thesis
    proof (cases "length ?d > MAX_TRACKED_PER_USER \<and> oldest_key ?d = k")
      case False
      then show ?thesis by (auto simp: record_request_def Let_def tracked_def)
    next
      case True
      then have "?d \<noteq> []" by auto
      then obtain ts where ts: "dict_get ?d (oldest_key ?d) = Some ts" "\<forall>e \<in> set ?d. ts \<le> snd e" using ok by (rule oldest_key_min)
      with True have "\<forall>e \<in> set ?d. t1 \<le> snd e" by simp
      moreover have "record_request k t1 ?m = dict_pop ?d k" using True by (simp add: record_request_def Let_def)
      ultimately have "recent t1 (record_request k t1 ?m) = length (dict_pop ?d k)"
        by (auto simp: recent_def dict_pop_def intro!: arg_cong [of _ _ length] filter_cong)
      moreover have "length (dict_pop ?d k) + 1 = length ?d" by (rule length_dict_pop [OF ok]) simp
      ultimately show ?thesis using True assms(9) by (simp add: m1)
    qed
  qed
  then have "tracked t1 k (of_user (recent_requests s2) u)" unfolding assms(4)
    using assms(5,7,9) m1 by (intro run_keeps [OF ok1]) auto
  moreover have ok2: "dedup_ok s2" unfolding assms(4) using ok1 by (rule dd.run_invar)
  ultimately have "tracked t1 k (forget_older DEDUP_WINDOW_SECONDS t2' (of_user (recent_requests s2) u))"
    using assms(8) by (intro forget_keeps) (auto simp: dedup_ok_def tracked_ok_def DEDUP_WINDOW_SECONDS_def)
  then show ?thesis using assms(7,10,11) ok2
    by (auto simp: is_duplicate_request_def Let_def tracked_def k_def [symmetric] DEDUP_WINDOW_SECONDS_def dedup_ok_def tracked_ok_def)
qed

theorem repeated_request_refused_witness:
  "snd (is_duplicate_request (\<lambda>t. t) 2 2 7 '' hi '' None None
     (foldl (dedup_step (\<lambda>t. t)) (fst (is_duplicate_request (\<lambda>t. t) 1 1 7 ''hi'' None None \<lparr>recent_requests = [], recent_voice_ids = []\<rparr>))
       [DRequest 1 1 7 ''other'' None None, DClear 8]))"
proof -
  let ?s = "\<lparr>recent_requests = [], recent_voice_ids = []\<rparr>"
  have ok: "dedup_ok ?s" by (simp add: dedup_ok_def of_user_def)
  have "\<not> snd (is_duplicate_request (\<lambda>t. t) 1 1 7 ''hi'' None None ?s)" by code_simp
  then have acc: "is_duplicate_request (\<lambda>t. t) 1 1 7 ''hi'' None None ?s = (fst (is_duplicate_request (\<lambda>t. t) 1 1 7 ''hi'' None None ?s), False)"
    by (metis prod.collapse)
  have "recent 1 (of_user (recent_requests (fst (is_duplicate_request (\<lambda>t. t) 1 1 7 ''hi'' None None ?s))) 7) +
      length [DRequest 1 1 7 ''other'' None None, DClear 8] < MAX_TRACKED_PER_USER"
    and "request_key (\<lambda>t. t) '' hi '' None None = request_key (\<lambda>t. t) ''hi'' None None" "strip ''hi'' \<noteq> []" "strip '' hi '' \<noteq> []"
    by code_simp+
  with repeated_request_refused [OF ok acc _ refl, of "[DRequest 1 1 7 ''other'' None None, DClear 8]" 2 2 "'' hi ''" None None]
  show ?thesis by auto
qed

end
