(* ===== verification/Unicode_Text.thy ===== *)
theory Unicode_Text
  imports Prelude
begin

text \<open>
  Python text as a list of code points, with the parts of \<open>str\<close> and of the UTF-8 codec the bot relies on:
  encoding, the strict decoder with the position of its first error, white space, \<open>strip\<close> and \<open>split\<close>.
\<close>

type_synonym utext = "nat list"

definition utext :: "string \<Rightarrow> utext" where
  "utext t = map of_char t"

definition scalar :: "nat \<Rightarrow> bool" where
  "scalar c \<longleftrightarrow> c < 0x110000 \<and> \<not> (0xD800 \<le> c \<and> c \<le> 0xDFFF)"

section \<open>UTF-8\<close>

definition utf8_char :: "nat \<Rightarrow> nat list" where
  "utf8_char c =
    (if c < 0x80 then [c]
     else if c < 0x800 then [0xC0 + c div 64, 0x80 + c mod 64]
     else if c < 0x10000 then [0xE0 + c div 4096, 0x80 + c div 64 mod 64, 0x80 + c mod 64]
     else [0xF0 + c div 262144, 0x80 + c div 4096 mod 64, 0x80 + c div 64 mod 64, 0x80 + c mod 64])"

definition utf8 :: "utext \<Rightarrow> nat list" where
  "utf8 t = concat (map utf8_char t)"

definition continuation :: "nat \<Rightarrow> bool" where
  "continuation b \<longleftrightarrow> 0x80 \<le> b \<and> b \<le> 0xBF"

text \<open>The range of the second byte rules out overlong forms, surrogates and values beyond the last code point.\<close>

definition second_ok :: "nat \<Rightarrow> nat \<Rightarrow> bool" where
  "second_ok b0 b1 \<longleftrightarrow> continuation b1 \<and> (b0 = 0xE0 \<longrightarrow> 0xA0 \<le> b1) \<and> (b0 = 0xED \<longrightarrow> b1 \<le> 0x9F) \<and>
    (b0 = 0xF0 \<longrightarrow> 0x90 \<le> b1) \<and> (b0 = 0xF4 \<longrightarrow> b1 \<le> 0x8F)"

fun utf8_next :: "nat list \<Rightarrow> (nat \<times> nat list) option" where
  "utf8_next [] = None"
| "utf8_next (b0 # bs) =
    (if b0 < 0x80 then Some (b0, bs)
     else if 0xC2 \<le> b0 \<and> b0 \<le> 0xDF then
       (case bs of
          b1 # r \<Rightarrow> if continuation b1 then Some ((b0 - 0xC0) * 64 + (b1 - 0x80), r) else None
        | _ \<Rightarrow> None)
     else if 0xE0 \<le> b0 \<and> b0 \<le> 0xEF then
       (case bs of
          b1 # b2 # r \<Rightarrow> if second_ok b0 b1 \<and> continuation b2
            then Some ((b0 - 0xE0) * 4096 + (b1 - 0x80) * 64 + (b2 - 0x80), r) else None
        | _ \<Rightarrow> None)
     else if 0xF0 \<le> b0 \<and> b0 \<le> 0xF4 then
       (case bs of
          b1 # b2 # b3 # r \<Rightarrow> if second_ok b0 b1 \<and> continuation b2 \<and> continuation b3
            then Some ((b0 - 0xF0) * 262144 + (b1 - 0x80) * 4096 + (b2 - 0x80) * 64 + (b3 - 0x80), r) else None
        | _ \<Rightarrow> None)
     else None)"

lemma utf8_next_shorter: "utf8_next bs = Some (c, r) \<Longrightarrow> length r < length bs"
  by (cases bs) (auto split: if_splits list.splits)

text \<open>\<open>decode('utf-8')\<close>: the text, or the start of the first sequence that is not one.\<close>

function utf8_decode :: "nat \<Rightarrow> nat list \<Rightarrow> nat + utext" where
  "utf8_decode pos bs =
    (if bs = [] then Inr []
     else case utf8_next bs of
       None \<Rightarrow> Inl pos
     | Some (c, r) \<Rightarrow>
        (case utf8_decode (pos + (length bs - length r)) r of Inl e \<Rightarrow> Inl e | Inr t \<Rightarrow> Inr (c # t)))"
  by pat_completeness auto
termination by (relation "measure (\<lambda>(pos, bs). length bs)") (auto dest: utf8_next_shorter)

declare utf8_decode.simps [simp del]

lemma utf8_char_length: "1 \<le> length (utf8_char c) \<and> length (utf8_char c) \<le> 4"
  by (simp add: utf8_char_def)

lemma utf8_char_neq_Nil [simp]: "utf8_char c \<noteq> []"
  by (simp add: utf8_char_def)

lemma utf8_Nil [simp]: "utf8 [] = []"
  by (simp add: utf8_def)

lemma utf8_Cons [simp]: "utf8 (c # t) = utf8_char c @ utf8 t"
  by (simp add: utf8_def)

lemma utf8_append [simp]: "utf8 (s @ t) = utf8 s @ utf8 t"
  by (simp add: utf8_def)

text \<open>The first sequence of an encoding is read back, and no proper part of it is a sequence.\<close>

lemma split_base: "(c :: nat) div 64 * 64 + c mod 64 = c"
  by (rule div_mult_mod_eq)

lemma utf8_next_char:
  assumes "scalar c"
  shows "utf8_next (utf8_char c @ r) = Some (c, r)"
proof -
  have d: "c div 4096 = c div 64 div 64" "c div 262144 = c div 64 div 64 div 64" by (simp_all add: div_mult2_eq [symmetric])
  define q where "q = c div 64"
  define p where "p = q div 64"
  have eq: "c = q * 64 + c mod 64" "q = p * 64 + q mod 64" "p = p div 64 * 64 + p mod 64" by (simp_all add: q_def p_def)
  have lt: "c mod 64 < 64" "q mod 64 < 64" "p mod 64 < 64" by simp_all
  consider "c < 128" | "128 \<le> c" "c < 2048" | "2048 \<le> c" "c < 65536" | "65536 \<le> c" by linarith
  then show ?thesis
  proof cases
    case 2
    then have "2 \<le> q" "q < 32" using eq(1) lt(1) by linarith+
    then show ?thesis using 2 lt eq(1) by (simp add: utf8_char_def continuation_def q_def [symmetric])
  next
    case 3
    then have q: "32 \<le> q" "q < 1024" using eq(1) lt(1) by linarith+
    then have "p < 16" "p = 0 \<Longrightarrow> 32 \<le> q mod 64" using eq(2) lt(2) by linarith+
    moreover have "p = 13 \<Longrightarrow> q mod 64 \<le> 31"
      using assms 3 eq(1,2) lt by (simp add: scalar_def)
    moreover have "c mod 64 \<le> 63" "q mod 64 \<le> 63" using lt by linarith+
    ultimately show ?thesis using 3 q eq(1,2)
      by (simp add: utf8_char_def d q_def [symmetric] p_def [symmetric] second_ok_def continuation_def)
  next
    case 4
    have "c < 1114112" using assms by (simp add: scalar_def)
    with 4 have q: "1024 \<le> q" "q < 17408" using eq(1) lt(1) by linarith+
    then have p: "16 \<le> p" "p < 272" using eq(2) lt(2) by linarith+
    then have "p div 64 < 5" "p div 64 = 0 \<Longrightarrow> 16 \<le> p mod 64" "p div 64 = 4 \<Longrightarrow> p mod 64 \<le> 15" using eq(3) lt(3) by linarith+
    moreover have "c = p div 64 * 262144 + p mod 64 * 4096 + q mod 64 * 64 + c mod 64" using eq by linarith
    moreover have "c mod 64 \<le> 63" "q mod 64 \<le> 63" "p mod 64 \<le> 63" using lt by linarith+
    ultimately show ?thesis using 4
      by (simp add: utf8_char_def d q_def [symmetric] p_def [symmetric] second_ok_def continuation_def)
  qed (simp add: utf8_char_def)
qed

lemma utf8_next_cut:
  assumes "scalar c" and "0 < e" and "e < length (utf8_char c)"
  shows "utf8_next (take e (utf8_char c)) = None"
proof -
  have top: "c div 262144 < 5" using assms(1) by (simp add: scalar_def less_mult_imp_div_less)
  consider "c < 128" | "128 \<le> c" "c < 2048" | "2048 \<le> c" "c < 65536" | "65536 \<le> c" by linarith
  then show ?thesis
  proof cases
    case 1
    then show ?thesis using assms(2,3) by (simp add: utf8_char_def)
  next
    case 2
    then have "e = 1" using assms(2,3) by (simp add: utf8_char_def)
    moreover have "c div 64 < 32" using 2 by simp
    ultimately show ?thesis using 2 by (simp add: utf8_char_def)
  next
    case 3
    then have "e = 1 \<or> e = 2" using assms(2,3) by (auto simp: utf8_char_def)
    moreover have "c div 4096 < 16" using 3 by simp
    ultimately show ?thesis using 3 by (auto simp: utf8_char_def numeral_2_eq_2)
  next
    case 4
    then have "e = 1 \<or> e = 2 \<or> e = 3" using assms(2,3) by (auto simp: utf8_char_def)
    with 4 top show ?thesis by (auto simp: utf8_char_def numeral_2_eq_2 numeral_3_eq_3)
  qed
qed

text \<open>The longest prefix of a text whose encoding fits a number of bytes.\<close>

fun fit_bytes :: "nat \<Rightarrow> utext \<Rightarrow> utext" where
  "fit_bytes n [] = []"
| "fit_bytes n (c # t) = (if length (utf8_char c) \<le> n then c # fit_bytes (n - length (utf8_char c)) t else [])"

lemma fit_bytes_length: "length (utf8 (fit_bytes n t)) \<le> n"
  by (induction n t rule: fit_bytes.induct) auto

lemma fit_bytes_prefix: "\<exists>s. t = fit_bytes n t @ s"
  by (induction n t rule: fit_bytes.induct) auto

lemma fit_bytes_longest:
  "length (utf8 p) \<le> n \<Longrightarrow> t = p @ s \<Longrightarrow> length p \<le> length (fit_bytes n t)"
proof (induction n t arbitrary: p s rule: fit_bytes.induct)
  case (2 n c t)
  show ?case
  proof (cases p)
    case (Cons d p')
    with 2 show ?thesis by (fastforce simp: le_diff_conv)
  qed simp
qed simp

lemma fit_bytes_all: "length (utf8 t) \<le> n \<Longrightarrow> fit_bytes n t = t"
  by (induction n t rule: fit_bytes.induct) auto

lemma fit_bytes_exact: "fit_bytes (length (utf8 (fit_bytes n t))) t = fit_bytes n t"
  by (induction n t rule: fit_bytes.induct) auto

text \<open>What the decoder says of a cut encoding: the text up to the cut, or where the cut sequence starts.\<close>

lemma decode_cut:
  assumes "list_all scalar t"
  shows "utf8_decode pos (take n (utf8 t)) =
    (if length (utf8 (fit_bytes n t)) = min n (length (utf8 t)) then Inr (fit_bytes n t) else Inl (pos + length (utf8 (fit_bytes n t))))"
  using assms
proof (induction n t arbitrary: pos rule: fit_bytes.induct)
  case (1 n)
  show ?case by (simp add: utf8_decode.simps)
next
  case (2 n c t)
  let ?k = "length (utf8_char c)"
  have sc: "scalar c" "list_all scalar t" using "2.prems" by simp_all
  show ?case
  proof (cases "?k \<le> n")
    case True
    have cut: "take n (utf8 (c # t)) = utf8_char c @ take (n - ?k) (utf8 t)" using True by simp
    have "utf8_decode pos (take n (utf8 (c # t))) =
      (case utf8_decode (pos + ?k) (take (n - ?k) (utf8 t)) of Inl e \<Rightarrow> Inl e | Inr t \<Rightarrow> Inr (c # t))"
      unfolding cut by (subst utf8_decode.simps) (simp add: utf8_next_char [OF sc(1)])
    with "2.IH" [OF True sc(2), of "pos + ?k"] True show ?thesis by auto
  next
    case False
    show ?thesis
    proof (cases "n = 0")
      case True
      then show ?thesis by (simp add: utf8_decode.simps)
    next
      case n: False
      have cut: "take n (utf8 (c # t)) = take n (utf8_char c)" "take n (utf8_char c) \<noteq> []" using False n by simp_all
      have "utf8_next (take n (utf8_char c)) = None" using utf8_next_cut [OF sc(1)] False n by simp
      then have "utf8_decode pos (take n (utf8 (c # t))) = Inl pos" unfolding cut(1) using cut(2) by (subst utf8_decode.simps) simp
      with False n show ?thesis by simp
    qed
  qed
qed

lemma decode_utf8: "list_all scalar t \<Longrightarrow> utf8_decode pos (utf8 t) = Inr t"
  using decode_cut [of t pos "length (utf8 t)"] by (simp add: fit_bytes_all)

lemma decode_error_before: "utf8_decode pos bs = Inl e \<Longrightarrow> pos \<le> e \<and> e < pos + length bs"
proof (induction pos bs rule: utf8_decode.induct)
  case (1 pos bs)
  show ?case
  proof (cases "utf8_next bs")
    case None
    with "1.prems" show ?thesis by (subst (asm) utf8_decode.simps) (auto split: if_splits)
  next
    case (Some v)
    obtain c r where v: "v = (c, r)" by (cases v)
    have lt: "length r < length bs" using utf8_next_shorter Some v by blast
    have "bs \<noteq> []" using lt by auto
    with "1.prems" Some v have "utf8_decode (pos + (length bs - length r)) r = Inl e"
      by (subst (asm) utf8_decode.simps) (auto split: sum.splits)
    with "1.IH" [OF \<open>bs \<noteq> []\<close> Some v [symmetric]] lt show ?thesis by fastforce
  qed
qed

section \<open>White space, stripping and splitting\<close>

definition uspace :: "nat \<Rightarrow> bool" where
  "uspace c \<longleftrightarrow> c \<in> {0x85, 0xA0, 0x1680, 0x2028, 0x2029, 0x202F, 0x205F, 0x3000} \<or>
    (9 \<le> c \<and> c \<le> 13) \<or> (28 \<le> c \<and> c \<le> 32) \<or> (0x2000 \<le> c \<and> c \<le> 0x200A)"

definition ustrip :: "utext \<Rightarrow> utext" where
  "ustrip t = rev (dropWhile uspace (rev (dropWhile uspace t)))"

text \<open>\<open>text.split(sep)\<close> for a separator that is not empty.\<close>

fun usplit_acc :: "utext \<Rightarrow> utext \<Rightarrow> nat \<Rightarrow> utext \<Rightarrow> utext list" where
  "usplit_acc sep acc skip [] = [rev acc]"
| "usplit_acc sep acc (Suc k) (c # t) = usplit_acc sep acc k t"
| "usplit_acc sep acc 0 (c # t) =
    (if take (length sep) (c # t) = sep then rev acc # usplit_acc sep [] (length sep - 1) t
     else usplit_acc sep (c # acc) 0 t)"

definition usplit :: "utext \<Rightarrow> utext \<Rightarrow> utext list" where
  "usplit sep t = usplit_acc sep [] 0 t"

definition ujoin :: "utext \<Rightarrow> utext list \<Rightarrow> utext" where
  "ujoin sep ts = (case ts of [] \<Rightarrow> [] | x # xs \<Rightarrow> x @ concat (map (\<lambda>y. sep @ y) xs))"

end
