(* ===== verification/Token_Budget.thy ===== *)
theory Token_Budget
  imports Unicode_Text
begin

text \<open>
  Token budgets, \<^verbatim>\<open>app/context/token_budget.py\<close> with the estimator of \<^verbatim>\<open>app/prompt_registry.py\<close>: how many
  tokens a text counts, and the truncation of a text to a number of them.
\<close>

definition DEFAULT_TOKEN_BUDGET :: int where "DEFAULT_TOKEN_BUDGET = 128000"
definition RESPONSE_RESERVE :: int where "RESPONSE_RESERVE = 12000"
definition SUMMARY_BUDGET :: int where "SUMMARY_BUDGET = 4000"
definition MIN_HISTORY_MESSAGES :: nat where "MIN_HISTORY_MESSAGES = 4"
definition LLM_SUMMARY_TOKEN_THRESHOLD :: int where "LLM_SUMMARY_TOKEN_THRESHOLD = 30000"

record token_budget =
  tb_total :: int
  tb_system_prompt :: int
  tb_summary :: int
  tb_history :: int
  tb_user_message :: int
  tb_response_reserve :: int

definition available_for_history :: "token_budget \<Rightarrow> int" where
  "available_for_history b = max 0 (tb_total b - (tb_system_prompt b + tb_summary b + tb_user_message b + tb_response_reserve b))"

definition budget_used :: "token_budget \<Rightarrow> int" where
  "budget_used b = tb_system_prompt b + tb_summary b + tb_history b + tb_user_message b + tb_response_reserve b"

definition estimate_tokens :: "utext \<Rightarrow> int" where
  "estimate_tokens t = (if t = [] then 0 else max (int (length (utf8 t)) div 3) 1)"

text \<open>The first loop: shorten the encoded prefix until it decodes.\<close>

function back_off :: "nat list \<Rightarrow> nat \<Rightarrow> utext" where
  "back_off encoded n =
    (if n = 0 then []
     else case utf8_decode 0 (take n encoded) of Inr t \<Rightarrow> t | Inl e \<Rightarrow> back_off encoded e)"
  by pat_completeness auto
termination
  by (relation "measure snd") (auto dest: decode_error_before)

declare back_off.simps [simp del]

text \<open>The second loop: drop characters of the prefix while the estimate is above the limit. Once the prefix is empty
  the result does not change any more, so the loop ends only if the suffix alone fits; \<open>None\<close> is the loop
  that does not end.\<close>

fun shrink :: "int \<Rightarrow> utext \<Rightarrow> nat \<Rightarrow> utext \<Rightarrow> utext option" where
  "shrink limit suffix 0 prefix =
    (if prefix @ suffix \<noteq> [] \<and> estimate_tokens (prefix @ suffix) > limit then None else Some (prefix @ suffix))"
| "shrink limit suffix (Suc k) prefix =
    (if prefix @ suffix \<noteq> [] \<and> estimate_tokens (prefix @ suffix) > limit then shrink limit suffix k (butlast prefix)
     else Some (prefix @ suffix))"

datatype budget_error = NegativeLimit | NoReturn

definition truncate_to_token_budget :: "utext \<Rightarrow> int \<Rightarrow> utext \<Rightarrow> budget_error + utext" where
  "truncate_to_token_budget t limit suffix =
    (if limit < 0 then Inl NegativeLimit
     else if estimate_tokens t \<le> limit then Inr t
     else if limit = 0 then Inr []
     else
       (let byte_budget = limit * 3;
            sfx = (if int (length (utf8 suffix)) > byte_budget then [] else suffix);
            encoded = utf8 t;
            prefix = back_off encoded (min (length encoded) (nat (byte_budget - int (length (utf8 sfx)))))
        in case shrink limit sfx (length prefix) prefix of Some r \<Rightarrow> Inr r | None \<Rightarrow> Inl NoReturn))"

section \<open>Truncation\<close>

lemma estimate_bytes: "0 < limit \<Longrightarrow> int (length (utf8 t)) \<le> limit * 3 \<Longrightarrow> estimate_tokens t \<le> limit"
  by (auto simp: estimate_tokens_def)

lemma estimate_nonneg: "0 \<le> estimate_tokens t"
  by (auto simp: estimate_tokens_def)

lemma utf8_length_ge: "length t \<le> length (utf8 t)"
proof (induction t)
  case (Cons c t)
  then show ?case using utf8_char_length [of c] by simp
qed simp

lemma back_off_fit:
  assumes "list_all scalar t"
  shows "back_off (utf8 t) n = fit_bytes n t"
proof (cases "n = 0")
  case True
  moreover have "fit_bytes 0 t = []" by (cases t) simp_all
  ultimately show ?thesis by (simp add: back_off.simps)
next
  case False
  let ?p = "fit_bytes n t"
  show ?thesis
  proof (cases "length (utf8 ?p) = min n (length (utf8 t))")
    case True
    with False decode_cut [OF assms, of 0 n] show ?thesis by (subst back_off.simps) simp
  next
    case ne: False
    have 1: "back_off (utf8 t) n = back_off (utf8 t) (length (utf8 ?p))"
      using False ne decode_cut [OF assms, of 0 n] by (subst back_off.simps) simp
    have le: "length (utf8 ?p) \<le> length (utf8 t)"
      using fit_bytes_prefix [of t n] by (metis le_add1 length_append utf8_append)
    show ?thesis
    proof (cases "length (utf8 ?p) = 0")
      case True
      then have "?p = []" using utf8_length_ge [of ?p] by simp
      with 1 show ?thesis by (simp add: back_off.simps)
    next
      case nz: False
      have "utf8_decode 0 (take (length (utf8 ?p)) (utf8 t)) = Inr ?p"
        using decode_cut [OF assms, of 0 "length (utf8 ?p)"] le by (simp add: fit_bytes_exact)
      with 1 nz show ?thesis by (subst (asm) (2) back_off.simps) simp
    qed
  qed
qed

lemma fit_bytes_min: "fit_bytes (min (length (utf8 t)) n) t = fit_bytes n t"
  by (cases "length (utf8 t) \<le> n") (simp_all add: fit_bytes_all min_def)

lemma shrink_done: "estimate_tokens (p @ sfx) \<le> limit \<Longrightarrow> shrink limit sfx k p = Some (p @ sfx)"
  by (cases k) auto

text \<open>The suffix that is used: none when it does not fit by itself.\<close>

definition kept_suffix :: "int \<Rightarrow> utext \<Rightarrow> utext" where
  "kept_suffix limit suffix = (if int (length (utf8 suffix)) > limit * 3 then [] else suffix)"

lemma truncate_cases:
  assumes "list_all scalar t" and "0 \<le> limit"
  shows "truncate_to_token_budget t limit suffix =
    Inr (if estimate_tokens t \<le> limit then t else if limit = 0 then []
         else fit_bytes (nat (limit * 3 - int (length (utf8 (kept_suffix limit suffix))))) t @ kept_suffix limit suffix)"
proof (cases "estimate_tokens t \<le> limit \<or> limit = 0")
  case True
  with assms(2) show ?thesis by (auto simp: truncate_to_token_budget_def)
next
  case False
  let ?s = "kept_suffix limit suffix"
  let ?n = "nat (limit * 3 - int (length (utf8 ?s)))"
  have fits: "int (length (utf8 ?s)) \<le> limit * 3" using assms(2) by (simp add: kept_suffix_def)
  have "length (utf8 (fit_bytes ?n t)) \<le> ?n" by (rule fit_bytes_length)
  then have "int (length (utf8 (fit_bytes ?n t @ ?s))) \<le> limit * 3" using fits by simp
  then have "estimate_tokens (fit_bytes ?n t @ ?s) \<le> limit" using False assms(2) by (intro estimate_bytes) simp
  then have "shrink limit ?s (length (fit_bytes ?n t)) (fit_bytes ?n t) = Some (fit_bytes ?n t @ ?s)" by (rule shrink_done)
  with False assms show ?thesis
    by (simp add: truncate_to_token_budget_def Let_def back_off_fit fit_bytes_min kept_suffix_def [symmetric])
qed

lemma truncate_within:
  assumes "list_all scalar t" and "0 \<le> limit" and "truncate_to_token_budget t limit suffix = Inr r"
  shows "estimate_tokens r \<le> limit"
proof -
  let ?s = "kept_suffix limit suffix"
  let ?n = "nat (limit * 3 - int (length (utf8 ?s)))"
  have "int (length (utf8 (fit_bytes ?n t @ ?s))) \<le> limit * 3"
    using fit_bytes_length [of ?n t] assms(2) by (auto simp: kept_suffix_def)
  then have "0 < limit \<Longrightarrow> estimate_tokens (fit_bytes ?n t @ ?s) \<le> limit" by (intro estimate_bytes)
  with assms truncate_cases [OF assms(1,2), of suffix] show ?thesis by (auto simp: estimate_tokens_def split: if_splits)
qed

text \<open>Property C33. Truncation returns, within the limit and no shorter than it must: for every well-formed text and
  limit both loops end and the result counts at most \<open>limit\<close> tokens. A text within the limit is unchanged;
  otherwise the result is a prefix of the text followed by the suffix (by nothing when the suffix alone is
  too long), never cut inside a character, and no longer prefix fits the same number of bytes.\<close>

theorem truncate_returns:
  assumes "list_all scalar t" and "0 \<le> limit"
  shows "\<exists>r. truncate_to_token_budget t limit suffix = Inr r \<and> estimate_tokens r \<le> limit \<and>
    (estimate_tokens t \<le> limit \<longrightarrow> r = t) \<and>
    (estimate_tokens t > limit \<and> 0 < limit \<longrightarrow>
      (\<exists>p rest. t = p @ rest \<and> r = p @ kept_suffix limit suffix \<and>
        (\<forall>p' rest'. t = p' @ rest' \<and> int (length (utf8 (p' @ kept_suffix limit suffix))) \<le> limit * 3 \<longrightarrow> length p' \<le> length p)))"
proof -
  let ?s = "kept_suffix limit suffix"
  let ?n = "nat (limit * 3 - int (length (utf8 ?s)))"
  obtain r where r: "truncate_to_token_budget t limit suffix = Inr r" using truncate_cases [OF assms] by blast
  have "\<exists>p rest. t = p @ rest \<and> r = p @ ?s \<and>
      (\<forall>p' rest'. t = p' @ rest' \<and> int (length (utf8 (p' @ ?s))) \<le> limit * 3 \<longrightarrow> length p' \<le> length p)"
    if "estimate_tokens t > limit" "0 < limit"
  proof -
    obtain rest where rest: "t = fit_bytes ?n t @ rest" using fit_bytes_prefix by blast
    have "length p' \<le> length (fit_bytes ?n t)" if "t = p' @ rest'" "int (length (utf8 (p' @ ?s))) \<le> limit * 3" for p' rest'
      using that by (intro fit_bytes_longest [of p' ?n t rest']) auto
    moreover have "r = fit_bytes ?n t @ ?s" using r truncate_cases [OF assms, of suffix] that by simp
    ultimately show ?thesis using rest by blast
  qed
  with r truncate_cases [OF assms, of suffix] truncate_within [OF assms r] show ?thesis by auto
qed

theorem truncate_returns_witness:
  "\<exists>r. truncate_to_token_budget [1055, 1088, 128512, 1080, 1074, 33, 33] 3 [46, 46, 46] = Inr r \<and> estimate_tokens r \<le> 3"
proof -
  have "list_all scalar [1055, 1088, 128512, 1080, 1074, 33, 33]" by (simp add: scalar_def)
  then show ?thesis using truncate_returns [of "[1055, 1088, 128512, 1080, 1074, 33, 33]" 3 "[46, 46, 46]"] by auto
qed

end
