(* ===== verification/Context_Assembler.thy ===== *)
theory Context_Assembler
  imports Token_Budget
begin

text \<open>
  The assembly of the prompt history, \<^verbatim>\<open>app/context/assembler.py\<close>: fitting the conversation into the token
  budget, the local summary of what is dropped, and the final sequence of turns.

  \<^item> A turn has a role, parts and the text of its \<open>content\<close> field, which counts when there are no parts.
  \<^item> The frame around the summary and the acknowledgement are texts an administrator can edit: parameters.
    \<open>hash12\<close> is the audit hash over the assembled text.
\<close>

datatype part = PStr utext | PDict "utext option" | POther

record chat_turn =
  turn_role :: string
  turn_parts :: "part list"
  turn_content :: utext

record prompt_texts =
  summary_preamble :: "utext \<Rightarrow> utext"
  summary_ack :: utext

section \<open>Operations\<close>

fun part_text :: "part \<Rightarrow> utext option" where
  "part_text (PStr t) = Some t"
| "part_text (PDict t) = t"
| "part_text POther = None"

definition extract_text :: "chat_turn \<Rightarrow> utext" where
  "extract_text m = (if turn_parts m = [] then turn_content m else ujoin [32] (List.map_filter part_text (turn_parts m)))"

definition turn_tokens :: "chat_turn \<Rightarrow> int" where
  "turn_tokens m = estimate_tokens (extract_text m)"

definition summary_token_cost :: "prompt_texts \<Rightarrow> utext \<Rightarrow> int" where
  "summary_token_cost tx s = estimate_tokens (summary_preamble tx s) + estimate_tokens (summary_ack tx)"

definition TOPICS_LABEL :: utext where
  "TOPICS_LABEL = [1058, 1077, 1084, 1099, 32, 1087, 1086, 1083, 1100, 1079, 1086, 1074, 1072, 1090, 1077, 1083, 1103, 58, 32]"

definition ANSWERS_LABEL :: utext where
  "ANSWERS_LABEL = [1050, 1083, 1102, 1095, 1077, 1074, 1099, 1077, 32, 1086, 1090, 1074, 1077, 1090, 1099, 58, 32]"

definition snippet :: "utext \<Rightarrow> utext" where
  "snippet t = ustrip (take 150 t) @ (if length t > 150 then [46, 46, 46] else [])"

definition snippets :: "string \<Rightarrow> chat_turn list \<Rightarrow> utext list" where
  "snippets r ms = map (snippet \<circ> extract_text) (filter (\<lambda>m. turn_role m = r \<and> extract_text m \<noteq> []) ms)"

definition last_n :: "nat \<Rightarrow> 'a list \<Rightarrow> 'a list" where
  "last_n n xs = drop (length xs - n) xs"

definition summary_parts :: "chat_turn list \<Rightarrow> utext option \<Rightarrow> utext list" where
  "summary_parts dropped existing =
    (case existing of Some s \<Rightarrow> if s = [] then [] else [ustrip s] | None \<Rightarrow> []) @
    (if snippets ''user'' dropped = [] then []
     else [TOPICS_LABEL @ ujoin [32, 124, 32] (last_n 5 (snippets ''user'' dropped))]) @
    (if snippets ''model'' dropped = [] then []
     else [ANSWERS_LABEL @ ujoin [32, 124, 32] (last_n 3 (snippets ''model'' dropped))])"

definition create_summary_local :: "chat_turn list \<Rightarrow> utext option \<Rightarrow> budget_error + utext option" where
  "create_summary_local dropped existing =
    (if dropped = [] then Inr existing
     else
       (let ps = summary_parts dropped existing in
        if ps = [] then Inr None
        else if estimate_tokens (ujoin [10] ps) > SUMMARY_BUDGET
        then map_sum id Some (truncate_to_token_budget (ujoin [10] ps) SUMMARY_BUDGET [46, 46, 46])
        else Inr (Some (ujoin [10] ps))))"

text \<open>Backwards from the last turn, with the tokens and the number of turns kept so far.\<close>

fun keep_recent :: "int \<Rightarrow> int \<Rightarrow> nat \<Rightarrow> chat_turn list \<Rightarrow> chat_turn list" where
  "keep_recent available acc n [] = []"
| "keep_recent available acc n (m # ms) =
    (if acc + turn_tokens m > available \<and> n \<ge> MIN_HISTORY_MESSAGES then []
     else m # keep_recent available (acc + turn_tokens m) (n + 1) ms)"

definition history_tokens :: "chat_turn list \<Rightarrow> int" where
  "history_tokens ms = sum_list (map turn_tokens ms)"

definition fit_history :: "chat_turn list \<Rightarrow> int \<Rightarrow> utext option \<Rightarrow> budget_error + (chat_turn list \<times> bool \<times> nat \<times> utext option)" where
  "fit_history hist available existing =
    (if hist = [] then Inr ([], False, 0, existing)
     else if history_tokens hist \<le> available then Inr (hist, False, 0, existing)
     else
       (let trimmed = rev (keep_recent available 0 0 (rev hist));
            dropped = take (length hist - length trimmed) hist
        in map_sum id (\<lambda>s. (trimmed, True, length dropped, s)) (create_summary_local dropped existing)))"

definition merge_turn :: "chat_turn list \<Rightarrow> chat_turn \<Rightarrow> chat_turn list" where
  "merge_turn fixed m =
    (if turn_role m = turn_role (last fixed)
     then butlast fixed @ [(last fixed)\<lparr>turn_parts := turn_parts (last fixed) @ turn_parts m\<rparr>]
     else fixed @ [m])"

definition fix_role_alternation :: "chat_turn list \<Rightarrow> chat_turn list" where
  "fix_role_alternation hist = (case hist of [] \<Rightarrow> [] | m # ms \<Rightarrow> foldl merge_turn [m] ms)"

definition text_turn :: "string \<Rightarrow> part list \<Rightarrow> chat_turn" where
  "text_turn r ps = \<lparr>turn_role = r, turn_parts = ps, turn_content = []\<rparr>"

definition user_turn :: "utext option \<Rightarrow> part list option \<Rightarrow> chat_turn list" where
  "user_turn message parts =
    (case message of
       None \<Rightarrow> []
     | Some t \<Rightarrow>
        [text_turn ''user'' (case parts of
            Some ps \<Rightarrow> ps
          | None \<Rightarrow> [PStr (if ustrip t = [] then [46, 46, 46] else ustrip t)])])"

definition summary_turns :: "prompt_texts \<Rightarrow> utext option \<Rightarrow> chat_turn list" where
  "summary_turns tx summary =
    (case summary of
       None \<Rightarrow> []
     | Some s \<Rightarrow> if s = [] then []
         else [text_turn ''user'' [PStr (summary_preamble tx s)], text_turn ''model'' [PStr (summary_ack tx)]])"

definition build_final_history :: "prompt_texts \<Rightarrow> chat_turn list \<Rightarrow> utext option \<Rightarrow> utext option \<Rightarrow> part list option \<Rightarrow> chat_turn list" where
  "build_final_history tx trimmed summary message parts =
    fix_role_alternation (summary_turns tx summary @ trimmed @ user_turn message parts)"

definition compute_audit_hash :: "(utext \<Rightarrow> string) \<Rightarrow> chat_turn list \<Rightarrow> utext \<Rightarrow> string" where
  "compute_audit_hash hash12 hist system =
    hash12 (system @ concat (map (\<lambda>m. 124 # utext (turn_role m) @ 58 # extract_text m) hist))"

record assembled_context =
  ac_history :: "chat_turn list"
  ac_system_instruction :: utext
  ac_retained :: "chat_turn list"
  ac_summary :: "utext option"
  ac_budget :: token_budget
  ac_was_truncated :: bool
  ac_dropped :: "chat_turn list"
  ac_messages_dropped :: nat
  ac_audit_hash :: string
  ac_llm_scheduled :: bool

text \<open>What is left for the history once the fixed costs and, when something must be dropped, the summary are paid.\<close>

definition history_allowance :: "prompt_texts \<Rightarrow> token_budget \<Rightarrow> chat_turn list \<Rightarrow> int" where
  "history_allowance tx b hist =
    (let available = available_for_history b in
     if history_tokens hist > available
     then max 0 (available - max 0 (SUMMARY_BUDGET + summary_token_cost tx [] - tb_summary b))
     else available)"

definition capped_summary :: "utext option \<Rightarrow> budget_error + utext option" where
  "capped_summary existing =
    (case existing of
       None \<Rightarrow> Inr None
     | Some s \<Rightarrow> if s = [] then Inr existing else map_sum id Some (truncate_to_token_budget s SUMMARY_BUDGET [46, 46, 46]))"

definition summary_cost :: "prompt_texts \<Rightarrow> utext option \<Rightarrow> int" where
  "summary_cost tx s = (case s of Some t \<Rightarrow> if t = [] then 0 else summary_token_cost tx t | None \<Rightarrow> 0)"

definition fixed_budget :: "prompt_texts \<Rightarrow> utext option \<Rightarrow> utext \<Rightarrow> utext option \<Rightarrow> int \<Rightarrow> token_budget" where
  "fixed_budget tx message system existing total_budget =
    \<lparr>tb_total = total_budget, tb_system_prompt = estimate_tokens system, tb_summary = summary_cost tx existing, tb_history = 0,
     tb_user_message = (case message of None \<Rightarrow> 0 | Some t \<Rightarrow> estimate_tokens t), tb_response_reserve = RESPONSE_RESERVE\<rparr>"

definition finish_assembly :: "(utext \<Rightarrow> string) \<Rightarrow> prompt_texts \<Rightarrow> chat_turn list \<Rightarrow> utext option \<Rightarrow> utext \<Rightarrow> utext option \<Rightarrow>
    part list option \<Rightarrow> token_budget \<Rightarrow> chat_turn list \<times> bool \<times> nat \<times> utext option \<Rightarrow> assembled_context" where
  "finish_assembly hash12 tx hist message system existing parts b fitted =
    (case fitted of (trimmed, truncated, dropped_count, summary) \<Rightarrow>
      (let b1 = (if summary \<noteq> None \<and> summary \<noteq> Some [] \<and> summary \<noteq> existing then b\<lparr>tb_summary := summary_cost tx summary\<rparr> else b);
           dropped = (if truncated then take (length hist - length trimmed) hist else []);
           final = build_final_history tx trimmed summary message parts
       in \<lparr>ac_history = final, ac_system_instruction = system, ac_retained = trimmed, ac_summary = summary,
           ac_budget = b1\<lparr>tb_history := history_tokens final - tb_summary b1 - tb_user_message b1\<rparr>,
           ac_was_truncated = truncated, ac_dropped = dropped, ac_messages_dropped = dropped_count,
           ac_audit_hash = compute_audit_hash hash12 final system,
           ac_llm_scheduled = (truncated \<and> history_tokens dropped \<ge> LLM_SUMMARY_TOKEN_THRESHOLD)\<rparr>))"

definition assemble :: "(utext \<Rightarrow> string) \<Rightarrow> prompt_texts \<Rightarrow> chat_turn list \<Rightarrow> utext option \<Rightarrow> utext \<Rightarrow> utext option \<Rightarrow> int \<Rightarrow>
    part list option \<Rightarrow> budget_error + assembled_context" where
  "assemble hash12 tx hist message system existing total_budget parts =
    (case capped_summary existing of
       Inl e \<Rightarrow> Inl e
     | Inr capped \<Rightarrow>
        (let b = fixed_budget tx message system capped total_budget in
         map_sum id (finish_assembly hash12 tx hist message system capped parts b)
           (fit_history hist (history_allowance tx b hist) capped)))"

section \<open>The retained turns\<close>

lemma turn_tokens_nonneg: "0 \<le> turn_tokens m"
  by (simp add: turn_tokens_def estimate_nonneg)

lemma history_tokens_simps [simp]:
  "history_tokens [] = 0" "history_tokens (m # ms) = turn_tokens m + history_tokens ms"
  "history_tokens (ms @ ms') = history_tokens ms + history_tokens ms'" "history_tokens (rev ms) = history_tokens ms"
  by (simp_all add: history_tokens_def rev_map [symmetric])

lemma keep_recent_split:
  "\<exists>rest. ms = keep_recent available acc n ms @ rest \<and>
    min MIN_HISTORY_MESSAGES (n + length ms) \<le> n + length (keep_recent available acc n ms) \<and>
    (rest \<noteq> [] \<longrightarrow> acc + history_tokens (keep_recent available acc n ms) + turn_tokens (hd rest) > available)"
proof (induction available acc n ms rule: keep_recent.induct)
  case (2 available acc n m ms)
  show ?case
  proof (cases "acc + turn_tokens m > available \<and> n \<ge> MIN_HISTORY_MESSAGES")
    case True
    then show ?thesis by (intro exI [of _ "m # ms"]) auto
  next
    case False
    from "2.IH" [OF False] obtain rest where "ms = keep_recent available (acc + turn_tokens m) (n + 1) ms @ rest"
      "min MIN_HISTORY_MESSAGES (n + 1 + length ms) \<le> n + 1 + length (keep_recent available (acc + turn_tokens m) (n + 1) ms)"
      "rest \<noteq> [] \<longrightarrow> acc + turn_tokens m + history_tokens (keep_recent available (acc + turn_tokens m) (n + 1) ms) + turn_tokens (hd rest) > available"
      by blast
    with False show ?thesis by (intro exI [of _ rest]) (auto simp: add.assoc)
  qed
qed simp

lemma keep_recent_tokens:
  "acc \<le> available \<or> n \<le> MIN_HISTORY_MESSAGES \<Longrightarrow>
    acc + history_tokens (keep_recent available acc n ms) \<le> available \<or> n + length (keep_recent available acc n ms) \<le> MIN_HISTORY_MESSAGES"
proof (induction available acc n ms rule: keep_recent.induct)
  case (2 available acc n m ms)
  then show ?case by (auto simp: add.assoc)
qed simp

section \<open>Alternating roles\<close>

lemma merge_turn_props:
  assumes "distinct_adj (map turn_role fixed)" and "fixed \<noteq> []"
  shows "distinct_adj (map turn_role (merge_turn fixed m))" and "merge_turn fixed m \<noteq> []"
    and "concat (map turn_parts (merge_turn fixed m)) = concat (map turn_parts fixed) @ turn_parts m"
proof -
  obtain ys y where f: "fixed = ys @ [y]" using assms(2) by (cases fixed rule: rev_cases) auto
  show "distinct_adj (map turn_role (merge_turn fixed m))"
    using assms(1) by (auto simp: f merge_turn_def distinct_adj_append_iff)
  show "merge_turn fixed m \<noteq> []" "concat (map turn_parts (merge_turn fixed m)) = concat (map turn_parts fixed) @ turn_parts m"
    by (auto simp: f merge_turn_def)
qed

lemma fix_role_props:
  "distinct_adj (map turn_role (fix_role_alternation ms)) \<and>
    concat (map turn_parts (fix_role_alternation ms)) = concat (map turn_parts ms)"
proof -
  have "distinct_adj (map turn_role (foldl merge_turn fixed ms)) \<and>
      concat (map turn_parts (foldl merge_turn fixed ms)) = concat (map turn_parts (fixed @ ms))"
    if "distinct_adj (map turn_role fixed)" "fixed \<noteq> []" for fixed ms
    using that by (induction ms arbitrary: fixed) (simp_all add: merge_turn_props)
  from this [of "[_]"] show ?thesis by (auto simp: fix_role_alternation_def split: list.split)
qed

section \<open>Summaries\<close>

lemma scalar_parts:
  "list_all scalar t \<Longrightarrow> list_all scalar (take n t)" "list_all scalar t \<Longrightarrow> list_all scalar (ustrip t)"
  unfolding list_all_iff ustrip_def by (meson in_set_takeD, metis set_dropWhileD set_rev)

lemma scalar_join: "list_all scalar sep \<Longrightarrow> list_all (list_all scalar) ts \<Longrightarrow> list_all scalar (ujoin sep ts)"
  by (auto simp: ujoin_def list_all_iff split: list.splits)

lemma scalar_snippets:
  "list_all (\<lambda>m. list_all scalar (extract_text m)) ms \<Longrightarrow> list_all (list_all scalar) (last_n n (snippets r ms))"
proof -
  assume ok: "list_all (\<lambda>m. list_all scalar (extract_text m)) ms"
  have "list_all scalar [46, 46, 46]" by (simp add: scalar_def)
  then have "list_all scalar (snippet t)" if "list_all scalar t" for t
    using that by (auto simp: snippet_def scalar_parts)
  with ok show ?thesis unfolding last_n_def snippets_def list_all_iff by (fastforce dest!: in_set_dropD)
qed

lemma truncated_summary:
  assumes "list_all scalar t"
  obtains r where "truncate_to_token_budget t SUMMARY_BUDGET sfx = Inr r" "estimate_tokens r \<le> SUMMARY_BUDGET"
  using truncate_cases [OF assms, of SUMMARY_BUDGET sfx] truncate_within [OF assms, of SUMMARY_BUDGET sfx]
  by (simp add: SUMMARY_BUDGET_def)

definition small_summary :: "utext option \<Rightarrow> bool" where
  "small_summary s \<longleftrightarrow> (case s of None \<Rightarrow> True | Some t \<Rightarrow> estimate_tokens t \<le> SUMMARY_BUDGET)"

definition scalar_summary :: "utext option \<Rightarrow> bool" where
  "scalar_summary s \<longleftrightarrow> (case s of None \<Rightarrow> True | Some t \<Rightarrow> list_all scalar t)"

lemma create_summary_small:
  assumes ms: "list_all (\<lambda>m. list_all scalar (extract_text m)) ms" and ex: "scalar_summary existing" "small_summary existing"
  obtains s where "create_summary_local ms existing = Inr s" "small_summary s"
proof (cases "ms = []")
  case True
  with ex that show thesis by (simp add: create_summary_local_def)
next
  case False
  define ps where "ps = summary_parts ms existing"
  have lab: "list_all scalar TOPICS_LABEL" "list_all scalar ANSWERS_LABEL" "list_all scalar [32, 124, 32]" "list_all scalar [10]"
    by (simp_all add: TOPICS_LABEL_def ANSWERS_LABEL_def scalar_def)
  have "list_all (list_all scalar) ps"
    using ex(1) lab scalar_snippets [OF ms] by (auto simp: ps_def summary_parts_def scalar_summary_def scalar_parts scalar_join split: option.splits)
  then have sc: "list_all scalar (ujoin [10] ps)" using lab by (intro scalar_join)
  then obtain r where r: "truncate_to_token_budget (ujoin [10] ps) SUMMARY_BUDGET [46, 46, 46] = Inr r" "estimate_tokens r \<le> SUMMARY_BUDGET"
    by (rule truncated_summary)
  have eq: "create_summary_local ms existing =
      (if ps = [] then Inr None
       else if estimate_tokens (ujoin [10] ps) > SUMMARY_BUDGET then Inr (Some r) else Inr (Some (ujoin [10] ps)))"
    using False r(1) by (simp add: create_summary_local_def Let_def ps_def [symmetric])
  show thesis
    by (rule that [of "if ps = [] then None else if estimate_tokens (ujoin [10] ps) > SUMMARY_BUDGET then Some r else Some (ujoin [10] ps)"])
      (use eq r(2) in \<open>auto simp: small_summary_def\<close>)
qed

lemma capped_summary_small:
  assumes "scalar_summary existing"
  obtains capped where "capped_summary existing = Inr capped" "small_summary capped" "scalar_summary capped"
proof (cases existing)
  case None
  with that show thesis by (simp add: capped_summary_def small_summary_def scalar_summary_def)
next
  case (Some s)
  with assms have sc: "list_all scalar s" by (simp add: scalar_summary_def)
  have scr: "list_all scalar r" if "truncate_to_token_budget s SUMMARY_BUDGET [46, 46, 46] = Inr r" for r
  proof -
    have "list_all scalar (fit_bytes n s)" for n using fit_bytes_prefix [of s n] sc by (metis list_all_append)
    then show ?thesis using truncate_cases [OF sc, of SUMMARY_BUDGET "[46, 46, 46]"] that sc
      by (auto simp: SUMMARY_BUDGET_def kept_suffix_def scalar_def split: if_splits)
  qed
  from sc obtain r where "truncate_to_token_budget s SUMMARY_BUDGET [46, 46, 46] = Inr r" "estimate_tokens r \<le> SUMMARY_BUDGET"
    by (rule truncated_summary)
  with Some sc scr that [of "if s = [] then Some [] else Some r"] show thesis
    by (auto simp: capped_summary_def small_summary_def scalar_summary_def estimate_tokens_def SUMMARY_BUDGET_def)
qed

section \<open>Fitting\<close>

definition fitted_ok :: "chat_turn list \<Rightarrow> int \<Rightarrow> chat_turn list \<Rightarrow> chat_turn list \<Rightarrow> bool" where
  "fitted_ok hist available dropped kept \<longleftrightarrow>
    hist = dropped @ kept \<and> min MIN_HISTORY_MESSAGES (length hist) \<le> length kept \<and>
    (history_tokens kept \<le> available \<or> length kept \<le> MIN_HISTORY_MESSAGES) \<and>
    (dropped \<noteq> [] \<longrightarrow> history_tokens (last dropped # kept) > available)"

lemma fit_history_ok:
  assumes ms: "list_all (\<lambda>m. list_all scalar (extract_text m)) hist" and ex: "scalar_summary existing" "small_summary existing" and "0 \<le> available"
  obtains kept tr n s where "fit_history hist available existing = Inr (kept, tr, n, s)" "small_summary s"
    "fitted_ok hist available (if tr then take (length hist - length kept) hist else []) kept"
    "n = length (if tr then take (length hist - length kept) hist else [])"
proof (cases "hist = [] \<or> history_tokens hist \<le> available")
  case True
  then show thesis using ex(2) assms(4) that [of hist False 0 existing] by (auto simp: fit_history_def fitted_ok_def)
next
  case False
  let ?k = "keep_recent available 0 0 (rev hist)"
  let ?d = "take (length hist - length ?k) hist"
  obtain rest where rest: "rev hist = ?k @ rest" "min MIN_HISTORY_MESSAGES (length hist) \<le> length ?k"
    "rest \<noteq> [] \<longrightarrow> history_tokens ?k + turn_tokens (hd rest) > available"
    using keep_recent_split [of "rev hist" available 0 0] by auto
  have hist: "hist = rev rest @ rev ?k" using rest(1) by (metis rev_append rev_rev_ident)
  have d: "?d = rev rest" by (subst (2) hist) (use hist in \<open>metis add_diff_cancel_right' append_eq_conv_conj length_append length_rev\<close>)
  have "list_all (\<lambda>m. list_all scalar (extract_text m)) ?d" using ms by (auto simp: list_all_iff dest: in_set_takeD)
  then obtain s where s: "create_summary_local ?d existing = Inr s" "small_summary s" using ex by (rule create_summary_small)
  have "fitted_ok hist available ?d (rev ?k)"
    unfolding fitted_ok_def d using hist rest(2,3) keep_recent_tokens [of 0 available 0 "rev hist"] assms(4)
    by (auto simp: last_rev)
  with False s show thesis by (intro that [of "rev ?k" True "length ?d" s]) (simp_all add: fit_history_def Let_def)
qed

text \<open>Property C31. The assembled prompt keeps the newest turns and alternates roles. For every well-formed conversation the
  assembly returns; what it drops and what it retains make up the conversation; at least the last four turns are
  retained, and beyond those the retained turns fit the allowance and one turn more would not. The final history
  never has two neighbours of one role and carries exactly the parts of the summary frame, of the retained turns
  and of the new message, in order; the summary stays within its budget.\<close>

theorem assembled_history:
  assumes "list_all (\<lambda>m. list_all scalar (extract_text m)) hist" and "scalar_summary existing"
  shows "\<exists>ctx capped. assemble hash12 tx hist message system existing total_budget parts = Inr ctx \<and>
    capped_summary existing = Inr capped \<and>
    fitted_ok hist (history_allowance tx (fixed_budget tx message system capped total_budget) hist) (ac_dropped ctx) (ac_retained ctx) \<and>
    ac_messages_dropped ctx = length (ac_dropped ctx) \<and>
    distinct_adj (map turn_role (ac_history ctx)) \<and>
    concat (map turn_parts (ac_history ctx)) =
      concat (map turn_parts (summary_turns tx (ac_summary ctx) @ ac_retained ctx @ user_turn message parts)) \<and>
    small_summary (ac_summary ctx)"
proof -
  obtain capped where c: "capped_summary existing = Inr capped" "small_summary capped" "scalar_summary capped"
    using assms(2) by (rule capped_summary_small)
  let ?b = "fixed_budget tx message system capped total_budget"
  have "0 \<le> history_allowance tx ?b hist" by (simp add: history_allowance_def available_for_history_def Let_def)
  with assms(1) c(3,2) obtain kept tr n s where f: "fit_history hist (history_allowance tx ?b hist) capped = Inr (kept, tr, n, s)"
    "small_summary s" "fitted_ok hist (history_allowance tx ?b hist) (if tr then take (length hist - length kept) hist else []) kept"
    "n = length (if tr then take (length hist - length kept) hist else [])"
    by (rule fit_history_ok)
  let ?ctx = "finish_assembly hash12 tx hist message system capped parts ?b (kept, tr, n, s)"
  have "assemble hash12 tx hist message system existing total_budget parts = Inr ?ctx"
    using c(1) f(1) by (simp add: assemble_def Let_def)
  moreover have "ac_retained ?ctx = kept" "ac_dropped ?ctx = (if tr then take (length hist - length kept) hist else [])"
    "ac_messages_dropped ?ctx = n" "ac_summary ?ctx = s" "ac_history ?ctx = build_final_history tx kept s message parts"
    by (simp_all add: finish_assembly_def Let_def)
  ultimately show ?thesis using c(1) f(2-4) fix_role_props [of "summary_turns tx s @ kept @ user_turn message parts"]
    by (intro exI [of _ ?ctx] exI [of _ capped]) (simp add: build_final_history_def)
qed

definition demo_texts :: prompt_texts where
  "demo_texts = \<lparr>summary_preamble = (\<lambda>s. utext ''[context] '' @ s), summary_ack = utext ''ok''\<rparr>"

theorem assembled_history_witness:
  "\<exists>ctx. assemble (\<lambda>t. []) demo_texts (map (\<lambda>r. text_turn r [PStr (utext ''hello there'')]) [''user'', ''user'', ''model'', ''user'', ''model'', ''user''])
      (Some (utext '' hi '')) (utext ''sys'') None 12010 None = Inr ctx \<and> distinct_adj (map turn_role (ac_history ctx))"
proof -
  have "list_all (\<lambda>m. list_all scalar (extract_text m))
      (map (\<lambda>r. text_turn r [PStr (utext ''hello there'')]) [''user'', ''user'', ''model'', ''user'', ''model'', ''user''])"
    by (simp add: extract_text_def text_turn_def utext_def scalar_def ujoin_def List.map_filter_simps)
  moreover have "scalar_summary None" by (simp add: scalar_summary_def)
  ultimately show ?thesis using assembled_history by blast
qed

end
