(* ===== verification/Chunking.thy ===== *)
theory Chunking
  imports Unicode_Text "HOL-Library.Sublist"
begin

text \<open>
  The chunks of a document, \<^verbatim>\<open>app/documents/chunking.py\<close>: splitting at separators or hard boundaries with an
  overlap, scoring by words of the query and the choice of chunks for a context.

  \<^item> \<open>_CHARS_PER_TOKEN\<close> is 3.5, so \<open>n\<close> tokens are \<open>7 * n div 2\<close> characters; the overlap ratio is a rational.
  \<^item> The loop of \<open>_hard_split\<close> is a partial function: \<open>None\<close> is a loop that does not end.
  \<^item> \<open>lower\<close> and \<open>is_word\<close> stand for the Unicode tables behind \<open>str.lower\<close> and \<open>\w\<close>.
\<close>

datatype chunk_error = BadMaxTokens | BadOverlap | NegativeContext

section \<open>Splitting\<close>

definition max_chars_of :: "int \<Rightarrow> nat" where
  "max_chars_of tokens = nat (7 * tokens div 2)"

definition overlap_of :: "nat \<Rightarrow> rat \<Rightarrow> nat" where
  "overlap_of max_chars ratio = nat (floor (of_nat max_chars * ratio))"

partial_function (option) hard_split_from :: "utext \<Rightarrow> nat \<Rightarrow> nat \<Rightarrow> nat \<Rightarrow> utext list option" where
  "hard_split_from t max_chars overlap start =
    (if length t \<le> start then Some []
     else
       (let e = min (start + max_chars) (length t);
            chunk = ustrip (take (e - start) (drop start t))
        in Option.bind (hard_split_from t max_chars overlap (if e < length t then e - overlap else e))
             (\<lambda>cs. Some (if chunk = [] then cs else chunk # cs))))"

declare hard_split_from.simps [code]

definition hard_split :: "utext \<Rightarrow> nat \<Rightarrow> nat \<Rightarrow> utext list option" where
  "hard_split t max_chars overlap = hard_split_from t max_chars overlap 0"

definition merge_part :: "utext \<Rightarrow> nat \<Rightarrow> nat \<Rightarrow> utext \<Rightarrow> utext list \<times> utext \<Rightarrow> (utext list \<times> utext) option" where
  "merge_part sep max_chars overlap part st =
    (let current = snd st;
         candidate = (if current \<noteq> [] then current @ sep @ part else part)
     in if length candidate \<le> max_chars then Some (fst st, candidate)
        else
          (let chunks = (if current \<noteq> [] then fst st @ [ustrip current] else fst st);
               current1 = (if chunks \<noteq> [] \<and> overlap > 0
                 then drop (length (last chunks) - overlap) (last chunks) @ sep @ part else part)
           in if length current1 > max_chars
              then Option.bind (hard_split current1 max_chars overlap)
                (\<lambda>sub. Some (chunks @ butlast sub, if sub = [] then [] else last sub))
              else Some (chunks, current1)))"

fun merge_loop :: "utext \<Rightarrow> nat \<Rightarrow> nat \<Rightarrow> utext list \<Rightarrow> utext list \<times> utext \<Rightarrow> (utext list \<times> utext) option" where
  "merge_loop sep max_chars overlap [] st = Some st"
| "merge_loop sep max_chars overlap (p # ps) st =
    Option.bind (merge_part sep max_chars overlap p st) (merge_loop sep max_chars overlap ps)"

definition merge_parts :: "utext list \<Rightarrow> utext \<Rightarrow> nat \<Rightarrow> nat \<Rightarrow> utext list option" where
  "merge_parts ps sep max_chars overlap =
    map_option (\<lambda>(chunks, current). if ustrip current \<noteq> [] then chunks @ [ustrip current] else chunks)
      (merge_loop sep max_chars overlap ps ([], []))"

definition SEPARATORS :: "utext list" where
  "SEPARATORS = [[10, 10], [10], [46, 32], [32]]"

fun split_by :: "utext list \<Rightarrow> utext \<Rightarrow> nat \<Rightarrow> nat \<Rightarrow> utext list option" where
  "split_by [] t max_chars overlap = hard_split t max_chars overlap"
| "split_by (sep # seps) t max_chars overlap =
    (if length (usplit sep t) > 1
     then Option.bind (merge_parts (usplit sep t) sep max_chars overlap)
       (\<lambda>chunks. if chunks \<noteq> [] then Some chunks else split_by seps t max_chars overlap)
     else split_by seps t max_chars overlap)"

definition recursive_chunk :: "utext \<Rightarrow> int \<Rightarrow> rat \<Rightarrow> (chunk_error + utext list) option" where
  "recursive_chunk t max_tokens overlap_ratio =
    (if max_tokens \<le> 0 then Some (Inl BadMaxTokens)
     else if \<not> (0 \<le> overlap_ratio \<and> overlap_ratio < 1) then Some (Inl BadOverlap)
     else if ustrip t = [] then Some (Inr [])
     else
       (let max_chars = max_chars_of max_tokens; overlap = overlap_of max_chars overlap_ratio
        in if length t \<le> max_chars then Some (Inr [ustrip t])
           else map_option Inr (split_by SEPARATORS t max_chars overlap)))"

section \<open>Choosing\<close>

record hierarchical =
  hc_parent :: utext
  hc_children :: "utext list"

fun traverse :: "('a \<Rightarrow> 'b option) \<Rightarrow> 'a list \<Rightarrow> 'b list option" where
  "traverse f [] = Some []"
| "traverse f (x # xs) = Option.bind (f x) (\<lambda>y. map_option (\<lambda>ys. y # ys) (traverse f xs))"

definition hierarchical_chunk :: "utext \<Rightarrow> int \<Rightarrow> int \<Rightarrow> (chunk_error + hierarchical list) option" where
  "hierarchical_chunk t child_tokens parent_tokens =
    (if ustrip t = [] then Some (Inr [])
     else Option.bind (recursive_chunk t parent_tokens (1 / 10)) (\<lambda>r.
       case r of
         Inl e \<Rightarrow> Some (Inl e)
       | Inr parents \<Rightarrow>
          map_option (\<lambda>rs. if \<exists>x \<in> set rs. isl x then Inl (projl (hd (filter isl rs)))
              else Inr (map2 (\<lambda>p c. \<lparr>hc_parent = p, hc_children = projr c\<rparr>) parents rs))
            (traverse (\<lambda>p. recursive_chunk p child_tokens (1 / 10)) parents)))"

fun word_runs :: "(nat \<Rightarrow> bool) \<Rightarrow> utext \<Rightarrow> utext \<Rightarrow> utext list" where
  "word_runs is_word acc [] = (if length acc \<ge> 3 then [rev acc] else [])"
| "word_runs is_word acc (c # t) =
    (if is_word c then word_runs is_word (c # acc) t
     else (if length acc \<ge> 3 then [rev acc] else []) @ word_runs is_word [] t)"

definition query_words :: "(utext \<Rightarrow> utext) \<Rightarrow> (nat \<Rightarrow> bool) \<Rightarrow> utext \<Rightarrow> utext list" where
  "query_words lower is_word query = remdups (word_runs is_word [] (lower query))"

fun occurs_in :: "utext \<Rightarrow> utext \<Rightarrow> bool" where
  "occurs_in w [] = (w = [])"
| "occurs_in w (c # t) = (take (length w) (c # t) = w \<or> occurs_in w t)"

definition score_chunk_words :: "(utext \<Rightarrow> utext) \<Rightarrow> utext list \<Rightarrow> utext \<Rightarrow> rat" where
  "score_chunk_words lower ws chunk =
    (if ws = [] then 1 / 2
     else of_nat (length (filter (\<lambda>w. occurs_in w (lower chunk)) ws)) / of_nat (length ws))"

definition score_parent :: "(utext \<Rightarrow> utext) \<Rightarrow> (nat \<Rightarrow> bool) \<Rightarrow> utext \<Rightarrow> hierarchical \<Rightarrow> rat" where
  "score_parent lower is_word query hc =
    (if query = [] then 1 / 2
     else if hc_children hc = [] then 0
     else Max (set (map (score_chunk_words lower (query_words lower is_word query)) (hc_children hc))))"

text \<open>The selection loop, with the chunks taken so far and their characters.\<close>

fun select_chunks :: "nat \<Rightarrow> utext list \<Rightarrow> nat \<Rightarrow> utext list \<Rightarrow> utext list" where
  "select_chunks max_chars selected used [] = selected"
| "select_chunks max_chars selected used (p # ps) =
    (let sep_len = (if selected = [] then 0 else 2) in
     if used + length p + sep_len > max_chars
     then (if selected = [] then [take max_chars p] else select_chunks max_chars selected used ps)
     else select_chunks max_chars (selected @ [p]) (used + length p + sep_len) ps)"

definition estimate_chunk_tokens :: "utext \<Rightarrow> int" where
  "estimate_chunk_tokens t = ceiling (of_nat (length t) / (7 / 2 :: rat))"

definition chunk_for_context :: "(utext \<Rightarrow> utext) \<Rightarrow> (nat \<Rightarrow> bool) \<Rightarrow> utext \<Rightarrow> utext \<Rightarrow> int \<Rightarrow> (chunk_error + utext) option" where
  "chunk_for_context lower is_word text query max_context_tokens =
    (if max_context_tokens < 0 then Some (Inl NegativeContext)
     else if max_context_tokens = 0 then Some (Inr [])
     else if ustrip text = [] then Some (Inr [])
     else
       (let t = ustrip text; max_chars = max_chars_of max_context_tokens in
        if estimate_chunk_tokens t \<le> max_context_tokens then Some (Inr t)
        else Option.bind (hierarchical_chunk t 256 1024) (\<lambda>r.
          case r of
            Inl e \<Rightarrow> Some (Inl e)
          | Inr [] \<Rightarrow> Some (Inr (ustrip (take max_chars t)))
          | Inr hs \<Rightarrow>
             (let ordered = map hc_parent (sort_key (\<lambda>hc. - score_parent lower is_word query hc) hs);
                  chosen = select_chunks max_chars [] 0 ordered
              in Some (Inr (ujoin [10, 10] (if chosen = [] then [take max_chars (hd ordered)] else chosen)))))))"

section \<open>What the chunks keep\<close>

text \<open>The characters of a text that are neither white space nor a full stop: no separator has one.\<close>

definition ink :: "utext \<Rightarrow> utext" where
  "ink t = filter (\<lambda>c. \<not> uspace c \<and> c \<noteq> 46) t"

lemma ink_simps [simp]: "ink [] = []" "ink (s @ t) = ink s @ ink t" "ink (concat ts) = concat (map ink ts)"
  by (induction ts) (simp_all add: ink_def)

lemma ink_ustrip [simp]: "ink (ustrip t) = ink t"
proof -
  have drop: "ink (dropWhile uspace s) = ink s" for s by (induction s) (simp_all add: ink_def)
  have "ink (rev s) = rev (ink s)" for s by (simp add: ink_def rev_filter)
  with drop show ?thesis by (simp add: ustrip_def)
qed

lemma length_ustrip: "length (ustrip t) \<le> length t"
  unfolding ustrip_def by (metis length_dropWhile_le length_rev order_trans)

lemma ink_separators: "sep \<in> set SEPARATORS \<Longrightarrow> ink sep = []"
  by (auto simp: SEPARATORS_def ink_def uspace_def)

text \<open>Chunks of bounded length that keep the ink of a text in order.\<close>

definition covers :: "nat \<Rightarrow> utext \<Rightarrow> utext list \<Rightarrow> bool" where
  "covers n t cs \<longleftrightarrow> (\<forall>c \<in> set cs. length c \<le> n) \<and> subseq (ink t) (concat (map ink cs))"

lemma hard_split_covers:
  assumes "overlap < max_chars"
  shows "\<exists>cs. hard_split_from t max_chars overlap start = Some cs \<and> covers max_chars (drop start t) cs"
proof (induction "length t - start" arbitrary: start rule: less_induct)
  case less
  show ?case
  proof (cases "length t \<le> start")
    case True
    then show ?thesis by (subst hard_split_from.simps) (simp add: covers_def)
  next
    case False
    define e where "e = min (start + max_chars) (length t)"
    define nxt where "nxt = (if e < length t then e - overlap else e)"
    define chunk where "chunk = ustrip (take (e - start) (drop start t))"
    have lt: "start < nxt" "nxt \<le> e" "start \<le> e" "e - start \<le> max_chars" using False assms by (auto simp: e_def nxt_def)
    then have "length t - nxt < length t - start" using False by simp
    from less [OF this] obtain cs where cs: "hard_split_from t max_chars overlap nxt = Some cs" "covers max_chars (drop nxt t) cs" by blast
    have eq: "hard_split_from t max_chars overlap start = Some (if chunk = [] then cs else chunk # cs)"
      using False cs(1) by (subst hard_split_from.simps) (simp add: Let_def e_def [symmetric] nxt_def [symmetric] chunk_def [symmetric])
    have "drop start t = take (e - start) (drop start t) @ drop e t"
      using lt(3) by (metis append_take_drop_id drop_drop le_add_diff_inverse2)
    then have ink: "ink (drop start t) = ink chunk @ ink (drop e t)" by (metis chunk_def ink_simps(2) ink_ustrip)
    have "drop nxt t = take (e - nxt) (drop nxt t) @ drop e t"
      using lt(2) by (metis append_take_drop_id drop_drop le_add_diff_inverse2)
    then have "subseq (ink (drop e t)) (ink (drop nxt t))" by (metis ink_simps(2) subseq_drop_many subseq_order.order_refl)
    with cs(2) have "subseq (ink (drop e t)) (concat (map ink cs))" unfolding covers_def by (metis subseq_order.order_trans)
    then have sub: "subseq (ink (drop start t)) (concat (map ink (if chunk = [] then cs else chunk # cs)))"
      unfolding ink by (auto simp: list_emb_append_mono)
    have "length chunk \<le> max_chars" using length_ustrip [of "take (e - start) (drop start t)"] lt(4) by (simp add: chunk_def)
    with eq sub cs(2) show ?thesis by (auto simp: covers_def)
  qed
qed

lemma merge_part_covers:
  assumes "overlap < max_chars" and "ink sep = []" and st: "covers max_chars t (chunks @ [current])"
  shows "\<exists>chunks' current'. merge_part sep max_chars overlap part (chunks, current) = Some (chunks', current') \<and>
    covers max_chars (t @ part) (chunks' @ [current'])"
proof -
  define candidate where "candidate = (if current \<noteq> [] then current @ sep @ part else part)"
  define chunks1 where "chunks1 = (if current \<noteq> [] then chunks @ [ustrip current] else chunks)"
  define current1 where "current1 = (if chunks1 \<noteq> [] \<and> overlap > 0
      then drop (length (last chunks1) - overlap) (last chunks1) @ sep @ part else part)"
  have eq: "merge_part sep max_chars overlap part (chunks, current) =
      (if length candidate \<le> max_chars then Some (chunks, candidate)
       else if length current1 > max_chars
       then Option.bind (hard_split current1 max_chars overlap) (\<lambda>sub. Some (chunks1 @ butlast sub, if sub = [] then [] else last sub))
       else Some (chunks1, current1))"
    by (simp only: merge_part_def Let_def candidate_def chunks1_def current1_def fst_conv snd_conv)
  have len: "\<forall>c \<in> set (chunks @ [current]). length c \<le> max_chars" and sub: "subseq (ink t) (concat (map ink chunks) @ ink current)"
    using st by (auto simp: covers_def)
  have len1: "\<forall>c \<in> set chunks1. length c \<le> max_chars" using len length_ustrip [of current] by (auto simp: chunks1_def)
  have ink1: "concat (map ink chunks1) = concat (map ink chunks) @ ink current" by (simp add: chunks1_def)
  have cur1: "subseq (ink part) (ink current1)" by (auto simp: current1_def assms(2))
  show ?thesis
  proof (cases "length candidate \<le> max_chars")
    case True
    have "ink candidate = ink current @ ink part" by (auto simp: candidate_def assms(2))
    then have "covers max_chars (t @ part) (chunks @ [candidate])"
      using True len sub by (auto simp: covers_def simp flip: append_assoc intro: list_emb_append_mono)
    with True show ?thesis unfolding eq by simp
  next
    case False
    show ?thesis
    proof (cases "length current1 > max_chars")
      case fits: False
      have "covers max_chars (t @ part) (chunks1 @ [current1])"
        using fits len1 ink1 list_emb_append_mono [OF sub cur1] by (auto simp: covers_def)
      with False fits show ?thesis unfolding eq by simp
    next
      case long: True
      from hard_split_covers [OF assms(1), of current1 0] obtain cs where
        cs: "hard_split current1 max_chars overlap = Some cs" "covers max_chars current1 cs" by (auto simp: hard_split_def)
      have "concat (map ink (butlast cs)) @ ink (if cs = [] then [] else last cs) = concat (map ink cs)"
        by (cases cs rule: rev_cases) simp_all
      moreover have "subseq (ink part) (concat (map ink cs))" using cur1 cs(2) unfolding covers_def by (metis subseq_order.order_trans)
      ultimately have "covers max_chars (t @ part) (chunks1 @ butlast cs @ [if cs = [] then [] else last cs])"
        using cs(2) len1 ink1 list_emb_append_mono [OF sub, of "ink part" "concat (map ink cs)"]
        by (auto simp: covers_def dest: in_set_butlastD)
      with False long cs(1) show ?thesis unfolding eq by simp
    qed
  qed
qed

lemma merge_loop_covers:
  assumes "overlap < max_chars" and "ink sep = []" and "covers max_chars t (chunks @ [current])"
  shows "\<exists>chunks' current'. merge_loop sep max_chars overlap ps (chunks, current) = Some (chunks', current') \<and>
    covers max_chars (t @ concat ps) (chunks' @ [current'])"
  using assms(3)
proof (induction ps arbitrary: t chunks current)
  case (Cons p ps)
  from merge_part_covers [OF assms(1,2) Cons.prems, of p] obtain c1 x1 where
    1: "merge_part sep max_chars overlap p (chunks, current) = Some (c1, x1)" "covers max_chars (t @ p) (c1 @ [x1])" by blast
  from Cons.IH [OF 1(2)] 1(1) show ?case by simp
qed simp

lemma merge_parts_covers:
  assumes "overlap < max_chars" and "ink sep = []"
  shows "\<exists>cs. merge_parts ps sep max_chars overlap = Some cs \<and> covers max_chars (concat ps) cs"
proof -
  from merge_loop_covers [OF assms, of "[]" "[]" "[]" ps] obtain cs x where
    cs: "merge_loop sep max_chars overlap ps ([], []) = Some (cs, x)" "covers max_chars (concat ps) (cs @ [x])"
    by (auto simp: covers_def)
  have "ink x = []" if "ustrip x = []" using that by (metis ink_simps(1) ink_ustrip)
  with cs(2) length_ustrip [of x] have "covers max_chars (concat ps) (if ustrip x \<noteq> [] then cs @ [ustrip x] else cs)"
    by (auto simp: covers_def)
  with cs(1) show ?thesis by (simp add: merge_parts_def)
qed

lemma usplit_ink:
  assumes "ink sep = []" and "sep \<noteq> []"
  shows "ink (concat (usplit sep t)) = ink t"
proof -
  have "ink (concat (usplit_acc sep acc k s)) = ink (rev acc @ drop k s)" for acc k s
  proof (induction s arbitrary: acc k)
    case (Cons c s)
    show ?case
    proof (cases k)
      case (Suc j)
      with Cons show ?thesis by simp
    next
      case 0
      have "ink (c # s) = ink (drop (length sep - 1) s)" if "take (length sep) (c # s) = sep"
      proof -
        have "c # s = sep @ drop (length sep) (c # s)" using that by (metis append_take_drop_id)
        also have "drop (length sep) (c # s) = drop (length sep - 1) s" using assms(2) by (cases sep) simp_all
        finally show ?thesis using assms(1) by (metis append_Nil ink_simps(2))
      qed
      moreover have "ink (rev acc @ c # s) = ink (rev (c # acc) @ s)" by simp
      ultimately show ?thesis using 0 Cons [of "c # acc" 0] Cons [of "[]" "length sep - 1"] by simp
    qed
  qed simp
  then show ?thesis by (simp add: usplit_def)
qed

lemma split_by_covers:
  assumes "overlap < max_chars" and "set seps \<subseteq> set SEPARATORS"
  shows "\<exists>cs. split_by seps t max_chars overlap = Some cs \<and> covers max_chars t cs"
  using assms(2)
proof (induction seps)
  case Nil
  from hard_split_covers [OF assms(1), of t 0] show ?case by (simp add: hard_split_def)
next
  case (Cons sep seps)
  have ink: "ink sep = []" "sep \<noteq> []" using Cons.prems ink_separators by (auto simp: SEPARATORS_def)
  from merge_parts_covers [OF assms(1) ink(1), of "usplit sep t"] obtain cs where
    cs: "merge_parts (usplit sep t) sep max_chars overlap = Some cs" "covers max_chars (concat (usplit sep t)) cs" by blast
  have "covers max_chars t cs" using cs(2) usplit_ink [OF ink] by (simp add: covers_def)
  with Cons cs(1) show ?case by auto
qed

lemma overlap_small: "0 < n \<Longrightarrow> 0 \<le> r \<Longrightarrow> r < 1 \<Longrightarrow> overlap_of n r < n"
proof -
  assume a: "0 < n" "0 \<le> r" "r < 1"
  then have "of_nat n * r < of_nat n" by (simp add: mult_less_cancel_left2)
  then have "floor (of_nat n * r) < int n" by (simp add: floor_less_iff)
  with a show ?thesis by (simp add: overlap_of_def nat_less_iff)
qed

lemma max_chars_pos: "0 < n \<Longrightarrow> 0 < max_chars_of n"
  by (simp add: max_chars_of_def)

text \<open>Property C32. Chunking returns and loses no text: for positive sizes and every overlap ratio below one the splitting
  loops end, every chunk has at most the allowed number of characters, and the characters of the document
  other than white space and full stops all occur in the chunks, in their order.\<close>

theorem chunking_complete:
  assumes "0 < max_tokens" and "0 \<le> overlap_ratio" and "overlap_ratio < 1"
  shows "\<exists>cs. recursive_chunk t max_tokens overlap_ratio = Some (Inr cs) \<and>
    (\<forall>c \<in> set cs. length c \<le> max_chars_of max_tokens) \<and> subseq (ink t) (concat (map ink cs))"
proof -
  let ?n = "max_chars_of max_tokens"
  have "overlap_of ?n overlap_ratio < ?n" by (rule overlap_small [OF max_chars_pos [OF assms(1)] assms(2,3)])
  from split_by_covers [OF this subset_refl, of t] obtain cs where
    cs: "split_by SEPARATORS t ?n (overlap_of ?n overlap_ratio) = Some cs" "covers ?n t cs" by blast
  have "ink t = []" if "ustrip t = []" using that by (metis ink_simps(1) ink_ustrip)
  then show ?thesis using assms cs length_ustrip [of t]
    by (auto simp: recursive_chunk_def Let_def covers_def)
qed

theorem chunking_complete_witness:
  "\<exists>cs. recursive_chunk (utext ''one. two three'') 2 (1 / 10) = Some (Inr cs) \<and> subseq (ink (utext ''one. two three'')) (concat (map ink cs))"
  using chunking_complete [of 2 "1 / 10" "utext ''one. two three''"] by auto

section \<open>The chosen context\<close>

lemma traverse_Some: "(\<And>x. x \<in> set xs \<Longrightarrow> \<exists>y. f x = Some (Inr y)) \<Longrightarrow> \<exists>ys. traverse f xs = Some (map Inr ys) \<and> length ys = length xs"
proof (induction xs)
  case (Cons x xs)
  obtain y ys where "f x = Some (Inr y)" "traverse f xs = Some (map Inr ys)" "length ys = length xs" using Cons by fastforce
  then show ?case by (intro exI [of _ "y # ys"]) simp
qed simp

lemma hierarchical_returns:
  assumes "0 < child" and "0 < parent"
  shows "\<exists>hs. hierarchical_chunk t child parent = Some (Inr hs)"
proof (cases "ustrip t = []")
  case True
  then show ?thesis by (simp add: hierarchical_chunk_def)
next
  case False
  have r: "\<exists>cs. recursive_chunk x n (1 / 10) = Some (Inr cs)" if "0 < n" for x n
    using split_by_covers [OF overlap_small [OF max_chars_pos [OF that], of "1 / 10"] subset_refl, of x] that
    by (auto simp: recursive_chunk_def Let_def)
  obtain ps where ps: "recursive_chunk t parent (1 / 10) = Some (Inr ps)" using r [OF assms(2)] by blast
  from traverse_Some [of ps "\<lambda>p. recursive_chunk p child (1 / 10)"] r [OF assms(1)]
  obtain ys where "traverse (\<lambda>p. recursive_chunk p child (1 / 10)) ps = Some (map Inr ys)" by blast
  with False ps show ?thesis by (auto simp: hierarchical_chunk_def)
qed

lemma length_ujoin_snoc: "length (ujoin sep (xs @ [x])) = length (ujoin sep xs) + length x + (if xs = [] then 0 else length sep)"
  by (cases xs) (simp_all add: ujoin_def)

lemma select_chunks_bounded:
  assumes "length (ujoin [10, 10] selected) = used" and "used \<le> max_chars"
  shows "length (ujoin [10, 10] (select_chunks max_chars selected used ps)) \<le> max_chars"
  using assms
proof (induction ps arbitrary: selected used)
  case (Cons p ps)
  have single: "length (ujoin [10, 10] [take max_chars p]) \<le> max_chars" by (simp add: ujoin_def)
  show ?case
  proof (cases "used + length p + (if selected = [] then 0 else 2) > max_chars")
    case True
    with Cons.IH [OF Cons.prems] single show ?thesis by (simp add: Let_def)
  next
    case False
    have "length (ujoin [10, 10] (selected @ [p])) = used + length p + (if selected = [] then 0 else 2)"
      using Cons.prems(1) by (simp add: length_ujoin_snoc)
    with False Cons.IH [of "selected @ [p]" "used + length p + (if selected = [] then 0 else 2)"] show ?thesis by (simp add: Let_def)
  qed
qed simp

lemma estimate_chars: "estimate_chunk_tokens t \<le> m \<Longrightarrow> length t \<le> max_chars_of m"
proof -
  assume "estimate_chunk_tokens t \<le> m"
  then have "of_nat (length t) / (7 / 2 :: rat) \<le> of_int m" by (simp add: estimate_chunk_tokens_def ceiling_le_iff)
  then have "of_nat (length t) * 2 \<le> (of_int (7 * m) :: rat)" by (simp add: field_simps)
  then have "(of_int (int (length t) * 2) :: rat) \<le> of_int (7 * m)" by simp
  then have "int (length t) * 2 \<le> 7 * m" by (simp only: of_int_le_iff)
  then show ?thesis by (simp add: max_chars_of_def)
qed

text \<open>The context chosen from a document returns and fits: for every limit that is not negative the result has at
  most the characters of \<open>max_context_tokens\<close> tokens, separators included, whatever the query; a document within
  the limit comes back whole.\<close>

theorem chunk_context_bounded:
  assumes "0 \<le> max_context_tokens"
  shows "\<exists>r. chunk_for_context lower is_word t query max_context_tokens = Some (Inr r) \<and>
    length r \<le> max_chars_of max_context_tokens \<and>
    (0 < max_context_tokens \<and> estimate_chunk_tokens (ustrip t) \<le> max_context_tokens \<longrightarrow> r = ustrip t)"
proof (cases "max_context_tokens = 0 \<or> ustrip t = [] \<or> estimate_chunk_tokens (ustrip t) \<le> max_context_tokens")
  case True
  with assms estimate_chars show ?thesis by (auto simp: chunk_for_context_def Let_def)
next
  case False
  let ?n = "max_chars_of max_context_tokens"
  obtain hs where hs: "hierarchical_chunk (ustrip t) 256 1024 = Some (Inr hs)" using hierarchical_returns by fastforce
  define ordered where "ordered = map hc_parent (sort_key (\<lambda>hc. - score_parent lower is_word query hc) hs)"
  define chosen where "chosen = select_chunks ?n [] 0 ordered"
  have "length (ujoin [10, 10] chosen) \<le> ?n" unfolding chosen_def by (rule select_chunks_bounded) (simp_all add: ujoin_def)
  moreover have "length (ujoin [10, 10] [take ?n (hd ordered)]) \<le> ?n" by (simp add: ujoin_def)
  moreover have "length (ustrip (take ?n (ustrip t))) \<le> ?n" using length_ustrip [of "take ?n (ustrip t)"] by simp
  moreover have "chunk_for_context lower is_word t query max_context_tokens =
      Some (Inr (if hs = [] then ustrip (take ?n (ustrip t)) else ujoin [10, 10] (if chosen = [] then [take ?n (hd ordered)] else chosen)))"
    using False assms hs by (cases hs) (simp_all add: chunk_for_context_def Let_def ordered_def chosen_def)
  ultimately show ?thesis using False by auto
qed

theorem chunk_context_bounded_witness:
  "\<exists>r. chunk_for_context (\<lambda>t. t) (\<lambda>c. 97 \<le> c \<and> c \<le> 122) (utext ''one two three four'') (utext ''two'') 2 = Some (Inr r) \<and> length r \<le> max_chars_of 2"
  using chunk_context_bounded [of 2 "\<lambda>t. t" "\<lambda>c. 97 \<le> c \<and> c \<le> 122" "utext ''one two three four''" "utext ''two''"] by auto

end
