(* ===== verification/Sliding_Window.thy ===== *)
theory Sliding_Window
  imports Prelude "HOL-Library.Multiset"
begin

text \<open>
  What a rate limit over the last 60 seconds promises its clients, whatever keeps the admissions: a queue in the
  process or a sorted set on a server.
\<close>

text \<open>The times of the admissions of a run.\<close>

fun admissions :: "('s \<Rightarrow> 'e \<Rightarrow> 's \<times> bool) \<Rightarrow> ('e \<Rightarrow> secs) \<Rightarrow> 's \<Rightarrow> 'e list \<Rightarrow> secs list" where
  "admissions consume time_of s [] = []"
| "admissions consume time_of s (e # es) =
    (if snd (consume s e) then [time_of e] else []) @ admissions consume time_of (fst (consume s e)) es"

definition within_minute :: "secs \<Rightarrow> secs \<Rightarrow> bool" where
  "within_minute t x \<longleftrightarrow> t - 60 < x \<and> x \<le> t"

definition window_bounded :: "nat \<Rightarrow> secs multiset \<Rightarrow> bool" where
  "window_bounded n hist \<longleftrightarrow> (\<forall>t. size (filter_mset (within_minute t) hist) \<le> n)"

text \<open>\<open>held\<close> are the times of the admissions a state still knows.\<close>

locale sliding_window =
  fixes consume :: "'s \<Rightarrow> 'e \<Rightarrow> 's \<times> bool"
    and time_of :: "'e \<Rightarrow> secs"
    and held :: "'s \<Rightarrow> secs multiset"
    and limit :: nat
  assumes refused: "\<not> snd (consume s e) \<Longrightarrow> filter_mset (\<lambda>x. time_of e - 60 < x) (held s) \<subseteq># held (fst (consume s e))"
    and admitted: "snd (consume s e) \<Longrightarrow>
      add_mset (time_of e) (filter_mset (\<lambda>x. time_of e - 60 < x) (held s)) \<subseteq># held (fst (consume s e))"
    and bounded: "snd (consume s e) \<Longrightarrow> size (held (fst (consume s e))) \<le> limit"
begin

lemma filter_held:
  assumes "filter_mset (\<lambda>x. now - 60 < x) hist \<subseteq># held s" and "now \<le> t"
  shows "filter_mset (\<lambda>x. t - 60 < x) hist \<subseteq># filter_mset (\<lambda>x. t - 60 < x) (held s)"
proof -
  have "filter_mset (\<lambda>x. t - 60 < x) hist = filter_mset (\<lambda>x. t - 60 < x) (filter_mset (\<lambda>x. now - 60 < x) hist)"
    using assms(2) by (auto simp: filter_filter_mset intro!: filter_mset_cong)
  then show ?thesis using multiset_filter_mono [OF assms(1), of "\<lambda>x. t - 60 < x"] by simp
qed

lemma admit_window:
  assumes "filter_mset (\<lambda>x. t - 60 < x) (add_mset t hist) \<subseteq># hs" and "size hs \<le> limit"
    and "\<forall>x \<in># hist. x \<le> t" and "window_bounded limit hist"
  shows "window_bounded limit (add_mset t hist)"
  unfolding window_bounded_def
proof
  fix u
  show "size (filter_mset (within_minute u) (add_mset t hist)) \<le> limit"
  proof (cases "u < t")
    case True
    then have "filter_mset (within_minute u) (add_mset t hist) = filter_mset (within_minute u) hist" by (simp add: within_minute_def)
    with assms(4) show ?thesis by (simp add: window_bounded_def)
  next
    case False
    then have "filter_mset (within_minute u) (add_mset t hist) \<subseteq># filter_mset (\<lambda>x. t - 60 < x) (add_mset t hist)"
      using assms(3) by (intro filter_mset_mono_strong) (auto simp: within_minute_def)
    then have "filter_mset (within_minute u) (add_mset t hist) \<subseteq># hs" using assms(1) by (rule subset_mset.order_trans)
    from size_mset_mono [OF this] assms(2) show ?thesis by simp
  qed
qed

lemma run_window:
  assumes "filter_mset (\<lambda>x. now - 60 < x) hist \<subseteq># held s" and "\<forall>x \<in># hist. x \<le> now" and "window_bounded limit hist"
    and "sorted (now # map time_of es)"
  shows "window_bounded limit (hist + mset (admissions consume time_of s es))"
  using assms
proof (induction es arbitrary: now hist s)
  case (Cons e es)
  let ?t = "time_of e" and ?s = "fst (consume s e)"
  have le: "now \<le> ?t" and rest: "sorted (?t # map time_of es)" using Cons.prems(4) by simp_all
  have old: "filter_mset (\<lambda>x. ?t - 60 < x) hist \<subseteq># filter_mset (\<lambda>x. ?t - 60 < x) (held s)"
    by (rule filter_held [OF Cons.prems(1) le])
  have past: "\<forall>x \<in># hist. x \<le> ?t" using Cons.prems(2) le by auto
  show ?case
  proof (cases "snd (consume s e)")
    case False
    from subset_mset.order_trans [OF old refused [OF False]] Cons.IH [OF _ past Cons.prems(3) rest] False show ?thesis by simp
  next
    case True
    have new: "filter_mset (\<lambda>x. ?t - 60 < x) (add_mset ?t hist) \<subseteq># held ?s"
      using subset_mset.order_trans [OF _ admitted [OF True]] old by simp
    have "window_bounded limit (add_mset ?t hist)" by (rule admit_window [OF new bounded [OF True] past Cons.prems(3)])
    from Cons.IH [OF new _ this rest] past True show ?thesis by simp
  qed
qed simp

lemma no_burst:
  assumes "sorted (map time_of es)"
  shows "window_bounded limit (mset (admissions consume time_of s es))"
proof (cases es)
  case Nil
  then show ?thesis by (simp add: window_bounded_def)
next
  case (Cons e es')
  with assms have "sorted (time_of e # map time_of es)" by simp
  from run_window [OF _ _ _ this, of "{#}" s] show ?thesis by (simp add: window_bounded_def)
qed

end

end
