(* ===== verification/Ai_Budget.thy ===== *)
theory Ai_Budget
  imports Sliding_Window Json_Values
begin

text \<open>
  The budget for model calls of the games, \<^verbatim>\<open>app/games/ai_budget.py\<close>: requests per minute and model, concurrency per
  scope and provider, and cooldowns after a rate limit.

  \<^item> The window is a queue of times in the process or, with Redis, two sorted sets changed by the Lua script of the
    module; the script is modelled, Redis runs it atomically on its own clock.
  \<^item> Two clocks are read: the wall clock for the local window, the monotonic clock for cooldowns.
  \<^item> \<open>acquire\<close> suspends between the window and the semaphore: \<open>budget_start\<close> and \<open>budget_slot\<close> are its two
    halves, \<open>budget_timeout\<close> the end of a foreground request that waited 0.25 seconds in vain.
\<close>

section \<open>Tables\<close>

datatype scope = Foreground | Background

fun scope_text :: "scope \<Rightarrow> string" where
  "scope_text Foreground = ''foreground''"
| "scope_text Background = ''background''"

definition AI_STUDIO_FOREGROUND_RPM :: "(string, nat) dict" where
  "AI_STUDIO_FOREGROUND_RPM = [(''gemini-3.5-flash'', 4), (''gemini-3.1-flash-lite'', 14)]"

definition AI_STUDIO_BACKGROUND_RPM :: "(string, nat) dict" where
  "AI_STUDIO_BACKGROUND_RPM = [(''gemini-3.1-flash-lite'', 2)]"

definition LOCAL_CONCURRENCY_LIMITS :: "(scope \<times> string, int) dict" where
  "LOCAL_CONCURRENCY_LIMITS =
    [((Foreground, ''ai_studio''), 3), ((Background, ''ai_studio''), 1),
     ((Foreground, ''vertex_express''), 6), ((Background, ''vertex_express''), 1),
     ((Foreground, ''opencode_go''), 4), ((Background, ''opencode_go''), 1),
     ((Foreground, ''openrouter''), 4), ((Background, ''openrouter''), 1)]"

definition normalize_provider :: "string \<Rightarrow> string" where
  "normalize_provider p =
    (let n = lower (strip p) in
     if n \<in> {''vertex'', ''vertex_ai'', ''vertex_express''} then ''vertex_express''
     else if n \<in> {''opencode'', ''opencode_go''} then ''opencode_go''
     else if n = ''openrouter'' then ''openrouter''
     else ''ai_studio'')"

definition rpm_limit :: "scope \<Rightarrow> string \<Rightarrow> string \<Rightarrow> nat option" where
  "rpm_limit sc provider model =
    (if provider \<noteq> ''ai_studio'' then None
     else if sc = Background then Some (case dict_get AI_STUDIO_BACKGROUND_RPM model of Some n \<Rightarrow> n | None \<Rightarrow> 0)
     else Some (case dict_get AI_STUDIO_FOREGROUND_RPM model of Some n \<Rightarrow> n | None \<Rightarrow> 1))"

section \<open>State\<close>

record cooldown =
  cooldown_until :: secs
  cooldown_reason :: string
  last_retry_after :: int

record lease =
  lease_scope :: scope
  lease_provider :: string
  lease_released :: bool

record budget_manager =
  windows :: "(string \<times> string, secs list) dict"
  cooldowns :: "(string \<times> string, cooldown) dict"
  semaphores :: "(scope \<times> string, int \<times> int) dict"
  foreground_active :: int
  waiting :: "(nat, scope \<times> string) dict"
  leases :: "(nat, lease) dict"

section \<open>Windows\<close>

definition window_of :: "budget_manager \<Rightarrow> string \<times> string \<Rightarrow> secs list" where
  "window_of s k = (case dict_get (windows s) k of Some w \<Rightarrow> w | None \<Rightarrow> [])"

definition consume_local :: "secs \<Rightarrow> string \<Rightarrow> string \<Rightarrow> nat \<Rightarrow> budget_manager \<Rightarrow> budget_manager \<times> bool" where
  "consume_local now provider model limit s =
    (let w = dropWhile (\<lambda>x. x \<le> now - 60) (window_of s (provider, model)) in
     if length w \<ge> limit then (s\<lparr>windows := dict_set (windows s) (provider, model) w\<rparr>, False)
     else (s\<lparr>windows := dict_set (windows s) (provider, model) (w @ [now])\<rparr>, True))"

text \<open>The sorted sets of the Lua script, by key.\<close>

type_synonym zsets = "(string, (string, secs) dict) dict"

definition zset :: "zsets \<Rightarrow> string \<Rightarrow> (string, secs) dict" where
  "zset z k = (case dict_get z k of Some d \<Rightarrow> d | None \<Rightarrow> [])"

definition expire_zset :: "secs \<Rightarrow> string \<Rightarrow> zsets \<Rightarrow> zsets" where
  "expire_zset now k z = dict_set z k (filter (\<lambda>e. \<not> snd e \<le> now - 60) (zset z k))"

definition consume_window_lua :: "secs \<Rightarrow> string \<Rightarrow> string \<Rightarrow> string \<Rightarrow> nat \<Rightarrow> zsets \<Rightarrow> zsets \<times> bool" where
  "consume_window_lua now own shared member limit z =
    (let z1 = expire_zset now shared (expire_zset now own z) in
     if dict_has (zset z1 shared) member then (z1, True)
     else if length (zset z1 own) \<ge> limit \<or> length (zset z1 shared) \<ge> limit then (z1, False)
     else
       (let z2 = dict_set z1 own (dict_set (zset z1 own) member now)
        in (dict_set z2 shared (dict_set (zset z2 shared) member now), True)))"

definition scope_key :: "scope \<Rightarrow> string \<Rightarrow> string \<Rightarrow> string" where
  "scope_key sc provider model = ''croc:ai_budget:'' @ scope_text sc @ '':'' @ provider @ '':'' @ model"

definition shared_key :: "string \<Rightarrow> string \<Rightarrow> string" where
  "shared_key provider model = ''croc:ai_budget:shared:'' @ provider @ '':'' @ model"

text \<open>\<open>_try_consume_window\<close>: \<open>reply\<close> is the answer of the script when Redis is configured, \<open>Inl\<close> an exception.\<close>

definition try_consume_window :: "(unit + bool) option \<Rightarrow> secs \<Rightarrow> string \<Rightarrow> string \<Rightarrow> nat \<Rightarrow> budget_manager \<Rightarrow> budget_manager \<times> bool" where
  "try_consume_window reply now provider model limit s =
    (case reply of
       Some (Inr ok) \<Rightarrow> (s, ok)
     | Some (Inl _) \<Rightarrow> (s, False)
     | None \<Rightarrow> consume_local now provider model limit s)"

section \<open>Cooldowns\<close>

definition prune_cooldowns :: "secs \<Rightarrow> budget_manager \<Rightarrow> budget_manager" where
  "prune_cooldowns clk s = s\<lparr>cooldowns := filter (\<lambda>e. \<not> cooldown_until (snd e) \<le> clk) (cooldowns s)\<rparr>"

definition get_cooldown :: "secs \<Rightarrow> string \<Rightarrow> string \<Rightarrow> budget_manager \<Rightarrow> budget_manager \<times> cooldown option" where
  "get_cooldown clk provider model s =
    (let s1 = prune_cooldowns clk s in
     (s1, case dict_get (cooldowns s1) (normalize_provider provider, model) of
            Some c \<Rightarrow> if cooldown_until c > clk then Some c else None
          | None \<Rightarrow> None))"

definition has_any_ai_studio_cooldown :: "secs \<Rightarrow> budget_manager \<Rightarrow> budget_manager \<times> bool" where
  "has_any_ai_studio_cooldown clk s =
    (let s1 = prune_cooldowns clk s in
     (s1, \<exists>e \<in> set (cooldowns s1). fst (fst e) = ''ai_studio'' \<and> cooldown_until (snd e) > clk))"

definition should_pause_background :: "secs \<Rightarrow> budget_manager \<Rightarrow> budget_manager \<times> bool" where
  "should_pause_background clk s =
    (if foreground_active s > 0 then (s, True) else has_any_ai_studio_cooldown clk s)"

definition record_result :: "secs \<Rightarrow> string \<Rightarrow> string \<Rightarrow> string \<Rightarrow> int option \<Rightarrow> string \<Rightarrow> budget_manager \<Rightarrow> budget_manager" where
  "record_result clk provider model outcome retry_after reason s =
    (let p = normalize_provider provider in
     if p \<noteq> ''ai_studio'' then s
     else if outcome = ''success'' then prune_cooldowns clk (s\<lparr>cooldowns := dict_pop (cooldowns s) (p, model)\<rparr>)
     else if outcome \<noteq> ''rate_limit'' then s
     else
       (let wait = max 15 (min (case retry_after of Some n \<Rightarrow> if n = 0 then 60 else n | None \<Rightarrow> 60) 300);
            until = clk + of_int wait;
            new = \<lparr>cooldown_until = until, cooldown_reason = take 500 (if reason = [] then ''rate_limit'' else reason), last_retry_after = wait\<rparr>
        in case dict_get (cooldowns s) (p, model) of
             Some c \<Rightarrow> if cooldown_until c \<ge> until then s else s\<lparr>cooldowns := dict_set (cooldowns s) (p, model) new\<rparr>
           | None \<Rightarrow> s\<lparr>cooldowns := dict_set (cooldowns s) (p, model) new\<rparr>))"

section \<open>Leases\<close>

definition semaphore :: "scope \<times> string \<Rightarrow> budget_manager \<Rightarrow> budget_manager" where
  "semaphore k s =
    (if dict_has (semaphores s) k then s
     else s\<lparr>semaphores := dict_set (semaphores s) k (case dict_get LOCAL_CONCURRENCY_LIMITS k of Some n \<Rightarrow> n | None \<Rightarrow> 1, 0)\<rparr>)"

text \<open>The checks of \<open>acquire\<close> up to the window.\<close>

definition budget_gate :: "(unit + bool) option \<Rightarrow> secs \<Rightarrow> secs \<Rightarrow> scope \<Rightarrow> string \<Rightarrow> string \<Rightarrow> budget_manager \<Rightarrow> budget_manager \<times> bool" where
  "budget_gate reply now clk sc provider model s =
    (let (s1, pause) = (if sc = Background then should_pause_background clk s else (s, False))
     in if pause then (s1, False)
        else
          (let (s2, cool) = (if provider = ''ai_studio'' then get_cooldown clk provider model s1 else (s1, None))
           in if cool \<noteq> None then (s2, False)
              else case rpm_limit sc provider model of
                None \<Rightarrow> (s2, True)
              | Some n \<Rightarrow> if n = 0 then (s2, False) else try_consume_window reply now provider model n s2))"

definition budget_start :: "(unit + bool) option \<Rightarrow> secs \<Rightarrow> secs \<Rightarrow> nat \<Rightarrow> scope \<Rightarrow> string \<Rightarrow> string \<Rightarrow> budget_manager \<Rightarrow> budget_manager \<times> bool" where
  "budget_start reply now clk i sc provider0 model s =
    (if dict_has (waiting s) i \<or> dict_has (leases s) i then (s, False)
     else
       (let provider = normalize_provider provider0;
            (s1, ok) = budget_gate reply now clk sc provider model s
        in if ok then ((semaphore (sc, provider) s1)\<lparr>waiting := dict_set (waiting s1) i (sc, provider)\<rparr>, True) else (s1, False)))"

definition budget_slot :: "nat \<Rightarrow> budget_manager \<Rightarrow> budget_manager" where
  "budget_slot i s =
    (case dict_get (waiting s) i of
       None \<Rightarrow> s
     | Some k \<Rightarrow>
        (case dict_get (semaphores s) k of
           None \<Rightarrow> s
         | Some (limit, used) \<Rightarrow>
            (if used < limit
             then s\<lparr>waiting := dict_pop (waiting s) i, semaphores := dict_set (semaphores s) k (limit, used + 1),
                    foreground_active := foreground_active s + (if fst k = Foreground then 1 else 0),
                    leases := dict_set (leases s) i \<lparr>lease_scope = fst k, lease_provider = snd k, lease_released = False\<rparr>\<rparr>
             else if fst k = Background then s\<lparr>waiting := dict_pop (waiting s) i\<rparr>
             else s)))"

definition budget_timeout :: "nat \<Rightarrow> budget_manager \<Rightarrow> budget_manager" where
  "budget_timeout i s = s\<lparr>waiting := dict_pop (waiting s) i\<rparr>"

definition manager_release :: "scope \<Rightarrow> budget_manager \<Rightarrow> budget_manager" where
  "manager_release sc s =
    (if sc = Foreground \<and> foreground_active s > 0 then s\<lparr>foreground_active := foreground_active s - 1\<rparr> else s)"

definition lease_release :: "nat \<Rightarrow> budget_manager \<Rightarrow> budget_manager" where
  "lease_release i s =
    (case dict_get (leases s) i of
       None \<Rightarrow> s
     | Some l \<Rightarrow>
        (if lease_released l then s
         else
           (let k = (lease_scope l, lease_provider l);
                s1 = s\<lparr>leases := dict_set (leases s) i (l\<lparr>lease_released := True\<rparr>),
                       semaphores := (case dict_get (semaphores s) k of
                          Some (limit, used) \<Rightarrow> dict_set (semaphores s) k (limit, used - 1) | None \<Rightarrow> semaphores s)\<rparr>
            in manager_release (lease_scope l) s1)))"

section \<open>Runs\<close>

text \<open>Every operation carries the wall clock at which it runs.\<close>

datatype budget_op =
  BStart "(unit + bool) option" secs nat scope string string
  | BSlot nat
  | BTimeout nat
  | BRelease nat
  | BResult secs string string string "int option" string

fun budget_step :: "budget_manager \<Rightarrow> secs \<times> budget_op \<Rightarrow> budget_manager" where
  "budget_step s (now, BStart reply clk i sc p m) = fst (budget_start reply now clk i sc p m s)"
| "budget_step s (now, BSlot i) = budget_slot i s"
| "budget_step s (now, BTimeout i) = budget_timeout i s"
| "budget_step s (now, BRelease i) = lease_release i s"
| "budget_step s (now, BResult clk p m outcome retry reason) = record_result clk p m outcome retry reason s"

text \<open>The requests that spend a place of the local window of a model.\<close>

fun spends :: "string \<Rightarrow> budget_manager \<Rightarrow> secs \<times> budget_op \<Rightarrow> bool" where
  "spends model s (now, BStart reply clk i sc p m) =
    (snd (budget_start reply now clk i sc p m s) \<and> reply = None \<and> normalize_provider p = ''ai_studio'' \<and> m = model)"
| "spends model s (now, _) = False"

definition budget_consume :: "string \<Rightarrow> budget_manager \<Rightarrow> secs \<times> budget_op \<Rightarrow> budget_manager \<times> bool" where
  "budget_consume model s e = (budget_step s e, spends model s e)"

definition foreground_limit :: "string \<Rightarrow> nat" where
  "foreground_limit model = the (rpm_limit Foreground ''ai_studio'' model)"

lemma rpm_limit_le: "rpm_limit sc ''ai_studio'' model = Some n \<Longrightarrow> n \<le> foreground_limit model"
  by (cases sc) (auto simp: rpm_limit_def foreground_limit_def AI_STUDIO_BACKGROUND_RPM_def AI_STUDIO_FOREGROUND_RPM_def split: if_splits)

section \<open>The window\<close>

lemma pruned_windows [simp]:
  "windows (prune_cooldowns clk s) = windows s" "windows (fst (get_cooldown clk p m s)) = windows s"
  "windows (fst (should_pause_background clk s)) = windows s"
  by (simp_all add: prune_cooldowns_def get_cooldown_def should_pause_background_def has_any_ai_studio_cooldown_def Let_def)

lemma gate_windows:
  "windows (fst (budget_gate reply now clk sc p m s)) = windows s \<and> \<not> (snd (budget_gate reply now clk sc p m s) \<and> reply = None \<and> p = ''ai_studio'') \<or>
   (\<exists>n s2. rpm_limit sc p m = Some n \<and> windows s2 = windows s \<and> budget_gate reply now clk sc p m s = consume_local now p m n s2)"
proof -
  define r1 where "r1 = (if sc = Background then should_pause_background clk s else (s, False))"
  define r2 where "r2 = (if p = ''ai_studio'' then get_cooldown clk p m (fst r1) else (fst r1, None))"
  have w: "windows (fst r1) = windows s" "windows (fst r2) = windows s" by (simp_all add: r1_def r2_def)
  have eq: "budget_gate reply now clk sc p m s =
      (if snd r1 then (fst r1, False) else if snd r2 \<noteq> None then (fst r2, False)
       else case rpm_limit sc p m of None \<Rightarrow> (fst r2, True)
         | Some n \<Rightarrow> if n = 0 then (fst r2, False) else try_consume_window reply now p m n (fst r2))"
    by (simp add: budget_gate_def r1_def [symmetric] r2_def [symmetric] case_prod_beta Let_def)
  have "p = ''ai_studio'' \<Longrightarrow> rpm_limit sc p m \<noteq> None" by (simp add: rpm_limit_def)
  then show ?thesis unfolding eq using w
    by (auto simp: try_consume_window_def split: option.split sum.split)
qed

lemma window_of_cong: "windows s = windows s' \<Longrightarrow> window_of s = window_of s'"
  by (simp add: window_of_def fun_eq_iff)

lemma step_windows:
  assumes "\<And>reply clk i sc p m. op1 \<noteq> BStart reply clk i sc p m"
  shows "windows (budget_step s (now, op1)) = windows s"
proof (cases op1)
  case (BStart reply clk i sc p m)
  with assms show ?thesis by blast
qed (auto simp: budget_slot_def budget_timeout_def lease_release_def manager_release_def record_result_def prune_cooldowns_def Let_def
    split: option.split)

text \<open>What one request does to the window of a model.\<close>

lemma start_window:
  fixes s model reply now clk i sc p m
  defines "s' \<equiv> fst (budget_start reply now clk i sc p m s)"
  shows "window_of s' (''ai_studio'', model) = window_of s (''ai_studio'', model) \<and> \<not> spends model s (now, BStart reply clk i sc p m) \<or>
    (\<exists>n \<le> foreground_limit model. let w = dropWhile (\<lambda>x. x \<le> now - 60) (window_of s (''ai_studio'', model)) in
      if length w \<ge> n then window_of s' (''ai_studio'', model) = w \<and> \<not> spends model s (now, BStart reply clk i sc p m)
      else window_of s' (''ai_studio'', model) = w @ [now])"
proof (cases "dict_has (waiting s) i \<or> dict_has (leases s) i")
  case True
  then show ?thesis by (auto simp: s'_def budget_start_def)
next
  case False
  let ?p = "normalize_provider p"
  obtain s1 ok where g: "budget_gate reply now clk sc ?p m s = (s1, ok)" by fastforce
  have sem: "windows (semaphore k t) = windows t" for k t by (simp add: semaphore_def)
  have w': "windows s' = windows s1" using False g by (simp add: s'_def budget_start_def Let_def sem)
  have sp: "spends model s (now, BStart reply clk i sc p m) \<longleftrightarrow> ok \<and> reply = None \<and> ?p = ''ai_studio'' \<and> m = model"
    using False g by (simp add: budget_start_def Let_def)
  from gate_windows [of reply now clk sc ?p m s] consider
    (same) "windows s1 = windows s" "\<not> (ok \<and> reply = None \<and> ?p = ''ai_studio'')"
    | (spent) n s2 where "rpm_limit sc ?p m = Some n" "windows s2 = windows s" "(s1, ok) = consume_local now ?p m n s2"
    unfolding g by auto
  then show ?thesis
  proof cases
    case same
    with w' sp show ?thesis by (auto simp: window_of_def)
  next
    case (spent n s2)
    have ai: "?p = ''ai_studio''" using spent(1) by (auto simp: rpm_limit_def split: if_splits)
    show ?thesis
    proof (cases "m = model")
      case False
      with spent w' sp ai show ?thesis by (auto simp: consume_local_def Let_def window_of_def split: if_splits)
    next
      case True
      have le: "n \<le> foreground_limit model" using rpm_limit_le spent(1) ai True by simp
      have "window_of s2 = window_of s" using spent(2) by (rule window_of_cong)
      with le spent(3) w' sp ai True show ?thesis
        by (intro disjI2 exI [of _ n]) (auto simp: consume_local_def Let_def window_of_def split: if_splits)
    qed
  qed
qed

lemma filter_dropWhile: "filter (\<lambda>x. t < x) (dropWhile (\<lambda>x. x \<le> t) w) = filter (\<lambda>x. t < (x :: secs)) w"
  by (induction w) auto

interpretation bw: sliding_window "budget_consume model" fst "\<lambda>s. mset (window_of s (''ai_studio'', model))" "foreground_limit model"
  for model
proof
  fix s :: budget_manager and e :: "secs \<times> budget_op"
  obtain now op1 where e: "e = (now, op1)" by (cases e)
  let ?w = "window_of s (''ai_studio'', model)" and ?w' = "window_of (budget_step s e) (''ai_studio'', model)"
  let ?d = "dropWhile (\<lambda>x. x \<le> now - 60) ?w"
  have cases: "?w' = ?w \<and> \<not> spends model s e \<or> ?w' = ?d \<and> \<not> spends model s e \<or> ?w' = ?d @ [now] \<and> length ?d < foreground_limit model"
  proof (cases "\<exists>reply clk i sc p m. op1 = BStart reply clk i sc p m")
    case True
    then obtain reply clk i sc p m where o: "op1 = BStart reply clk i sc p m" by blast
    from start_window [of reply now clk i sc p m s model] show ?thesis
      unfolding e o budget_step.simps Let_def by (auto split: if_splits)
  next
    case False
    then have "windows (budget_step s e) = windows s" unfolding e by (intro step_windows) blast
    moreover have "\<not> spends model s e" using False by (cases op1) (auto simp: e)
    ultimately show ?thesis by (simp add: window_of_def)
  qed
  have d: "filter_mset (\<lambda>x. now - 60 < x) (mset ?w) \<subseteq># mset ?d"
    by (metis filter_dropWhile mset_filter multiset_filter_subset)
  show "filter_mset (\<lambda>x. fst e - 60 < x) (mset ?w) \<subseteq># mset (window_of (fst (budget_consume model s e)) (''ai_studio'', model))"
    if "\<not> snd (budget_consume model s e)"
    using cases d by (auto simp: budget_consume_def e intro: subset_mset.order_trans)
  show "add_mset (fst e) (filter_mset (\<lambda>x. fst e - 60 < x) (mset ?w)) \<subseteq># mset (window_of (fst (budget_consume model s e)) (''ai_studio'', model))"
    if "snd (budget_consume model s e)"
    using cases d that by (auto simp: budget_consume_def e)
  show "size (mset (window_of (fst (budget_consume model s e)) (''ai_studio'', model))) \<le> foreground_limit model"
    if "snd (budget_consume model s e)"
    using cases that by (auto simp: budget_consume_def)
qed

section \<open>The window on Redis\<close>

text \<open>One call of the script for a model: the server's clock, the scope and the receipt. The call spends a place when the
  receipt was not there before.\<close>

definition redis_consume :: "string \<Rightarrow> zsets \<Rightarrow> secs \<times> scope \<times> string \<Rightarrow> zsets \<times> bool" where
  "redis_consume model z e =
    (let shared = shared_key ''ai_studio'' model;
         r = consume_window_lua (fst e) (scope_key (fst (snd e)) ''ai_studio'' model) shared (snd (snd e))
               (the (rpm_limit (fst (snd e)) ''ai_studio'' model)) z
     in (fst r, snd r \<and> \<not> dict_has (zset (expire_zset (fst e) shared z) shared) (snd (snd e))))"

lemma scope_key_shared: "scope_key sc p m \<noteq> shared_key p' m'"
  by (cases sc) (simp_all add: scope_key_def shared_key_def)

lemma zset_set [simp]: "zset (dict_set z k d) k' = (if k' = k then d else zset z k')"
  by (simp add: zset_def)

interpretation rw: sliding_window "redis_consume model" fst "\<lambda>z. image_mset snd (mset (zset z (shared_key ''ai_studio'' model)))" "foreground_limit model"
  for model
proof
  fix z :: zsets and e :: "secs \<times> scope \<times> string"
  obtain now sc member where e: "e = (now, sc, member)" by (cases e)
  let ?k = "shared_key ''ai_studio'' model" and ?own = "scope_key sc ''ai_studio'' model" and ?n = "the (rpm_limit sc ''ai_studio'' model)"
  let ?live = "filter (\<lambda>e. \<not> snd e \<le> now - 60) (zset z ?k)"
  have ne: "?own \<noteq> ?k" "?k \<noteq> ?own" using scope_key_shared by metis+
  have live: "zset (expire_zset now ?k (expire_zset now ?own z)) ?k = ?live" "zset (expire_zset now ?k z) ?k = ?live"
    using ne by (simp_all add: expire_zset_def)
  have le: "?n \<le> foreground_limit model"
    by (rule rpm_limit_le [of sc]) (simp add: rpm_limit_def)
  have filt: "filter_mset (\<lambda>x. now - 60 < x) (image_mset snd (mset (zset z ?k))) = image_mset snd (mset ?live)"
    by (simp add: filter_mset_image_mset not_le)
  have cases: "zset (fst (redis_consume model z e)) ?k = ?live \<and> \<not> snd (redis_consume model z e) \<or>
      (zset (fst (redis_consume model z e)) ?k = ?live @ [(member, now)] \<and> length ?live < ?n)"
  proof (cases "dict_has ?live member")
    case True
    then show ?thesis using live by (simp add: redis_consume_def consume_window_lua_def e Let_def)
  next
    case False
    then have "dict_set ?live member now = ?live @ [(member, now)]"
      by (intro dict_keys_set_new) (simp add: dict_has_def set_dict_keys_iff)
    with False live ne show ?thesis by (auto simp: redis_consume_def consume_window_lua_def e Let_def)
  qed
  show "filter_mset (\<lambda>x. fst e - 60 < x) (image_mset snd (mset (zset z ?k))) \<subseteq># image_mset snd (mset (zset (fst (redis_consume model z e)) ?k))"
    using cases filt by (auto simp: e)
  show "add_mset (fst e) (filter_mset (\<lambda>x. fst e - 60 < x) (image_mset snd (mset (zset z ?k)))) \<subseteq>#
      image_mset snd (mset (zset (fst (redis_consume model z e)) ?k))" if "snd (redis_consume model z e)"
    using cases filt that by (auto simp: e)
  show "size (image_mset snd (mset (zset (fst (redis_consume model z e)) ?k))) \<le> foreground_limit model" if "snd (redis_consume model z e)"
  proof -
    have "length (zset (fst (redis_consume model z e)) ?k) \<le> foreground_limit model" using cases that le by auto
    then show ?thesis by simp
  qed
qed

section \<open>Concurrency\<close>

definition active :: "scope \<times> string \<Rightarrow> budget_manager \<Rightarrow> int" where
  "active k s = dict_sum (\<lambda>l. of_bool (\<not> lease_released l \<and> (lease_scope l, lease_provider l) = k)) (leases s)"

definition active_foreground :: "budget_manager \<Rightarrow> int" where
  "active_foreground s = dict_sum (\<lambda>l. of_bool (\<not> lease_released l \<and> lease_scope l = Foreground)) (leases s)"

definition budget_inv :: "budget_manager \<Rightarrow> bool" where
  "budget_inv s \<longleftrightarrow>
    (\<forall>k lim used. dict_get (semaphores s) k = Some (lim, used) \<longrightarrow> used = active k s \<and> used \<le> lim) \<and>
    (\<forall>k. dict_get (semaphores s) k = None \<longrightarrow> active k s = 0) \<and>
    (\<forall>i. dict_has (waiting s) i \<longrightarrow> \<not> dict_has (leases s) i) \<and>
    foreground_active s = active_foreground s"

lemma active_set:
  "dict_sum (\<lambda>l. of_bool (\<not> lease_released l \<and> (lease_scope l, lease_provider l) = k)) (dict_set (leases s) i l) =
    active k s - (case dict_get (leases s) i of None \<Rightarrow> 0 | Some l \<Rightarrow> of_bool (\<not> lease_released l \<and> (lease_scope l, lease_provider l) = k)) +
    of_bool (\<not> lease_released l \<and> (lease_scope l, lease_provider l) = k)"
  "dict_sum (\<lambda>l. of_bool (\<not> lease_released l \<and> lease_scope l = Foreground)) (dict_set (leases s) i l) =
    active_foreground s - (case dict_get (leases s) i of None \<Rightarrow> 0 | Some l \<Rightarrow> of_bool (\<not> lease_released l \<and> lease_scope l = Foreground)) +
    of_bool (\<not> lease_released l \<and> lease_scope l = Foreground)"
  by (auto simp: active_def active_foreground_def dict_sum_set_new dict_sum_set_present split: option.split)

lemma active_nonneg: "0 \<le> active k s" "0 \<le> active_foreground s"
  by (auto simp: active_def active_foreground_def intro: dict_sum_nonneg)

definition lease_part :: "budget_manager \<Rightarrow> (scope \<times> string, int \<times> int) dict \<times> int \<times> (nat, scope \<times> string) dict \<times> (nat, lease) dict" where
  "lease_part s = (semaphores s, foreground_active s, waiting s, leases s)"

lemma budget_inv_cong: "lease_part s = lease_part s' \<Longrightarrow> budget_inv s = budget_inv s'"
  by (simp add: lease_part_def budget_inv_def active_def active_foreground_def)

lemma lease_part_same [simp]:
  "lease_part (s\<lparr>windows := w\<rparr>) = lease_part s" "lease_part (s\<lparr>cooldowns := c\<rparr>) = lease_part s"
  "lease_part (prune_cooldowns clk s) = lease_part s" "lease_part (fst (get_cooldown clk p m s)) = lease_part s"
  "lease_part (fst (should_pause_background clk s)) = lease_part s" "lease_part (record_result clk p m outcome retry reason s) = lease_part s"
  by (auto simp: lease_part_def prune_cooldowns_def get_cooldown_def should_pause_background_def has_any_ai_studio_cooldown_def
      record_result_def Let_def split: option.split)

lemma gate_lease_part: "lease_part (fst (budget_gate reply now clk sc p m s)) = lease_part s"
proof -
  have "lease_part (fst (try_consume_window reply now p m n t)) = lease_part t" for n t
    by (auto simp: try_consume_window_def consume_local_def Let_def split: option.split sum.split)
  then show ?thesis by (auto simp: budget_gate_def case_prod_beta Let_def split: option.split)
qed

lemma budget_inv_none: "budget_inv s \<Longrightarrow> dict_get (semaphores s) k = None \<Longrightarrow> active k s = 0"
  unfolding budget_inv_def by blast

lemma budget_inv_some: "budget_inv s \<Longrightarrow> dict_get (semaphores s) k = Some (most, used) \<Longrightarrow> used = active k s \<and> used \<le> most"
  unfolding budget_inv_def by blast

lemma active_leases: "leases s' = leases s \<Longrightarrow> active k s' = active k s" "leases s' = leases s \<Longrightarrow> active_foreground s' = active_foreground s"
  by (simp_all add: active_def active_foreground_def)

lemma semaphore_inv:
  assumes inv: "budget_inv s"
  shows "budget_inv (semaphore k s)"
proof (cases "dict_get (semaphores s) k")
  case None
  define n where "n = (case dict_get LOCAL_CONCURRENCY_LIMITS k of Some n \<Rightarrow> n | None \<Rightarrow> 1)"
  have pos: "0 \<le> n" by (auto simp: n_def LOCAL_CONCURRENCY_LIMITS_def split: if_splits)
  let ?s = "s\<lparr>semaphores := dict_set (semaphores s) k (n, 0)\<rparr>"
  have "semaphore k s = ?s" using None by (simp add: semaphore_def dict_has_def n_def)
  moreover have "active k' ?s = active k' s" "active_foreground ?s = active_foreground s" for k'
    by (rule active_leases; simp)+
  then have "budget_inv ?s"
    using inv pos budget_inv_none [OF inv None] unfolding budget_inv_def by simp
  ultimately show ?thesis by simp
next
  case (Some v)
  with inv show ?thesis by (simp add: semaphore_def dict_has_def)
qed

lemma start_inv:
  assumes inv: "budget_inv s"
  shows "budget_inv (fst (budget_start reply now clk i sc p m s))"
proof (cases "dict_has (waiting s) i \<or> dict_has (leases s) i")
  case True
  with inv show ?thesis by (auto simp: budget_start_def)
next
  case False
  let ?p = "normalize_provider p"
  obtain s1 ok where g: "budget_gate reply now clk sc ?p m s = (s1, ok)" by fastforce
  have part: "lease_part s1 = lease_part s" using gate_lease_part [of reply now clk sc ?p m s] g by simp
  then have inv1: "budget_inv s1" using inv budget_inv_cong by blast
  have fresh: "\<not> dict_has (leases s1) i" using False part by (simp add: lease_part_def)
  have "budget_inv (semaphore (sc, ?p) s1)" by (rule semaphore_inv [OF inv1])
  moreover have "waiting (semaphore (sc, ?p) s1) = waiting s1" "leases (semaphore (sc, ?p) s1) = leases s1" by (simp_all add: semaphore_def)
  ultimately have "budget_inv ((semaphore (sc, ?p) s1)\<lparr>waiting := dict_set (waiting s1) i (sc, ?p)\<rparr>)"
    using fresh by (auto simp: budget_inv_def active_def active_foreground_def dict_has_def)
  with False g inv1 show ?thesis by (simp add: budget_start_def Let_def)
qed

lemma slot_inv_budget:
  assumes inv: "budget_inv s"
  shows "budget_inv (budget_slot i s)"
proof (cases "dict_get (waiting s) i")
  case None
  with inv show ?thesis by (simp add: budget_slot_def)
next
  case (Some k)
  then have fresh: "dict_get (leases s) i = None" using inv by (auto simp: budget_inv_def dict_has_def)
  have drop: "budget_inv (s\<lparr>waiting := dict_pop (waiting s) i\<rparr>)"
    using inv by (auto simp: budget_inv_def active_def active_foreground_def dict_has_def)
  show ?thesis
  proof (cases "dict_get (semaphores s) k")
    case None
    with Some inv show ?thesis by (simp add: budget_slot_def)
  next
    case sem: (Some v)
    obtain lim used where v: "v = (lim, used)" by (cases v)
    let ?l = "\<lparr>lease_scope = fst k, lease_provider = snd k, lease_released = False\<rparr>"
    let ?s = "s\<lparr>waiting := dict_pop (waiting s) i, semaphores := dict_set (semaphores s) k (lim, used + 1),
        foreground_active := foreground_active s + (if fst k = Foreground then 1 else 0), leases := dict_set (leases s) i ?l\<rparr>"
    have act: "active k' ?s = active k' s + of_bool (k' = k)" for k'
      using active_set(1) [of k' s i ?l] fresh by (cases k) (auto simp: active_def)
    have fg: "active_foreground ?s = active_foreground s + of_bool (fst k = Foreground)"
      using active_set(2) [of s i ?l] fresh by (simp add: active_foreground_def)
    have "budget_inv ?s" if "used < lim"
      using inv sem that unfolding v budget_inv_def act fg by (auto simp: dict_has_def)
    with Some sem v drop inv show ?thesis by (auto simp: budget_slot_def)
  qed
qed

lemma release_inv:
  assumes inv: "budget_inv s"
  shows "budget_inv (lease_release i s)"
proof (cases "\<exists>l. dict_get (leases s) i = Some l \<and> \<not> lease_released l")
  case False
  then have "lease_release i s = s" by (auto simp: lease_release_def split: option.split)
  with inv show ?thesis by simp
next
  case True
  then obtain l where l: "dict_get (leases s) i = Some l" "\<not> lease_released l" by blast
  define k where "k = (lease_scope l, lease_provider l)"
  let ?l = "l\<lparr>lease_released := True\<rparr>"
  have less: "dict_sum (\<lambda>l. of_bool (\<not> lease_released l \<and> (lease_scope l, lease_provider l) = k')) (dict_set (leases s) i ?l) =
      active k' s - of_bool (k' = k)" for k'
    using active_set(1) [of k' s i ?l] l by (auto simp: k_def)
  have fg: "dict_sum (\<lambda>l. of_bool (\<not> lease_released l \<and> lease_scope l = Foreground)) (dict_set (leases s) i ?l) =
      active_foreground s - of_bool (fst k = Foreground)"
    using active_set(2) [of s i ?l] l by (auto simp: k_def)
  have one: "1 \<le> active k s" using less [of k] active_nonneg(1) [of k "s\<lparr>leases := dict_set (leases s) i ?l\<rparr>"] by (simp add: active_def)
  have onef: "fst k = Foreground \<Longrightarrow> 1 \<le> active_foreground s"
    using fg active_nonneg(2) [of "s\<lparr>leases := dict_set (leases s) i ?l\<rparr>"] by (simp add: active_foreground_def)
  obtain lim used where sem: "dict_get (semaphores s) k = Some (lim, used)"
    using one budget_inv_none [OF inv, of k] by (cases "dict_get (semaphores s) k") auto
  have fa: "foreground_active s = active_foreground s" using inv by (simp add: budget_inv_def)
  let ?s = "s\<lparr>leases := dict_set (leases s) i ?l, semaphores := dict_set (semaphores s) k (lim, used - 1),
      foreground_active := foreground_active s - of_bool (fst k = Foreground)\<rparr>"
  have act: "active k' ?s = active k' s - of_bool (k' = k)" "active_foreground ?s = active_foreground s - of_bool (fst k = Foreground)" for k'
    using less [of k'] fg by (simp_all add: active_def active_foreground_def)
  have "budget_inv ?s" unfolding budget_inv_def act
  proof (intro conjI allI impI)
    fix k' m u
    assume "dict_get (semaphores ?s) k' = Some (m, u)"
    then show "u = active k' s - of_bool (k' = k)" "u \<le> m"
      using budget_inv_some [OF inv sem] budget_inv_some [OF inv, of k' m u] by (auto split: if_splits)
  next
    fix k'
    assume "dict_get (semaphores ?s) k' = None"
    then show "active k' s - of_bool (k' = k) = 0" using budget_inv_none [OF inv, of k'] by (auto split: if_splits)
  next
    fix j
    assume "dict_has (waiting ?s) j"
    then show "\<not> dict_has (leases ?s) j" using inv l by (auto simp: budget_inv_def dict_has_def)
  qed (use fa in simp)
  moreover have "lease_release i s = ?s"
    using l sem onef fa by (cases s) (auto simp: lease_release_def manager_release_def Let_def k_def)
  ultimately show ?thesis by simp
qed

lemma budget_step_inv: "budget_inv s \<Longrightarrow> budget_inv (budget_step s e)"
proof -
  assume inv: "budget_inv s"
  obtain now op1 where e: "e = (now, op1)" by (cases e)
  have "budget_inv (budget_timeout i s)" for i
    using inv by (auto simp: budget_timeout_def budget_inv_def active_def active_foreground_def dict_has_def)
  moreover have "budget_inv (record_result clk p m outcome retry reason s)" for clk p m outcome retry reason
    using inv budget_inv_cong lease_part_same(6) by blast
  ultimately show ?thesis using inv by (cases op1) (simp_all add: e start_inv slot_inv_budget release_inv)
qed

interpretation bi: invariant_run budget_step budget_inv
  by unfold_locales (rule budget_step_inv)

section \<open>The limits\<close>

definition initial_manager :: budget_manager where
  "initial_manager = \<lparr>windows = [], cooldowns = [], semaphores = [], foreground_active = 0, waiting = [], leases = []\<rparr>"

lemma initial_manager_inv: "budget_inv initial_manager"
  by (simp add: initial_manager_def budget_inv_def active_def active_foreground_def dict_sum_def dict_has_def)

text \<open>
  Property C34. Whatever tasks do, in any interleaving from a new manager: (1) while the clock does not run backwards, no
  window of 60 seconds holds more admitted AI Studio requests of a model than the foreground limit of that model, both
  scopes together; (2) the same holds of the Redis script and the server's clock, whatever the sorted sets held before;
  (3) a semaphore's count is the number of leases of its scope and provider that were not released and stays within the
  limit, and the count of foreground work that pauses the background is the number of foreground leases not released.
\<close>

theorem ai_budget_limits:
  fixes es calls model k limit used z
  defines "s \<equiv> foldl budget_step initial_manager es"
  assumes "sorted (map fst es)" and "sorted (map fst calls)" and "dict_get (semaphores s) k = Some (limit, used)"
  shows "window_bounded (foreground_limit model) (mset (admissions (budget_consume model) fst initial_manager es)) \<and>
    window_bounded (foreground_limit model) (mset (admissions (redis_consume model) fst z calls)) \<and>
    used = active k s \<and> used \<le> limit \<and> foreground_active s = active_foreground s"
proof -
  have inv: "budget_inv s" unfolding s_def by (rule bi.run_invar [OF initial_manager_inv])
  show ?thesis
    using bw.no_burst [OF assms(2)] rw.no_burst [OF assms(3)] budget_inv_some [OF inv assms(4)] inv
    by (simp add: budget_inv_def)
qed

text \<open>Two foreground requests of a model with one request per minute: the second waits for the first to be 60 seconds old.\<close>

definition example_budget_run :: "(secs \<times> budget_op) list" where
  "example_budget_run =
    [(0, BStart None 0 1 Foreground ''ai_studio'' ''m''), (0, BSlot 1), (30, BStart None 30 2 Foreground ''ai_studio'' ''m''),
     (60, BStart None 60 3 Foreground ''ai_studio'' ''m''), (60, BSlot 3), (61, BRelease 1)]"

theorem ai_budget_limits_witness:
  "dict_get (semaphores (foldl budget_step initial_manager example_budget_run)) (Foreground, ''ai_studio'') = Some (3, 1) \<and>
    admissions (budget_consume ''m'') fst initial_manager example_budget_run = [0, 60] \<and>
    window_bounded 1 (mset (admissions (budget_consume ''m'') fst initial_manager example_budget_run)) \<and>
    window_bounded 1 (mset (admissions (redis_consume ''m'') fst [] [(0, Foreground, ''a''), (1, Foreground, ''b'')])) \<and>
    active (Foreground, ''ai_studio'') (foldl budget_step initial_manager example_budget_run) = 1"
proof -
  have s: "dict_get (semaphores (foldl budget_step initial_manager example_budget_run)) (Foreground, ''ai_studio'') = Some (3, 1)"
    by code_simp
  have a: "admissions (budget_consume ''m'') fst initial_manager example_budget_run = [0, 60]" by code_simp
  have f: "foreground_limit ''m'' = 1" by code_simp
  have o: "sorted (map fst example_budget_run)" by code_simp
  from ai_budget_limits [OF o _ s, where calls = "[(0, Foreground, ''a''), (1, Foreground, ''b'')]" and model = "''m''" and z = "[]"]
  show ?thesis using s a f by simp
qed

end
