(* ===== verification/Resilience.thy ===== *)
theory Resilience
  imports Breaker Json_Values
begin

text \<open>
  Calls of external services: \<^verbatim>\<open>app/resilience_policy.py\<close>, which repeats a failed call, each attempt through the circuit
  breaker of \<open>Breaker\<close>, and \<^verbatim>\<open>app/degradation.py\<close>, which reads the registry of the breakers.

  \<^item> An attempt suspends before its admission and while the operation runs: \<open>attempt_env\<close> gives the critical sections of
    other calls of the same breaker in the two gaps (\<open>others_before\<close>, \<open>others_during\<close>), the time the operation would
    take, how it would end, and the draw of \<open>random.random\<close>.
  \<^item> The text of an exception is ASCII; one reading of the clock stands for the three of a refusal.
  \<^item> Waiting for the breaker's lock and for the cleanup of a cancelled operation takes no time here.
\<close>

section \<open>Errors\<close>

datatype exc =
  HTTPStatusError int string
  | TimeoutError string
  | ConnectionError string
  | TimeoutException string
  | NetworkError string
  | RemoteProtocolError string
  | CircuitBreakerOpenError string
  | RuntimeError string
  | OtherError string

fun exc_text :: "exc \<Rightarrow> string" where
  "exc_text (HTTPStatusError code t) = t"
| "exc_text (TimeoutError t) = t"
| "exc_text (ConnectionError t) = t"
| "exc_text (TimeoutException t) = t"
| "exc_text (NetworkError t) = t"
| "exc_text (RemoteProtocolError t) = t"
| "exc_text (CircuitBreakerOpenError t) = t"
| "exc_text (RuntimeError t) = t"
| "exc_text (OtherError t) = t"

fun has_token :: "string \<Rightarrow> string \<Rightarrow> bool" where
  "has_token p [] = (p = [])"
| "has_token p (c # t) = (take (length p) (c # t) = p \<or> has_token p t)"

definition is_transient_error :: "string \<Rightarrow> bool" where
  "is_transient_error t =
    list_ex (\<lambda>p. has_token p (lower t))
      [''503'', ''unavailable'', ''overloaded'', ''rate limit'', ''timeout'', ''connection'', ''temporarily'']"

definition RETRYABLE_HTTP_STATUSES :: "int list" where
  "RETRYABLE_HTTP_STATUSES = [408, 429, 500, 502, 503, 504]"

fun is_retryable_exception :: "exc \<Rightarrow> bool" where
  "is_retryable_exception (HTTPStatusError code t) = (code \<in> set RETRYABLE_HTTP_STATUSES)"
| "is_retryable_exception (TimeoutError t) = True"
| "is_retryable_exception (ConnectionError t) = True"
| "is_retryable_exception (TimeoutException t) = True"
| "is_retryable_exception (NetworkError t) = True"
| "is_retryable_exception (RemoteProtocolError t) = True"
| "is_retryable_exception e = is_transient_error (exc_text e)"

text \<open>The text of a refusal, with \<open>:.1f\<close> as rounding half to even.\<close>

definition half_even :: "rat \<Rightarrow> int" where
  "half_even x =
    (let f = floor x; r = x - of_int f in if r < 1 / 2 then f else if r > 1 / 2 then f + 1 else if even f then f else f + 1)"

definition fixed_one :: "rat \<Rightarrow> string" where
  "fixed_one x =
    (let n = nat (half_even (10 * abs x)) in (if x < 0 then ''-'' else []) @ show_nat (n div 10) @ ''.'' @ show_nat (n mod 10))"

definition refusal :: "string \<Rightarrow> breaker_config \<Rightarrow> secs \<Rightarrow> breaker \<Rightarrow> open_error \<Rightarrow> exc" where
  "refusal name cfg now b err =
    CircuitBreakerOpenError (''Circuit Breaker '' @ [CHR 0x27] @ name @ [CHR 0x27] @
      (case err of
         ProbeInFlight \<Rightarrow> '' is HALF_OPEN and probe already in flight.''
       | StillOpen \<Rightarrow> '' is OPEN. Last failure: '' @ fixed_one (now - last_failure_time b) @ ''s ago. Reset in: '' @
           fixed_one (recovery_timeout cfg - (now - last_failure_time b)) @ ''s''))"

section \<open>The runner\<close>

record policy =
  max_retries :: int
  base_delay :: secs
  max_delay :: secs
  timeout_s :: secs
  jitter_s :: secs

definition default_policy :: policy where
  "default_policy = \<lparr>max_retries = 3, base_delay = 1, max_delay = 10, timeout_s = 120, jitter_s = 1 / 4\<rparr>"

definition compute_delay :: "policy \<Rightarrow> nat \<Rightarrow> secs \<Rightarrow> secs" where
  "compute_delay pol attempt draw = min (base_delay pol * 2 ^ attempt) (max_delay pol) + jitter_s pol * draw"

datatype 'a outcome = Returned 'a | Raised exc | Cancelled

text \<open>\<open>op_takes\<close> is \<open>None\<close> for an operation that never ends by itself.\<close>

record 'a attempt_env =
  others_before :: "event list"
  others_during :: "event list"
  op_takes :: "secs option"
  op_ends :: "'a outcome"
  draw :: secs

definition call_once :: "policy \<Rightarrow> 'a attempt_env \<Rightarrow> secs \<times> 'a outcome" where
  "call_once pol env =
    (case op_takes env of
       Some t \<Rightarrow> if t < timeout_s pol then (t, op_ends env) else (timeout_s pol, Raised (TimeoutError []))
     | None \<Rightarrow> (timeout_s pol, Raised (TimeoutError [])))"

text \<open>\<open>breaker.call\<close>: the clock at the end, the outcome, and whether the operation was_run.\<close>

definition breaker_call ::
  "(exc \<Rightarrow> bool) \<Rightarrow> string \<Rightarrow> breaker_config \<Rightarrow> policy \<Rightarrow> 'a attempt_env \<Rightarrow> secs \<Rightarrow> world \<Rightarrow> world \<times> secs \<times> 'a outcome \<times> bool" where
  "breaker_call ignored name cfg pol env now w =
    (case breaker_admit cfg now (cb w) of
       (b, Inl err) \<Rightarrow> (w\<lparr>cb := b\<rparr>, now, Raised (refusal name cfg now b err), False)
     | (b, Inr tk) \<Rightarrow>
        (let w1 = world_run cfg (w\<lparr>cb := b\<rparr>) (others_during env);
             (t, out) = call_once pol env;
             b1 = (case out of
                     Returned v \<Rightarrow> settle_success (now + t) tk (cb w1)
                   | Raised e \<Rightarrow> settle_failure cfg (now + t) (\<not> ignored e) tk (cb w1)
                   | Cancelled \<Rightarrow> settle_failure cfg (now + t) False tk (cb w1))
         in (w1\<lparr>cb := b1\<rparr>, now + t, out, True)))"

text \<open>The breaker of \<open>circuit_name\<close>, where one is given: its name, its configuration and the exceptions it ignores.\<close>

type_synonym circuit_ref = "(string \<times> breaker_config \<times> (exc \<Rightarrow> bool)) option"

definition attempt_once :: "circuit_ref \<Rightarrow> policy \<Rightarrow> 'a attempt_env \<Rightarrow> secs \<Rightarrow> world \<Rightarrow> world \<times> secs \<times> 'a outcome \<times> bool" where
  "attempt_once circ pol env now w =
    (case circ of
       Some (name, cfg, ignored) \<Rightarrow> breaker_call ignored name cfg pol env now (world_run cfg w (others_before env))
     | None \<Rightarrow> (let (t, out) = call_once pol env in (w, now + t, out, True)))"

record 'a run_state =
  r_world :: world
  r_clock :: secs
  r_last :: "exc option"
  r_history :: "('a outcome \<times> bool) list"
  r_sleeps :: "secs list"

datatype 'a run_end = Finished 'a nat | Failed exc | Aborted

fun resilience_loop ::
  "circuit_ref \<Rightarrow> policy \<Rightarrow> (exc \<Rightarrow> bool) \<Rightarrow> (nat \<Rightarrow> 'a attempt_env) \<Rightarrow> nat list \<Rightarrow> 'a run_state \<Rightarrow> 'a run_state \<times> 'a run_end" where
  "resilience_loop circ pol retryable envs [] s =
    (s, Failed (case r_last s of
                  Some e \<Rightarrow> e
                | None \<Rightarrow> RuntimeError ''Resilience runner failed without explicit error''))"
| "resilience_loop circ pol retryable envs (attempt # rest) s =
    (let (w, now, out, was_run) = attempt_once circ pol (envs attempt) (r_clock s) (r_world s);
         s1 = s\<lparr>r_world := w, r_clock := now, r_history := r_history s @ [(out, was_run)]\<rparr>
     in case out of
          Returned v \<Rightarrow> (s1, Finished v (attempt + 1))
        | Cancelled \<Rightarrow> (s1, Aborted)
        | Raised e \<Rightarrow>
           (let s2 = s1\<lparr>r_last := Some e\<rparr> in
            if int attempt \<ge> max_retries pol - 1 \<or> \<not> retryable e then (s2, Failed e)
            else
              (let d = compute_delay pol attempt (draw (envs attempt))
               in resilience_loop circ pol retryable envs rest (s2\<lparr>r_clock := r_clock s2 + d, r_sleeps := r_sleeps s2 @ [d]\<rparr>))))"

definition run_with_resilience ::
  "circuit_ref \<Rightarrow> policy option \<Rightarrow> (exc \<Rightarrow> bool) \<Rightarrow> (nat \<Rightarrow> 'a attempt_env) \<Rightarrow> secs \<Rightarrow> world \<Rightarrow> 'a run_state \<times> 'a run_end" where
  "run_with_resilience circ pol retryable envs now w =
    (let effective = (case pol of Some p \<Rightarrow> p | None \<Rightarrow> default_policy)
     in resilience_loop circ effective retryable envs [0..<nat (max_retries effective)]
          \<lparr>r_world = w, r_clock = now, r_last = None, r_history = [], r_sleeps = []\<rparr>)"

section \<open>The runner keeps to its policy\<close>

definition retry_policy_ok :: "policy \<Rightarrow> bool" where
  "retry_policy_ok pol \<longleftrightarrow> 0 < max_retries pol \<and> 0 \<le> timeout_s pol \<and> 0 \<le> jitter_s pol"

definition delay_ok :: "policy \<Rightarrow> nat \<Rightarrow> secs \<Rightarrow> bool" where
  "delay_ok pol i d \<longleftrightarrow>
    min (base_delay pol * 2 ^ i) (max_delay pol) \<le> d \<and> d \<le> min (base_delay pol * 2 ^ i) (max_delay pol) + jitter_s pol"

text \<open>What holds of the record of a run: the operation was left out only where the breaker refused, the pauses are those
  of the policy, and the clock is accounted for.\<close>

definition record_ok :: "circuit_ref \<Rightarrow> policy \<Rightarrow> secs \<Rightarrow> 'a run_state \<Rightarrow> bool" where
  "record_ok circ pol start s \<longleftrightarrow>
    (\<forall>h \<in> set (r_history s). \<not> snd h \<longrightarrow> circ \<noteq> None \<and> (\<exists>t. fst h = Raised (CircuitBreakerOpenError t))) \<and>
    (\<forall>i < length (r_sleeps s). delay_ok pol i (r_sleeps s ! i)) \<and>
    r_clock s \<le> start + of_nat (length (r_history s)) * timeout_s pol + sum_list (r_sleeps s)"

definition failed_retryable :: "(exc \<Rightarrow> bool) \<Rightarrow> 'a outcome \<Rightarrow> bool" where
  "failed_retryable retryable out \<longleftrightarrow> (\<exists>e. out = Raised e \<and> retryable e)"

definition end_ok :: "policy \<Rightarrow> (exc \<Rightarrow> bool) \<Rightarrow> 'a outcome list \<Rightarrow> 'a run_end \<Rightarrow> bool" where
  "end_ok pol retryable hs r \<longleftrightarrow>
    hs \<noteq> [] \<and> length hs \<le> nat (max_retries pol) \<and> list_all (failed_retryable retryable) (butlast hs) \<and>
    (case last hs of
       Returned v \<Rightarrow> r = Finished v (length hs)
     | Cancelled \<Rightarrow> r = Aborted
     | Raised e \<Rightarrow> r = Failed e \<and> (length hs = nat (max_retries pol) \<or> \<not> retryable e))"

lemma call_once_time: "0 \<le> timeout_s pol \<Longrightarrow> fst (call_once pol env) \<le> timeout_s pol"
  by (simp add: call_once_def split: option.split)

lemma attempt_once_record:
  assumes "attempt_once circ pol env now w = (w', now', out, was_run)" and "0 \<le> timeout_s pol"
  shows "now' \<le> now + timeout_s pol" and "\<not> was_run \<Longrightarrow> circ \<noteq> None \<and> (\<exists>t. out = Raised (CircuitBreakerOpenError t))"
  using assms call_once_time [OF assms(2), of env]
  by (auto simp: attempt_once_def breaker_call_def refusal_def Let_def split: option.splits prod.splits sum.splits)

lemma compute_delay_ok: "0 \<le> jitter_s pol \<Longrightarrow> 0 \<le> d \<Longrightarrow> d \<le> 1 \<Longrightarrow> delay_ok pol i (compute_delay pol i d)"
  using mult_left_mono [of d 1 "jitter_s pol"] by (simp add: delay_ok_def compute_delay_def)

lemma resilience_loop_ok:
  assumes pol: "retry_policy_ok pol" and draws: "\<And>i. 0 \<le> draw (envs i) \<and> draw (envs i) \<le> 1"
    and rec: "record_ok circ pol start s" and len: "length (r_history s) = a" "length (r_sleeps s) = a"
    and prev: "list_all (failed_retryable retryable) (map fst (r_history s))" and a: "a < nat (max_retries pol)"
    and run: "resilience_loop circ pol retryable envs [a..<nat (max_retries pol)] s = (s', r)"
  shows "record_ok circ pol start s' \<and> end_ok pol retryable (map fst (r_history s')) r \<and>
    Suc (length (r_sleeps s')) = length (r_history s')"
  using rec len prev a run
proof (induction "nat (max_retries pol) - a" arbitrary: a s)
  case 0
  then show ?case by simp
next
  case (Suc k)
  obtain w now out was_run where o: "attempt_once circ pol (envs a) (r_clock s) (r_world s) = (w, now, out, was_run)" by (metis surj_pair)
  let ?s1 = "s\<lparr>r_world := w, r_clock := now, r_history := r_history s @ [(out, was_run)]\<rparr>"
  have list: "[a..<nat (max_retries pol)] = a # [Suc a..<nat (max_retries pol)]" using Suc.prems(5) by (rule upt_conv_Cons)
  have t: "0 \<le> timeout_s pol" "0 \<le> jitter_s pol" using pol by (simp_all add: retry_policy_ok_def)
  have rec1: "record_ok circ pol start ?s1"
    using Suc.prems(1,2) attempt_once_record [OF o t(1)] by (auto simp: record_ok_def algebra_simps)
  show ?case
  proof (cases "\<exists>e. out = Raised e \<and> retryable e \<and> Suc a < nat (max_retries pol)")
    case True
    then obtain e where e: "out = Raised e" "retryable e" "Suc a < nat (max_retries pol)" by blast
    then have "\<not> max_retries pol - 1 \<le> int a" by linarith
    define d where "d = compute_delay pol a (draw (envs a))"
    let ?s2 = "?s1\<lparr>r_last := Some e, r_clock := now + d, r_sleeps := r_sleeps s @ [d]\<rparr>"
    have "record_ok circ pol start ?s2"
      using rec1 Suc.prems(3) compute_delay_ok [OF t(2), of "draw (envs a)" a] draws [of a]
      by (auto simp: record_ok_def nth_append d_def less_Suc_eq)
    moreover have "resilience_loop circ pol retryable envs [Suc a..<nat (max_retries pol)] ?s2 = (s', r)"
      using Suc.prems(6) o e \<open>\<not> max_retries pol - 1 \<le> int a\<close> unfolding list by (simp add: Let_def d_def)
    ultimately show ?thesis
      using Suc.hyps(1) [of "Suc a" ?s2] Suc.hyps(2) Suc.prems(2-4) e by (simp add: failed_retryable_def)
  next
    case False
    have "r_history s' = r_history ?s1 \<and> r_sleeps s' = r_sleeps s \<and> r_clock s' = now \<and>
        (case out of Returned v \<Rightarrow> r = Finished v (Suc a) | Cancelled \<Rightarrow> r = Aborted
         | Raised e \<Rightarrow> r = Failed e \<and> (Suc a = nat (max_retries pol) \<or> \<not> retryable e))"
      using Suc.prems(5,6) o False unfolding list by (cases out) (auto simp: Let_def split: if_splits)
    then show ?thesis using rec1 Suc.prems(2-5) by (cases out) (auto simp: record_ok_def end_ok_def)
  qed
qed

text \<open>Alone on its breaker, a run is counted there with exactly the operations it ran.\<close>

definition operations_run :: "'a run_state \<Rightarrow> nat" where
  "operations_run s = length (filter snd (r_history s))"

lemma settle_requests [simp]:
  "total_requests (settle_success t tk b) = total_requests b" "total_requests (settle_failure cfg t expected tk b) = total_requests b"
  by (simp_all add: settle_success_def settle_failure_def on_failure_def Let_def)

lemma attempt_once_requests:
  assumes "attempt_once (Some (name, cfg, ignored)) pol env now w = (w', now', out, was_run)"
    and "others_before env = []" and "others_during env = []"
  shows "total_requests (cb w') = total_requests (cb w) + of_bool was_run"
proof (cases "breaker_admit cfg now (cb w)")
  case (Pair b res)
  have "total_requests b = total_requests (cb w) + of_bool (\<not> isl res)"
    using Pair by (auto simp: breaker_admit_def count_request_def split: if_splits)
  with Pair assms show ?thesis
    by (cases res) (auto simp: attempt_once_def breaker_call_def world_run_def Let_def split: prod.splits outcome.splits)
qed

lemma resilience_loop_requests:
  assumes alone: "\<And>i. others_before (envs i) = [] \<and> others_during (envs i) = []"
    and run: "resilience_loop (Some (name, cfg, ignored)) pol retryable envs as s = (s', r)"
  shows "total_requests (cb (r_world s')) - int (operations_run s') = total_requests (cb (r_world s)) - int (operations_run s)"
  using run
proof (induction as arbitrary: s)
  case Nil
  then show ?case by auto
next
  case (Cons a as)
  obtain w now out was_run where o: "attempt_once (Some (name, cfg, ignored)) pol (envs a) (r_clock s) (r_world s) = (w, now, out, was_run)"
    by (metis surj_pair)
  let ?s1 = "s\<lparr>r_world := w, r_clock := now, r_history := r_history s @ [(out, was_run)]\<rparr>"
  have one: "total_requests (cb w) - int (operations_run ?s1) = total_requests (cb (r_world s)) - int (operations_run s)"
    using attempt_once_requests [OF o] alone [of a] by (simp add: operations_run_def)
  show ?case
  proof (cases "\<exists>e. out = Raised e \<and> \<not> (max_retries pol - 1 \<le> int a \<or> \<not> retryable e)")
    case True
    then obtain e where e: "out = Raised e" "\<not> max_retries pol - 1 \<le> int a" "retryable e" by blast
    with Cons.prems o Cons.IH one show ?thesis by (force simp: Let_def operations_run_def)
  next
    case False
    with Cons.prems o one show ?thesis by (cases out) (auto simp: Let_def operations_run_def split: if_splits)
  qed
qed

text \<open>
  Property C35. A call with retries keeps to its policy, whatever other calls do to the breaker meanwhile. It ends after one to
  \<open>max_retries\<close> attempts: every attempt but the last failed with a retryable error; the last one returned the result
  that is handed back with the number of attempts, or was cancelled, or failed with the error that is raised, and then it
  was not retryable or the attempts were used up. An attempt leaves out the operation only where a breaker is configured
  and refused it. The pauses are the exponential, capped delays with their jitter, one fewer than the attempts, and the
  run takes at most the timeouts of its attempts and its pauses, even when an operation never ends. When nobody else uses
  the breaker, it counts exactly the operations that were run.
\<close>

theorem resilient_call:
  fixes envs :: "nat \<Rightarrow> 'a attempt_env"
  assumes "retry_policy_ok pol" and "\<And>i. 0 \<le> draw (envs i) \<and> draw (envs i) \<le> 1"
    and "run_with_resilience circ (Some pol) retryable envs start w = (s, r)"
  shows "end_ok pol retryable (map fst (r_history s)) r \<and> record_ok circ pol start s \<and>
    Suc (length (r_sleeps s)) = length (r_history s) \<and>
    (circ \<noteq> None \<and> (\<forall>i. others_before (envs i) = [] \<and> others_during (envs i) = []) \<longrightarrow>
      total_requests (cb (r_world s)) = total_requests (cb w) + int (operations_run s))"
proof -
  let ?s0 = "\<lparr>r_world = w, r_clock = start, r_last = None, r_history = [], r_sleeps = []\<rparr> :: 'a run_state"
  have run: "resilience_loop circ pol retryable envs [0..<nat (max_retries pol)] ?s0 = (s, r)"
    using assms(3) by (simp add: run_with_resilience_def)
  have "total_requests (cb (r_world s)) = total_requests (cb w) + int (operations_run s)"
    if "circ \<noteq> None" "\<forall>i. others_before (envs i) = [] \<and> others_during (envs i) = []"
    using that run resilience_loop_requests [of envs] by (fastforce simp: operations_run_def)
  moreover have "0 < nat (max_retries pol)" "record_ok circ pol start ?s0" using assms(1) by (simp_all add: retry_policy_ok_def record_ok_def)
  ultimately show ?thesis using resilience_loop_ok [OF assms(1,2) _ _ _ _ _ run, of start] by simp
qed

text \<open>The first operation never ends, the second returns at once.\<close>

definition example_envs :: "nat \<Rightarrow> int attempt_env" where
  "example_envs i =
    \<lparr>others_before = [], others_during = [], op_takes = (if i = 0 then None else Some 1), op_ends = Returned 7, draw = 0\<rparr>"

definition example_call :: "int run_state \<times> int run_end" where
  "example_call = run_with_resilience (Some (''ai_provider'', default_config, \<lambda>e. False)) (Some default_policy)
     is_retryable_exception example_envs 0 (world_init 0)"

theorem resilient_call_witness:
  "snd example_call = Finished 7 2 \<and> r_sleeps (fst example_call) = [1] \<and> r_clock (fst example_call) = 122 \<and>
    record_ok (Some (''ai_provider'', default_config, \<lambda>e. False)) default_policy 0 (fst example_call) \<and>
    total_requests (cb (r_world (fst example_call))) = 2"
proof -
  have pol: "retry_policy_ok default_policy" by code_simp
  have draws: "\<And>i. 0 \<le> draw (example_envs i) \<and> draw (example_envs i) \<le> 1" by (simp add: example_envs_def)
  have alone: "\<forall>i. others_before (example_envs i) = [] \<and> others_during (example_envs i) = []" by (simp add: example_envs_def)
  have run: "run_with_resilience (Some (''ai_provider'', default_config, \<lambda>e. False)) (Some default_policy)
     is_retryable_exception example_envs 0 (world_init 0) = (fst example_call, snd example_call)" by (simp add: example_call_def)
  have vals: "snd example_call = Finished 7 2" "r_sleeps (fst example_call) = [1]" "r_clock (fst example_call) = 122"
    "operations_run (fst example_call) = 2" "total_requests (cb (world_init 0)) = 0" by code_simp+
  from resilient_call [OF pol draws run] alone vals show ?thesis by simp
qed

section \<open>Health\<close>

datatype service_status = HEALTHY | DEGRADED | UNAVAILABLE

datatype detail = DText string | DCount nat

record system_health =
  database :: service_status
  redis :: service_status
  ai_provider :: service_status
  details :: "(string, detail) dict"

definition overall :: "system_health \<Rightarrow> service_status" where
  "overall h =
    (let statuses = [database h, redis h, ai_provider h] in
     if UNAVAILABLE \<in> set statuses then DEGRADED else if DEGRADED \<in> set statuses then DEGRADED else HEALTHY)"

text \<open>\<open>check_system_health\<close>: the database answers whether it is well, Redis is absent (\<open>None\<close>) or answers a ping, and
  either may raise (\<open>Inl\<close> with the text).\<close>

definition check_database :: "string + bool \<Rightarrow> system_health \<Rightarrow> system_health" where
  "check_database db h =
    (case db of
       Inr ok \<Rightarrow> h\<lparr>database := (if ok then HEALTHY else UNAVAILABLE)\<rparr>
     | Inl e \<Rightarrow> h\<lparr>database := UNAVAILABLE, details := dict_set (details h) ''database_error'' (DText e)\<rparr>)"

definition check_redis :: "string + bool option \<Rightarrow> system_health \<Rightarrow> system_health" where
  "check_redis rd h =
    (case rd of
       Inr None \<Rightarrow> h\<lparr>redis := DEGRADED, details := dict_set (details h) ''redis'' (DText ''not_configured'')\<rparr>
     | Inr (Some pong) \<Rightarrow> h\<lparr>redis := (if pong then HEALTHY else UNAVAILABLE)\<rparr>
     | Inl e \<Rightarrow> h\<lparr>redis := DEGRADED, details := dict_set (details h) ''redis_error'' (DText e)\<rparr>)"

definition check_circuits :: "registry \<Rightarrow> system_health \<Rightarrow> system_health" where
  "check_circuits reg h =
    (let open_count = length (filter (\<lambda>(name, cfg, b). has_token ''ai_provider'' name \<and> circuit b = OPEN) reg) in
     if open_count > 0
     then h\<lparr>ai_provider := DEGRADED, details := dict_set (details h) ''ai_circuits_open'' (DCount open_count)\<rparr> else h)"

definition check_system_health :: "string + bool \<Rightarrow> string + bool option \<Rightarrow> registry \<Rightarrow> system_health" where
  "check_system_health db rd reg =
    check_circuits reg (check_redis rd (check_database db
      \<lparr>database = HEALTHY, redis = HEALTHY, ai_provider = HEALTHY, details = []\<rparr>))"

datatype refusal_message = DatabaseDown | ProviderDown

definition can_process_message :: "system_health \<Rightarrow> bool \<times> refusal_message option" where
  "can_process_message h =
    (if database h = UNAVAILABLE then (False, Some DatabaseDown)
     else if ai_provider h = UNAVAILABLE then (False, Some ProviderDown)
     else (True, None))"

lemma overall_healthy: "overall h = HEALTHY \<longleftrightarrow> database h = HEALTHY \<and> redis h = HEALTHY \<and> ai_provider h = HEALTHY"
  by (cases "database h"; cases "redis h"; cases "ai_provider h") (simp_all add: overall_def)

lemma health_of_circuits:
  "ai_provider (check_system_health db rd reg) =
    (if \<exists>(name, cfg, b) \<in> set reg. has_token ''ai_provider'' name \<and> circuit b = OPEN then DEGRADED else HEALTHY)"
  by (auto simp: check_system_health_def check_circuits_def check_redis_def check_database_def Let_def filter_empty_conv
      split: sum.split option.split)

text \<open>The health check never reports the provider as unavailable, so the message for that case is never chosen: a message
  is refused exactly when the database fails.\<close>

lemma health_never_blames_provider:
  "can_process_message (check_system_health db rd reg) = (if db = Inr True then (True, None) else (False, Some DatabaseDown))"
proof -
  have "database (check_system_health db rd reg) = (if db = Inr True then HEALTHY else UNAVAILABLE)"
    by (auto simp: check_system_health_def check_circuits_def check_redis_def check_database_def Let_def split: sum.split option.split)
  then show ?thesis by (simp add: can_process_message_def health_of_circuits)
qed

end
