(* ===== verification/Spec2Isabelle.thy ===== *)
theory Spec2Isabelle
  imports Queue_Properties Queue_Client Redis_Properties Document_Jobs Broadcast_Service Llm_Semaphore Breaker Daily_2048 Ingress Update_Lanes Request_Dedup
    Context_Assembler Chunking Ai_Budget Resilience
begin

text \<open>
  A verification of the core logic of the bot, a Telegram assistant in Python (\<^verbatim>\<open>src/bot.py\<close>, \<^verbatim>\<open>src/app\<close>).

  An update arrives as an HTTP request. The webhook handler admits it behind a gate: it looks for room in the bounded
  update queue, claims the update in Redis or in a local history, and hands it over. A dispatcher takes updates from the
  queue and processes them in lanes, one at a time per user. Handlers refuse repeated requests, assemble the history of the
  conversation within a token budget, cut documents into chunks, submit long work to a job queue, broadcast to subscribers, and call external
  services with retries through circuit breakers. The games have their own budget for model calls and keep the boards
  and results of a daily 2048 puzzle.

  \<^bold>\<open>Conventions.\<close> A Python dictionary is an association list in insertion order (\<open>dict\<close> of \<open>Prelude\<close>), an \<open>int\<close> an
  \<open>int\<close>, a \<open>float\<close> its exact rational value (\<open>secs\<close>, \<open>rat\<close>), ASCII text a \<open>string\<close> and Unicode text a list of code points
  (\<open>utext\<close>). Exceptions are the left summand of a sum. A method that does not suspend is one function; a coroutine is cut
  where it suspends, and its parts are the events of a step function on the state of the component, so that a run (a list
  of events) is an interleaving of tasks. The clock is an argument of every operation, read in the order of the code.
  Hash functions, Redis commands, JSON decoding, Unicode tables and random draws are arguments of the definitions.
  The loops of the text functions that are not structural have termination proofs; the one that could run forever
  (\<open>hard_split_from\<close> of \<open>Chunking\<close>) returns an \<open>option\<close>, and the theorems show that it returns.

  \<^bold>\<open>The shared theories.\<close>
  \<^item> \<open>Prelude\<close>: dictionaries and their lemmas, sums over dictionaries, decimal numerals, and the locales of runs:
    \<open>invariant_run\<close> (a step that keeps an invariant) and its extension by a preorder of the states of a run.
  \<^item> \<open>Recency\<close>: histories that shed their oldest entries, and which entries survive.
  \<^item> \<open>Sliding_Window\<close>: the locale of rate limits over the last 60 seconds.
  \<^item> \<open>Json_Values\<close>, \<open>Unicode_Text\<close>: parsed JSON with \<open>int(...)\<close> and \<open>str.strip\<close>; UTF-8 and its decoder.

  \<^bold>\<open>The job queue\<close> (\<^verbatim>\<open>app/queue_contracts.py\<close>, class \<open>MemoryQueueStore\<close> of \<^verbatim>\<open>app/queue_store.py\<close>).
  \<open>Queue_Contracts\<close> has the policies, states and errors, \<open>Queue_Store\<close> the record \<open>store\<close> and one function per method.
  \<open>Queue_Sweep\<close> treats the sweep record by record, \<open>Queue_Invariants\<close> the lifecycle of a job and the well-formedness of
  records, \<open>Queue_Bounds\<close> the capacities, \<open>Queue_Identity\<close> the idempotency index, \<open>Queue_Commands\<close> single calls,
  \<open>Queue_Run\<close> the runs. \<open>Queue_Properties\<close> shows: lanes, image work, jobs and bytes stay within the limits; records and
  payloads are well formed; a record refines the lifecycle relation; the sweep is complete; a delivery that may have
  happened is never repeated; claims take the first runnable job and do not idle; submissions, settlements and retries
  take effect once; other owners are refused; an erasure is complete and exact; paging enumerates everything once.

  \<^bold>\<open>The workers of the job queue\<close> (\<^verbatim>\<open>app/queue_runtime.py\<close>, \<^verbatim>\<open>app/queue_scheduling.py\<close>, over the local store).
  \<open>Queue_Ownership\<close> says of two stores that no job changed hands between them, and proves it of every call but a claim and a
  settlement. \<open>Queue_Runtime\<close> has the state of the workers and one function per stretch of \<open>_worker\<close>, \<open>_run_claim\<close>,
  \<open>_finish_claim\<close>, the guard and its heartbeat between two awaits; \<open>reach\<close> is the relation of reachable states, over all
  interleavings of the workers, the clients' calls, cancellations, purges and stops. \<open>Queue_Workers\<close> keeps the invariant:
  an effectful job that was entered is with its execution, over, or was returned as retryable by that execution.
  \<open>Queue_Client\<close> has the commands (registration, submission, cancellation, retry) and shows: an effectful handler is entered
  again only after a retryable result of its own; an interrupted or crashed execution is settled as an unknown delivery;
  an accepted job has the flags of its registration and the user's privacy epoch; registrations are well formed, and only the
  handler of one is ever replaced.
  The tokens of claims are drawn fresh (\<open>uuid4\<close>); privacy leases, handlers and the decoding of payloads answer anything.
  \<open>Document_Jobs\<close> (\<^verbatim>\<open>app/document_processor.py\<close> and the document handler) shows when a document job may ask for another
  execution, and that a cancellation found by its checkpoint is reported as an unknown delivery.

  \<^bold>\<open>The durable adapter of the job queue\<close> (the Lua program of \<^verbatim>\<open>app/queue_lua.py\<close>). \<open>Redis_Script\<close> has the keys of the
  database as a record, what Redis drops by time, and one function per function and command of the script; \<open>redis_step\<close> is one
  call. \<open>Redis_Counts\<close> and \<open>Redis_Bounds\<close>: the counters of a lane are exact and the limits hold in every reachable database, but
  bytes whose record expired too early stay counted for ever. \<open>Redis_Repeat\<close>: a command that did its work may be sent again.
  \<open>Redis_Agreement\<close>: a record moves as in the local store, but for two reasons it records. Identifiers of new jobs are fresh.

  \<^bold>\<open>Broadcasts\<close> (\<^verbatim>\<open>app/repos/broadcast_jobs.py\<close>, \<^verbatim>\<open>app/broadcast_delivery.py\<close>, \<^verbatim>\<open>app/broadcast_jobs.py\<close>, with the erasure
  of a user in \<^verbatim>\<open>app/repos/users.py\<close>). \<open>Broadcast_Journal\<close> has the three tables and one function per transaction;
  \<open>Broadcast_Delivery\<close> the sessions of \<open>DeliveryOwner\<close>, cut at their awaits, beside every other client of the journal, with a log
  of all calls of the bot; the formatting helpers behind a session may send, catch and end as they like, one call at a time.
  \<open>Broadcast_Safety\<close> has what a session knows and how each transaction moves the rows. \<open>Broadcast_Once\<close>: over a batch and all
  its retries no recipient is sent the broadcast twice, the recorded outcomes are true, and an open delivery stops its session.
  \<open>Broadcast_Counts\<close>: the counts of a batch are exact, that of retryable failures in every run that records no rejection for a
  running batch.
  \<open>Broadcast_Service\<close> has the candidates, the calls that make, retry and schedule batches, the job's report and the recovery:
  repeated operations make nothing new, recovery quarantines and never replays, a report is complete.

  \<^bold>\<open>The global semaphore of model calls\<close> (\<^verbatim>\<open>app/adapters/concurrency.py\<close>). \<open>Llm_Semaphore\<close> has several processes, their
  local semaphores and the set of leases on Redis, with commands and answers that are late, repeated or lost. At most the
  limit of calls run under a lease that is still good, because a lease is counted from before the command that confirmed it;
  the counters are exact; the exit tells the caller's cancellation from its own.

  \<^bold>\<open>External calls\<close> (\<^verbatim>\<open>app/circuit_breaker.py\<close>, \<^verbatim>\<open>app/resilience_policy.py\<close>, \<^verbatim>\<open>app/degradation.py\<close>). \<open>Breaker\<close> has the
  critical sections of a breaker and the calls in flight: a half-open breaker has exactly one probe, no breaker whose
  threshold is at most \<open>max_failures\<close> gets stuck, late completions change nothing but statistics; beyond that bound it
  can lock up. \<open>Resilience\<close> composes it with the retrying runner, which keeps to its attempts, pauses and timeouts, and
  with the health check, which never reports the provider as unavailable.

  \<^bold>\<open>Updates\<close> (\<^verbatim>\<open>app/webhook_dedupe.py\<close>, \<^verbatim>\<open>app/update_queue.py\<close>, \<^verbatim>\<open>app/observability/ingress.py\<close>,
  \<^verbatim>\<open>app/webhook_admission.py\<close>, \<^verbatim>\<open>app/webhook_security.py\<close>, \<^verbatim>\<open>app/update_processor.py\<close>, \<^verbatim>\<open>app/middleware/dedup.py\<close>, and
  the handler and \<open>admit_update\<close> of \<^verbatim>\<open>bot.py\<close>). \<open>Webhook_Dedupe\<close>: an admitted update is refused again while it is
  remembered. \<open>Update_Queue\<close>: the bound of the queue, and no producer misses a wakeup, cancellations included. \<open>Ingress\<close>
  composes the two under the gate: a claimed update is never lost to a full queue, and nothing runs once the stop
  callback has begun. \<open>Update_Lanes\<close>: one update per user at a time, no more than the slots in all, and no lock is dropped
  while somebody refers to it. \<open>Request_Dedup\<close>: the same request within the window is a duplicate.

  \<^bold>\<open>Context\<close> (\<^verbatim>\<open>app/context/token_budget.py\<close>, \<^verbatim>\<open>app/context/assembler.py\<close>, \<^verbatim>\<open>app/documents/chunking.py\<close>, with the
  estimate of \<^verbatim>\<open>app/prompt_registry.py\<close> and the summary turn of \<^verbatim>\<open>app/context/summarizer.py\<close>). \<open>Token_Budget\<close>: truncation
  returns a prefix within the limit, cut at a character. \<open>Context_Assembler\<close>: what is kept and dropped of a conversation.
  \<open>Chunking\<close>: splitting ends, loses no visible character but separators, and the selection stays within its limit.

  \<^bold>\<open>Daily 2048\<close> (\<^verbatim>\<open>app/games/daily_2048.py\<close>, \<^verbatim>\<open>app/repos/daily_2048.py\<close>). \<open>Game_2048\<close> has boards, moves, spawns and scores;
  \<open>Daily_2048\<close> the two tables and the operations on them: an accepted ranked move is a legal move of the server's board
  with the next tile of the sequence, and finished results and started puzzles do not change.

  \<^bold>\<open>Model budget of the games\<close> (\<^verbatim>\<open>app/games/ai_budget.py\<close>). \<open>Ai_Budget\<close>: the limit per minute holds of the local window
  and of the Lua script on Redis, both interpretations of \<open>Sliding_Window\<close>, and semaphores count the leases that are out.

  \<^bold>\<open>Bounds.\<close> No model runs on fuel. The only count of steps is that of the paging client of \<open>Queue_Commands\<close>, which is given
  a number of pages; the property on paging holds for every number that covers the records.

  \<^bold>\<open>Not modelled.\<close> The version-one predecessor of the job queue, the web server and mini apps, the Telegram
  handlers, the clients of AI providers, memory and the other tables in PostgreSQL, the other games, natal charts and
  tarot, configuration, observability and texts: they are input and output, SQL, prompts, floating point
  astronomy or data, outside what the kernel can say much about. Of the modelled files, logging, metrics and the methods only tests call are left
  out. Float rounding is not modelled: times and scores are exact.
\<close>

end
